(* ===== verification/Prelude.thy ===== *)
theory Prelude
  imports Main "HOL-Library.Word"
begin

text \<open>
  Shared vocabulary of the development: the C integer types as words, byte-addressed memory
  with reads and writes of little-endian integers, NUL-terminated strings in memory, and the
  generic lemmas on address arithmetic that the component theories use.

  An address is a 64-bit word and address arithmetic wraps, as it does on the target.  A range
  of \<open>n\<close> bytes starting at \<open>a\<close> is the set of addresses \<open>x\<close> with \<open>unat (x - a) < n\<close>; almost all
  reasoning about overlap goes through this offset, which is insensitive to wrap-around.
\<close>

unbundle bit_operations_syntax

type_synonym u8 = "8 word"
type_synonym u16 = "16 word"
type_synonym u32 = "32 word"
type_synonym u64 = "64 word"
type_synonym addr = "64 word"
type_synonym memory = "addr \<Rightarrow> u8"

named_theorems mem_simps \<open>reads over writes in byte-addressed memory\<close>
named_theorems eval_simps \<open>unfolding of recursions at numerals, for concrete inputs\<close>
named_theorems off_simps \<open>offsets between addresses\<close>

section \<open>Offsets\<close>

definition in_range :: "addr \<Rightarrow> nat \<Rightarrow> addr \<Rightarrow> bool" where
  "in_range a n x \<longleftrightarrow> unat (x - a) < n"

definition no_overlap :: "addr \<Rightarrow> nat \<Rightarrow> addr \<Rightarrow> nat \<Rightarrow> bool" where
  "no_overlap a n b k \<longleftrightarrow> (\<forall>x. \<not> (in_range a n x \<and> in_range b k x))"

lemma unat_of_nat_u64 [off_simps]: "n < 2 ^ 64 \<Longrightarrow> unat (of_nat n :: u64) = n"
  by (simp add: unat_of_nat take_bit_nat_eq_self)

lemma unat_less_2p64 [simp]: "unat (a :: u64) < 18446744073709551616"
  using unsigned_less [of a] by simp

lemma unat_le_2p64 [simp]: "unat (a :: u64) \<le> 18446744073709551616"
  by (simp add: less_imp_le)

lemma less_2p64_le_unat: "n \<le> unat (a :: u64) \<Longrightarrow> n < 2 ^ 64"
  by (simp add: le_less_trans [OF _ unat_less_2p64])

lemma uint_eq_iff [simp]: "uint (x :: 'a::len word) = uint y \<longleftrightarrow> x = y"
  by (simp add: word_uint_eq_iff)

lemma unat_inj_iff [simp]: "unat (x :: 'a::len word) = unat y \<longleftrightarrow> x = y"
  by (simp add: word_unat_eq_iff)

lemma unat_ucast_up:
  "LENGTH('a) \<le> LENGTH('b) \<Longrightarrow> unat (ucast (w :: 'a::len word) :: 'b::len word) = unat w"
  by (simp add: unsigned_ucast_eq)
    (rule take_bit_nat_eq_self, rule less_le_trans [OF unsigned_less], simp)

lemma ucast_up_eq_iff:
  "LENGTH('a) \<le> LENGTH('b) \<Longrightarrow>
   (ucast (v :: 'a::len word) :: 'b::len word) = ucast w \<longleftrightarrow> v = w"
  by (metis unat_ucast_up unat_inj_iff)

lemma uint_u8_less: "uint (x :: u8) < 256"
  using unsigned_less [of x] by simp

lemma unat_add_1_u64:
  "unat (x :: u64) + 1 < 2 ^ 64 \<Longrightarrow> unat (x + 1) = Suc (unat x)"
  by (simp add: unat_word_ariths)

lemma unat_add_of_nat_u64:
  "unat (x :: u64) + n < 2 ^ 64 \<Longrightarrow> unat (x + of_nat n) = unat x + n"
  by (simp add: unat_word_ariths unat_of_nat_u64)

lemma u64_step: "i < (n :: u64) \<Longrightarrow> 2 ^ 64 - unat (i + 1) < 2 ^ 64 - unat i"
proof -
  assume "i < n"
  then have "unat i < unat n" by (simp add: word_less_nat_alt)
  moreover have "unat n < 2 ^ 64" by simp
  moreover have "unat i + 1 < 2 ^ 64" using calculation by linarith
  then have "unat (i + 1) = unat i + 1" using unat_add_of_nat_u64 [of i 1] by simp
  ultimately show ?thesis by linarith
qed

lemma unat_minus_1_u64: "(x :: u64) \<noteq> 0 \<Longrightarrow> unat (x - 1) = unat x - 1"
  by (rule unat_minus_one)

lemma offset_shift [off_simps]: "(x :: addr) - (a + b) = (x - a) - b"
  by simp

lemma offset_Suc_cases:
  "unat ((x :: addr) - a) < Suc n \<longleftrightarrow> x = a \<or> unat (x - (a + 1)) < n" if "n < 2 ^ 64"
proof (cases "x = a")
  case True
  then show ?thesis by simp
next
  case False
  then have "x - a \<noteq> 0" by simp
  then have "unat ((x - a) - 1) = unat (x - a) - 1" and "0 < unat (x - a)"
    by (simp_all add: unat_minus_1_u64 unat_gt_0)
  then have "unat (x - (a + 1)) = unat (x - a) - 1" and "0 < unat (x - a)"
    by (simp_all only: diff_diff_add)
  then show ?thesis using False by linarith
qed

lemma addr_offset_eq: "(a :: addr) + (x - a) = x"
  by simp

lemma of_nat_unat_u64 [simp]: "of_nat (unat (x :: u64)) = x"
  by simp

lemma offset_of_nat_eq:
  "i < 2 ^ 64 \<Longrightarrow> unat ((a + of_nat i :: addr) - a) = i"
  by (simp add: unat_of_nat_u64)

lemma addr_plus_of_nat_inj:
  "i < 2 ^ 64 \<Longrightarrow> j < 2 ^ 64 \<Longrightarrow> (a + of_nat i = (a + of_nat j :: addr)) = (i = j)"
  by (metis add_left_cancel unat_of_nat_u64)

lemma in_range_0 [simp]: "\<not> in_range a 0 x"
  by (simp add: in_range_def)

lemma in_range_offset [simp]: "i < n \<Longrightarrow> n \<le> 2 ^ 64 \<Longrightarrow> in_range a n (a + of_nat i)"
  by (simp add: in_range_def unat_of_nat_u64)

lemma in_rangeE:
  assumes "in_range a n x"
  obtains i where "i < n" "x = a + of_nat i" "i < 2 ^ 64"
proof
  show "unat (x - a) < n" using assms by (simp add: in_range_def)
  show "x = a + of_nat (unat (x - a))" by simp
  show "unat (x - a) < 2 ^ 64" by simp
qed

lemma in_range_sub:
  assumes "in_range (a + of_nat k) n x" "k + n \<le> l" "l \<le> 2 ^ 64"
  shows "in_range a l x"
proof -
  obtain i where i: "i < n" "x = a + of_nat k + of_nat i" using assms(1) by (rule in_rangeE)
  then have "x = a + of_nat (k + i)" by (simp add: add.assoc)
  then show ?thesis using i(1) assms(2,3) by (simp add: in_range_def unat_of_nat_u64 del: of_nat_add)
qed

lemma no_overlap_sym: "no_overlap a n b k \<longleftrightarrow> no_overlap b k a n"
  by (auto simp: no_overlap_def)

lemma no_overlap_mono:
  "no_overlap a n b k \<Longrightarrow> n' \<le> n \<Longrightarrow> k' \<le> k \<Longrightarrow> no_overlap a n' b k'"
  unfolding no_overlap_def in_range_def by (meson order_less_le_trans)

lemma unat_sub_u64:
  "unat ((x :: u64) - a) = (if unat a \<le> unat x then unat x - unat a else unat x + 2 ^ 64 - unat a)"
  using unat_sub_if' [of x a] by (simp add: word_le_nat_alt)

lemma no_overlap_linear:
  assumes "unat a + n \<le> unat b" "unat b + k \<le> 2 ^ 64"
  shows "no_overlap a n b k" and "no_overlap b k a n"
proof -
  have "\<not> (in_range a n x \<and> in_range b k x)" for x
    using assms unat_less_2p64 [of x] unat_less_2p64 [of a] unat_less_2p64 [of b]
    by (auto simp: in_range_def unat_sub_u64 split: if_splits)
  then show "no_overlap a n b k" "no_overlap b k a n"
    by (auto simp: no_overlap_def)
qed

lemma no_overlap_distance:
  assumes "n \<le> unat (b - a)" "unat (b - a) + k \<le> 2 ^ 64"
  shows "no_overlap a n b k" and "no_overlap b k a n"
proof -
  have "\<not> in_range a n x" if "in_range b k x" for x
  proof -
    have "unat ((x - b) + (b - a)) = unat (x - b) + unat (b - a)"
      using that assms(2) by (intro unat_add_lem [THEN iffD1]) (simp add: in_range_def)
    then show ?thesis using assms(1) by (simp add: in_range_def)
  qed
  then show "no_overlap a n b k" "no_overlap b k a n" by (auto simp: no_overlap_def)
qed

lemma no_overlap_src_offset:
  assumes "no_overlap d n s n" "n \<le> 2 ^ 64"
  shows "n = 0 \<or> n \<le> unat (d - s)"
proof (rule ccontr)
  assume "\<not> ?thesis"
  then have "0 < n" "unat (d - s) < n" by auto
  then have "in_range d n d" "in_range s n d" by (simp_all add: in_range_def)
  with assms show False by (auto simp: no_overlap_def)
qed

section \<open>Blocks of bytes\<close>

primrec read_bytes :: "memory \<Rightarrow> addr \<Rightarrow> nat \<Rightarrow> u8 list" where
  "read_bytes m a 0 = []"
| "read_bytes m a (Suc n) = m a # read_bytes m (a + 1) n"

primrec write_bytes :: "memory \<Rightarrow> addr \<Rightarrow> u8 list \<Rightarrow> memory" where
  "write_bytes m a [] = m"
| "write_bytes m a (b # bs) = write_bytes (m(a := b)) (a + 1) bs"

definition block_copy :: "memory \<Rightarrow> addr \<Rightarrow> addr \<Rightarrow> nat \<Rightarrow> memory" where
  "block_copy m d s n = (\<lambda>x. if in_range d n x then m (s + (x - d)) else m x)"

definition block_fill :: "memory \<Rightarrow> addr \<Rightarrow> u8 \<Rightarrow> nat \<Rightarrow> memory" where
  "block_fill m a v n = (\<lambda>x. if in_range a n x then v else m x)"

lemma read_bytes_numeral [eval_simps]:
  "read_bytes m a (numeral k) = m a # read_bytes m (a + 1) (pred_numeral k)"
  by (simp add: numeral_eq_Suc)

lemma length_read_bytes [simp]: "length (read_bytes m a n) = n"
  by (induction n arbitrary: a) auto

lemma nth_read_bytes [simp]: "i < n \<Longrightarrow> read_bytes m a n ! i = m (a + of_nat i)"
proof (induction n arbitrary: a i)
  case 0
  then show ?case by simp
next
  case (Suc n)
  then show ?case by (cases i) (simp_all add: algebra_simps)
qed

lemma read_bytes_cong:
  "(\<And>i. i < n \<Longrightarrow> m (a + of_nat i) = m' (b + of_nat i)) \<Longrightarrow> read_bytes m a n = read_bytes m' b n"
  by (rule nth_equalityI) auto

lemma read_bytes_add:
  "read_bytes m a (n + k) = read_bytes m a n @ read_bytes m (a + of_nat n) k"
  by (induction n arbitrary: a) (simp_all add: algebra_simps)

lemma write_bytes_apply:
  "length bs \<le> 2 ^ 64 \<Longrightarrow>
   write_bytes m a bs x = (if in_range a (length bs) x then bs ! unat (x - a) else m x)"
proof (induction bs arbitrary: m a)
  case Nil
  then show ?case by simp
next
  case (Cons b bs)
  then have len: "length bs < 2 ^ 64" by simp
  have IH: "write_bytes (m(a := b)) (a + 1) bs x =
      (if in_range (a + 1) (length bs) x then bs ! unat (x - (a + 1)) else (m(a := b)) x)"
    using Cons by simp
  show ?case
  proof (cases "x = a")
    case True
    have "unat (a - (a + 1)) = 18446744073709551615"
      by (simp add: unsigned_minus_1_eq_mask mask_eq_exp_minus_1)
    then have "\<not> unat (a - (a + 1)) < length bs"
      using len by simp
    with True IH show ?thesis by (simp add: in_range_def)
  next
    case False
    then have "unat (x - (a + 1)) = unat (x - a) - 1" "0 < unat (x - a)"
      using unat_minus_1_u64 [of "x - a"] by (simp_all add: unat_gt_0 diff_diff_add)
    with False IH len show ?thesis
      by (auto simp: in_range_def offset_Suc_cases nth_Cons')
  qed
qed

lemma write_bytes_outside [mem_simps]:
  "length bs \<le> 2 ^ 64 \<Longrightarrow> \<not> in_range a (length bs) x \<Longrightarrow> write_bytes m a bs x = m x"
  by (simp add: write_bytes_apply)

lemma read_write_bytes [mem_simps]:
  "length bs \<le> 2 ^ 64 \<Longrightarrow> read_bytes (write_bytes m a bs) a (length bs) = bs"
  by (rule nth_equalityI) (auto simp: write_bytes_apply unat_of_nat_u64)

lemma read_write_bytes_disjoint [mem_simps]:
  assumes "no_overlap a (length bs) b n" "length bs \<le> 2 ^ 64" "n \<le> 2 ^ 64"
  shows "read_bytes (write_bytes m a bs) b n = read_bytes m b n"
proof (rule read_bytes_cong)
  fix i assume "i < n"
  then have "in_range b n (b + of_nat i)" using assms(3) by simp
  with assms show "write_bytes m a bs (b + of_nat i) = m (b + of_nat i)"
    by (auto simp: write_bytes_apply no_overlap_def)
qed

lemma read_block_copy:
  "n \<le> 2 ^ 64 \<Longrightarrow> read_bytes (block_copy m d s n) d n = read_bytes m s n"
  by (rule nth_equalityI) (simp_all add: block_copy_def)

lemma read_block_fill:
  "n \<le> 2 ^ 64 \<Longrightarrow> read_bytes (block_fill m a v n) a n = replicate n v"
  by (rule nth_equalityI) (simp_all add: block_fill_def)

lemma block_copy_0 [simp]: "block_copy m d s 0 = m"
  by (simp add: block_copy_def)

lemma block_fill_0 [simp]: "block_fill m a v 0 = m"
  by (simp add: block_fill_def)

lemma block_copy_snoc:
  assumes "i < 2 ^ 64"
  shows "(block_copy m d s i)(d + of_nat i := m (s + of_nat i)) = block_copy m d s (Suc i)"
proof
  fix x
  show "((block_copy m d s i)(d + of_nat i := m (s + of_nat i))) x = block_copy m d s (Suc i) x"
  proof (cases "x = d + of_nat i")
    case True
    then show ?thesis using assms by (simp add: block_copy_def in_range_def unat_of_nat_u64)
  next
    case False
    then have "unat (x - d) \<noteq> i" by auto
    then show ?thesis using False by (auto simp: block_copy_def in_range_def less_Suc_eq)
  qed
qed

lemma block_copy_at: "i < n \<Longrightarrow> n \<le> 2 ^ 64 \<Longrightarrow> block_copy m d s n (d + of_nat i) = m (s + of_nat i)"
  by (simp add: block_copy_def)

lemma block_copy_source:
  assumes "no_overlap d n s n" "i < n" "j \<le> n" "n \<le> 2 ^ 64"
  shows "block_copy m d s j (s + of_nat i) = m (s + of_nat i)"
proof -
  have "in_range s n (s + of_nat i)" using assms by simp
  with assms(1) have "\<not> in_range d n (s + of_nat i)" by (auto simp: no_overlap_def)
  with assms(3) show ?thesis by (auto simp: block_copy_def in_range_def)
qed

lemma block_fill_outside: "\<not> in_range a n x \<Longrightarrow> block_fill m a v n x = m x"
  by (simp add: block_fill_def)

section \<open>Little-endian integers\<close>

primrec le_word :: "u8 list \<Rightarrow> 'a::len word" where
  "le_word [] = 0"
| "le_word (b # bs) = ucast b OR push_bit 8 (le_word bs)"

primrec le_bytes :: "nat \<Rightarrow> 'a::len word \<Rightarrow> u8 list" where
  "le_bytes 0 w = []"
| "le_bytes (Suc n) w = ucast w # le_bytes n (drop_bit 8 w)"

lemma le_bytes_numeral [eval_simps]:
  "le_bytes (numeral k) w = ucast w # le_bytes (pred_numeral k) (drop_bit 8 w)"
  by (simp add: numeral_eq_Suc)

lemma length_le_bytes [simp]: "length (le_bytes n w) = n"
  by (induction n arbitrary: w) auto

lemma bit_le_word:
  "bit (le_word bs :: 'a::len word) i \<longleftrightarrow>
     i < LENGTH('a) \<and> i div 8 < length bs \<and> bit (bs ! (i div 8)) (i mod 8)"
proof (induction bs arbitrary: i)
  case Nil
  then show ?case by simp
next
  case (Cons b bs)
  show ?case
  proof (cases "i < 8")
    case True
    then show ?thesis by (auto simp: bit_simps)
  next
    case False
    then have "i div 8 = Suc ((i - 8) div 8)" "i mod 8 = (i - 8) mod 8"
      by (simp_all add: le_div_geq le_mod_geq)
    moreover have "\<not> bit (ucast b :: 'a word) i"
      using False by (auto simp: bit_simps dest: bit_imp_le_length)
    ultimately show ?thesis
      using False Cons.IH [of "i - 8"] by (auto simp: bit_simps)
  qed
qed

lemma nth_le_bytes:
  "k < n \<Longrightarrow> le_bytes n (w :: 'a::len word) ! k = ucast (drop_bit (8 * k) w)"
proof (induction n arbitrary: k w)
  case 0
  then show ?case by simp
next
  case (Suc n)
  then show ?case by (cases k) (simp_all add: algebra_simps)
qed

lemma le_word_le_bytes:
  assumes "LENGTH('a) \<le> 8 * n"
  shows "le_word (le_bytes n (w :: 'a::len word)) = w"
proof (rule bit_word_eqI)
  fix i assume i: "i < LENGTH('a)"
  then have "i div 8 < n" using assms by (simp add: div_less_iff_less_mult)
  then show "bit (le_word (le_bytes n w) :: 'a word) i = bit w i"
    using i by (simp add: bit_le_word nth_le_bytes bit_simps)
qed

lemma le_bytes_le_word:
  assumes "8 * length bs \<le> LENGTH('a)"
  shows "le_bytes (length bs) (le_word bs :: 'a::len word) = bs"
proof (rule nth_equalityI)
  fix k assume "k < length (le_bytes (length bs) (le_word bs :: 'a word))"
  then have k: "k < length bs" by simp
  show "le_bytes (length bs) (le_word bs :: 'a word) ! k = bs ! k"
  proof (rule bit_word_eqI)
    fix i assume "i < LENGTH(8)"
    then have i: "i < 8" by simp
    have "8 * k + i < LENGTH('a)" using k i assms by simp
    with k i show "bit (le_bytes (length bs) (le_word bs :: 'a word) ! k) i = bit (bs ! k) i"
      by (simp add: nth_le_bytes bit_simps bit_le_word)
  qed
qed simp

definition read16 :: "memory \<Rightarrow> addr \<Rightarrow> u16" where
  "read16 m a = le_word (read_bytes m a 2)"

definition read32 :: "memory \<Rightarrow> addr \<Rightarrow> u32" where
  "read32 m a = le_word (read_bytes m a 4)"

definition read64 :: "memory \<Rightarrow> addr \<Rightarrow> u64" where
  "read64 m a = le_word (read_bytes m a 8)"

definition write64 :: "memory \<Rightarrow> addr \<Rightarrow> u64 \<Rightarrow> memory" where
  "write64 m a v = write_bytes m a (le_bytes 8 v)"

lemma read64_agree:
  assumes "\<And>x. in_range a l x \<Longrightarrow> m' x = m x" "j + 8 \<le> l" "l \<le> 2 ^ 64"
  shows "read64 m' (a + of_nat j) = read64 m (a + of_nat j)"
proof -
  have "m' (a + of_nat j + of_nat i) = m (a + of_nat j + of_nat i)" if "i < 8" for i
    using assms that by (simp add: add.assoc flip: of_nat_add)
  then show ?thesis unfolding read64_def by (intro arg_cong [where f = le_word] read_bytes_cong)
qed

lemma read64_write64_same [mem_simps, simp]: "read64 (write64 m a v) a = v"
proof -
  have "read_bytes (write_bytes m a (le_bytes 8 v)) a 8 = le_bytes 8 v"
    using read_write_bytes [of "le_bytes 8 v" m a] by simp
  then show ?thesis by (simp add: read64_def write64_def le_word_le_bytes)
qed

lemma read64_write64_disjoint [mem_simps]:
  "no_overlap a 8 b 8 \<Longrightarrow> read64 (write64 m a v) b = read64 m b"
  using read_write_bytes_disjoint [of a "le_bytes 8 v" b 8 m]
  by (simp add: read64_def write64_def)

lemma write64_outside: "\<not> in_range a 8 x \<Longrightarrow> write64 m a v x = m x"
  by (simp add: write64_def write_bytes_apply)

section \<open>Scanning loops and C strings\<close>

text \<open>
  \<open>scan_while P i\<close> is the loop \<^verbatim>\<open>while (P(i)) i++; return i;\<close> on a 64-bit index.  \<open>None\<close>
  means that the loop does not end.
\<close>

partial_function (option) scan_while :: "(u64 \<Rightarrow> bool) \<Rightarrow> u64 \<Rightarrow> u64 option" where
  [code]: "scan_while C i = (if C i then scan_while C (i + 1) else Some i)"

lemma scan_while_stop:
  "\<lbrakk>\<And>j. j < k \<Longrightarrow> P (i + of_nat j); \<not> P (i + of_nat k)\<rbrakk> \<Longrightarrow> scan_while P i = Some (i + of_nat k)"
proof (induction k arbitrary: i)
  case 0
  then show ?case by (subst scan_while.simps) simp
next
  case (Suc k)
  have step: "i + 1 + of_nat j = i + of_nat (Suc j)" for j :: nat
    by (simp add: algebra_simps)
  have "scan_while P (i + 1) = Some (i + 1 + of_nat k)"
  proof (rule Suc.IH)
    show "P (i + 1 + of_nat j)" if "j < k" for j
      unfolding step using Suc.prems(1) that by blast
    show "\<not> P (i + 1 + of_nat k)" unfolding step by (rule Suc.prems(2))
  qed
  moreover have "P i" using Suc.prems(1) [of 0] by simp
  ultimately show ?case by (subst scan_while.simps) (simp add: algebra_simps)
qed

lemma scan_while_SomeD:
  assumes "scan_while P i = Some r"
  shows "\<not> P r \<and> (\<exists>k. r = i + of_nat k \<and> (\<forall>j<k. P (i + of_nat j)))"
proof (rule scan_while.raw_induct [where P = "\<lambda>P i r. \<not> P r \<and> (\<exists>k. r = i + of_nat k \<and> (\<forall>j<k. P (i + of_nat j)))", OF _ assms])
  fix f :: "(u64 \<Rightarrow> bool) \<Rightarrow> u64 \<Rightarrow> u64 option" and P i r
  assume IH: "\<And>P i r. f P i = Some r \<Longrightarrow> \<not> P r \<and> (\<exists>k. r = i + of_nat k \<and> (\<forall>j<k. P (i + of_nat j)))"
    and eq: "(if P i then f P (i + 1) else Some i) = Some r"
  show "\<not> P r \<and> (\<exists>k. r = i + of_nat k \<and> (\<forall>j<k. P (i + of_nat j)))"
  proof (cases "P i")
    case True
    then obtain k where k: "\<not> P r" "r = i + 1 + of_nat k" "\<forall>j<k. P (i + 1 + of_nat j)"
      using eq IH by fastforce
    have "\<forall>j<Suc k. P (i + of_nat j)"
    proof (intro allI impI)
      fix j assume "j < Suc k"
      then show "P (i + of_nat j)"
        using True k(3) by (cases j) (auto simp: algebra_simps)
    qed
    with k show ?thesis by (intro conjI exI [of _ "Suc k"]) (auto simp: algebra_simps)
  next
    case False
    with eq show ?thesis by (auto intro: exI [of _ 0])
  qed
qed

lemma scan_while_None: "scan_while P i = None \<longleftrightarrow> (\<forall>x. P x)"
proof
  assume none: "scan_while P i = None"
  show "\<forall>x. P x"
  proof (rule ccontr)
    assume "\<not> (\<forall>x. P x)"
    then obtain x where x: "\<not> P (i + of_nat (unat (x - i)))" by auto
    define k where "k = (LEAST k. \<not> P (i + of_nat k))"
    have "\<not> P (i + of_nat k)" unfolding k_def using x by (rule LeastI)
    moreover have "P (i + of_nat j)" if "j < k" for j
      using not_less_Least [of j "\<lambda>k. \<not> P (i + of_nat k)"] that unfolding k_def by blast
    ultimately show False using none scan_while_stop [of k P i] by simp
  qed
next
  assume "\<forall>x. P x"
  then show "scan_while P i = None"
    using scan_while_SomeD [of P i] by (cases "scan_while P i") auto
qed

text \<open>\<open>cstr_at m s n\<close>: a NUL-terminated string of \<open>n\<close> bytes, not counting the NUL, starts at \<open>s\<close>.\<close>

definition cstr_at :: "memory \<Rightarrow> addr \<Rightarrow> nat \<Rightarrow> bool" where
  "cstr_at m s n \<longleftrightarrow> n < 2 ^ 64 \<and> m (s + of_nat n) = 0 \<and> (\<forall>i<n. m (s + of_nat i) \<noteq> 0)"

lemma cstr_at_unique: "cstr_at m s n \<Longrightarrow> cstr_at m s k \<Longrightarrow> n = k"
  unfolding cstr_at_def by (metis linorder_neqE_nat)

lemma scan_cstr:
  "cstr_at m s n \<Longrightarrow> scan_while (\<lambda>i. m (s + i) \<noteq> 0) 0 = Some (of_nat n)"
  using scan_while_stop [of n "\<lambda>i. m (s + i) \<noteq> 0" 0] by (simp add: cstr_at_def)

text \<open>The first index at which two C strings differ or both end.\<close>

definition first_diff :: "memory \<Rightarrow> addr \<Rightarrow> addr \<Rightarrow> nat \<Rightarrow> bool" where
  "first_diff m a b k \<longleftrightarrow>
     (\<forall>j<k. m (a + of_nat j) = m (b + of_nat j) \<and> m (a + of_nat j) \<noteq> 0) \<and>
     (m (a + of_nat k) \<noteq> m (b + of_nat k) \<or> m (a + of_nat k) = 0)"

lemma first_diff_scan:
  assumes "first_diff m a b k" and P: "\<And>i. P i \<longleftrightarrow> m (a + i) = m (b + i) \<and> m (a + i) \<noteq> 0"
  shows "scan_while P 0 = Some (of_nat k)"
proof -
  have "scan_while P 0 = Some (0 + of_nat k)"
  proof (rule scan_while_stop)
    show "P (0 + of_nat j)" if "j < k" for j
      unfolding P add_0 using assms(1) that unfolding first_diff_def by blast
    show "\<not> P (0 + of_nat k)" unfolding P add_0 using assms(1) by (auto simp: first_diff_def)
  qed
  then show ?thesis by simp
qed

lemma first_diff_exists:
  assumes "cstr_at m a n" "cstr_at m b k"
  obtains i where "first_diff m a b i" "i \<le> n" "i \<le> k"
proof -
  let ?Q = "\<lambda>i. m (a + of_nat i) \<noteq> m (b + of_nat i) \<or> m (a + of_nat i) = 0"
  define i where "i = (LEAST i. ?Q i)"
  have n: "?Q n" and k: "?Q k"
    using assms by (auto simp: cstr_at_def)
  have "?Q i" unfolding i_def using n by (rule LeastI)
  moreover have "\<not> ?Q j" if "j < i" for j
    using not_less_Least [of j ?Q] that unfolding i_def by blast
  moreover have "i \<le> n" "i \<le> k" unfolding i_def using n k by (auto intro: Least_le)
  ultimately have "first_diff m a b i" "i \<le> n" "i \<le> k"
    unfolding first_diff_def by blast+
  then show ?thesis by (rule that)
qed

lemma first_diff_eq_iff:
  assumes "cstr_at m a n" "cstr_at m b k" "first_diff m a b i"
  shows "m (a + of_nat i) = m (b + of_nat i) \<longleftrightarrow> read_bytes m a n = read_bytes m b k"
proof
  assume eq: "m (a + of_nat i) = m (b + of_nat i)"
  with assms(3) have z: "m (a + of_nat i) = 0" and pre: "\<forall>j<i. m (a + of_nat j) = m (b + of_nat j) \<and> m (a + of_nat j) \<noteq> 0"
    by (auto simp: first_diff_def)
  have "i = n" using assms(1) z pre unfolding cstr_at_def by (metis linorder_neqE_nat)
  moreover have "i = k" using assms(2) z pre eq unfolding cstr_at_def by (metis linorder_neqE_nat)
  ultimately show "read_bytes m a n = read_bytes m b k"
    using pre by (auto intro: read_bytes_cong)
next
  assume eq: "read_bytes m a n = read_bytes m b k"
  then have "n = k" by (metis length_read_bytes)
  have all: "m (a + of_nat j) = m (b + of_nat j)" if "j < n" for j
    using eq that \<open>n = k\<close> by (metis nth_read_bytes)
  show "m (a + of_nat i) = m (b + of_nat i)"
  proof (cases "i < n")
    case True
    then show ?thesis by (rule all)
  next
    case False
    then have "i = n"
      using assms(1,3) unfolding cstr_at_def first_diff_def by (metis linorder_neqE_nat)
    then show ?thesis using assms(1,2) \<open>n = k\<close> by (simp add: cstr_at_def)
  qed
qed

section \<open>Bytes at an address\<close>

lemma read_bytes_frame:
  assumes "\<And>x. in_range a n x \<Longrightarrow> m' x = m x" "n \<le> 2 ^ 64"
  shows "read_bytes m' a n = read_bytes m a n"
  using assms by (intro read_bytes_cong) auto

lemma read_bytes_part: "k + n \<le> l \<Longrightarrow> read_bytes m (a + of_nat k) n = take n (drop k (read_bytes m a l))"
  by (rule nth_equalityI) (simp_all add: add.assoc)

lemma read64_frame: "(\<And>x. in_range a 8 x \<Longrightarrow> m' x = m x) \<Longrightarrow> read64 m' a = read64 m a"
  using read_bytes_frame [of a 8 m' m] by (simp add: read64_def)

definition holds :: "memory \<Rightarrow> addr \<Rightarrow> u8 list \<Rightarrow> bool" where
  "holds m a bs \<longleftrightarrow> read_bytes m a (length bs) = bs"

lemma holds_append: "holds m a (xs @ ys) \<longleftrightarrow> holds m a xs \<and> holds m (a + of_nat (length xs)) ys"
  by (simp add: holds_def read_bytes_add append_eq_append_conv)

lemma holds_Cons: "holds m a (x # xs) \<longleftrightarrow> m a = x \<and> holds m (a + 1) xs"
  by (simp add: holds_def)

lemma holds_Nil [simp]: "holds m a []"
  by (simp add: holds_def)

lemma holds_frame:
  "holds m a bs \<Longrightarrow> (\<And>x. in_range a (length bs) x \<Longrightarrow> m' x = m x) \<Longrightarrow> length bs \<le> 2 ^ 64 \<Longrightarrow> holds m' a bs"
  unfolding holds_def by (metis in_range_offset read_bytes_cong)

lemma write_bytes_append: "write_bytes m a (xs @ ys) = write_bytes (write_bytes m a xs) (a + of_nat (length xs)) ys"
  by (induction xs arbitrary: m a) (simp_all add: add.assoc)

lemma write_bytes_overwrite:
  assumes "length xs \<le> length ys" "length ys \<le> 2 ^ 64"
  shows "write_bytes (write_bytes m a xs) a ys = write_bytes m a ys"
  using assms by (auto simp: write_bytes_apply in_range_def fun_eq_iff)

lemma holds_write_bytes: "length bs \<le> 2 ^ 64 \<Longrightarrow> holds (write_bytes m a bs) a bs"
  by (simp add: holds_def read_write_bytes)

lemma fresh_block_no_overlap:
  assumes "\<And>k. k < n \<Longrightarrow> p + of_nat k \<notin> L" "\<And>x. in_range a l x \<Longrightarrow> x \<in> L"
  shows "no_overlap p n a l"
  unfolding no_overlap_def using assms by (metis in_rangeE)

end
