(* ===== verification/Mem_Specs.thy ===== *)
theory Mem_Specs
  imports Prelude
begin

text \<open>
  Contracts of the memory and string primitives.  The repository has several implementations
  of each primitive (the kernel's \<^verbatim>\<open>lib/\<close>, the debugger's private copies, the EFI runtime library),
  and their clients rely only on what is stated here: a locale per primitive, its law as the
  assumption, and the consequences the clients use proved once inside the locale.
\<close>

section \<open>Block operations\<close>

text \<open>\<open>pre d s n\<close> says for which destinations, sources and lengths the routine is a block copy.\<close>

locale copy_routine =
  fixes copy :: "memory \<Rightarrow> addr \<Rightarrow> addr \<Rightarrow> u64 \<Rightarrow> memory"
    and pre :: "addr \<Rightarrow> addr \<Rightarrow> u64 \<Rightarrow> bool"
  assumes copy_block: "pre d s n \<Longrightarrow> copy m d s n = block_copy m d s (unat n)"
begin

lemma copied: "pre d s n \<Longrightarrow> read_bytes (copy m d s n) d (unat n) = read_bytes m s (unat n)"
  by (simp add: copy_block read_block_copy less_imp_le)

lemma copy_frame: "pre d s n \<Longrightarrow> \<not> in_range d (unat n) x \<Longrightarrow> copy m d s n x = m x"
  by (simp add: copy_block block_copy_def)

lemma copy_source_kept:
  assumes "pre d s n" "no_overlap d (unat n) s (unat n)"
  shows "read_bytes (copy m d s n) s (unat n) = read_bytes m s (unat n)"
proof (rule read_bytes_cong)
  fix i assume i: "i < unat n"
  have "unat n \<le> 2 ^ 64" by (simp add: less_imp_le)
  with i have "in_range s (unat n) (s + of_nat i)" by simp
  with assms(2) have "\<not> in_range d (unat n) (s + of_nat i)"
    by (auto simp: no_overlap_def)
  then show "copy m d s n (s + of_nat i) = m (s + of_nat i)"
    by (rule copy_frame [OF assms(1)])
qed

end

locale fill_routine =
  fixes fill :: "memory \<Rightarrow> addr \<Rightarrow> u8 \<Rightarrow> u64 \<Rightarrow> memory"
  assumes fill_block: "fill m a v n = block_fill m a v (unat n)"
begin

lemma filled: "read_bytes (fill m a v n) a (unat n) = replicate (unat n) v"
  by (simp add: fill_block read_block_fill less_imp_le)

lemma fill_frame: "\<not> in_range a (unat n) x \<Longrightarrow> fill m a v n x = m x"
  by (simp add: fill_block block_fill_def)

lemma fill_again: "fill (fill m a v n) a w n = fill m a w n"
  by (auto simp: fill_block block_fill_def)

end

text \<open>A comparison is the difference of the first bytes that differ, read as unsigned bytes.\<close>

locale compare_routine =
  fixes cmp :: "memory \<Rightarrow> addr \<Rightarrow> addr \<Rightarrow> u64 \<Rightarrow> int"
  assumes cmp_same: "read_bytes m a (unat n) = read_bytes m b (unat n) \<Longrightarrow> cmp m a b n = 0"
    and cmp_diff: "\<lbrakk>k < unat n; read_bytes m a k = read_bytes m b k; m (a + of_nat k) \<noteq> m (b + of_nat k)\<rbrakk>
      \<Longrightarrow> cmp m a b n = uint (m (a + of_nat k)) - uint (m (b + of_nat k))"
begin

lemma first_byte_diff:
  assumes "read_bytes m a n \<noteq> read_bytes m b n"
  obtains k where "k < n" "read_bytes m a k = read_bytes m b k" "m (a + of_nat k) \<noteq> m (b + of_nat k)"
proof -
  let ?Q = "\<lambda>k. k < n \<and> m (a + of_nat k) \<noteq> m (b + of_nat k)"
  have "\<exists>k. ?Q k"
    using assms read_bytes_cong [of n m a m b] by blast
  then have "?Q (LEAST k. ?Q k)" by (rule LeastI_ex)
  moreover have "m (a + of_nat j) = m (b + of_nat j)" if "j < (LEAST k. ?Q k)" for j
    using not_less_Least [OF that] that calculation by auto
  ultimately show ?thesis
    using that read_bytes_cong [of "LEAST k. ?Q k" m a m b] by blast
qed

lemma cmp_eq_0_iff: "cmp m a b n = 0 \<longleftrightarrow> read_bytes m a (unat n) = read_bytes m b (unat n)"
proof
  assume z: "cmp m a b n = 0"
  show "read_bytes m a (unat n) = read_bytes m b (unat n)"
  proof (rule ccontr)
    assume "read_bytes m a (unat n) \<noteq> read_bytes m b (unat n)"
    then obtain k where k: "k < unat n" "read_bytes m a k = read_bytes m b k"
      "m (a + of_nat k) \<noteq> m (b + of_nat k)" by (rule first_byte_diff)
    from cmp_diff [OF k] z k(3) show False by simp
  qed
qed (rule cmp_same)

end

section \<open>C strings\<close>

text \<open>\<open>valid s\<close> says which pointers the routine dereferences: the kernel's \<open>strlen\<close> accepts NULL.\<close>

locale strlen_routine =
  fixes len :: "memory \<Rightarrow> addr \<Rightarrow> u64 option"
    and valid :: "addr \<Rightarrow> bool"
  assumes len_cstr: "valid s \<Longrightarrow> cstr_at m s n \<Longrightarrow> len m s = Some (of_nat n)"
    and len_diverges: "valid s \<Longrightarrow> (\<forall>x. m x \<noteq> 0) \<Longrightarrow> len m s = None"
begin

lemma cstr_at_exists:
  assumes "m x = 0"
  obtains n where "cstr_at m s n"
proof -
  define n where "n = (LEAST n. m (s + of_nat n) = 0)"
  have x: "m (s + of_nat (unat (x - s))) = 0" using assms by simp
  have "m (s + of_nat n) = 0" unfolding n_def using x by (rule LeastI)
  moreover have "m (s + of_nat i) \<noteq> 0" if "i < n" for i
    using not_less_Least [of i "\<lambda>n. m (s + of_nat n) = 0"] that unfolding n_def by blast
  moreover have "n \<le> unat (x - s)" unfolding n_def using x by (rule Least_le)
  then have "n < 2 ^ 64" by (simp add: le_less_trans [of _ "unat (x - s)"])
  ultimately have "cstr_at m s n" by (auto simp: cstr_at_def)
  then show ?thesis by (rule that)
qed

lemma len_total_iff: "valid s \<Longrightarrow> (\<exists>n. len m s = Some n) \<longleftrightarrow> (\<exists>x. m x = 0)"
  using len_cstr len_diverges by (metis cstr_at_exists option.distinct(1))

lemma len_SomeD: "valid s \<Longrightarrow> len m s = Some r \<Longrightarrow> cstr_at m s (unat r)"
proof -
  assume s: "valid s" and r: "len m s = Some r"
  then obtain x where "m x = 0" using len_total_iff by blast
  then obtain n where n: "cstr_at m s n" by (rule cstr_at_exists)
  with r s have "r = of_nat n" by (simp add: len_cstr)
  moreover have "n < 2 ^ 64" using n by (simp add: cstr_at_def)
  ultimately show "cstr_at m s (unat r)" using n by (simp add: unat_of_nat_u64)
qed

end

text \<open>Comparison of two NUL-terminated strings: it ends, and it returns 0 exactly on equal strings.\<close>

locale strcmp_routine =
  fixes cmp :: "memory \<Rightarrow> addr \<Rightarrow> addr \<Rightarrow> int option"
  assumes cmp_first_diff: "first_diff m a b k \<Longrightarrow>
      cmp m a b = Some (uint (m (a + of_nat k)) - uint (m (b + of_nat k)))"
begin

lemma cmp_total:
  assumes "cstr_at m a n" "cstr_at m b k"
  shows "\<exists>r. cmp m a b = Some r"
proof -
  obtain i where "first_diff m a b i" using assms by (rule first_diff_exists)
  then show ?thesis using cmp_first_diff by blast
qed

lemma cmp_0_iff:
  assumes "cstr_at m a n" "cstr_at m b k"
  shows "cmp m a b = Some 0 \<longleftrightarrow> read_bytes m a n = read_bytes m b k"
proof -
  obtain i where i: "first_diff m a b i" using assms by (rule first_diff_exists)
  have "cmp m a b = Some 0 \<longleftrightarrow> m (a + of_nat i) = m (b + of_nat i)"
    by (simp add: cmp_first_diff [OF i])
  then show ?thesis using first_diff_eq_iff [OF assms i] by simp
qed

end

end
