(* ===== verification/Kernel_Lib.thy ===== *)
theory Kernel_Lib
  imports Mem_Specs
begin

text \<open>
  The kernel's C library (\<^verbatim>\<open>lib/*.c\<close>): \<open>memcmp\<close>, \<open>memcpy\<close>, \<open>memset\<close>, \<open>strcmp\<close>, \<open>strcpy\<close> and \<open>strlen\<close>
  over byte-addressed memory.  A pointer is an address, a loop that counts \<^verbatim>\<open>num\<close> down is a
  recursion on the count, and a loop that looks for a NUL is a \<open>scan_while\<close>, whose result is
  \<open>None\<close> when memory holds no NUL.  The results of \<open>memcpy\<close>, \<open>memset\<close> and \<open>strcpy\<close> are the new
  memory and the returned pointer.
\<close>

section \<open>Definitions\<close>

primrec memcmp_loop :: "memory \<Rightarrow> addr \<Rightarrow> addr \<Rightarrow> nat \<Rightarrow> int" where
  "memcmp_loop m aptr bptr 0 = 0"
| "memcmp_loop m aptr bptr (Suc num) =
     (if m aptr \<noteq> m bptr then uint (m aptr) - uint (m bptr)
      else memcmp_loop m (aptr + 1) (bptr + 1) num)"

definition memcmp :: "memory \<Rightarrow> addr \<Rightarrow> addr \<Rightarrow> u64 \<Rightarrow> int" where
  "memcmp m a b num = memcmp_loop m a b (unat num)"

primrec memcpy_loop :: "memory \<Rightarrow> addr \<Rightarrow> addr \<Rightarrow> nat \<Rightarrow> memory" where
  "memcpy_loop m dstPtr srcPtr 0 = m"
| "memcpy_loop m dstPtr srcPtr (Suc num) =
     memcpy_loop (m(dstPtr := m srcPtr)) (dstPtr + 1) (srcPtr + 1) num"

definition memcpy :: "memory \<Rightarrow> addr \<Rightarrow> addr \<Rightarrow> u64 \<Rightarrow> memory \<times> addr" where
  "memcpy m dst src num = (memcpy_loop m dst src (unat num), dst)"

primrec memset_loop :: "memory \<Rightarrow> addr \<Rightarrow> u8 \<Rightarrow> nat \<Rightarrow> memory" where
  "memset_loop m strPtr v 0 = m"
| "memset_loop m strPtr v (Suc num) = memset_loop (m(strPtr := v)) (strPtr + 1) v num"

definition memset :: "memory \<Rightarrow> addr \<Rightarrow> 32 word \<Rightarrow> u64 \<Rightarrow> memory \<times> addr" where
  "memset m ptr v num = (memset_loop m ptr (ucast v) (unat num), ptr)"

text \<open>The loop condition of \<open>strcmp\<close>, shared with the debugger's \<open>dbg_strcmp\<close>.\<close>

definition strcmp_cond :: "memory \<Rightarrow> addr \<Rightarrow> addr \<Rightarrow> u64 \<Rightarrow> bool" where
  "strcmp_cond m a b i \<longleftrightarrow> m (a + i) = m (b + i) \<and> m (a + i) \<noteq> 0 \<and> m (b + i) \<noteq> 0"

text \<open>The difference of two bytes is an \<^verbatim>\<open>int\<close>; it is stored in a \<^verbatim>\<open>size_t\<close> and cast back to \<^verbatim>\<open>int\<close>.\<close>

definition strcmp_res :: "u8 \<Rightarrow> u8 \<Rightarrow> int" where
  "strcmp_res x y =
     (let res = word_of_int (uint x - uint y) :: u64
      in sint (ucast res :: 32 word))"

definition strcmp :: "memory \<Rightarrow> addr \<Rightarrow> addr \<Rightarrow> int option" where
  "strcmp m a b =
     (case scan_while (strcmp_cond m a b) 0 of
        None \<Rightarrow> None
      | Some i \<Rightarrow> Some (strcmp_res (m (a + i)) (m (b + i))))"

text \<open>
  \<open>strcpy\<close> indexes with an \<^verbatim>\<open>int\<close>.  The index is an unbounded integer here; in C it stays in
  range as long as the source is shorter than \<open>2 ^ 31\<close> bytes.
\<close>

partial_function (option) strcpy_loop :: "memory \<Rightarrow> addr \<Rightarrow> addr \<Rightarrow> int \<Rightarrow> memory option" where
  [code]: "strcpy_loop m dst src i =
     (if m (src + word_of_int i) \<noteq> 0
      then strcpy_loop (m(dst + word_of_int i := m (src + word_of_int i))) dst src (i + 1)
      else Some (m(dst + word_of_int i := 0)))"

definition strcpy :: "memory \<Rightarrow> addr \<Rightarrow> addr \<Rightarrow> (memory \<times> addr) option" where
  "strcpy m dst src = map_option (\<lambda>m'. (m', dst)) (strcpy_loop m dst src 0)"

definition strlen :: "memory \<Rightarrow> addr \<Rightarrow> u64 option" where
  "strlen m s = (if s \<noteq> 0 then scan_while (\<lambda>len. m (s + len) \<noteq> 0) 0 else Some 0)"

section \<open>Block operations\<close>

lemma forward_copy_block:
  "\<lbrakk>n \<le> 2 ^ 64; n \<le> unat (d - s)\<rbrakk> \<Longrightarrow> memcpy_loop m d s n = block_copy m d s n"
proof (induction n arbitrary: m d s)
  case 0
  then show ?case by simp
next
  case (Suc n)
  have "memcpy_loop (m(d := m s)) (d + 1) (s + 1) n = block_copy (m(d := m s)) (d + 1) (s + 1) n"
    using Suc by simp
  moreover have "block_copy (m(d := m s)) (d + 1) (s + 1) n x = block_copy m d s (Suc n) x" for x
  proof -
    have nd: "s + (x - d) \<noteq> d" if "unat (x - d) < Suc n"
    proof
      assume "s + (x - d) = d"
      then have "x - d = d - s" by (simp add: algebra_simps)
      with that Suc.prems(2) show False by simp
    qed
    have "s + 1 + (x - (d + 1)) = s + (x - d)" by simp
    then show ?thesis
      using nd offset_Suc_cases [of n x d] Suc.prems(1)
      by (auto simp: block_copy_def in_range_def)
  qed
  ultimately show ?case by auto
qed

lemma memset_loop_block: "n \<le> 2 ^ 64 \<Longrightarrow> memset_loop m a v n = block_fill m a v n"
proof (induction n arbitrary: m a)
  case 0
  then show ?case by simp
next
  case (Suc n)
  then have "memset_loop (m(a := v)) (a + 1) v n = block_fill (m(a := v)) (a + 1) v n" by simp
  moreover have "block_fill (m(a := v)) (a + 1) v n x = block_fill m a v (Suc n) x" for x
    using offset_Suc_cases [of n x a] Suc.prems by (auto simp: block_fill_def in_range_def)
  ultimately show ?case by auto
qed

lemma memcmp_loop_same: "read_bytes m a n = read_bytes m b n \<Longrightarrow> memcmp_loop m a b n = 0"
  by (induction n arbitrary: a b) auto

lemma memcmp_loop_diff:
  "\<lbrakk>k < n; read_bytes m a k = read_bytes m b k; m (a + of_nat k) \<noteq> m (b + of_nat k)\<rbrakk>
   \<Longrightarrow> memcmp_loop m a b n = uint (m (a + of_nat k)) - uint (m (b + of_nat k))"
proof (induction n arbitrary: a b k)
  case 0
  then show ?case by simp
next
  case (Suc n)
  show ?case
  proof (cases k)
    case 0
    with Suc.prems show ?thesis by simp
  next
    case (Suc j)
    then show ?thesis
      using Suc.prems Suc.IH [of j "a + 1" "b + 1"] by (simp add: algebra_simps)
  qed
qed

interpretation k_memcpy: copy_routine "\<lambda>m d s n. fst (memcpy m d s n)"
  "\<lambda>d s n. no_overlap d (unat n) s (unat n)"
proof
  fix m d s and n :: u64
  assume ov: "no_overlap d (unat n) s (unat n)"
  have le: "unat n \<le> 2 ^ 64" by simp
  from no_overlap_src_offset [OF ov le]
  show "fst (memcpy m d s n) = block_copy m d s (unat n)"
    using le by (auto simp: memcpy_def forward_copy_block)
qed

interpretation k_memset: fill_routine "\<lambda>m a v n. fst (memset m a (ucast v) n)"
  by unfold_locales (simp add: memset_def memset_loop_block ucast_up_ucast_id is_up)

interpretation k_memcmp: compare_routine memcmp
  by unfold_locales (simp_all add: memcmp_def memcmp_loop_same memcmp_loop_diff)

section \<open>Strings\<close>

lemma ucast_word_of_int_32: "ucast (word_of_int k :: u64) = (word_of_int k :: 32 word)"
  by (rule bit_word_eqI) (simp add: bit_simps)

lemma strcmp_res_eq [simp]: "strcmp_res x y = uint x - uint y"
proof -
  have bounds: "- 256 < uint x - uint y" "uint x - uint y < 256"
    using uint_u8_less [of x] uint_u8_less [of y] uint_ge_0 [of x] uint_ge_0 [of y] by linarith+
  then show ?thesis
    by (simp add: strcmp_res_def Let_def ucast_word_of_int_32 sint_sbintrunc' signed_take_bit_int_eq_self
        del: word_of_int_minus of_int_diff)
qed

lemma strcmp_scan: "first_diff m a b k \<Longrightarrow> scan_while (strcmp_cond m a b) 0 = Some (of_nat k)"
  by (erule first_diff_scan) (auto simp: strcmp_cond_def)

interpretation k_strcmp: strcmp_routine strcmp
  by unfold_locales (simp add: strcmp_def strcmp_scan)

interpretation k_strlen: strlen_routine strlen "\<lambda>s. s \<noteq> 0"
  by unfold_locales (simp_all add: strlen_def scan_cstr scan_while_None)

lemma strcpy_loop_block:
  assumes str: "cstr_at m src n" and ov: "no_overlap dst (Suc n) src (Suc n)"
  shows "i \<le> n \<Longrightarrow> strcpy_loop (block_copy m dst src i) dst src (int i) = Some (block_copy m dst src (Suc n))"
proof (induction "n - i" arbitrary: i)
  case 0
  then have i: "i = n" by simp
  have n: "n < 2 ^ 64" using str by (simp add: cstr_at_def)
  have "block_copy m dst src i (src + of_nat i) = 0"
    using block_copy_source [OF ov, of i i] i n str by (simp add: cstr_at_def)
  then show ?case
    using block_copy_snoc [OF n, of m dst src] str i
    by (subst strcpy_loop.simps) (simp add: cstr_at_def)
next
  case (Suc k)
  then have i: "i < n" by simp
  have n: "n < 2 ^ 64" using str by (simp add: cstr_at_def)
  have src: "block_copy m dst src i (src + of_nat i) = m (src + of_nat i)"
    using block_copy_source [OF ov, of i i] i n by simp
  have nz: "m (src + of_nat i) \<noteq> 0" using str i by (simp add: cstr_at_def)
  have "strcpy_loop (block_copy m dst src (Suc i)) dst src (int (Suc i)) = Some (block_copy m dst src (Suc n))"
    using Suc.hyps(1) [of "Suc i"] Suc.hyps(2) i by simp
  moreover have "(block_copy m dst src i)(dst + of_nat i := m (src + of_nat i)) = block_copy m dst src (Suc i)"
    using block_copy_snoc [of i m dst src] i n by simp
  ultimately show ?case
    using src nz by (subst strcpy_loop.simps) (simp add: add.commute)
qed

section \<open>Properties\<close>

text \<open>
  C10: on ranges that do not overlap, the kernel's \<open>memcpy\<close> copies the source bytes to the
  destination, changes nothing outside the destination, keeps the source and returns \<^verbatim>\<open>dst\<close>.
\<close>

theorem memcpy_copies:
  assumes "no_overlap dst (unat num) src (unat num)"
  shows "read_bytes (fst (memcpy m dst src num)) dst (unat num) = read_bytes m src (unat num) \<and>
    read_bytes (fst (memcpy m dst src num)) src (unat num) = read_bytes m src (unat num) \<and>
    (\<forall>x. \<not> in_range dst (unat num) x \<longrightarrow> fst (memcpy m dst src num) x = m x) \<and>
    snd (memcpy m dst src num) = dst"
  using k_memcpy.copied [OF assms] k_memcpy.copy_source_kept [OF assms assms]
    k_memcpy.copy_frame [OF assms]
  by (auto simp: memcpy_def)

theorem memcpy_copies_witness:
  "no_overlap 32 (unat (2 :: u64)) 16 (unat (2 :: u64)) \<and>
   read_bytes (fst (memcpy ((\<lambda>_. 0)(16 := 7, 17 := 9)) 32 16 2)) 32 2 = [7, 9]"
proof -
  have ov: "no_overlap 32 (unat (2 :: u64)) 16 (unat (2 :: u64))"
    by (rule no_overlap_linear) simp_all
  have "read_bytes ((\<lambda>_. 0)(16 := 7, 17 := 9) :: memory) 16 (unat (2 :: u64)) = [7, 9]"
    by (simp add: eval_simps)
  then show ?thesis
    using ov memcpy_copies [OF ov, of "(\<lambda>_. 0)(16 := 7, 17 := 9)"] by simp
qed

text \<open>
  on two NUL-terminated strings the kernel's \<open>strcmp\<close> returns, and it returns 0 exactly when
  the strings are equal; \<open>strlen\<close> returns the length of the first one.
\<close>

theorem strcmp_strlen_correct:
  assumes "cstr_at m a n" "cstr_at m b k" "a \<noteq> 0"
  shows "(\<exists>r. strcmp m a b = Some r) \<and>
    (strcmp m a b = Some 0 \<longleftrightarrow> read_bytes m a n = read_bytes m b k) \<and>
    strlen m a = Some (of_nat n)"
  using k_strcmp.cmp_total [OF assms(1,2)] k_strcmp.cmp_0_iff [OF assms(1,2)]
    k_strlen.len_cstr [OF assms(3,1)]
  by blast

theorem strcmp_strlen_correct_witness:
  "cstr_at ((\<lambda>_. 0)(16 := 65, 32 := 65)) 16 1 \<and> cstr_at ((\<lambda>_. 0)(16 := 65, 32 := 65)) 32 1 \<and>
   strcmp ((\<lambda>_. 0)(16 := 65, 32 := 65)) 16 32 = Some 0"
proof -
  have a: "cstr_at ((\<lambda>_. 0)(16 := 65, 32 := 65)) 16 1"
    and b: "cstr_at ((\<lambda>_. 0)(16 := 65, 32 := 65)) 32 1"
    by (simp_all add: cstr_at_def)
  then show ?thesis using strcmp_strlen_correct [OF a b] by simp
qed

text \<open>
  \<open>strcpy\<close> of a string whose copy does not overlap it returns, with exactly the string and
  its NUL copied and every other byte unchanged.
\<close>

theorem strcpy_copies:
  assumes "cstr_at m src n" "no_overlap dst (Suc n) src (Suc n)" "n < 2 ^ 31"
  shows "strcpy m dst src = Some (block_copy m dst src (Suc n), dst) \<and>
    cstr_at (block_copy m dst src (Suc n)) dst n"
proof -
  have n: "n < 2 ^ 64" using assms(1) by (simp add: cstr_at_def)
  have "block_copy m dst src (Suc n) (dst + of_nat i) = m (src + of_nat i)" if "i \<le> n" for i
    using that n by (simp add: block_copy_def)
  then have "cstr_at (block_copy m dst src (Suc n)) dst n"
    using assms(1) by (simp add: cstr_at_def)
  then show ?thesis
    using strcpy_loop_block [OF assms(1,2), of 0] by (simp add: strcpy_def)
qed

theorem strcpy_copies_witness:
  "cstr_at (block_copy ((\<lambda>_. 0)(16 := 65)) 32 16 2) 32 1 \<and>
   strcpy ((\<lambda>_. 0)(16 := 65)) 32 16 = Some (block_copy ((\<lambda>_. 0)(16 := 65)) 32 16 2, 32)"
proof -
  have "cstr_at ((\<lambda>_. 0)(16 := 65)) 16 1" by (simp add: cstr_at_def)
  moreover have "no_overlap 32 (Suc 1) 16 (Suc 1)"
    by (rule no_overlap_linear) simp_all
  ultimately show ?thesis
    using strcpy_copies [of "(\<lambda>_. 0)(16 := 65)" 16 1 32] by (simp flip: numeral_2_eq_2)
qed

end
