(* ===== verification/Efi_Rt.thy ===== *)
theory Efi_Rt
  imports Kernel_Lib
begin

text \<open>
  The EFI runtime library the bootloader links: the memory primitives of
  \<^verbatim>\<open>gnu-efi/lib/runtime/efirtlib.c\<close>, the string primitives of \<^verbatim>\<open>runtime/rtstr.c\<close>, and the wrappers of
  \<^verbatim>\<open>lib/misc.c\<close>, \<^verbatim>\<open>lib/guid.c\<close> and \<^verbatim>\<open>lib/str.c\<close> that call them.  The library is built with \<^verbatim>\<open>-funsigned-char\<close> and \<^verbatim>\<open>-fshort-wchar\<close>, so
  \<^verbatim>\<open>CHAR8\<close> is an unsigned byte and \<^verbatim>\<open>CHAR16\<close> an unsigned 16-bit integer.
\<close>

section \<open>Memory primitives\<close>

primrec RtZeroMem_loop :: "memory \<Rightarrow> addr \<Rightarrow> nat \<Rightarrow> memory" where
  "RtZeroMem_loop m pt 0 = m"
| "RtZeroMem_loop m pt (Suc Size) = RtZeroMem_loop (m(pt := 0)) (pt + 1) Size"

definition RtZeroMem :: "memory \<Rightarrow> addr \<Rightarrow> u64 \<Rightarrow> memory" where
  "RtZeroMem m Buffer Size = RtZeroMem_loop m Buffer (unat Size)"

primrec RtSetMem_loop :: "memory \<Rightarrow> addr \<Rightarrow> nat \<Rightarrow> u8 \<Rightarrow> memory" where
  "RtSetMem_loop m pt 0 Value = m"
| "RtSetMem_loop m pt (Suc Size) Value = RtSetMem_loop (m(pt := Value)) (pt + 1) Size Value"

definition RtSetMem :: "memory \<Rightarrow> addr \<Rightarrow> u64 \<Rightarrow> u8 \<Rightarrow> memory" where
  "RtSetMem m Buffer Size Value = RtSetMem_loop m Buffer (unat Size) Value"

text \<open>The two loops of \<open>RtCopyMem\<close>: upwards, and downwards from the ends of both ranges.\<close>

primrec RtCopyMem_up :: "memory \<Rightarrow> addr \<Rightarrow> addr \<Rightarrow> nat \<Rightarrow> memory" where
  "RtCopyMem_up m d s 0 = m"
| "RtCopyMem_up m d s (Suc len) = RtCopyMem_up (m(d := m s)) (d + 1) (s + 1) len"

primrec RtCopyMem_down :: "memory \<Rightarrow> addr \<Rightarrow> addr \<Rightarrow> nat \<Rightarrow> memory" where
  "RtCopyMem_down m d s 0 = m"
| "RtCopyMem_down m d s (Suc len) = RtCopyMem_down (m(d - 1 := m (s - 1))) (d - 1) (s - 1) len"

definition RtCopyMem :: "memory \<Rightarrow> addr \<Rightarrow> addr \<Rightarrow> u64 \<Rightarrow> memory" where
  "RtCopyMem m d s len =
     (if d = 0 \<or> s = 0 \<or> s = d then m
      else if s < d \<and> d < s + len then RtCopyMem_down m (d + len) (s + len) (unat len)
      else RtCopyMem_up m d s (unat len))"

primrec RtCompareMem_loop :: "memory \<Rightarrow> addr \<Rightarrow> addr \<Rightarrow> nat \<Rightarrow> int" where
  "RtCompareMem_loop m d s 0 = 0"
| "RtCompareMem_loop m d s (Suc len) =
     (if m d \<noteq> m s then uint (m d) - uint (m s) else RtCompareMem_loop m (d + 1) (s + 1) len)"

definition RtCompareMem :: "memory \<Rightarrow> addr \<Rightarrow> addr \<Rightarrow> u64 \<Rightarrow> int" where
  "RtCompareMem m Dest Src len = RtCompareMem_loop m Dest Src (unat len)"

text \<open>The four differences are 32-bit, so they wrap; their disjunction is sign-extended.\<close>

definition guid_words :: "memory \<Rightarrow> addr \<Rightarrow> nat \<Rightarrow> u32" where
  "guid_words m Guid k = read32 m (Guid + 4 * of_nat k)"

definition compare_guid_words :: "(nat \<Rightarrow> u32) \<Rightarrow> (nat \<Rightarrow> u32) \<Rightarrow> int" where
  "compare_guid_words g1 g2 =
     (let r = g1 0 - g2 0;
          r = r OR (g1 1 - g2 1);
          r = r OR (g1 2 - g2 2);
          r = r OR (g1 3 - g2 3)
      in sint r)"

definition RtCompareGuid :: "memory \<Rightarrow> addr \<Rightarrow> addr \<Rightarrow> int" where
  "RtCompareGuid m Guid1 Guid2 = compare_guid_words (guid_words m Guid1) (guid_words m Guid2)"

text \<open>The global \<^verbatim>\<open>NullGuid\<close>, all zero.\<close>

definition NullGuid :: "nat \<Rightarrow> u32" where
  "NullGuid k = 0"

definition ZeroMem :: "memory \<Rightarrow> addr \<Rightarrow> u64 \<Rightarrow> memory" where
  "ZeroMem m Buffer Size = RtZeroMem m Buffer Size"

definition SetMem :: "memory \<Rightarrow> addr \<Rightarrow> u64 \<Rightarrow> u8 \<Rightarrow> memory" where
  "SetMem m Buffer Size Value = RtSetMem m Buffer Size Value"

definition CopyMem :: "memory \<Rightarrow> addr \<Rightarrow> addr \<Rightarrow> u64 \<Rightarrow> memory" where
  "CopyMem m Dest Src len = RtCopyMem m Dest Src len"

definition CompareMem :: "memory \<Rightarrow> addr \<Rightarrow> addr \<Rightarrow> u64 \<Rightarrow> int" where
  "CompareMem m Dest Src len = RtCompareMem m Dest Src len"

definition CompareGuid :: "memory \<Rightarrow> addr \<Rightarrow> addr \<Rightarrow> int" where
  "CompareGuid m Guid1 Guid2 = RtCompareGuid m Guid1 Guid2"

section \<open>Correctness of the memory primitives\<close>

lemma RtZeroMem_loop_eq: "RtZeroMem_loop m a n = memset_loop m a 0 n"
  by (induction n arbitrary: m a) simp_all

lemma RtSetMem_loop_eq: "RtSetMem_loop m a n v = memset_loop m a v n"
  by (induction n arbitrary: m a) simp_all

lemma RtCopyMem_up_eq: "RtCopyMem_up m d s n = memcpy_loop m d s n"
  by (induction n arbitrary: m d s) simp_all

lemma RtCompareMem_loop_eq: "RtCompareMem_loop m d s n = memcmp_loop m d s n"
  by (induction n arbitrary: d s) simp_all

lemma RtCopyMem_down_block:
  "unat (d - s) + n \<le> 2 ^ 64 \<Longrightarrow>
   RtCopyMem_down m (d + of_nat n) (s + of_nat n) n = block_copy m d s n"
proof (induction n arbitrary: m)
  case 0
  then show ?case by simp
next
  case (Suc n)
  let ?m = "m(d + of_nat n := m (s + of_nat n))"
  have "RtCopyMem_down m (d + of_nat (Suc n)) (s + of_nat (Suc n)) (Suc n) =
      RtCopyMem_down ?m (d + of_nat n) (s + of_nat n) n"
    by simp
  also have "\<dots> = block_copy ?m d s n" using Suc by simp
  also have "\<dots> = block_copy m d s (Suc n)"
  proof
    fix x
    show "block_copy ?m d s n x = block_copy m d s (Suc n) x"
    proof (cases "in_range d n x")
      case True
      then have lt: "unat (x - d) < n" by (simp add: in_range_def)
      have "s + (x - d) \<noteq> d + of_nat n"
      proof
        assume "s + (x - d) = d + of_nat n"
        then have eq: "x - d = (d - s) + of_nat n" by (simp add: algebra_simps)
        have "unat ((d - s) + of_nat n) = unat (d - s) + n"
          using Suc.prems by (intro unat_add_of_nat_u64) simp
        with lt show False unfolding eq by simp
      qed
      with True lt show ?thesis by (simp add: block_copy_def in_range_def)
    next
      case False
      then show ?thesis
      proof (cases "x = d + of_nat n")
        case True
        have "n < 2 ^ 64" using Suc.prems by simp
        then show ?thesis using True by (simp add: block_copy_def in_range_def unat_of_nat_u64)
      next
        case nx: False
        then have "unat (x - d) \<noteq> n" by auto
        with False nx show ?thesis by (auto simp: block_copy_def in_range_def)
      qed
    qed
  qed
  finally show ?case .
qed

definition efi_copy_pre :: "addr \<Rightarrow> addr \<Rightarrow> u64 \<Rightarrow> bool" where
  "efi_copy_pre d s len \<longleftrightarrow>
     d \<noteq> 0 \<and> s \<noteq> 0 \<and> unat s + unat len < 2 ^ 64 \<and> unat d + unat len \<le> 2 ^ 64"

lemma RtCopyMem_block:
  assumes "efi_copy_pre d s len"
  shows "RtCopyMem m d s len = block_copy m d s (unat len)"
proof (cases "s = d")
  case True
  then show ?thesis by (auto simp: RtCopyMem_def block_copy_def)
next
  case ne: False
  have pre: "d \<noteq> 0" "s \<noteq> 0" "unat s + unat len < 2 ^ 64" "unat d + unat len \<le> 2 ^ 64"
    using assms by (simp_all add: efi_copy_pre_def)
  have sl: "unat (s + len) = unat s + unat len"
    using unat_add_of_nat_u64 [of s "unat len"] pre(3) by simp
  show ?thesis
  proof (cases "s < d \<and> d < s + len")
    case True
    then have "unat (d - s) + unat len \<le> 2 ^ 64"
      using pre(4) by (auto simp: word_less_nat_alt unat_sub_u64)
    then show ?thesis
      using RtCopyMem_down_block [of d s "unat len" m] True pre ne by (simp add: RtCopyMem_def)
  next
    case False
    then have "unat len \<le> unat (d - s)"
      using pre(3) ne sl by (auto simp: word_less_nat_alt unat_sub_u64 not_less)
    then show ?thesis
      using forward_copy_block [of "unat len" d s m] False pre ne
      by (simp only: RtCopyMem_def RtCopyMem_up_eq) simp
  qed
qed

interpretation efi_copy: copy_routine CopyMem efi_copy_pre
  by unfold_locales (simp add: CopyMem_def RtCopyMem_block)

interpretation efi_set: fill_routine "\<lambda>m a v n. SetMem m a n v"
  by unfold_locales (simp add: SetMem_def RtSetMem_def RtSetMem_loop_eq memset_loop_block)

interpretation efi_compare: compare_routine CompareMem
  by unfold_locales
    (simp_all add: CompareMem_def RtCompareMem_def RtCompareMem_loop_eq memcmp_loop_same memcmp_loop_diff)

lemma ZeroMem_block: "ZeroMem m a n = block_fill m a 0 (unat n)"
  by (simp add: ZeroMem_def RtZeroMem_def RtZeroMem_loop_eq memset_loop_block)

lemma read_bytes_16_split:
  "read_bytes m a 16 = read_bytes m a 4 @ read_bytes m (a + 4) 4 @ read_bytes m (a + 8) 4 @ read_bytes m (a + 12) 4"
proof -
  have "read_bytes m a (4 + (4 + (4 + 4))) =
      read_bytes m a 4 @ read_bytes m (a + 4) 4 @ read_bytes m (a + 4 + 4) 4 @ read_bytes m (a + 4 + 4 + 4) 4"
    by (simp only: read_bytes_add of_nat_numeral)
  then show ?thesis by (simp add: add.assoc)
qed

lemma read32_eq_iff: "read32 m a = read32 m b \<longleftrightarrow> read_bytes m a 4 = read_bytes m b 4"
  using le_bytes_le_word [of "read_bytes m a 4", where 'a = 32]
    le_bytes_le_word [of "read_bytes m b 4", where 'a = 32]
  by (simp add: read32_def) metis

lemma CompareGuid_0_iff: "CompareGuid m a b = 0 \<longleftrightarrow> read_bytes m a 16 = read_bytes m b 16"
proof -
  have or0: "(x OR y = 0) = (x = 0 \<and> y = 0)" for x y :: u32
    by (rule or_eq_0_iff)
  have "CompareGuid m a b = 0 \<longleftrightarrow>
      read32 m a = read32 m b \<and> read32 m (a + 4) = read32 m (b + 4) \<and>
      read32 m (a + 8) = read32 m (b + 8) \<and> read32 m (a + 12) = read32 m (b + 12)"
    by (simp add: CompareGuid_def RtCompareGuid_def compare_guid_words_def guid_words_def Let_def or0 signed_eq_0_iff)
  then show ?thesis
    by (simp add: read32_eq_iff read_bytes_16_split)
qed

section \<open>Properties\<close>

text \<open>
  C7: \<open>CopyMem\<close> copies correctly even when the two ranges overlap: afterwards the destination
  holds the bytes the source had before, and nothing outside the destination has changed.
  The pointers are not NULL and neither range wraps around the address space.
\<close>

theorem CopyMem_handles_overlap:
  assumes "efi_copy_pre Dest Src len"
  shows "read_bytes (CopyMem m Dest Src len) Dest (unat len) = read_bytes m Src (unat len) \<and>
    (\<forall>x. \<not> in_range Dest (unat len) x \<longrightarrow> CopyMem m Dest Src len x = m x)"
  using efi_copy.copied [OF assms] efi_copy.copy_frame [OF assms] by blast

theorem CopyMem_handles_overlap_witness:
  "read_bytes (CopyMem ((\<lambda>_. 0)(16 := 1, 17 := 2, 18 := 3)) 17 16 3) 17 3 = [1, 2, 3]"
proof -
  have "efi_copy_pre 17 16 3" by (simp add: efi_copy_pre_def)
  moreover have "read_bytes ((\<lambda>_. 0)(16 := 1, 17 := 2, 18 := 3) :: memory) 16 3 = [1, 2, 3]"
    by (simp add: eval_simps)
  ultimately show ?thesis
    using CopyMem_handles_overlap [of 17 16 3 "(\<lambda>_. 0)(16 := 1, 17 := 2, 18 := 3)"] by simp
qed

text \<open>\<open>CompareGuid\<close> returns 0 exactly when the two GUIDs have the same 16 bytes.\<close>

theorem CompareGuid_decides_equality:
  "CompareGuid m Guid1 Guid2 = 0 \<longleftrightarrow> read_bytes m Guid1 16 = read_bytes m Guid2 16"
  by (rule CompareGuid_0_iff)

end
