(* ===== verification/Boot_Services.thy ===== *)
theory Boot_Services
  imports Efi_Rt
begin

text \<open>
  The firmware seen by the bootloader.  Status codes follow \<^verbatim>\<open>gnu-efi/inc/efierr.h\<close> and
  \<^verbatim>\<open>inc/x86_64/efibind.h\<close>.  The firmware itself is not part of the repository: its services are the
  fields of the record \<open>boot_services\<close>, a parameter of every definition that calls them, over a
  firmware state of any type.  What the UEFI specification promises about a service is a
  predicate on that record, used as a hypothesis by name.

  Every service takes the current \<open>world\<close> (byte memory and firmware state) and the old values of
  its in/out parameters, and returns the status, the new values of the parameters and the new world.
\<close>

section \<open>Status codes\<close>

type_synonym status = u64

definition EFIERR :: "u64 \<Rightarrow> status" where
  "EFIERR a = 0x8000000000000000 OR a"

definition EFI_ERROR :: "status \<Rightarrow> bool" where
  "EFI_ERROR a \<longleftrightarrow> sint a < 0"

definition EFI_SUCCESS :: status where "EFI_SUCCESS = 0"
definition EFI_LOAD_ERROR :: status where "EFI_LOAD_ERROR = EFIERR 1"
definition EFI_INVALID_PARAMETER :: status where "EFI_INVALID_PARAMETER = EFIERR 2"
definition EFI_UNSUPPORTED :: status where "EFI_UNSUPPORTED = EFIERR 3"
definition EFI_BUFFER_TOO_SMALL :: status where "EFI_BUFFER_TOO_SMALL = EFIERR 5"
definition EFI_OUT_OF_RESOURCES :: status where "EFI_OUT_OF_RESOURCES = EFIERR 9"
definition EFI_NOT_FOUND :: status where "EFI_NOT_FOUND = EFIERR 14"
definition EFI_INCOMPATIBLE_VERSION :: status where "EFI_INCOMPATIBLE_VERSION = EFIERR 25"
definition EFI_CRC_ERROR :: status where "EFI_CRC_ERROR = EFIERR 27"
definition EFI_COMPROMISED_DATA :: status where "EFI_COMPROMISED_DATA = EFIERR 33"

lemmas efi_status_defs = EFIERR_def EFI_SUCCESS_def EFI_LOAD_ERROR_def EFI_INVALID_PARAMETER_def
  EFI_UNSUPPORTED_def EFI_BUFFER_TOO_SMALL_def EFI_OUT_OF_RESOURCES_def EFI_NOT_FOUND_def
  EFI_INCOMPATIBLE_VERSION_def EFI_CRC_ERROR_def EFI_COMPROMISED_DATA_def

lemma EFI_ERROR_bit: "EFI_ERROR s \<longleftrightarrow> bit s 63"
  using bit_last_iff [of s] by (simp add: EFI_ERROR_def)

lemma EFI_ERROR_status [simp]:
  "\<not> EFI_ERROR EFI_SUCCESS" "EFI_ERROR EFI_LOAD_ERROR" "EFI_ERROR EFI_INVALID_PARAMETER"
  "EFI_ERROR EFI_UNSUPPORTED" "EFI_ERROR EFI_BUFFER_TOO_SMALL" "EFI_ERROR EFI_OUT_OF_RESOURCES"
  "EFI_ERROR EFI_NOT_FOUND" "EFI_ERROR EFI_INCOMPATIBLE_VERSION" "EFI_ERROR EFI_CRC_ERROR"
  "EFI_ERROR EFI_COMPROMISED_DATA"
  by (simp_all add: EFI_ERROR_bit efi_status_defs)

lemma EFI_ERROR_0 [simp]: "\<not> EFI_ERROR 0"
  by (simp add: EFI_ERROR_bit)

section \<open>The world and the services\<close>

record 'f world =
  mem :: memory
  fw :: 'f

text \<open>Values of \<^verbatim>\<open>EFI_ALLOCATE_TYPE\<close> and \<^verbatim>\<open>EFI_MEMORY_TYPE\<close> that the bootloader passes.\<close>

definition AllocateAnyPages :: u32 where "AllocateAnyPages = 0"
definition EfiLoaderCode :: u32 where "EfiLoaderCode = 1"
definition EfiLoaderData :: u32 where "EfiLoaderData = 2"

text \<open>The protocol and information GUIDs that appear in calls, by name.\<close>

datatype guid_id =
    gEfiLoadedImageProtocolGuid
  | gEfiSimpleFileSystemProtocolGuid
  | gEfiDevicePathProtocolGuid
  | gEfiFileInfoGuid

text \<open>A path handed to \<^verbatim>\<open>Open\<close>: a wide string literal of the program, or a pointer into memory.\<close>

datatype path_arg = Literal "u16 list" | Ptr addr

definition EFI_FILE_MODE_READ :: u64 where "EFI_FILE_MODE_READ = 1"
definition EFI_FILE_READ_ONLY :: u64 where "EFI_FILE_READ_ONLY = 1"

text \<open>
  In/out parameters of \<^verbatim>\<open>GetMemoryMap\<close> next to the buffer pointer: size, key, descriptor size and
  descriptor version (the fields of \<^verbatim>\<open>efi_memmap_t\<close>).
\<close>

type_synonym memmap_params = "u64 \<times> u64 \<times> u64 \<times> u32"

record 'f boot_services =
  AllocatePages :: "u32 \<Rightarrow> u32 \<Rightarrow> u64 \<Rightarrow> addr \<Rightarrow> 'f world \<Rightarrow> (status \<times> addr) \<times> 'f world"
  FreePages :: "addr \<Rightarrow> u64 \<Rightarrow> 'f world \<Rightarrow> status \<times> 'f world"
  AllocatePool :: "u32 \<Rightarrow> u64 \<Rightarrow> addr \<Rightarrow> 'f world \<Rightarrow> (status \<times> addr) \<times> 'f world"
  FreePool :: "addr \<Rightarrow> 'f world \<Rightarrow> status \<times> 'f world"
  GetMemoryMap :: "addr \<Rightarrow> memmap_params \<Rightarrow> 'f world \<Rightarrow> (status \<times> memmap_params) \<times> 'f world"
  ExitBootServices :: "addr \<Rightarrow> u64 \<Rightarrow> 'f world \<Rightarrow> status \<times> 'f world"
  HandleProtocol :: "addr \<Rightarrow> guid_id \<Rightarrow> addr \<Rightarrow> 'f world \<Rightarrow> (status \<times> addr) \<times> 'f world"
  LocateHandleBuffer :: "guid_id \<Rightarrow> u64 \<Rightarrow> addr \<Rightarrow> 'f world \<Rightarrow> (status \<times> u64 \<times> addr) \<times> 'f world"
  LoadImage :: "addr \<Rightarrow> addr \<Rightarrow> 'f world \<Rightarrow> (status \<times> addr) \<times> 'f world"
  StartImage :: "addr \<Rightarrow> 'f world \<Rightarrow> status \<times> 'f world"
  UnloadImage :: "addr \<Rightarrow> 'f world \<Rightarrow> status \<times> 'f world"
  OpenVolume :: "addr \<Rightarrow> addr \<Rightarrow> 'f world \<Rightarrow> (status \<times> addr) \<times> 'f world"
  Open :: "addr \<Rightarrow> addr \<Rightarrow> path_arg \<Rightarrow> u64 \<Rightarrow> u64 \<Rightarrow> 'f world \<Rightarrow> (status \<times> addr) \<times> 'f world"
  Close :: "addr \<Rightarrow> 'f world \<Rightarrow> status \<times> 'f world"
  Read :: "addr \<Rightarrow> u64 \<Rightarrow> addr \<Rightarrow> 'f world \<Rightarrow> (status \<times> u64) \<times> 'f world"
  SetPosition :: "addr \<Rightarrow> u64 \<Rightarrow> 'f world \<Rightarrow> status \<times> 'f world"
  GetInfo :: "addr \<Rightarrow> guid_id \<Rightarrow> u64 \<Rightarrow> addr \<Rightarrow> 'f world \<Rightarrow> (status \<times> u64) \<times> 'f world"

section \<open>What the specification promises of the page allocator\<close>

definition page_aligned :: "addr \<Rightarrow> bool" where
  "page_aligned a \<longleftrightarrow> a mod 0x1000 = 0"

definition page_of :: "addr \<Rightarrow> addr" where
  "page_of x = x - x mod 0x1000"

text \<open>
  \<open>owned f\<close> is the set of pages the firmware has handed out and not taken back.  A successful
  \<open>AllocatePages\<close> returns an aligned address below the 52-bit physical limit, the pages from there on were
  not handed out before and are handed out now; no call changes a page that is handed out.
\<close>

definition allocates_fresh_pages :: "'f boot_services \<Rightarrow> ('f \<Rightarrow> addr set) \<Rightarrow> bool" where
  "allocates_fresh_pages bs owned \<longleftrightarrow>
     (\<forall>mt n a0 w st a w'. AllocatePages bs AllocateAnyPages mt n a0 w = ((st, a), w') \<longrightarrow>
        (\<forall>x. page_of x \<in> owned (fw w) \<longrightarrow> mem w' x = mem w x) \<and> owned (fw w) \<subseteq> owned (fw w') \<and>
        (\<not> EFI_ERROR st \<longrightarrow> page_aligned a \<and>
           (\<forall>k < unat n. a + 0x1000 * of_nat k \<notin> owned (fw w) \<and> a + 0x1000 * of_nat k \<in> owned (fw w') \<and>
                          unat a + 0x1000 * k < 2 ^ 52)))"

text \<open>
  The same for the pool allocator, on bytes: \<open>live f\<close> are the bytes in use.  A successful
  \<open>AllocatePool\<close> returns a block of bytes not in use so far, that does not wrap.
\<close>

definition allocates_fresh_pool :: "'f boot_services \<Rightarrow> ('f \<Rightarrow> addr set) \<Rightarrow> bool" where
  "allocates_fresh_pool bs live \<longleftrightarrow>
     (\<forall>mt n a0 w st a w'. AllocatePool bs mt n a0 w = ((st, a), w') \<longrightarrow>
        (\<forall>x. x \<in> live (fw w) \<longrightarrow> mem w' x = mem w x) \<and> live (fw w) \<subseteq> live (fw w') \<and>
        (\<not> EFI_ERROR st \<longrightarrow> a \<noteq> 0 \<and> unat a + unat n \<le> 2 ^ 64 \<and>
           (\<forall>k < unat n. a + of_nat k \<notin> live (fw w) \<and> a + of_nat k \<in> live (fw w'))))"

definition pool_failed :: "'f boot_services \<Rightarrow> status \<Rightarrow> bool" where
  "pool_failed bs st \<longleftrightarrow> EFI_ERROR st \<and> (\<exists>mt n a0 w a w'. AllocatePool bs mt n a0 w = ((st, a), w'))"

section \<open>A concrete firmware\<close>

text \<open>
  A firmware whose services are not available, and on top of it one with an allocator that hands out
  ascending pages below \<^verbatim>\<open>2^40\<close>.  They show that the hypotheses on the services can hold.
\<close>

definition null_bs :: "'f boot_services" where
  "null_bs = \<lparr>
     AllocatePages = \<lambda>_ _ _ a w. ((EFI_UNSUPPORTED, a), w),
     FreePages = \<lambda>_ _ w. (EFI_UNSUPPORTED, w),
     AllocatePool = \<lambda>_ _ a w. ((EFI_UNSUPPORTED, a), w),
     FreePool = \<lambda>_ w. (EFI_UNSUPPORTED, w),
     GetMemoryMap = \<lambda>_ p w. ((EFI_UNSUPPORTED, p), w),
     ExitBootServices = \<lambda>_ _ w. (EFI_UNSUPPORTED, w),
     HandleProtocol = \<lambda>_ _ a w. ((EFI_UNSUPPORTED, a), w),
     LocateHandleBuffer = \<lambda>_ n a w. ((EFI_UNSUPPORTED, n, a), w),
     LoadImage = \<lambda>_ a w. ((EFI_UNSUPPORTED, a), w),
     StartImage = \<lambda>_ w. (EFI_UNSUPPORTED, w),
     UnloadImage = \<lambda>_ w. (EFI_UNSUPPORTED, w),
     OpenVolume = \<lambda>_ a w. ((EFI_UNSUPPORTED, a), w),
     Open = \<lambda>_ a _ _ _ w. ((EFI_UNSUPPORTED, a), w),
     Close = \<lambda>_ w. (EFI_UNSUPPORTED, w),
     Read = \<lambda>_ n _ w. ((EFI_UNSUPPORTED, n), w),
     SetPosition = \<lambda>_ _ w. (EFI_UNSUPPORTED, w),
     GetInfo = \<lambda>_ _ n _ w. ((EFI_UNSUPPORTED, n), w)\<rparr>"

definition bump_pages :: "u64 \<Rightarrow> addr \<Rightarrow> addr world \<Rightarrow> (status \<times> addr) \<times> addr world" where
  "bump_pages n a w =
     (if fw w mod 0x1000 = 0 \<and> unat (fw w) + 0x1000 * unat n \<le> 2 ^ 40
      then ((EFI_SUCCESS, fw w), w\<lparr>fw := fw w + 0x1000 * n\<rparr>)
      else ((EFI_OUT_OF_RESOURCES, a), w))"

definition bump_pool :: "u64 \<Rightarrow> addr \<Rightarrow> addr world \<Rightarrow> (status \<times> addr) \<times> addr world" where
  "bump_pool n a w =
     (if fw w \<noteq> 0 \<and> unat (fw w) + unat n \<le> 2 ^ 40
      then ((EFI_SUCCESS, fw w), w\<lparr>fw := fw w + n\<rparr>)
      else ((EFI_OUT_OF_RESOURCES, a), w))"

definition bump_bs :: "addr boot_services" where
  "bump_bs = null_bs\<lparr>AllocatePages := \<lambda>_ _ n a w. bump_pages n a w, AllocatePool := \<lambda>_ n a w. bump_pool n a w\<rparr>"

definition bump_owned :: "addr \<Rightarrow> addr set" where
  "bump_owned f = {a. a < f}"

lemma bump_bs_eval: "AllocatePages bump_bs ty mt n a w = bump_pages n a w"
  "fw w mod 0x1000 = 0 \<Longrightarrow> unat (fw w) + 0x1000 * unat n \<le> 2 ^ 40 \<Longrightarrow>
   bump_pages n a w = ((EFI_SUCCESS, fw w), w\<lparr>fw := fw w + 0x1000 * n\<rparr>)"
  by (simp_all add: bump_bs_def bump_pages_def)

lemma bump_fresh: "allocates_fresh_pages bump_bs bump_owned"
  unfolding allocates_fresh_pages_def
proof (intro allI impI)
  fix mt n a0 and w w' :: "addr world" and st a
  assume run: "AllocatePages bump_bs AllocateAnyPages mt n a0 w = ((st, a), w')"
  show "(\<forall>x. page_of x \<in> bump_owned (fw w) \<longrightarrow> mem w' x = mem w x) \<and> bump_owned (fw w) \<subseteq> bump_owned (fw w') \<and>
      (\<not> EFI_ERROR st \<longrightarrow> page_aligned a \<and>
         (\<forall>k < unat n. a + 0x1000 * of_nat k \<notin> bump_owned (fw w) \<and> a + 0x1000 * of_nat k \<in> bump_owned (fw w') \<and>
                        unat a + 0x1000 * k < 2 ^ 52))"
  proof (cases "fw w mod 0x1000 = 0 \<and> unat (fw w) + 0x1000 * unat n \<le> 2 ^ 40")
    case True
    then have r: "st = EFI_SUCCESS" "a = fw w" "w' = w\<lparr>fw := fw w + 0x1000 * n\<rparr>"
      using run by (auto simp: bump_bs_eval)
    have u: "unat (fw w + 0x1000 * of_nat k) = unat (fw w) + 0x1000 * k" if "k \<le> unat n" for k
      using True that unat_add_of_nat_u64 [of "fw w" "0x1000 * k"] by simp
    have "unat (fw w + 0x1000 * n) = unat (fw w) + 0x1000 * unat n" using u [of "unat n"] by simp
    then show ?thesis using True by (auto simp: r bump_owned_def page_aligned_def word_less_nat_alt u)
  next
    case False
    then have "st = EFI_OUT_OF_RESOURCES" "w' = w" using run by (auto simp: bump_bs_eval(1) bump_pages_def)
    then show ?thesis by simp
  qed
qed

lemma bump_pool_eval:
  "AllocatePool bump_bs mt n a w = bump_pool n a w"
  by (simp add: bump_bs_def)

lemma bump_fresh_pool: "allocates_fresh_pool bump_bs bump_owned"
  unfolding allocates_fresh_pool_def
proof (intro allI impI)
  fix mt n a0 and w w' :: "addr world" and st a
  assume run: "AllocatePool bump_bs mt n a0 w = ((st, a), w')"
  show "(\<forall>x. x \<in> bump_owned (fw w) \<longrightarrow> mem w' x = mem w x) \<and> bump_owned (fw w) \<subseteq> bump_owned (fw w') \<and>
        (\<not> EFI_ERROR st \<longrightarrow> a \<noteq> 0 \<and> unat a + unat n \<le> 2 ^ 64 \<and>
           (\<forall>k < unat n. a + of_nat k \<notin> bump_owned (fw w) \<and> a + of_nat k \<in> bump_owned (fw w')))"
  proof (cases "fw w \<noteq> 0 \<and> unat (fw w) + unat n \<le> 2 ^ 40")
    case True
    then have r: "st = EFI_SUCCESS" "a = fw w" "w' = w\<lparr>fw := fw w + n\<rparr>"
      using run by (auto simp: bump_pool_eval bump_pool_def)
    have u: "unat (fw w + of_nat k) = unat (fw w) + k" if "k \<le> unat n" for k
      using True that unat_add_of_nat_u64 [of "fw w" k] by simp
    have "unat (fw w + n) = unat (fw w) + unat n" using u [of "unat n"] by simp
    then show ?thesis using True by (auto simp: r bump_owned_def word_less_nat_alt u)
  next
    case False
    then have "st = EFI_OUT_OF_RESOURCES" "w' = w" using run by (auto simp: bump_pool_eval bump_pool_def)
    then show ?thesis by simp
  qed
qed

end
