(* ===== verification/Efi_Str.thy ===== *)
theory Efi_Str
  imports Efi_Rt
begin

text \<open>
  The string functions of the EFI library (\<^verbatim>\<open>gnu-efi/lib/runtime/rtstr.c\<close> and \<^verbatim>\<open>gnu-efi/lib/str.c\<close>):
  \<^verbatim>\<open>CHAR16\<close> strings are sequences of little-endian 16-bit units in memory, ended by a zero unit.
  Also the BCD conversions of \<^verbatim>\<open>rtstr.c\<close> and the wildcard matcher \<open>MetaMatch\<close>.
\<close>

section \<open>Wide strings in memory\<close>

definition wchr :: "memory \<Rightarrow> addr \<Rightarrow> u64 \<Rightarrow> u16" where
  "wchr m s i = read16 m (s + 2 * i)"

definition write16 :: "memory \<Rightarrow> addr \<Rightarrow> u16 \<Rightarrow> memory" where
  "write16 m a v = write_bytes m a (le_bytes 2 v)"

definition wcs_at :: "memory \<Rightarrow> addr \<Rightarrow> nat \<Rightarrow> bool" where
  "wcs_at m s n \<longleftrightarrow> n < 2 ^ 63 \<and> wchr m s (of_nat n) = 0 \<and> (\<forall>i<n. wchr m s (of_nat i) \<noteq> 0)"

section \<open>Run-time string functions\<close>

definition RtStrCmp :: "memory \<Rightarrow> addr \<Rightarrow> addr \<Rightarrow> int option" where
  "RtStrCmp m s1 s2 =
     (case scan_while (\<lambda>i. wchr m s1 i \<noteq> 0 \<and> wchr m s1 i = wchr m s2 i) 0 of
        None \<Rightarrow> None
      | Some i \<Rightarrow> Some (uint (wchr m s1 i) - uint (wchr m s2 i)))"

partial_function (option) RtStpCpy :: "memory \<Rightarrow> addr \<Rightarrow> addr \<Rightarrow> (memory \<times> addr) option" where
  [code]: "RtStpCpy m Dest Src =
     (if read16 m Src \<noteq> 0 then RtStpCpy (write16 m Dest (read16 m Src)) (Dest + 2) (Src + 2)
      else Some (write16 m Dest 0, Dest))"

definition RtStrCpy :: "memory \<Rightarrow> addr \<Rightarrow> addr \<Rightarrow> memory option" where
  "RtStrCpy m Dest Src = map_option fst (RtStpCpy m Dest Src)"

definition RtStrLen :: "memory \<Rightarrow> addr \<Rightarrow> u64 option" where
  "RtStrLen m s1 = scan_while (\<lambda>len. wchr m s1 len \<noteq> 0) 0"

definition RtStrnLen :: "memory \<Rightarrow> addr \<Rightarrow> u64 \<Rightarrow> u64 option" where
  "RtStrnLen m s1 Len = scan_while (\<lambda>i. wchr m s1 i \<noteq> 0 \<and> i < Len) 0"

definition RtStrSize :: "memory \<Rightarrow> addr \<Rightarrow> u64 option" where
  "RtStrSize m s1 = map_option (\<lambda>len. (len + 1) * 2) (scan_while (\<lambda>len. wchr m s1 len \<noteq> 0) 0)"

definition RtStpnCpy :: "memory \<Rightarrow> addr \<Rightarrow> addr \<Rightarrow> u64 \<Rightarrow> (memory \<times> addr) option" where
  "RtStpnCpy m Dest Src Len =
     (case RtStrnLen m Src Len of
        None \<Rightarrow> None
      | Some Size \<Rightarrow>
          (let m1 = (if Size \<noteq> Len then RtSetMem m (Dest + 2 * Size) ((Len - Size) * 2) 0 else m)
           in Some (RtCopyMem m1 Dest Src (Size * 2), Dest + 2 * Size)))"

definition RtStrnCpy :: "memory \<Rightarrow> addr \<Rightarrow> addr \<Rightarrow> u64 \<Rightarrow> memory option" where
  "RtStrnCpy m Dest Src Len =
     (case RtStrnLen m Src Len of
        None \<Rightarrow> None
      | Some Size \<Rightarrow>
          (let m1 = (if Size \<noteq> Len then RtSetMem m (Dest + 2 * Size) ((Len - Size) * 2) 0 else m)
           in Some (RtCopyMem m1 Dest Src (Size * 2))))"

definition RtStrCat :: "memory \<Rightarrow> addr \<Rightarrow> addr \<Rightarrow> memory option" where
  "RtStrCat m Dest Src =
     (case RtStrLen m Dest of None \<Rightarrow> None | Some n \<Rightarrow> RtStrCpy m (Dest + 2 * n) Src)"

definition RtStrnCat :: "memory \<Rightarrow> addr \<Rightarrow> addr \<Rightarrow> u64 \<Rightarrow> memory option" where
  "RtStrnCat m Dest Src Len =
     (case RtStrLen m Dest of
        None \<Rightarrow> None
      | Some DestSize \<Rightarrow>
          (case RtStrnLen m Src Len of
             None \<Rightarrow> None
           | Some Size \<Rightarrow>
               (let m1 = RtCopyMem m (Dest + 2 * DestSize) Src (Size * 2)
                in Some (write16 m1 (Dest + 2 * (DestSize + Size)) 0))))"

definition RtBCDtoDecimal :: "u8 \<Rightarrow> u8" where
  "RtBCDtoDecimal BcdValue =
     (let High = ucast (drop_bit 4 BcdValue) :: u64;
          Low = ucast BcdValue - push_bit 4 High
      in ucast (Low + High * 10))"

definition RtDecimaltoBCD :: "u8 \<Rightarrow> u8" where
  "RtDecimaltoBCD DecValue =
     (let High = ucast (DecValue div 10) :: u64;
          Low = ucast DecValue - High * 10
      in ucast (Low + push_bit 4 High))"

section \<open>Library string functions\<close>

definition StrCmp :: "memory \<Rightarrow> addr \<Rightarrow> addr \<Rightarrow> int option" where
  "StrCmp m s1 s2 = RtStrCmp m s1 s2"

definition StrnCmp :: "memory \<Rightarrow> addr \<Rightarrow> addr \<Rightarrow> u64 \<Rightarrow> int option" where
  "StrnCmp m s1 s2 len =
     (case scan_while (\<lambda>i. wchr m s1 i \<noteq> 0 \<and> i < len \<and> wchr m s1 i = wchr m s2 i) 0 of
        None \<Rightarrow> None
      | Some i \<Rightarrow> Some (if len - i \<noteq> 0 then uint (wchr m s1 i) - uint (wchr m s2 i) else 0))"

text \<open>
  The collation interface is a firmware protocol, or the library's stub when the firmware has
  none: \<open>None\<close> stands for the stub, \<open>Some f\<close> for the protocol's function.
\<close>

definition LibStubStriCmp :: "memory \<Rightarrow> addr \<Rightarrow> addr \<Rightarrow> int option" where
  "LibStubStriCmp m s1 s2 = StrCmp m s1 s2"

definition StriCmp :: "(memory \<Rightarrow> addr \<Rightarrow> addr \<Rightarrow> int option) option \<Rightarrow> memory \<Rightarrow> addr \<Rightarrow> addr \<Rightarrow> int option" where
  "StriCmp StriColl m s1 s2 =
     (case StriColl of None \<Rightarrow> LibStubStriCmp m s1 s2 | Some f \<Rightarrow> f m s1 s2)"

definition LibStubStrLwrUpr :: "memory \<Rightarrow> addr \<Rightarrow> memory" where
  "LibStubStrLwrUpr m Str = m"

definition StrLwr :: "(memory \<Rightarrow> addr \<Rightarrow> memory) option \<Rightarrow> memory \<Rightarrow> addr \<Rightarrow> memory" where
  "StrLwr lwr m Str = (case lwr of None \<Rightarrow> LibStubStrLwrUpr m Str | Some f \<Rightarrow> f m Str)"

definition StrUpr :: "(memory \<Rightarrow> addr \<Rightarrow> memory) option \<Rightarrow> memory \<Rightarrow> addr \<Rightarrow> memory" where
  "StrUpr upr m Str = (case upr of None \<Rightarrow> LibStubStrLwrUpr m Str | Some f \<Rightarrow> f m Str)"

definition StrCpy :: "memory \<Rightarrow> addr \<Rightarrow> addr \<Rightarrow> memory option" where
  "StrCpy m Dest Src = RtStrCpy m Dest Src"

definition StrnCpy :: "memory \<Rightarrow> addr \<Rightarrow> addr \<Rightarrow> u64 \<Rightarrow> memory option" where
  "StrnCpy m Dest Src Len = RtStrnCpy m Dest Src Len"

definition StpCpy :: "memory \<Rightarrow> addr \<Rightarrow> addr \<Rightarrow> (memory \<times> addr) option" where
  "StpCpy m Dest Src = RtStpCpy m Dest Src"

definition StpnCpy :: "memory \<Rightarrow> addr \<Rightarrow> addr \<Rightarrow> u64 \<Rightarrow> (memory \<times> addr) option" where
  "StpnCpy m Dest Src Len = RtStpnCpy m Dest Src Len"

definition StrCat :: "memory \<Rightarrow> addr \<Rightarrow> addr \<Rightarrow> memory option" where
  "StrCat m Dest Src = RtStrCat m Dest Src"

definition StrnCat :: "memory \<Rightarrow> addr \<Rightarrow> addr \<Rightarrow> u64 \<Rightarrow> memory option" where
  "StrnCat m Dest Src Len = RtStrnCat m Dest Src Len"

definition StrnLen :: "memory \<Rightarrow> addr \<Rightarrow> u64 \<Rightarrow> u64 option" where
  "StrnLen m s1 Len = RtStrnLen m s1 Len"

definition StrLen :: "memory \<Rightarrow> addr \<Rightarrow> u64 option" where
  "StrLen m s1 = RtStrLen m s1"

definition StrSize :: "memory \<Rightarrow> addr \<Rightarrow> u64 option" where
  "StrSize m s1 = RtStrSize m s1"

definition strlena :: "memory \<Rightarrow> addr \<Rightarrow> u64 option" where
  "strlena m s1 = scan_while (\<lambda>len. m (s1 + len) \<noteq> 0) 0"

text \<open>
  The byte comparisons return the \<^verbatim>\<open>int\<close> difference converted to \<^verbatim>\<open>UINTN\<close>.  The two strings are given by
  their bytes from the pointer on, so that one of them can be a string literal.
\<close>

definition strcmpa_bytes :: "(u64 \<Rightarrow> u8) \<Rightarrow> (u64 \<Rightarrow> u8) \<Rightarrow> u64 option" where
  "strcmpa_bytes s1 s2 =
     (case scan_while (\<lambda>i. s1 i \<noteq> 0 \<and> s1 i = s2 i) 0 of
        None \<Rightarrow> None
      | Some i \<Rightarrow> Some (word_of_int (uint (s1 i) - uint (s2 i))))"

definition strcmpa :: "memory \<Rightarrow> addr \<Rightarrow> addr \<Rightarrow> u64 option" where
  "strcmpa m s1 s2 = strcmpa_bytes (\<lambda>i. m (s1 + i)) (\<lambda>i. m (s2 + i))"

text \<open>The bytes of a string literal, its terminator included.\<close>

definition lit :: "u8 list \<Rightarrow> u64 \<Rightarrow> u8" where
  "lit bs i = (if unat i < length bs then bs ! unat i else 0)"

definition strcmpa_lit :: "memory \<Rightarrow> addr \<Rightarrow> u8 list \<Rightarrow> u64 option" where
  "strcmpa_lit m s1 s2 = strcmpa_bytes (\<lambda>i. m (s1 + i)) (lit s2)"

definition strncmpa :: "memory \<Rightarrow> addr \<Rightarrow> addr \<Rightarrow> u64 \<Rightarrow> u64 option" where
  "strncmpa m s1 s2 len =
     (case scan_while (\<lambda>i. m (s1 + i) \<noteq> 0 \<and> i < len \<and> m (s1 + i) = m (s2 + i)) 0 of
        None \<Rightarrow> None
      | Some i \<Rightarrow> Some (if len - i \<noteq> 0 then word_of_int (uint (m (s1 + i)) - uint (m (s2 + i))) else 0))"

text \<open>Number parsing: leading spaces are skipped, then digits are taken up to the first other unit.\<close>

partial_function (option) xtoi_loop :: "memory \<Rightarrow> addr \<Rightarrow> u64 \<Rightarrow> u64 option" where
  [code]: "xtoi_loop m str u =
     (let c = read16 m str
      in if c = 0 then Some u
         else let c = (if 97 \<le> c \<and> c \<le> 102 then c - 32 else c)
              in if (48 \<le> c \<and> c \<le> 57) \<or> (65 \<le> c \<and> c \<le> 70)
                 then xtoi_loop m (str + 2) (push_bit 4 u OR (ucast c - (if 65 \<le> c then 55 else 48)))
                 else Some u)"

definition xtoi :: "memory \<Rightarrow> addr \<Rightarrow> u64 option" where
  "xtoi m str =
     (case scan_while (\<lambda>i. wchr m str i = 32) 0 of None \<Rightarrow> None | Some i \<Rightarrow> xtoi_loop m (str + 2 * i) 0)"

partial_function (option) Atoi_loop :: "memory \<Rightarrow> addr \<Rightarrow> u64 \<Rightarrow> u64 option" where
  [code]: "Atoi_loop m str u =
     (let c = read16 m str
      in if c = 0 then Some u
         else if 48 \<le> c \<and> c \<le> 57 then Atoi_loop m (str + 2) (u * 10 + ucast c - 48)
         else Some u)"

definition Atoi :: "memory \<Rightarrow> addr \<Rightarrow> u64 option" where
  "Atoi m str =
     (case scan_while (\<lambda>i. wchr m str i = 32) 0 of None \<Rightarrow> None | Some i \<Rightarrow> Atoi_loop m (str + 2 * i) 0)"

section \<open>The wildcard matcher\<close>

text \<open>
  \<open>MetaMatch\<close> works on the units before the terminating zero, as lists.  \<open>None\<close> is a read past
  the pattern's terminator, which the code makes on a character set that is never closed.

  The character set loop: \<open>l\<close> is the previous unit, \<open>c\<close> the unit to match.  It returns the
  pattern after the unit it stopped at and that unit \<open>p\<close> (0 at the end of the pattern), or
  \<open>None\<close> when the code returns \<^verbatim>\<open>FALSE\<close>.
\<close>

fun MetaMatch_set :: "u16 \<Rightarrow> u16 \<Rightarrow> u16 list \<Rightarrow> (u16 \<times> u16 list) option" where
  "MetaMatch_set c l [] = Some (0, [])"
| "MetaMatch_set c l (p # ps) =
     (if p = 93 then None
      else if p = 45 then
        (case ps of
           [] \<Rightarrow> None
         | h # _ \<Rightarrow>
             if h = 93 then None
             else if l \<le> c \<and> c \<le> h then Some (h, ps)
             else if c = h then Some (h, ps)
             else MetaMatch_set c h ps)
      else if c = p then Some (p, ps)
      else MetaMatch_set c p ps)"

text \<open>Skipping to the end of the set; \<open>None\<close>: the terminator was consumed.\<close>

fun MetaMatch_skip :: "u16 \<Rightarrow> u16 list \<Rightarrow> u16 list option" where
  "MetaMatch_skip p ps =
     (if p = 0 then None
      else if p = 93 then Some ps
      else case ps of [] \<Rightarrow> None | q # qs \<Rightarrow> MetaMatch_skip q qs)"

lemma MetaMatch_set_length: "MetaMatch_set c l ps = Some (p, ps') \<Longrightarrow> length ps' \<le> length ps"
  by (induction c l ps rule: MetaMatch_set.induct)
    (auto split: if_splits list.splits)

lemma MetaMatch_skip_length: "MetaMatch_skip p ps = Some ps' \<Longrightarrow> length ps' \<le> length ps"
  by (induction p ps rule: MetaMatch_skip.induct)
    (subst (asm) (2) MetaMatch_skip.simps, auto split: if_splits list.splits)

declare MetaMatch_skip.simps [simp del]

function (sequential) MetaMatch :: "u16 list \<Rightarrow> u16 list \<Rightarrow> bool option"
  and MetaMatch_star :: "u16 list \<Rightarrow> u16 list \<Rightarrow> bool option" where
  "MetaMatch String [] = Some (String = [])"
| "MetaMatch String (p # Pattern) =
     (if p = 42 then MetaMatch_star String Pattern
      else if p = 63 then
        (case String of [] \<Rightarrow> Some False | _ # String' \<Rightarrow> MetaMatch String' Pattern)
      else if p = 91 then
        (case String of
           [] \<Rightarrow> Some False
         | c # String' \<Rightarrow>
             (case MetaMatch_set c 0 Pattern of
                None \<Rightarrow> Some False
              | Some (q, Pattern') \<Rightarrow>
                  (case MetaMatch_skip q Pattern' of
                     None \<Rightarrow> None
                   | Some Pattern'' \<Rightarrow> MetaMatch String' Pattern'')))
      else
        (case String of
           [] \<Rightarrow> Some False
         | c # String' \<Rightarrow> if c \<noteq> p then Some False else MetaMatch String' Pattern))"
| "MetaMatch_star [] Pattern = MetaMatch [] Pattern"
| "MetaMatch_star (c # String) Pattern =
     (case MetaMatch (c # String) Pattern of
        None \<Rightarrow> None
      | Some True \<Rightarrow> Some True
      | Some False \<Rightarrow> MetaMatch_star String Pattern)"
  by pat_completeness auto
termination
  by (relation "inv_image (less_than <*lex*> less_than)
    (\<lambda>x. case x of Inl (s, p) \<Rightarrow> (2 * length p, 0) | Inr (s, p) \<Rightarrow> (2 * length p + 1, length s))")
    (auto dest!: MetaMatch_set_length MetaMatch_skip_length)

definition LibStubMetaiMatch :: "u16 list \<Rightarrow> u16 list \<Rightarrow> bool option" where
  "LibStubMetaiMatch String Pattern = MetaMatch String Pattern"

definition MetaiMatch :: "(u16 list \<Rightarrow> u16 list \<Rightarrow> bool option) option \<Rightarrow> u16 list \<Rightarrow> u16 list \<Rightarrow> bool option" where
  "MetaiMatch Metai String Pattern =
     (case Metai of None \<Rightarrow> LibStubMetaiMatch String Pattern | Some f \<Rightarrow> f String Pattern)"

section \<open>Correctness of the string functions\<close>

lemma wcs_at_unique: "wcs_at m s n \<Longrightarrow> wcs_at m s k \<Longrightarrow> n = k"
  unfolding wcs_at_def by (metis linorder_neqE_nat)

lemma RtStrLen_wcs: "wcs_at m s n \<Longrightarrow> RtStrLen m s = Some (of_nat n)"
  using scan_while_stop [of n "\<lambda>i. wchr m s i \<noteq> 0" 0] by (simp add: RtStrLen_def wcs_at_def)

lemma RtStrSize_wcs: "wcs_at m s n \<Longrightarrow> RtStrSize m s = Some (of_nat (2 * Suc n))"
  using RtStrLen_wcs [of m s n] by (simp add: RtStrSize_def RtStrLen_def algebra_simps)

lemma RtStrnLen_wcs:
  assumes "\<And>i. i < n \<Longrightarrow> wchr m s (of_nat i) \<noteq> 0" "n \<le> unat Len"
    and "n = unat Len \<or> wchr m s (of_nat n) = 0"
  shows "RtStrnLen m s Len = Some (of_nat n)"
proof -
  have "(of_nat i :: u64) < Len \<longleftrightarrow> i < unat Len" if "i \<le> n" for i
  proof -
    have "i < 2 ^ 64" using that assms(2) by (intro less_2p64_le_unat) (rule order_trans)
    then show ?thesis by (simp add: word_less_nat_alt unat_of_nat_u64)
  qed
  then have "scan_while (\<lambda>i. wchr m s i \<noteq> 0 \<and> i < Len) 0 = Some (0 + of_nat n)"
    using assms by (intro scan_while_stop) auto
  then show ?thesis by (simp add: RtStrnLen_def)
qed

lemma write16_read16: "write16 m a (read16 m' b) = m(a := m' b, a + 1 := m' (b + 1))"
proof -
  have "le_bytes 2 (read16 m' b) = [m' b, m' (b + 1)]"
    using le_bytes_le_word [of "read_bytes m' b 2", where 'a = 16]
    by (simp add: read16_def eval_simps)
  then show ?thesis by (simp add: write16_def)
qed

lemma block_copy_snoc2:
  assumes "Suc k < 2 ^ 64"
  shows "write16 (block_copy m d s k) (d + of_nat k) (read16 m (s + of_nat k)) = block_copy m d s (k + 2)"
proof -
  have "(block_copy m d s k)(d + of_nat k := m (s + of_nat k)) = block_copy m d s (Suc k)"
    using assms by (intro block_copy_snoc) simp
  moreover have "(block_copy m d s (Suc k))(d + of_nat (Suc k) := m (s + of_nat (Suc k))) = block_copy m d s (Suc (Suc k))"
    using assms by (intro block_copy_snoc) simp
  ultimately show ?thesis by (simp add: write16_read16 algebra_simps)
qed

lemma read16_block_copy_source:
  assumes "no_overlap d n s n" "Suc k < n" "j \<le> n" "n \<le> 2 ^ 64"
  shows "read16 (block_copy m d s j) (s + of_nat k) = read16 m (s + of_nat k)"
proof -
  have "block_copy m d s j (s + of_nat k) = m (s + of_nat k)"
    using assms by (intro block_copy_source) auto
  moreover have "block_copy m d s j (s + of_nat (Suc k)) = m (s + of_nat (Suc k))"
    using assms by (intro block_copy_source) auto
  ultimately show ?thesis by (simp add: read16_def eval_simps algebra_simps)
qed

lemma RtStpCpy_block:
  assumes str: "wcs_at m src n" and ov: "no_overlap dst (2 * Suc n) src (2 * Suc n)"
  shows "i \<le> n \<Longrightarrow> RtStpCpy (block_copy m dst src (2 * i)) (dst + of_nat (2 * i)) (src + of_nat (2 * i))
    = Some (block_copy m dst src (2 * Suc n), dst + of_nat (2 * n))"
proof (induction "n - i" arbitrary: i)
  case 0
  then have i: "i = n" by simp
  have n: "2 * Suc n \<le> 2 ^ 64" using str by (simp add: wcs_at_def)
  have z: "read16 m (src + of_nat (2 * n)) = 0" using str by (simp add: wcs_at_def wchr_def)
  have "read16 (block_copy m dst src (2 * n)) (src + of_nat (2 * n)) = read16 m (src + of_nat (2 * n))"
    using n by (intro read16_block_copy_source [OF ov]) auto
  moreover have "write16 (block_copy m dst src (2 * n)) (dst + of_nat (2 * n)) (read16 m (src + of_nat (2 * n)))
      = block_copy m dst src (2 * n + 2)"
    using n by (intro block_copy_snoc2) simp
  ultimately show ?case using z i by (subst RtStpCpy.simps) (simp add: algebra_simps)
next
  case (Suc k)
  then have i: "i < n" by simp
  have n: "2 * Suc n \<le> 2 ^ 64" using str by (simp add: wcs_at_def)
  have nz: "read16 m (src + of_nat (2 * i)) \<noteq> 0" using str i by (simp add: wcs_at_def wchr_def)
  have src: "read16 (block_copy m dst src (2 * i)) (src + of_nat (2 * i)) = read16 m (src + of_nat (2 * i))"
    using n i by (intro read16_block_copy_source [OF ov]) auto
  have cp: "write16 (block_copy m dst src (2 * i)) (dst + of_nat (2 * i)) (read16 m (src + of_nat (2 * i)))
      = block_copy m dst src (2 * Suc i)"
    using block_copy_snoc2 [of "2 * i" m dst src] n i by simp
  have IH: "RtStpCpy (block_copy m dst src (2 * Suc i)) (dst + of_nat (2 * Suc i)) (src + of_nat (2 * Suc i))
      = Some (block_copy m dst src (2 * Suc n), dst + of_nat (2 * n))"
    using Suc.hyps(1) [of "Suc i"] Suc.hyps(2) i by simp
  have step: "x + of_nat (2 * i) + 2 = x + of_nat (2 * Suc i)" for x :: addr by (simp add: algebra_simps)
  show ?case by (subst RtStpCpy.simps) (simp only: src cp nz step IH if_True not_False_eq_True)
qed

lemma wchr_block_copy:
  assumes "i \<le> n" "n < 2 ^ 63"
  shows "wchr (block_copy m d s (2 * Suc n)) d (of_nat i) = wchr m s (of_nat i)"
proof -
  have "block_copy m d s (2 * Suc n) (d + of_nat (2 * i)) = m (s + of_nat (2 * i))"
    and "block_copy m d s (2 * Suc n) (d + of_nat (2 * i + 1)) = m (s + of_nat (2 * i + 1))"
    by (rule block_copy_at; use assms in simp)+
  then show ?thesis by (simp add: wchr_def read16_def eval_simps algebra_simps)
qed

lemma wcs_at_block_copy: "wcs_at m s n \<Longrightarrow> wcs_at (block_copy m d s (2 * Suc n)) d n"
  by (auto simp: wcs_at_def wchr_block_copy simp del: mult_Suc_right)

interpretation efi_strlena: strlen_routine strlena "\<lambda>_. True"
  by unfold_locales (simp_all add: strlena_def scan_cstr scan_while_None)

lemma byte_diff_eq_0: "(word_of_int (uint (x :: u8) - uint (y :: u8)) :: u64) = 0 \<longleftrightarrow> x = y"
proof -
  have "\<bar>uint x - uint y\<bar> < 256"
    using uint_u8_less [of x] uint_u8_less [of y] uint_ge_0 [of x] uint_ge_0 [of y] by linarith
  then have "sint (word_of_int (uint x - uint y) :: u64) = uint x - uint y"
    by (simp add: sint_sbintrunc' signed_take_bit_int_eq_self del: of_int_diff)
  then show ?thesis by (metis diff_0_right eq_iff_diff_eq_0 signed_0 uint_eq_iff signed_eq_0_iff)
qed

lemma strcmpa_scan:
  "first_diff m a b k \<Longrightarrow> scan_while (\<lambda>i. m (a + i) \<noteq> 0 \<and> m (a + i) = m (b + i)) 0 = Some (of_nat k)"
  by (erule first_diff_scan) auto

lemma strcmpa_0_iff:
  assumes "cstr_at m a n" "cstr_at m b k"
  shows "strcmpa m a b = Some 0 \<longleftrightarrow> read_bytes m a n = read_bytes m b k"
proof -
  obtain i where i: "first_diff m a b i" using assms by (rule first_diff_exists)
  then have "strcmpa m a b = Some (word_of_int (uint (m (a + of_nat i)) - uint (m (b + of_nat i))))"
    by (simp add: strcmpa_def strcmpa_bytes_def strcmpa_scan)
  then show ?thesis using first_diff_eq_iff [OF assms i] by (simp only: byte_diff_eq_0 option.inject)
qed

section \<open>What wildcard patterns mean\<close>

datatype glob = Lit u16 | AnyOne | AnyMany

definition glob_of :: "u16 \<Rightarrow> glob" where
  "glob_of p = (if p = 42 then AnyMany else if p = 63 then AnyOne else Lit p)"

fun glob_match :: "glob list \<Rightarrow> u16 list \<Rightarrow> bool" where
  "glob_match [] s \<longleftrightarrow> s = []"
| "glob_match (Lit c # g) s \<longleftrightarrow> (\<exists>t. s = c # t \<and> glob_match g t)"
| "glob_match (AnyOne # g) s \<longleftrightarrow> (\<exists>c t. s = c # t \<and> glob_match g t)"
| "glob_match (AnyMany # g) s \<longleftrightarrow> (\<exists>u v. s = u @ v \<and> glob_match g v)"

lemma glob_suffix_Cons:
  "(\<exists>u v. c # s = u @ v \<and> P v) \<longleftrightarrow> P (c # s) \<or> (\<exists>u v. s = u @ v \<and> P v)"
proof
  assume "\<exists>u v. c # s = u @ v \<and> P v"
  then obtain u v where uv: "c # s = u @ v" "P v" by blast
  then show "P (c # s) \<or> (\<exists>u v. s = u @ v \<and> P v)" by (cases u) auto
next
  assume "P (c # s) \<or> (\<exists>u v. s = u @ v \<and> P v)"
  then show "\<exists>u v. c # s = u @ v \<and> P v" by (metis append_Cons append_Nil)
qed

lemma MetaMatch_glob_aux:
  "91 \<notin> set Pattern \<Longrightarrow> MetaMatch String Pattern = Some (glob_match (map glob_of Pattern) String)"
  "91 \<notin> set Pattern \<Longrightarrow> MetaMatch_star String Pattern =
     Some (\<exists>u v. String = u @ v \<and> glob_match (map glob_of Pattern) v)"
proof (induction String Pattern and String Pattern rule: MetaMatch_MetaMatch_star.induct)
  case (2 String p Pattern)
  show ?case
  proof (cases String)
    case Nil
    with 2 show ?thesis by (simp add: glob_of_def)
  next
    case (Cons c String')
    with 2 show ?thesis by (auto simp: glob_of_def)
  qed
next
  case (4 c String Pattern)
  then show ?case
    by (auto simp: glob_suffix_Cons split: option.splits bool.splits)
qed auto

lemma strcmpa_lit_0_iff:
  assumes a: "cstr_at m a n" and bs: "0 \<notin> set bs" "length bs < 2 ^ 64"
  shows "strcmpa_lit m a bs = Some 0 \<longleftrightarrow> read_bytes m a n = bs"
    and "\<exists>r. strcmpa_lit m a bs = Some r"
proof -
  let ?P = "\<lambda>i. m (a + i) \<noteq> 0 \<and> m (a + i) = lit bs i"
  define k where "k = (LEAST k. \<not> ?P (of_nat k))"
  have n: "n < 2 ^ 64" "m (a + of_nat n) = 0" "\<And>j. j < n \<Longrightarrow> m (a + of_nat j) \<noteq> 0"
    using a by (auto simp: cstr_at_def)
  have stop: "\<not> ?P (of_nat n)" using n(2) by simp
  have k: "\<not> ?P (of_nat k)" "k \<le> n"
    unfolding k_def by (rule LeastI [of "\<lambda>k. \<not> ?P (of_nat k)", OF stop], rule Least_le, rule stop)
  have before: "?P (of_nat j)" if "j < k" for j
    using not_less_Least [OF that [unfolded k_def]] by blast
  have lit: "lit bs (of_nat j) = (if j < length bs then bs ! j else 0)" if "j \<le> n" for j
    using that n(1) by (simp add: lit_def unat_of_nat_u64)
  have "scan_while ?P 0 = Some (of_nat k)"
    using scan_while_stop [of k ?P 0, unfolded add_0_left, OF before k(1)] .
  then have res: "strcmpa_lit m a bs = Some (word_of_int (uint (m (a + of_nat k)) - uint (lit bs (of_nat k))))"
    by (simp add: strcmpa_lit_def strcmpa_bytes_def)
  then show "\<exists>r. strcmpa_lit m a bs = Some r" by blast
  have "m (a + of_nat k) = lit bs (of_nat k) \<longleftrightarrow> read_bytes m a n = bs"
  proof
    assume eq: "m (a + of_nat k) = lit bs (of_nat k)"
    with k(1) have z: "m (a + of_nat k) = 0" by simp
    with n(3) k(2) have "k = n" by (metis le_neq_implies_less)
    have "\<not> n < length bs" using eq z lit [of n] bs(1) \<open>k = n\<close> by (auto dest: nth_mem split: if_splits)
    moreover have "\<not> length bs < n" using before [of "length bs"] lit [of "length bs"] \<open>k = n\<close> by auto
    ultimately have "length bs = n" by simp
    then show "read_bytes m a n = bs"
      using before lit \<open>k = n\<close> by (intro nth_equalityI) auto
  next
    assume eq: "read_bytes m a n = bs"
    then have "length bs = n" by auto
    then have "k = n" using k lit n(3) eq by (metis le_neq_implies_less nth_read_bytes less_imp_le)
    then show "m (a + of_nat k) = lit bs (of_nat k)" using lit [of n] n(2) \<open>length bs = n\<close> by simp
  qed
  then show "strcmpa_lit m a bs = Some 0 \<longleftrightarrow> read_bytes m a n = bs"
    unfolding res option.inject byte_diff_eq_0 by simp
qed

section \<open>Properties\<close>

text \<open>
  C9: on patterns without character sets, \<open>MetaMatch\<close> always answers, and its answer is the
  usual meaning of wildcards: \<^verbatim>\<open>?\<close> stands for one unit and \<^verbatim>\<open>*\<close> for any sequence of units.
\<close>

theorem MetaMatch_is_glob_match:
  assumes "91 \<notin> set Pattern"
  shows "MetaMatch String Pattern = Some (glob_match (map glob_of Pattern) String)"
  using assms by (rule MetaMatch_glob_aux(1))

theorem MetaMatch_is_glob_match_witness:
  "91 \<notin> set [42 :: u16, 98] \<and> MetaMatch [97, 97, 98] [42, 98] = Some True \<and>
   glob_match (map glob_of [42, 98]) [97, 97, 98]"
proof -
  have "MetaMatch [97, 97, 98] [42, 98] = Some True" by simp
  then show ?thesis using MetaMatch_is_glob_match [of "[42, 98]" "[97, 97, 98]"] by simp
qed

text \<open>
  \<open>StrLen\<close> and \<open>StrSize\<close> of a wide string are its number of units and its size in bytes with
  the terminator, and \<open>StrCpy\<close> to a place that does not overlap it returns with the string and
  its terminator copied and nothing else changed.
\<close>

theorem StrCpy_StrLen_correct:
  assumes "wcs_at m src n" "no_overlap dst (2 * Suc n) src (2 * Suc n)"
  shows "StrLen m src = Some (of_nat n) \<and> StrSize m src = Some (of_nat (2 * Suc n)) \<and>
    StrCpy m dst src = Some (block_copy m dst src (2 * Suc n)) \<and>
    wcs_at (block_copy m dst src (2 * Suc n)) dst n"
  using RtStrLen_wcs [OF assms(1)] RtStrSize_wcs [OF assms(1)] RtStpCpy_block [OF assms, of 0]
    wcs_at_block_copy [OF assms(1)]
  by (simp add: StrLen_def StrSize_def StrCpy_def RtStrCpy_def)

theorem StrCpy_StrLen_correct_witness:
  "StrLen ((\<lambda>_. 0)(16 := 65)) 16 = Some 1 \<and>
   StrCpy ((\<lambda>_. 0)(16 := 65)) 64 16 = Some (block_copy ((\<lambda>_. 0)(16 := 65)) 64 16 4)"
proof -
  have "wcs_at ((\<lambda>_. 0)(16 := 65)) 16 1"
    by (simp add: wcs_at_def wchr_def read16_def eval_simps)
  moreover have "no_overlap 64 (2 * Suc 1) 16 (2 * Suc 1)"
    by (rule no_overlap_linear) simp_all
  ultimately show ?thesis
    using StrCpy_StrLen_correct [of "(\<lambda>_. 0)(16 := 65)" 16 1 64] by simp
qed

end
