(* ===== verification/Boot_Fs.thy ===== *)
theory Boot_Fs
  imports Boot_Services Efi_Str
begin

text \<open>
  \<^verbatim>\<open>nyxboot/src/fs.c\<close>: finding the file system whose partition has a given GUID or that contains a
  given file, opening a file and asking for its size.  Device paths are read from memory through
  the accessors of \<^verbatim>\<open>gnu-efi/inc/efidevp.h\<close>.  An out parameter is an option: \<open>None\<close> is the NULL pointer,
  \<open>Some v\<close> a variable with value \<open>v\<close>.
\<close>

section \<open>Device path nodes\<close>

definition DevicePathType :: "memory \<Rightarrow> addr \<Rightarrow> u8" where
  "DevicePathType m a = m a AND 0x7F"

definition DevicePathSubType :: "memory \<Rightarrow> addr \<Rightarrow> u8" where
  "DevicePathSubType m a = m (a + 1)"

definition DevicePathNodeLength :: "memory \<Rightarrow> addr \<Rightarrow> u64" where
  "DevicePathNodeLength m a = ucast (m (a + 2)) OR push_bit 8 (ucast (m (a + 3)))"

definition NextDevicePathNode :: "memory \<Rightarrow> addr \<Rightarrow> addr" where
  "NextDevicePathNode m a = a + DevicePathNodeLength m a"

definition IsDevicePathEndType :: "memory \<Rightarrow> addr \<Rightarrow> bool" where
  "IsDevicePathEndType m a \<longleftrightarrow> DevicePathType m a = 0x7F"

definition IsDevicePathEndSubType :: "memory \<Rightarrow> addr \<Rightarrow> bool" where
  "IsDevicePathEndSubType m a \<longleftrightarrow> m (a + 1) = 0xFF"

definition IsDevicePathEnd :: "memory \<Rightarrow> addr \<Rightarrow> bool" where
  "IsDevicePathEnd m a \<longleftrightarrow> IsDevicePathEndType m a \<and> IsDevicePathEndSubType m a"

text \<open>\<^verbatim>\<open>HARDDRIVE_DEVICE_PATH\<close>: the signature is at offset 24, its type at offset 41.\<close>

definition hdp_Signature :: "addr \<Rightarrow> addr" where
  "hdp_Signature hdp = hdp + 24"

definition hdp_SignatureType :: "memory \<Rightarrow> addr \<Rightarrow> u8" where
  "hdp_SignatureType m hdp = m (hdp + 41)"

section \<open>File system lookup\<close>

partial_function (option) match_node_guid :: "memory \<Rightarrow> addr \<Rightarrow> addr \<Rightarrow> bool option" where
  [code]: "match_node_guid m node guid =
     (if IsDevicePathEnd m node then Some False
      else if DevicePathType m node = 4 \<and> DevicePathSubType m node = 1 then
        (if hdp_SignatureType m node \<noteq> 2 then match_node_guid m (NextDevicePathNode m node) guid
         else if CompareGuid m (hdp_Signature node) guid = 0 then Some True
         else match_node_guid m (NextDevicePathNode m node) guid)
      else match_node_guid m (NextDevicePathNode m node) guid)"

text \<open>The loop over the handles; \<open>Some (h, fs)\<close> is the return from inside the loop.\<close>

primrec find_guid_loop :: "'f boot_services \<Rightarrow> addr \<Rightarrow> addr \<Rightarrow> nat \<Rightarrow> u64 \<Rightarrow> 'f world \<Rightarrow>
    ((addr \<times> addr) option \<times> 'f world) option" where
  "find_guid_loop bs guid handles 0 i w = Some (None, w)"
| "find_guid_loop bs guid handles (Suc n) i w =
     (let ((res, dp), w1) = HandleProtocol bs (read64 (mem w) (handles + 8 * i)) gEfiDevicePathProtocolGuid 0 w in
      if EFI_ERROR res \<or> dp = 0 then find_guid_loop bs guid handles n (i + 1) w1
      else case match_node_guid (mem w1) dp guid of
        None \<Rightarrow> None
      | Some False \<Rightarrow> find_guid_loop bs guid handles n (i + 1) w1
      | Some True \<Rightarrow>
        (let ((res, sfs), w2) =
           HandleProtocol bs (read64 (mem w1) (handles + 8 * i)) gEfiSimpleFileSystemProtocolGuid 0 w1 in
         if EFI_ERROR res \<or> sfs = 0 then find_guid_loop bs guid handles n (i + 1) w2
         else Some (Some (read64 (mem w2) (handles + 8 * i), sfs), w2)))"

definition find_filesystem_for_guid :: "'f boot_services \<Rightarrow> addr \<Rightarrow> addr option \<Rightarrow> addr option \<Rightarrow> 'f world \<Rightarrow>
    ((status \<times> addr option \<times> addr option) \<times> 'f world) option" where
  "find_filesystem_for_guid bs guid handle filesystem w =
     (if guid = 0 then Some ((EFI_INVALID_PARAMETER, handle, filesystem), w)
      else if compare_guid_words (guid_words (mem w) guid) NullGuid = 0
        then Some ((EFI_INVALID_PARAMETER, handle, filesystem), w)
      else if handle = None then Some ((EFI_INVALID_PARAMETER, handle, filesystem), w)
      else if filesystem = None then Some ((EFI_INVALID_PARAMETER, handle, filesystem), w)
      else let ((res, handleCount, handles), w1) =
             LocateHandleBuffer bs gEfiSimpleFileSystemProtocolGuid 0 0 w in
        if EFI_ERROR res then Some ((res, handle, filesystem), w1)
        else case find_guid_loop bs guid handles (unat handleCount) 0 w1 of
          None \<Rightarrow> None
        | Some (Some (h, sfs), w2) \<Rightarrow>
            Some ((EFI_SUCCESS, Some h, Some sfs), snd (FreePool bs handles w2))
        | Some (None, w2) \<Rightarrow>
            Some ((EFI_NOT_FOUND, handle, filesystem), snd (FreePool bs handles w2)))"

primrec find_file_loop :: "'f boot_services \<Rightarrow> path_arg \<Rightarrow> addr \<Rightarrow> nat \<Rightarrow> u64 \<Rightarrow> 'f world \<Rightarrow>
    (addr \<times> addr) option \<times> 'f world" where
  "find_file_loop bs path handles 0 i w = (None, w)"
| "find_file_loop bs path handles (Suc n) i w =
     (let ((res, fs), w1) =
        HandleProtocol bs (read64 (mem w) (handles + 8 * i)) gEfiSimpleFileSystemProtocolGuid 0 w in
      if EFI_ERROR res \<or> fs = 0 then find_file_loop bs path handles n (i + 1) w1
      else let ((res, root), w2) = OpenVolume bs fs 0 w1 in
        if EFI_ERROR res \<or> root = 0 then find_file_loop bs path handles n (i + 1) w2
        else let ((res, file), w3) = Open bs root 0 path EFI_FILE_MODE_READ 0 w2 in
          if \<not> EFI_ERROR res \<and> file \<noteq> 0 then
            let w4 = snd (Close bs file w3); w5 = snd (Close bs root w4)
            in (Some (read64 (mem w5) (handles + 8 * i), fs), w5)
          else
            let w4 = (if file \<noteq> 0 then snd (Close bs file w3) else w3)
            in find_file_loop bs path handles n (i + 1) (snd (Close bs root w4)))"

definition find_filesystem_with_file :: "'f boot_services \<Rightarrow> path_arg \<Rightarrow> addr option \<Rightarrow> addr option \<Rightarrow>
    u64 \<Rightarrow> addr \<Rightarrow> 'f world \<Rightarrow> (status \<times> addr option \<times> addr option) \<times> 'f world" where
  "find_filesystem_with_file bs path handle filesystem handleCount0 handles0 w =
     (if path = Ptr 0 \<or> handle = None \<or> filesystem = None
        then ((EFI_INVALID_PARAMETER, handle, filesystem), w)
      else let ((res, handleCount, handles), w1) =
             LocateHandleBuffer bs gEfiSimpleFileSystemProtocolGuid handleCount0 handles0 w in
        if EFI_ERROR res then ((res, handle, filesystem), w1)
        else if handleCount = 0 then ((EFI_NOT_FOUND, handle, filesystem), snd (FreePool bs handles w1))
        else case find_file_loop bs path handles (unat handleCount) 0 w1 of
          (Some (h, fs), w2) \<Rightarrow> ((EFI_SUCCESS, Some h, Some fs), snd (FreePool bs handles w2))
        | (None, w2) \<Rightarrow> ((EFI_NOT_FOUND, handle, filesystem), snd (FreePool bs handles w2)))"

text \<open>The status of \<^verbatim>\<open>OpenVolume\<close> is ignored, as in the code.\<close>

definition open_file :: "'f boot_services \<Rightarrow> addr \<Rightarrow> addr \<Rightarrow> path_arg \<Rightarrow> u64 \<Rightarrow> u64 \<Rightarrow> addr \<Rightarrow> 'f world \<Rightarrow>
    (status \<times> addr) \<times> 'f world" where
  "open_file bs filesystem root path openMode attributes file w =
     (if root = 0 then
        (if filesystem = 0 then ((EFI_INVALID_PARAMETER, file), w)
         else let ((_, root), w1) = OpenVolume bs filesystem root w
              in Open bs root file path openMode attributes w1)
      else Open bs root file path openMode attributes w)"

text \<open>
  \<^verbatim>\<open>SIZE_OF_EFI_FILE_INFO\<close> is the offset 80 of \<^verbatim>\<open>FileName\<close> in \<^verbatim>\<open>EFI_FILE_INFO\<close>; \<^verbatim>\<open>FileSize\<close> is at offset 8.
\<close>

definition SIZE_OF_EFI_FILE_INFO :: u64 where "SIZE_OF_EFI_FILE_INFO = 80"

definition get_file_size :: "'f boot_services \<Rightarrow> addr \<Rightarrow> u64 option \<Rightarrow> 'f world \<Rightarrow>
    (status \<times> u64 option) \<times> 'f world" where
  "get_file_size bs file fileSize w =
     (if file = 0 \<or> fileSize = None then ((EFI_INVALID_PARAMETER, fileSize), w)
      else let fileInfoBufferSize = SIZE_OF_EFI_FILE_INFO + 200;
               ((res, fileInfo), w1) = AllocatePool bs EfiLoaderData fileInfoBufferSize 0 w in
        if EFI_ERROR res then ((res, fileSize), snd (Close bs file w1))
        else let ((res, _), w2) = GetInfo bs file gEfiFileInfoGuid fileInfoBufferSize fileInfo w1 in
          if EFI_ERROR res then
            let w3 = snd (FreePool bs fileInfo w2) in ((res, fileSize), snd (Close bs file w3))
          else let size = read64 (mem w2) (fileInfo + 8)
               in ((EFI_SUCCESS, Some size), snd (FreePool bs fileInfo w2)))"

section \<open>What the lookups find\<close>

text \<open>\<open>path_at m dp ns\<close>: the device path at \<open>dp\<close> ends, and \<open>ns\<close> are its nodes.\<close>

primrec path_at :: "memory \<Rightarrow> addr \<Rightarrow> addr list \<Rightarrow> bool" where
  "path_at m dp [] \<longleftrightarrow> IsDevicePathEnd m dp"
| "path_at m dp (n # ns) \<longleftrightarrow> n = dp \<and> \<not> IsDevicePathEnd m dp \<and> path_at m (NextDevicePathNode m dp) ns"

text \<open>A hard-drive node whose GPT signature is the GUID at \<open>guid\<close>.\<close>

definition guid_node :: "memory \<Rightarrow> addr \<Rightarrow> addr \<Rightarrow> bool" where
  "guid_node m guid n \<longleftrightarrow> DevicePathType m n = 4 \<and> DevicePathSubType m n = 1 \<and> hdp_SignatureType m n = 2 \<and>
     read_bytes m (n + 24) 16 = read_bytes m guid 16"

lemma match_node_guid_nodes:
  "path_at m dp ns \<Longrightarrow> match_node_guid m dp guid = Some (\<exists>n \<in> set ns. guid_node m guid n)"
proof (induction ns arbitrary: dp)
  case Nil
  then show ?case by (subst match_node_guid.simps) simp
next
  case (Cons n ns)
  then show ?case
    by (subst match_node_guid.simps) (auto simp: guid_node_def CompareGuid_0_iff hdp_Signature_def)
qed

text \<open>\<^verbatim>\<open>HandleProtocol\<close> looks an interface up in the handle database and changes nothing.\<close>

definition handle_db :: "'f boot_services \<Rightarrow> (addr \<Rightarrow> guid_id \<Rightarrow> status \<times> addr) \<Rightarrow> bool" where
  "handle_db bs lookup \<longleftrightarrow> (\<forall>h g a w. HandleProtocol bs h g a w = (lookup h g, w))"

definition has_protocol :: "(addr \<Rightarrow> guid_id \<Rightarrow> status \<times> addr) \<Rightarrow> addr \<Rightarrow> guid_id \<Rightarrow> bool" where
  "has_protocol lookup h g \<longleftrightarrow> \<not> EFI_ERROR (fst (lookup h g)) \<and> snd (lookup h g) \<noteq> 0"

definition is_partition :: "(addr \<Rightarrow> guid_id \<Rightarrow> status \<times> addr) \<Rightarrow> memory \<Rightarrow> addr \<Rightarrow> addr \<Rightarrow> bool" where
  "is_partition lookup m guid h \<longleftrightarrow>
     has_protocol lookup h gEfiDevicePathProtocolGuid \<and>
     match_node_guid m (snd (lookup h gEfiDevicePathProtocolGuid)) guid = Some True \<and>
     has_protocol lookup h gEfiSimpleFileSystemProtocolGuid"

definition handle_list :: "memory \<Rightarrow> addr \<Rightarrow> u64 \<Rightarrow> nat \<Rightarrow> addr list" where
  "handle_list m handles i n = map (\<lambda>k. read64 m (handles + 8 * (i + of_nat k))) [0..<n]"

lemma handle_list_Suc:
  "handle_list m handles i (Suc n) = read64 m (handles + 8 * i) # handle_list m handles (i + 1) n"
  by (simp add: handle_list_def upt_conv_Cons map_Suc_upt [symmetric] comp_def algebra_simps del: upt_Suc)

lemma find_guid_loop_first:
  assumes db: "handle_db bs lookup"
    and ends: "\<And>h. h \<in> set (handle_list (mem w) handles i n) \<Longrightarrow> has_protocol lookup h gEfiDevicePathProtocolGuid \<Longrightarrow>
      match_node_guid (mem w) (snd (lookup h gEfiDevicePathProtocolGuid)) guid \<noteq> None"
  shows "find_guid_loop bs guid handles n i w =
    Some (map_option (\<lambda>h. (h, snd (lookup h gEfiSimpleFileSystemProtocolGuid)))
            (find (is_partition lookup (mem w) guid) (handle_list (mem w) handles i n)), w)"
  using ends
proof (induction n arbitrary: i)
  case 0
  then show ?case by (simp add: handle_list_def)
next
  case (Suc n)
  let ?h = "read64 (mem w) (handles + 8 * i)"
  have IH: "find_guid_loop bs guid handles n (i + 1) w =
    Some (map_option (\<lambda>h. (h, snd (lookup h gEfiSimpleFileSystemProtocolGuid)))
            (find (is_partition lookup (mem w) guid) (handle_list (mem w) handles (i + 1) n)), w)"
    by (rule Suc.IH) (use Suc.prems in \<open>auto simp: handle_list_Suc\<close>)
  have ends: "has_protocol lookup ?h gEfiDevicePathProtocolGuid \<Longrightarrow>
      match_node_guid (mem w) (snd (lookup ?h gEfiDevicePathProtocolGuid)) guid \<noteq> None"
    by (rule Suc.prems) (auto simp: handle_list_Suc)
  show ?case
    using db ends IH
    by (auto simp: handle_list_Suc handle_db_def is_partition_def [of lookup "mem w" guid ?h] has_protocol_def [of lookup ?h]
        split: prod.splits option.splits bool.splits)
qed


text \<open>A firmware with one partition: handle 7, its device path at \<^verbatim>\<open>0x200\<close>, its file system at \<^verbatim>\<open>0x900\<close>.\<close>

definition disk_lookup :: "addr \<Rightarrow> guid_id \<Rightarrow> status \<times> addr" where
  "disk_lookup h g = (if h = 7 \<and> g = gEfiDevicePathProtocolGuid then (EFI_SUCCESS, 0x200)
     else if h = 7 \<and> g = gEfiSimpleFileSystemProtocolGuid then (EFI_SUCCESS, 0x900) else (EFI_UNSUPPORTED, 0))"

definition disk_bs :: "unit boot_services" where
  "disk_bs = null_bs\<lparr>HandleProtocol := \<lambda>h g _ w. (disk_lookup h g, w),
     LocateHandleBuffer := \<lambda>_ _ _ w. ((EFI_SUCCESS, 1, 0x100), w)\<rparr>"

definition disk_mem :: memory where
  "disk_mem = (\<lambda>_. 0)(0x100 := 7, 0x200 := 4, 0x201 := 1, 0x202 := 42, 0x218 := 1, 0x229 := 2,
     0x22A := 0x7F, 0x22B := 0xFF, 0x300 := 1)"

lemma disk_eval:
  "read64 disk_mem 0x100 = 7" "path_at disk_mem 0x200 [0x200]" "guid_node disk_mem 0x300 0x200"
  "compare_guid_words (guid_words disk_mem 0x300) NullGuid \<noteq> 0"
proof -
  show "read64 disk_mem 0x100 = 7" by (simp add: disk_mem_def read64_def eval_simps)
  show "path_at disk_mem 0x200 [0x200]"
    by (simp add: disk_mem_def IsDevicePathEnd_def IsDevicePathEndType_def
      IsDevicePathEndSubType_def DevicePathType_def NextDevicePathNode_def DevicePathNodeLength_def)
  show "guid_node disk_mem 0x300 0x200"
    by (simp add: disk_mem_def guid_node_def DevicePathType_def DevicePathSubType_def hdp_SignatureType_def eval_simps)
  show "compare_guid_words (guid_words disk_mem 0x300) NullGuid \<noteq> 0"
    by (simp add: disk_mem_def compare_guid_words_def guid_words_def NullGuid_def read32_def eval_simps)
qed


end
