(* ===== verification/Crc32.thy ===== *)
theory Crc32
  imports Efi_Rt
begin

text \<open>
  The two CRC-32 implementations: the bootloader's own \<^verbatim>\<open>nyxboot/src/crc32.c\<close>, which checks the boot
  configuration file, and \<^verbatim>\<open>gnu-efi/lib/crc.c\<close>, which checks EFI table headers.  Both are
  table-driven; the reference is the bit-by-bit definition with the reflected polynomial
  \<^verbatim>\<open>0xEDB88320\<close>.
\<close>

section \<open>Definitions\<close>

definition crc32_table :: "u32 list" where
  "crc32_table =
    [0x00000000, 0x77073096, 0xEE0E612C, 0x990951BA, 0x076DC419, 0x706AF48F, 0xE963A535, 0x9E6495A3,
     0x0EDB8832, 0x79DCB8A4, 0xE0D5E91E, 0x97D2D988, 0x09B64C2B, 0x7EB17CBD, 0xE7B82D07, 0x90BF1D91,
     0x1DB71064, 0x6AB020F2, 0xF3B97148, 0x84BE41DE, 0x1ADAD47D, 0x6DDDE4EB, 0xF4D4B551, 0x83D385C7,
     0x136C9856, 0x646BA8C0, 0xFD62F97A, 0x8A65C9EC, 0x14015C4F, 0x63066CD9, 0xFA0F3D63, 0x8D080DF5,
     0x3B6E20C8, 0x4C69105E, 0xD56041E4, 0xA2677172, 0x3C03E4D1, 0x4B04D447, 0xD20D85FD, 0xA50AB56B,
     0x35B5A8FA, 0x42B2986C, 0xDBBBC9D6, 0xACBCF940, 0x32D86CE3, 0x45DF5C75, 0xDCD60DCF, 0xABD13D59,
     0x26D930AC, 0x51DE003A, 0xC8D75180, 0xBFD06116, 0x21B4F4B5, 0x56B3C423, 0xCFBA9599, 0xB8BDA50F,
     0x2802B89E, 0x5F058808, 0xC60CD9B2, 0xB10BE924, 0x2F6F7C87, 0x58684C11, 0xC1611DAB, 0xB6662D3D,
     0x76DC4190, 0x01DB7106, 0x98D220BC, 0xEFD5102A, 0x71B18589, 0x06B6B51F, 0x9FBFE4A5, 0xE8B8D433,
     0x7807C9A2, 0x0F00F934, 0x9609A88E, 0xE10E9818, 0x7F6A0DBB, 0x086D3D2D, 0x91646C97, 0xE6635C01,
     0x6B6B51F4, 0x1C6C6162, 0x856530D8, 0xF262004E, 0x6C0695ED, 0x1B01A57B, 0x8208F4C1, 0xF50FC457,
     0x65B0D9C6, 0x12B7E950, 0x8BBEB8EA, 0xFCB9887C, 0x62DD1DDF, 0x15DA2D49, 0x8CD37CF3, 0xFBD44C65,
     0x4DB26158, 0x3AB551CE, 0xA3BC0074, 0xD4BB30E2, 0x4ADFA541, 0x3DD895D7, 0xA4D1C46D, 0xD3D6F4FB,
     0x4369E96A, 0x346ED9FC, 0xAD678846, 0xDA60B8D0, 0x44042D73, 0x33031DE5, 0xAA0A4C5F, 0xDD0D7CC9,
     0x5005713C, 0x270241AA, 0xBE0B1010, 0xC90C2086, 0x5768B525, 0x206F85B3, 0xB966D409, 0xCE61E49F,
     0x5EDEF90E, 0x29D9C998, 0xB0D09822, 0xC7D7A8B4, 0x59B33D17, 0x2EB40D81, 0xB7BD5C3B, 0xC0BA6CAD,
     0xEDB88320, 0x9ABFB3B6, 0x03B6E20C, 0x74B1D29A, 0xEAD54739, 0x9DD277AF, 0x04DB2615, 0x73DC1683,
     0xE3630B12, 0x94643B84, 0x0D6D6A3E, 0x7A6A5AA8, 0xE40ECF0B, 0x9309FF9D, 0x0A00AE27, 0x7D079EB1,
     0xF00F9344, 0x8708A3D2, 0x1E01F268, 0x6906C2FE, 0xF762575D, 0x806567CB, 0x196C3671, 0x6E6B06E7,
     0xFED41B76, 0x89D32BE0, 0x10DA7A5A, 0x67DD4ACC, 0xF9B9DF6F, 0x8EBEEFF9, 0x17B7BE43, 0x60B08ED5,
     0xD6D6A3E8, 0xA1D1937E, 0x38D8C2C4, 0x4FDFF252, 0xD1BB67F1, 0xA6BC5767, 0x3FB506DD, 0x48B2364B,
     0xD80D2BDA, 0xAF0A1B4C, 0x36034AF6, 0x41047A60, 0xDF60EFC3, 0xA867DF55, 0x316E8EEF, 0x4669BE79,
     0xCB61B38C, 0xBC66831A, 0x256FD2A0, 0x5268E236, 0xCC0C7795, 0xBB0B4703, 0x220216B9, 0x5505262F,
     0xC5BA3BBE, 0xB2BD0B28, 0x2BB45A92, 0x5CB36A04, 0xC2D7FFA7, 0xB5D0CF31, 0x2CD99E8B, 0x5BDEAE1D,
     0x9B64C2B0, 0xEC63F226, 0x756AA39C, 0x026D930A, 0x9C0906A9, 0xEB0E363F, 0x72076785, 0x05005713,
     0x95BF4A82, 0xE2B87A14, 0x7BB12BAE, 0x0CB61B38, 0x92D28E9B, 0xE5D5BE0D, 0x7CDCEFB7, 0x0BDBDF21,
     0x86D3D2D4, 0xF1D4E242, 0x68DDB3F8, 0x1FDA836E, 0x81BE16CD, 0xF6B9265B, 0x6FB077E1, 0x18B74777,
     0x88085AE6, 0xFF0F6A70, 0x66063BCA, 0x11010B5C, 0x8F659EFF, 0xF862AE69, 0x616BFFD3, 0x166CCF45,
     0xA00AE278, 0xD70DD2EE, 0x4E048354, 0x3903B3C2, 0xA7672661, 0xD06016F7, 0x4969474D, 0x3E6E77DB,
     0xAED16A4A, 0xD9D65ADC, 0x40DF0B66, 0x37D83BF0, 0xA9BCAE53, 0xDEBB9EC5, 0x47B2CF7F, 0x30B5FFE9,
     0xBDBDF21C, 0xCABAC28A, 0x53B39330, 0x24B4A3A6, 0xBAD03605, 0xCDD70693, 0x54DE5729, 0x23D967BF,
     0xB3667A2E, 0xC4614AB8, 0x5D681B02, 0x2A6F2B94, 0xB40BBE37, 0xC30C8EA1, 0x5A05DF1B, 0x2D02EF8D]"

text \<open>One turn of the loop of \<open>crc32\<close>, then the function; \<open>bytes\<close> are the \<^verbatim>\<open>length\<close> bytes at \<^verbatim>\<open>data\<close>.\<close>

definition crc32_step :: "u32 \<Rightarrow> u8 \<Rightarrow> u32" where
  "crc32_step crc b = drop_bit 8 crc XOR crc32_table ! unat ((crc XOR ucast b) AND 0xFF)"

definition crc32 :: "u8 list \<Rightarrow> u32 \<Rightarrow> u32" where
  "crc32 bytes init = NOT (foldl crc32_step init bytes)"

definition CRCTable :: "u32 list" where
  "CRCTable =
    [0x00000000, 0x77073096, 0xEE0E612C, 0x990951BA, 0x076DC419, 0x706AF48F, 0xE963A535, 0x9E6495A3,
     0x0EDB8832, 0x79DCB8A4, 0xE0D5E91E, 0x97D2D988, 0x09B64C2B, 0x7EB17CBD, 0xE7B82D07, 0x90BF1D91,
     0x1DB71064, 0x6AB020F2, 0xF3B97148, 0x84BE41DE, 0x1ADAD47D, 0x6DDDE4EB, 0xF4D4B551, 0x83D385C7,
     0x136C9856, 0x646BA8C0, 0xFD62F97A, 0x8A65C9EC, 0x14015C4F, 0x63066CD9, 0xFA0F3D63, 0x8D080DF5,
     0x3B6E20C8, 0x4C69105E, 0xD56041E4, 0xA2677172, 0x3C03E4D1, 0x4B04D447, 0xD20D85FD, 0xA50AB56B,
     0x35B5A8FA, 0x42B2986C, 0xDBBBC9D6, 0xACBCF940, 0x32D86CE3, 0x45DF5C75, 0xDCD60DCF, 0xABD13D59,
     0x26D930AC, 0x51DE003A, 0xC8D75180, 0xBFD06116, 0x21B4F4B5, 0x56B3C423, 0xCFBA9599, 0xB8BDA50F,
     0x2802B89E, 0x5F058808, 0xC60CD9B2, 0xB10BE924, 0x2F6F7C87, 0x58684C11, 0xC1611DAB, 0xB6662D3D,
     0x76DC4190, 0x01DB7106, 0x98D220BC, 0xEFD5102A, 0x71B18589, 0x06B6B51F, 0x9FBFE4A5, 0xE8B8D433,
     0x7807C9A2, 0x0F00F934, 0x9609A88E, 0xE10E9818, 0x7F6A0DBB, 0x086D3D2D, 0x91646C97, 0xE6635C01,
     0x6B6B51F4, 0x1C6C6162, 0x856530D8, 0xF262004E, 0x6C0695ED, 0x1B01A57B, 0x8208F4C1, 0xF50FC457,
     0x65B0D9C6, 0x12B7E950, 0x8BBEB8EA, 0xFCB9887C, 0x62DD1DDF, 0x15DA2D49, 0x8CD37CF3, 0xFBD44C65,
     0x4DB26158, 0x3AB551CE, 0xA3BC0074, 0xD4BB30E2, 0x4ADFA541, 0x3DD895D7, 0xA4D1C46D, 0xD3D6F4FB,
     0x4369E96A, 0x346ED9FC, 0xAD678846, 0xDA60B8D0, 0x44042D73, 0x33031DE5, 0xAA0A4C5F, 0xDD0D7CC9,
     0x5005713C, 0x270241AA, 0xBE0B1010, 0xC90C2086, 0x5768B525, 0x206F85B3, 0xB966D409, 0xCE61E49F,
     0x5EDEF90E, 0x29D9C998, 0xB0D09822, 0xC7D7A8B4, 0x59B33D17, 0x2EB40D81, 0xB7BD5C3B, 0xC0BA6CAD,
     0xEDB88320, 0x9ABFB3B6, 0x03B6E20C, 0x74B1D29A, 0xEAD54739, 0x9DD277AF, 0x04DB2615, 0x73DC1683,
     0xE3630B12, 0x94643B84, 0x0D6D6A3E, 0x7A6A5AA8, 0xE40ECF0B, 0x9309FF9D, 0x0A00AE27, 0x7D079EB1,
     0xF00F9344, 0x8708A3D2, 0x1E01F268, 0x6906C2FE, 0xF762575D, 0x806567CB, 0x196C3671, 0x6E6B06E7,
     0xFED41B76, 0x89D32BE0, 0x10DA7A5A, 0x67DD4ACC, 0xF9B9DF6F, 0x8EBEEFF9, 0x17B7BE43, 0x60B08ED5,
     0xD6D6A3E8, 0xA1D1937E, 0x38D8C2C4, 0x4FDFF252, 0xD1BB67F1, 0xA6BC5767, 0x3FB506DD, 0x48B2364B,
     0xD80D2BDA, 0xAF0A1B4C, 0x36034AF6, 0x41047A60, 0xDF60EFC3, 0xA867DF55, 0x316E8EEF, 0x4669BE79,
     0xCB61B38C, 0xBC66831A, 0x256FD2A0, 0x5268E236, 0xCC0C7795, 0xBB0B4703, 0x220216B9, 0x5505262F,
     0xC5BA3BBE, 0xB2BD0B28, 0x2BB45A92, 0x5CB36A04, 0xC2D7FFA7, 0xB5D0CF31, 0x2CD99E8B, 0x5BDEAE1D,
     0x9B64C2B0, 0xEC63F226, 0x756AA39C, 0x026D930A, 0x9C0906A9, 0xEB0E363F, 0x72076785, 0x05005713,
     0x95BF4A82, 0xE2B87A14, 0x7BB12BAE, 0x0CB61B38, 0x92D28E9B, 0xE5D5BE0D, 0x7CDCEFB7, 0x0BDBDF21,
     0x86D3D2D4, 0xF1D4E242, 0x68DDB3F8, 0x1FDA836E, 0x81BE16CD, 0xF6B9265B, 0x6FB077E1, 0x18B74777,
     0x88085AE6, 0xFF0F6A70, 0x66063BCA, 0x11010B5C, 0x8F659EFF, 0xF862AE69, 0x616BFFD3, 0x166CCF45,
     0xA00AE278, 0xD70DD2EE, 0x4E048354, 0x3903B3C2, 0xA7672661, 0xD06016F7, 0x4969474D, 0x3E6E77DB,
     0xAED16A4A, 0xD9D65ADC, 0x40DF0B66, 0x37D83BF0, 0xA9BCAE53, 0xDEBB9EC5, 0x47B2CF7F, 0x30B5FFE9,
     0xBDBDF21C, 0xCABAC28A, 0x53B39330, 0x24B4A3A6, 0xBAD03605, 0xCDD70693, 0x54DE5729, 0x23D967BF,
     0xB3667A2E, 0xC4614AB8, 0x5D681B02, 0x2A6F2B94, 0xB40BBE37, 0xC30C8EA1, 0x5A05DF1B, 0x2D02EF8D]"

text \<open>The accumulator of \<open>CalculateCrc\<close> is a \<^verbatim>\<open>UINTN\<close>.\<close>

primrec CalculateCrc_loop :: "memory \<Rightarrow> addr \<Rightarrow> nat \<Rightarrow> u64 \<Rightarrow> u64" where
  "CalculateCrc_loop m pt 0 Crc = Crc"
| "CalculateCrc_loop m pt (Suc Size) Crc =
     CalculateCrc_loop m (pt + 1) Size
       (drop_bit 8 Crc XOR ucast (CRCTable ! unat ((ucast Crc :: u8) XOR m pt)))"

definition CalculateCrc :: "memory \<Rightarrow> addr \<Rightarrow> u64 \<Rightarrow> u32" where
  "CalculateCrc m pt Size = ucast (CalculateCrc_loop m pt (unat Size) 0xFFFFFFFF XOR 0xFFFFFFFF)"

text \<open>Fields of \<^verbatim>\<open>EFI_TABLE_HEADER\<close>: \<^verbatim>\<open>HeaderSize\<close> at offset 12 and \<^verbatim>\<open>CRC32\<close> at offset 16.\<close>

definition hdr_HeaderSize :: "memory \<Rightarrow> addr \<Rightarrow> u32" where
  "hdr_HeaderSize m Hdr = read32 m (Hdr + 12)"

definition hdr_CRC32 :: "memory \<Rightarrow> addr \<Rightarrow> u32" where
  "hdr_CRC32 m Hdr = read32 m (Hdr + 16)"

definition set_hdr_CRC32 :: "memory \<Rightarrow> addr \<Rightarrow> u32 \<Rightarrow> memory" where
  "set_hdr_CRC32 m Hdr v = write_bytes m (Hdr + 16) (le_bytes 4 v)"

definition SetCrcAltSize :: "memory \<Rightarrow> u64 \<Rightarrow> addr \<Rightarrow> memory" where
  "SetCrcAltSize m Size Hdr =
     (let m1 = set_hdr_CRC32 m Hdr 0 in set_hdr_CRC32 m1 Hdr (CalculateCrc m1 Hdr Size))"

definition SetCrc :: "memory \<Rightarrow> addr \<Rightarrow> memory" where
  "SetCrc m Hdr = SetCrcAltSize m (ucast (hdr_HeaderSize m Hdr)) Hdr"

definition CheckCrcAltSize :: "memory \<Rightarrow> u64 \<Rightarrow> u64 \<Rightarrow> addr \<Rightarrow> memory \<times> bool" where
  "CheckCrcAltSize m MaxSize Size Hdr =
     (if Size = 0 then (m, False)
      else if MaxSize \<noteq> 0 \<and> MaxSize < Size then (m, False)
      else let OrgCrc = hdr_CRC32 m Hdr;
               m1 = set_hdr_CRC32 m Hdr 0;
               Crc = CalculateCrc m1 Hdr Size;
               m2 = set_hdr_CRC32 m1 Hdr OrgCrc
           in (m2, OrgCrc = Crc))"

definition CheckCrc :: "memory \<Rightarrow> u64 \<Rightarrow> addr \<Rightarrow> memory \<times> bool" where
  "CheckCrc m MaxSize Hdr = CheckCrcAltSize m MaxSize (ucast (hdr_HeaderSize m Hdr)) Hdr"

section \<open>The bit-by-bit reference\<close>

definition crc_bit :: "u32 \<Rightarrow> u32" where
  "crc_bit c = drop_bit 1 c XOR (if bit c 0 then 0xEDB88320 else 0)"

definition crc_byte :: "u32 \<Rightarrow> u8 \<Rightarrow> u32" where
  "crc_byte c b = (crc_bit ^^ 8) (c XOR ucast b)"

lemma crc_bit_xor: "crc_bit (x XOR y) = crc_bit x XOR crc_bit y"
  by (auto simp: crc_bit_def bit_xor_iff ac_simps)

lemma funpow_crc_bit_xor: "(crc_bit ^^ n) (x XOR y) = (crc_bit ^^ n) x XOR (crc_bit ^^ n) y"
  by (induction n) (simp_all add: crc_bit_xor)

lemma crc_bit_inj: "inj crc_bit"
proof (rule injI)
  fix x y assume eq: "crc_bit x = crc_bit y"
  have top: "bit (crc_bit z) 31 = bit z 0" for z
    using bit_imp_le_length [of z 32] by (auto simp: crc_bit_def bit_simps)
  have b0: "bit x 0 = bit y 0" using top [of x] top [of y] eq by simp
  have cancel: "u = v" if "u XOR k = v XOR k" for u v k :: u32
    using arg_cong [OF that, of "\<lambda>w. w XOR k"] by (simp only: xor.assoc xor_self_eq xor.right_neutral)
  from eq b0 have "drop_bit 1 x = drop_bit 1 y" by (auto simp: crc_bit_def dest: cancel split: if_splits)
  then have "bit x (Suc n) = bit y (Suc n)" for n by (metis bit_drop_bit_eq plus_1_eq_Suc comp_apply)
  with b0 show "x = y" by (intro bit_word_eqI) (metis not0_implies_Suc)
qed

lemma funpow_crc_bit_shift:
  "(\<And>i. i < n \<Longrightarrow> \<not> bit c i) \<Longrightarrow> (crc_bit ^^ n) c = drop_bit n c"
proof (induction n arbitrary: c)
  case 0
  then show ?case by simp
next
  case (Suc n)
  have "crc_bit c = drop_bit 1 c" using Suc.prems [of 0] by (simp add: crc_bit_def)
  moreover have "(crc_bit ^^ n) (drop_bit 1 c) = drop_bit n (drop_bit 1 c)"
    using Suc.prems by (intro Suc.IH) (simp add: bit_simps)
  ultimately show ?case by (simp add: funpow_swap1)
qed

lemma funpow_8: "(f ^^ 8) x = f (f (f (f (f (f (f (f x)))))))"
  by (simp add: eval_nat_numeral)

text \<open>All XORs of sub-lists of a basis, in the order of the index bits; a linear map commutes with it.\<close>

primrec xor_span :: "u32 list \<Rightarrow> u32 list" where
  "xor_span [] = [0]"
| "xor_span (b # bs) = xor_span bs @ map (xor b) (xor_span bs)"

lemma map_xor_span:
  assumes "\<And>x y. f (x XOR y) = f x XOR f y"
  shows "map f (xor_span bs) = xor_span (map f bs)"
proof (induction bs)
  case Nil
  have "f 0 = 0" using assms [of 0 0] by simp
  then show ?case by simp
next
  case (Cons b bs)
  have "map f (map (xor b) xs) = map (xor (f b)) (map f xs)" for xs
    by (simp add: assms)
  then show ?case using Cons.IH by (simp only: xor_span.simps map_append list.map)
qed

lemma crc_basis:
  "map (crc_bit ^^ 8) [128, 64, 32, 16, 8, 4, 2, 1] =
    [0xEDB88320, 0x76DC4190, 0x3B6E20C8, 0x1DB71064, 0x0EDB8832, 0x076DC419, 0xEE0E612C, 0x77073096]"
  by (simp add: funpow_8 crc_bit_def)

lemma crc32_table_entries: "crc32_table = map (crc_bit ^^ 8) (map of_nat [0..<256])"
proof -
  have "[0..<256] = 0 # 1 # [2..<256]" by (simp add: upt_conv_Cons numeral_2_eq_2)
  moreover have "[2..<256] = [2, 3, 4, 5, 6, 7, 8, 9, 10, 11, 12, 13, 14, 15, 16, 17, 18, 19, 20, 21, 22, 23, 24, 25, 26, 27,
      28, 29, 30, 31, 32, 33, 34, 35, 36, 37, 38, 39, 40, 41, 42, 43, 44, 45, 46, 47, 48, 49, 50, 51,
      52, 53, 54, 55, 56, 57, 58, 59, 60, 61, 62, 63, 64, 65, 66, 67, 68, 69, 70, 71, 72, 73, 74, 75,
      76, 77, 78, 79, 80, 81, 82, 83, 84, 85, 86, 87, 88, 89, 90, 91, 92, 93, 94, 95, 96, 97, 98, 99,
      100, 101, 102, 103, 104, 105, 106, 107, 108, 109, 110, 111, 112, 113, 114, 115, 116, 117, 118,
      119, 120, 121, 122, 123, 124, 125, 126, 127, 128, 129, 130, 131, 132, 133, 134, 135, 136, 137,
      138, 139, 140, 141, 142, 143, 144, 145, 146, 147, 148, 149, 150, 151, 152, 153, 154, 155, 156,
      157, 158, 159, 160, 161, 162, 163, 164, 165, 166, 167, 168, 169, 170, 171, 172, 173, 174, 175,
      176, 177, 178, 179, 180, 181, 182, 183, 184, 185, 186, 187, 188, 189, 190, 191, 192, 193, 194,
      195, 196, 197, 198, 199, 200, 201, 202, 203, 204, 205, 206, 207, 208, 209, 210, 211, 212, 213,
      214, 215, 216, 217, 218, 219, 220, 221, 222, 223, 224, 225, 226, 227, 228, 229, 230, 231, 232,
      233, 234, 235, 236, 237, 238, 239, 240, 241, 242, 243, 244, 245, 246, 247, 248, 249, 250, 251,
      252, 253, 254, 255]"
    by (simp add: upt_rec_numeral)
  ultimately have "map of_nat [0..<256] = xor_span [128, 64, 32, 16, 8, 4, 2, 1]"
    by simp
  then have "map (crc_bit ^^ 8) (map of_nat [0..<256]) = xor_span (map (crc_bit ^^ 8) [128, 64, 32, 16, 8, 4, 2, 1])"
    by (simp only: map_xor_span [OF funpow_crc_bit_xor])
  also have "\<dots> = crc32_table"
    unfolding crc_basis by (simp add: crc32_table_def)
  finally show ?thesis ..
qed

lemma length_crc32_table [simp]: "length crc32_table = 256"
  by (simp add: crc32_table_entries)

lemma CRCTable_eq: "CRCTable = crc32_table"
  by (simp only: CRCTable_def crc32_table_def)

lemma crc32_table_nth: "crc32_table ! unat (c AND 0xFF) = (crc_bit ^^ 8) (c AND 0xFF)" for c :: u32
proof -
  have "unat (c AND 0xFF) < 256"
    using word_and_le2 [of "0xFF :: u32" c] by (simp add: word_le_nat_alt and.commute)
  then show ?thesis by (simp add: crc32_table_entries)
qed

lemma bit_0xFF: "bit (0xFF :: u32) i \<longleftrightarrow> i < 8"
proof -
  have "(0xFF :: u32) = mask 8" by (simp add: mask_eq_exp_minus_1)
  then have "bit (0xFF :: u32) i \<longleftrightarrow> i < LENGTH(32) \<and> i < 8" by (simp only: bit_mask_iff) auto
  then show ?thesis by auto
qed

lemma crc_bits_by_table:
  fixes x c m :: u32
  assumes m: "\<And>i. bit m i \<longleftrightarrow> i < 8" and hi: "\<And>i. 8 \<le> i \<Longrightarrow> bit x i = bit c i"
  shows "(crc_bit ^^ 8) x = (crc_bit ^^ 8) (x AND m) XOR drop_bit 8 c"
proof -
  have split: "x = (x AND m) XOR (x AND NOT m)"
    by (rule bit_word_eqI) (auto simp: bit_simps)
  have "(crc_bit ^^ 8) (x AND NOT m) = drop_bit 8 (x AND NOT m)"
    by (rule funpow_crc_bit_shift) (simp add: bit_simps m)
  moreover have "drop_bit 8 (x AND NOT m) = drop_bit 8 c"
    by (rule bit_word_eqI) (use bit_imp_le_length in \<open>fastforce simp: bit_simps m hi\<close>)
  ultimately show ?thesis
    by (subst split) (simp only: funpow_crc_bit_xor)
qed

lemma crc32_step_eq: "crc32_step c b = crc_byte c b"
proof -
  have "bit (c XOR ucast b) i = bit c i" if "8 \<le> i" for i
    using that bit_imp_le_length [of b i] bit_imp_le_length [of c i] by (auto simp: bit_simps)
  then have "(crc_bit ^^ 8) (c XOR ucast b) = (crc_bit ^^ 8) ((c XOR ucast b) AND 0xFF) XOR drop_bit 8 c"
    by (intro crc_bits_by_table bit_0xFF)
  then show ?thesis
    by (simp only: crc32_step_def crc_byte_def crc32_table_nth xor.commute)
qed

lemma crc32_eq_foldl: "crc32 bytes init = NOT (foldl crc_byte init bytes)"
proof -
  have "crc32_step = crc_byte" by (intro ext) (rule crc32_step_eq)
  then show ?thesis by (simp add: crc32_def)
qed

lemma funpow_crc_bit_inj: "(crc_bit ^^ n) x = (crc_bit ^^ n) y \<Longrightarrow> x = y"
  by (induction n) (auto dest: injD [OF crc_bit_inj])

lemma xor_right_cancel: "u XOR k = v XOR k \<longleftrightarrow> u = v" for u v k :: "'a::len word"
proof
  assume "u XOR k = v XOR k"
  from arg_cong [OF this, of "\<lambda>w. w XOR k"] show "u = v"
    by (simp only: xor.assoc xor_self_eq xor.right_neutral)
qed simp

lemma crc_byte_inj_crc: "crc_byte c b = crc_byte d b \<Longrightarrow> c = d"
  by (auto simp: crc_byte_def xor_right_cancel dest: funpow_crc_bit_inj)

lemma crc_byte_inj_byte: "crc_byte c b = crc_byte c d \<Longrightarrow> b = d"
proof -
  assume "crc_byte c b = crc_byte c d"
  then have "ucast b XOR c = ucast d XOR c"
    unfolding crc_byte_def by (auto simp: xor.commute dest: funpow_crc_bit_inj)
  then show "b = d" by (simp add: xor_right_cancel ucast_up_eq_iff)
qed

lemma foldl_crc_byte_inj: "foldl crc_byte c bs = foldl crc_byte d bs \<Longrightarrow> c = d"
  by (induction bs arbitrary: c d) (auto dest: crc_byte_inj_crc)

lemma crc32_detects: "crc32 (xs @ b # ys) init = crc32 (xs @ b' # ys) init \<longleftrightarrow> b = b'"
  by (auto simp: crc32_eq_foldl dest!: foldl_crc_byte_inj crc_byte_inj_byte)

text \<open>
  C6: the table-driven \<open>crc32\<close> is the bit-by-bit CRC-32 (reflected polynomial \<^verbatim>\<open>0xEDB88320\<close>,
  complemented at the end), and it detects every corruption of a single byte: two messages that
  differ in exactly one byte have different checksums, whatever the initial value.
\<close>

theorem crc32_reference_and_detection:
  "crc32 bytes init = NOT (foldl crc_byte init bytes) \<and>
   (crc32 (xs @ b # ys) init = crc32 (xs @ b' # ys) init \<longleftrightarrow> b = b')"
proof
  show "crc32 bytes init = NOT (foldl crc_byte init bytes)" by (rule crc32_eq_foldl)
  show "crc32 (xs @ b # ys) init = crc32 (xs @ b' # ys) init \<longleftrightarrow> b = b'" by (rule crc32_detects)
qed

section \<open>The CRC of EFI tables\<close>

lemma CRC_index: "unat ((ucast (ucast c :: u64) :: u8) XOR b) = unat ((c XOR ucast b) AND 0xFF)"
  for c :: u32
proof -
  have "(ucast ((ucast (ucast c :: u64) :: u8) XOR b) :: u32) = (c XOR ucast b) AND 0xFF"
    by (rule bit_word_eqI) (use bit_imp_le_length [of b] in \<open>simp only: bit_and_iff bit_0xFF; fastforce simp: bit_simps\<close>)
  from arg_cong [OF this, of unat] show ?thesis by (simp add: unat_ucast_up)
qed

lemma CalculateCrc_loop_eq:
  "CalculateCrc_loop m pt n (ucast c) = ucast (foldl crc32_step c (read_bytes m pt n))"
proof (induction n arbitrary: pt c)
  case (Suc n)
  have "drop_bit 8 (ucast c :: u64) XOR ucast t = ucast (drop_bit 8 c XOR t)" for t :: u32
    by (rule bit_word_eqI) (use bit_imp_le_length [of c] in \<open>fastforce simp: bit_simps\<close>)
  then show ?case using Suc by (simp add: CRC_index crc32_step_def CRCTable_eq)
qed simp

lemma set_hdr_CRC32_twice: "set_hdr_CRC32 (set_hdr_CRC32 m Hdr v) Hdr w = set_hdr_CRC32 m Hdr w"
  by (auto simp: set_hdr_CRC32_def write_bytes_apply intro!: ext)

lemma hdr_set_CRC32: "hdr_CRC32 (set_hdr_CRC32 m Hdr v) Hdr = v"
  using read_write_bytes [of "le_bytes 4 v" m "Hdr + 16"]
  by (simp add: hdr_CRC32_def set_hdr_CRC32_def read32_def le_word_le_bytes)

lemma set_hdr_CRC32_same: "set_hdr_CRC32 m Hdr (hdr_CRC32 m Hdr) = m"
proof -
  have "le_bytes 4 (le_word (read_bytes m (Hdr + 16) 4) :: u32) = read_bytes m (Hdr + 16) 4"
    using le_bytes_le_word [where 'a = 32 and bs = "read_bytes m (Hdr + 16) 4"] by simp
  then show ?thesis
    by (auto simp: hdr_CRC32_def set_hdr_CRC32_def read32_def write_bytes_apply in_range_def intro!: ext)
qed

lemma HeaderSize_set_CRC32: "hdr_HeaderSize (set_hdr_CRC32 m Hdr v) Hdr = hdr_HeaderSize m Hdr"
  unfolding hdr_HeaderSize_def set_hdr_CRC32_def read32_def
  by (subst read_write_bytes_disjoint) (simp_all add: no_overlap_distance(2))

lemma ucast_u32_eq_0: "(ucast w :: u64) = 0 \<longleftrightarrow> w = 0" for w :: u32
  by (auto simp: word_unat_eq_iff unat_ucast_up)

lemma minus_one_u32: "- 1 = (0xFFFFFFFF :: u32)"
  by simp

lemma CalculateCrc_eq_crc32: "CalculateCrc m pt Size = crc32 (read_bytes m pt (unat Size)) 0xFFFFFFFF"
proof -
  have "CalculateCrc_loop m pt (unat Size) 0xFFFFFFFF
      = ucast (foldl crc32_step 0xFFFFFFFF (read_bytes m pt (unat Size)))"
    using CalculateCrc_loop_eq [where c = "0xFFFFFFFF"] by simp
  moreover have "(ucast (ucast c XOR 0xFFFFFFFF :: u64) :: u32) = NOT c" for c :: u32
  proof -
    have "(ucast (x XOR y) :: u32) = ucast x XOR ucast y" for x y :: u64
      by (rule bit_word_eqI) (simp add: bit_simps)
    moreover have "(ucast (ucast c :: u64) :: u32) = c"
      by (rule bit_word_eqI) (simp add: bit_simps)
    moreover have "c XOR 0xFFFFFFFF = NOT c"
      by (rule bit_word_eqI) (simp add: bit_simps flip: minus_one_u32)
    ultimately show ?thesis by simp
  qed
  ultimately show ?thesis by (simp add: CalculateCrc_def crc32_def)
qed

text \<open>
  C8: the two CRC implementations agree (\<open>CalculateCrc\<close> of gnu-efi is the bootloader's \<open>crc32\<close> with
  initial value all ones), a header sealed by \<open>SetCrc\<close> passes \<open>CheckCrc\<close> whenever its size is
  not zero and within the maximum (a maximum of 0 means none), and \<open>CheckCrc\<close> leaves memory as it was.
\<close>

theorem SetCrc_CheckCrc:
  "CalculateCrc m Hdr Size = crc32 (read_bytes m Hdr (unat Size)) 0xFFFFFFFF \<and>
   CheckCrc (SetCrc m Hdr) MaxSize Hdr =
     (SetCrc m Hdr, hdr_HeaderSize m Hdr \<noteq> 0 \<and> (MaxSize = 0 \<or> ucast (hdr_HeaderSize m Hdr) \<le> MaxSize)) \<and>
   fst (CheckCrc m MaxSize Hdr) = m"
proof (intro conjI)
  show "CalculateCrc m Hdr Size = crc32 (read_bytes m Hdr (unat Size)) 0xFFFFFFFF"
    by (rule CalculateCrc_eq_crc32)
  show "CheckCrc (SetCrc m Hdr) MaxSize Hdr =
     (SetCrc m Hdr, hdr_HeaderSize m Hdr \<noteq> 0 \<and> (MaxSize = 0 \<or> ucast (hdr_HeaderSize m Hdr) \<le> MaxSize))"
    by (auto simp: CheckCrc_def CheckCrcAltSize_def SetCrc_def SetCrcAltSize_def Let_def not_less
        HeaderSize_set_CRC32 ucast_u32_eq_0 set_hdr_CRC32_twice hdr_set_CRC32)
  show "fst (CheckCrc m MaxSize Hdr) = m"
    by (simp add: CheckCrc_def CheckCrcAltSize_def Let_def set_hdr_CRC32_twice set_hdr_CRC32_same)
qed

end
