(* ===== verification/Boot_Cfg.thy ===== *)
theory Boot_Cfg
  imports Boot_Fs Crc32
begin

text \<open>
  \<^verbatim>\<open>nyxboot/src/cfgparse.c\<close>: the boot configuration file.  The structure \<^verbatim>\<open>configinfo_t\<close> is at an
  address in memory: the partition GUID at offset 0, the pointer to the path at offset 16.
\<close>

section \<open>Definitions\<close>

record mdbc_header =
  hdr_magic :: "u8 list"
  hdr_crc32 :: u32
  hdr_version :: u8
  hdr_dataOffset :: u64

text \<open>The packed structure at an address: 24 bytes.\<close>

definition mdbc_header_at :: "memory \<Rightarrow> addr \<Rightarrow> mdbc_header" where
  "mdbc_header_at m a = \<lparr>hdr_magic = read_bytes m a 4, hdr_crc32 = read32 m (a + 4),
     hdr_version = m (a + 8), hdr_dataOffset = read64 m (a + 16)\<rparr>"

definition MDBC_Magic :: "u8 list" where
  "MDBC_Magic = [0x4D, 0x42, 0x43, 0x46]"

definition str_BOOT_DISK :: "u8 list" where
  "str_BOOT_DISK = [0x42, 0x4F, 0x4F, 0x54, 0x5F, 0x44, 0x49, 0x53, 0x4B]"

definition str_BOOT_PATH :: "u8 list" where
  "str_BOOT_PATH = [0x42, 0x4F, 0x4F, 0x54, 0x5F, 0x50, 0x41, 0x54, 0x48]"

definition path_BOOT_CFG :: "u16 list" where
  "path_BOOT_CFG = [0x42, 0x4F, 0x4F, 0x54, 0x5C, 0x42, 0x4F, 0x4F, 0x54, 0x2E, 0x43, 0x46, 0x47]"

text \<open>\<open>cfg\<close> is the current value of the variable \<^verbatim>\<open>*cfg\<close>; the new value is returned.\<close>

definition open_config_file :: "'f boot_services \<Rightarrow> addr \<Rightarrow> addr \<Rightarrow> 'f world \<Rightarrow> (status \<times> addr) \<times> 'f world" where
  "open_config_file bs cfg imageHandle w =
     (let ((res, imageProtocol), w1) = HandleProtocol bs imageHandle gEfiLoadedImageProtocolGuid 0 w in
      if EFI_ERROR res \<or> imageProtocol = 0 then ((res, cfg), w1)
      else let ((res, espFS), w2) =
             HandleProtocol bs (read64 (mem w1) (imageProtocol + 24)) gEfiSimpleFileSystemProtocolGuid 0 w1 in
        if EFI_ERROR res \<or> espFS = 0 then ((res, cfg), w2)
        else let ((res, root), w3) = OpenVolume bs espFS 0 w2 in
          if EFI_ERROR res \<or> root = 0 then ((res, cfg), w3)
          else let ((res, cfg), w4) = Open bs root cfg (Literal path_BOOT_CFG) EFI_FILE_MODE_READ 0 w3 in
            if EFI_ERROR res \<or> cfg = 0 then ((res, cfg), snd (Close bs root w4))
            else ((EFI_SUCCESS, cfg), snd (Close bs root w4)))"

definition verify_header :: "mdbc_header \<Rightarrow> memory \<Rightarrow> addr \<Rightarrow> u64 \<Rightarrow> status" where
  "verify_header header m cfgBuffer cfgSize =
     (if hdr_magic header \<noteq> MDBC_Magic then EFI_UNSUPPORTED
      else if hdr_version header \<noteq> 1 then EFI_INCOMPATIBLE_VERSION
      else let cfgCrc32 = crc32 (read_bytes m (cfgBuffer + hdr_dataOffset header)
                                   (unat (cfgSize - hdr_dataOffset header))) 0xFFFFFFFF
           in if cfgCrc32 \<noteq> hdr_crc32 header then EFI_CRC_ERROR else EFI_SUCCESS)"

partial_function (option) read_config_loop :: "'f boot_services \<Rightarrow> addr \<Rightarrow> addr \<Rightarrow> addr \<Rightarrow> 'f world \<Rightarrow>
    (status \<times> 'f world) option" where
  [code]: "read_config_loop bs ptr endp cfg w =
     (if \<not> ptr < endp then Some (EFI_SUCCESS, w)
      else let name = ptr in
        case strlena (mem w) name of None \<Rightarrow> None | Some nameLen \<Rightarrow>
        let ptr = ptr + nameLen + 1 in
        if endp < ptr + 2 then Some (EFI_COMPROMISED_DATA, w)
        else let size = read16 (mem w) ptr; ptr = ptr + 2 in
        if endp < ptr + ucast size + 2 then Some (EFI_COMPROMISED_DATA, w)
        else let data = ptr; ptr = ptr + ucast size in
        if mem w ptr \<noteq> 0 \<or> mem w (ptr + 1) \<noteq> 0x0A then Some (EFI_COMPROMISED_DATA, w)
        else let ptr = ptr + 2 in
        case strcmpa_lit (mem w) name str_BOOT_DISK of None \<Rightarrow> None | Some disk \<Rightarrow>
        if disk = 0 then read_config_loop bs ptr endp cfg (w\<lparr>mem := CopyMem (mem w) cfg data 16\<rparr>)
        else case strcmpa_lit (mem w) name str_BOOT_PATH of None \<Rightarrow> None | Some path \<Rightarrow>
        if path = 0 then
          let ((res, p), w1) = AllocatePool bs EfiLoaderData (ucast size) (read64 (mem w) (cfg + 16)) w;
              w2 = w1\<lparr>mem := write64 (mem w1) (cfg + 16) p\<rparr> in
          if EFI_ERROR res then Some (res, w2)
          else read_config_loop bs ptr endp cfg
                 (w2\<lparr>mem := CopyMem (mem w2) (read64 (mem w2) (cfg + 16)) data (ucast size)\<rparr>)
        else Some (EFI_INVALID_PARAMETER, w))"

definition read_config :: "'f boot_services \<Rightarrow> addr \<Rightarrow> u64 \<Rightarrow> addr \<Rightarrow> 'f world \<Rightarrow> (status \<times> 'f world) option" where
  "read_config bs cfgBuffer cfgSize cfg w =
     (let header = mdbc_header_at (mem w) cfgBuffer;
          res = verify_header header (mem w) cfgBuffer cfgSize in
      if EFI_ERROR res then Some (res, w)
      else read_config_loop bs (cfgBuffer + hdr_dataOffset header) (cfgBuffer + cfgSize) cfg w)"

definition parse_config :: "'f boot_services \<Rightarrow> addr \<Rightarrow> addr \<Rightarrow> 'f world \<Rightarrow> (status \<times> 'f world) option" where
  "parse_config bs imageHandle cfg w =
     (if imageHandle = 0 \<or> cfg = 0 then Some (EFI_INVALID_PARAMETER, w)
      else let ((res, cfgFile), w1) = open_config_file bs 0 imageHandle w in
        if EFI_ERROR res then Some (res, w1)
        else let ((res, fileSize), w2) = get_file_size bs cfgFile (Some 0) w1; fileSize = (case fileSize of Some s \<Rightarrow> s | None \<Rightarrow> 0) in
          if EFI_ERROR res \<or> fileSize = 0 then Some (res, snd (Close bs cfgFile w2))
          else let ((res, cfgBuffer), w3) = AllocatePool bs EfiLoaderData fileSize 0 w2 in
            if EFI_ERROR res then Some (res, snd (Close bs cfgFile w3))
            else let w4 = w3\<lparr>mem := ZeroMem (mem w3) cfgBuffer fileSize\<rparr>;
                     ((res, fileSize), w5) = Read bs cfgFile fileSize cfgBuffer w4 in
              if EFI_ERROR res then Some (res, snd (Close bs cfgFile (snd (FreePool bs cfgBuffer w5))))
              else case read_config bs cfgBuffer fileSize cfg w5 of
                None \<Rightarrow> None
              | Some (res, w6) \<Rightarrow>
                  if EFI_ERROR res then Some (res, snd (Close bs cfgFile (snd (FreePool bs cfgBuffer w6))))
                  else Some (EFI_SUCCESS, snd (FreePool bs cfgBuffer (snd (Close bs cfgFile w6)))))"

definition free_config :: "'f boot_services \<Rightarrow> addr \<Rightarrow> 'f world \<Rightarrow> 'f world" where
  "free_config bs cfg w = snd (FreePool bs (read64 (mem w) (cfg + 16)) w)"

section \<open>Encoding of configuration files\<close>

definition enc_entry :: "u8 list \<Rightarrow> u8 list \<Rightarrow> u8 list" where
  "enc_entry name data = name @ [0] @ le_bytes 2 (of_nat (length data) :: u16) @ data @ [0, 0x0A]"

definition cfg_payload :: "u8 list \<Rightarrow> u8 list \<Rightarrow> u8 list" where
  "cfg_payload guid path = enc_entry str_BOOT_DISK guid @ enc_entry str_BOOT_PATH path"

definition cfg_header :: "u32 \<Rightarrow> u8 list" where
  "cfg_header crc = MDBC_Magic @ le_bytes 4 crc @ [1, 0, 0, 0, 0, 0, 0, 0] @ le_bytes 8 (24 :: u64)"

definition cfg_file :: "u8 list \<Rightarrow> u8 list" where
  "cfg_file payload = cfg_header (crc32 payload 0xFFFFFFFF) @ payload"

lemma length_enc_entry: "length (enc_entry name data) = length name + length data + 5"
  by (simp add: enc_entry_def)

lemma length_cfg_header: "length (cfg_header crc) = 24"
  by (simp add: cfg_header_def MDBC_Magic_def)

lemma entry_fields:
  assumes h: "holds m p (enc_entry name data)" and n: "0 \<notin> set name" "length name < 2 ^ 64" "length data < 2 ^ 16"
  shows "cstr_at m p (length name)" "read_bytes m p (length name) = name"
    "read16 m (p + of_nat (length name) + 1) = of_nat (length data)"
    "read_bytes m (p + of_nat (length name) + 3) (length data) = data"
    "m (p + of_nat (length name) + 3 + of_nat (length data)) = 0"
    "m (p + of_nat (length name) + 3 + of_nat (length data) + 1) = 0x0A"
proof -
  let ?q = "p + of_nat (length name)"
  have f: "holds m p name" "m ?q = 0" "holds m (?q + 1) (le_bytes 2 (of_nat (length data) :: u16))"
    "holds m (?q + 3) data" "m (?q + 3 + of_nat (length data)) = 0" "m (?q + 3 + of_nat (length data) + 1) = 0x0A"
    using h by (simp_all add: enc_entry_def holds_append holds_Cons algebra_simps)
  show nm: "read_bytes m p (length name) = name" using f(1) by (simp add: holds_def)
  have "m (p + of_nat i) \<noteq> 0" if "i < length name" for i
    using that n(1) nm by (metis nth_mem nth_read_bytes)
  then show "cstr_at m p (length name)" using f(2) n(2) by (auto simp: cstr_at_def)
  show "read16 m (?q + 1) = of_nat (length data)"
    using f(3) by (simp add: holds_def read16_def le_word_le_bytes)
  show "read_bytes m (?q + 3) (length data) = data" using f(4) by (simp add: holds_def)
  show "m (?q + 3 + of_nat (length data)) = 0" "m (?q + 3 + of_nat (length data) + 1) = 0x0A" using f by simp_all
qed

lemma ucast_u16_of_nat: "n < 2 ^ 16 \<Longrightarrow> (ucast (of_nat n :: u16) :: u64) = of_nat n"
  by (simp add: word_unat_eq_iff unat_ucast_up unat_of_nat)

lemma names: "length str_BOOT_DISK = 9" "length str_BOOT_PATH = 9" "0 \<notin> set str_BOOT_DISK" "0 \<notin> set str_BOOT_PATH"
  "str_BOOT_PATH \<noteq> str_BOOT_DISK"
  by (simp_all add: str_BOOT_DISK_def str_BOOT_PATH_def)

lemma read_config_step:
  fixes bs :: "'f boot_services" and cfg :: addr
  assumes h: "holds (mem w) ptr (enc_entry name data)" and n: "0 \<notin> set name" "length data < 2 ^ 16"
    and fit: "unat ptr + length (enc_entry name data) \<le> unat endp"
  defines "next \<equiv> ptr + of_nat (length (enc_entry name data))"
    and "src \<equiv> ptr + of_nat (length name) + 3"
    and "alloc \<equiv> AllocatePool bs EfiLoaderData (of_nat (length data)) (read64 (mem w) (cfg + 16)) w"
  shows "read_config_loop bs ptr endp cfg w =
    (if name = str_BOOT_DISK then read_config_loop bs next endp cfg (w\<lparr>mem := CopyMem (mem w) cfg src 16\<rparr>)
     else if name = str_BOOT_PATH then
       let ((res, p), w1) = alloc; w2 = w1\<lparr>mem := write64 (mem w1) (cfg + 16) p\<rparr> in
       if EFI_ERROR res then Some (res, w2)
       else read_config_loop bs next endp cfg (w2\<lparr>mem := CopyMem (mem w2) p src (of_nat (length data))\<rparr>)
     else Some (EFI_INVALID_PARAMETER, w))"
proof -
  let ?n = "length name" and ?d = "length data"
  have up: "unat ptr + ?n + ?d + 5 \<le> unat endp" using fit by (simp add: length_enc_entry)
  have lim: "unat ptr + ?n + ?d + 5 < 2 ^ 64" using le_less_trans [OF up unat_less_2p64] by simp
  have u: "unat (ptr + of_nat k) = unat ptr + k" if "k \<le> ?n + ?d + 5" for k
    using that lim by (intro unat_add_of_nat_u64) linarith
  have nl: "?n < 2 ^ 64" using lim by linarith
  note f = entry_fields [OF h n(1) nl n(2)]
  have len: "strlena (mem w) ptr = Some (of_nat ?n)" using f(1) by (simp add: efi_strlena.len_cstr)
  have lt: "ptr < endp" using up by (simp add: word_less_nat_alt)
  have c1: "\<not> endp < ptr + of_nat ?n + 3"
    using up u [of "?n + 3"] by (simp add: word_less_nat_alt algebra_simps)
  have c2: "\<not> endp < next"
    using up u [of "?n + ?d + 5"] by (simp add: word_less_nat_alt next_def length_enc_entry add.commute add.left_commute)
  have a3: "ptr + of_nat ?n + 1 + 2 = ptr + of_nat ?n + 3" by simp
  have nx: "ptr + of_nat ?n + 3 + of_nat ?d + 2 = next" by (simp add: next_def length_enc_entry algebra_simps)
  have cmp: "strcmpa_lit (mem w) ptr lit = Some 0 \<longleftrightarrow> name = lit" "\<exists>r. strcmpa_lit (mem w) ptr lit = Some r"
    if "lit = str_BOOT_DISK \<or> lit = str_BOOT_PATH" for lit
    using strcmpa_lit_0_iff [OF f(1), of lit] that f(2) by (auto simp: str_BOOT_DISK_def str_BOOT_PATH_def)
  obtain r1 where r1: "strcmpa_lit (mem w) ptr str_BOOT_DISK = Some r1" "r1 = 0 \<longleftrightarrow> name = str_BOOT_DISK"
    using cmp [of str_BOOT_DISK] by fastforce
  obtain r2 where r2: "strcmpa_lit (mem w) ptr str_BOOT_PATH = Some r2" "r2 = 0 \<longleftrightarrow> name = str_BOOT_PATH"
    using cmp [of str_BOOT_PATH] by fastforce
  show ?thesis
    by (subst read_config_loop.simps)
      (simp only: lt len Let_def option.case c1 c2 f(3,5,6) ucast_u16_of_nat [OF n(2)] r1 r2 a3 nx
        simp_thms if_False if_True not_False_eq_True, simp add: src_def alloc_def split_def Let_def)
qed

section \<open>Reading an encoded file\<close>

lemma header_fields:
  assumes "holds m buf (cfg_header crc)"
  shows "mdbc_header_at m buf = \<lparr>hdr_magic = MDBC_Magic, hdr_crc32 = crc, hdr_version = 1, hdr_dataOffset = 24\<rparr>"
proof -
  have f: "holds m buf MDBC_Magic" "holds m (buf + 4) (le_bytes 4 crc)" "m (buf + 8) = 1"
    "holds m (buf + 16) (le_bytes 8 (24 :: u64))"
    using assms by (simp_all add: cfg_header_def holds_append holds_Cons MDBC_Magic_def algebra_simps)
  have "length MDBC_Magic = 4" by (simp add: MDBC_Magic_def)
  then have "read_bytes m buf 4 = MDBC_Magic" using f(1) by (simp only: holds_def)
  then show ?thesis
    using f(2-4) by (simp add: mdbc_header_at_def holds_def read32_def read64_def le_word_le_bytes)
qed

lemma verify_encoded:
  assumes "holds m buf (cfg_header crc @ payload)" "length payload + 24 < 2 ^ 64"
  shows "verify_header (mdbc_header_at m buf) m buf (of_nat (length payload + 24)) =
    (if crc32 payload 0xFFFFFFFF = crc then EFI_SUCCESS else EFI_CRC_ERROR)"
proof -
  have h: "holds m buf (cfg_header crc)" "holds m (buf + 24) payload"
    using assms(1) by (simp_all add: holds_append length_cfg_header)
  have "unat (of_nat (length payload + 24) - 24 :: u64) = length payload"
    using assms(2) by (simp add: unat_of_nat_u64)
  then show ?thesis
    using h(2) by (simp add: verify_header_def header_fields [OF h(1)] holds_def)
qed

lemma read_config_encoded:
  assumes "holds (mem w) buf (cfg_header crc @ payload)" "length payload + 24 < 2 ^ 64"
  shows "read_config bs buf (of_nat (length payload + 24)) cfg w =
    (if crc32 payload 0xFFFFFFFF = crc
     then read_config_loop bs (buf + 24) (buf + of_nat (length payload + 24)) cfg w
     else Some (EFI_CRC_ERROR, w))"
proof -
  have "holds (mem w) buf (cfg_header crc)" using assms(1) by (simp add: holds_append)
  then have "hdr_dataOffset (mdbc_header_at (mem w) buf) = 24" by (simp add: header_fields)
  then show ?thesis by (simp add: read_config_def verify_encoded [OF assms] Let_def del: of_nat_add)
qed

lemma CopyMem_frame:
  "efi_copy_pre d s n \<Longrightarrow> \<not> in_range d (unat n) x \<Longrightarrow> CopyMem m d s n x = m x"
  by (rule efi_copy.copy_frame)

text \<open>The state after the path has been allocated at \<open>p\<close> and copied.\<close>

lemma path_copied:
  assumes disj: "no_overlap cfg 24 src n" and p: "no_overlap p n cfg 24" "no_overlap p n src n"
    and pre: "efi_copy_pre p src (of_nat n)" "n < 2 ^ 16" "cfg \<noteq> 0" 
    and same: "\<And>x. in_range cfg 24 x \<or> in_range src n x \<Longrightarrow> m1 x = m x"
  defines "m2 \<equiv> write64 m1 (cfg + 16) p"
  defines "m3 \<equiv> CopyMem m2 p src (of_nat n)"
  shows "read64 m3 (cfg + 16) = p" "read_bytes m3 p n = read_bytes m src n" "read_bytes m3 cfg 16 = read_bytes m cfg 16"
proof -
  have n: "unat (of_nat n :: u64) = n" using pre(2) by (simp add: unat_of_nat_u64)
  have c16: "in_range cfg 24 x" if "in_range (cfg + 16) 8 x" for x
    using that by (intro in_range_sub [of cfg 16 8]) simp_all
  have c0: "in_range cfg 24 x" if "in_range cfg 16 x" for x
    using that by (simp add: in_range_def)
  have m3: "m3 x = m2 x" if "in_range cfg 24 x" for x
    using that p(1) n unfolding m3_def by (intro CopyMem_frame [OF pre(1)]) (auto simp: no_overlap_def)
  show "read64 m3 (cfg + 16) = p"
    using read64_frame [of "cfg + 16" m3 m2] c16 m3 by (simp add: m2_def)
  have lo: "\<not> in_range (cfg + 16) 8 x" if "in_range cfg 16 x" for x
    using no_overlap_distance(1) [of 16 "cfg + 16" cfg 8] that by (auto simp: no_overlap_def)
  show "read_bytes m3 cfg 16 = read_bytes m cfg 16"
    by (rule read_bytes_frame) (use c0 m3 lo same in \<open>auto simp: m2_def write64_outside\<close>)
  have "read_bytes m3 p n = read_bytes m2 src n"
    using efi_copy.copied [OF pre(1), of m2] by (simp add: m3_def n)
  also have "\<dots> = read_bytes m src n"
  proof (rule read_bytes_frame)
    fix x assume x: "in_range src n x"
    then have "\<not> in_range (cfg + 16) 8 x" using c16 disj unfolding no_overlap_def by blast
    then show "m2 x = m x" using same x by (simp add: m2_def write64_outside)
  qed (use pre(2) in simp)
  finally show "read_bytes m3 p n = read_bytes m src n" .
qed

lemma read_path_entry:
  assumes pool: "allocates_fresh_pool bs live" and E: "holds (mem w) q (enc_entry str_BOOT_PATH path)"
    and len: "length path < 2 ^ 16" and fit: "unat q + 14 + length path < 2 ^ 64" "cfg \<noteq> 0"
    and disj: "no_overlap cfg 24 (q + 12) (length path)"
    and live: "\<And>x. in_range cfg 24 x \<or> in_range (q + 12) (length path) x \<Longrightarrow> x \<in> live (fw w)"
  shows "\<exists>res w'. read_config_loop bs q (q + of_nat (14 + length path)) cfg w = Some (res, w') \<and>
    (pool_failed bs res \<or>
     res = EFI_SUCCESS \<and> read_bytes (mem w') cfg 16 = read_bytes (mem w) cfg 16 \<and>
     read_bytes (mem w') (read64 (mem w') (cfg + 16)) (length path) = path)"
proof -
  let ?n = "length path" and ?e = "q + of_nat (14 + length path)"
  have l: "length (enc_entry str_BOOT_PATH path) = 14 + ?n" by (simp add: length_enc_entry names)
  have u: "unat (q + of_nat k) = unat q + k" if "k \<le> 14 + ?n" for k
    using that fit by (intro unat_add_of_nat_u64) linarith
  obtain res p w2 where al: "AllocatePool bs EfiLoaderData (of_nat ?n) (read64 (mem w) (cfg + 16)) w = ((res, p), w2)"
    by (metis prod.exhaust_sel)
  define m3 where "m3 = write64 (mem w2) (cfg + 16) p"
  have step: "read_config_loop bs q ?e cfg w =
     (if EFI_ERROR res then Some (res, w2\<lparr>mem := m3\<rparr>)
      else read_config_loop bs ?e ?e cfg (w2\<lparr>mem := CopyMem m3 p (q + 12) (of_nat ?n)\<rparr>))"
    using read_config_step [OF E names(4) len, of ?e bs cfg] u [of "14 + ?n"] al
    by (simp add: names l m3_def add.commute)
  show ?thesis
  proof (cases "EFI_ERROR res")
    case True
    then have "pool_failed bs res" using al unfolding pool_failed_def by blast
    then show ?thesis using step True by simp
  next
    case False
    note law = pool [unfolded allocates_fresh_pool_def, rule_format, OF al]
    have n: "unat (of_nat ?n :: u64) = ?n" using len by (simp add: unat_of_nat_u64)
    have p: "p \<noteq> 0" "unat p + ?n \<le> 2 ^ 64" "\<And>k. k < ?n \<Longrightarrow> p + of_nat k \<notin> live (fw w)"
      using law False n by auto
    have pre: "efi_copy_pre p (q + 12) (of_nat ?n)"
      using p n u [of 12] fit by (auto simp: efi_copy_pre_def word_unat_eq_iff)
    have "no_overlap p ?n cfg 24" "no_overlap p ?n (q + 12) ?n"
      using p(3) live by (intro fresh_block_no_overlap [of _ _ "live (fw w)"]; blast)+
    moreover have "mem w2 x = mem w x" if "in_range cfg 24 x \<or> in_range (q + 12) ?n x" for x
      using law live that by blast
    ultimately have fin: "read64 (CopyMem m3 p (q + 12) (of_nat ?n)) (cfg + 16) = p"
        "read_bytes (CopyMem m3 p (q + 12) (of_nat ?n)) p ?n = read_bytes (mem w) (q + 12) ?n"
        "read_bytes (CopyMem m3 p (q + 12) (of_nat ?n)) cfg 16 = read_bytes (mem w) cfg 16"
      unfolding m3_def using pre len fit(2) disj by (intro path_copied; blast)+
    have "read_bytes (mem w) (q + 12) ?n = path"
      using entry_fields(4) [OF E names(4) _ len] by (simp add: names add.commute)
    moreover have "read_config_loop bs ?e ?e cfg v = Some (EFI_SUCCESS, v)" for v
      by (subst read_config_loop.simps) simp
    ultimately show ?thesis using step False fin by simp
  qed
qed

text \<open>
  C11: \<open>read_config\<close> on an encoded configuration file (header with the checksum, then the entries
  \<^verbatim>\<open>BOOT_DISK\<close> and \<^verbatim>\<open>BOOT_PATH\<close>) returns: either with the error the pool allocator gave, or with success, the
  partition GUID stored in the configuration structure, and its path pointer pointing to a copy of
  the path.
\<close>

theorem read_config_roundtrip:
  assumes pool: "allocates_fresh_pool bs live"
    and len: "length guid = 16" "length path < 2 ^ 16"
    and F: "F = cfg_file (cfg_payload guid path)" "holds (mem w) buf F"
    and place: "buf \<noteq> 0" "cfg \<noteq> 0" "unat buf + length F < 2 ^ 64" "unat cfg + 24 \<le> 2 ^ 64"
      "no_overlap cfg 24 buf (length F)"
    and live: "\<forall>x. in_range cfg 24 x \<or> in_range buf (length F) x \<longrightarrow> x \<in> live (fw w)"
  shows "\<exists>res w'. read_config bs buf (of_nat (length F)) cfg w = Some (res, w') \<and>
    (pool_failed bs res \<or>
     res = EFI_SUCCESS \<and> read_bytes (mem w') cfg 16 = guid \<and>
     read_bytes (mem w') (read64 (mem w') (cfg + 16)) (length path) = path)"
proof -
  let ?E1 = "enc_entry str_BOOT_DISK guid" and ?E2 = "enc_entry str_BOOT_PATH path" and ?n = "length path"
  have l1: "length ?E1 = 30" "length ?E2 = 14 + ?n"
    using len(1) by (simp_all add: length_enc_entry names)
  have lF: "length F = 68 + ?n" by (simp add: F(1) cfg_file_def cfg_payload_def length_cfg_header l1)
  define ptr where "ptr = buf + 24"
  have endp: "buf + of_nat (length F) = ptr + 30 + of_nat (14 + ?n)" by (simp add: ptr_def lF)
  have u: "unat (ptr + of_nat k) = unat buf + 24 + k" if "k \<le> 44 + ?n" for k
    using that unat_add_of_nat_u64 [of buf "24 + k"] place(3) lF by (simp add: ptr_def add.assoc)
  have sub: "in_range buf (length F) x" if "in_range (ptr + of_nat k) j x" "k + j \<le> 44 + ?n" for k j x
    using that place(3) lF by (intro in_range_sub [of buf "24 + k" j]) (simp_all add: ptr_def add.assoc)
  have E: "holds (mem w) ptr ?E1" "holds (mem w) (ptr + 30) ?E2"
    using F by (simp_all add: cfg_file_def cfg_payload_def holds_append length_cfg_header l1 ptr_def)
  define m1 where "m1 = CopyMem (mem w) cfg (ptr + 12) 16"
  have pre1: "efi_copy_pre cfg (ptr + 12) 16"
    using u [of 12] place lF by (auto simp: efi_copy_pre_def word_unat_eq_iff)
  have m1: "m1 x = mem w x" if "in_range buf (length F) x" for x
    using that place(5) unfolding m1_def by (intro CopyMem_frame [OF pre1]) (auto simp: no_overlap_def in_range_def)
  have "read_bytes (mem w) (ptr + 12) 16 = guid"
    using entry_fields(4) [OF E(1)] len(1) by (simp add: names add.commute)
  then have guid1: "read_bytes m1 cfg 16 = guid"
    using efi_copy.copied [OF pre1, of "mem w"] by (simp add: m1_def)
  have E2: "holds m1 (ptr + 30) ?E2"
    by (rule holds_frame [OF E(2)]) (use sub [of 30] m1 l1 len in auto)
  have "unat (buf + of_nat (length F)) = unat buf + length F" by (rule unat_add_of_nat_u64 [OF place(3)])
  then have fit1: "unat ptr + length ?E1 \<le> unat (buf + of_nat (length F))" using u [of 0] lF l1 by simp
  let ?p = "cfg_payload guid path"
  have fp: "length F = length ?p + 24" by (simp add: F(1) cfg_file_def length_cfg_header)
  then have "length ?p + 24 < 2 ^ 64" using place(3) by linarith
  then have "read_config bs buf (of_nat (length F)) cfg w = read_config_loop bs ptr (buf + of_nat (length F)) cfg w"
    using read_config_encoded [of w buf "crc32 ?p 0xFFFFFFFF" ?p bs cfg] F fp
    by (simp only: cfg_file_def ptr_def simp_thms if_True)
  also have "\<dots> = read_config_loop bs (ptr + 30) (buf + of_nat (length F)) cfg (w\<lparr>mem := m1\<rparr>)"
    using read_config_step [OF E(1) names(3) _ fit1, of bs cfg] len by (simp add: names l1 m1_def add.commute)
  finally have run: "read_config bs buf (of_nat (length F)) cfg w =
    read_config_loop bs (ptr + 30) (ptr + 30 + of_nat (14 + ?n)) cfg (w\<lparr>mem := m1\<rparr>)" by (simp only: endp)
  have src: "in_range buf (length F) x" if "in_range (ptr + 30 + 12) ?n x" for x
    using sub [of 42 ?n x] that by (simp add: add.commute)
  have disj: "no_overlap cfg 24 (ptr + 30 + 12) ?n" using place(5) src unfolding no_overlap_def by blast
  have lv: "x \<in> live (fw (w\<lparr>mem := m1\<rparr>))" if "in_range cfg 24 x \<or> in_range (ptr + 30 + 12) ?n x" for x
    using live src that by (auto simp del: add.assoc)
  have E2': "holds (mem (w\<lparr>mem := m1\<rparr>)) (ptr + 30) ?E2" using E2 by simp
  have fit2: "unat (ptr + 30) + 14 + ?n < 2 ^ 64" using u [of 30] place(3) lF by simp
  show ?thesis
    unfolding run using read_path_entry [OF pool E2' len(2) fit2 place(2) disj lv] guid1 by simp
qed

definition demo_cfg :: "u8 list" where
  "demo_cfg = cfg_file (cfg_payload (replicate 16 7) [65, 0])"

definition demo_world :: "addr world" where
  "demo_world = \<lparr>mem = write_bytes (\<lambda>_. 0) 0x100 demo_cfg, fw = 0x1000\<rparr>"

lemma demo_cfg_at: "length demo_cfg = 70" "holds (mem demo_world) 0x100 demo_cfg"
proof -
  show l: "length demo_cfg = 70"
    by (simp add: demo_cfg_def cfg_file_def cfg_payload_def length_cfg_header length_enc_entry names)
  show "holds (mem demo_world) 0x100 demo_cfg"
    using read_write_bytes [of demo_cfg] by (simp add: holds_def demo_world_def l)
qed

theorem read_config_roundtrip_witness:
  "\<exists>res w'. read_config bump_bs 0x100 70 0x40 demo_world = Some (res, w') \<and>
    (pool_failed bump_bs res \<or>
     res = EFI_SUCCESS \<and> read_bytes (mem w') 0x40 16 = replicate 16 7 \<and>
     read_bytes (mem w') (read64 (mem w') 0x50) (length [65 :: u8, 0]) = [65, 0])"
proof -
  have no: "no_overlap 0x40 24 0x100 (length demo_cfg)" by (simp add: no_overlap_linear demo_cfg_at)
  have lv: "\<forall>x. in_range 0x40 24 x \<or> in_range 0x100 (length demo_cfg) x \<longrightarrow> x \<in> bump_owned (fw demo_world)"
    by (auto simp: bump_owned_def demo_world_def demo_cfg_at word_less_nat_alt unat_add_of_nat_u64 elim!: in_rangeE)
  show ?thesis
    using read_config_roundtrip [OF bump_fresh_pool _ _ demo_cfg_def demo_cfg_at(2) _ _ _ _ no lv]
    by (simp add: demo_cfg_at)
qed

text \<open>
  C12: a configuration file whose payload differs in exactly one byte from the payload its header's
  checksum was made for is rejected with \<open>EFI_CRC_ERROR\<close>, before any entry is read and with the world
  unchanged; an undamaged one passes the header check.
\<close>

theorem read_config_detects_corruption:
  assumes "holds (mem w) buf (cfg_header (crc32 (xs @ b # ys) 0xFFFFFFFF) @ xs @ b' # ys)"
    "length xs + length ys + 25 < 2 ^ 64"
  shows "read_config bs buf (of_nat (length xs + length ys + 25)) cfg w =
    (if b = b' then read_config_loop bs (buf + 24) (buf + of_nat (length xs + length ys + 25)) cfg w
     else Some (EFI_CRC_ERROR, w))"
proof -
  have eq: "length (xs @ b' # ys) + 24 = length xs + length ys + 25" by simp
  have "crc32 (xs @ b' # ys) 0xFFFFFFFF = crc32 (xs @ b # ys) 0xFFFFFFFF \<longleftrightarrow> b = b'"
    using crc32_detects [of xs b' ys "0xFFFFFFFF" b] by auto
  then show ?thesis using read_config_encoded [OF assms(1), of bs cfg, unfolded eq, OF assms(2)] by (simp only:)
qed

theorem read_config_detects_corruption_witness:
  "read_config bump_bs 0x100 25 0x40 \<lparr>mem = write_bytes (\<lambda>_. 0) 0x100 (cfg_header (crc32 [5] 0xFFFFFFFF) @ [6]), fw = 0\<rparr> =
     Some (EFI_CRC_ERROR, \<lparr>mem = write_bytes (\<lambda>_. 0) 0x100 (cfg_header (crc32 [5] 0xFFFFFFFF) @ [6]), fw = 0\<rparr>)"
proof -
  let ?F = "cfg_header (crc32 [5] 0xFFFFFFFF) @ [6]"
  have "holds (write_bytes (\<lambda>_. 0) 0x100 ?F) 0x100 ?F"
    using read_write_bytes [of ?F] by (simp add: holds_def length_cfg_header)
  then show ?thesis
    using read_config_detects_corruption [of "\<lparr>mem = write_bytes (\<lambda>_. 0) 0x100 ?F, fw = 0\<rparr>" "0x100" "[]" 5 "[]" 6 bump_bs "0x40"]
    by simp
qed

end
