(* ===== verification/Boot_Elf.thy ===== *)
theory Boot_Elf
  imports Boot_Services
begin

text \<open>
  \<^verbatim>\<open>nyxboot/src/elf.c\<close>: the ELF loader.  \<^verbatim>\<open>Elf64_Ehdr\<close>, \<^verbatim>\<open>Elf64_Phdr\<close>, \<^verbatim>\<open>elf_sectioninfo_t\<close> and
  \<^verbatim>\<open>elf_loadinfo_t\<close> are structures at addresses in memory, read and written field by field at the
  offsets the compiler gives them; the local header variable is at the address \<open>ehdr\<close>.
\<close>

section \<open>Structures in memory\<close>

definition write32 :: "memory \<Rightarrow> addr \<Rightarrow> u32 \<Rightarrow> memory" where
  "write32 m a v = write_bytes m a (le_bytes 4 v)"

definition e_type :: "memory \<Rightarrow> addr \<Rightarrow> u16" where "e_type m ehdr = read16 m (ehdr + 16)"
definition e_machine :: "memory \<Rightarrow> addr \<Rightarrow> u16" where "e_machine m ehdr = read16 m (ehdr + 18)"
definition e_version :: "memory \<Rightarrow> addr \<Rightarrow> u32" where "e_version m ehdr = read32 m (ehdr + 20)"
definition e_entry :: "memory \<Rightarrow> addr \<Rightarrow> u64" where "e_entry m ehdr = read64 m (ehdr + 24)"
definition e_phoff :: "memory \<Rightarrow> addr \<Rightarrow> u64" where "e_phoff m ehdr = read64 m (ehdr + 32)"
definition e_phentsize :: "memory \<Rightarrow> addr \<Rightarrow> u16" where "e_phentsize m ehdr = read16 m (ehdr + 54)"
definition e_phnum :: "memory \<Rightarrow> addr \<Rightarrow> u16" where "e_phnum m ehdr = read16 m (ehdr + 56)"
definition sizeof_Ehdr :: u64 where "sizeof_Ehdr = 64"

definition p_type :: "memory \<Rightarrow> addr \<Rightarrow> u32" where "p_type m phdr = read32 m phdr"
definition p_flags :: "memory \<Rightarrow> addr \<Rightarrow> u32" where "p_flags m phdr = read32 m (phdr + 4)"
definition p_offset :: "memory \<Rightarrow> addr \<Rightarrow> u64" where "p_offset m phdr = read64 m (phdr + 8)"
definition p_vaddr :: "memory \<Rightarrow> addr \<Rightarrow> u64" where "p_vaddr m phdr = read64 m (phdr + 16)"
definition p_filesz :: "memory \<Rightarrow> addr \<Rightarrow> u64" where "p_filesz m phdr = read64 m (phdr + 32)"
definition p_memsz :: "memory \<Rightarrow> addr \<Rightarrow> u64" where "p_memsz m phdr = read64 m (phdr + 40)"

definition PT_LOAD :: u32 where "PT_LOAD = 1"

text \<open>\<^verbatim>\<open>elf_sectioninfo_t\<close> (32 bytes) and \<^verbatim>\<open>elf_loadinfo_t\<close>.\<close>

definition sec_phys :: "memory \<Rightarrow> addr \<Rightarrow> u64" where "sec_phys m s = read64 m s"
definition sec_reqVirt :: "memory \<Rightarrow> addr \<Rightarrow> u64" where "sec_reqVirt m s = read64 m (s + 8)"
definition sec_pageCount :: "memory \<Rightarrow> addr \<Rightarrow> u64" where "sec_pageCount m s = read64 m (s + 16)"
definition sec_flags :: "memory \<Rightarrow> addr \<Rightarrow> u32" where "sec_flags m s = read32 m (s + 24)"
definition sizeof_section :: u64 where "sizeof_section = 32"

text \<open>The four assignments to \<^verbatim>\<open>*loadedSection\<close>, in the order of the code.\<close>

definition set_section :: "memory \<Rightarrow> addr \<Rightarrow> u64 \<Rightarrow> u64 \<Rightarrow> addr \<Rightarrow> memory" where
  "set_section m s pageCount paddr phdr =
     (let m1 = write64 m (s + 16) pageCount;
          m2 = write64 m1 s paddr;
          m3 = write64 m2 (s + 8) (p_vaddr m2 phdr)
      in write32 m3 (s + 24) (p_flags m3 phdr))"

definition info_entry :: "memory \<Rightarrow> addr \<Rightarrow> u64" where "info_entry m info = read64 m info"
definition info_sectionCount :: "memory \<Rightarrow> addr \<Rightarrow> u64" where "info_sectionCount m info = read64 m (info + 8)"
definition info_sections :: "memory \<Rightarrow> addr \<Rightarrow> addr" where "info_sections m info = read64 m (info + 16)"

text \<open>
  \<^verbatim>\<open>ALIGN_UP(v, a, t)\<close> expands to \<^verbatim>\<open>((t) v + ((t) a - 1)) & (~((t) a - 1))\<close> without outer parentheses, so in
  \<^verbatim>\<open>ALIGN_UP(memsz, 0x1000, UINTN) / 0x1000\<close> the division applies to the mask.
\<close>

definition ALIGN_UP :: "u64 \<Rightarrow> u64 \<Rightarrow> u64" where
  "ALIGN_UP v a = (v + (a - 1)) AND NOT (a - 1)"

definition ALIGN_UP_div_page :: "u64 \<Rightarrow> u64" where
  "ALIGN_UP_div_page v = (v + (0x1000 - 1)) AND (NOT (0x1000 - 1) div 0x1000)"

section \<open>The loader\<close>

definition elf_verify_ehdr :: "memory \<Rightarrow> addr \<Rightarrow> status" where
  "elf_verify_ehdr m ehdr =
     (if read_bytes m ehdr 4 \<noteq> [0x7F, 0x45, 0x4C, 0x46] then EFI_COMPROMISED_DATA
      else if m (ehdr + 4) \<noteq> 2 then EFI_UNSUPPORTED
      else if m (ehdr + 5) \<noteq> 1 then EFI_UNSUPPORTED
      else if e_type m ehdr \<noteq> 2 then EFI_UNSUPPORTED
      else if e_machine m ehdr \<noteq> 62 then EFI_UNSUPPORTED
      else if e_version m ehdr \<noteq> 1 then EFI_UNSUPPORTED
      else EFI_SUCCESS)"

definition phdr_at :: "memory \<Rightarrow> addr \<Rightarrow> addr \<Rightarrow> u64 \<Rightarrow> addr" where
  "phdr_at m ehdr phdrs i = phdrs + ucast (e_phentsize m ehdr) * i"

definition elf_count_loadable :: "memory \<Rightarrow> addr \<Rightarrow> addr \<Rightarrow> u64" where
  "elf_count_loadable m ehdr phdrs =
     foldl (\<lambda>count i. if p_type m (phdr_at m ehdr phdrs (of_nat i)) = PT_LOAD then count + 1 else count)
       0 [0..<unat (e_phnum m ehdr)]"

definition elf_get_section_size :: "memory \<Rightarrow> addr \<Rightarrow> addr \<Rightarrow> u64" where
  "elf_get_section_size m ehdr phdrs =
     foldl (\<lambda>pageCount i.
         let phdr = phdr_at m ehdr phdrs (of_nat i) in
         if p_type m phdr = PT_LOAD then pageCount + ALIGN_UP_div_page (p_memsz m phdr) else pageCount)
       0 [0..<unat (e_phnum m ehdr)]"

text \<open>
  \<^verbatim>\<open>e_phnum * e_phentsize\<close> is a product of promoted \<^verbatim>\<open>int\<close>s, so it is signed 32-bit before it becomes a \<^verbatim>\<open>UINTN\<close>.
  Returned: the status and the program header buffer \<^verbatim>\<open>*phdrs\<close>.
\<close>

definition elf_get_file_info :: "'f boot_services \<Rightarrow> addr \<Rightarrow> addr \<Rightarrow> addr \<Rightarrow> addr \<Rightarrow> 'f world \<Rightarrow>
    (status \<times> addr) \<times> 'f world" where
  "elf_get_file_info bs file info ehdr phdrs w =
     (let ((res, _), w1) = Read bs file sizeof_Ehdr ehdr w in
      if EFI_ERROR res then ((res, phdrs), w1)
      else let res = elf_verify_ehdr (mem w1) ehdr in
      if EFI_ERROR res then ((res, phdrs), w1)
      else let w2 = w1\<lparr>mem := write64 (mem w1) info (e_entry (mem w1) ehdr)\<rparr>;
               phdrBufferSize =
                 scast (ucast (e_phnum (mem w2) ehdr) * ucast (e_phentsize (mem w2) ehdr) :: u32) :: u64;
               ((res, phdrs), w3) = AllocatePool bs EfiLoaderData phdrBufferSize phdrs w2 in
      if EFI_ERROR res then ((res, phdrs), w3)
      else let (res, w4) = SetPosition bs file (e_phoff (mem w3) ehdr) w3 in
      if EFI_ERROR res then ((res, phdrs), snd (FreePool bs phdrs w4))
      else let ((res, _), w5) = Read bs file phdrBufferSize phdrs w4 in
      if EFI_ERROR res then ((res, phdrs), snd (FreePool bs phdrs w5))
      else let w6 = w5\<lparr>mem := write64 (mem w5) (info + 8) (elf_count_loadable (mem w5) ehdr phdrs)\<rparr>;
               ((res, sections), w7) = AllocatePool bs EfiLoaderData
                 (info_sectionCount (mem w6) info * sizeof_section) (info_sections (mem w6) info) w6;
               w8 = w7\<lparr>mem := write64 (mem w7) (info + 16) sections\<rparr> in
      if EFI_ERROR res then ((res, phdrs), snd (FreePool bs phdrs w8))
      else ((EFI_SUCCESS, phdrs),
            w8\<lparr>mem := ZeroMem (mem w8) (info_sections (mem w8) info)
                        (info_sectionCount (mem w8) info * sizeof_section)\<rparr>))"

definition elf_free_loadinfo :: "'f boot_services \<Rightarrow> addr \<Rightarrow> 'f world \<Rightarrow> 'f world" where
  "elf_free_loadinfo bs info w =
     (let w1 = (if info_sections (mem w) info \<noteq> 0 then snd (FreePool bs (info_sections (mem w) info) w) else w)
      in w1\<lparr>mem := write64 (write64 (mem w1) (info + 8) 0) info 0\<rparr>)"

text \<open>\<^verbatim>\<open>(memsz + 0x1000 - 1) / 0x1000\<close>\<close>

definition pages_for :: "u64 \<Rightarrow> u64" where
  "pages_for memsz = (memsz + 0x1000 - 1) div 0x1000"

lemma index_measure: "i < ucast (n :: u16) \<Longrightarrow> 65536 - unat (i + 1 :: u64) < 65536 - unat i"
proof -
  assume i: "i < ucast n"
  have "unat n < 2 ^ 16" using unsigned_less [of n] by simp
  moreover have "unat (ucast n :: u64) = unat n" by (rule unat_ucast_up) simp
  ultimately have "unat i < 65536" using i by (simp add: word_less_nat_alt)
  moreover have "unat (i + 1) = unat i + 1" using calculation unat_add_of_nat_u64 [of i 1] by simp
  ultimately show ?thesis by simp
qed

text \<open>The \<^verbatim>\<open>while\<close> loop of \<^verbatim>\<open>elf_load_file_discont\<close>; an error status is the jump to the error label.\<close>

function load_discont_loop :: "'f boot_services \<Rightarrow> addr \<Rightarrow> addr \<Rightarrow> addr \<Rightarrow> u64 \<Rightarrow> addr \<Rightarrow> 'f world \<Rightarrow>
    status \<times> 'f world" where
  "load_discont_loop bs file ehdr phdrs i loadedSection w =
     (if \<not> i < ucast (e_phnum (mem w) ehdr) then (EFI_SUCCESS, w)
      else let phdr = phdr_at (mem w) ehdr phdrs i in
      if p_type (mem w) phdr \<noteq> PT_LOAD then load_discont_loop bs file ehdr phdrs (i + 1) loadedSection w
      else let pageCount = pages_for (p_memsz (mem w) phdr);
               ((res, paddr), w1) = AllocatePages bs AllocateAnyPages EfiLoaderData pageCount 0 w in
      if EFI_ERROR res then (res, w1)
      else let w2 = w1\<lparr>mem := ZeroMem (mem w1) paddr (pageCount * 0x1000)\<rparr>;
               (res, w3) = SetPosition bs file (p_offset (mem w2) phdr) w2 in
      if EFI_ERROR res then (res, w3)
      else let ((res, _), w4) = Read bs file (p_filesz (mem w3) phdr) paddr w3 in
      if EFI_ERROR res then (res, w4)
      else let w5 = w4\<lparr>mem := set_section (mem w4) loadedSection pageCount paddr phdr\<rparr>
           in load_discont_loop bs file ehdr phdrs (i + 1) (loadedSection + sizeof_section) w5)"
  by pat_completeness auto

termination
  by (relation "measure (\<lambda>(bs, file, ehdr, phdrs, i, s, w). 65536 - unat i)")
    (auto simp del: One_nat_def intro!: index_measure)

declare load_discont_loop.simps [simp del]

definition elf_load_file_discont :: "'f boot_services \<Rightarrow> addr \<Rightarrow> addr \<Rightarrow> addr \<Rightarrow> 'f world \<Rightarrow> status \<times> 'f world" where
  "elf_load_file_discont bs file info ehdr w =
     (let ((res, phdrs), w1) = elf_get_file_info bs file info ehdr 0 w in
      if EFI_ERROR res then (res, w1)
      else let (res, w2) = load_discont_loop bs file ehdr phdrs 0 (info_sections (mem w1) info) w1 in
      if EFI_ERROR res then (res, snd (FreePool bs phdrs (elf_free_loadinfo bs info w2)))
      else (EFI_SUCCESS, w2))"

function load_cont_loop :: "'f boot_services \<Rightarrow> addr \<Rightarrow> addr \<Rightarrow> addr \<Rightarrow> u64 \<Rightarrow> addr \<Rightarrow> addr \<Rightarrow> 'f world \<Rightarrow>
    status \<times> 'f world" where
  "load_cont_loop bs file ehdr phdrs i loadedSection paddr w =
     (if \<not> i < ucast (e_phnum (mem w) ehdr) then (EFI_SUCCESS, w)
      else let phdr = phdr_at (mem w) ehdr phdrs i in
      if p_type (mem w) phdr \<noteq> PT_LOAD then load_cont_loop bs file ehdr phdrs (i + 1) loadedSection paddr w
      else let (res, w1) = SetPosition bs file (p_offset (mem w) phdr) w in
      if EFI_ERROR res then (res, w1)
      else let ((res, _), w2) = Read bs file (p_filesz (mem w1) phdr) paddr w1 in
      if EFI_ERROR res then (res, w2)
      else let w3 = w2\<lparr>mem := set_section (mem w2) loadedSection (pages_for (p_memsz (mem w2) phdr)) paddr phdr\<rparr>
           in load_cont_loop bs file ehdr phdrs (i + 1) (loadedSection + sizeof_section)
                (paddr + ALIGN_UP (p_memsz (mem w3) phdr) 0x1000) w3)"
  by pat_completeness auto

termination
  by (relation "measure (\<lambda>(bs, file, ehdr, phdrs, i, s, paddr, w). 65536 - unat i)")
    (auto simp del: One_nat_def intro!: index_measure)

declare load_cont_loop.simps [simp del]

definition elf_load_file_cont :: "'f boot_services \<Rightarrow> addr \<Rightarrow> addr \<Rightarrow> addr \<Rightarrow> 'f world \<Rightarrow> status \<times> 'f world" where
  "elf_load_file_cont bs file info ehdr w =
     (let ((res, phdrs), w1) = elf_get_file_info bs file info ehdr 0 w in
      if EFI_ERROR res then (res, w1)
      else let pageCount = elf_get_section_size (mem w1) ehdr phdrs;
               ((res, loadBuffer), w2) = AllocatePages bs AllocateAnyPages EfiLoaderData pageCount 0 w1 in
      if EFI_ERROR res then (res, snd (FreePool bs phdrs (elf_free_loadinfo bs info w2)))
      else let w3 = w2\<lparr>mem := ZeroMem (mem w2) loadBuffer (pageCount * 0x1000)\<rparr>;
               (res, w4) = load_cont_loop bs file ehdr phdrs 0 (info_sections (mem w3) info) loadBuffer w3 in
      if EFI_ERROR res then
        (res, snd (FreePool bs phdrs (elf_free_loadinfo bs info (snd (FreePages bs loadBuffer pageCount w4)))))
      else (EFI_SUCCESS, w4))"

datatype elf_loadtype_t = ELF_LOAD_AUTO | ELF_LOAD_CONTIG | ELF_LOAD_DISCONTIG | ELF_LOAD_OTHER

text \<open>\<open>ELF_LOAD_OTHER\<close> is any value of the \<^verbatim>\<open>enum\<close> that is not listed (the \<^verbatim>\<open>default\<close> label).\<close>

definition elf_load_file :: "'f boot_services \<Rightarrow> addr \<Rightarrow> addr \<Rightarrow> elf_loadtype_t \<Rightarrow> addr \<Rightarrow> 'f world \<Rightarrow> status \<times> 'f world" where
  "elf_load_file bs file info loadType ehdr w =
     (case loadType of
        ELF_LOAD_AUTO \<Rightarrow>
          let (res, w1) = elf_load_file_cont bs file info ehdr w in
          if EFI_ERROR res then elf_load_file_discont bs file info ehdr w1 else (res, w1)
      | ELF_LOAD_CONTIG \<Rightarrow> elf_load_file_cont bs file info ehdr w
      | ELF_LOAD_DISCONTIG \<Rightarrow> elf_load_file_discont bs file info ehdr w
      | ELF_LOAD_OTHER \<Rightarrow> (EFI_INVALID_PARAMETER, w))"

text \<open>The number of sections is read again before every turn.\<close>

function free_sections_loop :: "'f boot_services \<Rightarrow> addr \<Rightarrow> u64 \<Rightarrow> 'f world \<Rightarrow> 'f world" where
  "free_sections_loop bs info i w =
     (if i < info_sectionCount (mem w) info then
        let section = info_sections (mem w) info + i * sizeof_section
        in free_sections_loop bs info (i + 1)
             (snd (FreePages bs (sec_phys (mem w) section) (sec_pageCount (mem w) section) w))
      else w)"
  by pat_completeness auto

termination
  by (relation "measure (\<lambda>(bs, info, i, w). 2 ^ 64 - unat i)") (simp, unfold in_measure split_conv, erule u64_step)

declare free_sections_loop.simps [simp del]

definition elf_free_sections :: "'f boot_services \<Rightarrow> addr \<Rightarrow> 'f world \<Rightarrow> 'f world" where
  "elf_free_sections bs info w = free_sections_loop bs info 0 w"

section \<open>Page counts\<close>

lemma unat_pages_for:
  assumes "unat v + 0xFFF < 2 ^ 64"
  shows "unat (pages_for v) = (unat v + 0xFFF) div 0x1000"
proof -
  have "v + 0x1000 - 1 = v + of_nat 0xFFF" by simp
  moreover have "unat (v + of_nat 0xFFF) = unat v + 0xFFF" using assms by (rule unat_add_of_nat_u64)
  ultimately have "unat (v + 0x1000 - 1) = unat v + 0xFFF" by (simp only:)
  then show ?thesis by (simp add: pages_for_def unat_div)
qed

lemma clear_low_12: "w AND NOT 0xFFF = w - w mod 0x1000" for w :: u64
proof -
  have m: "(0xFFF :: u64) = mask 12" by (simp add: mask_eq_exp_minus_1)
  have "w = (w AND mask 12) + (w AND NOT (mask 12))"
    by (subst disjunctive_add) (auto simp: bit_simps intro!: bit_word_eqI)
  moreover have "w AND mask 12 = w mod 0x1000" by (simp add: take_bit_eq_mask [symmetric] take_bit_eq_mod)
  ultimately show ?thesis unfolding m by (metis add_diff_cancel_left')
qed

lemma ALIGN_UP_page:
  assumes "unat v + 0xFFF < 2 ^ 64"
  shows "unat (ALIGN_UP v 0x1000) = 0x1000 * unat (pages_for v)"
proof -
  let ?s = "v + 0xFFF"
  have u: "unat ?s = unat v + 0xFFF" using unat_add_of_nat_u64 [OF assms] by simp
  have "ALIGN_UP v 0x1000 = ?s - ?s mod 0x1000" using clear_low_12 [of ?s] by (simp add: ALIGN_UP_def)
  moreover have "unat (?s mod 0x1000) = unat ?s mod 0x1000" by (simp add: unat_mod)
  moreover have "unat (?s - ?s mod 0x1000) = unat ?s - unat ?s mod 0x1000"
    using calculation(2) by (simp add: unat_sub_u64)
  ultimately have "unat (ALIGN_UP v 0x1000) = unat ?s - unat ?s mod 0x1000" by simp
  also have "\<dots> = 0x1000 * (unat ?s div 0x1000)" by (simp add: minus_mod_eq_mult_div)
  finally show ?thesis using unat_pages_for [OF assms] u by simp
qed



end
