(* ===== verification/Boot_Info.thy ===== *)
theory Boot_Info
  imports Boot_Elf
begin

text \<open>
  \<^verbatim>\<open>nyxboot/src/types.c\<close> (the EFI memory map) and \<^verbatim>\<open>nyxboot/src/bootinfo.c\<close> (the boot information handed to the
  kernel, whose layout \<^verbatim>\<open>include/abi/boot/boot_info.h\<close> shares).  All structures are in memory at the
  offsets of their fields.
\<close>

section \<open>The EFI memory map\<close>

text \<open>\<^verbatim>\<open>efi_memmap_t\<close>: \<^verbatim>\<open>descs\<close>, \<^verbatim>\<open>size\<close>, \<^verbatim>\<open>key\<close>, \<^verbatim>\<open>descSize\<close>, \<^verbatim>\<open>descVersion\<close>.\<close>

definition map_descs :: "memory \<Rightarrow> addr \<Rightarrow> addr" where "map_descs m p = read64 m p"
definition map_size :: "memory \<Rightarrow> addr \<Rightarrow> u64" where "map_size m p = read64 m (p + 8)"
definition map_key :: "memory \<Rightarrow> addr \<Rightarrow> u64" where "map_key m p = read64 m (p + 16)"
definition map_descSize :: "memory \<Rightarrow> addr \<Rightarrow> u64" where "map_descSize m p = read64 m (p + 24)"
definition map_descVersion :: "memory \<Rightarrow> addr \<Rightarrow> u32" where "map_descVersion m p = read32 m (p + 32)"

definition set_map_params :: "memory \<Rightarrow> addr \<Rightarrow> memmap_params \<Rightarrow> memory" where
  "set_map_params m p = (\<lambda>(size, key, descSize, descVersion).
     write32 (write64 (write64 (write64 m (p + 8) size) (p + 16) key) (p + 24) descSize) (p + 32) descVersion)"

text \<open>\<^verbatim>\<open>gBS->GetMemoryMap(&map->size, buffer, &map->key, &map->descSize, &map->descVersion)\<close>.\<close>

definition call_GetMemoryMap :: "'f boot_services \<Rightarrow> addr \<Rightarrow> addr \<Rightarrow> 'f world \<Rightarrow> status \<times> 'f world" where
  "call_GetMemoryMap bs buffer p w =
     (let m = mem w;
          ((res, params), w1) = GetMemoryMap bs buffer (map_size m p, map_key m p, map_descSize m p, map_descVersion m p) w
      in (res, w1\<lparr>mem := set_map_params (mem w1) p params\<rparr>))"

definition EFI_MAP_DESCRIPTOR_EXTRA :: u64 where "EFI_MAP_DESCRIPTOR_EXTRA = 8192"

text \<open>Returned: the status, the new value of \<^verbatim>\<open>*bufferSize\<close> and the world.\<close>

definition efi_get_memmap :: "'f boot_services \<Rightarrow> addr \<Rightarrow> u64 \<Rightarrow> 'f world \<Rightarrow> (status \<times> u64) \<times> 'f world" where
  "efi_get_memmap bs mmap bufferSize w =
     (if mmap = 0 then ((EFI_INVALID_PARAMETER, bufferSize), w)
      else let (res, w1) = call_GetMemoryMap bs 0 mmap w in
      if res \<noteq> EFI_BUFFER_TOO_SMALL then ((res, bufferSize), w1)
      else let w2 = w1\<lparr>mem := write64 (mem w1) (mmap + 8) (map_size (mem w1) mmap + EFI_MAP_DESCRIPTOR_EXTRA)\<rparr>;
               bufferSize = map_size (mem w2) mmap;
               ((res, descs), w3) = AllocatePool bs EfiLoaderData (map_size (mem w2) mmap) (map_descs (mem w2) mmap) w2;
               w4 = w3\<lparr>mem := write64 (mem w3) mmap descs\<rparr> in
      if EFI_ERROR res then ((res, bufferSize), w4)
      else let (res, w5) = call_GetMemoryMap bs (map_descs (mem w4) mmap) mmap w4 in
      if EFI_ERROR res then ((res, bufferSize), snd (FreePool bs (map_descs (mem w5) mmap) w5))
      else ((EFI_SUCCESS, bufferSize), w5))"

definition efi_get_memmap_norealloc :: "'f boot_services \<Rightarrow> u64 \<Rightarrow> addr \<Rightarrow> 'f world \<Rightarrow> status \<times> 'f world" where
  "efi_get_memmap_norealloc bs bufferSize mmap w =
     (let w1 = w\<lparr>mem := write64 (mem w) (mmap + 8) bufferSize\<rparr>;
          (res, w2) = call_GetMemoryMap bs (map_descs (mem w1) mmap) mmap w1
      in if EFI_ERROR res then (res, w2) else (EFI_SUCCESS, w2))"

definition efi_free_memmap :: "'f boot_services \<Rightarrow> addr \<Rightarrow> 'f world \<Rightarrow> 'f world" where
  "efi_free_memmap bs mmap w =
     (let w1 = snd (FreePool bs (map_descs (mem w) mmap) w)
      in w1\<lparr>mem := set_map_params (mem w1) mmap (0, 0, 0, 0)\<rparr>)"

section \<open>Memory types\<close>

datatype bi_memtype =
    BI_MEMTYPE_USABLE | BI_MEMTYPE_RECLAIMABLE | BI_MEMTYPE_RESERVED | BI_MEMTYPE_UNUSABLE
  | BI_MEMTYPE_ACPI_RECLAIMABLE | BI_MEMTYPE_ACPI_NVS | BI_MEMTYPE_MMIO | BI_MEMTYPE_MMIO_PORT_SPACE
  | BI_MEMTYPE_PERSISTENT_MEM | BI_MEMTYPE_EFI_RT_CODE | BI_MEMTYPE_EFI_RT_DATA | BI_MEMTYPE_UNKNOWN

primrec bi_memtype_val :: "bi_memtype \<Rightarrow> u32" where
  "bi_memtype_val BI_MEMTYPE_USABLE = 0"
| "bi_memtype_val BI_MEMTYPE_RECLAIMABLE = 1"
| "bi_memtype_val BI_MEMTYPE_RESERVED = 2"
| "bi_memtype_val BI_MEMTYPE_UNUSABLE = 3"
| "bi_memtype_val BI_MEMTYPE_ACPI_RECLAIMABLE = 4"
| "bi_memtype_val BI_MEMTYPE_ACPI_NVS = 5"
| "bi_memtype_val BI_MEMTYPE_MMIO = 6"
| "bi_memtype_val BI_MEMTYPE_MMIO_PORT_SPACE = 7"
| "bi_memtype_val BI_MEMTYPE_PERSISTENT_MEM = 8"
| "bi_memtype_val BI_MEMTYPE_EFI_RT_CODE = 9"
| "bi_memtype_val BI_MEMTYPE_EFI_RT_DATA = 10"
| "bi_memtype_val BI_MEMTYPE_UNKNOWN = 11"

text \<open>The argument is the number of the \<^verbatim>\<open>EFI_MEMORY_TYPE\<close> in \<^verbatim>\<open>gnu-efi/inc/efidef.h\<close>.\<close>

definition memtype_efi_to_bi :: "u32 \<Rightarrow> bi_memtype" where
  "memtype_efi_to_bi t =
     (if t = 0 then BI_MEMTYPE_RESERVED
      else if t = 1 then BI_MEMTYPE_RECLAIMABLE
      else if t = 2 then BI_MEMTYPE_RECLAIMABLE
      else if t = 3 then BI_MEMTYPE_RECLAIMABLE
      else if t = 4 then BI_MEMTYPE_RECLAIMABLE
      else if t = 5 then BI_MEMTYPE_EFI_RT_CODE
      else if t = 6 then BI_MEMTYPE_EFI_RT_DATA
      else if t = 7 then BI_MEMTYPE_USABLE
      else if t = 8 then BI_MEMTYPE_UNUSABLE
      else if t = 9 then BI_MEMTYPE_ACPI_RECLAIMABLE
      else if t = 10 then BI_MEMTYPE_ACPI_NVS
      else if t = 11 then BI_MEMTYPE_MMIO
      else if t = 12 then BI_MEMTYPE_MMIO_PORT_SPACE
      else if t = 13 then BI_MEMTYPE_RESERVED
      else if t = 14 then BI_MEMTYPE_PERSISTENT_MEM
      else if t = 15 then BI_MEMTYPE_UNUSABLE
      else if t = 16 then BI_MEMTYPE_UNKNOWN
      else BI_MEMTYPE_UNKNOWN)"

section \<open>Building the boot information\<close>

text \<open>
  Offsets in \<^verbatim>\<open>bi_memmap_t\<close> (40 bytes): version 0, bufferSize 8, descriptorSize 16, descriptorCount 24,
  pDescriptors 32.  \<^verbatim>\<open>pp\<close> is the address of the pointer variable \<^verbatim>\<open>*memmap\<close>.
\<close>

definition mm_bufferSize :: "memory \<Rightarrow> addr \<Rightarrow> u64" where "mm_bufferSize m p = read64 m (p + 8)"
definition mm_descriptorCount :: "memory \<Rightarrow> addr \<Rightarrow> u64" where "mm_descriptorCount m p = read64 m (p + 24)"
definition mm_pDescriptors :: "memory \<Rightarrow> addr \<Rightarrow> addr" where "mm_pDescriptors m p = read64 m (p + 32)"

definition BI_MAP_DESCRIPTOR_EXTRA :: u64 where "BI_MAP_DESCRIPTOR_EXTRA = 8192"

definition bi_build_memmap :: "'f boot_services \<Rightarrow> addr \<Rightarrow> 'f world \<Rightarrow> status \<times> 'f world" where
  "bi_build_memmap bs pp w =
     (let ((res, p), w1) = AllocatePool bs EfiLoaderData 40 (read64 (mem w) pp) w;
          w1 = w1\<lparr>mem := write64 (mem w1) pp p\<rparr> in
      if EFI_ERROR res then (res, w1)
      else let m = SetMem (mem w1) (read64 (mem w1) pp) 40 0;
               m = write32 m (read64 m pp) 1;
               m = write64 m (read64 m pp + 16) 24;
               m = write64 m (read64 m pp + 24) 256;
               m = write64 m (read64 m pp + 8)
                     (read64 m (read64 m pp + 24) * read64 m (read64 m pp + 16) + BI_MAP_DESCRIPTOR_EXTRA);
               w2 = w1\<lparr>mem := m\<rparr>;
               ((res, descriptors), w3) = AllocatePool bs EfiLoaderData (mm_bufferSize m (read64 m pp)) 0 w2 in
      if EFI_ERROR res then
        let w4 = snd (FreePool bs (read64 (mem w3) pp) w3)
        in (res, w4\<lparr>mem := write64 (mem w4) pp 0\<rparr>)
      else let m = SetMem (mem w3) descriptors (mm_bufferSize (mem w3) (read64 (mem w3) pp)) 0
           in (EFI_SUCCESS, w3\<lparr>mem := write64 m (read64 m pp + 32) descriptors\<rparr>))"

text \<open>
  \<^verbatim>\<open>bi_kernelmap_t\<close> (32 bytes): version 0, descriptorSize 8, descriptorCount 16, pDescriptors 24;
  \<^verbatim>\<open>bi_kernelmapdesc_t\<close> (32 bytes): paddr 0, vaddr 8, pageCount 16, flags 24.
\<close>

primrec kernelmap_loop :: "addr \<Rightarrow> addr \<Rightarrow> nat \<Rightarrow> u64 \<Rightarrow> memory \<Rightarrow> memory" where
  "kernelmap_loop sections descriptors 0 i m = m"
| "kernelmap_loop sections descriptors (Suc n) i m =
     (let section = sections + i * sizeof_section; desc = descriptors + i * 32;
          m = write64 m desc (sec_phys m section);
          m = write64 m (desc + 8) (sec_reqVirt m section);
          m = write64 m (desc + 16) (sec_pageCount m section);
          m = write32 m (desc + 24) 0
      in kernelmap_loop sections descriptors n (i + 1) m)"

definition bi_build_kernelmap :: "'f boot_services \<Rightarrow> addr \<Rightarrow> addr \<Rightarrow> 'f world \<Rightarrow> status \<times> 'f world" where
  "bi_build_kernelmap bs elfMap pp w =
     (let ((res, p), w1) = AllocatePool bs EfiLoaderData 32 (read64 (mem w) pp) w;
          w1 = w1\<lparr>mem := write64 (mem w1) pp p\<rparr> in
      if EFI_ERROR res then (res, w1)
      else let m = SetMem (mem w1) (read64 (mem w1) pp) 32 0;
               m = write32 m (read64 m pp) 1;
               m = write64 m (read64 m pp + 8) 32;
               m = write64 m (read64 m pp + 16) (info_sectionCount m elfMap);
               totalBytes = read64 m (read64 m pp + 8) * read64 m (read64 m pp + 16);
               w2 = w1\<lparr>mem := m\<rparr>;
               ((res, descriptors), w3) = AllocatePool bs EfiLoaderData totalBytes 0 w2 in
      if EFI_ERROR res then
        let w4 = snd (FreePool bs (read64 (mem w3) pp) w3)
        in (res, w4\<lparr>mem := write64 (mem w4) pp 0\<rparr>)
      else let m = SetMem (mem w3) descriptors totalBytes 0;
               m = kernelmap_loop (info_sections m elfMap) descriptors (unat (info_sectionCount m elfMap)) 0 m
           in (EFI_SUCCESS, w3\<lparr>mem := write64 m (read64 m pp + 24) descriptors\<rparr>))"

text \<open>
  \<^verbatim>\<open>bi_bootinfo_t\<close> (48 bytes): structureType 0, version 4, pNext 8, magic 16, flags 20, selfSize 24,
  pMemMap 32, pKernelMap 40.  \<^verbatim>\<open>bootInfo\<close> is the value of the pointer variable, which is returned.
\<close>

definition bi_pMemMap :: "memory \<Rightarrow> addr \<Rightarrow> addr" where "bi_pMemMap m p = read64 m (p + 32)"
definition bi_pKernelMap :: "memory \<Rightarrow> addr \<Rightarrow> addr" where "bi_pKernelMap m p = read64 m (p + 40)"

definition bi_init :: "memory \<Rightarrow> addr \<Rightarrow> memory" where
  "bi_init m p =
     (let m = SetMem m p 48 0;
          m = write32 m (p + 4) 1;
          m = write32 m p 0;
          m = write64 m (p + 8) 0;
          m = m(p + 16 := 0x4E);
          m = m(p + 17 := 0x42);
          m = m(p + 18 := 0x36);
          m = m(p + 19 := 0x34);
          m = write64 m (p + 24) 48
      in write32 m (p + 20) 1)"

definition bi_build_bootinfo :: "'f boot_services \<Rightarrow> addr \<Rightarrow> addr \<Rightarrow> 'f world \<Rightarrow> (status \<times> addr) \<times> 'f world" where
  "bi_build_bootinfo bs elfSections bootInfo w =
     (let ((res, bootInfo), w1) = AllocatePool bs EfiLoaderCode 48 bootInfo w in
      if EFI_ERROR res then ((res, bootInfo), w1)
      else let w2 = w1\<lparr>mem := bi_init (mem w1) bootInfo\<rparr>;
               (res, w3) = bi_build_memmap bs (bootInfo + 32) w2 in
      if EFI_ERROR res then ((res, 0), snd (FreePool bs bootInfo w3))
      else let (res, w4) = bi_build_kernelmap bs elfSections (bootInfo + 40) w3 in
      if EFI_ERROR res then
        let mm = bi_pMemMap (mem w4) bootInfo;
            w5 = (if mm \<noteq> 0 then
                    let w' = (if mm_pDescriptors (mem w4) mm \<noteq> 0
                              then snd (FreePool bs (mm_pDescriptors (mem w4) mm) w4) else w4)
                    in snd (FreePool bs mm w')
                  else w4)
        in ((res, 0), snd (FreePool bs bootInfo w5))
      else ((EFI_SUCCESS, bootInfo), w4))"

section \<open>Copying the memory map\<close>

text \<open>
  \<^verbatim>\<open>EFI_MEMORY_DESCRIPTOR\<close>: Type 0, PhysicalStart 8, NumberOfPages 24; \<^verbatim>\<open>bi_memdesc_t\<close> (24 bytes): base 0,
  pageCount 8, type 16, flags 20.  \<open>None\<close> is the division fault for a descriptor size of 0.
\<close>

definition efi_desc :: "memory \<Rightarrow> addr \<Rightarrow> u64 \<Rightarrow> addr" where
  "efi_desc m efiMap i = map_descs m efiMap + i * map_descSize m efiMap"

definition write_memdesc :: "memory \<Rightarrow> addr \<Rightarrow> addr \<Rightarrow> memory" where
  "write_memdesc m efiDesc biDesc =
     (let m1 = write64 m biDesc (read64 m (efiDesc + 8));
          m2 = write64 m1 (biDesc + 8) (read64 m1 (efiDesc + 24));
          m3 = write32 m2 (biDesc + 16) (bi_memtype_val (memtype_efi_to_bi (read32 m2 efiDesc)))
      in write32 m3 (biDesc + 20) 0)"

primrec update_memmap_loop :: "addr \<Rightarrow> addr \<Rightarrow> addr \<Rightarrow> nat \<Rightarrow> u64 \<Rightarrow> memory \<Rightarrow> status \<times> memory" where
  "update_memmap_loop efiMap base endp 0 i m = (EFI_SUCCESS, m)"
| "update_memmap_loop efiMap base endp (Suc n) i m =
     (let efiDesc = efi_desc m efiMap i; biDesc = base + i * 24 in
      if endp < biDesc + 24 then (EFI_BUFFER_TOO_SMALL, m)
      else update_memmap_loop efiMap base endp n (i + 1) (write_memdesc m efiDesc biDesc))"

definition bi_update_memmap :: "addr \<Rightarrow> addr \<Rightarrow> memory \<Rightarrow> (status \<times> memory) option" where
  "bi_update_memmap efiMap memmap m =
     (if efiMap = 0 \<or> memmap = 0 \<or> mm_pDescriptors m memmap = 0 then Some (EFI_INVALID_PARAMETER, m)
      else let base = mm_pDescriptors m memmap; endp = base + mm_bufferSize m memmap in
      if map_descSize m efiMap = 0 then None
      else let inCount = map_size m efiMap div map_descSize m efiMap; outBytesNeeded = inCount * 24 in
      if endp < base + outBytesNeeded then Some (EFI_BUFFER_TOO_SMALL, m)
      else Some (update_memmap_loop efiMap base endp (unat inCount) 0 (write64 m (memmap + 24) inCount)))"

section \<open>Correctness of the copy\<close>

lemma read64_outside: "no_overlap a (length bs) b 8 \<Longrightarrow> length bs \<le> 2 ^ 64 \<Longrightarrow> read64 (write_bytes m a bs) b = read64 m b"
  by (simp add: read64_def read_write_bytes_disjoint)

lemma read32_outside: "no_overlap a (length bs) b 4 \<Longrightarrow> length bs \<le> 2 ^ 64 \<Longrightarrow> read32 (write_bytes m a bs) b = read32 m b"
  by (simp add: read32_def read_write_bytes_disjoint)

text \<open>The descriptor that stands for one EFI descriptor.\<close>

definition memdesc_bytes :: "memory \<Rightarrow> addr \<Rightarrow> u8 list" where
  "memdesc_bytes m e = le_bytes 8 (read64 m (e + 8)) @ le_bytes 8 (read64 m (e + 24)) @
     le_bytes 4 (bi_memtype_val (memtype_efi_to_bi (read32 m e))) @ le_bytes 4 (0 :: u32)"

lemma length_memdesc_bytes [simp]: "length (memdesc_bytes m e) = 24"
  by (simp add: memdesc_bytes_def)

lemma no_overlap_sub:
  assumes "no_overlap a n b k" "\<And>x. in_range a' n' x \<Longrightarrow> in_range a n x" "\<And>x. in_range b' k' x \<Longrightarrow> in_range b k x"
  shows "no_overlap a' n' b' k'"
  using assms unfolding no_overlap_def by blast

lemma write_memdesc_bytes:
  assumes "no_overlap b 24 e 40"
  shows "write_memdesc m e b = write_bytes m b (memdesc_bytes m e)"
proof -
  have e: "no_overlap b n (e + of_nat j) l" if "j + l \<le> 40" "n \<le> 24" for n j l
  proof (rule no_overlap_sub [OF assms])
    show "in_range e 40 x" if "in_range (e + of_nat j) l x" for x
      using that \<open>j + l \<le> 40\<close> by (rule in_range_sub) simp
  qed (use that in \<open>simp add: in_range_def\<close>)
  let ?b1 = "le_bytes 8 (read64 m (e + 8))" and ?b2 = "le_bytes 8 (read64 m (e + 24))"
  have m1: "write64 m b (read64 m (e + 8)) = write_bytes m b ?b1" by (simp add: write64_def)
  have r1: "read64 (write_bytes m b ?b1) (e + 24) = read64 m (e + 24)"
    using e [of 24 8 8] by (intro read64_outside) simp_all
  have m2: "write64 (write_bytes m b ?b1) (b + 8) (read64 m (e + 24)) = write_bytes m b (?b1 @ ?b2)"
    by (simp add: write64_def write_bytes_append)
  have r2: "read32 (write_bytes m b (?b1 @ ?b2)) e = read32 m e"
    using e [of 0 4 16] by (intro read32_outside) simp_all
  show ?thesis
    by (simp add: write_memdesc_def memdesc_bytes_def m1 r1 m2 r2 Let_def write32_def)
      (simp add: write_bytes_append add.assoc)
qed

lemma memdesc_bytes_cong:
  assumes "\<And>x. in_range e 40 x \<Longrightarrow> m' x = m x"
  shows "memdesc_bytes m' e = memdesc_bytes m e"
proof -
  have "read_bytes m' (e + of_nat j) l = read_bytes m (e + of_nat j) l" if "j + l \<le> 40" for j l
    using that assms by (intro read_bytes_cong) (simp add: add.assoc flip: of_nat_add)
  from this [of 8 8] this [of 24 8] this [of 0 4] show ?thesis
    by (simp add: memdesc_bytes_def read64_def read32_def)
qed

text \<open>
  The loop, from index \<open>i\<close> with \<open>n\<close> descriptors left.  The destination does not overlap the EFI map
  structure or its descriptors.
\<close>

lemma update_memmap_loop_ok:
  assumes src: "no_overlap base (24 * N) efiMap 40"
      "\<And>k. k < N \<Longrightarrow> no_overlap base (24 * N) (efi_desc m0 efiMap (of_nat k)) 40"
    and room: "unat base + 24 * N \<le> unat endp" 
    and "i + n = N" "\<And>x. \<not> in_range base (24 * N) x \<Longrightarrow> m x = m0 x"
  shows "\<exists>m'. update_memmap_loop efiMap base endp n (of_nat i) m = (EFI_SUCCESS, m') \<and>
    (\<forall>x. \<not> in_range (base + of_nat (24 * i)) (24 * n) x \<longrightarrow> m' x = m x) \<and>
    (\<forall>k. i \<le> k \<longrightarrow> k < N \<longrightarrow>
       read_bytes m' (base + of_nat (24 * k)) 24 = memdesc_bytes m0 (efi_desc m0 efiMap (of_nat k)))"
  using assms(4,5)
proof (induction n arbitrary: i m)
  case (Suc n)
  have lim: "unat base + 24 * N < 2 ^ 64" using le_less_trans [OF room unat_less_2p64] by simp
  have i: "i < N" "24 * i + 24 \<le> 24 * N" using Suc.prems(1) by simp_all
  let ?b = "base + of_nat (24 * i)" and ?e = "efi_desc m0 efiMap (of_nat i)"
  have agree: "m x = m0 x" if "in_range efiMap 40 x \<or> in_range ?e 40 x" for x
    using Suc.prems(2) src(1) src(2) [OF i(1)] that unfolding no_overlap_def by blast
  have "read64 m (efiMap + of_nat j) = read64 m0 (efiMap + of_nat j)" if "j \<le> 32" for j
    using agree that by (intro read64_agree [of efiMap 40]) simp_all
  from this [of 0] this [of 24] have e: "efi_desc m efiMap (of_nat i) = ?e"
    by (simp add: efi_desc_def map_descs_def map_descSize_def)
  have sub: "in_range base (24 * N) x" if "in_range ?b 24 x" for x
    using that i(2) lim by (intro in_range_sub [of base "24 * i" 24]) simp_all
  have "no_overlap ?b 24 ?e 40" using src(2) [OF i(1)] sub unfolding no_overlap_def by blast
  then have w: "write_memdesc m ?e ?b = write_bytes m ?b (memdesc_bytes m0 ?e)"
    using agree by (simp add: write_memdesc_bytes memdesc_bytes_cong [of ?e m m0])
  define m1 where "m1 = write_bytes m ?b (memdesc_bytes m0 ?e)"
  have m1: "m1 x = m x" if "\<not> in_range ?b 24 x" for x
    using that unfolding m1_def by (intro write_bytes_outside) simp_all
  have "unat (?b + of_nat 24) = unat base + 24 * i + 24"
    using unat_add_of_nat_u64 [of base "24 * i + 24"] i lim by (simp add: add.assoc)
  then have fits: "\<not> endp < ?b + 24" using room i(2) by (simp add: word_less_nat_alt)
  have b: "base + of_nat i * 24 = ?b" by (simp add: mult.commute)
  have IH: "\<exists>m'. update_memmap_loop efiMap base endp n (of_nat (Suc i)) m1 = (EFI_SUCCESS, m') \<and>
    (\<forall>x. \<not> in_range (base + of_nat (24 * Suc i)) (24 * n) x \<longrightarrow> m' x = m1 x) \<and>
    (\<forall>k. Suc i \<le> k \<longrightarrow> k < N \<longrightarrow>
       read_bytes m' (base + of_nat (24 * k)) 24 = memdesc_bytes m0 (efi_desc m0 efiMap (of_nat k)))"
  proof (rule Suc.IH)
    show "m1 x = m0 x" if "\<not> in_range base (24 * N) x" for x
      using m1 [of x] sub [of x] Suc.prems(2) [OF that] that by auto
  qed (use Suc.prems(1) in simp)
  then obtain m' where m': "update_memmap_loop efiMap base endp n (of_nat (Suc i)) m1 = (EFI_SUCCESS, m')"
    "\<And>x. \<not> in_range (base + of_nat (24 * Suc i)) (24 * n) x \<Longrightarrow> m' x = m1 x"
    "\<And>k. Suc i \<le> k \<Longrightarrow> k < N \<Longrightarrow>
       read_bytes m' (base + of_nat (24 * k)) 24 = memdesc_bytes m0 (efi_desc m0 efiMap (of_nat k))" by blast
  have rest: "in_range ?b (24 * Suc n) x" if "in_range (base + of_nat (24 * Suc i)) (24 * n) x" for x
    using that lim Suc.prems(1) by (intro in_range_sub [of ?b 24 "24 * n"]) (simp_all add: ac_simps)
  have frame: "m' x = m x" if "\<not> in_range ?b (24 * Suc n) x" for x
  proof -
    have "\<not> in_range ?b 24 x" using that by (simp add: in_range_def)
    moreover have "\<not> in_range (base + of_nat (24 * Suc i)) (24 * n) x" using rest that by blast
    ultimately show ?thesis using m'(2) m1 by simp
  qed
  have "no_overlap ?b 24 (base + of_nat (24 * Suc i)) (24 * n)"
  proof (rule no_overlap_distance(1))
    have "base + of_nat (24 * Suc i) - ?b = of_nat 24" by simp
    then show "24 \<le> unat (base + of_nat (24 * Suc i) - ?b)" "unat (base + of_nat (24 * Suc i) - ?b) + 24 * n \<le> 2 ^ 64"
      using lim Suc.prems(1) by (simp_all only:) simp_all
  qed
  then have "read_bytes m' ?b 24 = read_bytes m1 ?b 24"
    using m'(2) by (intro read_bytes_cong) (auto simp: no_overlap_def)
  also have "\<dots> = memdesc_bytes m0 ?e"
    using read_write_bytes [of "memdesc_bytes m0 ?e" m ?b] by (simp add: m1_def)
  finally have "read_bytes m' ?b 24 = memdesc_bytes m0 ?e" .
  then have all: "read_bytes m' (base + of_nat (24 * k)) 24 = memdesc_bytes m0 (efi_desc m0 efiMap (of_nat k))"
    if "i \<le> k" "k < N" for k
    using m'(3) [of k] that by (cases "k = i") auto
  have "update_memmap_loop efiMap base endp (Suc n) (of_nat i) m = (EFI_SUCCESS, m')"
    using m'(1) fits by (simp only: update_memmap_loop.simps Let_def e b w if_False m1_def [symmetric])
      (simp add: add.commute)
  then show ?case using frame all by blast
qed simp


definition memmap_demo :: memory where
  "memmap_demo = (\<lambda>_. 0)(0x101 := 2, 0x108 := 40, 0x118 := 40, 0x200 := 7, 0x209 := 16, 0x218 := 3,
     0x308 := 64, 0x321 := 4)"

lemma memmap_demo_fields:
  "map_descs memmap_demo 0x100 = 0x200" "map_size memmap_demo 0x100 = 40" "map_descSize memmap_demo 0x100 = 40"
  "mm_bufferSize memmap_demo 0x300 = 64" "mm_pDescriptors memmap_demo 0x300 = 0x400"
  by (simp_all add: memmap_demo_def map_descs_def map_size_def map_descSize_def mm_bufferSize_def
      mm_pDescriptors_def read64_def eval_simps)


end
