(* ===== verification/Page_Tables.thy ===== *)
theory Page_Tables
  imports Boot_Services
begin

text \<open>
  The four-level page tables built by \<^verbatim>\<open>nyxboot/src/memory.c\<close> (\<^verbatim>\<open>mem_map_page\<close>, \<^verbatim>\<open>mem_map_pages\<close>,
  \<^verbatim>\<open>mem_free_tables\<close>) over byte memory.  The specification is the walk the processor makes; the
  invariant says that the tables reached by different index paths are different, page aligned
  and owned by the bootloader.
\<close>

section \<open>Definitions\<close>

definition PT_ENTRY :: "addr \<Rightarrow> u64" where "PT_ENTRY a = drop_bit 12 a AND 0x1FF"
definition PD_ENTRY :: "addr \<Rightarrow> u64" where "PD_ENTRY a = drop_bit 21 a AND 0x1FF"
definition PDPT_ENTRY :: "addr \<Rightarrow> u64" where "PDPT_ENTRY a = drop_bit 30 a AND 0x1FF"
definition PML4_ENTRY :: "addr \<Rightarrow> u64" where "PML4_ENTRY a = drop_bit 39 a AND 0x1FF"

definition PAGE_PRESENT :: u64 where "PAGE_PRESENT = push_bit 0 1"
definition PAGE_WRITABLE :: u64 where "PAGE_WRITABLE = push_bit 1 1"
definition PAGE_WSP :: u64 where "PAGE_WSP = PAGE_PRESENT OR PAGE_WRITABLE"
definition ADDRESS_MASK :: u64 where "ADDRESS_MASK = 0x000FFFFFFFFFF000"

text \<open>\<open>table[i]\<close> for a table of 64-bit entries, as an rvalue and as an assignment.\<close>

definition table_rd :: "memory \<Rightarrow> addr \<Rightarrow> u64 \<Rightarrow> u64" where
  "table_rd m t i = read64 m (t + 8 * i)"

definition table_wr :: "memory \<Rightarrow> addr \<Rightarrow> u64 \<Rightarrow> u64 \<Rightarrow> memory" where
  "table_wr m t i v = write64 m (t + 8 * i) v"

text \<open>\<^verbatim>\<open>entry & ~0xFFF\<close>: the complement of an \<^verbatim>\<open>int\<close>, sign-extended to 64 bits.\<close>

definition page_base :: "u64 \<Rightarrow> addr" where
  "page_base e = e AND NOT 0xFFF"

text \<open>
  The block that makes sure entry \<open>i\<close> of a table points to a lower table; it is written three times
  in \<^verbatim>\<open>mem_map_page\<close>.  \<open>Some res\<close> is the early return.
\<close>

definition ensure_table :: "'f boot_services \<Rightarrow> addr \<Rightarrow> u64 \<Rightarrow> 'f world \<Rightarrow> status option \<times> 'f world" where
  "ensure_table bs tab i w =
     (if table_rd (mem w) tab i AND PAGE_PRESENT \<noteq> 0 then (None, w)
      else let ((res, newPage), w1) = AllocatePages bs AllocateAnyPages EfiLoaderData 1 0 w in
        if EFI_ERROR res then (Some res, w1)
        else let m1 = table_wr (mem w1) tab i (newPage OR PAGE_WSP);
                 m2 = ZeroMem m1 newPage 0x1000
             in (None, w1\<lparr>mem := m2\<rparr>))"

definition mem_map_page :: "'f boot_services \<Rightarrow> addr \<Rightarrow> addr \<Rightarrow> addr \<Rightarrow> 'f world \<Rightarrow> status \<times> 'f world" where
  "mem_map_page bs pml4 vaddr paddr w =
     (if pml4 = 0 then (EFI_INVALID_PARAMETER, w)
      else if vaddr mod 0x1000 \<noteq> 0 then (EFI_INVALID_PARAMETER, w)
      else if paddr mod 0x1000 \<noteq> 0 then (EFI_INVALID_PARAMETER, w)
      else case ensure_table bs pml4 (PML4_ENTRY vaddr) w of
        (Some res, w1) \<Rightarrow> (res, w1)
      | (None, w1) \<Rightarrow>
        let pdpt = page_base (table_rd (mem w1) pml4 (PML4_ENTRY vaddr)) in
        case ensure_table bs pdpt (PDPT_ENTRY vaddr) w1 of
          (Some res, w2) \<Rightarrow> (res, w2)
        | (None, w2) \<Rightarrow>
          let pd = page_base (table_rd (mem w2) pdpt (PDPT_ENTRY vaddr)) in
          case ensure_table bs pd (PD_ENTRY vaddr) w2 of
            (Some res, w3) \<Rightarrow> (res, w3)
          | (None, w3) \<Rightarrow>
            let pt = page_base (table_rd (mem w3) pd (PD_ENTRY vaddr)) in
            (EFI_SUCCESS, w3\<lparr>mem := table_wr (mem w3) pt (PT_ENTRY vaddr) (paddr OR PAGE_WSP)\<rparr>))"

primrec mem_map_pages_loop :: "'f boot_services \<Rightarrow> addr \<Rightarrow> addr \<Rightarrow> addr \<Rightarrow> nat \<Rightarrow> 'f world \<Rightarrow> status \<times> 'f world" where
  "mem_map_pages_loop bs pml4 vaddr paddr 0 w = (EFI_SUCCESS, w)"
| "mem_map_pages_loop bs pml4 vaddr paddr (Suc n) w =
     (let (res, w1) = mem_map_page bs pml4 vaddr paddr w in
      if EFI_ERROR res then (res, w1)
      else mem_map_pages_loop bs pml4 (vaddr + 0x1000) (paddr + 0x1000) n w1)"

definition mem_map_pages :: "'f boot_services \<Rightarrow> addr \<Rightarrow> addr \<Rightarrow> addr \<Rightarrow> u64 \<Rightarrow> 'f world \<Rightarrow> status \<times> 'f world" where
  "mem_map_pages bs pml4 vaddr paddr pageCount w =
     (if pml4 = 0 then (EFI_INVALID_PARAMETER, w)
      else if vaddr mod 0x1000 \<noteq> 0 then (EFI_INVALID_PARAMETER, w)
      else if paddr mod 0x1000 \<noteq> 0 then (EFI_INVALID_PARAMETER, w)
      else mem_map_pages_loop bs pml4 vaddr paddr (unat pageCount) w)"

text \<open>
  \<open>mem_free_tables\<close>: three nested loops over the 512 indices; the status of \<^verbatim>\<open>FreePages\<close> is ignored.
\<close>

definition free_page :: "'f boot_services \<Rightarrow> addr \<Rightarrow> 'f world \<Rightarrow> 'f world" where
  "free_page bs a w = snd (FreePages bs a 1 w)"

definition table_indices :: "u64 list" where
  "table_indices = map of_nat [0..<512]"

definition free_pd :: "'f boot_services \<Rightarrow> addr \<Rightarrow> 'f world \<Rightarrow> 'f world" where
  "free_pd bs pd w = fold (\<lambda>i_pd w.
     let e_pd = table_rd (mem w) pd i_pd in
     if e_pd AND PAGE_PRESENT = 0 then w
     else free_page bs (e_pd AND ADDRESS_MASK) w) table_indices w"

definition free_pdpt :: "'f boot_services \<Rightarrow> addr \<Rightarrow> 'f world \<Rightarrow> 'f world" where
  "free_pdpt bs pdpt w = fold (\<lambda>i_pdpt w.
     let e_pdpt = table_rd (mem w) pdpt i_pdpt in
     if e_pdpt AND PAGE_PRESENT = 0 then w
     else let pd = e_pdpt AND ADDRESS_MASK in free_page bs pd (free_pd bs pd w)) table_indices w"

definition mem_free_tables :: "'f boot_services \<Rightarrow> addr \<Rightarrow> 'f world \<Rightarrow> 'f world" where
  "mem_free_tables bs pml4 w = fold (\<lambda>i_pml4 w.
     let e_pml4 = table_rd (mem w) pml4 i_pml4 in
     if e_pml4 AND PAGE_PRESENT = 0 then w
     else let pdpt = e_pml4 AND ADDRESS_MASK in free_page bs pdpt (free_pdpt bs pdpt w)) table_indices w"

section \<open>The walk of the processor and the invariant\<close>

fun walk :: "(addr \<Rightarrow> u64 \<Rightarrow> u64) \<Rightarrow> addr \<Rightarrow> u64 list \<Rightarrow> addr option" where
  "walk e t [] = Some t"
| "walk e t (i # p) = (if e t i AND PAGE_PRESENT = 0 then None else walk e (e t i AND ADDRESS_MASK) p)"

definition path_of :: "addr \<Rightarrow> u64 list" where
  "path_of v = [PML4_ENTRY v, PDPT_ENTRY v, PD_ENTRY v, PT_ENTRY v]"

text \<open>The page frame a virtual address is translated to, if it is mapped.\<close>

definition translate :: "memory \<Rightarrow> addr \<Rightarrow> addr \<Rightarrow> addr option" where
  "translate m root v = walk (table_rd m) root (path_of v)"

definition valid_path :: "u64 list \<Rightarrow> bool" where
  "valid_path p \<longleftrightarrow> (\<forall>i \<in> set p. i < 512)"

definition table_path :: "(addr \<Rightarrow> u64 \<Rightarrow> u64) \<Rightarrow> addr \<Rightarrow> u64 list \<Rightarrow> addr \<Rightarrow> bool" where
  "table_path e root p t \<longleftrightarrow> valid_path p \<and> length p \<le> 3 \<and> walk e root p = Some t"

definition wf_tables :: "(addr \<Rightarrow> u64 \<Rightarrow> u64) \<Rightarrow> addr \<Rightarrow> addr set \<Rightarrow> bool" where
  "wf_tables e root own \<longleftrightarrow>
     (\<forall>p t. table_path e root p t \<longrightarrow> page_aligned t \<and> t \<in> own) \<and>
     (\<forall>p q t. table_path e root p t \<longrightarrow> table_path e root q t \<longrightarrow> p = q) \<and>
     (\<forall>p t i. table_path e root p t \<longrightarrow> length p \<le> 2 \<longrightarrow> i < 512 \<longrightarrow> e t i AND PAGE_PRESENT \<noteq> 0 \<longrightarrow>
        page_base (e t i) = e t i AND ADDRESS_MASK)"

lemma walk_append:
  "walk e t (p @ q) = (case walk e t p of None \<Rightarrow> None | Some u \<Rightarrow> walk e u q)"
  by (induction e t p rule: walk.induct) auto

lemma walk_agree:
  assumes "\<And>p j r t. q = p @ j # r \<Longrightarrow> walk e root p = Some t \<Longrightarrow> e' t j = e t j"
  shows "walk e' root q = walk e root q"
  using assms
proof (induction q arbitrary: root)
  case (Cons i q)
  have hd: "e' root i = e root i" using Cons.prems [of "[]" i q root] by simp
  have "walk e' (e root i AND ADDRESS_MASK) q = walk e (e root i AND ADDRESS_MASK) q"
    if "e root i AND PAGE_PRESENT \<noteq> 0"
    by (rule Cons.IH) (use that Cons.prems [of "i # _"] in auto)
  then show ?case by (simp add: hd)
qed simp

section \<open>Bit patterns of table entries\<close>

lemma page_aligned_bits: "page_aligned a \<longleftrightarrow> (\<forall>i < 12. \<not> bit a i)"
proof -
  have "a mod 0x1000 = take_bit 12 a" by (simp add: take_bit_eq_mod)
  also have "\<dots> = 0 \<longleftrightarrow> (\<forall>i < 12. \<not> bit a i)"
    by (auto simp: bit_eq_iff bit_simps)
  finally show ?thesis by (simp add: page_aligned_def)
qed

lemma below_2p52_bits: "unat (a :: u64) < 2 ^ 52 \<Longrightarrow> 52 \<le> i \<Longrightarrow> \<not> bit a i"
proof
  assume "unat a < 2 ^ 52" "52 \<le> i" "bit a i"
  then have "take_bit 52 (unat a) = unat a" by (simp add: take_bit_nat_eq_self)
  then have "bit (take_bit 52 (unat a)) i" using \<open>bit a i\<close> by (simp add: bit_simps bit_imp_le_length)
  with \<open>52 \<le> i\<close> show False by (simp add: bit_simps)
qed

lemma bit_ADDRESS_MASK: "bit ADDRESS_MASK i \<longleftrightarrow> 12 \<le> i \<and> i < 52"
proof -
  have "ADDRESS_MASK = push_bit 12 (mask 40)" by (simp add: ADDRESS_MASK_def mask_eq_exp_minus_1)
  then have "bit ADDRESS_MASK i = bit (push_bit 12 (mask 40) :: u64) i" by simp
  then show ?thesis by (simp only: bit_push_bit_iff bit_mask_iff) auto
qed

lemma bit_not_0xFFF: "bit (NOT 0xFFF :: u64) i \<longleftrightarrow> 12 \<le> i \<and> i < 64"
proof -
  have "(0xFFF :: u64) = mask 12" by (simp add: mask_eq_exp_minus_1)
  then have "(NOT 0xFFF :: u64) = NOT (mask 12)" by simp
  then show ?thesis by (simp only: bit_simps) auto
qed

lemma PAGE_flags: "PAGE_PRESENT = 1" "PAGE_WSP = 3"
  by (simp_all add: PAGE_PRESENT_def PAGE_WRITABLE_def PAGE_WSP_def)

lemma bit_PAGE_WSP: "bit PAGE_WSP i \<longleftrightarrow> i < 2"
proof -
  have "PAGE_WSP = mask 2" by (simp add: PAGE_flags mask_eq_exp_minus_1)
  then have "bit PAGE_WSP i = bit (mask 2 :: u64) i" by simp
  then show ?thesis by (simp only: bit_mask_iff) auto
qed

lemma entry_of_page:
  assumes "page_aligned a" "unat a < 2 ^ 52"
  shows "(a OR PAGE_WSP) AND PAGE_PRESENT \<noteq> 0" "(a OR PAGE_WSP) AND ADDRESS_MASK = a"
    "page_base (a OR PAGE_WSP) = a"
proof -
  have lo: "\<not> bit a i" if "i < 12" for i using assms(1) that unfolding page_aligned_bits by blast
  have hi: "\<not> bit a i" if "52 \<le> i" for i using below_2p52_bits [OF assms(2) that] .
  have "bit ((a OR PAGE_WSP) AND PAGE_PRESENT) 0"
    by (simp only: bit_and_iff bit_or_iff bit_PAGE_WSP) (simp add: PAGE_flags)
  then show "(a OR PAGE_WSP) AND PAGE_PRESENT \<noteq> 0" by (metis bit_0_eq bot_apply bot_bool_def)
  show "(a OR PAGE_WSP) AND ADDRESS_MASK = a"
  proof (rule bit_word_eqI)
    fix i
    show "bit ((a OR PAGE_WSP) AND ADDRESS_MASK) i = bit a i"
      unfolding bit_and_iff bit_or_iff bit_ADDRESS_MASK bit_PAGE_WSP using lo [of i] hi [of i] by linarith
  qed
  show "page_base (a OR PAGE_WSP) = a"
  proof (rule bit_word_eqI)
    fix i
    show "bit (page_base (a OR PAGE_WSP)) i = bit a i"
      unfolding page_base_def bit_and_iff bit_or_iff bit_not_0xFFF bit_PAGE_WSP using lo [of i] hi [of i] by linarith
  qed
qed

lemma page_aligned_frame [simp]: "page_aligned (e AND ADDRESS_MASK)"
  by (simp add: page_aligned_bits bit_and_iff bit_ADDRESS_MASK)

lemma index_lt_512: "x AND 0x1FF < (512 :: u64)"
  using word_and_le1 [of x "0x1FF"] by (rule le_less_trans) simp

lemma entry_index_lt [simp]: "PML4_ENTRY v < 512" "PDPT_ENTRY v < 512" "PD_ENTRY v < 512" "PT_ENTRY v < 512"
  by (simp_all add: PML4_ENTRY_def PDPT_ENTRY_def PD_ENTRY_def PT_ENTRY_def index_lt_512)

lemma valid_path_simps [simp]:
  "valid_path []" "valid_path (i # p) \<longleftrightarrow> i < 512 \<and> valid_path p"
  "valid_path (p @ q) \<longleftrightarrow> valid_path p \<and> valid_path q" "valid_path (path_of v)" "length (path_of v) = 4"
  by (auto simp: valid_path_def path_of_def)

section \<open>Tables as an array of arrays\<close>

text \<open>The laws of reading, writing and clearing tables that the proofs about walks rest on.\<close>

locale table_store =
  fixes rd :: "'m \<Rightarrow> addr \<Rightarrow> u64 \<Rightarrow> u64"
    and wr :: "'m \<Rightarrow> addr \<Rightarrow> u64 \<Rightarrow> u64 \<Rightarrow> 'm"
    and clear :: "'m \<Rightarrow> addr \<Rightarrow> 'm"
  assumes rd_wr: "page_aligned t \<Longrightarrow> page_aligned u \<Longrightarrow> i < 512 \<Longrightarrow> j < 512 \<Longrightarrow>
      rd (wr m t i v) u j = (if u = t \<and> j = i then v else rd m u j)"
    and rd_clear: "page_aligned t \<Longrightarrow> page_aligned u \<Longrightarrow> j < 512 \<Longrightarrow>
      rd (clear m t) u j = (if u = t then 0 else rd m u j)"
begin

lemma walk_wr_other:
  assumes wf: "wf_tables (rd m) root own" and t: "table_path (rd m) root p t" and i: "i < 512"
    and q: "valid_path q" "length q \<le> 4" "\<And>r. q \<noteq> p @ i # r"
    and e: "\<And>u j. u \<in> own \<Longrightarrow> page_aligned u \<Longrightarrow> j < 512 \<Longrightarrow> u \<noteq> t \<or> j \<noteq> i \<Longrightarrow> e' u j = rd m u j"
  shows "walk e' root q = walk (rd m) root q"
proof (rule walk_agree)
  fix p' j r u assume split: "q = p' @ j # r" and u: "walk (rd m) root p' = Some u"
  with q have path: "table_path (rd m) root p' u" by (auto simp: table_path_def)
  with wf have "page_aligned u" "u \<in> own" by (auto simp: wf_tables_def)
  moreover have "u \<noteq> t \<or> j \<noteq> i" using wf path t split q(3) unfolding wf_tables_def by blast
  ultimately show "e' u j = rd m u j" using e split q(1) by simp
qed

text \<open>A new, cleared table \<open>n\<close> at entry \<open>i\<close> of the table of path \<open>p\<close>: only the path to it is new.\<close>

lemma install:
  assumes wf: "wf_tables (rd m) root own" and t: "table_path (rd m) root p t" and p: "length p \<le> 2"
    and i: "i < 512" and absent: "rd m t i AND PAGE_PRESENT = 0"
    and n: "page_aligned n" "unat n < 2 ^ 52" "n \<notin> own"
    and m': "m' = clear (wr m t i (n OR PAGE_WSP)) n"
  shows "\<And>q. valid_path q \<Longrightarrow> length q \<le> 4 \<Longrightarrow>
      walk (rd m') root q = (if q = p @ [i] then Some n else walk (rd m) root q)"
    and "wf_tables (rd m') root (insert n own)"
proof -
  have t': "page_aligned t" "t \<in> own" "valid_path p" "walk (rd m) root p = Some t"
    using wf t by (auto simp: wf_tables_def table_path_def)
  have e: "rd m' u j = (if u = n then 0 else if u = t \<and> j = i then n OR PAGE_WSP else rd m u j)"
    if "page_aligned u" "j < 512" for u j
    using that t' n i by (simp add: m' rd_wr rd_clear)
  have other: "walk (rd m') root q = walk (rd m) root q"
    if "valid_path q" "length q \<le> 4" "\<And>r. q \<noteq> p @ i # r" for q
    using that e n(3) by (intro walk_wr_other [OF wf t i]) auto
  have p_same: "walk (rd m') root p = Some t" using other [of p] t' p by simp
  show walk: "walk (rd m') root q = (if q = p @ [i] then Some n else walk (rd m) root q)"
    if q: "valid_path q" "length q \<le> 4" for q
  proof (cases "\<exists>r. q = p @ i # r")
    case True
    then obtain r where r: "q = p @ i # r" ..
    have "walk (rd m') root q = walk (rd m') n r"
      using t' n i by (simp add: r walk_append p_same e entry_of_page) (use n(3) in auto)
    moreover have "walk (rd m') n r = (if r = [] then Some n else None)"
      using q n by (cases r) (auto simp: r e)
    moreover have "walk (rd m) root q = None" using t' absent by (simp add: r walk_append)
    ultimately show ?thesis by (simp add: r)
  next
    case False
    then show ?thesis using other [OF q] by auto
  qed
  have path: "table_path (rd m') root q u \<longleftrightarrow> (if q = p @ [i] then u = n else table_path (rd m) root q u)" for q u
    using walk [of q] t'(3) p i by (auto simp: table_path_def)
  show "wf_tables (rd m') root (insert n own)"
    unfolding wf_tables_def path
  proof (intro conjI allI impI, goal_cases)
    case (1 q u)
    then show ?case using wf n by (auto simp: wf_tables_def split: if_splits)
  next
    case (2 q u)
    then show ?case using wf by (auto simp: wf_tables_def split: if_splits)
  next
    case (3 q q' u)
    then show ?case using wf n(3) unfolding wf_tables_def by (metis (full_types))
  next
    case (4 q u j)
    then have "page_aligned u" using wf n by (auto simp: wf_tables_def split: if_splits)
    then show ?case using 4 wf n by (auto simp: e entry_of_page wf_tables_def split: if_splits)
  qed
qed

text \<open>A leaf entry: only the path of that page changes.\<close>

lemma set_leaf:
  assumes wf: "wf_tables (rd m) root own" and t: "table_path (rd m) root p t" and p: "length p = 3"
    and i: "i < 512" and a: "page_aligned a" "unat a < 2 ^ 52" and m': "m' = wr m t i (a OR PAGE_WSP)"
  shows "\<And>q. valid_path q \<Longrightarrow> length q \<le> 4 \<Longrightarrow>
      walk (rd m') root q = (if q = p @ [i] then Some a else walk (rd m) root q)"
    and "wf_tables (rd m') root own"
proof -
  have t': "page_aligned t" "t \<in> own" "valid_path p" "walk (rd m) root p = Some t"
    using wf t by (auto simp: wf_tables_def table_path_def)
  have e: "rd m' u j = (if u = t \<and> j = i then a OR PAGE_WSP else rd m u j)"
    if "page_aligned u" "j < 512" for u j
    using that t' i by (simp add: m' rd_wr)
  have other: "walk (rd m') root q = walk (rd m) root q"
    if "valid_path q" "length q \<le> 4" "\<And>r. q \<noteq> p @ i # r" for q
    using that e by (intro walk_wr_other [OF wf t i]) auto
  show walk: "walk (rd m') root q = (if q = p @ [i] then Some a else walk (rd m) root q)"
    if q: "valid_path q" "length q \<le> 4" for q
  proof (cases "\<exists>r. q = p @ i # r")
    case True
    then have "q = p @ [i]" using q p by auto
    moreover have "walk (rd m') root (p @ [i]) = Some a"
      using other [of p] t' p a i by (simp add: walk_append e entry_of_page)
    ultimately show ?thesis by simp
  next
    case False
    then show ?thesis using other [OF q] by auto
  qed
  have path: "table_path (rd m') root q u \<longleftrightarrow> table_path (rd m) root q u" for q u
    using walk [of q] p by (auto simp: table_path_def)
  have "u \<noteq> t" if "table_path (rd m) root q u" "length q \<le> 2" for q u
    using wf t p that unfolding wf_tables_def by fastforce
  then show "wf_tables (rd m') root own"
    using wf unfolding wf_tables_def path by (simp add: e)
qed

end

section \<open>Tables in byte memory\<close>

lemma page_aligned_unat: "page_aligned a \<longleftrightarrow> unat a mod 4096 = 0"
  by (simp add: page_aligned_def word_unat_eq_iff unat_mod)

lemma page_alignedE:
  assumes "page_aligned a"
  obtains k where "unat a = 4096 * k" "k < 2 ^ 52"
proof
  have "4096 dvd unat a" using assms by (simp add: page_aligned_unat mod_eq_0_iff_dvd)
  then show k: "unat a = 4096 * (unat a div 4096)" by simp
  show "unat a div 4096 < 2 ^ 52" using unat_less_2p64 [of a] by (simp add: less_mult_imp_div_less)
qed

lemma page_top: "page_aligned t \<Longrightarrow> unat t + 4096 \<le> 2 ^ 64"
  by (elim page_alignedE) simp

lemma unat_entry_addr:
  assumes "page_aligned t" "i < 512"
  shows "unat (t + 8 * i) = unat t + 8 * unat i"
proof -
  have i: "unat i < 512" using assms(2) by (simp add: word_less_nat_alt)
  then have "unat (8 * i) = 8 * unat i" by (simp add: unat_word_ariths)
  then show ?thesis using i page_top [OF assms(1)] by (simp add: unat_word_ariths)
qed

lemma page_order:
  "page_aligned t \<Longrightarrow> page_aligned u \<Longrightarrow> t \<noteq> u \<Longrightarrow> unat t + 4096 \<le> unat u \<or> unat u + 4096 \<le> unat t"
proof -
  assume "page_aligned t" "page_aligned u" and neq: "t \<noteq> u"
  then obtain k l where k: "unat t = 4096 * k" and l: "unat u = 4096 * l" by (meson page_alignedE)
  with neq have "k \<noteq> l" by (metis unat_inj_iff)
  then show ?thesis by (cases "k < l") (simp_all add: k l)
qed

lemma entries_no_overlap:
  assumes "page_aligned t" "page_aligned u" "i < 512" "j < 512" "u \<noteq> t \<or> j \<noteq> i"
  shows "no_overlap (t + 8 * i) 8 (u + 8 * j) 8"
proof -
  have ij: "unat i < 512" "unat j < 512" using assms by (simp_all add: word_less_nat_alt)
  have "unat t + 8 * unat i + 8 \<le> unat u + 8 * unat j \<or> unat u + 8 * unat j + 8 \<le> unat t + 8 * unat i"
  proof (cases "u = t")
    case True
    then have "unat i \<noteq> unat j" using assms(5) by auto
    then show ?thesis unfolding True by linarith
  next
    case False
    then have "unat t + 4096 \<le> unat u \<or> unat u + 4096 \<le> unat t" using page_order [OF assms(1,2)] by simp
    then show ?thesis using ij by linarith
  qed
  then show ?thesis
    using no_overlap_linear [of "t + 8 * i" 8 "u + 8 * j" 8] no_overlap_linear [of "u + 8 * j" 8 "t + 8 * i" 8]
      page_top [OF assms(1)] page_top [OF assms(2)] assms ij by (auto simp: unat_entry_addr)
qed

lemma entry_in_page:
  assumes "page_aligned t" "i < 512" "in_range (t + 8 * i) 8 x"
  shows "in_range t 4096 x"
proof -
  have i: "unat i < 512" using assms(2) by (simp add: word_less_nat_alt)
  have "x - t = (x - (t + 8 * i)) + 8 * i" by simp
  moreover have "unat (8 * i) = 8 * unat i" using i by (simp add: unat_word_ariths)
  ultimately have "unat (x - t) = (unat (x - (t + 8 * i)) + 8 * unat i) mod 2 ^ 64"
    using unat_word_ariths(1) [of "x - (t + 8 * i)" "8 * i"] by simp
  then show ?thesis using assms(3) i by (simp add: in_range_def)
qed

lemma pages_no_overlap: "page_aligned t \<Longrightarrow> page_aligned u \<Longrightarrow> t \<noteq> u \<Longrightarrow> no_overlap t 4096 u 4096"
  using page_order [of t u] no_overlap_linear [of t 4096 u 4096] no_overlap_linear [of u 4096 t 4096]
    page_top [of t] page_top [of u] by auto

lemma table_rd_cong:
  assumes "page_aligned t" "i < 512" "\<And>x. in_range t 4096 x \<Longrightarrow> m' x = m x"
  shows "table_rd m' t i = table_rd m t i"
proof -
  have "read_bytes m' (t + 8 * i) 8 = read_bytes m (t + 8 * i) 8"
    by (rule read_bytes_cong) (use assms entry_in_page [OF assms(1,2)] in_range_offset [of _ 8 "t + 8 * i"] in auto)
  then show ?thesis by (simp add: table_rd_def read64_def)
qed

lemma page_of_in_range: "page_aligned t \<Longrightarrow> in_range t 4096 x \<Longrightarrow> page_of x = t"
proof -
  assume t: "page_aligned t" and x: "in_range t 4096 x"
  then obtain k where k: "k < 4096" "x = t + of_nat k" by (auto elim: in_rangeE)
  then have "unat x = unat t + k" using page_top [OF t] by (simp add: unat_add_of_nat_u64)
  then have "unat (x mod 0x1000) = k" using t k by (simp add: unat_mod page_aligned_unat mod_add_eq [symmetric])
  then have "x mod 0x1000 = of_nat k" by (metis of_nat_unat_u64)
  then show ?thesis using k by (simp add: page_of_def)
qed

interpretation byte_tables: table_store table_rd table_wr "\<lambda>m t. ZeroMem m t 0x1000"
proof
  fix t u i j v :: u64 and m
  assume "page_aligned t" "page_aligned u" "i < 512" "j < 512"
  then show "table_rd (table_wr m t i v) u j = (if u = t \<and> j = i then v else table_rd m u j)"
    using entries_no_overlap [of t u i j] by (auto simp: table_rd_def table_wr_def read64_write64_disjoint)
next
  fix t u j :: u64 and m
  assume a: "page_aligned t" "page_aligned u" "j < 512"
  show "table_rd (ZeroMem m t 0x1000) u j = (if u = t then 0 else table_rd m u j)"
  proof (cases "u = t")
    case True
    have "read_bytes (ZeroMem m t 0x1000) (t + 8 * j) 8 = replicate 8 0"
      using entry_in_page [OF a(1,3)] in_range_offset [of _ 8 "t + 8 * j"]
      by (auto simp: list_eq_iff_nth_eq ZeroMem_block block_fill_def)
    then show ?thesis using True by (simp add: table_rd_def read64_def numeral_eq_Suc)
  next
    case False
    then show ?thesis using a pages_no_overlap [of t u]
      by (auto intro!: table_rd_cong simp: ZeroMem_block block_fill_def no_overlap_def)
  qed
qed

section \<open>Mapping a page\<close>

text \<open>
  The tables are well formed and made of pages in use, but of none of the pages \<open>D\<close>, which hold other data.
\<close>

definition pt_ok :: "addr set \<Rightarrow> ('f \<Rightarrow> addr set) \<Rightarrow> addr \<Rightarrow> 'f world \<Rightarrow> bool" where
  "pt_ok D owned root w \<longleftrightarrow> D \<subseteq> owned (fw w) \<and> wf_tables (table_rd (mem w)) root (owned (fw w) - D)"

definition keeps_pages :: "addr set \<Rightarrow> memory \<Rightarrow> memory \<Rightarrow> bool" where
  "keeps_pages D m m' \<longleftrightarrow> (\<forall>x. page_of x \<in> D \<longrightarrow> m' x = m x)"

lemma keeps_pages_refl [simp]: "keeps_pages D m m"
  by (simp add: keeps_pages_def)

lemma keeps_pages_trans: "keeps_pages D m m' \<Longrightarrow> keeps_pages D m' m'' \<Longrightarrow> keeps_pages D m m''"
  by (simp add: keeps_pages_def)

lemma table_wr_keeps:
  assumes "page_aligned t" "i < 512" "t \<notin> D"
  shows "keeps_pages D m (table_wr m t i v)"
  using assms entry_in_page [of t i] page_of_in_range [of t] unfolding keeps_pages_def table_wr_def
  by (metis write64_outside)

lemma clear_keeps: "page_aligned t \<Longrightarrow> t \<notin> D \<Longrightarrow> keeps_pages D m (ZeroMem m t 0x1000)"
  using page_of_in_range [of t] by (auto simp: keeps_pages_def ZeroMem_block block_fill_def)

lemma wf_tables_frame:
  assumes wf: "wf_tables e root own" and own: "own \<subseteq> own'"
    and e: "\<And>t j. t \<in> own \<Longrightarrow> page_aligned t \<Longrightarrow> j < 512 \<Longrightarrow> e' t j = e t j"
  shows "wf_tables e' root own'"
    and "\<And>q. valid_path q \<Longrightarrow> length q \<le> 4 \<Longrightarrow> walk e' root q = walk e root q"
proof -
  have tab: "page_aligned t" "t \<in> own" if "table_path e root p t" for p t
    using wf that by (auto simp: wf_tables_def)
  show walk: "walk e' root q = walk e root q" if "valid_path q" "length q \<le> 4" for q
  proof (rule walk_agree)
    fix p j r t assume "q = p @ j # r" "walk e root p = Some t"
    then have "table_path e root p t" "j < 512" using that by (auto simp: table_path_def)
    then show "e' t j = e t j" using tab e by blast
  qed
  then have path: "table_path e' root p t \<longleftrightarrow> table_path e root p t" for p t
    by (auto simp: table_path_def)
  show "wf_tables e' root own'"
    unfolding wf_tables_def path
  proof (intro conjI allI impI)
    fix p t i
    assume t: "table_path e root p t" and "length p \<le> 2" and i: "i < 512" and "e' t i AND PAGE_PRESENT \<noteq> 0"
    moreover have "e' t i = e t i" using tab [OF t] i by (simp add: e)
    ultimately show "page_base (e' t i) = e' t i AND ADDRESS_MASK"
      using wf unfolding wf_tables_def by metis
  qed (use wf own tab in \<open>auto simp: wf_tables_def\<close>)
qed

lemma ensure_table_ok:
  assumes fresh: "allocates_fresh_pages bs owned" and ok: "pt_ok D owned root w"
    and t: "table_path (table_rd (mem w)) root p t" and p: "length p \<le> 2" and i: "i < 512"
    and run: "ensure_table bs t i w = (r, w')"
  shows "pt_ok D owned root w'"
    and "valid_path q \<Longrightarrow> length q = 4 \<Longrightarrow> walk (table_rd (mem w')) root q = walk (table_rd (mem w)) root q"
    and "r = Some st \<Longrightarrow> EFI_ERROR st"
    and "r = None \<Longrightarrow> table_path (table_rd (mem w')) root (p @ [i]) (page_base (table_rd (mem w') t i))"
    and "keeps_pages D (mem w) (mem w')"
proof -
  let ?e = "table_rd (mem w)"
  have D: "D \<subseteq> owned (fw w)" and wf: "wf_tables ?e root (owned (fw w) - D)" using ok by (simp_all add: pt_ok_def)
  have t': "page_aligned t" "t \<in> owned (fw w)" "t \<notin> D" "valid_path p" "walk ?e root p = Some t"
    using wf t by (auto simp: wf_tables_def table_path_def)
  have "pt_ok D owned root w' \<and>
    (valid_path q \<longrightarrow> length q = 4 \<longrightarrow> walk (table_rd (mem w')) root q = walk ?e root q) \<and>
    (r = Some st \<longrightarrow> EFI_ERROR st) \<and>
    (r = None \<longrightarrow> table_path (table_rd (mem w')) root (p @ [i]) (page_base (table_rd (mem w') t i))) \<and>
    keeps_pages D (mem w) (mem w')"
  proof (cases "?e t i AND PAGE_PRESENT = 0")
    case False
    then have "page_base (?e t i) = ?e t i AND ADDRESS_MASK" using wf t p i unfolding wf_tables_def by blast
    then show ?thesis using False run ok t' p i
      by (auto simp: ensure_table_def table_path_def walk_append)
  next
    case absent: True
    obtain res n w1 where al: "AllocatePages bs AllocateAnyPages EfiLoaderData 1 0 w = ((res, n), w1)"
      by (metis prod.exhaust_sel)
    note law = fresh [unfolded allocates_fresh_pages_def, rule_format, OF al]
    have frame: "page_of x \<in> owned (fw w) \<Longrightarrow> mem w1 x = mem w x" for x using law by blast
    have sub: "owned (fw w) - D \<subseteq> owned (fw w1) - D" and D1: "D \<subseteq> owned (fw w1)" using law D by blast+
    have keep1: "keeps_pages D (mem w) (mem w1)" using frame D by (auto simp: keeps_pages_def)
    have new: "\<not> EFI_ERROR res \<Longrightarrow> page_aligned n \<and> n \<notin> owned (fw w) \<and> n \<in> owned (fw w1) \<and> unat n < 2 ^ 52"
      using law by fastforce
    have e1: "table_rd (mem w1) u j = ?e u j" if "u \<in> owned (fw w) - D" "page_aligned u" "j < 512" for u j
      using that frame page_of_in_range by (intro table_rd_cong) auto
    note w1 = wf_tables_frame [OF wf order_refl e1] and w1' = wf_tables_frame [OF wf sub e1]
    have t1: "table_path (table_rd (mem w1)) root p t" using t w1(2) by (auto simp: table_path_def)
    show ?thesis
    proof (cases "EFI_ERROR res")
      case True
      then show ?thesis using absent al run w1' D1 keep1 by (auto simp: ensure_table_def pt_ok_def)
    next
      case False
      note n = new [OF False]
      let ?m = "ZeroMem (table_wr (mem w1) t i (n OR PAGE_WSP)) n 0x1000"
      have w': "r = None" "w' = w1\<lparr>mem := ?m\<rparr>" using absent al run False by (auto simp: ensure_table_def Let_def)
      have abs1: "table_rd (mem w1) t i AND PAGE_PRESENT = 0" using absent e1 t' i by simp
      have inst: "\<And>q. valid_path q \<Longrightarrow> length q \<le> 4 \<Longrightarrow>
           walk (table_rd ?m) root q = (if q = p @ [i] then Some n else walk (table_rd (mem w1)) root q)"
        and wf': "wf_tables (table_rd ?m) root (insert n (owned (fw w) - D))"
        using n by (intro byte_tables.install [OF w1(1) t1 p i abs1 _ _ _ refl]; simp)+
      have "table_rd ?m t i = n OR PAGE_WSP"
        using n t' i by (auto simp: byte_tables.rd_clear byte_tables.rd_wr)
      then have "page_base (table_rd ?m t i) = n" using n entry_of_page by simp
      moreover have "insert n (owned (fw w) - D) \<subseteq> owned (fw w1) - D" using n sub D by blast
      then have "wf_tables (table_rd ?m) root (owned (fw w1) - D)" using wf_tables_frame(1) [OF wf'] by blast
      moreover have "keeps_pages D (mem w) ?m"
        using keeps_pages_trans [OF keep1 keeps_pages_trans [OF table_wr_keeps clear_keeps]] t' n D i by blast
      ultimately show ?thesis using inst w1(2) t' p i D1 by (auto simp: w' pt_ok_def table_path_def)
    qed
  qed
  then show "pt_ok D owned root w'"
    and "valid_path q \<Longrightarrow> length q = 4 \<Longrightarrow> walk (table_rd (mem w')) root q = walk (table_rd (mem w)) root q"
    and "r = Some st \<Longrightarrow> EFI_ERROR st"
    and "r = None \<Longrightarrow> table_path (table_rd (mem w')) root (p @ [i]) (page_base (table_rd (mem w') t i))"
    and "keeps_pages D (mem w) (mem w')"
    by blast+
qed

lemma root_path: "table_path e root [] root"
  by (simp add: table_path_def)

lemma ensure_table_mapped:
  assumes "allocates_fresh_pages bs owned" "pt_ok D owned root w" "table_path (table_rd (mem w)) root p t"
    "length p \<le> 2" "i < 512" "ensure_table bs t i w = (r, w')"
  shows "translate (mem w') root v = translate (mem w) root v"
  using ensure_table_ok(2) [OF assms, of "path_of v"] by (simp add: translate_def)

lemma mem_map_page_effect:
  assumes fresh: "allocates_fresh_pages bs owned" and ok: "pt_ok D owned root w"
    and arg: "root \<noteq> 0" "page_aligned va" "page_aligned pa" "unat pa < 2 ^ 52"
    and run: "mem_map_page bs root va pa w = (res, w')"
  shows "pt_ok D owned root w' \<and> keeps_pages D (mem w) (mem w') \<and>
    (\<forall>v. translate (mem w') root v =
       (if \<not> EFI_ERROR res \<and> path_of v = path_of va then Some pa else translate (mem w) root v))"
proof -
  have al: "va mod 0x1000 = 0" "pa mod 0x1000 = 0" using arg by (simp_all add: page_aligned_def)
  let ?i4 = "PML4_ENTRY va" and ?i3 = "PDPT_ENTRY va" and ?i2 = "PD_ENTRY va" and ?i1 = "PT_ENTRY va"
  obtain r1 w1 where e1: "ensure_table bs root ?i4 w = (r1, w1)" by fastforce
  note s1 = ensure_table_ok [OF fresh ok root_path _ _ e1, simplified]
    and t1 = ensure_table_mapped [OF fresh ok root_path _ _ e1, simplified]
  show ?thesis
  proof (cases r1)
    case (Some st)
    then show ?thesis using run arg al e1 s1 t1 by (auto simp: mem_map_page_def)
  next
    case r1: None
    define pdpt where "pdpt = page_base (table_rd (mem w1) root ?i4)"
    have p1: "table_path (table_rd (mem w1)) root [?i4] pdpt" using s1(4) r1 by (simp add: pdpt_def)
    obtain r2 w2 where e2: "ensure_table bs pdpt ?i3 w1 = (r2, w2)" by fastforce
    note s2 = ensure_table_ok [OF fresh s1(1) p1 _ _ e2, simplified]
      and t2 = ensure_table_mapped [OF fresh s1(1) p1 _ _ e2, simplified]
    have k2: "keeps_pages D (mem w) (mem w2)" using s1(5) s2(5) by (rule keeps_pages_trans)
    show ?thesis
    proof (cases r2)
      case (Some st)
      then show ?thesis using run arg al e1 e2 r1 s2 t1 t2 k2
        by (auto simp: mem_map_page_def Let_def simp flip: pdpt_def)
    next
      case r2: None
      define pd where "pd = page_base (table_rd (mem w2) pdpt ?i3)"
      have p2: "table_path (table_rd (mem w2)) root [?i4, ?i3] pd" using s2(4) r2 by (simp add: pd_def)
      obtain r3 w3 where e3: "ensure_table bs pd ?i2 w2 = (r3, w3)" by fastforce
      note s3 = ensure_table_ok [OF fresh s2(1) p2 _ _ e3, simplified]
        and t3 = ensure_table_mapped [OF fresh s2(1) p2 _ _ e3, simplified]
      have k3: "keeps_pages D (mem w) (mem w3)" using k2 s3(5) by (rule keeps_pages_trans)
      show ?thesis
      proof (cases r3)
        case (Some st)
        then show ?thesis using run arg al e1 e2 e3 r1 r2 s3 t1 t2 t3 k3
          by (auto simp: mem_map_page_def Let_def simp flip: pdpt_def pd_def)
      next
        case r3: None
        define pt where "pt = page_base (table_rd (mem w3) pd ?i2)"
        have p3: "table_path (table_rd (mem w3)) root [?i4, ?i3, ?i2] pt" using s3(4) r3 by (simp add: pt_def)
        define m' where "m' = table_wr (mem w3) pt ?i1 (pa OR PAGE_WSP)"
        have w': "res = EFI_SUCCESS" "w' = w3\<lparr>mem := m'\<rparr>"
          using run arg al e1 e2 e3 r1 r2 r3
          by (simp_all add: mem_map_page_def Let_def m'_def flip: pdpt_def pd_def pt_def)
        note wf3 = s3(1) [unfolded pt_ok_def, THEN conjunct2]
        note leaf = byte_tables.set_leaf [OF wf3 p3 _ _ arg(3,4) m'_def, simplified]
        have "page_aligned pt" "pt \<notin> D" using wf3 p3 unfolding wf_tables_def by blast+
        then have "keeps_pages D (mem w3) m'" unfolding m'_def by (intro table_wr_keeps) simp_all
        then have k4: "keeps_pages D (mem w) m'" by (rule keeps_pages_trans [OF k3])
        have "translate m' root v = (if path_of v = path_of va then Some pa else translate (mem w3) root v)" for v
          using leaf(1) [of "path_of v"] by (simp add: translate_def) (simp add: path_of_def)
        then show ?thesis using leaf(2) t1 t2 t3 k4 s3(1) by (simp add: w' pt_ok_def)
      qed
    qed
  qed
qed

text \<open>The only failures past the argument checks are those of \<^verbatim>\<open>AllocatePages\<close>.\<close>

definition alloc_failed :: "'f boot_services \<Rightarrow> status \<Rightarrow> bool" where
  "alloc_failed bs st \<longleftrightarrow> EFI_ERROR st \<and>
     (\<exists>w a w'. AllocatePages bs AllocateAnyPages EfiLoaderData 1 0 w = ((st, a), w'))"

lemma ensure_table_status: "ensure_table bs t i w = (Some st, w') \<Longrightarrow> alloc_failed bs st"
  by (auto simp: ensure_table_def alloc_failed_def split: if_splits prod.splits)

lemma mem_map_page_status:
  assumes "root \<noteq> 0" "page_aligned va" "page_aligned pa"
  shows "fst (mem_map_page bs root va pa w) = EFI_SUCCESS \<or> alloc_failed bs (fst (mem_map_page bs root va pa w))"
  using assms
  by (auto simp: mem_map_page_def page_aligned_def Let_def dest!: ensure_table_status split: prod.splits option.splits)

section \<open>Virtual page numbers\<close>

definition vpn :: "addr \<Rightarrow> nat" where
  "vpn v = (unat v div 4096) mod 2 ^ 36"

lemma index_take_bit: "x AND 0x1FF = take_bit 9 (x :: u64)"
  by (simp add: take_bit_eq_mask mask_eq_exp_minus_1)

lemma path_of_eq_iff_bits:
  "path_of u = path_of v \<longleftrightarrow> take_bit 36 (drop_bit 12 u) = take_bit 36 (drop_bit 12 v)"
proof
  assume "path_of u = path_of v"
  then have eq: "bit (take_bit 9 (drop_bit k u)) i = bit (take_bit 9 (drop_bit k v)) i"
    if "k \<in> {12, 21, 30, 39}" for k i
    using that by (auto simp: path_of_def PML4_ENTRY_def PDPT_ENTRY_def PD_ENTRY_def PT_ENTRY_def index_take_bit)
  show "take_bit 36 (drop_bit 12 u) = take_bit 36 (drop_bit 12 v)"
  proof (rule bit_word_eqI)
    fix i assume "i < LENGTH(64)"
    show "bit (take_bit 36 (drop_bit 12 u)) i = bit (take_bit 36 (drop_bit 12 v)) i"
    proof (cases "i < 36")
      case True
      then consider "i < 9" | "9 \<le> i" "i < 18" | "18 \<le> i" "i < 27" | "27 \<le> i" "i < 36" by linarith
      then have "bit u (12 + i) = bit v (12 + i)"
      proof cases
        case 1 then show ?thesis using eq [of 12 i] by (simp add: bit_simps)
      next
        case 2 then show ?thesis using eq [of 21 "i - 9"] by (simp add: bit_simps less_diff_conv2)
      next
        case 3 then show ?thesis using eq [of 30 "i - 18"] by (simp add: bit_simps less_diff_conv2)
      next
        case 4 then show ?thesis using eq [of 39 "i - 27"] by (simp add: bit_simps less_diff_conv2)
      qed
      then show ?thesis by (simp add: bit_simps)
    qed (simp add: bit_simps)
  qed
next
  assume "take_bit 36 (drop_bit 12 u) = take_bit 36 (drop_bit 12 v)"
  then have b: "bit (take_bit 36 (drop_bit 12 u)) i = bit (take_bit 36 (drop_bit 12 v)) i" for i by simp
  have eq: "bit u (12 + i) = bit v (12 + i)" if "i < 36" for i
    using that b [of i] by (simp add: bit_take_bit_iff bit_drop_bit_eq)
  have "take_bit 9 (drop_bit (12 + k) u) = take_bit 9 (drop_bit (12 + k) v)" if "k \<le> 27" for k
    by (rule bit_word_eqI) (use that eq [of "k + _"] in \<open>auto simp: bit_simps add.assoc\<close>)
  from this [of 0] this [of 9] this [of 18] this [of 27] show "path_of u = path_of v"
    by (simp add: path_of_def PML4_ENTRY_def PDPT_ENTRY_def PD_ENTRY_def PT_ENTRY_def index_take_bit)
qed

lemma path_of_eq_iff: "path_of u = path_of v \<longleftrightarrow> vpn u = vpn v"
proof -
  have "vpn w = unat (take_bit 36 (drop_bit 12 w))" for w
    by (simp add: vpn_def take_bit_eq_mod drop_bit_eq_div unat_mod unat_div)
  then show ?thesis by (simp add: path_of_eq_iff_bits)
qed

lemma vpn_add_pages:
  "page_aligned v \<Longrightarrow> vpn (v + 0x1000 * of_nat k) = (unat v div 4096 + k) mod 2 ^ 36"
proof -
  assume "page_aligned v"
  then obtain l where l: "unat v = 4096 * l" by (elim page_alignedE)
  have "unat (v + 0x1000 * of_nat k) = (unat v + 4096 * k) mod 2 ^ 64"
    by (simp add: unat_word_ariths unat_of_nat mod_simps)
  also have "\<dots> = 4096 * ((l + k) mod 2 ^ 52)"
  proof -
    have "(2 ^ 64 :: nat) = 4096 * 2 ^ 52" by simp
    then show ?thesis by (simp only: l flip: distrib_left) (rule mod_mult_mult1)
  qed
  finally have "vpn (v + 0x1000 * of_nat k) = (l + k) mod 2 ^ 52 mod 2 ^ 36" by (simp add: vpn_def)
  also have "\<dots> = (l + k) mod 2 ^ 36" by (rule mod_mod_cancel) (rule le_imp_power_dvd, simp)
  finally show ?thesis using l by simp
qed

lemma vpn_pages_distinct:
  assumes "page_aligned v" "j < k" "k < j + 2 ^ 36"
  shows "vpn (v + 0x1000 * of_nat j) \<noteq> vpn (v + 0x1000 * of_nat k)"
proof
  assume "vpn (v + 0x1000 * of_nat j) = vpn (v + 0x1000 * of_nat k)"
  then have "2 ^ 36 dvd (unat v div 4096 + k) - (unat v div 4096 + j)"
    unfolding vpn_add_pages [OF assms(1)] using assms(2) by (metis mod_eq_dvd_iff_nat add_le_cancel_left less_imp_le)
  then have "(2 ^ 36 :: nat) dvd k - j" by simp
  then show False using assms dvd_imp_le [of "2 ^ 36" "k - j"] by linarith
qed

lemma page_aligned_add: "page_aligned a \<Longrightarrow> page_aligned (a + 0x1000 * of_nat k)"
proof -
  assume "page_aligned a"
  then have "4096 dvd unat a" by (simp add: page_aligned_unat mod_eq_0_iff_dvd)
  moreover have "unat (a + 0x1000 * of_nat k) = (unat a + 4096 * k) mod 2 ^ 64"
    by (simp add: unat_word_ariths unat_of_nat mod_simps)
  ultimately have "4096 dvd unat (a + 0x1000 * of_nat k)" by (simp add: dvd_mod_iff dvd_mod)
  then show ?thesis by (simp add: page_aligned_unat mod_eq_0_iff_dvd)
qed

section \<open>Mapping properties\<close>

lemma mem_map_page_correct_aux:
  assumes "allocates_fresh_pages bs owned" "pt_ok D owned pml4 w" "pml4 \<noteq> 0"
    "page_aligned vaddr" "page_aligned paddr" "unat paddr < 2 ^ 52"
    "mem_map_page bs pml4 vaddr paddr w = (res, w')"
  shows "pt_ok D owned pml4 w' \<and> keeps_pages D (mem w) (mem w') \<and> (res = EFI_SUCCESS \<or> alloc_failed bs res) \<and>
    (\<forall>v. translate (mem w') pml4 v =
       (if res = EFI_SUCCESS \<and> vpn v = vpn vaddr then Some paddr else translate (mem w) pml4 v))"
proof -
  have st: "res = EFI_SUCCESS \<or> alloc_failed bs res"
    using mem_map_page_status [OF assms(3-5), of bs w] assms(7) by simp
  then have "res = EFI_SUCCESS \<longleftrightarrow> \<not> EFI_ERROR res" by (auto simp: alloc_failed_def)
  then show ?thesis using mem_map_page_effect [OF assms] st by (simp add: path_of_eq_iff)
qed

text \<open>
  C1: \<open>mem_map_page\<close>, given well-formed tables and an allocator that returns fresh pages, keeps the
  tables well formed and apart from the pages \<open>D\<close> with other data, whose bytes it leaves alone; when it returns success the page of \<open>vaddr\<close> translates to \<open>paddr\<close>, and no other
  virtual page changes its translation.  When it fails, the status is one that \<^verbatim>\<open>AllocatePages\<close>
  returned and no translation changes at all.
\<close>

theorem mem_map_page_correct:
  assumes "allocates_fresh_pages bs owned" "pt_ok D owned pml4 w" "pml4 \<noteq> 0"
    "page_aligned vaddr" "page_aligned paddr" "unat paddr < 2 ^ 52"
    "mem_map_page bs pml4 vaddr paddr w = (res, w')"
  shows "pt_ok D owned pml4 w' \<and> keeps_pages D (mem w) (mem w') \<and> (res = EFI_SUCCESS \<or> alloc_failed bs res) \<and>
    (\<forall>v. translate (mem w') pml4 v =
       (if res = EFI_SUCCESS \<and> vpn v = vpn vaddr then Some paddr else translate (mem w) pml4 v))"
  using assms by (rule mem_map_page_correct_aux)

lemma wf_empty_root:
  assumes "page_aligned root" "root \<in> own" "\<And>i. i < 512 \<Longrightarrow> e root i AND PAGE_PRESENT = 0"
  shows "wf_tables e root own"
proof -
  have "table_path e root p t \<longleftrightarrow> p = [] \<and> t = root" for p t
    using assms(3) by (cases p) (auto simp: table_path_def)
  then show ?thesis using assms by (auto simp: wf_tables_def)
qed

lemma zero_table_rd: "table_rd (\<lambda>_. 0) t i = 0"
  by (simp add: table_rd_def read64_def numeral_eq_Suc)

lemma pt_ok_zero_memory:
  "page_aligned root \<Longrightarrow> root \<in> owned f - D \<Longrightarrow> D \<subseteq> owned f \<Longrightarrow> pt_ok D owned root \<lparr>mem = \<lambda>_. 0, fw = f\<rparr>"
  unfolding pt_ok_def using wf_empty_root [of root "owned f - D" "table_rd (\<lambda>_. 0)"] by (simp add: zero_table_rd)

lemmas table_eval = byte_tables.rd_wr byte_tables.rd_clear zero_table_rd page_aligned_def PML4_ENTRY_def
  PDPT_ENTRY_def PD_ENTRY_def PT_ENTRY_def PAGE_flags page_base_def

theorem mem_map_page_correct_witness:
  "allocates_fresh_pages bump_bs bump_owned \<and>
   (let (res, w') = mem_map_page bump_bs 0x1000 0x400000 0x200000 \<lparr>mem = \<lambda>_. 0, fw = 0x5000\<rparr>
    in res = EFI_SUCCESS \<and> translate (mem w') 0x1000 0x400123 = Some 0x200000)"
proof -
  define w :: "addr world" where "w = \<lparr>mem = \<lambda>_. 0, fw = 0x5000\<rparr>"
  obtain res w' where run: "mem_map_page bump_bs 0x1000 0x400000 0x200000 w = (res, w')" by fastforce
  have ok: "pt_ok {} bump_owned 0x1000 w"
    unfolding w_def by (rule pt_ok_zero_memory) (simp_all add: page_aligned_def bump_owned_def)
  have "fst (mem_map_page bump_bs 0x1000 0x400000 0x200000 w) = EFI_SUCCESS"
    by (simp add: mem_map_page_def ensure_table_def w_def bump_bs_eval table_eval Let_def)
  then have "res = EFI_SUCCESS" using run by simp
  moreover have "translate (mem w') 0x1000 0x400123 = Some 0x200000"
    using mem_map_page_correct [OF bump_fresh ok _ _ _ _ run] calculation
    by (simp add: page_aligned_def vpn_def)
  ultimately show ?thesis using run bump_fresh by (simp add: w_def)
qed

lemma mem_map_pages_loop_ok:
  assumes fresh: "allocates_fresh_pages bs owned" and root: "root \<noteq> 0"
    and "pt_ok D owned root w" "page_aligned va" "page_aligned pa" "unat pa + 0x1000 * n \<le> 2 ^ 52" "n \<le> 2 ^ 36"
    and "mem_map_pages_loop bs root va pa n w = (res, w')"
  shows "pt_ok D owned root w' \<and> keeps_pages D (mem w) (mem w') \<and> (res = EFI_SUCCESS \<or> alloc_failed bs res) \<and>
    (\<forall>v. (\<forall>k < n. vpn v \<noteq> vpn (va + 0x1000 * of_nat k)) \<longrightarrow> translate (mem w') root v = translate (mem w) root v) \<and>
    (res = EFI_SUCCESS \<longrightarrow> (\<forall>k < n. translate (mem w') root (va + 0x1000 * of_nat k) = Some (pa + 0x1000 * of_nat k)))"
  using assms(3-8)
proof (induction n arbitrary: va pa w)
  case (Suc n)
  obtain r1 w1 where r1: "mem_map_page bs root va pa w = (r1, w1)" by fastforce
  have pa: "unat pa < 2 ^ 52" using Suc.prems(4) by simp
  note one = mem_map_page_correct_aux [OF fresh Suc.prems(1) root Suc.prems(2,3) pa r1]
  have shift: "x + 0x1000 + 0x1000 * of_nat k = x + 0x1000 * of_nat (Suc k)" for x :: addr and k
    by (simp add: algebra_simps)
  show ?case
  proof (cases "EFI_ERROR r1")
    case True
    then show ?thesis using one Suc.prems(6) r1 by auto
  next
    case False
    then have succ: "r1 = EFI_SUCCESS" using one by (auto simp: alloc_failed_def)
    have run: "mem_map_pages_loop bs root (va + 0x1000) (pa + 0x1000) n w1 = (res, w')"
      using Suc.prems(6) r1 False by simp
    have al: "page_aligned (va + 0x1000)" "page_aligned (pa + 0x1000)"
      using page_aligned_add [OF Suc.prems(2), of 1] page_aligned_add [OF Suc.prems(3), of 1] by simp_all
    have up: "unat (pa + 0x1000) + 0x1000 * n \<le> 2 ^ 52"
      using Suc.prems(4) unat_add_of_nat_u64 [of pa "0x1000"] by simp
    note IH = Suc.IH [OF _ al up _ run, unfolded shift]
    have ok1: "pt_ok D owned root w1" and k1: "keeps_pages D (mem w) (mem w1)" using one by blast+
    have keeps: "keeps_pages D (mem w) (mem w')" using IH ok1 Suc.prems(5) keeps_pages_trans [OF k1] by auto
    have IH1: "pt_ok D owned root w'" "res = EFI_SUCCESS \<or> alloc_failed bs res"
        "\<And>v. (\<forall>k < n. vpn v \<noteq> vpn (va + 0x1000 * of_nat (Suc k))) \<Longrightarrow> translate (mem w') root v = translate (mem w1) root v"
        "\<And>k. res = EFI_SUCCESS \<Longrightarrow> k < n \<Longrightarrow> translate (mem w') root (va + 0x1000 * of_nat (Suc k)) = Some (pa + 0x1000 * of_nat (Suc k))"
      using IH ok1 Suc.prems(5) by auto
    have one': "translate (mem w1) root v = (if vpn v = vpn va then Some pa else translate (mem w) root v)" for v
      using one succ by simp
    have "vpn va \<noteq> vpn (va + 0x1000 * of_nat (Suc k))" if "k < n" for k
      using vpn_pages_distinct [OF Suc.prems(2), of 0 "Suc k"] that Suc.prems(5) by simp
    then have va: "translate (mem w') root va = Some pa" using IH1(3) [of va] one' by simp
    have other: "translate (mem w') root v = translate (mem w) root v"
      if "\<forall>k < Suc n. vpn v \<noteq> vpn (va + 0x1000 * of_nat k)" for v
      using IH1(3) [of v] one' [of v] that by force
    have all: "translate (mem w') root (va + 0x1000 * of_nat k) = Some (pa + 0x1000 * of_nat k)"
      if "res = EFI_SUCCESS" "k < Suc n" for k
      using that va IH1(4) [of "k - 1"] by (cases k) simp_all
    show ?thesis using IH1(1,2) keeps other all by blast
  qed
qed simp

text \<open>
  C2: \<open>mem_map_pages\<close> over a range that stays below the physical limit: on success every page of the
  range is mapped to the corresponding frame; on every outcome the tables stay well formed, the pages \<open>D\<close>
  that hold other data are unchanged, virtual pages outside the range keep their translation, and a failure is one of \<^verbatim>\<open>AllocatePages\<close>.
\<close>

theorem mem_map_pages_correct:
  assumes "allocates_fresh_pages bs owned" "pt_ok D owned pml4 w" "pml4 \<noteq> 0"
    "page_aligned vaddr" "page_aligned paddr" "unat paddr + 0x1000 * unat n \<le> 2 ^ 52" "unat n \<le> 2 ^ 36"
    "mem_map_pages bs pml4 vaddr paddr n w = (res, w')"
  shows "pt_ok D owned pml4 w' \<and> keeps_pages D (mem w) (mem w') \<and> (res = EFI_SUCCESS \<or> alloc_failed bs res) \<and>
    (\<forall>v. (\<forall>k < unat n. vpn v \<noteq> vpn (vaddr + 0x1000 * of_nat k)) \<longrightarrow>
       translate (mem w') pml4 v = translate (mem w) pml4 v) \<and>
    (res = EFI_SUCCESS \<longrightarrow>
       (\<forall>k < unat n. translate (mem w') pml4 (vaddr + 0x1000 * of_nat k) = Some (paddr + 0x1000 * of_nat k)))"
proof -
  have "mem_map_pages_loop bs pml4 vaddr paddr (unat n) w = (res, w')"
    using assms(3-5,8) by (simp add: mem_map_pages_def page_aligned_def)
  then show ?thesis using assms by (intro mem_map_pages_loop_ok) auto
qed

lemma mem_map_pages_loop_numeral [eval_simps]:
  "mem_map_pages_loop bs pml4 vaddr paddr (numeral k) w =
     (let (res, w1) = mem_map_page bs pml4 vaddr paddr w in
      if EFI_ERROR res then (res, w1)
      else mem_map_pages_loop bs pml4 (vaddr + 0x1000) (paddr + 0x1000) (pred_numeral k) w1)"
  by (simp add: numeral_eq_Suc)

theorem mem_map_pages_correct_witness:
  "allocates_fresh_pages bump_bs bump_owned \<and>
   (let (res, w') = mem_map_pages bump_bs 0x1000 0x400000 0x200000 2 \<lparr>mem = \<lambda>_. 0, fw = 0x5000\<rparr>
    in res = EFI_SUCCESS \<and> translate (mem w') 0x1000 0x401000 = Some 0x201000)"
proof -
  define w :: "addr world" where "w = \<lparr>mem = \<lambda>_. 0, fw = 0x5000\<rparr>"
  obtain res w' where run: "mem_map_pages bump_bs 0x1000 0x400000 0x200000 2 w = (res, w')" by fastforce
  have ok: "pt_ok {} bump_owned 0x1000 w"
    unfolding w_def by (rule pt_ok_zero_memory) (simp_all add: page_aligned_def bump_owned_def)
  have "fst (mem_map_pages bump_bs 0x1000 0x400000 0x200000 2 w) = EFI_SUCCESS"
    by (simp add: mem_map_pages_def mem_map_page_def ensure_table_def w_def bump_bs_eval table_eval Let_def
        mem_map_pages_loop_numeral)
  then have "res = EFI_SUCCESS" using run by simp
  moreover have "translate (mem w') 0x1000 0x401000 = Some 0x201000"
    using mem_map_pages_correct [OF bump_fresh ok _ _ _ _ _ run] calculation
    by (auto simp: page_aligned_def dest: spec [of _ 1])
  ultimately show ?thesis using run bump_fresh by (simp add: w_def)
qed

section \<open>Freeing the tables\<close>

text \<open>\<^verbatim>\<open>FreePages\<close> of one page changes no other page.\<close>

definition frees_only_page :: "'f boot_services \<Rightarrow> bool" where
  "frees_only_page bs \<longleftrightarrow>
     (\<forall>a w x. \<not> in_range a 4096 x \<longrightarrow> mem (snd (FreePages bs a 1 w)) x = mem w x)"

text \<open>The three nested loops as one recursion on the depth, and the order in which they free.\<close>

primrec free_level :: "'f boot_services \<Rightarrow> nat \<Rightarrow> addr \<Rightarrow> 'f world \<Rightarrow> 'f world" where
  "free_level bs 0 t w = w"
| "free_level bs (Suc n) t w = fold (\<lambda>i w.
     if table_rd (mem w) t i AND PAGE_PRESENT = 0 then w
     else free_page bs (table_rd (mem w) t i AND ADDRESS_MASK)
            (free_level bs n (table_rd (mem w) t i AND ADDRESS_MASK) w)) table_indices w"

primrec free_order :: "(addr \<Rightarrow> u64 \<Rightarrow> u64) \<Rightarrow> nat \<Rightarrow> addr \<Rightarrow> addr list" where
  "free_order e 0 t = []"
| "free_order e (Suc n) t = concat (map (\<lambda>i.
     if e t i AND PAGE_PRESENT = 0 then []
     else free_order e n (e t i AND ADDRESS_MASK) @ [e t i AND ADDRESS_MASK]) table_indices)"

lemma mem_free_tables_level: "mem_free_tables bs root w = free_level bs 3 root w"
proof -
  have "free_pd bs = free_level bs 1" by (intro ext) (simp add: free_pd_def Let_def cong: if_cong)
  moreover have "free_pdpt bs = free_level bs 2"
    by (intro ext) (simp add: free_pdpt_def Let_def calculation numeral_2_eq_2 cong: if_cong)
  ultimately show ?thesis by (simp add: mem_free_tables_def Let_def numeral_3_eq_3 numeral_2_eq_2 cong: if_cong)
qed

lemma set_table_indices: "set table_indices = {i. i < 512}"
proof -
  have "i \<in> of_nat ` {0..<512}" if "i < 512" for i :: u64
    using that by (intro image_eqI [of _ _ "unat i"]) (simp_all add: word_less_nat_alt)
  moreover have "of_nat k < (512 :: u64)" if "k < 512" for k
    using that by (simp add: word_less_nat_alt unat_of_nat_u64)
  ultimately show ?thesis by (auto simp: table_indices_def)
qed

lemma distinct_table_indices: "distinct table_indices"
proof -
  have "inj_on (of_nat :: nat \<Rightarrow> u64) {0..<512}"
  proof (rule inj_onI)
    fix k l :: nat assume kl: "k \<in> {0..<512}" "l \<in> {0..<512}" and eq: "of_nat k = (of_nat l :: u64)"
    from kl have "unat (of_nat k :: u64) = k" "unat (of_nat l :: u64) = l" by (auto intro!: unat_of_nat_u64)
    then show "k = l" using eq by metis
  qed
  then show ?thesis by (simp add: table_indices_def distinct_map)
qed

lemma set_free_order:
  "set (free_order e n t) = {u. \<exists>q. q \<noteq> [] \<and> valid_path q \<and> length q \<le> n \<and> walk e t q = Some u}"
proof (induction n arbitrary: t)
  case (Suc n)
  show ?case
  proof (intro set_eqI iffI)
    fix u assume "u \<in> set (free_order e (Suc n) t)"
    then obtain i where i: "i < 512" "e t i AND PAGE_PRESENT \<noteq> 0"
        "u \<in> set (free_order e n (e t i AND ADDRESS_MASK)) \<or> u = e t i AND ADDRESS_MASK"
      by (auto simp: set_table_indices split: if_splits)
    from i(3) obtain q where "valid_path q" "length q \<le> n" "walk e (e t i AND ADDRESS_MASK) q = Some u"
    proof
      assume "u \<in> set (free_order e n (e t i AND ADDRESS_MASK))"
      then show thesis using that unfolding Suc.IH by blast
    next
      assume "u = e t i AND ADDRESS_MASK"
      then show thesis using that [of "[]"] by simp
    qed
    then show "u \<in> {u. \<exists>q. q \<noteq> [] \<and> valid_path q \<and> length q \<le> Suc n \<and> walk e t q = Some u}"
      using i by (intro CollectI exI [of _ "i # q"]) auto
  next
    fix u assume "u \<in> {u. \<exists>q. q \<noteq> [] \<and> valid_path q \<and> length q \<le> Suc n \<and> walk e t q = Some u}"
    then obtain p where p: "p \<noteq> []" "valid_path p" "length p \<le> Suc n" "walk e t p = Some u" by blast
    then obtain i q where "p = i # q" by (cases p) auto
    with p have q: "i < 512" "valid_path q" "length q \<le> n" "e t i AND PAGE_PRESENT \<noteq> 0"
        "walk e (e t i AND ADDRESS_MASK) q = Some u"
      by (auto split: if_splits)
    then have "u \<in> set (free_order e n (e t i AND ADDRESS_MASK)) \<or> u = e t i AND ADDRESS_MASK"
      using Suc by (cases q) auto
    then show "u \<in> set (free_order e (Suc n) t)" using q by (auto simp: set_table_indices)
  qed
qed auto

text \<open>Tables below path \<open>p\<close>, itself included.\<close>

definition subtree :: "(addr \<Rightarrow> u64 \<Rightarrow> u64) \<Rightarrow> addr \<Rightarrow> u64 list \<Rightarrow> addr set" where
  "subtree e root p = {t. \<exists>q. table_path e root (p @ q) t}"

lemma self_in_subtree: "table_path e root p t \<Longrightarrow> t \<in> subtree e root p"
  unfolding subtree_def by (intro CollectI exI [of _ "[]"]) simp

lemma subtree_disjoint:
  assumes "wf_tables e root own" "i \<noteq> j"
  shows "subtree e root (p @ [i]) \<inter> subtree e root (p @ [j]) = {}"
proof -
  have False if "table_path e root ((p @ [i]) @ q) t" "table_path e root ((p @ [j]) @ r) t" for q r t
  proof -
    have "(p @ [i]) @ q = (p @ [j]) @ r" using assms(1) that unfolding wf_tables_def by blast
    then show False using assms(2) by simp
  qed
  then show ?thesis by (auto simp: subtree_def)
qed

lemma subtree_child: "subtree e root (p @ [i]) \<subseteq> subtree e root p"
  unfolding subtree_def by auto

lemma not_in_child:
  assumes "wf_tables e root own" "table_path e root p t"
  shows "t \<notin> subtree e root (p @ [i])"
proof
  assume "t \<in> subtree e root (p @ [i])"
  then obtain q where "table_path e root ((p @ [i]) @ q) t" by (auto simp: subtree_def)
  then have "p = (p @ [i]) @ q" using assms unfolding wf_tables_def by blast
  then show False by simp
qed

lemma child_path:
  assumes "table_path e root p t" "length p \<le> 2" "i < 512" "e t i AND PAGE_PRESENT \<noteq> 0"
  shows "table_path e root (p @ [i]) (e t i AND ADDRESS_MASK)"
  using assms by (auto simp: table_path_def walk_append)

lemma free_order_subtree:
  assumes "table_path e root p t" "length p + n \<le> 3"
  shows "set (free_order e n t) \<subseteq> subtree e root p"
proof
  fix u assume "u \<in> set (free_order e n t)"
  then obtain q where "valid_path q" "length q \<le> n" "walk e t q = Some u" by (auto simp: set_free_order)
  then have "table_path e root (p @ q) u" using assms by (auto simp: table_path_def walk_append)
  then show "u \<in> subtree e root p" by (auto simp: subtree_def)
qed

lemma distinct_free_order:
  assumes "wf_tables e root own" "table_path e root p t" "length p + n \<le> 3"
  shows "distinct (free_order e n t)"
  using assms(2,3)
proof (induction n arbitrary: p t)
  case (Suc n)
  let ?F = "\<lambda>i. if e t i AND PAGE_PRESENT = 0 then []
     else free_order e n (e t i AND ADDRESS_MASK) @ [e t i AND ADDRESS_MASK]"
  have sub: "set (?F i) \<subseteq> subtree e root (p @ [i])" if "i < 512" for i
  proof (cases "e t i AND PAGE_PRESENT = 0")
    case False
    then have c: "table_path e root (p @ [i]) (e t i AND ADDRESS_MASK)" using Suc.prems that by (intro child_path) auto
    then have "e t i AND ADDRESS_MASK \<in> subtree e root (p @ [i])" by (rule self_in_subtree)
    then show ?thesis using False free_order_subtree [OF c, of n] Suc.prems by auto
  qed simp
  have dist: "distinct (?F i)" if "i < 512" for i
  proof (cases "e t i AND PAGE_PRESENT = 0")
    case False
    then have c: "table_path e root (p @ [i]) (e t i AND ADDRESS_MASK)" using Suc.prems that by (intro child_path) auto
    have "e t i AND ADDRESS_MASK \<notin> set (free_order e n (e t i AND ADDRESS_MASK))"
    proof
      assume "e t i AND ADDRESS_MASK \<in> set (free_order e n (e t i AND ADDRESS_MASK))"
      then obtain q where q: "q \<noteq> []" "valid_path q" "length q \<le> n"
          "walk e (e t i AND ADDRESS_MASK) q = Some (e t i AND ADDRESS_MASK)"
        by (auto simp: set_free_order)
      then have "table_path e root ((p @ [i]) @ q) (e t i AND ADDRESS_MASK)"
        using c Suc.prems by (auto simp: table_path_def walk_append split: option.splits)
      then have "p @ [i] = (p @ [i]) @ q" using c assms(1) unfolding wf_tables_def by blast
      then show False using q by simp
    qed
    then show ?thesis using False Suc.IH [OF c] Suc.prems by simp
  qed simp
  have "set (?F i) \<inter> set (?F j) = {}" if "i < 512" "j < 512" "i \<noteq> j" for i j
    using sub [OF that(1)] sub [OF that(2)] subtree_disjoint [OF assms(1) that(3), of p] by blast
  then have "distinct (concat (map ?F is))" if "distinct is" "set is \<subseteq> {i. i < 512}" for "is"
    using that dist by (induction "is") (simp, fastforce)
  then show ?case using distinct_table_indices set_table_indices by simp
qed simp

lemma freed_table_rd:
  assumes "frees_only_page bs" "page_aligned u" "i < 512" "\<forall>a \<in> set L. page_aligned a" "u \<notin> set L"
  shows "table_rd (mem (fold (free_page bs) L w)) u i = table_rd (mem w) u i"
  using assms(4,5)
proof (induction L arbitrary: w)
  case (Cons a L)
  have "no_overlap a 4096 u 4096" using Cons.prems assms(2) by (auto intro: pages_no_overlap)
  then have "table_rd (mem (free_page bs a w)) u i = table_rd (mem w) u i"
    using assms(1-3) by (intro table_rd_cong) (auto simp: free_page_def frees_only_page_def no_overlap_def)
  then show ?case using Cons by simp
qed simp

lemma free_level_order:
  assumes wf: "wf_tables (table_rd (mem w)) root own" and bs: "frees_only_page bs"
    and t: "table_path (table_rd (mem w)) root p t" and n: "length p + n \<le> 3"
    and L: "\<forall>a \<in> set L. page_aligned a" "set L \<inter> subtree (table_rd (mem w)) root p = {}"
  shows "free_level bs n t (fold (free_page bs) L w) = fold (free_page bs) (L @ free_order (table_rd (mem w)) n t) w"
  using t n L
proof (induction n arbitrary: p t L)
  case (Suc n)
  let ?e = "table_rd (mem w)" and ?fp = "fold (free_page bs)"
  let ?F = "\<lambda>i. if ?e t i AND PAGE_PRESENT = 0 then []
     else free_order ?e n (?e t i AND ADDRESS_MASK) @ [?e t i AND ADDRESS_MASK]"
  let ?step = "\<lambda>i w. if table_rd (mem w) t i AND PAGE_PRESENT = 0 then w
     else free_page bs (table_rd (mem w) t i AND ADDRESS_MASK)
            (free_level bs n (table_rd (mem w) t i AND ADDRESS_MASK) w)"
  have al: "page_aligned t" using wf Suc.prems(1) by (auto simp: wf_tables_def)
  have aligned: "page_aligned u" if "u \<in> subtree ?e root q" for u q
    using wf that by (auto simp: wf_tables_def subtree_def)
  have child: "table_path ?e root (p @ [i]) (?e t i AND ADDRESS_MASK)"
    if "i < 512" "?e t i AND PAGE_PRESENT \<noteq> 0" for i
    using Suc.prems that by (intro child_path) auto
  have F: "set (?F i) \<subseteq> subtree ?e root (p @ [i])" if "i < 512" for i
  proof (cases "?e t i AND PAGE_PRESENT = 0")
    case False
    note c = child [OF that False]
    then have "?e t i AND ADDRESS_MASK \<in> subtree ?e root (p @ [i])" by (rule self_in_subtree)
    then show ?thesis using False free_order_subtree [OF c, of n] Suc.prems by auto
  qed simp
  have loop: "fold ?step is (?fp L w) = ?fp (L @ concat (map ?F is)) w"
    if "distinct is" "set is \<subseteq> {i. i < 512}" "\<forall>a \<in> set L. page_aligned a" "t \<notin> set L"
      "\<forall>i \<in> set is. set L \<inter> subtree ?e root (p @ [i]) = {}" for "is" L
    using that
  proof (induction "is" arbitrary: L)
    case (Cons i "is")
    have rd: "table_rd (mem (?fp L w)) t i = ?e t i"
      using Cons.prems al bs by (intro freed_table_rd) auto
    have i: "i < 512" using Cons.prems by simp
    have step: "?step i (?fp L w) = ?fp (L @ ?F i) w"
    proof (cases "?e t i AND PAGE_PRESENT = 0")
      case False
      then show ?thesis
        using Suc.IH [OF child [OF i False], of L] Suc.prems(2) Cons.prems by (simp add: rd)
    qed (simp add: rd)
    define G where "G = ?F i"
    have G: "set G \<subseteq> subtree ?e root (p @ [i])" unfolding G_def by (rule F [OF i])
    have "fold ?step is (?fp (L @ G) w) = ?fp ((L @ G) @ concat (map ?F is)) w"
    proof (rule Cons.IH)
      show "\<forall>a \<in> set (L @ G). page_aligned a" using Cons.prems(3) G aligned by auto
      show "t \<notin> set (L @ G)" using Cons.prems(4) G not_in_child [OF wf Suc.prems(1)] by auto
      show "\<forall>j \<in> set is. set (L @ G) \<inter> subtree ?e root (p @ [j]) = {}"
      proof
        fix j assume j: "j \<in> set is"
        then have "i \<noteq> j" using Cons.prems(1) by auto
        then have "set G \<inter> subtree ?e root (p @ [j]) = {}"
          using G subtree_disjoint [OF wf, of i j p] by blast
        moreover have "set L \<inter> subtree ?e root (p @ [j]) = {}" using Cons.prems(5) j by simp
        ultimately show "set (L @ G) \<inter> subtree ?e root (p @ [j]) = {}" unfolding set_append by blast
      qed
    qed (use Cons.prems in auto)
    then show ?case unfolding G_def using step by simp
  qed simp
  have "t \<in> subtree ?e root p" using Suc.prems(1) by (rule self_in_subtree)
  then have tL: "t \<notin> set L" using Suc.prems(4) by blast
  have sub: "\<forall>i \<in> set table_indices. set L \<inter> subtree ?e root (p @ [i]) = {}"
    using Suc.prems(4) subtree_child [of ?e root p] by blast
  have "set table_indices \<subseteq> {i. i < 512}" by (simp add: set_table_indices)
  from loop [OF distinct_table_indices this Suc.prems(3) tL sub] show ?case
    by (simp only: free_level.simps free_order.simps)
qed simp

text \<open>
  C3: \<open>mem_free_tables\<close> on well-formed tables hands every table below the root back to the firmware,
  each exactly once and nothing else: it is a sequence of \<^verbatim>\<open>FreePages\<close> calls over a duplicate-free list of
  exactly the tables reached by paths of one to three indices (the root and the mapped frames
  are not freed).
\<close>

theorem mem_free_tables_correct:
  assumes "frees_only_page bs" "pt_ok D owned pml4 w"
  shows "\<exists>L. mem_free_tables bs pml4 w = fold (free_page bs) L w \<and> distinct L \<and>
    set L = {t. \<exists>p. p \<noteq> [] \<and> table_path (table_rd (mem w)) pml4 p t}"
proof (intro exI conjI)
  let ?L = "free_order (table_rd (mem w)) 3 pml4"
  have wf: "wf_tables (table_rd (mem w)) pml4 (owned (fw w) - D)" using assms(2) by (simp add: pt_ok_def)
  show "mem_free_tables bs pml4 w = fold (free_page bs) ?L w"
    using free_level_order [OF wf assms(1) root_path, of 3 "[]"] by (simp add: mem_free_tables_level)
  show "distinct ?L" using distinct_free_order [OF wf root_path, of 3] by simp
  show "set ?L = {t. \<exists>p. p \<noteq> [] \<and> table_path (table_rd (mem w)) pml4 p t}"
    by (auto simp: set_free_order table_path_def)
qed

theorem mem_free_tables_correct_witness:
  "frees_only_page bump_bs \<and>
   (let w = snd (mem_map_page bump_bs 0x1000 0x400000 0x200000 \<lparr>mem = \<lambda>_. 0, fw = 0x5000\<rparr>)
    in pt_ok {} bump_owned 0x1000 w \<and>
       (\<exists>L. mem_free_tables bump_bs 0x1000 w = fold (free_page bump_bs) L w \<and> distinct L \<and>
          set L = {t. \<exists>p. p \<noteq> [] \<and> table_path (table_rd (mem w)) 0x1000 p t}))"
proof -
  define w :: "addr world" where "w = \<lparr>mem = \<lambda>_. 0, fw = 0x5000\<rparr>"
  obtain res w' where run: "mem_map_page bump_bs 0x1000 0x400000 0x200000 w = (res, w')" by fastforce
  have ok: "pt_ok {} bump_owned 0x1000 w"
    unfolding w_def by (rule pt_ok_zero_memory) (simp_all add: page_aligned_def bump_owned_def)
  have "pt_ok {} bump_owned 0x1000 w'"
    using mem_map_page_correct_aux [OF bump_fresh ok _ _ _ _ run] by (simp add: page_aligned_def)
  moreover have "frees_only_page bump_bs" by (simp add: frees_only_page_def bump_bs_def null_bs_def)
  ultimately show ?thesis
    using mem_free_tables_correct [of bump_bs "{}" bump_owned "0x1000" w'] run by (simp add: w_def)
qed

end
