(* ===== verification/Boot_Main.thy ===== *)
theory Boot_Main
  imports Boot_Cfg Boot_Info Page_Tables
begin

text \<open>
  \<^verbatim>\<open>nyxboot/src/main.c\<close>: loading the kernel, building its page tables and boot information, leaving
  the boot services and entering the kernel.  The library initialisation of gnu-efi is a parameter.
\<close>

section \<open>Definitions\<close>

definition load_boot_bin :: "'f boot_services \<Rightarrow> addr \<Rightarrow> addr \<Rightarrow> addr \<Rightarrow> addr \<Rightarrow> 'f world \<Rightarrow> (status \<times> 'f world) option" where
  "load_boot_bin bs imageHandle bootConfig elfInfo ehdr w =
     (case parse_config bs imageHandle bootConfig w of None \<Rightarrow> None | Some (res, w1) \<Rightarrow>
      if EFI_ERROR res then Some (res, w1)
      else case find_filesystem_for_guid bs bootConfig (Some 0) (Some 0) w1 of None \<Rightarrow> None
      | Some ((res, bootPart, bootPartFs), w2) \<Rightarrow>
      if EFI_ERROR res then Some (res, w2)
      else let ((res, bootRoot), w3) = OpenVolume bs (case bootPartFs of Some fs \<Rightarrow> fs | None \<Rightarrow> 0) 0 w2 in
      if EFI_ERROR res then Some (res, w3)
      else let ((res, bootBinary), w4) =
             Open bs bootRoot 0 (Ptr (read64 (mem w3) (bootConfig + 16))) EFI_FILE_MODE_READ 0 w3 in
      if EFI_ERROR res then Some (res, snd (Close bs bootRoot w4))
      else let (res, w5) = elf_load_file bs bootBinary elfInfo ELF_LOAD_DISCONTIG ehdr w4
           in Some (res, snd (Close bs bootRoot (snd (Close bs bootBinary w5)))))"

definition DIRECT_MAP_BASE :: u64 where "DIRECT_MAP_BASE = 0xFFFF800000000000"

text \<open>Memory types that are not mapped: unusable, reserved, MMIO, MMIO port space, PAL code, persistent.\<close>

definition skipped_type :: "u32 \<Rightarrow> bool" where
  "skipped_type t \<longleftrightarrow> t = 8 \<or> t = 0 \<or> t = 11 \<or> t = 12 \<or> t = 13 \<or> t = 14"

text \<open>The first loop of \<^verbatim>\<open>map_memory\<close>; its bound is computed again before every turn.\<close>

function map_descs_loop :: "'f boot_services \<Rightarrow> addr \<Rightarrow> addr \<Rightarrow> u64 \<Rightarrow> 'f world \<Rightarrow> status \<times> 'f world" where
  "map_descs_loop bs pml4 memMap i w =
     (if \<not> i < map_size (mem w) memMap div map_descSize (mem w) memMap then (EFI_SUCCESS, w)
      else let desc = efi_desc (mem w) memMap i in
      if skipped_type (read32 (mem w) desc) then map_descs_loop bs pml4 memMap (i + 1) w
      else let (res, w1) = mem_map_pages bs pml4 (read64 (mem w) (desc + 8)) (read64 (mem w) (desc + 8))
                             (read64 (mem w) (desc + 24)) w in
      if EFI_ERROR res then (res, w1)
      else let (res, w2) = mem_map_pages bs pml4 (read64 (mem w1) (desc + 8) + DIRECT_MAP_BASE)
                             (read64 (mem w1) (desc + 8)) (read64 (mem w1) (desc + 24)) w1 in
      if EFI_ERROR res then (res, w2)
      else map_descs_loop bs pml4 memMap (i + 1) w2)"
  by pat_completeness auto

termination
  by (relation "measure (\<lambda>(bs, pml4, memMap, i, w). 2 ^ 64 - unat i)")
    (simp, unfold in_measure split_conv, (rule u64_step, simp)+)

declare map_descs_loop.simps [simp del]

function map_sections_loop :: "'f boot_services \<Rightarrow> addr \<Rightarrow> addr \<Rightarrow> u64 \<Rightarrow> 'f world \<Rightarrow> status \<times> 'f world" where
  "map_sections_loop bs pml4 loadInfo i w =
     (if \<not> i < info_sectionCount (mem w) loadInfo then (EFI_SUCCESS, w)
      else let section = info_sections (mem w) loadInfo + i * sizeof_section;
               (res, w1) = mem_map_pages bs pml4 (sec_reqVirt (mem w) section) (sec_phys (mem w) section)
                             (sec_pageCount (mem w) section) w in
      if EFI_ERROR res then (res, w1)
      else map_sections_loop bs pml4 loadInfo (i + 1) w1)"
  by pat_completeness auto

termination
  by (relation "measure (\<lambda>(bs, pml4, loadInfo, i, w). 2 ^ 64 - unat i)")
    (simp, unfold in_measure split_conv, (rule u64_step, simp)+)

declare map_sections_loop.simps [simp del]

text \<open>\<open>None\<close> is the division fault for a descriptor size of 0.\<close>

definition map_memory :: "'f boot_services \<Rightarrow> addr \<Rightarrow> addr \<Rightarrow> addr \<Rightarrow> 'f world \<Rightarrow> (status \<times> 'f world) option" where
  "map_memory bs pml4 memMap loadInfo w =
     (if map_descSize (mem w) memMap = 0 then None
      else let (res, w1) = map_descs_loop bs pml4 memMap 0 w in
      if EFI_ERROR res then Some (res, w1)
      else let (res, w2) = map_sections_loop bs pml4 loadInfo 0 w1 in
      if EFI_ERROR res then Some (res, w2) else Some (EFI_SUCCESS, w2))"

text \<open>
  How \<^verbatim>\<open>efi_main\<close> ends: it returns a status, it halts the machine, or it enters the kernel with the page
  table root in \<^verbatim>\<open>cr3\<close>, the boot information in \<^verbatim>\<open>rdi\<close> and the entry point as jump target.
\<close>

datatype boot_outcome = Returned status | Halted | Entered (cr3: addr) (rdi: addr) (target: addr)

text \<open>The stack slots of the local structures.\<close>

record boot_frame =
  f_bootConfig :: addr
  f_elfInfo :: addr
  f_memMap :: addr
  f_ehdr :: addr

definition EXIT_BS_MAX_ATTEMPTS :: nat where "EXIT_BS_MAX_ATTEMPTS = 5"

text \<open>The attempts to leave the boot services, \<open>n\<close> left; \<open>res\<close> is the current value of the variable.\<close>

primrec exit_bs_loop :: "'f boot_services \<Rightarrow> addr \<Rightarrow> u64 \<Rightarrow> addr \<Rightarrow> nat \<Rightarrow> status \<Rightarrow> 'f world \<Rightarrow> status \<times> 'f world" where
  "exit_bs_loop bs imageHandle bufferSize memMap 0 res w = (res, w)"
| "exit_bs_loop bs imageHandle bufferSize memMap (Suc n) res w =
     (let (res, w1) = efi_get_memmap_norealloc bs bufferSize memMap w in
      if EFI_ERROR res then exit_bs_loop bs imageHandle bufferSize memMap n res w1
      else let (res, w2) = ExitBootServices bs imageHandle (map_key (mem w1) memMap) w1 in
      if \<not> EFI_ERROR res then (res, w2)
      else exit_bs_loop bs imageHandle bufferSize memMap n res w2)"

text \<open>When all attempts failed: a last one with a new buffer for the memory map.\<close>

definition last_exit :: "'f boot_services \<Rightarrow> boot_frame \<Rightarrow> addr \<Rightarrow> u64 \<Rightarrow> status \<Rightarrow> 'f world \<Rightarrow> status \<times> 'f world" where
  "last_exit bs fr imageHandle bufferSize res w =
     (if EFI_ERROR res then
        let ((res, _), v) = efi_get_memmap bs (f_memMap fr) bufferSize (efi_free_memmap bs (f_memMap fr) w) in
        if EFI_ERROR res then (res, v)
        else ExitBootServices bs imageHandle (map_key (mem v) (f_memMap fr)) v
      else (res, w))"

text \<open>From the exit of the boot services on: no way back to the firmware.\<close>

definition leave_firmware :: "'f boot_services \<Rightarrow> boot_frame \<Rightarrow> addr \<Rightarrow> addr \<Rightarrow> addr \<Rightarrow> u64 \<Rightarrow> status \<Rightarrow> 'f world \<Rightarrow>
    (boot_outcome \<times> 'f world) option" where
  "leave_firmware bs fr imageHandle pml4Addr bootInfo bufferSize res w =
     (let (res, w1) = exit_bs_loop bs imageHandle bufferSize (f_memMap fr) EXIT_BS_MAX_ATTEMPTS res w;
          (res, w2) = last_exit bs fr imageHandle bufferSize res w1 in
      if EFI_ERROR res then Some (Halted, w2)
      else case bi_update_memmap (f_memMap fr) (bi_pMemMap (mem w2) bootInfo) (mem w2) of None \<Rightarrow> None
      | Some (res, m) \<Rightarrow>
        let w3 = w2\<lparr>mem := m\<rparr> in
        if EFI_ERROR res then Some (Halted, w3)
        else Some (Entered pml4Addr bootInfo (info_entry (mem w3) (f_elfInfo fr)), w3))"

text \<open>The labels \<^verbatim>\<open>err_free_loadedBin\<close>, \<^verbatim>\<open>err_free_map\<close> and \<^verbatim>\<open>err_free_pageTables\<close>; each falls through to the one before.\<close>

definition err_free_loadedBin :: "'f boot_services \<Rightarrow> boot_frame \<Rightarrow> 'f world \<Rightarrow> 'f world" where
  "err_free_loadedBin bs fr w =
     free_config bs (f_bootConfig fr) (elf_free_loadinfo bs (f_elfInfo fr) (elf_free_sections bs (f_elfInfo fr) w))"

definition err_free_map :: "'f boot_services \<Rightarrow> boot_frame \<Rightarrow> 'f world \<Rightarrow> 'f world" where
  "err_free_map bs fr w = err_free_loadedBin bs fr (efi_free_memmap bs (f_memMap fr) w)"

definition err_free_pageTables :: "'f boot_services \<Rightarrow> boot_frame \<Rightarrow> addr \<Rightarrow> 'f world \<Rightarrow> 'f world" where
  "err_free_pageTables bs fr pml4 w =
     err_free_map bs fr (snd (FreePages bs pml4 1 (mem_free_tables bs pml4 w)))"

definition efi_main :: "'f boot_services \<Rightarrow> ('f world \<Rightarrow> 'f world) \<Rightarrow> boot_frame \<Rightarrow> addr \<Rightarrow> 'f world \<Rightarrow>
    (boot_outcome \<times> 'f world) option" where
  "efi_main bs InitializeLib fr imageHandle w =
     (let w0 = InitializeLib w;
          m = ZeroMem (ZeroMem (ZeroMem (mem w0) (f_bootConfig fr) 24) (f_elfInfo fr) 24) (f_memMap fr) 40 in
      case load_boot_bin bs imageHandle (f_bootConfig fr) (f_elfInfo fr) (f_ehdr fr) (w0\<lparr>mem := m\<rparr>) of None \<Rightarrow> None
      | Some (res, w1) \<Rightarrow>
      if EFI_ERROR res then Some (Returned res, w1)
      else let ((res, memMapBufferSize), w2) = efi_get_memmap bs (f_memMap fr) 0 w1 in
      if EFI_ERROR res then Some (Returned res, err_free_loadedBin bs fr w2)
      else let ((res, pml4Addr), w3) = AllocatePages bs AllocateAnyPages EfiLoaderData 1 0 w2 in
      if EFI_ERROR res then Some (Returned res, err_free_map bs fr w3)
      else let w4 = w3\<lparr>mem := ZeroMem (mem w3) pml4Addr 0x1000\<rparr> in
      case map_memory bs pml4Addr (f_memMap fr) (f_elfInfo fr) w4 of None \<Rightarrow> None
      | Some (res, w5) \<Rightarrow>
      if EFI_ERROR res then Some (Returned res, err_free_pageTables bs fr pml4Addr w5)
      else let ((res, bootInfo), w6) = bi_build_bootinfo bs (f_elfInfo fr) 0 w5 in
      if EFI_ERROR res then Some (Returned res, err_free_pageTables bs fr pml4Addr w6)
      else leave_firmware bs fr imageHandle pml4Addr bootInfo memMapBufferSize res w6)"

section \<open>How the boot loader ends\<close>

text \<open>\<open>exited bs h w\<close>: the world \<open>w\<close> is the result of a successful \<^verbatim>\<open>ExitBootServices\<close>.\<close>

definition exited :: "'f boot_services \<Rightarrow> addr \<Rightarrow> 'f world \<Rightarrow> bool" where
  "exited bs imageHandle w \<longleftrightarrow> (\<exists>key w0 st. ExitBootServices bs imageHandle key w0 = (st, w) \<and> \<not> EFI_ERROR st)"

lemma exit_bs_loop_exited:
  "exit_bs_loop bs h n mm k res w = (res', w') \<Longrightarrow> \<not> EFI_ERROR res' \<Longrightarrow> k \<noteq> 0 \<Longrightarrow> exited bs h w'"
proof (induction k arbitrary: res w)
  case (Suc k)
  obtain r1 w1 where r1: "efi_get_memmap_norealloc bs n mm w = (r1, w1)" by fastforce
  obtain r2 w2 where r2: "ExitBootServices bs h (map_key (mem w1) mm) w1 = (r2, w2)" by fastforce
  show ?case
  proof (cases "EFI_ERROR r1 \<or> EFI_ERROR r2")
    case False
    then have "w' = w2" using Suc.prems(1) r1 r2 by simp
    then show ?thesis using False r2 unfolding exited_def by blast
  next
    case True
    then obtain r v where "exit_bs_loop bs h n mm k r v = (res', w')" "EFI_ERROR r"
      using Suc.prems(1) r1 r2 by (auto split: if_splits)
    then show ?thesis using Suc.IH Suc.prems(2) by (cases k) auto
  qed
qed simp

text \<open>What the kernel finds: the world the exit left, with the converted memory map, and the registers of the jump.\<close>

definition kernel_entered :: "'f boot_services \<Rightarrow> boot_frame \<Rightarrow> addr \<Rightarrow> addr \<Rightarrow> addr \<Rightarrow> 'f world \<Rightarrow> bool" where
  "kernel_entered bs fr imageHandle bootInfo entry w \<longleftrightarrow>
     (\<exists>v st m. exited bs imageHandle v \<and> bi_update_memmap (f_memMap fr) (bi_pMemMap (mem v) bootInfo) (mem v) = Some (st, m) \<and>
        \<not> EFI_ERROR st \<and> w = v\<lparr>mem := m\<rparr> \<and> entry = info_entry m (f_elfInfo fr))"

lemma kernel_enteredI:
  "exited bs h v \<Longrightarrow> bi_update_memmap (f_memMap fr) (bi_pMemMap (mem v) bi) (mem v) = Some (st, m) \<Longrightarrow> \<not> EFI_ERROR st \<Longrightarrow>
   kernel_entered bs fr h bi (info_entry m (f_elfInfo fr)) (v\<lparr>mem := m\<rparr>)"
  unfolding kernel_entered_def by blast

lemma leave_firmware_outcome:
  assumes "leave_firmware bs fr h pml4 bi n res w = Some (out, w')"
  shows "out = Halted \<or> (\<exists>t. out = Entered pml4 bi t \<and> kernel_entered bs fr h bi t w')"
proof -
  obtain r1 w1 where l: "exit_bs_loop bs h n (f_memMap fr) EXIT_BS_MAX_ATTEMPTS res w = (r1, w1)" by fastforce
  obtain r2 w2 where r2: "last_exit bs fr h n r1 w1 = (r2, w2)" by fastforce
  have ex: "exited bs h w2" if "\<not> EFI_ERROR r2"
  proof (cases "EFI_ERROR r1")
    case True
    then show ?thesis using r2 that unfolding last_exit_def exited_def by (auto simp: Let_def split: prod.splits if_splits)
  next
    case False
    then show ?thesis using exit_bs_loop_exited [OF l] r2 by (simp add: last_exit_def EXIT_BS_MAX_ATTEMPTS_def)
  qed
  show ?thesis
    using assms ex by (auto simp: leave_firmware_def l r2 Let_def split: if_splits option.splits)
      (erule notE, rule kernel_enteredI, assumption+)
qed

text \<open>
  C13: \<open>efi_main\<close> gives control back to the firmware only with an error status.  When it enters the kernel, the last call of a boot service
  was a successful \<^verbatim>\<open>ExitBootServices\<close>: the world is the one that call left, but for the memory map that was converted in place, and the entry
  point is the one the loader stored.
\<close>

theorem efi_main_outcome:
  assumes "efi_main bs InitializeLib fr imageHandle w = Some (out, w')"
  shows "(\<forall>st. out = Returned st \<longrightarrow> EFI_ERROR st) \<and>
    (\<forall>pml4 bootInfo entry. out = Entered pml4 bootInfo entry \<longrightarrow> kernel_entered bs fr imageHandle bootInfo entry w')"
  using assms
  by (auto simp: efi_main_def Let_def dest: leave_firmware_outcome split: if_splits prod.splits option.splits)

theorem efi_main_outcome_witness:
  "\<exists>w'. efi_main null_bs id \<lparr>f_bootConfig = 0x100, f_elfInfo = 0x200, f_memMap = 0x300, f_ehdr = 0x400\<rparr> 1
      \<lparr>mem = \<lambda>_. 0, fw = ()\<rparr> = Some (Returned EFI_UNSUPPORTED, w') \<and> EFI_ERROR EFI_UNSUPPORTED"
proof -
  let ?fr = "\<lparr>f_bootConfig = 0x100, f_elfInfo = 0x200, f_memMap = 0x300, f_ehdr = 0x400\<rparr>"
  have "\<exists>w'. efi_main null_bs id ?fr 1 \<lparr>mem = \<lambda>_. 0, fw = ()\<rparr> = Some (Returned EFI_UNSUPPORTED, w')"
    by (simp add: efi_main_def load_boot_bin_def parse_config_def open_config_file_def null_bs_def Let_def)
  then obtain w' where "efi_main null_bs id ?fr 1 \<lparr>mem = \<lambda>_. 0, fw = ()\<rparr> = Some (Returned EFI_UNSUPPORTED, w')" ..
  from efi_main_outcome [OF this] this show ?thesis by blast
qed

end
