(* ===== verification/Boot_Map.thy ===== *)
theory Boot_Map
  imports Boot_Main
begin

text \<open>
  What \<open>map_memory\<close> leaves in the page tables.  The abstract specification is a list of requests, read off the memory map and the section array, each
  of which overrides the translation of a range of virtual pages; the tables after the function translate as the requests say, the last one
  for a page deciding.
\<close>

section \<open>Requests\<close>

type_synonym request = "addr \<times> addr \<times> u64"

text \<open>A request \<open>(va, pa, n)\<close> maps \<open>n\<close> pages from \<open>va\<close> on to the frames from \<open>pa\<close> on; virtual page numbers have 36 bits and wrap.\<close>

definition map_request :: "request \<Rightarrow> (addr \<Rightarrow> addr option) \<Rightarrow> addr \<Rightarrow> addr option" where
  "map_request r tr v = (let (va, pa, n) = r; k = (vpn v + 2 ^ 36 - vpn va) mod 2 ^ 36
     in if k < unat n then Some (pa + 0x1000 * of_nat k) else tr v)"

definition request_ok :: "request \<Rightarrow> bool" where
  "request_ok r \<longleftrightarrow> (let (va, pa, n) = r in page_aligned va \<and> page_aligned pa \<and> unat pa + 0x1000 * unat n \<le> 2 ^ 52 \<and> unat n \<le> 2 ^ 36)"

lemma vpn_less: "vpn v < 2 ^ 36"
  by (simp add: vpn_def)

lemma vpn_offset:
  assumes "page_aligned va"
  shows "vpn (va + 0x1000 * of_nat k) = (vpn va + k) mod 2 ^ 36"
  unfolding vpn_add_pages [OF assms] by (simp add: vpn_def mod_add_left_eq)

lemma vpn_index:
  assumes "page_aligned va" "k < 2 ^ 36"
  shows "vpn v = vpn (va + 0x1000 * of_nat k) \<longleftrightarrow> k = (vpn v + 2 ^ 36 - vpn va) mod 2 ^ 36"
proof -
  have v: "vpn v < 2 ^ 36" "vpn va < 2 ^ 36" by (rule vpn_less)+
  show ?thesis
  proof (cases "vpn va + k < 2 ^ 36")
    case True
    then have "vpn (va + 0x1000 * of_nat k) = vpn va + k" by (simp add: vpn_offset [OF assms(1)])
    moreover have "(vpn v + 2 ^ 36 - vpn va) mod 2 ^ 36 = (if vpn va \<le> vpn v then vpn v - vpn va else vpn v + 2 ^ 36 - vpn va)"
      using v by (auto simp: mod_if)
    ultimately show ?thesis using True v assms(2) by auto
  next
    case False
    then have "vpn (va + 0x1000 * of_nat k) = vpn va + k - 2 ^ 36" using v assms(2) by (simp add: vpn_offset [OF assms(1)] mod_if)
    moreover have "(vpn v + 2 ^ 36 - vpn va) mod 2 ^ 36 = (if vpn va \<le> vpn v then vpn v - vpn va else vpn v + 2 ^ 36 - vpn va)"
      using v by (auto simp: mod_if)
    ultimately show ?thesis using False v assms(2) by auto
  qed
qed

lemma translate_vpn: "vpn u = vpn v \<Longrightarrow> translate m root u = translate m root v"
  by (simp add: translate_def path_of_eq_iff [symmetric])

text \<open>The state after a list of requests was carried out: \<open>res\<close> is the status, and only a failing \<^verbatim>\<open>AllocatePages\<close> can make it an error.\<close>

definition maps_all :: "addr set \<Rightarrow> ('f \<Rightarrow> addr set) \<Rightarrow> 'f boot_services \<Rightarrow> addr \<Rightarrow> request list \<Rightarrow> 'f world \<Rightarrow> status \<Rightarrow> 'f world \<Rightarrow> bool" where
  "maps_all D owned bs root R w res w' \<longleftrightarrow> pt_ok D owned root w' \<and> keeps_pages D (mem w) (mem w') \<and>
     (res = EFI_SUCCESS \<or> alloc_failed bs res) \<and>
     (res = EFI_SUCCESS \<longrightarrow> translate (mem w') root = fold map_request R (translate (mem w) root))"

lemma maps_all_Nil: "pt_ok D owned root w \<Longrightarrow> maps_all D owned bs root [] w EFI_SUCCESS w"
  by (simp add: maps_all_def)

lemma maps_all_append:
  "maps_all D owned bs root R w EFI_SUCCESS w1 \<Longrightarrow> maps_all D owned bs root R' w1 res w' \<Longrightarrow> maps_all D owned bs root (R @ R') w res w'"
  by (auto simp: maps_all_def intro: keeps_pages_trans)

lemma maps_all_error:
  "maps_all D owned bs root R w res w' \<Longrightarrow> EFI_ERROR res \<Longrightarrow> maps_all D owned bs root (R @ R') w res w'"
  by (auto simp: maps_all_def)

lemma maps_all_status: "maps_all D owned bs root R w res w' \<Longrightarrow> \<not> EFI_ERROR res \<Longrightarrow> res = EFI_SUCCESS"
  by (auto simp: maps_all_def alloc_failed_def)

lemma mem_map_pages_request:
  assumes fresh: "allocates_fresh_pages bs owned" and ok: "pt_ok D owned root w" and root: "root \<noteq> 0" and r: "request_ok (va, pa, n)"
    and run: "mem_map_pages bs root va pa n w = (res, w')"
  shows "maps_all D owned bs root [(va, pa, n)] w res w'"
proof -
  have r': "page_aligned va" "page_aligned pa" "unat pa + 0x1000 * unat n \<le> 2 ^ 52" "unat n \<le> 2 ^ 36" using r by (simp_all add: request_ok_def)
  have "mem_map_pages_loop bs root va pa (unat n) w = (res, w')"
    using run root r'(1,2) by (simp add: mem_map_pages_def page_aligned_def)
  note l = mem_map_pages_loop_ok [OF fresh root ok r' this]
  have "translate (mem w') root v = map_request (va, pa, n) (translate (mem w) root) v" if s: "res = EFI_SUCCESS" for v
  proof -
    let ?k = "(vpn v + 2 ^ 36 - vpn va) mod 2 ^ 36"
    have ix: "vpn v = vpn (va + 0x1000 * of_nat k) \<longleftrightarrow> k = ?k" if "k < unat n" for k
      using vpn_index [OF r'(1), of k v] that r'(4) by simp
    show ?thesis
    proof (cases "?k < unat n")
      case True
      then have "translate (mem w') root v = translate (mem w') root (va + 0x1000 * of_nat ?k)" using ix by (intro translate_vpn) blast
      also have "\<dots> = Some (pa + 0x1000 * of_nat ?k)" using l s True by blast
      finally show ?thesis using True by (simp add: map_request_def)
    next
      case False
      then have "\<forall>k < unat n. vpn v \<noteq> vpn (va + 0x1000 * of_nat k)" using ix by blast
      then show ?thesis using l False by (simp add: map_request_def)
    qed
  qed
  then show ?thesis using l by (auto simp: maps_all_def)
qed

section \<open>The requests of the boot loader\<close>

definition desc_requests :: "memory \<Rightarrow> addr \<Rightarrow> u64 \<Rightarrow> request list" where
  "desc_requests m memMap i = (let desc = efi_desc m memMap i; base = read64 m (desc + 8); pages = read64 m (desc + 24)
     in if skipped_type (read32 m desc) then [] else [(base, base, pages), (base + DIRECT_MAP_BASE, base, pages)])"

definition section_request :: "memory \<Rightarrow> addr \<Rightarrow> u64 \<Rightarrow> request" where
  "section_request m loadInfo i = (let section = info_sections m loadInfo + i * sizeof_section
     in (sec_reqVirt m section, sec_phys m section, sec_pageCount m section))"

definition desc_count :: "memory \<Rightarrow> addr \<Rightarrow> nat" where
  "desc_count m memMap = unat (map_size m memMap div map_descSize m memMap)"

definition memory_requests :: "memory \<Rightarrow> addr \<Rightarrow> addr \<Rightarrow> request list" where
  "memory_requests m memMap loadInfo =
     concat (map (\<lambda>i. desc_requests m memMap (of_nat i)) [0..<desc_count m memMap]) @
     map (\<lambda>i. section_request m loadInfo (of_nat i)) [0..<unat (info_sectionCount m loadInfo)]"

text \<open>All that \<open>map_memory\<close> reads lies in the pages \<open>D\<close>.\<close>

definition in_pages :: "addr set \<Rightarrow> addr \<Rightarrow> nat \<Rightarrow> bool" where
  "in_pages D a n \<longleftrightarrow> (\<forall>x. in_range a n x \<longrightarrow> page_of x \<in> D)"

definition boot_data :: "addr set \<Rightarrow> memory \<Rightarrow> addr \<Rightarrow> addr \<Rightarrow> bool" where
  "boot_data D m memMap loadInfo \<longleftrightarrow> in_pages D memMap 40 \<and> in_pages D loadInfo 24 \<and>
     (\<forall>i < desc_count m memMap. in_pages D (efi_desc m memMap (of_nat i)) 40) \<and>
     (\<forall>i < unat (info_sectionCount m loadInfo). in_pages D (info_sections m loadInfo + of_nat i * sizeof_section) 32)"

lemma read64_kept:
  assumes "keeps_pages D m m'" "in_pages D a n" "j + 8 \<le> n" "n \<le> 2 ^ 64"
  shows "read64 m' (a + of_nat j) = read64 m (a + of_nat j)"
  by (rule read64_agree [of a n]) (use assms in \<open>auto simp: keeps_pages_def in_pages_def\<close>)

lemma boot_data_kept:
  assumes k: "keeps_pages D m m'" and b: "boot_data D m memMap loadInfo"
  shows "map_size m' memMap = map_size m memMap" "map_descSize m' memMap = map_descSize m memMap" "efi_desc m' memMap i = efi_desc m memMap i"
    "info_sectionCount m' loadInfo = info_sectionCount m loadInfo" "info_sections m' loadInfo = info_sections m loadInfo"
    "desc_count m' memMap = desc_count m memMap"
  using read64_kept [OF k, of memMap 40 8] read64_kept [OF k, of memMap 40 24] read64_kept [OF k, of memMap 40 0]
    read64_kept [OF k, of loadInfo 24 8] read64_kept [OF k, of loadInfo 24 16] b
  by (simp_all add: boot_data_def map_size_def map_descSize_def map_descs_def efi_desc_def info_sectionCount_def info_sections_def desc_count_def)

lemma requests_kept:
  assumes k: "keeps_pages D m m'" and b: "boot_data D m memMap loadInfo"
  shows "i < desc_count m memMap \<Longrightarrow> read32 m' (efi_desc m memMap (of_nat i)) = read32 m (efi_desc m memMap (of_nat i))"
    "i < desc_count m memMap \<Longrightarrow> read64 m' (efi_desc m memMap (of_nat i) + 8) = read64 m (efi_desc m memMap (of_nat i) + 8)"
    "i < desc_count m memMap \<Longrightarrow> read64 m' (efi_desc m memMap (of_nat i) + 24) = read64 m (efi_desc m memMap (of_nat i) + 24)"
    "i < unat (info_sectionCount m loadInfo) \<Longrightarrow> section_request m' loadInfo (of_nat i) = section_request m loadInfo (of_nat i)"
proof -
  let ?d = "efi_desc m memMap (of_nat i)"
  show "read32 m' ?d = read32 m ?d" if "i < desc_count m memMap"
  proof -
    have "in_pages D ?d 40" using b that by (simp add: boot_data_def)
    then have "m' (?d + of_nat j) = m (?d + of_nat j)" if "j < 4" for j
      using k that in_range_offset [of j 40 ?d] by (simp add: keeps_pages_def in_pages_def)
    then show ?thesis unfolding read32_def by (intro arg_cong [where f = le_word] read_bytes_cong)
  qed
  show "read64 m' (?d + 8) = read64 m (?d + 8)" "read64 m' (?d + 24) = read64 m (?d + 24)" if "i < desc_count m memMap"
    using read64_kept [OF k, of ?d 40 8] read64_kept [OF k, of ?d 40 24] b that by (simp_all add: boot_data_def)
  let ?s = "info_sections m loadInfo + of_nat i * sizeof_section"
  show "section_request m' loadInfo (of_nat i) = section_request m loadInfo (of_nat i)" if "i < unat (info_sectionCount m loadInfo)"
    using read64_kept [OF k, of ?s 32 0] read64_kept [OF k, of ?s 32 8] read64_kept [OF k, of ?s 32 16] b that boot_data_kept(5) [OF k b]
    by (simp add: boot_data_def section_request_def Let_def sec_reqVirt_def sec_phys_def sec_pageCount_def)
qed

section \<open>The loops\<close>

lemma of_nat_less_iff_u64: "i \<le> unat n \<Longrightarrow> of_nat i < n \<longleftrightarrow> i < unat (n :: u64)"
  using unat_of_nat_u64 [of i] le_less_trans [OF _ unat_less_2p64 [of n]] by (simp add: word_less_nat_alt)

lemma map_descs_loop_maps:
  assumes fresh: "allocates_fresh_pages bs owned" and root: "root \<noteq> 0" and b: "boot_data D m0 memMap loadInfo"
    and ok: "\<And>i r. i < desc_count m0 memMap \<Longrightarrow> r \<in> set (desc_requests m0 memMap (of_nat i)) \<Longrightarrow> request_ok r"
  shows "map_descs_loop bs root memMap (of_nat i) w = (res, w') \<Longrightarrow> i \<le> desc_count m0 memMap \<Longrightarrow> keeps_pages D m0 (mem w) \<Longrightarrow>
    pt_ok D owned root w \<Longrightarrow>
    maps_all D owned bs root (concat (map (\<lambda>i. desc_requests m0 memMap (of_nat i)) [i..<desc_count m0 memMap])) w res w'"
proof (induction "desc_count m0 memMap - i" arbitrary: i w)
  case 0
  then have i: "i = desc_count m0 memMap" by simp
  then have "\<not> of_nat i < map_size (mem w) memMap div map_descSize (mem w) memMap"
    using boot_data_kept [OF "0.prems"(3) b] by (simp add: desc_count_def)
  then have "res = EFI_SUCCESS" "w' = w" using "0.prems"(1) by (subst (asm) map_descs_loop.simps, simp)+
  then show ?case using i maps_all_Nil [OF "0.prems"(4)] by simp
next
  case (Suc d)
  let ?n = "desc_count m0 memMap" and ?d = "efi_desc m0 memMap (of_nat i)"
  let ?rest = "concat (map (\<lambda>i. desc_requests m0 memMap (of_nat i)) [Suc i..<?n])"
  have i: "i < ?n" using Suc.hyps(2) by simp
  have more: "of_nat i < map_size (mem w) memMap div map_descSize (mem w) memMap"
    using boot_data_kept [OF Suc.prems(3) b] i by (simp add: desc_count_def of_nat_less_iff_u64)
  have list: "concat (map (\<lambda>i. desc_requests m0 memMap (of_nat i)) [i..<?n]) = desc_requests m0 memMap (of_nat i) @ ?rest"
    using i by (simp add: upt_conv_Cons)
  note kept = boot_data_kept [OF Suc.prems(3) b] requests_kept(1-3) [OF Suc.prems(3) b i]
  have sd: "d = ?n - Suc i" using Suc.hyps(2) by simp
  have nxt: "of_nat i + 1 = (of_nat (Suc i) :: u64)" by simp
  show ?case
  proof (cases "skipped_type (read32 m0 ?d)")
    case True
    then have "map_descs_loop bs root memMap (of_nat (Suc i)) w = (res, w')"
      using Suc.prems(1) more by (subst (asm) map_descs_loop.simps) (simp add: kept nxt)
    then have "maps_all D owned bs root ?rest w res w'" using Suc.hyps(1) [OF sd] Suc.prems(3,4) i by simp
    moreover have "desc_requests m0 memMap (of_nat i) = []" using True by (simp add: desc_requests_def)
    ultimately show ?thesis unfolding list by simp
  next
    case False
    let ?base = "read64 m0 (?d + 8)" and ?pages = "read64 m0 (?d + 24)"
    have rs: "desc_requests m0 memMap (of_nat i) = [(?base, ?base, ?pages), (?base + DIRECT_MAP_BASE, ?base, ?pages)]"
      using False by (simp add: desc_requests_def Let_def)
    have okr: "request_ok (?base, ?base, ?pages)" "request_ok (?base + DIRECT_MAP_BASE, ?base, ?pages)" using ok [OF i] rs by simp_all
    obtain r1 w1 where c1: "mem_map_pages bs root ?base ?base ?pages w = (r1, w1)" by fastforce
    note m1 = mem_map_pages_request [OF fresh Suc.prems(4) root okr(1) c1]
    then have k1: "keeps_pages D m0 (mem w1)" and p1: "pt_ok D owned root w1"
      using keeps_pages_trans [OF Suc.prems(3)] by (auto simp: maps_all_def)
    note kept1 = requests_kept(1-3) [OF k1 b i]
    obtain r2 w2 where c2: "mem_map_pages bs root (?base + DIRECT_MAP_BASE) ?base ?pages w1 = (r2, w2)" by fastforce
    note m2 = mem_map_pages_request [OF fresh p1 root okr(2) c2]
    then have k2: "keeps_pages D m0 (mem w2)" and p2: "pt_ok D owned root w2"
      using keeps_pages_trans [OF k1] by (auto simp: maps_all_def)
    have run: "(if EFI_ERROR r1 then (r1, w1) else if EFI_ERROR r2 then (r2, w2)
        else map_descs_loop bs root memMap (of_nat (Suc i)) w2) = (res, w')"
      using Suc.prems(1) more False by (subst (asm) map_descs_loop.simps) (simp add: kept kept1 c1 c2 nxt Let_def split: if_splits)
    show ?thesis
    proof (cases "EFI_ERROR r1")
      case True
      then show ?thesis using maps_all_error [OF m1 True, of "(?base + DIRECT_MAP_BASE, ?base, ?pages) # ?rest"] run by (simp add: list rs)
    next
      case s1: False
      note m12 = maps_all_append [OF m1 [unfolded maps_all_status [OF m1 s1]] m2, simplified]
      show ?thesis
      proof (cases "EFI_ERROR r2")
        case True
        then show ?thesis using maps_all_error [OF m12 True, of ?rest] run s1 by (simp add: list rs)
      next
        case s2: False
        then have "maps_all D owned bs root ?rest w2 res w'" using Suc.hyps(1) [OF sd] run s1 i k2 p2 by simp
        then show ?thesis using maps_all_append [OF m12 [unfolded maps_all_status [OF m2 s2]]] by (simp add: list rs)
      qed
    qed
  qed
qed

lemma map_sections_loop_maps:
  assumes fresh: "allocates_fresh_pages bs owned" and root: "root \<noteq> 0" and b: "boot_data D m0 memMap loadInfo"
    and ok: "\<And>i. i < unat (info_sectionCount m0 loadInfo) \<Longrightarrow> request_ok (section_request m0 loadInfo (of_nat i))"
  shows "map_sections_loop bs root loadInfo (of_nat i) w = (res, w') \<Longrightarrow> i \<le> unat (info_sectionCount m0 loadInfo) \<Longrightarrow>
    keeps_pages D m0 (mem w) \<Longrightarrow> pt_ok D owned root w \<Longrightarrow>
    maps_all D owned bs root (map (\<lambda>i. section_request m0 loadInfo (of_nat i)) [i..<unat (info_sectionCount m0 loadInfo)]) w res w'"
proof (induction "unat (info_sectionCount m0 loadInfo) - i" arbitrary: i w)
  case 0
  then have i: "i = unat (info_sectionCount m0 loadInfo)" by simp
  then have "\<not> of_nat i < info_sectionCount (mem w) loadInfo" using boot_data_kept [OF "0.prems"(3) b] by simp
  then have "res = EFI_SUCCESS" "w' = w" using "0.prems"(1) by (subst (asm) map_sections_loop.simps, simp)+
  then show ?case using i maps_all_Nil [OF "0.prems"(4)] by simp
next
  case (Suc d)
  let ?n = "unat (info_sectionCount m0 loadInfo)"
  let ?rest = "map (\<lambda>i. section_request m0 loadInfo (of_nat i)) [Suc i..<?n]"
  have i: "i < ?n" using Suc.hyps(2) by simp
  have more: "of_nat i < info_sectionCount (mem w) loadInfo"
    using boot_data_kept [OF Suc.prems(3) b] i by (simp add: of_nat_less_iff_u64)
  obtain va pa n where r: "section_request m0 loadInfo (of_nat i) = (va, pa, n)" by (metis prod_cases3)
  have list: "map (\<lambda>i. section_request m0 loadInfo (of_nat i)) [i..<?n] = [(va, pa, n)] @ ?rest"
    using i r by (simp add: upt_conv_Cons)
  have "section_request (mem w) loadInfo (of_nat i) = (va, pa, n)" using requests_kept(4) [OF Suc.prems(3) b i] r by simp
  then have f: "sec_reqVirt (mem w) (info_sections (mem w) loadInfo + of_nat i * sizeof_section) = va"
    "sec_phys (mem w) (info_sections (mem w) loadInfo + of_nat i * sizeof_section) = pa"
    "sec_pageCount (mem w) (info_sections (mem w) loadInfo + of_nat i * sizeof_section) = n" by (simp_all add: section_request_def Let_def)
  obtain r1 w1 where c1: "mem_map_pages bs root va pa n w = (r1, w1)" by fastforce
  have run: "(if EFI_ERROR r1 then (r1, w1) else map_sections_loop bs root loadInfo (of_nat (Suc i)) w1) = (res, w')"
    using Suc.prems(1) more by (subst (asm) map_sections_loop.simps) (auto simp: f c1 add.commute [of 1] split: if_splits)
  note m1 = mem_map_pages_request [OF fresh Suc.prems(4) root _ c1]
  have m1: "maps_all D owned bs root [(va, pa, n)] w r1 w1" using m1 ok [OF i] r by simp
  then have k1: "keeps_pages D m0 (mem w1)" and p1: "pt_ok D owned root w1"
    using keeps_pages_trans [OF Suc.prems(3)] by (auto simp: maps_all_def)
  show ?case
  proof (cases "EFI_ERROR r1")
    case True
    then show ?thesis using maps_all_error [OF m1 True, of ?rest] run by (simp add: list)
  next
    case False
    moreover have "d = ?n - Suc i" using Suc.hyps(2) by simp
    ultimately have "maps_all D owned bs root ?rest w1 res w'" using Suc.hyps(1) [of "Suc i" w1] run i k1 p1 by simp
    then show ?thesis using maps_all_append [OF m1 [unfolded maps_all_status [OF m1 False]]] unfolding list by blast
  qed
qed

section \<open>The whole mapping\<close>

text \<open>
  C5: \<open>map_memory\<close> refines the list of requests read off the memory map and the section array: every region that is not skipped at its
  own address and again in the direct map, then the sections of the kernel.  It always returns; on success the processor translates every address
  as the last request for its page says, and as before where there is none; it fails only with an error of \<^verbatim>\<open>AllocatePages\<close>.  In
  any case the tables stay well formed and the pages with the boot data are unchanged.
\<close>

theorem map_memory_refines:
  assumes "allocates_fresh_pages bs owned" "pt_ok D owned pml4 w" "pml4 \<noteq> 0" "boot_data D (mem w) memMap loadInfo"
    and "map_descSize (mem w) memMap \<noteq> 0" "\<forall>r \<in> set (memory_requests (mem w) memMap loadInfo). request_ok r"
  shows "\<exists>res w'. map_memory bs pml4 memMap loadInfo w = Some (res, w') \<and> pt_ok D owned pml4 w' \<and> keeps_pages D (mem w) (mem w') \<and>
    (res = EFI_SUCCESS \<or> alloc_failed bs res) \<and>
    (res = EFI_SUCCESS \<longrightarrow>
       translate (mem w') pml4 = fold map_request (memory_requests (mem w) memMap loadInfo) (translate (mem w) pml4))"
proof -
  let ?D = "concat (map (\<lambda>i. desc_requests (mem w) memMap (of_nat i)) [0..<desc_count (mem w) memMap])"
  let ?S = "map (\<lambda>i. section_request (mem w) loadInfo (of_nat i)) [0..<unat (info_sectionCount (mem w) loadInfo)]"
  have okD: "request_ok r" if "i < desc_count (mem w) memMap" "r \<in> set (desc_requests (mem w) memMap (of_nat i))" for i r
    using assms(6) that by (fastforce simp: memory_requests_def)
  have okS: "request_ok (section_request (mem w) loadInfo (of_nat i))" if "i < unat (info_sectionCount (mem w) loadInfo)" for i
    using assms(6) that by (fastforce simp: memory_requests_def)
  obtain r1 w1 where c1: "map_descs_loop bs pml4 memMap (of_nat 0) w = (r1, w1)" by fastforce
  have m1: "maps_all D owned bs pml4 ?D w r1 w1"
    by (rule map_descs_loop_maps [OF assms(1,3,4) okD c1]) (simp_all add: assms(2))
  obtain r2 w2 where c2: "map_sections_loop bs pml4 loadInfo (of_nat 0) w1 = (r2, w2)" by fastforce
  have m2: "maps_all D owned bs pml4 ?S w1 r2 w2"
    by (rule map_sections_loop_maps [OF assms(1,3,4) okS c2]) (use m1 in \<open>simp_all add: maps_all_def\<close>)
  have "\<exists>res w'. map_memory bs pml4 memMap loadInfo w = Some (res, w') \<and> maps_all D owned bs pml4 (?D @ ?S) w res w'"
  proof (cases "EFI_ERROR r1")
    case True
    then show ?thesis using maps_all_error [OF m1 True] c1 assms(5) by (simp add: map_memory_def)
  next
    case False
    note m12 = maps_all_append [OF m1 [unfolded maps_all_status [OF m1 False]] m2]
    show ?thesis
    proof (cases "EFI_ERROR r2")
      case True
      then show ?thesis using m12 False c1 c2 assms(5) by (simp add: map_memory_def)
    next
      case s2: False
      then show ?thesis using m12 [unfolded maps_all_status [OF m2 s2]] False c1 c2 assms(5) by (simp add: map_memory_def)
    qed
  qed
  then show ?thesis unfolding maps_all_def memory_requests_def by blast
qed

text \<open>A kernel with one section of one page at \<^verbatim>\<open>0x400000\<close>, loaded at \<^verbatim>\<open>0x200000\<close>, and an empty memory map.\<close>

definition map_demo :: memory where
  "map_demo = (\<lambda>_. 0)(0x2018 := 40, 0x2108 := 1, 0x2111 := 0x30, 0x3002 := 0x20, 0x300A := 0x40, 0x3010 := 1)"

lemma map_demo_fields:
  "map_size map_demo 0x2000 = 0" "map_descSize map_demo 0x2000 = 40" "info_sectionCount map_demo 0x2100 = 1"
  "info_sections map_demo 0x2100 = 0x3000" "section_request map_demo 0x2100 0 = (0x400000, 0x200000, 1)"
proof -
  show "map_size map_demo 0x2000 = 0" "map_descSize map_demo 0x2000 = 40" "info_sectionCount map_demo 0x2100 = 1"
    "info_sections map_demo 0x2100 = 0x3000"
    by (simp_all add: map_demo_def map_size_def map_descSize_def info_sectionCount_def info_sections_def read64_def eval_simps)
  then show "section_request map_demo 0x2100 0 = (0x400000, 0x200000, 1)"
    by (simp add: section_request_def sec_reqVirt_def sec_phys_def sec_pageCount_def)
      (simp add: map_demo_def read64_def eval_simps)
qed

lemma map_demo_ok:
  "pt_ok {0x2000, 0x3000} bump_owned 0x1000 \<lparr>mem = map_demo, fw = 0x5000\<rparr>" "boot_data {0x2000, 0x3000} map_demo 0x2000 0x2100"
  "memory_requests map_demo 0x2000 0x2100 = [(0x400000, 0x200000, 1)]" "table_rd map_demo 0x1000 i = 0 \<or> \<not> i < 512"
proof -
  have z: "table_rd map_demo 0x1000 i = 0" if "i < 512" for i
  proof -
    have "table_rd map_demo 0x1000 i = table_rd (\<lambda>_. 0) 0x1000 i"
      by (rule table_rd_cong) (use that in \<open>auto simp: page_aligned_def map_demo_def in_range_def\<close>)
    then show ?thesis by (simp add: zero_table_rd)
  qed
  then show "table_rd map_demo 0x1000 i = 0 \<or> \<not> i < 512" by blast
  show "pt_ok {0x2000, 0x3000} bump_owned 0x1000 \<lparr>mem = map_demo, fw = 0x5000\<rparr>"
    unfolding pt_ok_def using z by (auto simp: bump_owned_def page_aligned_def intro!: wf_empty_root)
  have "in_pages {0x2000, 0x3000} 0x2000 40" "in_pages {0x2000, 0x3000} 0x2100 24" "in_pages {0x2000, 0x3000} 0x3000 32"
    using page_of_in_range [of "0x2000"] page_of_in_range [of "0x3000"] in_range_sub [of "0x2000" "0x100" 24 _ 4096]
    by (auto simp: in_pages_def page_aligned_def in_range_def)
  then show "boot_data {0x2000, 0x3000} map_demo 0x2000 0x2100"
    by (simp add: boot_data_def desc_count_def map_demo_fields)
  show "memory_requests map_demo 0x2000 0x2100 = [(0x400000, 0x200000, 1)]"
    by (simp add: memory_requests_def desc_count_def map_demo_fields)
qed

lemma map_demo_success:
  obtains w' where "map_memory bump_bs 0x1000 0x2000 0x2100 \<lparr>mem = map_demo, fw = 0x5000\<rparr> = Some (EFI_SUCCESS, w')"
proof -
  define w :: "addr world" where "w = \<lparr>mem = map_demo, fw = 0x5000\<rparr>"
  obtain r w1 where c: "mem_map_pages bump_bs 0x1000 0x400000 0x200000 1 w = (r, w1)" by fastforce
  have "fst (mem_map_pages bump_bs 0x1000 0x400000 0x200000 1 w) = EFI_SUCCESS"
    by (simp add: mem_map_pages_def mem_map_page_def ensure_table_def w_def bump_bs_eval table_eval Let_def map_demo_ok(4) [of 0, simplified])
  then have r: "r = EFI_SUCCESS" using c by simp
  have "request_ok (0x400000, 0x200000, 1)" by (simp add: request_ok_def page_aligned_def)
  from mem_map_pages_request [OF bump_fresh map_demo_ok(1) _ this c [unfolded w_def]]
  have "keeps_pages {0x2000, 0x3000} map_demo (mem w1)" by (simp add: maps_all_def)
  from boot_data_kept(4) [OF this map_demo_ok(2)] have cnt: "info_sectionCount (mem w1) 0x2100 = 1" by (simp add: map_demo_fields)
  have f: "sec_reqVirt map_demo 0x3000 = 0x400000" "sec_phys map_demo 0x3000 = 0x200000" "sec_pageCount map_demo 0x3000 = 1"
    using map_demo_fields(4,5) by (simp_all add: section_request_def Let_def)
  have "map_sections_loop bump_bs 0x1000 0x2100 1 w1 = (EFI_SUCCESS, w1)" by (subst map_sections_loop.simps) (simp add: cnt)
  then have "map_sections_loop bump_bs 0x1000 0x2100 0 w = (EFI_SUCCESS, w1)"
    using c r by (subst map_sections_loop.simps) (simp add: w_def map_demo_fields f)
  moreover have "map_descs_loop bump_bs 0x1000 0x2000 0 w = (EFI_SUCCESS, w)"
    by (subst map_descs_loop.simps) (simp add: w_def map_demo_fields)
  ultimately show thesis using that by (simp add: map_memory_def w_def map_demo_fields)
qed

theorem map_memory_refines_witness:
  "\<exists>w'. map_memory bump_bs 0x1000 0x2000 0x2100 \<lparr>mem = map_demo, fw = 0x5000\<rparr> = Some (EFI_SUCCESS, w') \<and>
     translate (mem w') 0x1000 0x400123 = Some 0x200000"
proof -
  let ?w = "\<lparr>mem = map_demo, fw = 0x5000\<rparr> :: addr world"
  obtain w' where run: "map_memory bump_bs 0x1000 0x2000 0x2100 ?w = Some (EFI_SUCCESS, w')" by (rule map_demo_success)
  have rq: "\<forall>r \<in> set (memory_requests (mem ?w) 0x2000 0x2100). request_ok r"
    by (simp add: map_demo_ok request_ok_def page_aligned_def)
  have "translate (mem w') 0x1000 = fold map_request (memory_requests map_demo 0x2000 0x2100) (translate map_demo 0x1000)"
    using map_memory_refines [OF bump_fresh map_demo_ok(1) _ _ _ rq] run by (simp add: map_demo_ok(2) map_demo_fields)
  then have "translate (mem w') 0x1000 0x400123 = Some 0x200000"
    by (simp add: map_demo_ok map_request_def vpn_def)
  then show ?thesis using run by blast
qed

end
