(* ===== verification/Elf_Load.thy ===== *)
theory Elf_Load
  imports Boot_Elf
begin

text \<open>
  What the ELF loader achieves: after \<open>elf_load_file\<close> every loadable segment of the file is in memory, followed by zeros up to the end of its
  last page, and described by an entry of the section array.  The theory states what the file and pool services promise, decodes a file
  into its segments, and proves the two stages of the loader, the headers and the segments, one after the other.
\<close>

section \<open>Segments of a file\<close>

record segment =
  g_type :: u32
  g_flags :: u32
  g_offset :: u64
  g_vaddr :: u64
  g_filesz :: u64
  g_memsz :: u64

definition segment_at :: "memory \<Rightarrow> addr \<Rightarrow> segment" where
  "segment_at m a = \<lparr>g_type = p_type m a, g_flags = p_flags m a, g_offset = p_offset m a, g_vaddr = p_vaddr m a,
     g_filesz = p_filesz m a, g_memsz = p_memsz m a\<rparr>"

text \<open>The file as an image at address 0, so that the accessors of the loader read its headers.\<close>

definition file_image :: "u8 list \<Rightarrow> memory" where
  "file_image c = (\<lambda>a. if unat a < length c then c ! unat a else 0)"

definition file_segments :: "u8 list \<Rightarrow> segment list" where
  "file_segments c = filter (\<lambda>g. g_type g = PT_LOAD)
     (map (\<lambda>i. segment_at (file_image c) (phdr_at (file_image c) 0 (e_phoff (file_image c) 0) (of_nat i))) [0..<unat (e_phnum (file_image c) 0)])"

text \<open>
  A file the loader is meant for: a 64-bit x86 executable whose program headers and segments lie inside the file; no segment has
  more bytes in the file than in memory, and sizes are far from the end of the address space.
\<close>

definition segment_ok :: "u8 list \<Rightarrow> segment \<Rightarrow> bool" where
  "segment_ok c g \<longleftrightarrow> unat (g_offset g) + unat (g_filesz g) \<le> length c \<and> unat (g_filesz g) \<le> unat (g_memsz g) \<and>
     unat (g_memsz g) < 2 ^ 52"

definition elf_ok :: "u8 list \<Rightarrow> bool" where
  "elf_ok c \<longleftrightarrow> 64 \<le> length c \<and> length c < 2 ^ 31 \<and> elf_verify_ehdr (file_image c) 0 = EFI_SUCCESS \<and> 56 \<le> e_phentsize (file_image c) 0 \<and>
     unat (e_phoff (file_image c) 0) + unat (e_phnum (file_image c) 0) * unat (e_phentsize (file_image c) 0) \<le> length c \<and>
     (\<forall>g \<in> set (file_segments c). segment_ok c g)"

text \<open>A section entry describes a loaded segment.\<close>

definition loaded :: "memory \<Rightarrow> addr \<Rightarrow> u8 list \<Rightarrow> segment \<Rightarrow> bool" where
  "loaded m s c g \<longleftrightarrow> sec_reqVirt m s = g_vaddr g \<and> sec_flags m s = g_flags g \<and> sec_pageCount m s = pages_for (g_memsz g) \<and>
     read_bytes m (sec_phys m s) (0x1000 * unat (pages_for (g_memsz g))) =
       take (unat (g_filesz g)) (drop (unat (g_offset g)) c) @
       replicate (0x1000 * unat (pages_for (g_memsz g)) - unat (g_filesz g)) 0"

section \<open>What the file services promise\<close>

text \<open>
  The file has the contents \<open>c\<close> and a position.  \<^verbatim>\<open>SetPosition\<close> moves the position (the value \<^verbatim>\<open>0xFFFFFFFFFFFFFFFF\<close> means the end of the file), \<^verbatim>\<open>Read\<close>
  delivers the bytes from there on, as many as there are.  Neither changes memory in use but the buffer, nor takes memory back.
\<close>

definition serves_file :: "'f boot_services \<Rightarrow> addr \<Rightarrow> u8 list \<Rightarrow> ('f \<Rightarrow> nat) \<Rightarrow> ('f \<Rightarrow> addr set) \<Rightarrow> ('f \<Rightarrow> addr set) \<Rightarrow> bool" where
  "serves_file bs file c pos owned live \<longleftrightarrow>
     (\<forall>n buf w st k w'. Read bs file n buf w = ((st, k), w') \<longrightarrow>
        owned (fw w) \<subseteq> owned (fw w') \<and> live (fw w) \<subseteq> live (fw w') \<and>
        (\<not> EFI_ERROR st \<longrightarrow> (\<forall>x. page_of x \<in> owned (fw w) \<longrightarrow>
           mem w' x = write_bytes (mem w) buf (take (unat n) (drop (pos (fw w)) c)) x))) \<and>
     (\<forall>p w st w'. SetPosition bs file p w = (st, w') \<longrightarrow>
        owned (fw w) \<subseteq> owned (fw w') \<and> live (fw w) \<subseteq> live (fw w') \<and>
        (\<forall>x. page_of x \<in> owned (fw w) \<longrightarrow> mem w' x = mem w x) \<and>
        (\<not> EFI_ERROR st \<longrightarrow> p \<noteq> 0xFFFFFFFFFFFFFFFF \<longrightarrow> pos (fw w') = unat p))"

text \<open>
  The medium works, and the firmware has \<open>room f\<close> bytes to hand out: an allocation that fits succeeds and takes at most its own size,
  for pages at most one page more.
\<close>

definition page_need :: "u64 \<Rightarrow> nat" where
  "page_need n = 0x1000 * unat n + 0x1000"

definition has_room :: "'f boot_services \<Rightarrow> addr \<Rightarrow> ('f \<Rightarrow> nat) \<Rightarrow> bool" where
  "has_room bs file room \<longleftrightarrow>
     (\<forall>n buf w st k w'. Read bs file n buf w = ((st, k), w') \<longrightarrow> \<not> EFI_ERROR st \<and> room (fw w) \<le> room (fw w')) \<and>
     (\<forall>p w st w'. SetPosition bs file p w = (st, w') \<longrightarrow> \<not> EFI_ERROR st \<and> room (fw w) \<le> room (fw w')) \<and>
     (\<forall>mt n a0 w st a w'. AllocatePool bs mt n a0 w = ((st, a), w') \<longrightarrow>
        (unat n \<le> room (fw w) \<longrightarrow> \<not> EFI_ERROR st) \<and> (\<not> EFI_ERROR st \<longrightarrow> room (fw w) \<le> room (fw w') + unat n)) \<and>
     (\<forall>mt n a0 w st a w'. AllocatePages bs AllocateAnyPages mt n a0 w = ((st, a), w') \<longrightarrow>
        (page_need n \<le> room (fw w) \<longrightarrow> \<not> EFI_ERROR st) \<and> (\<not> EFI_ERROR st \<longrightarrow> room (fw w) \<le> room (fw w') + page_need n))"

text \<open>Bytes in use lie in pages that are handed out, since the pool is made of pages.\<close>

definition loader_services :: "'f boot_services \<Rightarrow> addr \<Rightarrow> u8 list \<Rightarrow> ('f \<Rightarrow> nat) \<Rightarrow> ('f \<Rightarrow> addr set) \<Rightarrow> ('f \<Rightarrow> addr set) \<Rightarrow> ('f \<Rightarrow> nat) \<Rightarrow> bool" where
  "loader_services bs file c pos owned live room \<longleftrightarrow> allocates_fresh_pages bs owned \<and> allocates_fresh_pool bs live \<and>
     serves_file bs file c pos owned live \<and> (\<forall>f. \<forall>x \<in> live f. page_of x \<in> owned f) \<and> has_room bs file room"

text \<open>The memory a file needs: its program headers, the section array and the pages of the segments.\<close>

definition segments_need :: "segment list \<Rightarrow> nat" where
  "segments_need gs = (\<Sum>g \<leftarrow> gs. page_need (pages_for (g_memsz g)))"

definition file_need :: "u8 list \<Rightarrow> nat" where
  "file_need c = unat (e_phnum (file_image c) 0) * unat (e_phentsize (file_image c) 0) + 32 * length (file_segments c) +
     segments_need (file_segments c)"

section \<open>Memory\<close>

lemma page_bytes:
  assumes "page_aligned a" "in_range a (0x1000 * n) x" "unat a + 0x1000 * n \<le> 2 ^ 64"
  obtains k where "k < n" "page_of x = a + 0x1000 * of_nat k"
proof -
  obtain j where j: "j < 0x1000 * n" "x = a + of_nat j" using assms(2) by (rule in_rangeE)
  have "unat a + j < 2 ^ 64" using assms(3) j(1) by linarith
  then have u: "unat x = unat a + j" unfolding j(2) by (rule unat_add_of_nat_u64)
  have "unat (a mod 0x1000) = 0" using assms(1) by (simp add: page_aligned_def)
  then have "unat a mod 0x1000 = 0" by (simp add: unat_mod)
  then have "unat (x mod 0x1000) = j mod 0x1000" using u by (simp add: unat_mod mod_add_eq [symmetric, of "unat a"])
  then have "x mod 0x1000 = of_nat (j mod 0x1000)" by (metis of_nat_unat_u64)
  moreover have "of_nat j = (of_nat (0x1000 * (j div 0x1000) + j mod 0x1000) :: u64)" by simp
  ultimately have "page_of x = a + 0x1000 * of_nat (j div 0x1000)"
    unfolding page_of_def j(2) by (simp only: of_nat_add of_nat_mult) simp
  moreover have "j div 0x1000 < n" using j(1) by (simp add: div_less_iff_less_mult mult.commute)
  ultimately show thesis using that by blast
qed

lemma segment_at_move:
  assumes "\<And>i. i < 56 \<Longrightarrow> m' (a + of_nat i) = m (b + of_nat i)"
  shows "segment_at m' a = segment_at m b"
proof -
  have "read_bytes m' (a + of_nat j) n = read_bytes m (b + of_nat j) n" if "j + n \<le> 56" for j n
    by (rule nth_equalityI) (use assms that in \<open>auto simp: add.assoc simp flip: of_nat_add\<close>)
  from this [of 0 4] this [of 4 4] this [of 8 8] this [of 16 8] this [of 32 8] this [of 40 8]
  show ?thesis
    by (simp add: segment_at_def p_type_def p_flags_def p_offset_def p_vaddr_def p_filesz_def p_memsz_def read32_def read64_def)
qed

lemma write_le_apply:
  "\<not> in_range a (length bs) x \<Longrightarrow> length bs \<le> 2 ^ 64 \<Longrightarrow> write_bytes m a bs x = m x"
  by (simp add: write_bytes_apply)

lemma set_section_outside:
  assumes "\<not> in_range s 32 x"
  shows "set_section m s pc paddr phdr x = m x"
proof -
  have "\<not> in_range (s + of_nat j) n x" if "j + n \<le> 32" for j n
    using assms in_range_sub [of s j n x 32] that by auto
  from this [of 16 8] this [of 0 8] this [of 8 8] this [of 24 4]
  show ?thesis by (simp add: set_section_def Let_def write64_outside write32_def write_le_apply)
qed

lemma read64_outside_le:
  "no_overlap a (length bs) b 8 \<Longrightarrow> length bs \<le> 2 ^ 64 \<Longrightarrow> read64 (write_bytes m a bs) b = read64 m b"
  by (simp add: read64_def read_write_bytes_disjoint)

lemma offsets_no_overlap:
  assumes "i + n \<le> j \<or> j + k \<le> i" "i + n \<le> 64" "j + k \<le> 64"
  shows "no_overlap (a + of_nat i) n (a + of_nat j :: addr) k"
proof (cases "i + n \<le> j")
  case True
  then have "unat ((a + of_nat j) - (a + of_nat i)) = j - i"
    using assms by (simp add: unat_sub_u64 unat_of_nat_u64)
  then show ?thesis using True assms by (intro no_overlap_distance(1)) auto
next
  case False
  then have "unat ((a + of_nat i) - (a + of_nat j)) = i - j"
    using assms by (simp add: unat_sub_u64 unat_of_nat_u64)
  then show ?thesis using False assms by (intro no_overlap_distance(2)) auto
qed

lemma set_section_fields:
  assumes "no_overlap s 32 phdr 56"
  shows "sec_phys (set_section m s pc paddr phdr) s = paddr"
    and "sec_pageCount (set_section m s pc paddr phdr) s = pc"
    and "sec_reqVirt (set_section m s pc paddr phdr) s = p_vaddr m phdr"
    and "sec_flags (set_section m s pc paddr phdr) s = p_flags m phdr"
proof -
  let ?m1 = "write64 m (s + 16) pc" let ?m2 = "write64 ?m1 s paddr"
  let ?m3 = "write64 ?m2 (s + 8) (p_vaddr ?m2 phdr)"
  have off: "no_overlap (s + 16) 8 s 8" "no_overlap (s + 8) 8 s 8" "no_overlap (s + 8) 8 (s + 16) 8" "no_overlap s 8 (s + 16) 8"
    "no_overlap (s + 24) 4 s 8" "no_overlap (s + 24) 4 (s + 8) 8" "no_overlap (s + 24) 4 (s + 16) 8"
    using offsets_no_overlap [of 16 8 0 8 s] offsets_no_overlap [of 8 8 0 8 s] offsets_no_overlap [of 8 8 16 8 s]
      offsets_no_overlap [of 0 8 16 8 s] offsets_no_overlap [of 24 4 0 8 s] offsets_no_overlap [of 24 4 8 8 s]
      offsets_no_overlap [of 24 4 16 8 s] by simp_all
  have seg: "segment_at m' phdr = segment_at m phdr" if "\<And>x. \<not> in_range s 32 x \<Longrightarrow> m' x = m x" for m'
  proof (rule segment_at_move)
    fix i :: nat assume "i < 56"
    then have "in_range phdr 56 (phdr + of_nat i)" by simp
    then have "\<not> in_range s 32 (phdr + of_nat i)" using assms by (auto simp: no_overlap_def)
    then show "m' (phdr + of_nat i) = m (phdr + of_nat i)" by (rule that)
  qed
  have out: "\<not> in_range (s + of_nat j) n x" if "j + n \<le> 32" "\<not> in_range s 32 x" for j n x
    using in_range_sub [of s j n x 32] that by auto
  have m2: "?m2 x = m x" if "\<not> in_range s 32 x" for x
    using out [of 16 8 x] out [of 0 8 x] that by (simp add: write64_outside)
  have m3: "?m3 x = m x" if "\<not> in_range s 32 x" for x
    using out [of 8 8 x] m2 [of x] that by (simp add: write64_outside)
  have vf: "p_vaddr ?m2 phdr = p_vaddr m phdr" "p_flags ?m3 phdr = p_flags m phdr"
    using seg [of ?m2, OF m2] seg [of ?m3, OF m3] by (simp_all add: segment_at_def)
  note d = set_section_def Let_def write32_def read64_outside_le vf off read64_write64_disjoint
  show "sec_phys (set_section m s pc paddr phdr) s = paddr" by (simp add: sec_phys_def d)
  show "sec_pageCount (set_section m s pc paddr phdr) s = pc" by (simp add: sec_pageCount_def d)
  show "sec_reqVirt (set_section m s pc paddr phdr) s = p_vaddr m phdr" by (simp add: sec_reqVirt_def d)
  have "read_bytes (write_bytes ?m3 (s + 24) (le_bytes 4 (p_flags m phdr))) (s + 24) 4 = le_bytes 4 (p_flags m phdr)"
    using read_write_bytes [of "le_bytes 4 (p_flags m phdr)" ?m3 "s + 24"] by simp
  then show "sec_flags (set_section m s pc paddr phdr) s = p_flags m phdr"
    by (simp add: sec_flags_def set_section_def Let_def write32_def vf vf(2) [unfolded vf(1)] read32_def le_word_le_bytes)
qed

section \<open>One segment\<close>

text \<open>Consequences of the services' promises that the loader relies on.\<close>

lemma alloc_pages_law:
  assumes "loader_services bs file c pos owned live room" "AllocatePages bs AllocateAnyPages mt n a0 w = ((st, a), w')"
  shows "page_of x \<in> owned (fw w) \<Longrightarrow> mem w' x = mem w x" and "owned (fw w) \<subseteq> owned (fw w')"
    and "\<not> EFI_ERROR st \<Longrightarrow> unat a + 0x1000 * unat n \<le> 2 ^ 64"
    and "\<not> EFI_ERROR st \<Longrightarrow> in_range a (0x1000 * unat n) x \<Longrightarrow> page_of x \<notin> owned (fw w) \<and> page_of x \<in> owned (fw w')"
proof -
  have law: "(\<forall>x. page_of x \<in> owned (fw w) \<longrightarrow> mem w' x = mem w x) \<and> owned (fw w) \<subseteq> owned (fw w') \<and>
      (\<not> EFI_ERROR st \<longrightarrow> page_aligned a \<and>
         (\<forall>k < unat n. a + 0x1000 * of_nat k \<notin> owned (fw w) \<and> a + 0x1000 * of_nat k \<in> owned (fw w') \<and>
                        unat a + 0x1000 * k < 2 ^ 52))"
    using assms unfolding loader_services_def allocates_fresh_pages_def by blast
  then show "page_of x \<in> owned (fw w) \<Longrightarrow> mem w' x = mem w x" "owned (fw w) \<subseteq> owned (fw w')" by blast+
  show fit: "unat a + 0x1000 * unat n \<le> 2 ^ 64" if "\<not> EFI_ERROR st"
  proof (cases "unat n")
    case 0
    then show ?thesis by (simp add: less_imp_le)
  next
    case (Suc k)
    then have "unat a + 0x1000 * k < 2 ^ 52" using law that by auto
    then show ?thesis using Suc by simp
  qed
  show "page_of x \<notin> owned (fw w) \<and> page_of x \<in> owned (fw w')" if "\<not> EFI_ERROR st" "in_range a (0x1000 * unat n) x"
  proof (rule page_bytes [of a "unat n" x])
    show "page_aligned a" using law that by blast
  qed (use fit law that in auto)
qed

lemma alloc_pages_room:
  assumes "loader_services bs file c pos owned live room" "AllocatePages bs AllocateAnyPages mt n a0 w = ((st, a), w')"
  shows "EFI_ERROR st \<Longrightarrow> room (fw w) < page_need n" and "\<not> EFI_ERROR st \<Longrightarrow> room (fw w) \<le> room (fw w') + page_need n"
  using assms unfolding loader_services_def has_room_def by (meson not_less)+

lemma alloc_pool_room:
  assumes "loader_services bs file c pos owned live room" "AllocatePool bs mt n a0 w = ((st, a), w')"
  shows "EFI_ERROR st \<Longrightarrow> room (fw w) < unat n" and "\<not> EFI_ERROR st \<Longrightarrow> room (fw w) \<le> room (fw w') + unat n"
  using assms unfolding loader_services_def has_room_def by (meson not_less)+

lemma file_room:
  assumes "loader_services bs file c pos owned live room"
  shows "Read bs file n buf w = ((st, k), w') \<Longrightarrow> \<not> EFI_ERROR st \<and> room (fw w) \<le> room (fw w')"
    and "SetPosition bs file p w = (st, w') \<Longrightarrow> \<not> EFI_ERROR st \<and> room (fw w) \<le> room (fw w')"
  using assms unfolding loader_services_def has_room_def by metis+

lemma SetPosition_law:
  assumes "loader_services bs file c pos owned live room" "SetPosition bs file p w = (st, w')"
  shows "owned (fw w) \<subseteq> owned (fw w')" "live (fw w) \<subseteq> live (fw w')" "page_of x \<in> owned (fw w) \<Longrightarrow> mem w' x = mem w x"
    "\<not> EFI_ERROR st \<Longrightarrow> p \<noteq> 0xFFFFFFFFFFFFFFFF \<Longrightarrow> pos (fw w') = unat p"
  using assms unfolding loader_services_def serves_file_def by blast+

lemma Read_law:
  assumes "loader_services bs file c pos owned live room" "Read bs file n buf w = ((st, k), w')"
  shows "owned (fw w) \<subseteq> owned (fw w')" "live (fw w) \<subseteq> live (fw w')"
    "\<not> EFI_ERROR st \<Longrightarrow> page_of x \<in> owned (fw w) \<Longrightarrow>
       mem w' x = write_bytes (mem w) buf (take (unat n) (drop (pos (fw w)) c)) x"
  using assms unfolding loader_services_def serves_file_def by blast+

lemma segment_kept:
  assumes "\<And>x. in_range a 56 x \<Longrightarrow> m' x = m x"
  shows "segment_at m' a = segment_at m a"
  by (rule segment_at_move) (use assms in auto)

lemma pages_hold_segment:
  assumes "segment_ok c g"
  shows "unat (pages_for (g_memsz g)) \<le> 2 ^ 40" and "unat (g_filesz g) \<le> 0x1000 * unat (pages_for (g_memsz g))"
    and "unat (pages_for (g_memsz g) * 0x1000) = 0x1000 * unat (pages_for (g_memsz g))"
proof -
  have b: "unat (g_memsz g) < 2 ^ 52" "unat (g_filesz g) \<le> unat (g_memsz g)" using assms by (simp_all add: segment_ok_def)
  have u: "unat (pages_for (g_memsz g)) = (unat (g_memsz g) + 0xFFF) div 0x1000" using b by (intro unat_pages_for) simp
  then show le: "unat (pages_for (g_memsz g)) \<le> 2 ^ 40" using b(1) by simp
  show "unat (g_filesz g) \<le> 0x1000 * unat (pages_for (g_memsz g))" using b(2) u by simp
  have "unat (pages_for (g_memsz g)) * unat (0x1000 :: u64) < 2 ^ 64" using le by simp
  then show "unat (pages_for (g_memsz g) * 0x1000) = 0x1000 * unat (pages_for (g_memsz g))"
    by (simp add: unat_mult_lem [THEN iffD1] mult.commute)
qed

lemma load_turn:
  assumes sv: "loader_services bs file c pos owned live room"
    and g: "segment_at (mem w) phdr = g" "segment_ok c g" "length c < 2 ^ 63"
    and own: "\<And>x. in_range phdr 56 x \<Longrightarrow> page_of x \<in> owned (fw w)" "\<And>x. in_range s 32 x \<Longrightarrow> page_of x \<in> owned (fw w)"
    and sep: "no_overlap s 32 phdr 56"
    and al: "AllocatePages bs AllocateAnyPages EfiLoaderData (pages_for (g_memsz g)) 0 w = ((r1, paddr), w1)" "\<not> EFI_ERROR r1"
    and sp: "SetPosition bs file (g_offset g) (w1\<lparr>mem := ZeroMem (mem w1) paddr (pages_for (g_memsz g) * 0x1000)\<rparr>) = (r2, w3)" "\<not> EFI_ERROR r2"
    and rd: "Read bs file (g_filesz g) paddr w3 = ((r3, k), w4)" "\<not> EFI_ERROR r3"
  defines "m5 \<equiv> set_section (mem w4) s (pages_for (g_memsz g)) paddr phdr"
  shows "owned (fw w) \<subseteq> owned (fw w4)"
    and "page_of x \<in> owned (fw w) \<Longrightarrow> \<not> in_range s 32 x \<Longrightarrow> m5 x = mem w x"
    and "loaded m5 s c g"
    and "in_range (sec_phys m5 s) (0x1000 * unat (pages_for (g_memsz g))) x \<Longrightarrow> page_of x \<in> owned (fw w4) \<and> page_of x \<notin> owned (fw w)"
proof -
  let ?n = "0x1000 * unat (pages_for (g_memsz g))"
  let ?data = "take (unat (g_filesz g)) (drop (unat (g_offset g)) c)"
  note fit = pages_hold_segment [OF g(2)]
  have len: "length ?data = unat (g_filesz g)" using g(2) by (auto simp: segment_ok_def min_def)
  have bound: "?n \<le> 2 ^ 64" using fit(1) by simp
  note al_law = alloc_pages_law [OF sv al(1)] and sp_law = SetPosition_law [OF sv sp(1)] and rd_law = Read_law [OF sv rd(1)]
  have own3: "owned (fw w1) \<subseteq> owned (fw w3)" using sp_law(1) by simp
  show own4: "owned (fw w) \<subseteq> owned (fw w4)" using al_law(2) own3 rd_law(1) by blast
  have "g_offset g \<noteq> 0xFFFFFFFFFFFFFFFF" using g(2,3) by (auto simp: segment_ok_def)
  then have pos: "pos (fw w3) = unat (g_offset g)" using sp_law(4) [OF sp(2)] by blast
  have new: "page_of x \<notin> owned (fw w)" "page_of x \<in> owned (fw w1)" if "in_range paddr ?n x" for x
    using al_law(4) [OF al(2) that] by blast+
  have m4: "mem w4 x = write_bytes (block_fill (mem w1) paddr 0 ?n) paddr ?data x" if "page_of x \<in> owned (fw w1)" for x
  proof -
    have "mem w4 x = write_bytes (mem w3) paddr ?data x" using rd_law(3) [OF rd(2)] own3 that pos by auto
    moreover have "mem w3 x = block_fill (mem w1) paddr 0 ?n x" using sp_law(3) [of x] that fit(3) by (simp add: ZeroMem_block)
    ultimately show ?thesis using len by (simp add: write_bytes_apply)
  qed
  have old: "mem w4 x = mem w x" if "page_of x \<in> owned (fw w)" for x
  proof -
    have "\<not> in_range paddr ?n x" using new that by blast
    then have "\<not> in_range paddr (unat (g_filesz g)) x" "\<not> in_range paddr ?n x" using fit(2) by (auto simp: in_range_def)
    then show ?thesis using m4 [of x] al_law(1) [of x] al_law(2) that len by (auto simp: write_bytes_apply block_fill_def)
  qed
  have "segment_at (mem w4) phdr = g" using segment_kept [of phdr "mem w4" "mem w"] old own(1) g(1) by simp
  then have fields: "p_vaddr (mem w4) phdr = g_vaddr g" "p_flags (mem w4) phdr = g_flags g" by (auto simp: segment_at_def)
  note sec = set_section_fields [OF sep, of "mem w4" "pages_for (g_memsz g)" paddr, folded m5_def]
  show "m5 x = mem w x" if "page_of x \<in> owned (fw w)" "\<not> in_range s 32 x"
    using that old by (simp add: m5_def set_section_outside)
  have "m5 x = write_bytes (block_fill (mem w1) paddr 0 ?n) paddr ?data x" if "in_range paddr ?n x" for x
    using m4 [of x] new [OF that] own(2) [of x] set_section_outside [of s x] by (metis m5_def)
  then have "read_bytes m5 paddr ?n = read_bytes (write_bytes (block_fill (mem w1) paddr 0 ?n) paddr ?data) paddr ?n"
    using bound by (intro read_bytes_frame)
  also have "\<dots> = ?data @ replicate (?n - unat (g_filesz g)) 0"
    by (rule nth_equalityI)
      (use fit(2) bound len in \<open>auto simp: write_bytes_apply block_fill_def in_range_def unat_of_nat_u64 nth_append\<close>)
  finally show "loaded m5 s c g" using sec fields by (simp add: loaded_def)
  show "page_of x \<in> owned (fw w4) \<and> page_of x \<notin> owned (fw w)" if "in_range (sec_phys m5 s) ?n x"
    using that new [of x] own3 rd_law(1) sec(1) by auto
qed

section \<open>All segments\<close>

text \<open>The headers as the loop sees them: \<open>N\<close> program headers of \<open>esz\<close> bytes, the \<open>i\<close>-th describing \<open>G i\<close>.\<close>

definition headers :: "memory \<Rightarrow> addr \<Rightarrow> addr \<Rightarrow> u16 \<Rightarrow> u16 \<Rightarrow> (nat \<Rightarrow> segment) \<Rightarrow> bool" where
  "headers m ehdr phdrs N esz G \<longleftrightarrow> e_phnum m ehdr = N \<and> e_phentsize m ehdr = esz \<and>
     (\<forall>i < unat N. segment_at m (phdrs + ucast esz * of_nat i) = G i)"

abbreviation loadable :: "segment \<Rightarrow> bool" where
  "loadable g \<equiv> g_type g = PT_LOAD"

definition segs_from :: "(nat \<Rightarrow> segment) \<Rightarrow> nat \<Rightarrow> nat \<Rightarrow> segment list" where
  "segs_from G i n = filter loadable (map G [i..<n])"

lemma segs_from_step: "i < n \<Longrightarrow> segs_from G i n = (if loadable (G i) then [G i] else []) @ segs_from G (Suc i) n"
  by (simp add: segs_from_def upt_conv_Cons)

lemma length_segs_from: "length (segs_from G i n) \<le> n - i"
  by (metis length_filter_le length_map length_upt segs_from_def)

lemma unat_u16: "unat (x :: u16) \<le> 2 ^ 16"
proof -
  have "unat x < 2 ^ 16" using unsigned_less [of x] by simp
  then show ?thesis by simp
qed

lemma phdr_range:
  assumes "i < unat N" "56 \<le> unat esz" "in_range (phdrs + ucast (esz :: u16) * of_nat i) 56 x"
  shows "in_range phdrs (unat (N :: u16) * unat esz) x"
proof -
  have u: "ucast esz * of_nat i = (of_nat (unat esz * i) :: u64)" by (simp add: unat_ucast_up)
  have "unat esz * i + 56 \<le> unat esz * Suc i" using assms(2) by simp
  also have "\<dots> \<le> unat N * unat esz" using assms(1) by (metis Suc_leI mult.commute mult_le_mono2)
  finally have le: "unat esz * i + 56 \<le> unat N * unat esz" .
  have "unat N * unat esz \<le> 2 ^ 16 * 2 ^ 16" by (intro mult_le_mono unat_u16)
  then have "unat N * unat esz \<le> 2 ^ 64" by simp
  then show ?thesis using in_range_sub [OF _ le] assms(3) unfolding u by simp
qed

lemma headers_kept:
  assumes "headers m ehdr phdrs N esz G" "56 \<le> unat esz"
    and "\<And>x. in_range ehdr 64 x \<or> in_range phdrs (unat N * unat esz) x \<Longrightarrow> m' x = m x"
  shows "headers m' ehdr phdrs N esz G"
proof -
  have r: "read_bytes m' (ehdr + of_nat j) n = read_bytes m (ehdr + of_nat j) n" if "j + n \<le> 64" for j n
    by (rule read_bytes_frame) (use that assms(3) in_range_sub [of ehdr j n _ 64] in auto)
  have "e_phnum m' ehdr = e_phnum m ehdr" "e_phentsize m' ehdr = e_phentsize m ehdr"
    using r [of 56 2] r [of 54 2] by (simp_all add: e_phnum_def e_phentsize_def read16_def)
  moreover have "segment_at m' (phdrs + ucast esz * of_nat i) = segment_at m (phdrs + ucast esz * of_nat i)" if "i < unat N" for i
    using phdr_range [OF that assms(2)] assms(3) by (intro segment_kept) blast
  ultimately show ?thesis using assms(1) by (simp add: headers_def)
qed

lemma loaded_kept:
  assumes "loaded m s c g" "\<And>x. in_range s 32 x \<Longrightarrow> m' x = m x" "unat (pages_for (g_memsz g)) \<le> 2 ^ 40"
    and "\<And>x. in_range (sec_phys m s) (0x1000 * unat (pages_for (g_memsz g))) x \<Longrightarrow> m' x = m x"
  shows "loaded m' s c g"
proof -
  have r: "read_bytes m' (s + of_nat j) n = read_bytes m (s + of_nat j) n" if "j + n \<le> 32" for j n
    by (rule read_bytes_frame) (use that assms(2) in_range_sub [of s j n _ 32] in auto)
  have "sec_phys m' s = sec_phys m s" "sec_reqVirt m' s = sec_reqVirt m s" "sec_pageCount m' s = sec_pageCount m s" "sec_flags m' s = sec_flags m s"
    using r [of 0 8] r [of 8 8] r [of 16 8] r [of 24 4]
    by (simp_all add: sec_phys_def sec_reqVirt_def sec_pageCount_def sec_flags_def read64_def read32_def)
  moreover have "read_bytes m' (sec_phys m s) (0x1000 * unat (pages_for (g_memsz g))) = read_bytes m (sec_phys m s) (0x1000 * unat (pages_for (g_memsz g)))"
    by (rule read_bytes_frame) (use assms(3,4) in auto)
  ultimately show ?thesis using assms(1) by (simp add: loaded_def)
qed

primrec all_loaded :: "memory \<Rightarrow> addr \<Rightarrow> u8 list \<Rightarrow> segment list \<Rightarrow> bool" where
  "all_loaded m s c [] \<longleftrightarrow> True"
| "all_loaded m s c (g # gs) \<longleftrightarrow> loaded m s c g \<and> all_loaded m (s + sizeof_section) c gs"

lemma in_range_section:
  assumes "length gs < 2 ^ 16"
  shows "in_range s 32 x \<Longrightarrow> in_range s (32 * length (g # gs)) x"
    and "in_range (s + sizeof_section) (32 * length gs) x \<Longrightarrow> in_range s (32 * length (g # gs)) x"
    and "in_range s 32 x \<Longrightarrow> \<not> in_range (s + sizeof_section) (32 * length gs) x"
proof -
  show "in_range s 32 x \<Longrightarrow> in_range s (32 * length (g # gs)) x" by (simp add: in_range_def)
  show "in_range (s + sizeof_section) (32 * length gs) x \<Longrightarrow> in_range s (32 * length (g # gs)) x"
    using in_range_sub [of s 32 "32 * length gs" x "32 * length (g # gs)"] assms by (simp add: sizeof_section_def)
  have "no_overlap s 32 (s + sizeof_section) (32 * length gs)"
    by (rule no_overlap_distance(1)) (use assms in \<open>auto simp: sizeof_section_def\<close>)
  then show "in_range s 32 x \<Longrightarrow> \<not> in_range (s + sizeof_section) (32 * length gs) x" by (auto simp: no_overlap_def)
qed

text \<open>What a turn of the loop does, by the outcome of the calls it makes.\<close>

lemma load_turn_cases:
  assumes "load_discont_loop bs file ehdr phdrs i s w = (st, w')" "i < ucast (e_phnum (mem w) ehdr)"
    and phdr: "phdr = phdr_at (mem w) ehdr phdrs i" and g: "segment_at (mem w) phdr = g" "loadable g"
    and kept: "\<And>m. (\<And>x. page_of x \<in> owned (fw w) \<Longrightarrow> m x = mem w x) \<Longrightarrow> segment_at m phdr = g"
    and sv: "loader_services bs file c pos owned live room" and ok: "segment_ok c g"
  obtains "EFI_ERROR st" "room (fw w) < page_need (pages_for (g_memsz g))"
  | r1 paddr w1 r2 w3 r3 k w4 where
      "AllocatePages bs AllocateAnyPages EfiLoaderData (pages_for (g_memsz g)) 0 w = ((r1, paddr), w1)" "\<not> EFI_ERROR r1"
      "SetPosition bs file (g_offset g) (w1\<lparr>mem := ZeroMem (mem w1) paddr (pages_for (g_memsz g) * 0x1000)\<rparr>) = (r2, w3)" "\<not> EFI_ERROR r2"
      "Read bs file (g_filesz g) paddr w3 = ((r3, k), w4)" "\<not> EFI_ERROR r3"
      "load_discont_loop bs file ehdr phdrs (i + 1) (s + sizeof_section)
         (w4\<lparr>mem := set_section (mem w4) s (pages_for (g_memsz g)) paddr phdr\<rparr>) = (st, w')"
      "room (fw w) \<le> room (fw w4) + page_need (pages_for (g_memsz g))"
proof -
  let ?n = "pages_for (g_memsz g)"
  have t: "p_type (mem w) phdr = PT_LOAD" "p_memsz (mem w) phdr = g_memsz g" using g by (auto simp: segment_at_def)
  obtain r1 paddr w1 where al: "AllocatePages bs AllocateAnyPages EfiLoaderData ?n 0 w = ((r1, paddr), w1)" by (metis surj_pair)
  define w2 where "w2 = w1\<lparr>mem := ZeroMem (mem w1) paddr (?n * 0x1000)\<rparr>"
  obtain r2 w3 where sp: "SetPosition bs file (p_offset (mem w2) phdr) w2 = (r2, w3)" by (metis surj_pair)
  obtain r3 k w4 where rd: "Read bs file (p_filesz (mem w3) phdr) paddr w3 = ((r3, k), w4)" by (metis surj_pair)
  note run = assms(1) [unfolded load_discont_loop.simps [of bs "file" ehdr phdrs i s w]] 
  note laws = alloc_pages_law [OF sv al]
  have nf: "\<not> EFI_ERROR r2" "\<not> EFI_ERROR r3" "room (fw w1) \<le> room (fw w4)"
    using file_room(2) [OF sv sp] file_room(1) [OF sv rd] by (auto simp: w2_def)
  show thesis
  proof (cases "EFI_ERROR r1")
    case True
    then have "st = r1" using run assms(2) al by (simp add: Let_def t flip: phdr)
    then show ?thesis using that(1) True alloc_pages_room(1) [OF sv al True] by blast
  next
    case False
    have m2: "mem w2 x = mem w x" if "page_of x \<in> owned (fw w)" for x
      using laws(1) [OF that] laws(4) [of x] that False pages_hold_segment(3) [OF ok] by (auto simp: w2_def ZeroMem_block block_fill_def)
    have "page_of x \<in> owned (fw w2)" if "page_of x \<in> owned (fw w)" for x using laws(2) that by (auto simp: w2_def)
    then have m3: "mem w3 x = mem w x" if "page_of x \<in> owned (fw w)" for x using SetPosition_law(3) [OF sv sp] m2 that by simp
    have f: "p_offset (mem w2) phdr = g_offset g" "p_filesz (mem w3) phdr = g_filesz g"
      using kept [of "mem w2", OF m2] kept [of "mem w3", OF m3] by (auto simp: segment_at_def)
    have "load_discont_loop bs file ehdr phdrs (i + 1) (s + sizeof_section)
         (w4\<lparr>mem := set_section (mem w4) s ?n paddr phdr\<rparr>) = (st, w')"
      using run assms(2) al sp rd False nf by (simp add: Let_def t w2_def flip: phdr)
    moreover have "room (fw w) \<le> room (fw w4) + page_need ?n" using alloc_pages_room(2) [OF sv al False] nf(3) by simp
    ultimately show ?thesis using that(2) [OF al False sp [unfolded f, unfolded w2_def] nf(1) rd [unfolded f] nf(2)] by blast
  qed
qed

lemma load_discont_loop_loads:
  assumes sv: "loader_services bs file c pos owned live room" and len: "length c < 2 ^ 63" and esz: "56 \<le> unat esz"
    and ok: "\<And>j. j < unat N \<Longrightarrow> loadable (G j) \<Longrightarrow> segment_ok c (G j)"
  shows "load_discont_loop bs file ehdr phdrs (of_nat i) s w = (st, w') \<Longrightarrow> i \<le> unat N \<Longrightarrow>
    headers (mem w) ehdr phdrs N esz G \<Longrightarrow> gs = segs_from G i (unat N) \<Longrightarrow>
    (\<And>x. in_range ehdr 64 x \<or> in_range phdrs (unat N * unat esz) x \<Longrightarrow> page_of x \<in> owned (fw w) \<and> \<not> in_range s (32 * length gs) x) \<Longrightarrow>
    (\<And>x. in_range s (32 * length gs) x \<Longrightarrow> page_of x \<in> owned (fw w)) \<Longrightarrow>
    EFI_ERROR st \<and> room (fw w) < segments_need gs \<or>
    st = EFI_SUCCESS \<and> all_loaded (mem w') s c gs \<and>
    (\<forall>x. page_of x \<in> owned (fw w) \<longrightarrow> \<not> in_range s (32 * length gs) x \<longrightarrow> mem w' x = mem w x)"
proof (induction "unat N - i" arbitrary: i s w gs)
  case 0
  then have "i = unat N" by simp
  then have "\<not> of_nat i < (ucast N :: u64)" by (simp add: word_less_nat_alt unat_ucast_up)
  moreover have "e_phnum (mem w) ehdr = N" using "0.prems"(3) by (simp add: headers_def)
  ultimately have "load_discont_loop bs file ehdr phdrs (of_nat i) s w = (EFI_SUCCESS, w)"
    by (subst load_discont_loop.simps) simp
  then show ?case using "0.prems"(1,4) \<open>i = unat N\<close> by (simp add: segs_from_def)
next
  case (Suc d)
  then have i: "i < unat N" by simp
  have i16: "i < 2 ^ 16" using i unat_u16 [of N] by linarith
  then have ii: "of_nat i < (ucast N :: u64)" using i by (simp add: word_less_nat_alt unat_ucast_up unat_of_nat_u64)
  have h: "e_phnum (mem w) ehdr = N" "e_phentsize (mem w) ehdr = esz" "segment_at (mem w) (phdrs + ucast esz * of_nat i) = G i"
    using Suc.prems(3) i by (auto simp: headers_def)
  define phdr where "phdr = phdrs + ucast esz * (of_nat i :: u64)"
  have at: "phdr_at (mem w) ehdr phdrs (of_nat i) = phdr" by (simp add: phdr_at_def h phdr_def)
  have inP: "in_range phdrs (unat N * unat esz) x" if "in_range phdr 56 x" for x
    using phdr_range [OF i esz] that by (simp add: phdr_def)
  have nxt: "(of_nat i + 1 :: u64) = of_nat (Suc i)" by simp
  show ?case
  proof (cases "loadable (G i)")
    case False
    then have "p_type (mem w) phdr \<noteq> PT_LOAD" by (simp add: segment_at_def phdr_def flip: h(3))
    then have "load_discont_loop bs file ehdr phdrs (of_nat (Suc i)) s w = (st, w')"
      using Suc.prems(1) ii by (subst (asm) load_discont_loop.simps) (simp add: h at nxt)
    moreover have "gs = segs_from G (Suc i) (unat N)" using Suc.prems(4) False by (simp add: segs_from_step [OF i])
    ultimately show ?thesis using Suc.hyps Suc.prems i by (intro Suc.hyps(1)) auto
  next
    case True
    define gs' where "gs' = segs_from G (Suc i) (unat N)"
    have gs: "gs = G i # gs'" using Suc.prems(4) True by (simp add: segs_from_step [OF i] gs'_def)
    have l: "length gs' < 2 ^ 16" using length_segs_from [of G "Suc i" "unat N"] unat_u16 [of N] i by (simp add: gs'_def)
    note rs = in_range_section(1,2) [OF l, of s _ "G i", folded gs] in_range_section(3) [OF l, of s]
    have ownP: "page_of x \<in> owned (fw w)" if "in_range phdr 56 x" for x using Suc.prems(5) inP [OF that] by blast
    have sep: "no_overlap s 32 phdr 56" using Suc.prems(5) inP rs(1) by (auto simp: no_overlap_def)
    have g: "segment_at (mem w) phdr = G i" using h(3) by (simp add: phdr_def)
    have kept: "segment_at m phdr = G i" if "\<And>x. page_of x \<in> owned (fw w) \<Longrightarrow> m x = mem w x" for m
      using segment_kept [of phdr m "mem w"] that ownP g by simp
    show ?thesis
    proof (rule load_turn_cases [OF Suc.prems(1) _ at [symmetric] g True kept sv ok [OF i True]])
      show "of_nat i < (ucast (e_phnum (mem w) ehdr) :: u64)" using ii h(1) by simp
    next
      fix r1 paddr w1 r2 w3 r3 k w4
      assume calls: "AllocatePages bs AllocateAnyPages EfiLoaderData (pages_for (g_memsz (G i))) 0 w = ((r1, paddr), w1)" "\<not> EFI_ERROR r1"
        "SetPosition bs file (g_offset (G i)) (w1\<lparr>mem := ZeroMem (mem w1) paddr (pages_for (g_memsz (G i)) * 0x1000)\<rparr>) = (r2, w3)" "\<not> EFI_ERROR r2"
        "Read bs file (g_filesz (G i)) paddr w3 = ((r3, k), w4)" "\<not> EFI_ERROR r3"
      let ?w5 = "w4\<lparr>mem := set_section (mem w4) s (pages_for (g_memsz (G i))) paddr phdr\<rparr>"
      assume rest: "load_discont_loop bs file ehdr phdrs (of_nat i + 1) (s + sizeof_section) ?w5 = (st, w')"
        and room: "room (fw w) \<le> room (fw w4) + page_need (pages_for (g_memsz (G i)))"
      note turn = load_turn [OF sv g ok [OF i True] len ownP _ sep calls]
      have turn1: "owned (fw w) \<subseteq> owned (fw ?w5)" using turn(1) Suc.prems(6) rs(1) by auto
      have turn2: "mem ?w5 x = mem w x" if "page_of x \<in> owned (fw w)" "\<not> in_range s 32 x" for x
        using turn(2) Suc.prems(6) rs(1) that by auto
      have turn3: "loaded (mem ?w5) s c (G i)" using turn(3) Suc.prems(6) rs(1) by auto
      have turn4: "page_of x \<in> owned (fw ?w5) \<and> page_of x \<notin> owned (fw w)"
        if "in_range (sec_phys (mem ?w5) s) (0x1000 * unat (pages_for (g_memsz (G i)))) x" for x
        using turn(4) Suc.prems(6) rs(1) that by auto
      have hd: "headers (mem ?w5) ehdr phdrs N esz G"
        by (rule headers_kept [OF Suc.prems(3) esz]) (use Suc.prems(5) rs(1) turn2 in blast)
      have IH: "EFI_ERROR st \<and> room (fw ?w5) < segments_need gs' \<or> st = EFI_SUCCESS \<and> all_loaded (mem w') (s + sizeof_section) c gs' \<and>
        (\<forall>x. page_of x \<in> owned (fw ?w5) \<longrightarrow> \<not> in_range (s + sizeof_section) (32 * length gs') x \<longrightarrow> mem w' x = mem ?w5 x)"
        by (rule Suc.hyps(1) [OF _ rest [unfolded nxt] _ hd gs'_def])
          (use Suc.hyps(2) i Suc.prems(5,6) rs(2) turn1 in auto)
      show ?thesis
      proof (cases "EFI_ERROR st \<and> room (fw ?w5) < segments_need gs'")
        case True
        then show ?thesis using room by (simp add: gs segments_need_def)
      next
        case False
        have keep: "mem w' x = mem ?w5 x" if "page_of x \<in> owned (fw ?w5)" "\<not> in_range (s + sizeof_section) (32 * length gs') x" for x
          using IH False that by blast
        have "loaded (mem w') s c (G i)"
          by (rule loaded_kept [OF turn3])
            (use keep turn1 turn4 rs Suc.prems(6) pages_hold_segment(1) [OF ok [OF i True]] in blast)+
        moreover have "mem w' x = mem w x" if "page_of x \<in> owned (fw w)" "\<not> in_range s (32 * length gs) x" for x
        proof -
          have "\<not> in_range s 32 x" "\<not> in_range (s + sizeof_section) (32 * length gs') x" using rs(1,2) [of x] that(2) by blast+
          then show ?thesis using keep [of x] turn1 turn2 [of x] that(1) by auto
        qed
        moreover have "st = EFI_SUCCESS" "all_loaded (mem w') (s + sizeof_section) c gs'" using IH False by blast+
        ultimately show ?thesis by (simp add: gs)
      qed
    qed (blast, auto simp: gs segments_need_def)
  qed
qed

section \<open>The headers\<close>

lemma alloc_pool_law:
  assumes "loader_services bs file c pos owned live room" "AllocatePool bs mt n a0 w = ((st, a), w')"
  shows "x \<in> live (fw w) \<Longrightarrow> mem w' x = mem w x" and "live (fw w) \<subseteq> live (fw w')"
    and "\<not> EFI_ERROR st \<Longrightarrow> in_range a (unat n) x \<Longrightarrow> x \<notin> live (fw w) \<and> x \<in> live (fw w')"
proof -
  have law: "(\<forall>x. x \<in> live (fw w) \<longrightarrow> mem w' x = mem w x) \<and> live (fw w) \<subseteq> live (fw w') \<and>
        (\<not> EFI_ERROR st \<longrightarrow> a \<noteq> 0 \<and> unat a + unat n \<le> 2 ^ 64 \<and>
           (\<forall>k < unat n. a + of_nat k \<notin> live (fw w) \<and> a + of_nat k \<in> live (fw w')))"
    using assms unfolding loader_services_def allocates_fresh_pool_def by blast
  then show "x \<in> live (fw w) \<Longrightarrow> mem w' x = mem w x" "live (fw w) \<subseteq> live (fw w')" by blast+
  show "x \<notin> live (fw w) \<and> x \<in> live (fw w')" if "\<not> EFI_ERROR st" "in_range a (unat n) x"
    using law that by (auto elim!: in_rangeE)
qed

lemma live_owned: "loader_services bs file c pos owned live room \<Longrightarrow> x \<in> live f \<Longrightarrow> page_of x \<in> owned f"
  by (simp add: loader_services_def)

lemma image_at: "i < length c \<Longrightarrow> i < 2 ^ 64 \<Longrightarrow> file_image c (of_nat i) = c ! i"
  by (simp add: file_image_def unat_of_nat_u64)

lemma read_image: "j + n \<le> length c \<Longrightarrow> length c < 2 ^ 64 \<Longrightarrow> read_bytes (file_image c) (of_nat j) n = take n (drop j c)"
  by (rule nth_equalityI) (auto simp: image_at simp flip: of_nat_add)

text \<open>A copy of the file header reads like the file header.\<close>

lemma ehdr_copy:
  assumes "read_bytes m ehdr 64 = take 64 c" "64 \<le> length c" "length c < 2 ^ 64"
  shows "elf_verify_ehdr m ehdr = elf_verify_ehdr (file_image c) 0" "e_entry m ehdr = e_entry (file_image c) 0" "e_phoff m ehdr = e_phoff (file_image c) 0"
    "e_phentsize m ehdr = e_phentsize (file_image c) 0" "e_phnum m ehdr = e_phnum (file_image c) 0"
proof -
  have r: "read_bytes m (ehdr + of_nat j) n = read_bytes (file_image c) (of_nat j) n" if "j + n \<le> 64" for j n
  proof -
    have "read_bytes m (ehdr + of_nat j) n = take n (drop j (take 64 c))" using assms(1) read_bytes_part [OF that, of m ehdr] by simp
    also have "\<dots> = take n (drop j c)" using that by (simp add: drop_take min_def)
    also have "\<dots> = read_bytes (file_image c) (of_nat j) n" using that assms(2,3) by (intro read_image [symmetric]) auto
    finally show ?thesis .
  qed
  have b: "m (ehdr + of_nat j) = file_image c (of_nat j)" if "j < 64" for j using r [of j 1] that by simp
  show "elf_verify_ehdr m ehdr = elf_verify_ehdr (file_image c) 0"
    using r [of 0 4] b [of 4] b [of 5] r [of 16 2] r [of 18 2] r [of 20 4]
    by (simp add: elf_verify_ehdr_def e_type_def e_machine_def e_version_def read16_def read32_def)
  show "e_entry m ehdr = e_entry (file_image c) 0" "e_phoff m ehdr = e_phoff (file_image c) 0"
    "e_phentsize m ehdr = e_phentsize (file_image c) 0" "e_phnum m ehdr = e_phnum (file_image c) 0"
    using r [of 24 8] r [of 32 8] r [of 54 2] r [of 56 2]
    by (simp_all add: e_entry_def e_phoff_def e_phentsize_def e_phnum_def read16_def read64_def)
qed

definition file_segment :: "u8 list \<Rightarrow> nat \<Rightarrow> segment" where
  "file_segment c i = segment_at (file_image c) (phdr_at (file_image c) 0 (e_phoff (file_image c) 0) (of_nat i))"

lemma file_segments_eq: "file_segments c = segs_from (file_segment c) 0 (unat (e_phnum (file_image c) 0))"
  by (simp add: file_segments_def segs_from_def file_segment_def [abs_def])

text \<open>The bytes of the program header table.\<close>

definition phdrs_size :: "u8 list \<Rightarrow> nat" where
  "phdrs_size c = unat (e_phnum (file_image c) 0) * unat (e_phentsize (file_image c) 0)"

lemma headers_copy:
  assumes ok: "elf_ok c" and e: "read_bytes m ehdr 64 = take 64 c"
    and p: "read_bytes m phdrs (phdrs_size c) = take (phdrs_size c) (drop (unat (e_phoff (file_image c) 0)) c)"
  shows "headers m ehdr phdrs (e_phnum (file_image c) 0) (e_phentsize (file_image c) 0) (file_segment c)"
proof -
  let ?N = "e_phnum (file_image c) 0" and ?e = "e_phentsize (file_image c) 0" and ?o = "e_phoff (file_image c) 0"
  have k: "64 \<le> length c" "length c < 2 ^ 64" "56 \<le> unat ?e" "unat ?o + phdrs_size c \<le> length c"
    using ok by (auto simp: elf_ok_def phdrs_size_def word_le_nat_alt)
  have "segment_at m (phdrs + ucast ?e * of_nat i) = file_segment c i" if i: "i < unat ?N" for i
  proof -
    have u: "ucast ?e * of_nat i = (of_nat (unat ?e * i) :: u64)" by (simp add: unat_ucast_up)
    have "unat ?e * i + 56 \<le> unat ?e * Suc i" using k(3) by simp
    also have "\<dots> \<le> phdrs_size c" using i unfolding phdrs_size_def by (metis Suc_leI mult.commute mult_le_mono2)
    finally have le: "unat ?e * i + 56 \<le> phdrs_size c" .
    have "m (phdrs + of_nat (unat ?e * i) + of_nat j) = file_image c (?o + of_nat (unat ?e * i) + of_nat j)" if j: "j < 56" for j
    proof -
      let ?k = "unat ?e * i + j"
      have "m (phdrs + of_nat ?k) = read_bytes m phdrs (phdrs_size c) ! ?k" using le j by (subst nth_read_bytes) auto
      also have "\<dots> = c ! (unat ?o + ?k)" unfolding p using le j k(4) by simp
      also have "\<dots> = file_image c (of_nat (unat ?o + ?k))" using le j k(2,4) by (intro image_at [symmetric]) auto
      finally show ?thesis by (simp add: add.assoc)
    qed
    then have "segment_at m (phdrs + of_nat (unat ?e * i)) = segment_at (file_image c) (?o + of_nat (unat ?e * i))" by (rule segment_at_move)
    then show ?thesis unfolding file_segment_def phdr_at_def u .
  qed
  then show ?thesis using ehdr_copy [OF e k(1,2)] by (simp add: headers_def)
qed

text \<open>The calls \<open>elf_get_file_info\<close> makes when all of them succeed.\<close>

lemma get_file_info_cases:
  assumes run: "elf_get_file_info bs file info ehdr ph0 w = ((st, phdrs), w')" and sv: "loader_services bs file c pos owned live room"
  obtains r1 k1 w1 w2 n r3 p w3 r4 w4 r5 k5 w5 w6 r7 sections w7 where
      "Read bs file 64 ehdr w = ((r1, k1), w1)" "\<not> EFI_ERROR r1"
      "w2 = w1\<lparr>mem := write64 (mem w1) info (e_entry (mem w1) ehdr)\<rparr>"
      "n = scast (ucast (e_phnum (mem w2) ehdr) * ucast (e_phentsize (mem w2) ehdr) :: u32)"
      "AllocatePool bs EfiLoaderData n ph0 w2 = ((r3, p), w3)"
      "SetPosition bs file (e_phoff (mem w3) ehdr) w3 = (r4, w4)" "\<not> EFI_ERROR r4"
      "Read bs file n p w4 = ((r5, k5), w5)" "\<not> EFI_ERROR r5"
      "w6 = w5\<lparr>mem := write64 (mem w5) (info + 8) (elf_count_loadable (mem w5) ehdr p)\<rparr>"
      "AllocatePool bs EfiLoaderData (info_sectionCount (mem w6) info * sizeof_section) (info_sections (mem w6) info) w6 = ((r7, sections), w7)"
      "if EFI_ERROR (elf_verify_ehdr (mem w1) ehdr) then st = elf_verify_ehdr (mem w1) ehdr else if EFI_ERROR r3 then st = r3
       else if EFI_ERROR r7 then st = r7
       else st = EFI_SUCCESS \<and> p = phdrs \<and>
            w' = w7\<lparr>mem := let m = write64 (mem w7) (info + 16) sections
                           in ZeroMem m (info_sections m info) (info_sectionCount m info * sizeof_section)\<rparr>"
proof -
  obtain r1 k1 w1 where c1: "Read bs file 64 ehdr w = ((r1, k1), w1)" by (metis surj_pair)
  define w2 where "w2 = w1\<lparr>mem := write64 (mem w1) info (e_entry (mem w1) ehdr)\<rparr>"
  define n :: u64 where "n = scast (ucast (e_phnum (mem w2) ehdr) * ucast (e_phentsize (mem w2) ehdr) :: u32)"
  obtain r3 p w3 where c3: "AllocatePool bs EfiLoaderData n ph0 w2 = ((r3, p), w3)" by (metis surj_pair)
  obtain r4 w4 where c4: "SetPosition bs file (e_phoff (mem w3) ehdr) w3 = (r4, w4)" by (metis surj_pair)
  obtain r5 k5 w5 where c5: "Read bs file n p w4 = ((r5, k5), w5)" by (metis surj_pair)
  define w6 where "w6 = w5\<lparr>mem := write64 (mem w5) (info + 8) (elf_count_loadable (mem w5) ehdr p)\<rparr>"
  obtain r7 sections w7 where
    c7: "AllocatePool bs EfiLoaderData (info_sectionCount (mem w6) info * sizeof_section) (info_sections (mem w6) info) w6 = ((r7, sections), w7)"
    by (metis surj_pair)
  have nf: "\<not> EFI_ERROR r1" "\<not> EFI_ERROR r4" "\<not> EFI_ERROR r5"
    using file_room(1) [OF sv c1] file_room(2) [OF sv c4] file_room(1) [OF sv c5] by auto
  note eqs = run [unfolded elf_get_file_info_def Let_def sizeof_Ehdr_def, unfolded c1 case_prod_conv, folded w2_def, folded n_def]
  show thesis
    by (rule that [OF c1 nf(1) w2_def n_def c3 c4 nf(2) c5 nf(3) w6_def c7])
      (use eqs nf c3 c4 c5 c7 in \<open>auto simp: w6_def Let_def split: if_splits\<close>)
qed

lemma count_loadable:
  assumes "headers m ehdr phdrs N esz G"
  shows "elf_count_loadable m ehdr phdrs = of_nat (length (segs_from G 0 (unat N)))"
proof -
  have type: "p_type m (phdr_at m ehdr phdrs (of_nat i)) = g_type (G i)" if "i < unat N" for i
  proof -
    have "segment_at m (phdr_at m ehdr phdrs (of_nat i)) = G i" using assms that by (simp add: headers_def phdr_at_def)
    then show ?thesis by (simp add: segment_at_def flip: \<open>_ = G i\<close>)
  qed
  have "foldl (\<lambda>count i. if p_type m (phdr_at m ehdr phdrs (of_nat i)) = PT_LOAD then count + 1 else count) (0 :: u64) [0..<k] =
      of_nat (length (segs_from G 0 k))" if "k \<le> unat N" for k
    using that by (induction k) (simp_all add: segs_from_def type)
  then show ?thesis using assms by (simp add: elf_count_loadable_def headers_def)
qed

lemma phdr_buffer_size:
  assumes "unat N * unat e < 2 ^ 31"
  shows "unat (scast (ucast (N :: u16) * ucast (e :: u16) :: u32) :: u64) = unat N * unat e"
proof -
  let ?x = "ucast N * ucast e :: u32"
  have "unat (ucast N :: u32) = unat N" "unat (ucast e :: u32) = unat e" by (simp_all add: unat_ucast_up)
  then have u: "unat ?x = unat N * unat e" using assms by (subst unat_mult_lem [THEN iffD1]) auto
  then have i: "uint ?x = int (unat N * unat e)" by (metis uint_nat)
  have "signed_take_bit 31 (int k) = int k" if "k < 2 ^ 31" for k
    using that by (intro signed_take_bit_int_eq_self) auto
  from this [OF assms] have "sint ?x = uint ?x" unfolding i by (simp add: sint_uint i del: of_nat_mult)
  with i have "(scast ?x :: u64) = of_nat (unat N * unat e)" by (simp add: scast_eq)
  then show ?thesis using assms by (simp add: unat_of_nat_u64 del: of_nat_mult)
qed

lemma elf_okD:
  assumes "elf_ok c"
  shows "64 \<le> length c" "length c < 2 ^ 31" "elf_verify_ehdr (file_image c) 0 = EFI_SUCCESS" "56 \<le> unat (e_phentsize (file_image c) 0)"
    "unat (e_phoff (file_image c) 0) + phdrs_size c \<le> length c"
    "i < unat (e_phnum (file_image c) 0) \<Longrightarrow> loadable (file_segment c i) \<Longrightarrow> segment_ok c (file_segment c i)"
  using assms by (auto simp: elf_ok_def phdrs_size_def word_le_nat_alt file_segments_eq segs_from_def)

text \<open>Reading a header: the frame of the loader keeps \<open>ehdr\<close> and \<open>info\<close> apart, both in use.\<close>

lemma file_header_read:
  assumes sv: "loader_services bs file c pos owned live room" and ok: "elf_ok c" and pos: "pos (fw w) = 0"
    and fr: "\<And>x. in_range ehdr 64 x \<Longrightarrow> x \<in> live (fw w)"
    and c1: "Read bs file 64 ehdr w = ((r1, k1), w1)" "\<not> EFI_ERROR r1"
  shows "read_bytes (mem w1) ehdr 64 = take 64 c"
proof -
  have "mem w1 x = write_bytes (mem w) ehdr (take 64 c) x" if "in_range ehdr 64 x" for x
    using Read_law(3) [OF sv c1] live_owned [OF sv fr [OF that]] pos by simp
  then have "read_bytes (mem w1) ehdr 64 = read_bytes (write_bytes (mem w) ehdr (take 64 c)) ehdr 64"
    by (intro read_bytes_frame) auto
  then show ?thesis using read_write_bytes [of "take 64 c" "mem w" ehdr] elf_okD(1) [OF ok] by simp
qed

lemma phdrs_size_read:
  assumes ok: "elf_ok c" and e2: "read_bytes m ehdr 64 = take 64 c"
    and n: "n = scast (ucast (e_phnum m ehdr) * ucast (e_phentsize m ehdr) :: u32)"
  shows "unat (n :: u64) = phdrs_size c"
proof -
  note k = elf_okD [OF ok]
  have lc: "length c < 2 ^ 64" using k(2) by simp
  show ?thesis unfolding n ehdr_copy [OF e2 k(1) lc] phdrs_size_def
    by (rule phdr_buffer_size) (use k(2,5) in \<open>auto simp: phdrs_size_def\<close>)
qed

lemma program_headers_read:
  assumes sv: "loader_services bs file c pos owned live room" and ok: "elf_ok c"
    and e2: "read_bytes (mem w2) ehdr 64 = take 64 c" and fr: "\<And>x. in_range ehdr 64 x \<Longrightarrow> x \<in> live (fw w2)"
    and n: "n = scast (ucast (e_phnum (mem w2) ehdr) * ucast (e_phentsize (mem w2) ehdr) :: u32)"
    and c3: "AllocatePool bs EfiLoaderData n ph0 w2 = ((r3, phdrs), w3)" "\<not> EFI_ERROR r3"
    and c4: "SetPosition bs file (e_phoff (mem w3) ehdr) w3 = (r4, w4)" "\<not> EFI_ERROR r4"
    and c5: "Read bs file n phdrs w4 = ((r5, k5), w5)" "\<not> EFI_ERROR r5"
  shows "x \<in> live (fw w2) \<Longrightarrow> mem w5 x = mem w2 x" and "live (fw w2) \<subseteq> live (fw w5)"
    and "in_range phdrs (phdrs_size c) x \<Longrightarrow> x \<notin> live (fw w2) \<and> x \<in> live (fw w5)"
    and "headers (mem w5) ehdr phdrs (e_phnum (file_image c) 0) (e_phentsize (file_image c) 0) (file_segment c)"
proof -
  let ?o = "unat (e_phoff (file_image c) 0)" and ?P = "phdrs_size c"
  note k = elf_okD [OF ok]
  have lc: "length c < 2 ^ 64" using k(2) by simp
  have sz: "unat n = ?P" by (rule phdrs_size_read [OF ok e2 n])
  note l3 = alloc_pool_law [OF sv c3(1)] and l4 = SetPosition_law [OF sv c4(1)] and l5 = Read_law [OF sv c5(1)]
  have live3: "live (fw w3) \<subseteq> live (fw w5)" using l4(2) l5(2) by blast
  show new: "x \<notin> live (fw w2) \<and> x \<in> live (fw w5)" if "in_range phdrs ?P x" for x
    using l3(3) [OF c3(2)] live3 that sz by auto
  show "live (fw w2) \<subseteq> live (fw w5)" using l3(2) live3 by blast
  have "read_bytes (mem w3) ehdr 64 = take 64 c"
    unfolding e2 [symmetric] by (rule read_bytes_frame) (use l3(1) fr in auto)
  then have "e_phoff (mem w3) ehdr = e_phoff (file_image c) 0" using ehdr_copy [OF _ k(1) lc] by blast
  moreover have "e_phoff (file_image c) 0 \<noteq> 0xFFFFFFFFFFFFFFFF" using k(2,5) by auto
  ultimately have pos: "pos (fw w4) = ?o" using l4(4) [OF c4(2)] by simp
  let ?d = "take ?P (drop ?o c)"
  have len: "length ?d = ?P" using k(5) by simp
  have m5: "mem w5 x = write_bytes (mem w3) phdrs ?d x" if "x \<in> live (fw w3)" for x
  proof -
    have x: "page_of x \<in> owned (fw w3)" using live_owned [OF sv that] .
    then have "mem w5 x = write_bytes (mem w4) phdrs ?d x" using l5(3) [OF c5(2)] l4(1) pos sz by auto
    then show ?thesis using l4(3) [OF x] len k(2,5) by (simp add: write_bytes_apply)
  qed
  show kept: "mem w5 x = mem w2 x" if "x \<in> live (fw w2)" for x
  proof -
    have "x \<in> live (fw w3)" "\<not> in_range phdrs ?P x" using l3(2) that new by blast+
    then show ?thesis using m5 [of x] l3(1) [OF that] len k(2,5) by (simp add: write_bytes_apply)
  qed
  have "read_bytes (mem w5) ehdr 64 = take 64 c"
    unfolding e2 [symmetric] by (rule read_bytes_frame) (use kept fr in auto)
  moreover have "read_bytes (mem w5) phdrs ?P = ?d"
  proof -
    have "read_bytes (mem w5) phdrs ?P = read_bytes (write_bytes (mem w3) phdrs ?d) phdrs ?P"
      by (rule read_bytes_frame) (use m5 l3(3) [OF c3(2)] sz k(2,5) in auto)
    then show ?thesis using read_write_bytes [of ?d "mem w3" phdrs] len k(2,5) by simp
  qed
  ultimately show "headers (mem w5) ehdr phdrs (e_phnum (file_image c) 0) (e_phentsize (file_image c) 0) (file_segment c)"
    by (rule headers_copy [OF ok])
qed

text \<open>The headers are in memory, the section array is allocated, and everything the loader still needs is kept apart from it.\<close>

definition headers_ready :: "('f \<Rightarrow> addr set) \<Rightarrow> u8 list \<Rightarrow> addr \<Rightarrow> addr \<Rightarrow> addr \<Rightarrow> 'f world \<Rightarrow> bool" where
  "headers_ready owned c ehdr info phdrs w \<longleftrightarrow>
     headers (mem w) ehdr phdrs (e_phnum (file_image c) 0) (e_phentsize (file_image c) 0) (file_segment c) \<and>
     info_entry (mem w) info = e_entry (file_image c) 0 \<and> info_sectionCount (mem w) info = of_nat (length (file_segments c)) \<and>
     (\<forall>x. in_range ehdr 64 x \<or> in_range info 24 x \<or> in_range phdrs (phdrs_size c) x \<longrightarrow>
        page_of x \<in> owned (fw w) \<and> \<not> in_range (info_sections (mem w) info) (32 * length (file_segments c)) x) \<and>
     (\<forall>x. in_range (info_sections (mem w) info) (32 * length (file_segments c)) x \<longrightarrow> page_of x \<in> owned (fw w))"

lemma info_fields:
  assumes "\<And>x. in_range info 24 x \<Longrightarrow> m' x = m x"
  shows "info_entry m' info = info_entry m info" "info_sectionCount m' info = info_sectionCount m info" "info_sections m' info = info_sections m info"
proof -
  have "read64 m' (info + of_nat j) = read64 m (info + of_nat j)" if "j + 8 \<le> 24" for j
    by (rule read64_agree [of info 24]) (use assms that in auto)
  from this [of 0] this [of 8] this [of 16]
  show "info_entry m' info = info_entry m info" "info_sectionCount m' info = info_sectionCount m info" "info_sections m' info = info_sections m info"
    by (simp_all add: info_entry_def info_sectionCount_def info_sections_def)
qed

lemma info_writes:
  "info_entry (write64 m info v) info = v" "info_sectionCount (write64 m (info + 8) v) info = v"
  "info_sections (write64 m (info + 16) v) info = v" "info_entry (write64 m (info + 8) v) info = info_entry m info"
  "info_entry (write64 m (info + 16) v) info = info_entry m info"
  "info_sectionCount (write64 m (info + 16) v) info = info_sectionCount m info"
  using offsets_no_overlap [of 8 8 0 8 info] offsets_no_overlap [of 16 8 0 8 info] offsets_no_overlap [of 16 8 8 8 info]
  by (simp_all add: info_entry_def info_sectionCount_def info_sections_def read64_write64_disjoint)

lemma write_info_outside:
  assumes "\<not> in_range info 24 x"
  shows "write64 m info v x = m x" "write64 m (info + 8) v x = m x" "write64 m (info + 16) v x = m x"
proof -
  have "\<not> in_range (info + of_nat j) 8 x" if "j + 8 \<le> 24" for j using in_range_sub [of info j 8 x 24] that assms by auto
  from this [of 0] this [of 8] this [of 16]
  show "write64 m info v x = m x" "write64 m (info + 8) v x = m x" "write64 m (info + 16) v x = m x"
    by (simp_all add: write64_outside)
qed

lemma section_count:
  assumes hd: "headers (mem w5) ehdr phdrs (e_phnum (file_image c) 0) (e_phentsize (file_image c) 0) (file_segment c)"
    and w6: "w6 = w5\<lparr>mem := write64 (mem w5) (info + 8) (elf_count_loadable (mem w5) ehdr phdrs)\<rparr>"
  shows "info_sectionCount (mem w6) info = of_nat (length (file_segments c))"
  by (simp add: w6 info_writes count_loadable [OF hd] file_segments_eq)

lemma section_array_size:
  assumes hd: "headers (mem w5) ehdr phdrs (e_phnum (file_image c) 0) (e_phentsize (file_image c) 0) (file_segment c)"
    and w6: "w6 = w5\<lparr>mem := write64 (mem w5) (info + 8) (elf_count_loadable (mem w5) ehdr phdrs)\<rparr>"
  shows "unat (info_sectionCount (mem w6) info * sizeof_section) = 32 * length (file_segments c)"
proof -
  let ?k = "32 * length (file_segments c)"
  have "length (file_segments c) \<le> 2 ^ 16"
    using length_segs_from [of "file_segment c" 0 "unat (e_phnum (file_image c) 0)"] unat_u16 [of "e_phnum (file_image c) 0"]
    by (simp add: file_segments_eq)
  then have "unat (of_nat ?k :: u64) = ?k" by (intro unat_of_nat_u64) simp
  moreover have "info_sectionCount (mem w6) info * sizeof_section = of_nat ?k" by (simp add: section_count [OF assms] sizeof_section_def)
  ultimately show ?thesis by simp
qed

lemma section_array_ready:
  assumes sv: "loader_services bs file c pos owned live room" and ok: "elf_ok c"
    and fr: "\<And>x. in_range ehdr 64 x \<Longrightarrow> x \<in> live (fw w5)" "\<And>x. in_range info 24 x \<Longrightarrow> x \<in> live (fw w5)"
      "\<And>x. in_range phdrs (phdrs_size c) x \<Longrightarrow> x \<in> live (fw w5)"
    and sep: "\<And>x. in_range info 24 x \<Longrightarrow> \<not> in_range ehdr 64 x \<and> \<not> in_range phdrs (phdrs_size c) x"
    and hd: "headers (mem w5) ehdr phdrs (e_phnum (file_image c) 0) (e_phentsize (file_image c) 0) (file_segment c)"
    and en: "info_entry (mem w5) info = e_entry (file_image c) 0"
    and w6: "w6 = w5\<lparr>mem := write64 (mem w5) (info + 8) (elf_count_loadable (mem w5) ehdr phdrs)\<rparr>"
    and c7: "AllocatePool bs EfiLoaderData (info_sectionCount (mem w6) info * sizeof_section) (info_sections (mem w6) info) w6 = ((r7, sections), w7)"
      "\<not> EFI_ERROR r7"
    and w': "w' = w7\<lparr>mem := let m = write64 (mem w7) (info + 16) sections
                          in ZeroMem m (info_sections m info) (info_sectionCount m info * sizeof_section)\<rparr>"
  shows "headers_ready owned c ehdr info phdrs w'"
proof -
  let ?k = "32 * length (file_segments c)"
  have cnt: "info_sectionCount (mem w6) info = of_nat (length (file_segments c))" by (rule section_count [OF hd w6])
  have sz: "unat (of_nat (length (file_segments c)) * sizeof_section) = ?k" using section_array_size [OF hd w6] cnt by simp
  note l7 = alloc_pool_law [OF sv c7(1)]
  have live6: "fw w6 = fw w5" by (simp add: w6)
  have new: "x \<notin> live (fw w5) \<and> x \<in> live (fw w7)" if "in_range sections ?k x" for x
    using l7(3) [OF c7(2)] that cnt sz live6 by simp
  let ?m8 = "write64 (mem w7) (info + 16) sections"
  have i7: "info_entry (mem w7) info = e_entry (file_image c) 0" "info_sectionCount (mem w7) info = of_nat (length (file_segments c))"
    using info_fields [of info "mem w7" "mem w6"] l7(1) fr(2) live6 cnt en by (simp_all add: w6 info_writes)
  have m': "mem w' = block_fill ?m8 sections 0 ?k" by (simp add: w' Let_def info_writes i7 ZeroMem_block sz)
  have keep: "mem w' x = ?m8 x" if "x \<in> live (fw w5)" for x using new that by (auto simp: m' block_fill_def)
  have i': "info_entry (mem w') info = e_entry (file_image c) 0" "info_sectionCount (mem w') info = of_nat (length (file_segments c))"
    "info_sections (mem w') info = sections"
    using info_fields [of info "mem w'" ?m8] keep fr(2) i7 by (simp_all add: info_writes)
  have "mem w' x = mem w5 x" if x: "in_range ehdr 64 x \<or> in_range phdrs (phdrs_size c) x" for x
  proof -
    have "x \<in> live (fw w5)" "\<not> in_range info 24 x" using x fr sep by blast+
    then show ?thesis using keep [of x] l7(1) [of x] live6 by (simp add: write_info_outside w6)
  qed
  then have "headers (mem w') ehdr phdrs (e_phnum (file_image c) 0) (e_phentsize (file_image c) 0) (file_segment c)"
    using headers_kept [OF hd elf_okD(4) [OF ok]] by (simp add: phdrs_size_def)
  moreover have "page_of x \<in> owned (fw w')" if "x \<in> live (fw w5) \<or> in_range sections ?k x" for x
    using live_owned [OF sv, of x "fw w7"] that new l7(2) live6 by (auto simp: w')
  ultimately show ?thesis
    unfolding headers_ready_def i' using fr new by blast
qed

lemma get_file_info_ready:
  assumes sv: "loader_services bs file c pos owned live room" and ok: "elf_ok c" and pos: "pos (fw w) = 0"
    and fr: "\<And>x. in_range ehdr 64 x \<or> in_range info 24 x \<Longrightarrow> x \<in> live (fw w)" and sep: "no_overlap ehdr 64 info 24"
    and run: "elf_get_file_info bs file info ehdr ph0 w = ((st, phdrs), w')"
  shows "EFI_ERROR st \<and> room (fw w) < phdrs_size c + 32 * length (file_segments c) \<or>
    st = EFI_SUCCESS \<and> headers_ready owned c ehdr info phdrs w' \<and> room (fw w) \<le> room (fw w') + (phdrs_size c + 32 * length (file_segments c))"
proof (rule get_file_info_cases [OF run sv])
  fix r1 k1 w1 w2 n r3 p w3 r4 w4 r5 k5 w5 w6 r7 sections w7
  assume c1: "Read bs file 64 ehdr w = ((r1, k1), w1)" "\<not> EFI_ERROR r1"
    and w2: "w2 = w1\<lparr>mem := write64 (mem w1) info (e_entry (mem w1) ehdr)\<rparr>"
    and n: "n = scast (ucast (e_phnum (mem w2) ehdr) * ucast (e_phentsize (mem w2) ehdr) :: u32)"
    and c3: "AllocatePool bs EfiLoaderData n ph0 w2 = ((r3, p), w3)"
    and c4: "SetPosition bs file (e_phoff (mem w3) ehdr) w3 = (r4, w4)" "\<not> EFI_ERROR r4"
    and c5: "Read bs file n p w4 = ((r5, k5), w5)" "\<not> EFI_ERROR r5"
    and w6: "w6 = w5\<lparr>mem := write64 (mem w5) (info + 8) (elf_count_loadable (mem w5) ehdr p)\<rparr>"
    and c7: "AllocatePool bs EfiLoaderData (info_sectionCount (mem w6) info * sizeof_section) (info_sections (mem w6) info) w6 = ((r7, sections), w7)"
    and fin: "if EFI_ERROR (elf_verify_ehdr (mem w1) ehdr) then st = elf_verify_ehdr (mem w1) ehdr else if EFI_ERROR r3 then st = r3
       else if EFI_ERROR r7 then st = r7
       else st = EFI_SUCCESS \<and> p = phdrs \<and>
            w' = w7\<lparr>mem := let m = write64 (mem w7) (info + 16) sections
                           in ZeroMem m (info_sections m info) (info_sectionCount m info * sizeof_section)\<rparr>"
  note k = elf_okD [OF ok]
  have lc: "length c < 2 ^ 64" using k(2) by simp
  have sep': "\<not> in_range ehdr 64 x" if "in_range info 24 x" for x using sep that by (auto simp: no_overlap_def)
  have e1: "read_bytes (mem w1) ehdr 64 = take 64 c" using file_header_read [OF sv ok pos _ c1] fr by blast
  note h1 = ehdr_copy [OF e1 k(1) lc]
  have fr2: "x \<in> live (fw w2)" if "in_range ehdr 64 x \<or> in_range info 24 x" for x
    using fr [OF that] Read_law(2) [OF sv c1(1)] by (auto simp: w2)
  have e2: "read_bytes (mem w2) ehdr 64 = take 64 c"
    unfolding e1 [symmetric] by (rule read_bytes_frame) (use sep' in \<open>auto simp: w2 intro!: write_info_outside\<close>)
  have n': "unat n = phdrs_size c" by (rule phdrs_size_read [OF ok e2 n])
  have room2: "room (fw w) \<le> room (fw w2)" using file_room(1) [OF sv c1(1)] by (simp add: w2)
  show ?thesis
  proof (cases "EFI_ERROR r3")
    case True
    then have "EFI_ERROR st" using fin h1(1) k(3) by simp
    then show ?thesis using alloc_pool_room(1) [OF sv c3 True] n' room2 by simp
  next
    case ok3: False
    note ph = program_headers_read [OF sv ok e2 _ n c3 ok3 c4 c5]
    have hd: "headers (mem w5) ehdr p (e_phnum (file_image c) 0) (e_phentsize (file_image c) 0) (file_segment c)"
      using ph(4) fr2 by blast
    have "info_entry (mem w5) info = info_entry (mem w2) info" by (rule info_fields) (use ph(1) fr2 in blast)
    then have en: "info_entry (mem w5) info = e_entry (file_image c) 0" using h1(2) by (simp add: w2 info_writes)
    have cnt: "unat (info_sectionCount (mem w6) info * sizeof_section) = 32 * length (file_segments c)"
      by (rule section_array_size [OF hd w6])
    have room6: "room (fw w) \<le> room (fw w6) + phdrs_size c"
      using room2 alloc_pool_room(2) [OF sv c3 ok3] file_room(2) [OF sv c4(1)] file_room(1) [OF sv c5(1)] n' by (simp add: w6)
    show ?thesis
    proof (cases "EFI_ERROR r7")
      case True
      then have "EFI_ERROR st" using fin h1(1) k(3) ok3 by simp
      then show ?thesis using alloc_pool_room(1) [OF sv c7 True] cnt room6 by simp
    next
      case ok7: False
      then have "st = EFI_SUCCESS" and pe: "p = phdrs"
        and w': "w' = w7\<lparr>mem := let m = write64 (mem w7) (info + 16) sections
                               in ZeroMem m (info_sections m info) (info_sectionCount m info * sizeof_section)\<rparr>"
        using fin h1(1) k(3) ok3 by simp_all
      moreover have "headers_ready owned c ehdr info p w'"
        by (rule section_array_ready [OF sv ok _ _ _ _ hd en w6 c7 ok7 w']) (use fr2 ph(2,3) sep' in blast)+
      moreover have "room (fw w6) \<le> room (fw w') + 32 * length (file_segments c)"
        using alloc_pool_room(2) [OF sv c7 ok7] cnt by (simp add: w')
      ultimately show ?thesis using room6 by simp
    qed
  qed
qed

section \<open>The loader\<close>

text \<open>
  C4: loading the kernel.  Given a well-formed ELF file, services that keep their promises and a stack frame in use, \<open>elf_load_file\<close> in the
  mode the boot loader uses succeeds whenever the firmware has room for the headers, the section array and the pages of the segments.  Then
  the entry point and the number of sections are those of the file, and every loadable segment is described by its section entry and lies in the
  pages of that entry, followed by zeros to the end of the last page.  It can fail only for lack of memory, and then reports an error.
\<close>

theorem elf_load_file_loads:
  assumes "loader_services bs file c pos owned live room" "elf_ok c" "pos (fw w) = 0"
    and "\<forall>x. in_range ehdr 64 x \<or> in_range info 24 x \<longrightarrow> x \<in> live (fw w)" "no_overlap ehdr 64 info 24"
    and "elf_load_file bs file info ELF_LOAD_DISCONTIG ehdr w = (st, w')"
  shows "EFI_ERROR st \<and> room (fw w) < file_need c \<or>
    st = EFI_SUCCESS \<and> info_entry (mem w') info = e_entry (file_image c) 0 \<and>
    info_sectionCount (mem w') info = of_nat (length (file_segments c)) \<and>
    all_loaded (mem w') (info_sections (mem w') info) c (file_segments c)"
proof -
  obtain r phdrs w1 where gi: "elf_get_file_info bs file info ehdr 0 w = ((r, phdrs), w1)" by (metis surj_pair)
  obtain r2 w2 where lp: "load_discont_loop bs file ehdr phdrs (of_nat 0) (info_sections (mem w1) info) w1 = (r2, w2)" by (metis surj_pair)
  note run = assms(6) [unfolded elf_load_file_def elf_loadtype_t.case elf_load_file_discont_def Let_def, unfolded gi case_prod_conv]
  have ready: "EFI_ERROR r \<and> room (fw w) < phdrs_size c + 32 * length (file_segments c) \<or>
    r = EFI_SUCCESS \<and> headers_ready owned c ehdr info phdrs w1 \<and> room (fw w) \<le> room (fw w1) + (phdrs_size c + 32 * length (file_segments c))"
    by (rule get_file_info_ready [OF assms(1-3) _ assms(5) gi]) (use assms(4) in blast)
  show ?thesis
  proof (cases "EFI_ERROR r")
    case True
    then show ?thesis using run ready by (auto simp: file_need_def phdrs_size_def)
  next
    case False
    then have hr: "headers_ready owned c ehdr info phdrs w1" and rm: "room (fw w) \<le> room (fw w1) + (phdrs_size c + 32 * length (file_segments c))"
      using ready by auto
    have len: "length c < 2 ^ 63" using elf_okD(2) [OF assms(2)] by simp
    have "EFI_ERROR r2 \<and> room (fw w1) < segments_need (file_segments c) \<or>
      r2 = EFI_SUCCESS \<and> all_loaded (mem w2) (info_sections (mem w1) info) c (file_segments c) \<and>
      (\<forall>x. page_of x \<in> owned (fw w1) \<longrightarrow> \<not> in_range (info_sections (mem w1) info) (32 * length (file_segments c)) x \<longrightarrow> mem w2 x = mem w1 x)"
      by (rule load_discont_loop_loads [OF assms(1) len elf_okD(4) [OF assms(2)] elf_okD(6) [OF assms(2)] lp _ _ file_segments_eq])
        (use hr in \<open>auto simp: headers_ready_def phdrs_size_def\<close>)
    then show ?thesis
    proof (elim disjE conjE)
      assume "EFI_ERROR r2" "room (fw w1) < segments_need (file_segments c)"
      then show ?thesis using run lp False rm by (auto simp: file_need_def phdrs_size_def)
    next
      assume s: "r2 = EFI_SUCCESS" "all_loaded (mem w2) (info_sections (mem w1) info) c (file_segments c)"
        and keep: "\<forall>x. page_of x \<in> owned (fw w1) \<longrightarrow> \<not> in_range (info_sections (mem w1) info) (32 * length (file_segments c)) x \<longrightarrow> mem w2 x = mem w1 x"
      then have "st = EFI_SUCCESS" "w' = w2" using run lp False by auto
      moreover have "mem w2 x = mem w1 x" if "in_range info 24 x" for x using keep hr that unfolding headers_ready_def by blast
      note info_fields [OF this]
      ultimately show ?thesis using s(2) hr by (simp add: headers_ready_def)
    qed
  qed
qed

text \<open>A firmware with one file, an allocator that hands out ascending memory below \<^verbatim>\<open>2^40\<close>, and a file with one segment of two bytes.\<close>

definition demo_elf :: "u8 list" where
  "demo_elf = [0x7F, 0x45, 0x4C, 0x46, 2, 1, 1, 0, 0, 0, 0, 0, 0, 0, 0, 0, 2, 0, 62, 0, 1, 0, 0, 0] @
     [0, 0, 0x40, 0, 0, 0, 0, 0] @ [64, 0, 0, 0, 0, 0, 0, 0] @ [0, 0, 0, 0, 0, 0, 0, 0] @
     [0, 0, 0, 0, 64, 0, 56, 0, 1, 0, 0, 0, 0, 0, 0, 0] @
     [1, 0, 0, 0, 5, 0, 0, 0] @ [120, 0, 0, 0, 0, 0, 0, 0] @ [0, 0, 0x40, 0, 0, 0, 0, 0] @ [0, 0, 0, 0, 0, 0, 0, 0] @
     [2, 0, 0, 0, 0, 0, 0, 0] @ [3, 0, 0, 0, 0, 0, 0, 0] @ [0, 0x10, 0, 0, 0, 0, 0, 0] @ [0xAB, 0xCD]"

definition next_page :: "addr \<Rightarrow> addr" where
  "next_page a = a - a mod 0x1000 + 0x1000"

definition base :: "addr \<times> nat \<Rightarrow> addr" where
  "base f = (if fst f = 0 then 1 else fst f)"

definition demo_room :: "addr \<times> nat \<Rightarrow> nat" where
  "demo_room f = 2 ^ 40 - unat (base f)"

definition demo_bs :: "(addr \<times> nat) boot_services" where
  "demo_bs = null_bs\<lparr>
     AllocatePages := \<lambda>_ _ n a w. (if unat (fst (fw w)) + page_need n \<le> 2 ^ 40
        then ((EFI_SUCCESS, next_page (fst (fw w))), w\<lparr>fw := (next_page (fst (fw w)) + 0x1000 * n, snd (fw w))\<rparr>)
        else ((EFI_OUT_OF_RESOURCES, a), w)),
     AllocatePool := \<lambda>_ n a w. (if unat n \<le> demo_room (fw w)
        then ((EFI_SUCCESS, base (fw w)), w\<lparr>fw := (base (fw w) + n, snd (fw w))\<rparr>) else ((EFI_OUT_OF_RESOURCES, a), w)),
     Read := \<lambda>_ n buf w. ((EFI_SUCCESS, n), w\<lparr>mem := write_bytes (mem w) buf (take (unat n) (drop (snd (fw w)) demo_elf))\<rparr>),
     SetPosition := \<lambda>_ p w. (EFI_SUCCESS, w\<lparr>fw := (fst (fw w), unat p)\<rparr>)\<rparr>"

definition below :: "addr \<times> nat \<Rightarrow> addr set" where
  "below f = {a. a < fst f}"

lemma demo_bs_eval:
  "AllocatePages demo_bs ty mt n a w = (if unat (fst (fw w)) + page_need n \<le> 2 ^ 40
        then ((EFI_SUCCESS, next_page (fst (fw w))), w\<lparr>fw := (next_page (fst (fw w)) + 0x1000 * n, snd (fw w))\<rparr>)
        else ((EFI_OUT_OF_RESOURCES, a), w))"
  "AllocatePool demo_bs mt n a w = (if unat n \<le> demo_room (fw w)
        then ((EFI_SUCCESS, base (fw w)), w\<lparr>fw := (base (fw w) + n, snd (fw w))\<rparr>) else ((EFI_OUT_OF_RESOURCES, a), w))"
  "Read demo_bs fl n buf w = ((EFI_SUCCESS, n), w\<lparr>mem := write_bytes (mem w) buf (take (unat n) (drop (snd (fw w)) demo_elf))\<rparr>)"
  "SetPosition demo_bs fl p w = (EFI_SUCCESS, w\<lparr>fw := (fst (fw w), unat p)\<rparr>)"
  by (simp_all add: demo_bs_def)

lemma next_page_bounds:
  assumes "unat a + page_need n \<le> 2 ^ 40"
  shows "page_aligned (next_page a)" "a < next_page a" "k \<le> unat n \<Longrightarrow> unat (next_page a + 0x1000 * of_nat k) = unat (next_page a) + 0x1000 * k"
    "unat (next_page a) \<le> unat a + 0x1000"
proof -
  have m: "unat (a mod 0x1000) = unat a mod 0x1000" by (simp add: unat_mod)
  have d: "unat (a - a mod 0x1000) = unat a - unat a mod 0x1000" using m by (simp add: unat_sub_u64)
  have u: "unat (next_page a) = unat a - unat a mod 0x1000 + 0x1000"
    using unat_add_of_nat_u64 [of "a - a mod 0x1000" "0x1000"] d assms by (simp add: next_page_def page_need_def)
  show "page_aligned (next_page a)"
    unfolding page_aligned_def using u by (simp add: word_unat_eq_iff unat_mod minus_mod_eq_mult_div)
  have "unat a mod 0x1000 < 0x1000" by simp
  then show "a < next_page a" using u by (simp add: word_less_nat_alt)
  show le: "unat (next_page a) \<le> unat a + 0x1000" using u by simp
  show "unat (next_page a + 0x1000 * of_nat k) = unat (next_page a) + 0x1000 * k" if "k \<le> unat n"
    using unat_add_of_nat_u64 [of "next_page a" "0x1000 * k"] le assms that by (simp add: page_need_def)
qed

lemma demo_fresh_pages: "allocates_fresh_pages demo_bs below"
  unfolding allocates_fresh_pages_def
proof (intro allI impI)
  fix mt n a0 and w w' :: "(addr \<times> nat) world" and st a
  assume run: "AllocatePages demo_bs AllocateAnyPages mt n a0 w = ((st, a), w')"
  show "(\<forall>x. page_of x \<in> below (fw w) \<longrightarrow> mem w' x = mem w x) \<and> below (fw w) \<subseteq> below (fw w') \<and>
      (\<not> EFI_ERROR st \<longrightarrow> page_aligned a \<and>
         (\<forall>k < unat n. a + 0x1000 * of_nat k \<notin> below (fw w) \<and> a + 0x1000 * of_nat k \<in> below (fw w') \<and>
                        unat a + 0x1000 * k < 2 ^ 52))"
  proof (cases "unat (fst (fw w)) + page_need n \<le> 2 ^ 40")
    case True
    note b = next_page_bounds [OF True]
    have r: "st = EFI_SUCCESS" "a = next_page (fst (fw w))" "w' = w\<lparr>fw := (next_page (fst (fw w)) + 0x1000 * n, snd (fw w))\<rparr>"
      using run True by (auto simp: demo_bs_eval)
    have "unat (next_page (fst (fw w)) + 0x1000 * n) = unat (next_page (fst (fw w))) + 0x1000 * unat n" using b(3) [of "unat n"] by simp
    then show ?thesis
      using b(1,2,4) b(3) True by (auto simp: r below_def word_less_nat_alt page_need_def)
  next
    case False
    then show ?thesis using run by (simp add: demo_bs_eval)
  qed
qed

lemma base_bounds: "base f \<noteq> 0" "unat (fst f) \<le> unat (base f)" "unat (base f) \<le> unat (fst f) + 1"
  by (simp_all add: base_def)

lemma demo_room_add:
  assumes "k \<le> demo_room f"
  shows "unat (base f + of_nat k) = unat (base f) + k"
proof (rule unat_add_of_nat_u64)
  show "unat (base f) + k < 2 ^ 64"
    using assms unat_less_2p64 [of "base f"] by (cases "unat (base f) \<le> 2 ^ 40") (auto simp: demo_room_def)
qed

lemma demo_fresh_pool: "allocates_fresh_pool demo_bs below"
  unfolding allocates_fresh_pool_def
proof (intro allI impI)
  fix mt n a0 and w w' :: "(addr \<times> nat) world" and st a
  assume run: "AllocatePool demo_bs mt n a0 w = ((st, a), w')"
  show "(\<forall>x. x \<in> below (fw w) \<longrightarrow> mem w' x = mem w x) \<and> below (fw w) \<subseteq> below (fw w') \<and>
        (\<not> EFI_ERROR st \<longrightarrow> a \<noteq> 0 \<and> unat a + unat n \<le> 2 ^ 64 \<and>
           (\<forall>k < unat n. a + of_nat k \<notin> below (fw w) \<and> a + of_nat k \<in> below (fw w')))"
  proof (cases "unat n \<le> demo_room (fw w)")
    case True
    then have r: "st = EFI_SUCCESS" "a = base (fw w)" "w' = w\<lparr>fw := (base (fw w) + n, snd (fw w))\<rparr>"
      using run by (auto simp: demo_bs_eval)
    have u: "unat (base (fw w) + of_nat k) = unat (base (fw w)) + k" if "k \<le> unat n" for k
      using True that by (intro demo_room_add) simp
    have "unat (base (fw w) + n) = unat (base (fw w)) + unat n" using u [of "unat n"] by simp
    then show ?thesis using True base_bounds [of "fw w"] unat_le_2p64 [of "base (fw w) + n"] by (auto simp: r below_def word_less_nat_alt u)
  next
    case False
    then have "st = EFI_OUT_OF_RESOURCES" "w' = w" using run by (auto simp: demo_bs_eval)
    then show ?thesis by simp
  qed
qed

lemma demo_has_room: "has_room demo_bs fl demo_room"
proof -
  have pool: "(unat n \<le> demo_room (fw w) \<longrightarrow> \<not> EFI_ERROR st) \<and> (\<not> EFI_ERROR st \<longrightarrow> demo_room (fw w) \<le> demo_room (fw w') + unat n)"
    if "AllocatePool demo_bs mt n a0 w = ((st, a), w')" for mt n a0 w st a w'
  proof (cases "unat n \<le> demo_room (fw w)")
    case True
    then have u: "unat (base (fw w) + n) = unat (base (fw w)) + unat n" using demo_room_add [of "unat n" "fw w"] by simp
    then have "base (fw w) + n \<noteq> 0" using base_bounds(1) [of "fw w"] by (auto simp: unat_eq_0 [symmetric])
    moreover have "st = EFI_SUCCESS" "w' = w\<lparr>fw := (base (fw w) + n, snd (fw w))\<rparr>" using that True by (auto simp: demo_bs_eval)
    ultimately show ?thesis using True u by (auto simp: demo_room_def base_def [of "(_, _)"])
  next
    case False
    then have "EFI_ERROR st" using that by (auto simp: demo_bs_eval)
    then show ?thesis using False by (auto simp: demo_room_def)
  qed
  have pages: "(page_need n \<le> demo_room (fw w) \<longrightarrow> \<not> EFI_ERROR st) \<and> (\<not> EFI_ERROR st \<longrightarrow> demo_room (fw w) \<le> demo_room (fw w') + page_need n)"
    if "AllocatePages demo_bs AllocateAnyPages mt n a0 w = ((st, a), w')" for mt n a0 w st a w'
  proof (cases "unat (fst (fw w)) + page_need n \<le> 2 ^ 40")
    case True
    note b = next_page_bounds [OF True]
    have u: "unat (next_page (fst (fw w)) + 0x1000 * n) = unat (next_page (fst (fw w))) + 0x1000 * unat n" using b(3) [of "unat n"] by simp
    then have "next_page (fst (fw w)) + 0x1000 * n \<noteq> 0" using b(2) by (auto simp: unat_eq_0 [symmetric] word_less_nat_alt)
    moreover have "st = EFI_SUCCESS" "w' = w\<lparr>fw := (next_page (fst (fw w)) + 0x1000 * n, snd (fw w))\<rparr>" using that True by (auto simp: demo_bs_eval)
    ultimately show ?thesis using u b(4) base_bounds(2) [of "fw w"] by (auto simp: demo_room_def page_need_def base_def [of "(_, _)"])
  next
    case False
    then have "EFI_ERROR st" using that by (auto simp: demo_bs_eval)
    then show ?thesis using False base_bounds(2) [of "fw w"] by (auto simp: demo_room_def page_need_def)
  qed
  show ?thesis unfolding has_room_def using pool pages by (auto simp: demo_bs_eval demo_room_def base_def)
qed

lemma page_of_le: "page_of x \<le> x"
proof -
  have "unat (x mod 0x1000) \<le> unat x" by (simp add: unat_mod)
  then show ?thesis by (simp add: page_of_def word_le_nat_alt unat_sub_u64)
qed

lemma demo_services: "loader_services demo_bs fl demo_elf snd below below demo_room"
proof -
  have "serves_file demo_bs fl demo_elf snd below below" by (auto simp: serves_file_def demo_bs_eval below_def)
  moreover have "\<forall>f. \<forall>x \<in> below f. page_of x \<in> below f" using page_of_le order.strict_trans1 by (auto simp: below_def)
  ultimately show ?thesis by (simp add: loader_services_def demo_fresh_pages demo_fresh_pool demo_has_room)
qed

lemma demo_elf_len: "length demo_elf = 122"
  by (simp add: demo_elf_def)

lemma demo_bytes: "j + n \<le> 122 \<Longrightarrow> read_bytes (file_image demo_elf) (of_nat j) n = take n (drop j demo_elf)"
  by (rule read_image) (simp_all add: demo_elf_len)

definition demo_segment :: segment where
  "demo_segment = \<lparr>g_type = 1, g_flags = 5, g_offset = 120, g_vaddr = 0x400000, g_filesz = 2, g_memsz = 3\<rparr>"

lemma demo_header:
  "elf_verify_ehdr (file_image demo_elf) 0 = EFI_SUCCESS" "e_phnum (file_image demo_elf) 0 = 1" "e_phentsize (file_image demo_elf) 0 = 56"
  "e_phoff (file_image demo_elf) 0 = 64" "e_entry (file_image demo_elf) 0 = 0x400000"
proof -
  have b: "file_image demo_elf 4 = 2" "file_image demo_elf 5 = 1"
    using demo_bytes [of 4 1] demo_bytes [of 5 1] by (simp_all add: demo_elf_def)
  show "elf_verify_ehdr (file_image demo_elf) 0 = EFI_SUCCESS"
    using demo_bytes [of 0 4] b demo_bytes [of 16 2] demo_bytes [of 18 2] demo_bytes [of 20 4]
    by (simp add: elf_verify_ehdr_def e_type_def e_machine_def e_version_def read16_def read32_def demo_elf_def)
  show "e_phnum (file_image demo_elf) 0 = 1" "e_phentsize (file_image demo_elf) 0 = 56"
    "e_phoff (file_image demo_elf) 0 = 64" "e_entry (file_image demo_elf) 0 = 0x400000"
    using demo_bytes [of 24 8] demo_bytes [of 32 8] demo_bytes [of 54 2] demo_bytes [of 56 2]
    by (simp_all add: e_entry_def e_phoff_def e_phentsize_def e_phnum_def read16_def read64_def demo_elf_def)
qed

lemma demo_segments: "file_segments demo_elf = [demo_segment]"
proof -
  have "segment_at (file_image demo_elf) 64 = demo_segment"
    using demo_bytes [of 64 4] demo_bytes [of 68 4] demo_bytes [of 72 8] demo_bytes [of 80 8] demo_bytes [of 96 8] demo_bytes [of 104 8]
    by (simp add: segment_at_def demo_segment_def p_type_def p_flags_def p_offset_def p_vaddr_def p_filesz_def p_memsz_def read32_def read64_def demo_elf_def)
  then show ?thesis by (simp add: file_segments_def demo_header phdr_at_def demo_segment_def PT_LOAD_def)
qed

lemma demo_ok: "elf_ok demo_elf"
  by (simp add: elf_ok_def demo_elf_len demo_header demo_segments segment_ok_def demo_segment_def)

lemma demo_need: "file_need demo_elf = 8280"
  by (simp add: file_need_def demo_header demo_segments segments_need_def page_need_def pages_for_def demo_segment_def)

theorem elf_load_file_loads_witness:
  "let (st, w') = elf_load_file demo_bs 1 0x2000 ELF_LOAD_DISCONTIG 0x1000 \<lparr>mem = \<lambda>_. 0, fw = (0x5000, 0)\<rparr>
   in st = EFI_SUCCESS \<and> info_entry (mem w') 0x2000 = 0x400000 \<and> info_sectionCount (mem w') 0x2000 = 1 \<and>
      loaded (mem w') (info_sections (mem w') 0x2000) demo_elf demo_segment"
proof -
  let ?w = "\<lparr>mem = \<lambda>_. 0, fw = (0x5000, 0)\<rparr> :: (addr \<times> nat) world"
  obtain st w' where run: "elf_load_file demo_bs 1 0x2000 ELF_LOAD_DISCONTIG 0x1000 ?w = (st, w')" by fastforce
  have fr: "\<forall>x. in_range 0x1000 64 x \<or> in_range 0x2000 24 x \<longrightarrow> x \<in> below (fw ?w)"
    by (auto simp: in_range_def below_def word_less_nat_alt unat_sub_u64 split: if_splits)
  have sep: "no_overlap (0x1000 :: addr) 64 0x2000 24" by (rule no_overlap_linear) simp_all
  have "\<not> demo_room (fw ?w) < file_need demo_elf" by (simp add: demo_need demo_room_def base_def)
  then show ?thesis
    using elf_load_file_loads [OF demo_services demo_ok _ fr sep run] by (simp add: run demo_segments demo_header)
qed

end
