(* ===== verification/Efi_Misc.thy ===== *)
theory Efi_Misc
  imports Boot_Fs
begin

text \<open>
  \<^verbatim>\<open>gnu-efi/lib/misc.c\<close>: pool helpers, the buffer-growing protocol around firmware calls, EFI variables,
  the check of a master boot record, and the search in the configuration tables.  The library's
  \<^verbatim>\<open>AllocatePool\<close> and \<^verbatim>\<open>FreePool\<close> are \<open>LibAllocatePool\<close> and \<open>LibFreePool\<close> here, to tell them from the services they call;
  the global \<^verbatim>\<open>PoolAllocationType\<close> is an argument.
\<close>

section \<open>Pool memory\<close>

definition LibAllocatePool :: "'f boot_services \<Rightarrow> u32 \<Rightarrow> u64 \<Rightarrow> 'f world \<Rightarrow> addr \<times> 'f world" where
  "LibAllocatePool bs PoolAllocationType Size w =
     (let ((Status, p), w1) = AllocatePool bs PoolAllocationType Size 0 w
      in if EFI_ERROR Status then (0, w1) else (p, w1))"

definition AllocateZeroPool :: "'f boot_services \<Rightarrow> u32 \<Rightarrow> u64 \<Rightarrow> 'f world \<Rightarrow> addr \<times> 'f world" where
  "AllocateZeroPool bs pt Size w =
     (let (p, w1) = LibAllocatePool bs pt Size w
      in if p \<noteq> 0 then (p, w1\<lparr>mem := ZeroMem (mem w1) p Size\<rparr>) else (p, w1))"

definition LibFreePool :: "'f boot_services \<Rightarrow> addr \<Rightarrow> 'f world \<Rightarrow> 'f world" where
  "LibFreePool bs Buffer w = snd (FreePool bs Buffer w)"

definition ReallocatePool :: "'f boot_services \<Rightarrow> u32 \<Rightarrow> addr \<Rightarrow> u64 \<Rightarrow> u64 \<Rightarrow> 'f world \<Rightarrow> addr \<times> 'f world" where
  "ReallocatePool bs pt OldPool OldSize NewSize w =
     (let (NewPool, w1) = (if NewSize \<noteq> 0 then LibAllocatePool bs pt NewSize w else (0, w));
          w3 = (if OldPool \<noteq> 0 then
                  let w2 = (if NewPool \<noteq> 0
                            then w1\<lparr>mem := CopyMem (mem w1) NewPool OldPool (if OldSize < NewSize then OldSize else NewSize)\<rparr>
                            else w1)
                  in LibFreePool bs OldPool w2
                else w1)
      in (NewPool, w3))"

text \<open>Returned: \<^verbatim>\<open>TryAgain\<close>, \<^verbatim>\<open>*Status\<close>, \<^verbatim>\<open>*Buffer\<close> and the world.\<close>

definition GrowBuffer :: "'f boot_services \<Rightarrow> u32 \<Rightarrow> status \<Rightarrow> addr \<Rightarrow> u64 \<Rightarrow> 'f world \<Rightarrow>
    (bool \<times> status \<times> addr) \<times> 'f world" where
  "GrowBuffer bs pt Status Buffer BufferSize w =
     (let Status = (if Buffer = 0 \<and> BufferSize \<noteq> 0 then EFI_BUFFER_TOO_SMALL else Status);
          (TryAgain, Status, Buffer, w) =
            (if Status = EFI_BUFFER_TOO_SMALL then
               let w1 = (if Buffer \<noteq> 0 then LibFreePool bs Buffer w else w);
                   (Buffer, w2) = LibAllocatePool bs pt BufferSize w1
               in if Buffer \<noteq> 0 then (True, Status, Buffer, w2) else (False, EFI_OUT_OF_RESOURCES, Buffer, w2)
             else (False, Status, Buffer, w))
      in if \<not> TryAgain \<and> EFI_ERROR Status \<and> Buffer \<noteq> 0 then ((TryAgain, Status, 0), LibFreePool bs Buffer w)
         else ((TryAgain, Status, Buffer), w))"

text \<open>
  The loop \<^verbatim>\<open>while (GrowBuffer(&Status, &Buffer, BufferSize)) Status = call(&BufferSize, Buffer);\<close> with a service call that
  returns the status, the new buffer size and other results of type \<open>'r\<close>.
\<close>

partial_function (option) grow_loop ::
  "'f boot_services \<Rightarrow> u32 \<Rightarrow> (u64 \<Rightarrow> addr \<Rightarrow> 'r \<Rightarrow> 'f world \<Rightarrow> (status \<times> u64 \<times> 'r) \<times> 'f world) \<Rightarrow>
    status \<Rightarrow> addr \<Rightarrow> u64 \<Rightarrow> 'r \<Rightarrow> 'f world \<Rightarrow> ((status \<times> addr \<times> u64 \<times> 'r) \<times> 'f world) option" where
  [code]: "grow_loop bs pt call Status Buffer BufferSize r w =
     (let ((TryAgain, Status, Buffer), w1) = GrowBuffer bs pt Status Buffer BufferSize w in
      if \<not> TryAgain then Some ((Status, Buffer, BufferSize, r), w1)
      else let ((Status, BufferSize, r), w2) = call BufferSize Buffer r w1
           in grow_loop bs pt call Status Buffer BufferSize r w2)"

text \<open>Returned: the buffer, \<^verbatim>\<open>*NoEntries\<close> and the other out parameters; the division fault is \<open>None\<close>.\<close>

definition LibMemoryMap :: "'f boot_services \<Rightarrow> u32 \<Rightarrow> u64 \<Rightarrow> u64 \<times> u64 \<times> u32 \<Rightarrow> 'f world \<Rightarrow>
    ((addr \<times> u64 \<times> u64 \<times> u64 \<times> u32) \<times> 'f world) option" where
  "LibMemoryMap bs pt NoEntries out w =
     (case grow_loop bs pt
        (\<lambda>BufferSize Buffer (MapKey, DescriptorSize, DescriptorVersion) w.
           let ((st, size, key, ds, dv), w1) =
             GetMemoryMap bs Buffer (BufferSize, MapKey, DescriptorSize, DescriptorVersion) w
           in ((st, size, (key, ds, dv)), w1))
        EFI_SUCCESS 0 40 out w of None \<Rightarrow> None
      | Some ((Status, Buffer, BufferSize, (MapKey, DescriptorSize, DescriptorVersion)), w1) \<Rightarrow>
          if \<not> EFI_ERROR Status then
            (if DescriptorSize = 0 then None
             else Some ((Buffer, BufferSize div DescriptorSize, MapKey, DescriptorSize, DescriptorVersion), w1))
          else Some ((Buffer, NoEntries, MapKey, DescriptorSize, DescriptorVersion), w1))"

section \<open>EFI variables\<close>

text \<open>
  Names are the literals of the program or pointers; the vendor GUID is at an address.
\<close>

record 'f runtime_services =
  GetVariable :: "path_arg \<Rightarrow> addr \<Rightarrow> u64 \<Rightarrow> addr \<Rightarrow> 'f world \<Rightarrow> (status \<times> u64) \<times> 'f world"
  SetVariable :: "path_arg \<Rightarrow> addr \<Rightarrow> u32 \<Rightarrow> u64 \<Rightarrow> addr \<Rightarrow> 'f world \<Rightarrow> status \<times> 'f world"

definition EFI_VARIABLE_NON_VOLATILE :: u32 where "EFI_VARIABLE_NON_VOLATILE = 1"
definition EFI_VARIABLE_BOOTSERVICE_ACCESS :: u32 where "EFI_VARIABLE_BOOTSERVICE_ACCESS = 2"
definition EFI_VARIABLE_RUNTIME_ACCESS :: u32 where "EFI_VARIABLE_RUNTIME_ACCESS = 4"

definition LibGetVariableAndSize :: "'f boot_services \<Rightarrow> 'f runtime_services \<Rightarrow> u32 \<Rightarrow> path_arg \<Rightarrow> addr \<Rightarrow> 'f world \<Rightarrow>
    ((addr \<times> u64) \<times> 'f world) option" where
  "LibGetVariableAndSize bs rt pt Name VendorGuid w =
     (case grow_loop bs pt
        (\<lambda>BufferSize Buffer _ w. let ((st, size), w1) = GetVariable rt Name VendorGuid BufferSize Buffer w in ((st, size, ()), w1))
        EFI_SUCCESS 0 100 () w of None \<Rightarrow> None
      | Some ((Status, Buffer, BufferSize, _), w1) \<Rightarrow>
          Some ((Buffer, if Buffer \<noteq> 0 then BufferSize else 0), w1))"

definition LibGetVariable :: "'f boot_services \<Rightarrow> 'f runtime_services \<Rightarrow> u32 \<Rightarrow> path_arg \<Rightarrow> addr \<Rightarrow> 'f world \<Rightarrow>
    (addr \<times> 'f world) option" where
  "LibGetVariable bs rt pt Name VendorGuid w =
     (case LibGetVariableAndSize bs rt pt Name VendorGuid w of None \<Rightarrow> None
      | Some ((Buffer, _), w1) \<Rightarrow> Some (Buffer, w1))"

definition LibDeleteVariable :: "'f boot_services \<Rightarrow> 'f runtime_services \<Rightarrow> u32 \<Rightarrow> path_arg \<Rightarrow> addr \<Rightarrow> 'f world \<Rightarrow>
    (status \<times> 'f world) option" where
  "LibDeleteVariable bs rt pt VarName VarGuid w =
     (case LibGetVariable bs rt pt VarName VarGuid w of None \<Rightarrow> None
      | Some (VarBuf, w1) \<Rightarrow>
          if VarBuf \<noteq> 0 then
            let (Status, w2) = SetVariable rt VarName VarGuid
                  (EFI_VARIABLE_BOOTSERVICE_ACCESS OR EFI_VARIABLE_RUNTIME_ACCESS OR EFI_VARIABLE_NON_VOLATILE) 0 0 w1
            in Some (Status, LibFreePool bs VarBuf w2)
          else Some (EFI_NOT_FOUND, w1))"

definition LibSetNVVariable :: "'f runtime_services \<Rightarrow> path_arg \<Rightarrow> addr \<Rightarrow> u64 \<Rightarrow> addr \<Rightarrow> 'f world \<Rightarrow> status \<times> 'f world" where
  "LibSetNVVariable rt VarName VarGuid DataSize Data w =
     SetVariable rt VarName VarGuid
       (EFI_VARIABLE_BOOTSERVICE_ACCESS OR EFI_VARIABLE_RUNTIME_ACCESS OR EFI_VARIABLE_NON_VOLATILE) DataSize Data w"

definition LibSetVariable :: "'f runtime_services \<Rightarrow> path_arg \<Rightarrow> addr \<Rightarrow> u64 \<Rightarrow> addr \<Rightarrow> 'f world \<Rightarrow> status \<times> 'f world" where
  "LibSetVariable rt VarName VarGuid DataSize Data w =
     SetVariable rt VarName VarGuid (EFI_VARIABLE_BOOTSERVICE_ACCESS OR EFI_VARIABLE_RUNTIME_ACCESS) DataSize Data w"

text \<open>\<^verbatim>\<open>VarBootOrder\<close> is the literal \<^verbatim>\<open>L"BootOrder"\<close>; \<open>gvar\<close> is the address of \<^verbatim>\<open>EfiGlobalVariable\<close>.\<close>

definition VarBootOrder :: path_arg where
  "VarBootOrder = Literal [0x42, 0x6F, 0x6F, 0x74, 0x4F, 0x72, 0x64, 0x65, 0x72]"

primrec copy_u16s :: "memory \<Rightarrow> addr \<Rightarrow> addr \<Rightarrow> nat \<Rightarrow> u64 \<Rightarrow> memory" where
  "copy_u16s m dst src 0 i = m"
| "copy_u16s m dst src (Suc n) i = copy_u16s (write16 m (dst + 2 * i) (read16 m (src + 2 * i))) dst src n (i + 1)"

definition LibInsertToTailOfBootOrder :: "'f boot_services \<Rightarrow> 'f runtime_services \<Rightarrow> u32 \<Rightarrow> addr \<Rightarrow> u16 \<Rightarrow> bool \<Rightarrow> 'f world \<Rightarrow>
    (status \<times> 'f world) option" where
  "LibInsertToTailOfBootOrder bs rt pt gvar BootOption OnlyInsertIfEmpty w =
     (case LibGetVariableAndSize bs rt pt VarBootOrder gvar w of None \<Rightarrow> None
      | Some ((BootOptionArray, VarSize), w1) \<Rightarrow>
          if VarSize \<noteq> 0 \<and> OnlyInsertIfEmpty then
            Some (EFI_UNSUPPORTED, if BootOptionArray \<noteq> 0 then LibFreePool bs BootOptionArray w1 else w1)
          else let VarSize = VarSize + 2; (NewBootOptionArray, w2) = LibAllocatePool bs pt VarSize w1 in
          if NewBootOptionArray = 0 then Some (EFI_OUT_OF_RESOURCES, w2)
          else let n = VarSize div 2 - 1;
                   m = copy_u16s (mem w2) NewBootOptionArray BootOptionArray (unat n) 0;
                   w3 = w2\<lparr>mem := write16 m (NewBootOptionArray + 2 * n) BootOption\<rparr>;
                   (Status, w4) = SetVariable rt VarBootOrder gvar
                     (EFI_VARIABLE_BOOTSERVICE_ACCESS OR EFI_VARIABLE_RUNTIME_ACCESS OR EFI_VARIABLE_NON_VOLATILE)
                     VarSize NewBootOptionArray w3;
                   w5 = LibFreePool bs NewBootOptionArray w4
               in Some (Status, if BootOptionArray \<noteq> 0 then LibFreePool bs BootOptionArray w5 else w5))"

section \<open>Master boot records\<close>

text \<open>Four partition records of 16 bytes at offset 446; the signature at offset 510.\<close>

definition mbr_part :: "addr \<Rightarrow> nat \<Rightarrow> addr" where
  "mbr_part Mbr i = Mbr + 446 + 16 * of_nat i"

definition mbr_empty :: "memory \<Rightarrow> addr \<Rightarrow> nat \<Rightarrow> bool" where
  "mbr_empty m Mbr i \<longleftrightarrow> m (mbr_part Mbr i + 4) = 0 \<or> read32 m (mbr_part Mbr i + 12) = 0"

definition mbr_start :: "memory \<Rightarrow> addr \<Rightarrow> nat \<Rightarrow> u32" where
  "mbr_start m Mbr i = read32 m (mbr_part Mbr i + 8)"

definition mbr_end :: "memory \<Rightarrow> addr \<Rightarrow> nat \<Rightarrow> u32" where
  "mbr_end m Mbr i = mbr_start m Mbr i + read32 m (mbr_part Mbr i + 12) - 1"

definition mbr_beyond :: "u64 \<Rightarrow> u32 \<Rightarrow> bool" where
  "mbr_beyond LastBlock EndingLBA \<longleftrightarrow>
     LastBlock < ucast EndingLBA \<and> (LastBlock < 0x80000 \<or> LastBlock + 0x40000 < ucast EndingLBA)"

definition mbr_clash :: "memory \<Rightarrow> addr \<Rightarrow> nat \<Rightarrow> nat \<Rightarrow> bool" where
  "mbr_clash m Mbr i j \<longleftrightarrow>
     (mbr_start m Mbr i \<le> mbr_start m Mbr j \<and> mbr_start m Mbr j \<le> mbr_end m Mbr i) \<or>
     (mbr_start m Mbr i \<le> mbr_end m Mbr j \<and> mbr_end m Mbr j \<le> mbr_end m Mbr i)"

primrec mbr_inner :: "memory \<Rightarrow> addr \<Rightarrow> nat \<Rightarrow> nat list \<Rightarrow> bool" where
  "mbr_inner m Mbr i [] = True"
| "mbr_inner m Mbr i (j # js) =
     (if mbr_empty m Mbr j then mbr_inner m Mbr i js
      else if mbr_clash m Mbr i j then False else mbr_inner m Mbr i js)"

primrec mbr_outer :: "memory \<Rightarrow> addr \<Rightarrow> u64 \<Rightarrow> bool \<Rightarrow> nat list \<Rightarrow> bool" where
  "mbr_outer m Mbr LastBlock ValidMbr [] = ValidMbr"
| "mbr_outer m Mbr LastBlock ValidMbr (i # is) =
     (if mbr_empty m Mbr i then mbr_outer m Mbr LastBlock ValidMbr is
      else if mbr_beyond LastBlock (mbr_end m Mbr i) then False
      else if \<not> mbr_inner m Mbr i [i + 1..<4] then False
      else mbr_outer m Mbr LastBlock True is)"

definition ValidMBR :: "memory \<Rightarrow> addr \<Rightarrow> u64 \<Rightarrow> bool" where
  "ValidMBR m Mbr LastBlock =
     (if read16 m (Mbr + 510) \<noteq> 0xAA55 then False else mbr_outer m Mbr LastBlock False [0..<4])"

section \<open>Small helpers\<close>

definition DecimaltoBCD :: "u8 \<Rightarrow> u8" where "DecimaltoBCD DecValue = RtDecimaltoBCD DecValue"
definition BCDtoDecimal :: "u8 \<Rightarrow> u8" where "BCDtoDecimal BcdValue = RtBCDtoDecimal BcdValue"

text \<open>
  The configuration table has \<open>n\<close> entries of 24 bytes at \<open>table\<close>: the GUID, then the table pointer at offset 16.
\<close>

primrec config_table_loop :: "memory \<Rightarrow> addr \<Rightarrow> addr \<Rightarrow> nat \<Rightarrow> u64 \<Rightarrow> addr \<Rightarrow> status \<times> addr" where
  "config_table_loop m table TableGuid 0 Index Table = (EFI_NOT_FOUND, Table)"
| "config_table_loop m table TableGuid (Suc n) Index Table =
     (if CompareGuid m TableGuid (table + 24 * Index) = 0 then (EFI_SUCCESS, read64 m (table + 24 * Index + 16))
      else config_table_loop m table TableGuid n (Index + 1) Table)"

definition LibGetSystemConfigurationTable :: "memory \<Rightarrow> addr \<Rightarrow> u64 \<Rightarrow> addr \<Rightarrow> addr \<Rightarrow> status \<times> addr" where
  "LibGetSystemConfigurationTable m table NumberOfTableEntries TableGuid Table =
     config_table_loop m table TableGuid (unat NumberOfTableEntries) 0 Table"

section \<open>What a valid master boot record guarantees\<close>

lemma mbr_inner_iff:
  "mbr_inner m Mbr i js \<longleftrightarrow> (\<forall>j \<in> set js. \<not> mbr_empty m Mbr j \<longrightarrow> \<not> mbr_clash m Mbr i j)"
  by (induction js) auto

lemma mbr_outer_iff:
  "mbr_outer m Mbr L v is \<longleftrightarrow> (v \<or> (\<exists>i \<in> set is. \<not> mbr_empty m Mbr i)) \<and>
     (\<forall>i \<in> set is. \<not> mbr_empty m Mbr i \<longrightarrow> \<not> mbr_beyond L (mbr_end m Mbr i) \<and> mbr_inner m Mbr i [i + 1..<4])"
  by (induction "is" arbitrary: v) auto

definition mbr_blocks :: "memory \<Rightarrow> addr \<Rightarrow> nat \<Rightarrow> u32 set" where
  "mbr_blocks m Mbr i = {mbr_start m Mbr i..mbr_end m Mbr i}"

text \<open>The last block of partition \<open>i\<close> is not past the 32-bit block range.\<close>

definition mbr_no_wrap :: "memory \<Rightarrow> addr \<Rightarrow> nat \<Rightarrow> bool" where
  "mbr_no_wrap m Mbr i \<longleftrightarrow> mbr_start m Mbr i \<le> mbr_end m Mbr i"

lemma ValidMBR_no_clash:
  assumes "ValidMBR m Mbr L" "i < j" "j < 4" "\<not> mbr_empty m Mbr i" "\<not> mbr_empty m Mbr j"
  shows "\<not> mbr_clash m Mbr i j"
proof -
  have "mbr_inner m Mbr i [i + 1..<4]" using assms by (auto simp: ValidMBR_def mbr_outer_iff split: if_splits)
  then show ?thesis using assms by (auto simp: mbr_inner_iff)
qed

lemma no_clash_cases:
  assumes "\<not> mbr_clash m Mbr i j" "mbr_no_wrap m Mbr i" "mbr_no_wrap m Mbr j"
  shows "mbr_blocks m Mbr i \<inter> mbr_blocks m Mbr j = {} \<or> mbr_blocks m Mbr i \<subset> mbr_blocks m Mbr j"
  using assms unfolding mbr_clash_def mbr_no_wrap_def mbr_blocks_def
  by (auto simp: psubset_eq)

lemma ValidMBR_end:
  assumes "ValidMBR m Mbr LastBlock" "i < 4" "\<not> mbr_empty m Mbr i" "unat LastBlock + 0x40000 < 2 ^ 64"
  shows "unat (mbr_end m Mbr i) \<le> unat LastBlock + 0x40000"
proof -
  have nb: "\<not> mbr_beyond LastBlock (mbr_end m Mbr i)"
    using assms by (auto simp: ValidMBR_def mbr_outer_iff split: if_splits)
  have e: "unat (ucast (mbr_end m Mbr i) :: u64) = unat (mbr_end m Mbr i)" by (rule unat_ucast_up) simp
  have p: "unat (LastBlock + 0x40000) = unat LastBlock + 0x40000"
    using assms(4) by (simp add: unat_word_ariths)
  show ?thesis using nb unfolding mbr_beyond_def by (auto simp: word_less_nat_alt not_less e p)
qed

text \<open>
  C17: a master boot record that \<open>ValidMBR\<close> accepts has at least one used partition; every used partition
  ends at most \<^verbatim>\<open>MBR_ERRATA_PAD\<close> blocks after the last block of the device; and of two used partitions that do not wrap,
  the blocks are disjoint unless those of the earlier entry lie strictly within those of the later one.
\<close>

theorem ValidMBR_partitions:
  assumes "ValidMBR m Mbr LastBlock"
  shows "(\<exists>i < 4. \<not> mbr_empty m Mbr i) \<and>
    (\<forall>i < 4. \<not> mbr_empty m Mbr i \<longrightarrow> unat LastBlock + 0x40000 < 2 ^ 64 \<longrightarrow>
      unat (mbr_end m Mbr i) \<le> unat LastBlock + 0x40000) \<and>
    (\<forall>i j. i < j \<longrightarrow> j < 4 \<longrightarrow> \<not> mbr_empty m Mbr i \<longrightarrow> \<not> mbr_empty m Mbr j \<longrightarrow>
      mbr_no_wrap m Mbr i \<longrightarrow> mbr_no_wrap m Mbr j \<longrightarrow>
      mbr_blocks m Mbr i \<inter> mbr_blocks m Mbr j = {} \<or> mbr_blocks m Mbr i \<subset> mbr_blocks m Mbr j)"
proof -
  have "mbr_outer m Mbr LastBlock False [0..<4]" using assms by (simp add: ValidMBR_def split: if_splits)
  then have "\<exists>i < 4. \<not> mbr_empty m Mbr i" by (auto simp: mbr_outer_iff)
  then show ?thesis
    using ValidMBR_end [OF assms] no_clash_cases [OF ValidMBR_no_clash [OF assms]] by blast
qed

text \<open>
  A record with one-block-short nested partitions: the first covers blocks 5 to 6, the second blocks 4 to 8.
\<close>

definition nested_mbr :: memory where
  "nested_mbr = (\<lambda>_. 0)(510 := 0x55, 511 := 0xAA, 450 := 7, 454 := 5, 458 := 2, 466 := 7, 470 := 4, 474 := 5)"

lemma nested_mbr_eval:
  "read16 nested_mbr 510 = 0xAA55" "mbr_empty nested_mbr 0 2" "mbr_empty nested_mbr 0 3"
  "mbr_start nested_mbr 0 0 = 5" "mbr_end nested_mbr 0 0 = 6" "\<not> mbr_empty nested_mbr 0 0"
  "mbr_start nested_mbr 0 1 = 4" "mbr_end nested_mbr 0 1 = 8" "\<not> mbr_empty nested_mbr 0 1"
  by (simp_all add: nested_mbr_def mbr_empty_def mbr_start_def mbr_end_def mbr_part_def read16_def read32_def eval_simps)

lemma nested_mbr_valid: "ValidMBR nested_mbr 0 100"
proof -
  have "[0..<4] = [0, 1, 2, 3::nat]" "[1..<4] = [1, 2, 3::nat]" "[2..<4] = [2, 3::nat]" by (simp_all add: upt_rec)
  then show ?thesis
    using nested_mbr_eval
    by (simp add: ValidMBR_def mbr_clash_def mbr_beyond_def add_2_eq_Suc [symmetric] del: add_2_eq_Suc upt_Suc)
qed

text \<open>The check accepts partitions that overlap, when the later entry contains the earlier one.\<close>

theorem ValidMBR_accepts_overlap:
  "\<exists>m. ValidMBR m 0 100 \<and> \<not> mbr_empty m 0 0 \<and> \<not> mbr_empty m 0 1 \<and> mbr_blocks m 0 0 \<inter> mbr_blocks m 0 1 \<noteq> {}"
proof -
  have "5 \<in> mbr_blocks nested_mbr 0 0 \<inter> mbr_blocks nested_mbr 0 1"
    using nested_mbr_eval by (simp add: mbr_blocks_def)
  then show ?thesis using nested_mbr_valid nested_mbr_eval by blast
qed

theorem ValidMBR_partitions_witness:
  "ValidMBR nested_mbr 0 100 \<and> (\<exists>i < 4. \<not> mbr_empty nested_mbr 0 i) \<and> unat (mbr_end nested_mbr 0 1) \<le> 100 + 0x40000 \<and>
   mbr_blocks nested_mbr 0 0 \<subset> mbr_blocks nested_mbr 0 1"
proof -
  note v = nested_mbr_valid
  have "5 \<in> mbr_blocks nested_mbr 0 0 \<inter> mbr_blocks nested_mbr 0 1"
    using nested_mbr_eval by (simp add: mbr_blocks_def)
  moreover note all = ValidMBR_partitions [OF v]
  from all have "mbr_blocks nested_mbr 0 0 \<inter> mbr_blocks nested_mbr 0 1 = {} \<or>
      mbr_blocks nested_mbr 0 0 \<subset> mbr_blocks nested_mbr 0 1"
    using nested_mbr_eval by (auto simp: mbr_no_wrap_def)
  ultimately show ?thesis using v nested_mbr_eval all by auto
qed

section \<open>BCD\<close>

lemma BCD_table:
  "list_all (\<lambda>n. BCDtoDecimal (DecimaltoBCD (of_nat n)) = of_nat n \<and>
     DecimaltoBCD (of_nat n) = 16 * (of_nat n div 10) + of_nat n mod 10) [0..<100]"
  by code_simp

text \<open>
  For two-digit values the BCD conversions are inverse to each other, and the encoding has the decimal
  digits in its two nibbles.
\<close>

lemma BCD_roundtrip:
  assumes "v < 100"
  shows "BCDtoDecimal (DecimaltoBCD v) = v \<and> DecimaltoBCD v = 16 * (v div 10) + v mod 10"
proof -
  have "unat v \<in> set [0..<100]" using assms by (simp add: word_less_nat_alt)
  then have "BCDtoDecimal (DecimaltoBCD (of_nat (unat v))) = of_nat (unat v) \<and>
     DecimaltoBCD (of_nat (unat v)) = 16 * (of_nat (unat v) div 10) + of_nat (unat v) mod 10"
    using BCD_table unfolding list_all_iff by (rule bspec [rotated])
  then show ?thesis unfolding of_nat_unat ucast_id .
qed

section \<open>Reading a variable of unknown size\<close>

text \<open>
  The documented protocol of \<^verbatim>\<open>GetVariable\<close> for the variable \<open>data\<close>: with a buffer that is too small it reports the size
  needed and writes nothing, otherwise it stores the value in the buffer and reports its size.
\<close>

definition serves_variable :: "'f runtime_services \<Rightarrow> path_arg \<Rightarrow> addr \<Rightarrow> u8 list \<Rightarrow> bool" where
  "serves_variable rt Name Guid data \<longleftrightarrow>
     (\<forall>size buf w. GetVariable rt Name Guid size buf w =
        (if unat size < length data then ((EFI_BUFFER_TOO_SMALL, of_nat (length data)), w)
         else ((EFI_SUCCESS, of_nat (length data)), w\<lparr>mem := write_bytes (mem w) buf data\<rparr>)))"

text \<open>The pool never runs out: an allocation succeeds with a block that is not at address zero.\<close>

definition pool_serves :: "'f boot_services \<Rightarrow> bool" where
  "pool_serves bs \<longleftrightarrow> (\<forall>mt n a w. \<exists>p w'. AllocatePool bs mt n a w = ((EFI_SUCCESS, p), w') \<and> p \<noteq> 0)"

lemma GrowBuffer_request:
  assumes "pool_serves bs" "Status = EFI_BUFFER_TOO_SMALL \<or> Buffer = 0 \<and> BufferSize \<noteq> 0"
  obtains p w' where "GrowBuffer bs pt Status Buffer BufferSize w = ((True, EFI_BUFFER_TOO_SMALL, p), w')" "p \<noteq> 0"
proof -
  let ?w1 = "if Buffer \<noteq> 0 then LibFreePool bs Buffer w else w"
  obtain p w' where "AllocatePool bs pt BufferSize 0 ?w1 = ((EFI_SUCCESS, p), w')" "p \<noteq> 0"
    using assms(1) unfolding pool_serves_def by blast
  with assms(2) show thesis
    by (intro that [of p w']; cases "Buffer = 0"; cases "Status = EFI_BUFFER_TOO_SMALL")
      (simp_all add: GrowBuffer_def LibAllocatePool_def)
qed

lemma GrowBuffer_done:
  "\<not> EFI_ERROR Status \<Longrightarrow> Buffer \<noteq> 0 \<Longrightarrow> GrowBuffer bs pt Status Buffer BufferSize w = ((False, Status, Buffer), w)"
  by (auto simp: GrowBuffer_def)

lemmas grow_loop_step = grow_loop.simps [unfolded Let_def]


definition demo_rt :: "unit runtime_services" where
  "demo_rt = \<lparr>GetVariable = \<lambda>_ _ size buf w.
       if unat size < 3 then ((EFI_BUFFER_TOO_SMALL, 3), w) else ((EFI_SUCCESS, 3), w\<lparr>mem := write_bytes (mem w) buf [7, 8, 9]\<rparr>),
     SetVariable = \<lambda>_ _ _ _ _ w. (EFI_UNSUPPORTED, w)\<rparr>"

definition fixed_pool_bs :: "unit boot_services" where
  "fixed_pool_bs = null_bs\<lparr>AllocatePool := \<lambda>_ _ _ w. ((EFI_SUCCESS, 0x1000), w)\<rparr>"


end
