(* ===== verification/Efi_Dpath.thy ===== *)
theory Efi_Dpath
  imports Efi_Misc "HOL-Library.Monad_Syntax"
begin

text \<open>
  Device paths, \<^verbatim>\<open>gnu-efi/lib/dpath.c\<close>: walking, measuring, duplicating, appending and unpacking them, and comparing a path with
  the instances of another.  A device path is a sequence of nodes in memory; each starts with a type, a subtype and its length in two bytes, and
  an end node of subtype \<^verbatim>\<open>0xFF\<close> closes the path, one of subtype 1 an instance of it.

  A walk along nodes that never meets an end node is \<open>None\<close>.  The constants \<^verbatim>\<open>EndDevicePath\<close> and \<^verbatim>\<open>EndInstanceDevicePath\<close> are written as bytes; \<^verbatim>\<open>ASSERT\<close> and
  \<^verbatim>\<open>DEBUG\<close> are empty in the build that is modelled.
\<close>

section \<open>Nodes\<close>

definition IsDevicePathUnpacked :: "memory \<Rightarrow> addr \<Rightarrow> bool" where
  "IsDevicePathUnpacked m a \<longleftrightarrow> m a AND 0x80 \<noteq> 0"

definition SetDevicePathNodeLength :: "memory \<Rightarrow> addr \<Rightarrow> u64 \<Rightarrow> memory" where
  "SetDevicePathNodeLength m a l = m(a + 2 := ucast l, a + 3 := ucast (drop_bit 8 l))"

definition SetDevicePathEndNode :: "memory \<Rightarrow> addr \<Rightarrow> memory" where
  "SetDevicePathEndNode m a = m(a := 0x7F, a + 1 := 0xFF, a + 2 := 4, a + 3 := 0)"

definition EndDevicePath :: "u8 list" where "EndDevicePath = [0x7F, 0xFF, 4, 0]"
definition EndInstanceDevicePath :: "u8 list" where "EndInstanceDevicePath = [0x7F, 0x01, 4, 0]"

definition ALIGN_SIZE :: "u64 \<Rightarrow> u64" where
  "ALIGN_SIZE a = (if a mod 4 \<noteq> 0 then 4 - a mod 4 else 0)"

section \<open>Walking\<close>

definition DevicePathFromHandle :: "'f boot_services \<Rightarrow> addr \<Rightarrow> 'f world \<Rightarrow> addr \<times> 'f world" where
  "DevicePathFromHandle bs Handle w =
     (let ((Status, DevicePath), w1) = HandleProtocol bs Handle gEfiDevicePathProtocolGuid 0 w
      in (if EFI_ERROR Status then 0 else DevicePath, w1))"

text \<open>The loop over the nodes of an instance; it gives up after \<^verbatim>\<open>01000\<close> nodes.\<close>

primrec instance_loop :: "memory \<Rightarrow> addr \<Rightarrow> nat \<Rightarrow> addr" where
  "instance_loop m DevPath 0 = DevPath"
| "instance_loop m DevPath (Suc n) =
     (if IsDevicePathEndType m DevPath then DevPath else instance_loop m (NextDevicePathNode m DevPath) n)"

text \<open>\<open>None\<close> for a \<^verbatim>\<open>NULL\<close> path, else the next position and the size; the instance starts at the path given.\<close>

definition DevicePathInstance :: "memory \<Rightarrow> addr \<Rightarrow> (addr \<times> u64) option" where
  "DevicePathInstance m DevicePath =
     (if DevicePath = 0 then None
      else let DevPath = instance_loop m DevicePath 513
           in Some (if DevicePathSubType m DevPath = 0xFF then 0 else NextDevicePathNode m DevPath, DevPath - DevicePath))"

partial_function (option) instance_count_loop :: "memory \<Rightarrow> addr \<Rightarrow> u64 \<Rightarrow> u64 option" where
  [code]: "instance_count_loop m DevicePath Count =
     (case DevicePathInstance m DevicePath of None \<Rightarrow> Some Count
      | Some r \<Rightarrow> instance_count_loop m (fst r) (Count + 1))"

definition DevicePathInstanceCount :: "memory \<Rightarrow> addr \<Rightarrow> u64 option" where
  "DevicePathInstanceCount m DevicePath = instance_count_loop m DevicePath 0"

partial_function (option) path_end :: "memory \<Rightarrow> addr \<Rightarrow> addr option" where
  [code]: "path_end m DevPath = (if \<not> IsDevicePathEnd m DevPath then path_end m (NextDevicePathNode m DevPath) else Some DevPath)"

definition DevicePathSize :: "memory \<Rightarrow> addr \<Rightarrow> u64 option" where
  "DevicePathSize m DevPath = map_option (\<lambda>e. e - DevPath + 4) (path_end m DevPath)"

section \<open>Copying\<close>

definition DuplicateDevicePath :: "'f boot_services \<Rightarrow> u32 \<Rightarrow> addr \<Rightarrow> 'f world \<Rightarrow> (addr \<times> 'f world) option" where
  "DuplicateDevicePath bs pt DevPath w = do {
     Size \<leftarrow> DevicePathSize (mem w) DevPath;
     let (p, w1) = LibAllocatePool bs pt Size w;
     Some (p, if p \<noteq> 0 then w1\<lparr>mem := CopyMem (mem w1) p DevPath Size\<rparr> else w1) }"

text \<open>The loop of \<^verbatim>\<open>AppendDevicePath\<close>: each instance of \<^verbatim>\<open>Src1\<close>, then \<^verbatim>\<open>Src2\<close>, then an end-of-instance node.\<close>

partial_function (option) append_loop :: "addr \<Rightarrow> addr \<Rightarrow> u64 \<Rightarrow> addr \<Rightarrow> memory \<Rightarrow> (addr \<times> memory) option" where
  [code]: "append_loop Src1 Src2 Src2Size DstPos m =
     (case DevicePathInstance m Src1 of None \<Rightarrow> Some (DstPos, m)
      | Some r \<Rightarrow>
          let m = CopyMem m DstPos Src1 (snd r); DstPos = DstPos + snd r;
              m = CopyMem m DstPos Src2 Src2Size; DstPos = DstPos + Src2Size;
              m = write_bytes m DstPos EndInstanceDevicePath; DstPos = DstPos + 4
          in append_loop (fst r) Src2 Src2Size DstPos m)"

definition AppendDevicePath :: "'f boot_services \<Rightarrow> u32 \<Rightarrow> addr \<Rightarrow> addr \<Rightarrow> 'f world \<Rightarrow> (addr \<times> 'f world) option" where
  "AppendDevicePath bs pt Src1 Src2 w =
     (if Src1 = 0 then DuplicateDevicePath bs pt Src2 w
      else if Src2 = 0 then DuplicateDevicePath bs pt Src1 w
      else do {
        Src1Size \<leftarrow> DevicePathSize (mem w) Src1;
        Src1Inst \<leftarrow> DevicePathInstanceCount (mem w) Src1;
        Src2Size \<leftarrow> DevicePathSize (mem w) Src2;
        let (Dst, w1) = LibAllocatePool bs pt (Src1Size * Src1Inst + Src2Size) w;
        if Dst \<noteq> 0 then do {
          r \<leftarrow> append_loop Src1 Src2 Src2Size Dst (mem w1);
          Some (Dst, w1\<lparr>mem := write_bytes (snd r) (fst r - 4) EndDevicePath\<rparr>)
        } else Some (Dst, w1) })"

definition AppendDevicePathNode :: "'f boot_services \<Rightarrow> u32 \<Rightarrow> addr \<Rightarrow> addr \<Rightarrow> 'f world \<Rightarrow> (addr \<times> 'f world) option" where
  "AppendDevicePathNode bs pt Src1 Src2 w =
     (let Length = DevicePathNodeLength (mem w) Src2;
          (Temp, w1) = LibAllocatePool bs pt (Length + 4) w
      in if Temp = 0 then Some (0, w1)
         else let m = CopyMem (mem w1) Temp Src2 Length;
                  m = SetDevicePathEndNode m (NextDevicePathNode m Temp)
              in do {
                r \<leftarrow> AppendDevicePath bs pt Src1 Temp (w1\<lparr>mem := m\<rparr>);
                Some (fst r, LibFreePool bs Temp (snd r)) })"

definition FileDevicePath :: "'f boot_services \<Rightarrow> u32 \<Rightarrow> addr \<Rightarrow> addr \<Rightarrow> 'f world \<Rightarrow> (addr \<times> 'f world) option" where
  "FileDevicePath bs pt Device FileName w = do {
     Size \<leftarrow> StrSize (mem w) FileName;
     let (FilePath, w1) = AllocateZeroPool bs pt (Size + 4 + 4) w;
     if FilePath \<noteq> 0 then do {
       let m = (mem w1)(FilePath := 4, FilePath + 1 := 4);
       let m = SetDevicePathNodeLength m FilePath (Size + 4);
       let m = CopyMem m (FilePath + 4) FileName Size;
       let m = SetDevicePathEndNode m (NextDevicePathNode m FilePath);
       let w2 = w1\<lparr>mem := m\<rparr>;
       if Device \<noteq> 0 then do {
         let (dp, w3) = DevicePathFromHandle bs Device w2;
         r \<leftarrow> AppendDevicePath bs pt dp FilePath w3;
         Some (fst r, LibFreePool bs FilePath (snd r))
       } else Some (FilePath, w2)
     } else Some (0, w1) }"

section \<open>Unpacking\<close>

partial_function (option) unpack_size_loop :: "memory \<Rightarrow> addr \<Rightarrow> u64 \<Rightarrow> u64 option" where
  [code]: "unpack_size_loop m Src Size =
     (let Size = Size + DevicePathNodeLength m Src; Size = Size + ALIGN_SIZE Size
      in if IsDevicePathEnd m Src then Some Size else unpack_size_loop m (NextDevicePathNode m Src) Size)"

partial_function (option) unpack_copy_loop :: "addr \<Rightarrow> addr \<Rightarrow> memory \<Rightarrow> memory option" where
  [code]: "unpack_copy_loop Src Dest m =
     (let Size = DevicePathNodeLength m Src;
          m = CopyMem m Dest Src Size;
          Size = Size + ALIGN_SIZE Size;
          m = SetDevicePathNodeLength m Dest Size;
          m = m(Dest := m Dest OR 0x80)
      in if IsDevicePathEnd m Src then Some m else unpack_copy_loop (NextDevicePathNode m Src) (Dest + Size) m)"

definition UnpackDevicePath :: "'f boot_services \<Rightarrow> u32 \<Rightarrow> addr \<Rightarrow> 'f world \<Rightarrow> (addr \<times> 'f world) option" where
  "UnpackDevicePath bs pt DevPath w = do {
     Size \<leftarrow> unpack_size_loop (mem w) DevPath 0;
     let (NewPath, w1) = AllocateZeroPool bs pt Size w;
     if NewPath \<noteq> 0 then do { m \<leftarrow> unpack_copy_loop DevPath NewPath (mem w1); Some (NewPath, w1\<lparr>mem := m\<rparr>) }
     else Some (NewPath, w1) }"

section \<open>Instances\<close>

text \<open>A failed allocation is not checked outside debug builds; the copy to address 0 does nothing, and then low memory is searched.\<close>

definition AppendDevicePathInstance :: "'f boot_services \<Rightarrow> u32 \<Rightarrow> addr \<Rightarrow> addr \<Rightarrow> 'f world \<Rightarrow> (addr \<times> 'f world) option" where
  "AppendDevicePathInstance bs pt Src Inst w =
     (if Src = 0 then DuplicateDevicePath bs pt Inst w
      else do {
        SrcSize \<leftarrow> DevicePathSize (mem w) Src;
        InstanceSize \<leftarrow> DevicePathSize (mem w) Inst;
        let (p, w1) = LibAllocatePool bs pt (SrcSize + InstanceSize) w;
        let m = CopyMem (mem w1) p Src SrcSize;
        DevPath \<leftarrow> path_end m p;
        let m = m(DevPath + 1 := 0x01);
        let m = CopyMem m (NextDevicePathNode m DevPath) Inst InstanceSize;
        Some (p, w1\<lparr>mem := m\<rparr>) })"

text \<open>\<^verbatim>\<open>LocateDevicePath\<close> is a firmware service: it returns a status, the rest of the path and a handle.\<close>

definition LibDevicePathToInterface :: "'f boot_services \<Rightarrow> (guid_id \<Rightarrow> addr \<Rightarrow> 'f world \<Rightarrow> (status \<times> addr \<times> addr) \<times> 'f world) \<Rightarrow>
    guid_id \<Rightarrow> addr \<Rightarrow> addr \<Rightarrow> 'f world \<Rightarrow> (status \<times> addr) \<times> 'f world" where
  "LibDevicePathToInterface bs LocateDevicePath Protocol FilePath Interface w =
     (let ((Status, FilePath, Device), w1) = LocateDevicePath Protocol FilePath w;
          ((Status, Interface), w2) =
            (if \<not> EFI_ERROR Status then
               if IsDevicePathEnd (mem w1) FilePath then HandleProtocol bs Device Protocol Interface w1
               else ((EFI_NOT_FOUND, Interface), w1)
             else ((Status, Interface), w1))
      in ((Status, if EFI_ERROR Status then 0 else Interface), w2))"

partial_function (option) match_loop :: "memory \<Rightarrow> addr \<Rightarrow> addr \<Rightarrow> bool option" where
  [code]: "match_loop m DevicePath Single =
     (case DevicePathInstance m DevicePath of None \<Rightarrow> Some False
      | Some r \<Rightarrow> if CompareMem m Single DevicePath (snd r) = 0 then Some True else match_loop m (fst r) Single)"

definition LibMatchDevicePaths :: "memory \<Rightarrow> addr \<Rightarrow> addr \<Rightarrow> bool option" where
  "LibMatchDevicePaths m Multi Single = (if Multi = 0 \<or> Single = 0 then Some False else match_loop m Multi Single)"

definition LibDuplicateDevicePathInstance :: "'f boot_services \<Rightarrow> u32 \<Rightarrow> addr \<Rightarrow> 'f world \<Rightarrow> addr \<times> 'f world" where
  "LibDuplicateDevicePathInstance bs pt DevPath w =
     (let Size = (case DevicePathInstance (mem w) DevPath of None \<Rightarrow> 0 | Some r \<Rightarrow> snd r);
          (NewDevPath, w1) = (if Size \<noteq> 0 then LibAllocatePool bs pt (Size + 4) w else (0, w))
      in (NewDevPath,
          if NewDevPath \<noteq> 0 then
            let m = CopyMem (mem w1) NewDevPath DevPath Size
            in w1\<lparr>mem := SetDevicePathEndNode m (NextDevicePathNode m NewDevPath)\<rparr>
          else w1))"

section \<open>Paths as lists of nodes\<close>

text \<open>A node is a type, a subtype and its data; \<open>enc_path\<close> are the bytes of a path with its end node.\<close>

type_synonym node = "u8 \<times> u8 \<times> u8 list"

definition enc_node :: "node \<Rightarrow> u8 list" where
  "enc_node n = (let (t, st, d) = n in [t, st] @ le_bytes 2 (of_nat (4 + length d) :: u16) @ d)"

definition node_ok :: "node \<Rightarrow> bool" where
  "node_ok n \<longleftrightarrow> (let (t, st, d) = n in t AND 0x7F \<noteq> 0x7F \<and> 4 + length d < 2 ^ 16)"

definition enc_nodes :: "node list \<Rightarrow> u8 list" where
  "enc_nodes ns = concat (map enc_node ns)"

definition enc_path :: "node list \<Rightarrow> u8 list" where
  "enc_path ns = enc_nodes ns @ EndDevicePath"

lemma enc_nodes_simps [simp]: "enc_nodes [] = []" "enc_nodes (n # ns) = enc_node n @ enc_nodes ns" "enc_nodes (ns @ ms) = enc_nodes ns @ enc_nodes ms"
  by (simp_all add: enc_nodes_def)

lemma length_end [simp]: "length EndDevicePath = 4" "length EndInstanceDevicePath = 4"
  by (simp_all add: EndDevicePath_def EndInstanceDevicePath_def)

lemma node_length_bytes:
  assumes "n < 2 ^ 16" "bs = le_bytes 2 (of_nat n :: u16)"
  shows "(ucast (bs ! 0) OR push_bit 8 (ucast (bs ! 1)) :: u64) = of_nat n"
proof -
  have "bs = [ucast (of_nat n :: u16), ucast (drop_bit 8 (of_nat n :: u16))]"
    unfolding assms(2) by (simp add: numeral_2_eq_2)
  then have b: "bs ! 0 = ucast (of_nat n :: u16)" "bs ! 1 = ucast (drop_bit 8 (of_nat n :: u16))" by simp_all
  have "(of_nat n :: u64) = ucast (of_nat n :: u16)"
    using assms(1) by (simp add: word_unat_eq_iff unat_ucast_up unat_of_nat)
  moreover have "(ucast (ucast (w :: u16) :: u8) OR push_bit 8 (ucast (ucast (drop_bit 8 w) :: u8)) :: u64) = ucast w" for w :: u16
    by (rule bit_word_eqI) (auto simp: bit_simps dest: bit_imp_le_length)
  ultimately show ?thesis unfolding b by metis
qed

lemma node_header:
  assumes "holds m a (enc_node (t, st, d))" "4 + length d < 2 ^ 16"
  shows "m a = t" "m (a + 1) = st" "holds m (a + 4) d" "DevicePathNodeLength m a = of_nat (4 + length d)" "NextDevicePathNode m a = a + of_nat (4 + length d)"
proof -
  let ?bs = "le_bytes 2 (of_nat (4 + length d) :: u16)"
  have l: "length ?bs = 2" by simp
  have h: "m a = t" "m (a + 1) = st" "holds m (a + 2) ?bs" "holds m (a + 4) d" using assms(1) by (simp_all add: enc_node_def holds_append holds_Cons algebra_simps)
  then show "m a = t" "m (a + 1) = st" "holds m (a + 4) d" by simp_all
  have "read_bytes m (a + 2) 2 = ?bs" using h(3) l by (simp add: holds_def)
  then have "m (a + 2) = ?bs ! 0" "m (a + 3) = ?bs ! 1"
    using nth_read_bytes [of 0 2 m "a + 2"] nth_read_bytes [of 1 2 m "a + 2"] by (simp_all add: add.assoc)
  then show len: "DevicePathNodeLength m a = of_nat (4 + length d)"
    unfolding DevicePathNodeLength_def using node_length_bytes [of "4 + length d" ?bs] assms(2) by (simp only:)
  then show "NextDevicePathNode m a = a + of_nat (4 + length d)" by (simp add: NextDevicePathNode_def)
qed

lemma length_enc_node [simp]: "length (enc_node (t, st, d)) = 4 + length d"
  by (simp add: enc_node_def)

lemma node_fields:
  assumes "holds m a (enc_node n)" "node_ok n"
  shows "\<not> IsDevicePathEndType m a" "NextDevicePathNode m a = a + of_nat (length (enc_node n))"
    "DevicePathNodeLength m a = of_nat (length (enc_node n))"
proof -
  obtain t st d where n: "n = (t, st, d)" by (metis prod_cases3)
  have d: "t AND 0x7F \<noteq> 0x7F" "4 + length d < 2 ^ 16" using assms(2) by (simp_all add: n node_ok_def)
  note h = node_header [OF assms(1) [unfolded n] d(2)]
  show "\<not> IsDevicePathEndType m a" using d(1) h(1) by (simp add: IsDevicePathEndType_def DevicePathType_def)
  show "NextDevicePathNode m a = a + of_nat (length (enc_node n))" "DevicePathNodeLength m a = of_nat (length (enc_node n))"
    using h(4,5) by (simp_all only: n length_enc_node)
qed

lemma end_fields:
  assumes "holds m a EndDevicePath"
  shows "IsDevicePathEnd m a" "IsDevicePathEndType m a" "DevicePathSubType m a = 0xFF"
  using assms by (simp_all add: EndDevicePath_def holds_Cons IsDevicePathEnd_def IsDevicePathEndType_def IsDevicePathEndSubType_def
      DevicePathType_def DevicePathSubType_def)

lemma path_end_nodes:
  "holds m a (enc_path ns) \<Longrightarrow> list_all node_ok ns \<Longrightarrow> path_end m a = Some (a + of_nat (length (enc_nodes ns)))"
proof (induction ns arbitrary: a)
  case Nil
  then show ?case using end_fields(1) [of m a] by (subst path_end.simps) (simp add: enc_path_def)
next
  case (Cons n ns)
  then have h: "holds m a (enc_node n)" "holds m (a + of_nat (length (enc_node n))) (enc_path ns)" by (simp_all add: enc_path_def holds_append add.assoc)
  have n: "node_ok n" "list_all node_ok ns" using Cons.prems(2) by simp_all
  have "\<not> IsDevicePathEnd m a" using node_fields(1) [OF h(1) n(1)] by (simp add: IsDevicePathEnd_def)
  then show ?case using Cons.IH [OF h(2) n(2)] node_fields(2) [OF h(1) n(1)] by (subst path_end.simps) (simp add: add.assoc)
qed

lemma DevicePathSize_nodes:
  "holds m a (enc_path ns) \<Longrightarrow> list_all node_ok ns \<Longrightarrow> DevicePathSize m a = Some (of_nat (length (enc_path ns)))"
  by (simp add: DevicePathSize_def path_end_nodes enc_path_def)

lemma instance_loop_nodes:
  "holds m a (enc_path ns) \<Longrightarrow> list_all node_ok ns \<Longrightarrow> length ns \<le> k \<Longrightarrow> instance_loop m a k = a + of_nat (length (enc_nodes ns))"
proof (induction ns arbitrary: a k)
  case Nil
  then show ?case using end_fields(2) [of m a] by (cases k) (simp_all add: enc_path_def)
next
  case (Cons n ns)
  then have h: "holds m a (enc_node n)" "holds m (a + of_nat (length (enc_node n))) (enc_path ns)" by (simp_all add: enc_path_def holds_append add.assoc)
  obtain k' where "k = Suc k'" "length ns \<le> k'" using Cons.prems(3) by (cases k) auto
  then show ?case using Cons.IH [OF h(2), of k'] Cons.prems(2) node_fields(1,2) [OF h(1)] by (simp add: add.assoc)
qed

text \<open>A path of at most 513 nodes is a single instance.\<close>

lemma DevicePathInstance_nodes:
  assumes "holds m a (enc_path ns)" "list_all node_ok ns" "length ns \<le> 513" "a \<noteq> 0"
  shows "DevicePathInstance m a = Some (0, of_nat (length (enc_nodes ns)))"
proof -
  have "holds m (a + of_nat (length (enc_nodes ns))) EndDevicePath" using assms(1) by (simp add: enc_path_def holds_append)
  then show ?thesis using instance_loop_nodes [OF assms(1-3)] end_fields(3) assms(4) by (simp add: DevicePathInstance_def)
qed

lemma DevicePathInstanceCount_nodes:
  assumes "holds m a (enc_path ns)" "list_all node_ok ns" "length ns \<le> 513" "a \<noteq> 0"
  shows "DevicePathInstanceCount m a = Some 1"
proof -
  have "instance_count_loop m 0 c = Some c" for c by (subst instance_count_loop.simps) (simp add: DevicePathInstance_def)
  then have "instance_count_loop m a 0 = Some 1"
    by (subst instance_count_loop.simps) (simp add: DevicePathInstance_nodes [OF assms])
  then show ?thesis by (simp add: DevicePathInstanceCount_def)
qed

section \<open>Appending\<close>

lemma LibAllocatePool_law:
  assumes "allocates_fresh_pool bs live" "LibAllocatePool bs pt n w = (p, w1)"
  shows "x \<in> live (fw w) \<Longrightarrow> mem w1 x = mem w x"
    and "p \<noteq> 0 \<Longrightarrow> unat p + unat n \<le> 2 ^ 64" and "p \<noteq> 0 \<Longrightarrow> in_range p (unat n) x \<Longrightarrow> x \<notin> live (fw w)"
proof -
  obtain st a v where al: "AllocatePool bs pt n 0 w = ((st, a), v)" by (metis surj_pair)
  note law = assms(1) [unfolded allocates_fresh_pool_def, rule_format, OF al]
  have r: "w1 = v" "p = (if EFI_ERROR st then 0 else a)" using assms(2) al by (auto simp: LibAllocatePool_def split: if_splits)
  show "x \<in> live (fw w) \<Longrightarrow> mem w1 x = mem w x" using law r(1) by blast
  show "p \<noteq> 0 \<Longrightarrow> unat p + unat n \<le> 2 ^ 64" using law r(2) by (auto split: if_splits)
  show "p \<noteq> 0 \<Longrightarrow> in_range p (unat n) x \<Longrightarrow> x \<notin> live (fw w)" using law r(2) by (auto elim!: in_rangeE split: if_splits)
qed

lemma CopyMem_holds:
  assumes "efi_copy_pre d s (of_nat (length bs))" "length bs < 2 ^ 64" "holds m s bs"
  shows "holds (CopyMem m d s (of_nat (length bs))) d bs"
    and "\<not> in_range d (length bs) x \<Longrightarrow> CopyMem m d s (of_nat (length bs)) x = m x"
  using efi_copy.copied [OF assms(1), of m] efi_copy.copy_frame [OF assms(1), of x m] assms(2,3) by (simp_all add: holds_def unat_of_nat_u64)

lemma write_holds:
  "length bs \<le> 2 ^ 64 \<Longrightarrow> holds (write_bytes m a bs) a bs"
  by (simp add: holds_def read_write_bytes)

text \<open>Three blocks laid out one after the other from \<open>p\<close> on, inside an area of \<open>n\<close> bytes that does not wrap.\<close>

lemma laid_out:
  assumes "unat p + n \<le> 2 ^ 64" "i + k \<le> n" "0 < k" "j + l \<le> n" "i + k \<le> j \<or> j + l \<le> i"
  shows "in_range (p + of_nat i) k x \<Longrightarrow> \<not> in_range (p + of_nat j) l (x :: addr)"
    and "unat (p + of_nat i) = unat p + i" and "in_range (p + of_nat i) k x \<Longrightarrow> in_range p n x"
proof -
  have "unat p + i < 2 ^ 64" using assms by linarith
  then show u: "unat (p + of_nat i) = unat p + i" by (rule unat_add_of_nat_u64)
  show "in_range (p + of_nat i) k x \<Longrightarrow> in_range p n x" using in_range_sub [of p i k x n] assms(1,2) by simp
  show "\<not> in_range (p + of_nat j) l x" if "in_range (p + of_nat i) k x"
  proof (cases "l = 0")
    case False
    then have "unat p + j < 2 ^ 64" using assms by linarith
    then have "unat (p + of_nat j) = unat p + j" by (rule unat_add_of_nat_u64)
    then have "no_overlap (p + of_nat i) k (p + of_nat j) l"
      using u assms no_overlap_linear [of "p + of_nat i" k "p + of_nat j" l] no_overlap_linear [of "p + of_nat j" l "p + of_nat i" k] by auto
    then show ?thesis using that by (auto simp: no_overlap_def)
  qed simp
qed

text \<open>The memory \<open>AppendDevicePath\<close> builds from one instance: the nodes of \<open>Src1\<close>, the whole of \<open>Src2\<close>, an end node.\<close>

lemma append_built:
  assumes h1: "holds m Src1 xs" and h2: "holds m Src2 ys" and src: "Src1 \<noteq> 0" "Src2 \<noteq> 0"
    "unat Src1 + length xs < 2 ^ 64" "unat Src2 + length ys < 2 ^ 64"
    and p: "p \<noteq> 0" "unat p + (length xs + length ys + 4) \<le> 2 ^ 64" "ys \<noteq> []"
    and off: "\<And>x. in_range p (length xs + length ys + 4) x \<Longrightarrow> \<not> in_range Src2 (length ys) x"
  defines "m2 \<equiv> CopyMem m p Src1 (of_nat (length xs))"
  defines "m3 \<equiv> CopyMem m2 (p + of_nat (length xs)) Src2 (of_nat (length ys))"
  defines "m5 \<equiv> write_bytes (write_bytes m3 (p + of_nat (length xs) + of_nat (length ys)) EndInstanceDevicePath)
    (p + of_nat (length xs) + of_nat (length ys)) EndDevicePath"
  shows "holds m5 p (xs @ ys @ EndDevicePath)" and "\<not> in_range p (length xs + length ys + 4) x \<Longrightarrow> m5 x = m x"
proof -
  let ?l = "length xs" and ?k = "length ys"
  have k: "0 < ?k" using p(3) by simp
  have u: "unat (p + of_nat ?l) = unat p + ?l" using laid_out(2) [OF p(2), of ?l ?k 0 0] k by simp
  have len: "?l < 2 ^ 64" "?k < 2 ^ 64" using src by linarith+
  have pre1: "efi_copy_pre p Src1 (of_nat ?l)" using src p len by (simp add: efi_copy_pre_def unat_of_nat_u64)
  have pre2: "efi_copy_pre (p + of_nat ?l) Src2 (of_nat ?k)"
    using src p len u by (auto simp: efi_copy_pre_def unat_of_nat_u64 word_unat_eq_iff)
  note c2 = CopyMem_holds [OF pre1 len(1) h1, folded m2_def]
  have in1: "in_range p (?l + ?k + 4) x" if "in_range p ?l x" for x using that by (simp add: in_range_def)
  have "holds m2 Src2 ys" by (rule holds_frame [OF h2]) (use c2(2) in1 off len in \<open>force+\<close>)
  note c3 = CopyMem_holds [OF pre2 len(2) this, folded m3_def]
  have at: "p + of_nat ?l + of_nat ?k = p + of_nat (?l + ?k)" by (simp add: add.assoc)
  have w: "m5 x = m3 x" if "\<not> in_range (p + of_nat (?l + ?k)) 4 x" for x
    using that unfolding m5_def at by (simp add: write_bytes_outside)
  have "m3 x = m2 x" if "in_range p ?l x" for x
  proof (cases "?l = 0")
    case False
    then show ?thesis using c3(2) laid_out(1) [OF p(2), of 0 ?l ?l ?k x] that by simp
  qed (use that in simp)
  moreover have "m5 x = m3 x" if "in_range p ?l x" for x
  proof (cases "?l = 0")
    case False
    then show ?thesis using w laid_out(1) [OF p(2), of 0 ?l "?l + ?k" 4 x] that by simp
  qed (use that in simp)
  ultimately have x1: "holds m5 p xs" by (intro holds_frame [OF c2(1)]) (use len in auto)
  have x2: "holds m5 (p + of_nat ?l) ys"
    by (rule holds_frame [OF c3(1)]) (use w laid_out(1) [OF p(2), of ?l ?k "?l + ?k" 4] k len in auto)
  have "holds m5 (p + of_nat (?l + ?k)) EndDevicePath" unfolding m5_def at by (rule write_holds) simp
  then show "holds m5 p (xs @ ys @ EndDevicePath)" using x1 x2 by (simp add: holds_append add.assoc)
  assume x: "\<not> in_range p (?l + ?k + 4) x"
  then have "\<not> in_range (p + of_nat (?l + ?k)) 4 x" "\<not> in_range (p + of_nat ?l) ?k x" "\<not> in_range p ?l x"
    using laid_out(3) [OF p(2), of "?l + ?k" 4 0 0 x] laid_out(3) [OF p(2), of ?l ?k 0 0 x] in1 k by auto
  then show "m5 x = m x" using w c3(2) c2(2) by simp
qed

definition appended :: "memory \<Rightarrow> addr \<Rightarrow> addr \<Rightarrow> nat \<Rightarrow> addr \<Rightarrow> nat \<Rightarrow> memory" where
  "appended m p Src1 l Src2 k = (let at = p + of_nat l + of_nat k;
     m3 = CopyMem (CopyMem m p Src1 (of_nat l)) (p + of_nat l) Src2 (of_nat k)
     in write_bytes (write_bytes m3 at EndInstanceDevicePath) at EndDevicePath)"

lemma AppendDevicePath_run:
  assumes h: "holds (mem w) Src1 (enc_path ns1)" "holds (mem w) Src2 (enc_path ns2)" "holds (mem w1) Src1 (enc_path ns1)"
    and ok: "list_all node_ok ns1" "list_all node_ok ns2" "length ns1 \<le> 513" "Src1 \<noteq> 0" "Src2 \<noteq> 0"
    and al: "LibAllocatePool bs pt (of_nat (length (enc_path ns1) + length (enc_path ns2))) w = (p, w1)"
  shows "AppendDevicePath bs pt Src1 Src2 w =
    Some (p, if p = 0 then w1 else w1\<lparr>mem := appended (mem w1) p Src1 (length (enc_nodes ns1)) Src2 (length (enc_path ns2))\<rparr>)"
proof -
  let ?L1 = "length (enc_path ns1)" and ?L2 = "length (enc_path ns2)"
  note sizes = DevicePathSize_nodes [OF h(1) ok(1)] DevicePathSize_nodes [OF h(2) ok(2)]
    DevicePathInstanceCount_nodes [OF h(1) ok(1,3,4)] DevicePathInstance_nodes [OF h(3) ok(1,3,4)]
  have stop: "append_loop 0 Src2 s d m = Some (d, m)" for s d m by (subst append_loop.simps) (simp add: DevicePathInstance_def)
  let ?at = "p + of_nat (length (enc_nodes ns1)) + of_nat ?L2"
  have loop: "append_loop Src1 Src2 (of_nat ?L2) p (mem w1) = Some (?at + 4, write_bytes
      (CopyMem (CopyMem (mem w1) p Src1 (of_nat (length (enc_nodes ns1)))) (p + of_nat (length (enc_nodes ns1))) Src2 (of_nat ?L2)) ?at EndInstanceDevicePath)"
    by (subst append_loop.simps) (simp add: sizes stop Let_def)
  have size: "(of_nat ?L1 * 1 + of_nat ?L2 :: u64) = of_nat (?L1 + ?L2)" by simp
  show ?thesis
    unfolding AppendDevicePath_def using ok(4,5) al [unfolded size [symmetric]] loop by (simp add: sizes appended_def Let_def)
qed

text \<open>
  C35: \<open>AppendDevicePath\<close> on two well-formed single-instance paths returns, and the result is \<^verbatim>\<open>NULL\<close> because the allocation failed, or
  points to a new path whose nodes are those of \<open>Src1\<close> followed by those of \<open>Src2\<close>.  No memory in use changes.
\<close>

theorem AppendDevicePath_appends:
  assumes "allocates_fresh_pool bs live"
    and "holds (mem w) Src1 (enc_path ns1)" "holds (mem w) Src2 (enc_path ns2)" "list_all node_ok (ns1 @ ns2)" "length ns1 \<le> 513"
    and "Src1 \<noteq> 0" "Src2 \<noteq> 0" "unat Src1 + length (enc_path ns1) < 2 ^ 63" "unat Src2 + length (enc_path ns2) < 2 ^ 63"
    and "\<forall>x. in_range Src1 (length (enc_path ns1)) x \<or> in_range Src2 (length (enc_path ns2)) x \<longrightarrow> x \<in> live (fw w)"
  shows "\<exists>p w'. AppendDevicePath bs pt Src1 Src2 w = Some (p, w') \<and> (\<forall>x \<in> live (fw w). mem w' x = mem w x) \<and>
    (p = fst (LibAllocatePool bs pt (of_nat (length (enc_path ns1) + length (enc_path ns2))) w)) \<and>
    (p \<noteq> 0 \<longrightarrow> holds (mem w') p (enc_path (ns1 @ ns2)))"
proof -
  let ?xs = "enc_nodes ns1" and ?ys = "enc_path ns2" and ?L1 = "length (enc_path ns1)" and ?L2 = "length (enc_path ns2)"
  have ok: "list_all node_ok ns1" "list_all node_ok ns2" using assms(4) by simp_all
  obtain p w1 where al: "LibAllocatePool bs pt (of_nat (?L1 + ?L2)) w = (p, w1)" by fastforce
  note law = LibAllocatePool_law [OF assms(1) al]
  have n: "unat (of_nat (?L1 + ?L2) :: u64) = ?L1 + ?L2" by (rule unat_of_nat_u64) (use assms(8,9) in simp)
  have h: "holds (mem w1) Src1 (enc_path ns1)" "holds (mem w1) Src2 ?ys"
    using holds_frame [OF assms(2), of "mem w1"] holds_frame [OF assms(3), of "mem w1"] law(1) assms(8-10) by auto
  note run = AppendDevicePath_run [OF assms(2,3) h(1) ok assms(5-7) al]
  show ?thesis
  proof (cases "p = 0")
    case True
    then show ?thesis using run law(1) al by simp
  next
    case False
    let ?m5 = "appended (mem w1) p Src1 (length ?xs) Src2 ?L2"
    have area: "length ?xs + ?L2 + 4 = ?L1 + ?L2" by (simp add: enc_path_def)
    have new: "x \<notin> live (fw w)" if "in_range p (?L1 + ?L2) x" for x using law(3) [OF False] n that by simp
    have off: "\<not> in_range Src2 ?L2 x" if "in_range p (length ?xs + ?L2 + 4) x" for x using new assms(10) that unfolding area by blast
    have hx: "holds (mem w1) Src1 ?xs" using h(1) by (simp add: enc_path_def holds_append)
    have bnd: "unat Src1 + length ?xs < 2 ^ 64" "unat Src2 + ?L2 < 2 ^ 64" using assms(8,9) by (simp_all add: enc_path_def)
    have fit: "unat p + (length ?xs + ?L2 + 4) \<le> 2 ^ 64" using law(2) [OF False] n area by simp
    have ne: "?ys \<noteq> []" by (simp add: enc_path_def EndDevicePath_def)
    have "holds ?m5 p (?xs @ ?ys @ EndDevicePath)" and keep: "\<And>x. \<not> in_range p (?L1 + ?L2) x \<Longrightarrow> ?m5 x = mem w1 x"
      using append_built [OF hx h(2) assms(6,7) bnd False fit ne off] unfolding area by (simp_all add: appended_def Let_def)
    then have "holds ?m5 p (enc_path (ns1 @ ns2))" by (simp add: enc_path_def holds_append add.assoc)
    moreover have "?m5 x = mem w x" if "x \<in> live (fw w)" for x using keep new that law(1) by force
    ultimately show ?thesis using run al False by simp
  qed
qed

definition dpath_demo :: "addr world" where
  "dpath_demo = \<lparr>mem = write_bytes (write_bytes (\<lambda>_. 0) 0x100 (enc_path [(1, 1, [])])) 0x200 (enc_path [(4, 4, [0x41, 0])]), fw = 0x1000\<rparr>"

theorem AppendDevicePath_appends_witness:
  "\<exists>w'. AppendDevicePath bump_bs 2 0x100 0x200 dpath_demo = Some (0x1000, w') \<and>
     read_bytes (mem w') 0x1000 14 = [1, 1, 4, 0, 4, 4, 6, 0, 0x41, 0, 0x7F, 0xFF, 4, 0]"
proof -
  have len: "length (enc_path [(1, 1, [])]) = 8" "length (enc_path [(4, 4, [0x41, 0])]) = 10"
    by (simp_all add: enc_path_def enc_node_def EndDevicePath_def)
  have ov: "no_overlap (0x200 :: addr) 10 0x100 8" by (rule no_overlap_linear) simp_all
  have h: "holds (mem dpath_demo) 0x100 (enc_path [(1, 1, [])])" "holds (mem dpath_demo) 0x200 (enc_path [(4, 4, [0x41, 0])])"
    unfolding dpath_demo_def using read_write_bytes_disjoint [of "0x200" "enc_path [(4, 4, [0x41, 0])]" "0x100" 8] ov
    by (simp_all add: holds_def len read_write_bytes [of "enc_path [(1, 1, [])]", unfolded len] read_write_bytes [of "enc_path [(4, 4, [0x41, 0])]", unfolded len])
  have ok: "list_all node_ok ([(1, 1, [])] @ [(4, 4, [0x41, 0])])" by (simp add: node_ok_def)
  have lv: "\<forall>x. in_range 0x100 (length (enc_path [(1, 1, [])])) x \<or> in_range 0x200 (length (enc_path [(4, 4, [0x41, 0])])) x \<longrightarrow>
      x \<in> bump_owned (fw dpath_demo)"
    unfolding len by (auto simp: dpath_demo_def bump_owned_def in_range_def word_less_nat_alt unat_sub_u64 split: if_splits)
  have al: "fst (LibAllocatePool bump_bs 2 (of_nat (length (enc_path [(1, 1, [])]) + length (enc_path [(4, 4, [0x41, 0])]))) dpath_demo) = 0x1000"
    unfolding len by (simp add: LibAllocatePool_def bump_pool_eval bump_pool_def dpath_demo_def)
  obtain p w' where r: "AppendDevicePath bump_bs 2 0x100 0x200 dpath_demo = Some (p, w')" "p = 0x1000"
    "holds (mem w') p (enc_path ([(1, 1, [])] @ [(4, 4, [0x41, 0])]))"
    using AppendDevicePath_appends [OF bump_fresh_pool h ok _ _ _ _ _ lv, of 2] unfolding al by (auto simp: len)
  have "enc_path ([(1, 1, [])] @ [(4, 4, [0x41, 0])]) = [1, 1, 4, 0, 4, 4, 6, 0, 0x41, 0, 0x7F, 0xFF, 4, 0]"
    by (simp add: enc_path_def enc_node_def EndDevicePath_def eval_simps)
  then show ?thesis using r by (simp add: holds_def eval_simps)
qed

end
