(* ===== verification/Boot_X64.thy ===== *)
theory Boot_X64
  imports Efi_Dpath
begin

text \<open>
  \<^verbatim>\<open>bootx64/src/bootx64.c\<close>: the first program the firmware starts.  It looks for \<^verbatim>\<open>NYXBOOT.EFI\<close> on every file system and starts the first one it
  finds.  The string literal is both an argument of \<^verbatim>\<open>Open\<close> and, at the address \<open>literal\<close>, of \<open>FileDevicePath\<close>; printing the status of a failed
  \<^verbatim>\<open>LoadImage\<close> is left out.
\<close>

definition path_NYXBOOT :: "u16 list" where
  "path_NYXBOOT = [0x5C, 0x42, 0x4F, 0x4F, 0x54, 0x5C, 0x4E, 0x59, 0x58, 0x42, 0x4F, 0x4F, 0x54, 0x2E, 0x45, 0x46, 0x49]"

text \<open>The part of the loop after the file was opened; it always leaves the loop.\<close>

definition start_nyxboot :: "'f boot_services \<Rightarrow> u32 \<Rightarrow> addr \<Rightarrow> addr \<Rightarrow> addr \<Rightarrow> addr \<Rightarrow> 'f world \<Rightarrow> (status \<times> 'f world) option" where
  "start_nyxboot bs pt literal imageHandle handles handle w = do {
     r \<leftarrow> FileDevicePath bs pt handle literal w;
     let ((status, newImageHandle), w1) = LoadImage bs imageHandle (fst r) (snd r);
     if EFI_ERROR status then Some (status, w1)
     else let (status, w2) = StartImage bs newImageHandle w1 in
       if EFI_ERROR status then Some (status, w2)
       else Some (EFI_SUCCESS, snd (FreePool bs handles (snd (UnloadImage bs newImageHandle w2)))) }"

primrec bootx64_loop :: "'f boot_services \<Rightarrow> u32 \<Rightarrow> addr \<Rightarrow> addr \<Rightarrow> addr \<Rightarrow> nat \<Rightarrow> u64 \<Rightarrow> 'f world \<Rightarrow> (status \<times> 'f world) option" where
  "bootx64_loop bs pt literal imageHandle handles 0 i w = Some (EFI_LOAD_ERROR, w)"
| "bootx64_loop bs pt literal imageHandle handles (Suc n) i w =
     (let ((status, fs), w1) = HandleProtocol bs (read64 (mem w) (handles + 8 * i)) gEfiSimpleFileSystemProtocolGuid 0 w in
      if EFI_ERROR status then bootx64_loop bs pt literal imageHandle handles n (i + 1) w1
      else let ((status, root), w2) = OpenVolume bs fs 0 w1 in
      if EFI_ERROR status then bootx64_loop bs pt literal imageHandle handles n (i + 1) w2
      else let ((status, _), w3) = Open bs root 0 (Literal path_NYXBOOT) EFI_FILE_MODE_READ EFI_FILE_READ_ONLY w2 in
      if EFI_ERROR status then bootx64_loop bs pt literal imageHandle handles n (i + 1) w3
      else start_nyxboot bs pt literal imageHandle handles (read64 (mem w3) (handles + 8 * i)) w3)"

definition bootx64_main :: "'f boot_services \<Rightarrow> u32 \<Rightarrow> ('f world \<Rightarrow> 'f world) \<Rightarrow> addr \<Rightarrow> addr \<Rightarrow> 'f world \<Rightarrow> (status \<times> 'f world) option" where
  "bootx64_main bs pt InitializeLib literal imageHandle w =
     (let ((status, handleCount, handles), w1) = LocateHandleBuffer bs gEfiSimpleFileSystemProtocolGuid 0 0 (InitializeLib w) in
      if EFI_ERROR status then Some (status, w1)
      else bootx64_loop bs pt literal imageHandle handles (unat handleCount) 0 w1)"

section \<open>Which image is started\<close>

text \<open>Opening a volume or a file is a lookup that leaves the world alone, as \<open>handle_db\<close> says of protocols.\<close>

definition file_db :: "'f boot_services \<Rightarrow> (addr \<Rightarrow> status \<times> addr) \<Rightarrow> (addr \<Rightarrow> path_arg \<Rightarrow> status \<times> addr) \<Rightarrow> bool" where
  "file_db bs volume lookup_file \<longleftrightarrow> (\<forall>fs a w. OpenVolume bs fs a w = (volume fs, w)) \<and>
     (\<forall>root a p md at w. Open bs root a p md at w = (lookup_file root p, w))"

definition offers_nyxboot :: "(addr \<Rightarrow> guid_id \<Rightarrow> status \<times> addr) \<Rightarrow> (addr \<Rightarrow> status \<times> addr) \<Rightarrow> (addr \<Rightarrow> path_arg \<Rightarrow> status \<times> addr) \<Rightarrow> addr \<Rightarrow> bool" where
  "offers_nyxboot lookup volume lookup_file h \<longleftrightarrow>
     \<not> EFI_ERROR (fst (lookup h gEfiSimpleFileSystemProtocolGuid)) \<and>
     \<not> EFI_ERROR (fst (volume (snd (lookup h gEfiSimpleFileSystemProtocolGuid)))) \<and>
     \<not> EFI_ERROR (fst (lookup_file (snd (volume (snd (lookup h gEfiSimpleFileSystemProtocolGuid)))) (Literal path_NYXBOOT)))"

lemma bootx64_loop_first:
  assumes "handle_db bs lookup" "file_db bs volume lookup_file"
  shows "bootx64_loop bs pt literal imageHandle handles n i w =
    (case find (offers_nyxboot lookup volume lookup_file) (handle_list (mem w) handles i n) of
       None \<Rightarrow> Some (EFI_LOAD_ERROR, w) | Some h \<Rightarrow> start_nyxboot bs pt literal imageHandle handles h w)"
proof (induction n arbitrary: i)
  case 0
  then show ?case by (simp add: handle_list_def)
next
  case (Suc n)
  then show ?case
    using assms by (auto simp: handle_list_Suc handle_db_def file_db_def offers_nyxboot_def split: prod.splits)
qed


text \<open>Two file systems, of which only the second, of handle 8, has the file; loading it fails.\<close>

definition two_disks :: "addr \<Rightarrow> guid_id \<Rightarrow> status \<times> addr" where
  "two_disks h g = (EFI_SUCCESS, h + 0x100)"

definition two_files :: "addr \<Rightarrow> path_arg \<Rightarrow> status \<times> addr" where
  "two_files root p = (if root = 0x108 \<and> p = Literal path_NYXBOOT then (EFI_SUCCESS, 0x900) else (EFI_NOT_FOUND, 0))"

definition two_bs :: "unit boot_services" where
  "two_bs = null_bs\<lparr>HandleProtocol := \<lambda>h g _ w. (two_disks h g, w), LocateHandleBuffer := \<lambda>_ _ _ w. ((EFI_SUCCESS, 2, 0x100), w),
     OpenVolume := \<lambda>fs _ w. ((EFI_SUCCESS, fs), w), Open := \<lambda>root _ p _ _ w. (two_files root p, w)\<rparr>"


end
