(* ===== verification/Efi_Reloc.thy ===== *)
theory Efi_Reloc
  imports Boot_Services "HOL-Library.Monad_Syntax"
begin

text \<open>
  The self-relocation of the boot programs, \<^verbatim>\<open>gnu-efi/gnuefi/reloc_x86_64.c\<close>: \<^verbatim>\<open>_relocate\<close> runs before any other C code of an EFI program, reads
  the dynamic section of the image and adds the load address to every word that a relocation entry names.  The tags and types
  are those of the system header \<^verbatim>\<open>elf.h\<close>.
\<close>

section \<open>The relocator\<close>

definition DT_NULL :: u64 where "DT_NULL = 0"
definition DT_RELA :: u64 where "DT_RELA = 7"
definition DT_RELASZ :: u64 where "DT_RELASZ = 8"
definition DT_RELAENT :: u64 where "DT_RELAENT = 9"
definition R_X86_64_NONE :: u64 where "R_X86_64_NONE = 0"
definition R_X86_64_RELATIVE :: u64 where "R_X86_64_RELATIVE = 8"

lemmas dt_defs = DT_NULL_def DT_RELA_def DT_RELASZ_def DT_RELAENT_def

definition ELF64_R_TYPE :: "u64 \<Rightarrow> u64" where
  "ELF64_R_TYPE i = i AND 0xFFFFFFFF"

definition d_tag :: "memory \<Rightarrow> addr \<Rightarrow> u32 \<Rightarrow> u64" where
  "d_tag m dyn i = read64 m (dyn + 16 * scast i)"

definition d_un :: "memory \<Rightarrow> addr \<Rightarrow> u32 \<Rightarrow> u64" where
  "d_un m dyn i = read64 m (dyn + 16 * scast i + 8)"

text \<open>The loop over the dynamic section; its state is \<^verbatim>\<open>rel\<close>, \<^verbatim>\<open>relsz\<close> and \<^verbatim>\<open>relent\<close>.\<close>

partial_function (option) dyn_loop :: "memory \<Rightarrow> u64 \<Rightarrow> addr \<Rightarrow> u32 \<Rightarrow> addr \<Rightarrow> u64 \<Rightarrow> u64 \<Rightarrow> (addr \<times> u64 \<times> u64) option" where
  [code]: "dyn_loop m ldbase dyn i rel relsz relent =
     (if d_tag m dyn i \<noteq> DT_NULL then
        if d_tag m dyn i = DT_RELA then dyn_loop m ldbase dyn (i + 1) (d_un m dyn i + ldbase) relsz relent
        else if d_tag m dyn i = DT_RELASZ then dyn_loop m ldbase dyn (i + 1) rel (d_un m dyn i) relent
        else if d_tag m dyn i = DT_RELAENT then dyn_loop m ldbase dyn (i + 1) rel relsz (d_un m dyn i)
        else dyn_loop m ldbase dyn (i + 1) rel relsz relent
      else Some (rel, relsz, relent))"

definition apply_rel :: "u64 \<Rightarrow> addr \<Rightarrow> memory \<Rightarrow> memory" where
  "apply_rel ldbase rel m =
     (let r_offset = read64 m rel; r_info = read64 m (rel + 8) in
      if ELF64_R_TYPE r_info = R_X86_64_NONE then m
      else if ELF64_R_TYPE r_info = R_X86_64_RELATIVE then
        let address = ldbase + r_offset in write64 m address (read64 m address + ldbase)
      else m)"

text \<open>\<^verbatim>\<open>relsz\<close> is a signed \<^verbatim>\<open>long\<close>.\<close>

partial_function (option) rel_loop :: "u64 \<Rightarrow> addr \<Rightarrow> u64 \<Rightarrow> u64 \<Rightarrow> memory \<Rightarrow> memory option" where
  [code]: "rel_loop ldbase rel relsz relent m =
     (if sint relsz > 0 then rel_loop ldbase (rel + relent) (relsz - relent) relent (apply_rel ldbase rel m) else Some m)"

definition relocate :: "u64 \<Rightarrow> addr \<Rightarrow> memory \<Rightarrow> (status \<times> memory) option" where
  "relocate ldbase dyn m =
     do {
       (rel, relsz, relent) \<leftarrow> dyn_loop m ldbase dyn 0 0 0 0;
       if rel = 0 \<and> relent = 0 then Some (EFI_SUCCESS, m)
       else if rel = 0 \<or> relent = 0 then Some (EFI_LOAD_ERROR, m)
       else do {
         m' \<leftarrow> rel_loop ldbase rel relsz relent m;
         Some (EFI_SUCCESS, m')
       }
     }"

section \<open>The dynamic section\<close>

text \<open>\<open>dynamic_at m dyn ds\<close>: the dynamic section at \<open>dyn\<close> has the entries \<open>ds\<close> (tag and value) before its end mark.\<close>

definition dynamic_at :: "memory \<Rightarrow> addr \<Rightarrow> (u64 \<times> u64) list \<Rightarrow> bool" where
  "dynamic_at m dyn ds \<longleftrightarrow> length ds < 2 ^ 31 \<and>
     (\<forall>k < length ds. read64 m (dyn + 16 * of_nat k) = fst (ds ! k) \<and> fst (ds ! k) \<noteq> DT_NULL \<and>
                      read64 m (dyn + 16 * of_nat k + 8) = snd (ds ! k)) \<and>
     read64 m (dyn + 16 * of_nat (length ds)) = DT_NULL"

text \<open>The value of the last entry with a tag, and a default when there is none.\<close>

fun dyn_value :: "u64 \<Rightarrow> u64 \<Rightarrow> (u64 \<times> u64) list \<Rightarrow> u64" where
  "dyn_value tag v [] = v"
| "dyn_value tag v ((t, x) # ds) = dyn_value tag (if t = tag then x else v) ds"

lemma scast_of_nat_u32: "k < 2 ^ 31 \<Longrightarrow> (scast (of_nat k :: u32) :: u64) = of_nat k"
proof -
  assume k: "k < 2 ^ 31"
  have "sint (of_nat k :: u32) = int k"
    using k by (simp add: sint_uint uint_nat unat_of_nat take_bit_nat_eq_self signed_take_bit_int_eq_self)
  then show ?thesis by (simp add: scast_eq)
qed

lemma dyn_fields:
  assumes "dynamic_at m dyn ds" "k \<le> length ds"
  shows "d_tag m dyn (of_nat k) = (if k < length ds then fst (ds ! k) else DT_NULL)"
    "k < length ds \<Longrightarrow> fst (ds ! k) \<noteq> DT_NULL" "k < length ds \<Longrightarrow> d_un m dyn (of_nat k) = snd (ds ! k)"
  using assms by (auto simp: dynamic_at_def d_tag_def d_un_def scast_of_nat_u32)

lemma dyn_loop_from:
  assumes "dynamic_at m dyn ds" "k \<le> length ds"
  shows "\<exists>rel'. dyn_loop m ldbase dyn (of_nat k) rel relsz relent =
      Some (rel', dyn_value DT_RELASZ relsz (drop k ds), dyn_value DT_RELAENT relent (drop k ds)) \<and>
    rel' = dyn_value DT_RELA (rel - ldbase) (drop k ds) + ldbase"
  using assms(2)
proof (induction "length ds - k" arbitrary: k rel relsz relent)
  case 0
  then have "k = length ds" by simp
  then show ?case using dyn_fields(1) [OF assms(1), of k] by (subst dyn_loop.simps) simp
next
  case (Suc n)
  then have k: "k < length ds" "n = length ds - Suc k" by simp_all
  have d: "drop k ds = ds ! k # drop (Suc k) ds" using k(1) by (simp add: Cons_nth_drop_Suc)
  have s: "of_nat k + 1 = (of_nat (Suc k) :: u32)" by simp
  obtain t x where tx: "ds ! k = (t, x)" by (cases "ds ! k")
  note f = dyn_fields [OF assms(1), of k]
  show ?case
    using Suc.hyps(1) [OF k(2)] k(1) f tx
    by (subst dyn_loop.simps) (auto simp: d s dt_defs simp del: of_nat_Suc)
qed

lemma dyn_loop_values:
  "dynamic_at m dyn ds \<Longrightarrow> dyn_loop m ldbase dyn 0 0 0 0 =
     Some (dyn_value DT_RELA (- ldbase) ds + ldbase, dyn_value DT_RELASZ 0 ds, dyn_value DT_RELAENT 0 ds)"
  using dyn_loop_from [of m dyn ds 0 ldbase 0 0 0] by simp

section \<open>Applying the relocations\<close>

text \<open>The words that the \<open>n\<close> entries at \<open>rel\<close> name, in the order of the table.\<close>

primrec targets :: "memory \<Rightarrow> u64 \<Rightarrow> addr \<Rightarrow> u64 \<Rightarrow> nat \<Rightarrow> addr list" where
  "targets m ldbase rel relent 0 = []"
| "targets m ldbase rel relent (Suc n) =
     (if ELF64_R_TYPE (read64 m (rel + 8)) = R_X86_64_RELATIVE then [ldbase + read64 m rel] else []) @
     targets m ldbase (rel + relent) relent n"

fun separate :: "addr list \<Rightarrow> bool" where
  "separate [] \<longleftrightarrow> True"
| "separate (t # ts) \<longleftrightarrow> (\<forall>u \<in> set ts. no_overlap t 8 u 8) \<and> separate ts"

text \<open>\<open>relocated ldbase ts m m'\<close>: in \<open>m'\<close> every word of \<open>ts\<close> is increased by \<open>ldbase\<close> and no other byte differs from \<open>m\<close>.\<close>

definition relocated :: "u64 \<Rightarrow> addr list \<Rightarrow> memory \<Rightarrow> memory \<Rightarrow> bool" where
  "relocated ldbase ts m m' \<longleftrightarrow> (\<forall>t \<in> set ts. read64 m' t = read64 m t + ldbase) \<and>
     (\<forall>x. (\<forall>t \<in> set ts. \<not> in_range t 8 x) \<longrightarrow> m' x = m x)"

lemma no_overlap_not_in: "no_overlap a n b k \<Longrightarrow> in_range b k x \<Longrightarrow> \<not> in_range a n x"
  by (auto simp: no_overlap_def)

lemma relocated_step:
  assumes "relocated ldbase ts (write64 m t (read64 m t + ldbase)) m'" "\<forall>u \<in> set ts. no_overlap t 8 u 8"
  shows "relocated ldbase (t # ts) m m'"
  unfolding relocated_def
proof (intro conjI ballI allI impI)
  fix u assume "u \<in> set (t # ts)"
  moreover have "read64 m' t = read64 m t + ldbase"
  proof -
    have "read64 m' t = read64 (write64 m t (read64 m t + ldbase)) t"
      using assms no_overlap_not_in no_overlap_sym by (intro read64_frame) (fastforce simp: relocated_def)
    then show ?thesis by simp
  qed
  moreover have "read64 m' u = read64 m u + ldbase" if "u \<in> set ts"
    using assms that by (simp add: relocated_def read64_write64_disjoint)
  ultimately show "read64 m' u = read64 m u + ldbase" by auto
next
  fix x assume "\<forall>u \<in> set (t # ts). \<not> in_range u 8 x"
  then show "m' x = m x" using assms(1) by (simp add: relocated_def write64_outside)
qed

lemma targets_frame:
  assumes "\<And>x. in_range rel (n * unat relent) x \<Longrightarrow> m' x = m x" "16 \<le> unat relent" "n * unat relent \<le> 2 ^ 64"
  shows "targets m' ldbase rel relent n = targets m ldbase rel relent n"
  using assms(1,3)
proof (induction n arbitrary: rel)
  case (Suc n)
  have a: "read64 m' (rel + of_nat j) = read64 m (rel + of_nat j)" if "j + 8 \<le> 16" for j
    using that assms(2) Suc.prems by (intro read64_agree [of rel "Suc n * unat relent"]) auto
  have e: "rel + relent = rel + of_nat (unat relent)" by simp
  have "targets m' ldbase (rel + relent) relent n = targets m ldbase (rel + relent) relent n"
  proof (rule Suc.IH)
    fix x assume "in_range (rel + relent) (n * unat relent) x"
    then have "in_range rel (Suc n * unat relent) x"
      using in_range_sub [of rel "unat relent" "n * unat relent" x "Suc n * unat relent"] Suc.prems(2) by simp
    then show "m' x = m x" by (rule Suc.prems(1))
  qed (use Suc.prems(2) in simp)
  then show ?case using a [of 0] a [of 8] by simp
qed simp

lemma sint_pos_of_nat: "0 < k \<Longrightarrow> k < 2 ^ 63 \<Longrightarrow> sint (of_nat k :: u64) > 0"
  by (simp add: sint_uint uint_nat unat_of_nat take_bit_nat_eq_self signed_take_bit_int_eq_self)

text \<open>The entries at \<open>rel\<close> can be applied: they fit a signed size, name separate words, and name nothing in the table itself.\<close>

definition table_ok :: "memory \<Rightarrow> u64 \<Rightarrow> addr \<Rightarrow> u64 \<Rightarrow> nat \<Rightarrow> bool" where
  "table_ok m ldbase rel relent n \<longleftrightarrow> 16 \<le> unat relent \<and> n * unat relent < 2 ^ 63 \<and>
     separate (targets m ldbase rel relent n) \<and>
     (\<forall>t \<in> set (targets m ldbase rel relent n). no_overlap t 8 rel (n * unat relent))"

lemma no_overlap_tail: "no_overlap t 8 rel (Suc n * unat relent) \<Longrightarrow> Suc n * unat relent \<le> 2 ^ 64 \<Longrightarrow> no_overlap t 8 (rel + relent) (n * unat relent)"
  using in_range_sub [of rel "unat relent" "n * unat relent" _ "Suc n * unat relent"] by (auto simp: no_overlap_def)

lemma table_ok_write:
  assumes "table_ok m ldbase rel relent (Suc n)" "no_overlap t 8 rel (Suc n * unat relent)"
  shows "targets (write64 m t v) ldbase (rel + relent) relent n = targets m ldbase (rel + relent) relent n"
proof (rule targets_frame)
  fix x assume "in_range (rel + relent) (n * unat relent) x"
  moreover have "no_overlap t 8 (rel + relent) (n * unat relent)" using assms by (intro no_overlap_tail) (auto simp: table_ok_def)
  ultimately show "write64 m t v x = m x" using no_overlap_not_in write64_outside by blast
qed (use assms(1) in \<open>auto simp: table_ok_def\<close>)

lemma table_ok_tail:
  assumes "table_ok m ldbase rel relent (Suc n)" "targets m' ldbase (rel + relent) relent n = targets m ldbase (rel + relent) relent n"
  shows "table_ok m' ldbase (rel + relent) relent n"
proof -
  have "no_overlap t 8 (rel + relent) (n * unat relent)" if "t \<in> set (targets m ldbase (rel + relent) relent n)" for t
    using assms(1) that by (intro no_overlap_tail) (auto simp: table_ok_def)
  then show ?thesis using assms by (auto simp: table_ok_def split: if_splits)
qed

lemma rel_loop_relocates:
  assumes "table_ok m ldbase rel relent n"
  shows "\<exists>m'. rel_loop ldbase rel (of_nat (n * unat relent)) relent m = Some m' \<and> relocated ldbase (targets m ldbase rel relent n) m m'"
  using assms
proof (induction n arbitrary: rel m)
  case 0
  then show ?case by (subst rel_loop.simps) (simp add: relocated_def)
next
  case (Suc n)
  let ?m1 = "apply_rel ldbase rel m" and ?t = "ldbase + read64 m rel" and ?ts = "targets m ldbase (rel + relent) relent n"
  have "0 < Suc n * unat relent" "Suc n * unat relent < 2 ^ 63" using Suc.prems by (auto simp: table_ok_def)
  then have pos: "sint (of_nat (Suc n * unat relent) :: u64) > 0" by (rule sint_pos_of_nat)
  have less: "of_nat (Suc n * unat relent) - relent = (of_nat (n * unat relent) :: u64)" by simp
  have step: "rel_loop ldbase rel (of_nat (Suc n * unat relent)) relent m =
      rel_loop ldbase (rel + relent) (of_nat (n * unat relent)) relent ?m1"
    using pos by (subst rel_loop.simps) (simp only: less if_True)
  show ?case
  proof (cases "ELF64_R_TYPE (read64 m (rel + 8)) = R_X86_64_RELATIVE")
    case True
    then have m1: "?m1 = write64 m ?t (read64 m ?t + ldbase)"
      by (simp add: apply_rel_def Let_def R_X86_64_NONE_def R_X86_64_RELATIVE_def)
    have ts: "targets ?m1 ldbase (rel + relent) relent n = ?ts"
      unfolding m1 using Suc.prems True by (intro table_ok_write) (auto simp: table_ok_def)
    obtain m' where "rel_loop ldbase (rel + relent) (of_nat (n * unat relent)) relent ?m1 = Some m'" "relocated ldbase ?ts ?m1 m'"
      using Suc.IH [OF table_ok_tail [OF Suc.prems ts]] ts by auto
    moreover have "\<forall>u \<in> set ?ts. no_overlap ?t 8 u 8" using Suc.prems True by (simp add: table_ok_def)
    ultimately show ?thesis using True relocated_step unfolding step m1 by auto
  next
    case False
    then have "?m1 = m" by (simp add: apply_rel_def Let_def)
    then show ?thesis using False Suc.IH [OF table_ok_tail [OF Suc.prems refl]] unfolding step by simp
  qed
qed

text \<open>
  C40: \<^verbatim>\<open>_relocate\<close> always returns on an image with a terminated dynamic section.  Without relocation entries it changes nothing; when the address or
  the entry size is missing it fails and changes nothing; otherwise it adds the load address to exactly the words that the
  relative entries of the table name, once each, and changes no other byte.
\<close>

theorem relocate_correct:
  assumes dyn: "dynamic_at m dyn ds" and rel: "rel = dyn_value DT_RELA (- ldbase) ds + ldbase" and relent: "relent = dyn_value DT_RELAENT 0 ds"
    and tab: "rel \<noteq> 0 \<and> relent \<noteq> 0 \<longrightarrow> dyn_value DT_RELASZ 0 ds = of_nat (n * unat relent) \<and> table_ok m ldbase rel relent n"
  shows "\<exists>st m'. relocate ldbase dyn m = Some (st, m') \<and>
    (if rel \<noteq> 0 \<and> relent \<noteq> 0 then st = EFI_SUCCESS \<and> relocated ldbase (targets m ldbase rel relent n) m m'
     else m' = m \<and> st = (if rel = 0 \<and> relent = 0 then EFI_SUCCESS else EFI_LOAD_ERROR))"
proof (cases "rel \<noteq> 0 \<and> relent \<noteq> 0")
  case True
  then obtain m' where "rel_loop ldbase rel (of_nat (n * unat relent)) relent m = Some m'" "relocated ldbase (targets m ldbase rel relent n) m m'"
    using rel_loop_relocates tab by blast
  then show ?thesis using True tab by (simp add: relocate_def dyn_loop_values [OF dyn] flip: rel relent)
next
  case False
  then show ?thesis by (auto simp: relocate_def dyn_loop_values [OF dyn] simp flip: rel relent)
qed

text \<open>
  An image loaded at \<open>0x40000000\<close> with one relative entry of 24 bytes at \<open>0x2000\<close> that names the word at \<open>0x3000\<close>, whose value is \<open>0x1234\<close>, and a dynamic
  section at \<open>0x1000\<close> in the image.
\<close>

definition demo_image :: memory where
  "demo_image = (\<lambda>_. 0)(0x40001000 := 7, 0x40001009 := 0x20, 0x40001010 := 8, 0x40001018 := 24, 0x40001020 := 9, 0x40001028 := 24,
     0x40002001 := 0x30, 0x40002008 := 8, 0x40003000 := 0x34, 0x40003001 := 0x12)"

definition demo_dynamic :: "(u64 \<times> u64) list" where
  "demo_dynamic = [(DT_RELA, 0x2000), (DT_RELASZ, 24), (DT_RELAENT, 24)]"

lemma demo_image_reads:
  "read64 demo_image 0x40001000 = 7" "read64 demo_image 0x40001008 = 0x2000" "read64 demo_image 0x40001010 = 8" "read64 demo_image 0x40001018 = 24"
  "read64 demo_image 0x40001020 = 9" "read64 demo_image 0x40001028 = 24" "read64 demo_image 0x40001030 = 0"
  "read64 demo_image 0x40002000 = 0x3000" "read64 demo_image 0x40002008 = 8" "read64 demo_image 0x40003000 = 0x1234"
  by (simp_all add: demo_image_def read64_def eval_simps)

lemma demo_image_dynamic: "dynamic_at demo_image 0x40001000 demo_dynamic"
  by (auto simp: dynamic_at_def demo_dynamic_def demo_image_reads less_Suc_eq dt_defs nth_Cons')

lemma demo_image_targets: "targets demo_image 0x40000000 0x40002000 24 1 = [0x40003000]"
  by (simp add: demo_image_reads ELF64_R_TYPE_def R_X86_64_RELATIVE_def)

lemma demo_image_table: "table_ok demo_image 0x40000000 0x40002000 24 1"
proof -
  have "no_overlap 0x40003000 8 0x40002000 24" by (rule no_overlap_linear) simp_all
  then show ?thesis unfolding table_ok_def demo_image_targets by simp
qed

theorem relocate_correct_witness:
  "\<exists>m'. relocate 0x40000000 0x40001000 demo_image = Some (EFI_SUCCESS, m') \<and> read64 m' 0x40003000 = 0x40001234 \<and> m' 0x40002001 = 0x30"
proof -
  have v: "dyn_value DT_RELA (- 0x40000000) demo_dynamic + 0x40000000 = 0x40002000" "dyn_value DT_RELAENT 0 demo_dynamic = 24"
      "dyn_value DT_RELASZ 0 demo_dynamic = 24"
    by (simp_all add: demo_dynamic_def dt_defs)
  obtain m' where m': "relocate 0x40000000 0x40001000 demo_image = Some (EFI_SUCCESS, m')" "relocated 0x40000000 [0x40003000] demo_image m'"
    using relocate_correct [OF demo_image_dynamic v(1) [symmetric] v(2) [symmetric], of 1] demo_image_table
    unfolding demo_image_targets v(3) by auto
  have "\<not> in_range 0x40003000 8 (0x40002001 :: u64)" by (simp add: in_range_def)
  then have "m' 0x40002001 = demo_image 0x40002001" using m'(2) by (simp add: relocated_def)
  also have "demo_image 0x40002001 = 0x30" by (simp add: demo_image_def)
  finally show ?thesis using m' by (simp add: relocated_def demo_image_reads)
qed

end
