(* ===== verification/Efi_Print.thy ===== *)
theory Efi_Print
  imports Efi_Misc "HOL-Library.Monad_Syntax"
begin

text \<open>
  The formatted output of the EFI library, \<^verbatim>\<open>gnu-efi/lib/print.c\<close>, with the arithmetic of \<^verbatim>\<open>lib/x86_64/math.c\<close> it uses.  \<^verbatim>\<open>_Print\<close> reads a format with
  the arguments of a \<^verbatim>\<open>va_list\<close>, collects characters in a buffer of 200 and hands the buffer to an output function whenever it is full, an attribute changes
  or the format ends.

  The output functions and their context are a record \<open>print_dev\<close> over a context of any type, which contains the memory that format and arguments are read
  from: writing output can change what is read next, as it does in the code when the destination of \<^verbatim>\<open>UnicodeSPrint\<close> overlaps its format.  \<open>None\<close> as a
  result means that the call does not return, or takes an argument that was not passed.
\<close>

section \<open>Numbers\<close>

definition RShiftU64 :: "u64 \<Rightarrow> u64 \<Rightarrow> u64" where
  "RShiftU64 Operand Count = drop_bit (unat Count) Operand"

definition LShiftU64 :: "u64 \<Rightarrow> u64 \<Rightarrow> u64" where
  "LShiftU64 Operand Count = push_bit (unat Count) Operand"

definition MultU64x32 :: "u64 \<Rightarrow> u64 \<Rightarrow> u64" where
  "MultU64x32 Multiplicand Multiplier = Multiplicand * Multiplier"

text \<open>The quotient and \<^verbatim>\<open>*Remainder\<close>; dividing by zero faults.\<close>

definition DivU64x32 :: "u64 \<Rightarrow> u64 \<Rightarrow> (u64 \<times> u64) option" where
  "DivU64x32 Dividend Divisor = (if Divisor = 0 then None else Some (Dividend div Divisor, Dividend mod Divisor))"

definition Hex :: "u8 list" where
  "Hex = [0x30, 0x31, 0x32, 0x33, 0x34, 0x35, 0x36, 0x37, 0x38, 0x39, 0x41, 0x42, 0x43, 0x44, 0x45, 0x46]"

text \<open>
  \<^verbatim>\<open>ValueToHex\<close> and \<^verbatim>\<open>ValueToString\<close> give the text they write before the final NUL.  The digits go to the array \<^verbatim>\<open>str\<close> first, the least significant at its
  start, and are taken back from its end.
\<close>

function hex_digits :: "u64 \<Rightarrow> u8 list \<Rightarrow> u8 list" where
  "hex_digits v str = (if v \<noteq> 0 then hex_digits (RShiftU64 v 4) (str @ [Hex ! unat (v AND 0xF)]) else str)"
  by auto

lemma RShiftU64_4: "RShiftU64 v 4 = v div 16"
  by (simp add: RShiftU64_def drop_bit_eq_div)

lemma unat_div_16: "unat ((v :: u64) div 16) = unat v div 16"
  by (simp add: unat_div)

termination hex_digits
  by (relation "measure (\<lambda>(v, _). unat v)") (auto simp: RShiftU64_4 unat_div_16 unat_gt_0)

declare hex_digits.simps [simp del]

definition ValueToHex :: "u64 \<Rightarrow> u16 list" where
  "ValueToHex v = (if v = 0 then [0x30] else map ucast (rev (hex_digits v [])))"

function dec_digits :: "u64 \<Rightarrow> u8 list \<Rightarrow> u8 list" where
  "dec_digits v str =
     (if v \<noteq> 0 then
        case DivU64x32 v 10 of None \<Rightarrow> str
        | Some (q, r) \<Rightarrow> dec_digits q (str @ [ucast r + 0x30])
      else str)"
  by auto

termination dec_digits
  by (relation "measure (\<lambda>(v, _). unat v)") (auto simp: DivU64x32_def unat_div unat_gt_0 split: if_splits)

declare dec_digits.simps [simp del]

text \<open>\<open>ds\<close> is the part of \<^verbatim>\<open>str\<close> that is left, from its end; \<open>c\<close> counts to the next comma.\<close>

primrec comma_loop :: "u8 list \<Rightarrow> u64 \<Rightarrow> u16 list" where
  "comma_loop [] c = []"
| "comma_loop (d # ds) c =
     (let c = c - 1 in
      if c = 0 then 0x2C # ucast d # comma_loop ds 3 else ucast d # comma_loop ds c)"

definition ca :: "u8 list" where "ca = [3, 1, 2]"

definition ValueToString :: "bool \<Rightarrow> u64 \<Rightarrow> u16 list" where
  "ValueToString Comma v =
     (if v = 0 then [0x30]
      else let (sign, v) = (if sint v < 0 then ([0x2D], - v) else ([], v));
               str = dec_digits v [];
               c = (if Comma then ucast (ca ! (length str mod 3)) else 999) + 1
           in sign @ comma_loop (rev str) c)"

section \<open>The print state\<close>

text \<open>A \<^verbatim>\<open>POINTER\<close> leads to memory, or to the array \<^verbatim>\<open>Scratch\<close> or a literal, given by its characters before the NUL.\<close>

datatype text_source = Memory addr | Chars "u16 list"

record POINTER =
  Ascii :: bool
  Index :: u64
  un :: text_source

text \<open>The arguments that are left: those of integer class, and the bits of those of type \<^verbatim>\<open>double\<close>.\<close>

record va_list =
  gp_args :: "u64 list"
  fp_args :: "u64 list"

fun va_arg :: "va_list \<Rightarrow> (u64 \<times> va_list) option" where
  "va_arg va = (case gp_args va of [] \<Rightarrow> None | a # as \<Rightarrow> Some (a, va\<lparr>gp_args := as\<rparr>))"

fun va_arg_double :: "va_list \<Rightarrow> (u64 \<times> va_list) option" where
  "va_arg_double va = (case fp_args va of [] \<Rightarrow> None | a # as \<Rightarrow> Some (a, va\<lparr>fp_args := as\<rparr>))"

record PRINT_ITEM =
  it_Item :: POINTER
  it_Width :: u64
  it_FieldWidth :: u64
  it_WidthParse :: bool  \<comment> \<open>it points to \<^verbatim>\<open>FieldWidth\<close>\<close>
  it_Pad :: u16
  it_PadBefore :: bool
  it_Comma :: bool
  it_Long :: bool

record 'c PRINT_STATE =
  ps_fmt :: POINTER
  ps_args :: va_list
  ps_Buffer :: "u16 list"  \<comment> \<open>from \<^verbatim>\<open>Buffer\<close> to \<^verbatim>\<open>Pos\<close>\<close>
  ps_Len :: u64
  ps_Attr :: u64
  ps_RestoreAttr :: u64
  ps_AttrNorm :: u64
  ps_AttrHighlight :: u64
  ps_AttrError :: u64
  ps_Context :: 'c

record 'c print_dev =
  Output :: "'c \<Rightarrow> u16 list \<Rightarrow> 'c"
  SetAttr :: "('c \<Rightarrow> u64 \<Rightarrow> 'c) option"
  dev_mem :: "'c \<Rightarrow> memory"

definition PRINT_STRING_LEN :: nat where "PRINT_STRING_LEN = 200"
definition PRINT_ITEM_BUFFER_LEN :: nat where "PRINT_ITEM_BUFFER_LEN = 100"

section \<open>Output\<close>

text \<open>The output function gets the NUL-terminated string at \<^verbatim>\<open>Buffer\<close>.\<close>

definition PFLUSH :: "'c print_dev \<Rightarrow> 'c PRINT_STATE \<Rightarrow> 'c PRINT_STATE" where
  "PFLUSH dev ps = ps\<lparr>ps_Context := Output dev (ps_Context ps) (takeWhile (\<lambda>c. c \<noteq> 0) (ps_Buffer ps)), ps_Buffer := []\<rparr>"

definition PSETATTR :: "'c print_dev \<Rightarrow> u64 \<Rightarrow> 'c PRINT_STATE \<Rightarrow> 'c PRINT_STATE" where
  "PSETATTR dev Attr ps =
     (let ps = PFLUSH dev ps;
          ps = ps\<lparr>ps_RestoreAttr := ps_Attr ps\<rparr>;
          ps = (case SetAttr dev of None \<Rightarrow> ps | Some f \<Rightarrow> ps\<lparr>ps_Context := f (ps_Context ps) Attr\<rparr>)
      in ps\<lparr>ps_Attr := Attr\<rparr>)"

definition PPUTC_1 :: "'c print_dev \<Rightarrow> u16 \<Rightarrow> 'c PRINT_STATE \<Rightarrow> 'c PRINT_STATE" where
  "PPUTC_1 dev c ps =
     (let ps = ps\<lparr>ps_Buffer := ps_Buffer ps @ [c], ps_Len := ps_Len ps + 1\<rparr>
      in if length (ps_Buffer ps) \<ge> PRINT_STRING_LEN - 1 then PFLUSH dev ps else ps)"

definition PPUTC :: "'c print_dev \<Rightarrow> u16 \<Rightarrow> 'c PRINT_STATE \<Rightarrow> 'c PRINT_STATE" where
  "PPUTC dev c ps = (if c = 0x0A then PPUTC_1 dev c (PPUTC_1 dev 0x0D ps) else PPUTC_1 dev c ps)"

definition char_at_ptr :: "memory \<Rightarrow> POINTER \<Rightarrow> u64 \<Rightarrow> u16" where
  "char_at_ptr m p i =
     (case un p of
        Memory a \<Rightarrow> if Ascii p then ucast (m (a + i)) else wchr m a i
      | Chars cs \<Rightarrow> if unat i < length cs then cs ! unat i else 0)"

definition PGETC :: "memory \<Rightarrow> POINTER \<Rightarrow> u16 \<times> POINTER" where
  "PGETC m p = (char_at_ptr m p (Index p), p\<lparr>Index := Index p + 1\<rparr>)"

primrec put_pad :: "'c print_dev \<Rightarrow> u16 \<Rightarrow> nat \<Rightarrow> 'c PRINT_STATE \<Rightarrow> 'c PRINT_STATE" where
  "put_pad dev c 0 ps = ps"
| "put_pad dev c (Suc n) ps = put_pad dev c n (PPUTC dev c ps)"

primrec put_item :: "'c print_dev \<Rightarrow> POINTER \<Rightarrow> nat \<Rightarrow> 'c PRINT_STATE \<Rightarrow> 'c PRINT_STATE" where
  "put_item dev p 0 ps = ps"
| "put_item dev p (Suc n) ps =
     (let (c, p) = PGETC (dev_mem dev (ps_Context ps)) p in put_item dev p n (PPUTC dev c ps))"

text \<open>A count of a loop \<^verbatim>\<open>for (i = a; i < b; i++)\<close>.\<close>

definition upto_count :: "u64 \<Rightarrow> u64 \<Rightarrow> nat" where
  "upto_count a b = unat b - unat a"

definition PITEM :: "'c print_dev \<Rightarrow> PRINT_ITEM \<Rightarrow> 'c PRINT_STATE \<Rightarrow> 'c PRINT_STATE option" where
  "PITEM dev Item ps =
     (let m = dev_mem dev (ps_Context ps); p = it_Item Item in
      do {
        Len \<leftarrow> scan_while (\<lambda>i. i < it_FieldWidth Item \<and> char_at_ptr m p i \<noteq> 0) 0;
        let FieldWidth = (if it_FieldWidth Item = - 1 then Len else it_FieldWidth Item);
        let Width = (if Len > it_Width Item then Len else it_Width Item);
        let ps = (if it_PadBefore Item then put_pad dev 0x20 (upto_count Width FieldWidth) ps else ps);
        let ps = put_pad dev (it_Pad Item) (upto_count Len Width) ps;
        let ps = put_item dev (p\<lparr>Index := 0\<rparr>) (unat Len) ps;
        Some (if \<not> it_PadBefore Item then put_pad dev 0x20 (upto_count Width FieldWidth) ps else ps)
      })"

section \<open>The formatter\<close>

text \<open>
  The conversions that call another function of the library to fill \<^verbatim>\<open>Scratch\<close> (\<^verbatim>\<open>D\<close>, \<^verbatim>\<open>f\<close>, \<^verbatim>\<open>g\<close>, \<^verbatim>\<open>r\<close> and \<^verbatim>\<open>t\<close>) do it through the argument \<open>sub\<close>, from the
  conversion character, the comma flag, the argument and the context.  These functions call the formatter themselves, on literal
  formats without such conversions: the recursion of the code is unrolled by instantiating \<open>sub\<close> below.
\<close>

type_synonym 'c sub_conv = "u16 \<Rightarrow> bool \<Rightarrow> u64 \<Rightarrow> 'c \<Rightarrow> (u16 list \<times> 'c) option"

definition set_scratch :: "u16 list \<Rightarrow> PRINT_ITEM \<Rightarrow> PRINT_ITEM" where
  "set_scratch cs it = it\<lparr>it_Item := (it_Item it)\<lparr>un := Chars cs\<rparr>\<rparr>"

text \<open>A string of one character that the code stores in \<^verbatim>\<open>Scratch[0]\<close>, with a NUL in \<^verbatim>\<open>Scratch[1]\<close>.\<close>

definition one_char :: "u16 \<Rightarrow> u16 list" where
  "one_char c = (if c = 0 then [] else [c])"

definition set_width :: "u64 \<Rightarrow> PRINT_ITEM \<Rightarrow> PRINT_ITEM" where
  "set_width v it = (if it_WidthParse it then it\<lparr>it_FieldWidth := v\<rparr> else it\<lparr>it_Width := v\<rparr>)"

partial_function (option) width_loop :: "memory \<Rightarrow> u16 \<Rightarrow> POINTER \<Rightarrow> u64 \<Rightarrow> (u64 \<times> POINTER) option" where
  [code]: "width_loop m c p v =
     (let v = v * 10 + ucast c - 0x30; (c, p) = PGETC m p in
      if c \<ge> 0x30 \<and> c \<le> 0x39 then width_loop m c p v else Some (v, p\<lparr>Index := Index p - 1\<rparr>))"

definition null_text :: "u16 list" where
  "null_text = [0x28, 0x6E, 0x75, 0x6C, 0x6C, 0x29]"

text \<open>A pointer argument of \<^verbatim>\<open>%a\<close> and \<^verbatim>\<open>%s\<close>.\<close>

definition string_arg :: "bool \<Rightarrow> u64 \<Rightarrow> PRINT_ITEM \<Rightarrow> PRINT_ITEM" where
  "string_arg ascii a it = it\<lparr>it_Item := (it_Item it)\<lparr>un := (if a = 0 then Chars null_text else Memory a), Ascii := ascii \<or> Ascii (it_Item it)\<rparr>\<rparr>"

text \<open>\<open>Item.Long ? va_arg(args, INT64) : va_arg(args, INT32)\<close> and the unsigned variant, as the 64-bit parameter they become.\<close>

definition signed_arg :: "bool \<Rightarrow> u64 \<Rightarrow> u64" where
  "signed_arg long a = (if long then a else scast (ucast a :: u32))"

definition unsigned_arg :: "bool \<Rightarrow> u64 \<Rightarrow> u64" where
  "unsigned_arg long a = (if long then a else ucast (ucast a :: u32))"

text \<open>
  The body of the \<^verbatim>\<open>switch\<close> for the character \<open>c\<close>; it returns the state, the item and \<^verbatim>\<open>Attr\<close>.  The cases are, in this order, the characters
  \<^verbatim>\<open>% , - * . 0 1..9 a c D d E e f H h l N n p s g r t u X x\<close>.
\<close>

definition item_switch :: "'c print_dev \<Rightarrow> 'c sub_conv \<Rightarrow> u16 \<Rightarrow> 'c PRINT_STATE \<Rightarrow> PRINT_ITEM \<Rightarrow> u64 \<Rightarrow>
    ('c PRINT_STATE \<times> PRINT_ITEM \<times> u64) option" where
  "item_switch dev sub c ps Item Attr =
     (if c = 0x25 then Some (ps, set_scratch [0x25] Item, Attr)
      else if c = 0x2C then Some (ps, Item\<lparr>it_Comma := True\<rparr>, Attr)
      else if c = 0x2D then Some (ps, Item\<lparr>it_PadBefore := False\<rparr>, Attr)
      else if c = 0x2A then do { (a, va) \<leftarrow> va_arg (ps_args ps); Some (ps\<lparr>ps_args := va\<rparr>, set_width a Item, Attr) }
      else if c = 0x2E then Some (ps, Item\<lparr>it_WidthParse := True\<rparr>, Attr)
      else if c = 0x30 then Some (ps, Item\<lparr>it_Pad := 0x30\<rparr>, Attr)
      else if 0x31 \<le> c \<and> c \<le> 0x39 then do {
        (v, p) \<leftarrow> width_loop (dev_mem dev (ps_Context ps)) c (ps_fmt ps) 0;
        Some (ps\<lparr>ps_fmt := p\<rparr>, set_width v Item, Attr)
      }
      else if c = 0x61 then do { (a, va) \<leftarrow> va_arg (ps_args ps); Some (ps\<lparr>ps_args := va\<rparr>, string_arg True a Item, Attr) }
      else if c = 0x63 then do { (a, va) \<leftarrow> va_arg (ps_args ps); Some (ps\<lparr>ps_args := va\<rparr>, set_scratch (one_char (ucast a)) Item, Attr) }
      else if c = 0x44 then do {
        (a, va) \<leftarrow> va_arg (ps_args ps);
        (cs, ctx) \<leftarrow> sub c (it_Comma Item) a (ps_Context ps);
        Some (ps\<lparr>ps_args := va, ps_Context := ctx\<rparr>, set_scratch (take (PRINT_ITEM_BUFFER_LEN - 1) cs) Item, Attr)
      }
      else if c = 0x64 then do {
        (a, va) \<leftarrow> va_arg (ps_args ps);
        Some (ps\<lparr>ps_args := va\<rparr>, set_scratch (ValueToString (it_Comma Item) (signed_arg (it_Long Item) a)) Item, Attr)
      }
      else if c = 0x45 then Some (ps, Item, ps_AttrError ps)
      else if c = 0x65 then Some (PSETATTR dev (ps_AttrError ps) ps, Item, Attr)
      else if c = 0x66 then do {
        (a, va) \<leftarrow> va_arg_double (ps_args ps);
        (cs, ctx) \<leftarrow> sub c (it_Comma Item) a (ps_Context ps);
        Some (ps\<lparr>ps_args := va, ps_Context := ctx\<rparr>, set_scratch cs Item, Attr)
      }
      else if c = 0x48 then Some (ps, Item, ps_AttrHighlight ps)
      else if c = 0x68 then Some (PSETATTR dev (ps_AttrHighlight ps) ps, Item, Attr)
      else if c = 0x6C then Some (ps, Item\<lparr>it_Long := True\<rparr>, Attr)
      else if c = 0x4E then Some (ps, Item, ps_AttrNorm ps)
      else if c = 0x6E then Some (PSETATTR dev (ps_AttrNorm ps) ps, Item, Attr)
      else if c = 0x70 then do {
        (a, va) \<leftarrow> va_arg (ps_args ps);
        Some (ps\<lparr>ps_args := va\<rparr>,
          set_scratch ([0x30, 0x78] @ ValueToHex (unsigned_arg (it_Long Item) a)) (Item\<lparr>it_Width := 0, it_Pad := 0x30\<rparr>), Attr)
      }
      else if c = 0x73 then do { (a, va) \<leftarrow> va_arg (ps_args ps); Some (ps\<lparr>ps_args := va\<rparr>, string_arg False a Item, Attr) }
      else if c = 0x67 \<or> c = 0x72 \<or> c = 0x74 then do {
        (a, va) \<leftarrow> va_arg (ps_args ps);
        (cs, ctx) \<leftarrow> sub c (it_Comma Item) a (ps_Context ps);
        Some (ps\<lparr>ps_args := va, ps_Context := ctx\<rparr>, set_scratch cs Item, Attr)
      }
      else if c = 0x75 then do {
        (a, va) \<leftarrow> va_arg (ps_args ps);
        Some (ps\<lparr>ps_args := va\<rparr>, set_scratch (ValueToString (it_Comma Item) (unsigned_arg (it_Long Item) a)) Item, Attr)
      }
      else if c = 0x58 \<or> c = 0x78 then do {
        let Item = (if c = 0x58 then Item\<lparr>it_Width := (if it_Long Item then 16 else 8), it_Pad := 0x30\<rparr> else Item);
        (a, va) \<leftarrow> va_arg (ps_args ps);
        Some (ps\<lparr>ps_args := va\<rparr>, set_scratch (ValueToHex (unsigned_arg (it_Long Item) a)) Item, Attr)
      }
      else Some (ps, set_scratch [0x3F] Item, Attr))"

definition new_item :: PRINT_ITEM where
  "new_item = \<lparr>it_Item = \<lparr>Ascii = False, Index = 0, un = Memory 0\<rparr>, it_Width = 0, it_FieldWidth = - 1, it_WidthParse = False,
     it_Pad = 0x20, it_PadBefore = True, it_Comma = False, it_Long = False\<rparr>"

definition fmt_getc :: "'c print_dev \<Rightarrow> 'c PRINT_STATE \<Rightarrow> u16 \<times> 'c PRINT_STATE" where
  "fmt_getc dev ps = (let (c, p) = PGETC (dev_mem dev (ps_Context ps)) (ps_fmt ps) in (c, ps\<lparr>ps_fmt := p\<rparr>))"

text \<open>The loop over the characters of one directive.\<close>

partial_function (option) item_loop :: "'c print_dev \<Rightarrow> 'c sub_conv \<Rightarrow> 'c PRINT_STATE \<Rightarrow> PRINT_ITEM \<Rightarrow> u64 \<Rightarrow> 'c PRINT_STATE option" where
  [code]: "item_loop dev sub ps Item Attr =
     (let (c, ps) = fmt_getc dev ps in
      if c = 0 then Some ps
      else do {
        (ps, Item, Attr) \<leftarrow> item_switch dev sub c ps Item Attr;
        if un (it_Item Item) \<noteq> Memory 0 then PITEM dev Item ps
        else if Attr \<noteq> 0 then Some ((PSETATTR dev Attr ps)\<lparr>ps_RestoreAttr := 0\<rparr>)
        else item_loop dev sub ps Item Attr
      })"

partial_function (option) print_loop :: "'c print_dev \<Rightarrow> 'c sub_conv \<Rightarrow> 'c PRINT_STATE \<Rightarrow> 'c PRINT_STATE option" where
  [code]: "print_loop dev sub ps =
     (let (c, ps) = fmt_getc dev ps in
      if c = 0 then Some ps
      else if c \<noteq> 0x25 then print_loop dev sub (PPUTC dev c ps)
      else do {
        ps \<leftarrow> item_loop dev sub (ps\<lparr>ps_RestoreAttr := 0\<rparr>) new_item 0;
        print_loop dev sub (if ps_RestoreAttr ps \<noteq> 0 then PSETATTR dev (ps_RestoreAttr ps) ps else ps)
      })"

definition Print_ps :: "'c print_dev \<Rightarrow> 'c sub_conv \<Rightarrow> 'c PRINT_STATE \<Rightarrow> (u64 \<times> 'c PRINT_STATE) option" where
  "Print_ps dev sub ps =
     do {
       ps \<leftarrow> print_loop dev sub (ps\<lparr>ps_Len := 0, ps_Buffer := [], ps_fmt := (ps_fmt ps)\<lparr>Index := 0\<rparr>\<rparr>);
       let ps = PFLUSH dev ps;
       Some (ps_Len ps, ps)
     }"

section \<open>Texts that are formatted into \<^verbatim>\<open>Scratch\<close>\<close>

definition wlit :: "string \<Rightarrow> u16 list" where
  "wlit s = map of_char s"

text \<open>\<^verbatim>\<open>UnicodeSPrint(Buffer, 0, fmt, ...)\<close> with a literal format and a buffer without limit, as the text produced.\<close>

definition collect_dev :: "(u16 list \<times> memory) print_dev" where
  "collect_dev = \<lparr>Output = \<lambda>(t, m) cs. (t @ cs, m), SetAttr = None, dev_mem = snd\<rparr>"

definition zero_ps :: "POINTER \<Rightarrow> va_list \<Rightarrow> 'c \<Rightarrow> 'c PRINT_STATE" where
  "zero_ps p va ctx = \<lparr>ps_fmt = p, ps_args = va, ps_Buffer = [], ps_Len = 0, ps_Attr = 0, ps_RestoreAttr = 0,
     ps_AttrNorm = 0, ps_AttrHighlight = 0, ps_AttrError = 0, ps_Context = ctx\<rparr>"

definition literal_fmt :: "string \<Rightarrow> POINTER" where
  "literal_fmt s = \<lparr>Ascii = False, Index = 0, un = Chars (wlit s)\<rparr>"

definition SPrint_text :: "memory \<Rightarrow> string \<Rightarrow> u64 list \<Rightarrow> u16 list option" where
  "SPrint_text m s as =
     map_option (\<lambda>(_, ps). fst (ps_Context ps))
       (Print_ps collect_dev (\<lambda>_ _ _ _. None) (zero_ps (literal_fmt s) \<lparr>gp_args = as, fp_args = []\<rparr> ([], m)))"

definition ErrorCodeTable :: "(status \<times> string) list" where
  "ErrorCodeTable = [
      (EFI_SUCCESS, ''Success''), (EFIERR 1, ''Load Error''), (EFIERR 2, ''Invalid Parameter''), (EFIERR 3, ''Unsupported''),
      (EFIERR 4, ''Bad Buffer Size''), (EFIERR 5, ''Buffer Too Small''), (EFIERR 6, ''Not Ready''), (EFIERR 7, ''Device Error''),
      (EFIERR 8, ''Write Protected''), (EFIERR 9, ''Out of Resources''), (EFIERR 10, ''Volume Corrupt''), (EFIERR 11, ''Volume Full''),
      (EFIERR 12, ''No Media''), (EFIERR 13, ''Media changed''), (EFIERR 14, ''Not Found''), (EFIERR 15, ''Access Denied''),
      (EFIERR 16, ''No Response''), (EFIERR 17, ''No mapping''), (EFIERR 18, ''Time out''), (EFIERR 19, ''Not started''),
      (EFIERR 20, ''Already started''), (EFIERR 21, ''Aborted''), (EFIERR 22, ''ICMP Error''), (EFIERR 23, ''TFTP Error''),
      (EFIERR 24, ''Protocol Error''), (EFIERR 25, ''Incompatible Version''), (EFIERR 26, ''Security Policy Violation''),
      (EFIERR 27, ''CRC Error''), (EFIERR 28, ''End of Media''), (EFIERR 31, ''End of File''), (EFIERR 32, ''Invalid Languages''),
      (EFIERR 33, ''Compromised Data''), (EFIERR 34, ''IP Address Conflict''), (EFIERR 35, ''HTTP Error''),
      (1, ''Warning Unknown Glyph''), (2, ''Warning Delete Failure''), (3, ''Warning Write Failure''), (4, ''Warning Buffer Too Small''),
      (5, ''Warning Stale Data''), (6, ''Warning File System''), (7, ''Warning Reset Required'')]"

definition StatusToString :: "memory \<Rightarrow> status \<Rightarrow> u16 list option" where
  "StatusToString m Status =
     (case map_of ErrorCodeTable Status of Some d \<Rightarrow> Some (wlit d) | None \<Rightarrow> SPrint_text m ''%X'' [Status])"

definition TimeToString :: "memory \<Rightarrow> addr \<Rightarrow> u16 list option" where
  "TimeToString m Time =
     (let hour = m (Time + 4);
          Hour = (if hour = 0 then 12 else if hour \<ge> 12 then if hour \<ge> 13 then ucast hour - 12 else ucast hour else ucast hour) :: u64;
          AmPm = (if hour = 0 then 0x61 else if hour \<ge> 12 then 0x70 else 0x61) :: u64;
          Year = ucast (read16 m Time) mod 100
      in SPrint_text m ''%02d/%02d/%02d  %02d:%02d%c''
           [ucast (m (Time + 2)), ucast (m (Time + 3)), Year, Hour, ucast (m (Time + 5)), AmPm])"

definition guid :: "u32 \<Rightarrow> u16 \<Rightarrow> u16 \<Rightarrow> u8 list \<Rightarrow> u8 list" where
  "guid d1 d2 d3 d4 = le_bytes 4 d1 @ le_bytes 2 d2 @ le_bytes 2 d3 @ d4"

definition KnownGuids :: "(u8 list \<times> string) list" where
  "KnownGuids = [
      (guid 0x0 0x0 0x0 [0x0, 0x0, 0x0, 0x0, 0x0, 0x0, 0x0, 0x0], ''G0''),
      (guid 0x8BE4DF61 0x93CA 0x11D2 [0xAA, 0xD, 0x0, 0xE0, 0x98, 0x3, 0x2B, 0x8C], ''EfiVar''),
      (guid 0xF088CD91 0xA046 0x11D2 [0x8E, 0x42, 0x0, 0xA0, 0xC9, 0x69, 0x72, 0x3B], ''VarStore''),
      (guid 0x9576E91 0x6D3F 0x11D2 [0x8E, 0x39, 0x0, 0xA0, 0xC9, 0x69, 0x72, 0x3B], ''DevPath''),
      (guid 0x5B1B31A1 0x9562 0x11D2 [0x8E, 0x3F, 0x0, 0xA0, 0xC9, 0x69, 0x72, 0x3B], ''LdImg''),
      (guid 0x387477C1 0x69C7 0x11D2 [0x8E, 0x39, 0x0, 0xA0, 0xC9, 0x69, 0x72, 0x3B], ''TxtIn''),
      (guid 0x387477C2 0x69C7 0x11D2 [0x8E, 0x39, 0x0, 0xA0, 0xC9, 0x69, 0x72, 0x3B], ''TxtOut''),
      (guid 0x964E5B21 0x6459 0x11D2 [0x8E, 0x39, 0x0, 0xA0, 0xC9, 0x69, 0x72, 0x3B], ''BlkIo''),
      (guid 0xA77B2472 0xE282 0x4E9F [0xA2, 0x45, 0xC2, 0xC0, 0xE2, 0x7B, 0xBC, 0xC1], ''BlkIo2''),
      (guid 0xCE345171 0xBA0B 0x11D2 [0x8E, 0x4F, 0x0, 0xA0, 0xC9, 0x69, 0x72, 0x3B], ''DskIo''),
      (guid 0x151C8EAE 0x7F2C 0x472C [0x9E, 0x54, 0x98, 0x28, 0x19, 0x4F, 0x6A, 0x88], ''DskIo2''),
      (guid 0x964E5B22 0x6459 0x11D2 [0x8E, 0x39, 0x0, 0xA0, 0xC9, 0x69, 0x72, 0x3B], ''Fs''),
      (guid 0x56EC3091 0x954C 0x11D2 [0x8E, 0x3F, 0x0, 0xA0, 0xC9, 0x69, 0x72, 0x3B], ''LdFile''),
      (guid 0xAF6AC311 0x84C3 0x11D2 [0x8E, 0x3C, 0x0, 0xA0, 0xC9, 0x69, 0x72, 0x3B], ''DevIo''),
      (guid 0x107A772C 0xD5E1 0x11D4 [0x9A, 0x46, 0x0, 0x90, 0x27, 0x3F, 0xC1, 0x4D], ''CName''),
      (guid 0x6A7A5CFF 0xE8D9 0x4F70 [0xBA, 0xDA, 0x75, 0xAB, 0x30, 0x25, 0xCE, 0x14], ''CName2''),
      (guid 0x9576E92 0x6D3F 0x11D2 [0x8E, 0x39, 0x0, 0xA0, 0xC9, 0x69, 0x72, 0x3B], ''FileInfo''),
      (guid 0x9576E93 0x6D3F 0x11D2 [0x8E, 0x39, 0x0, 0xA0, 0xC9, 0x69, 0x72, 0x3B], ''FsInfo''),
      (guid 0xDB47D7D3 0xFE81 0x11D3 [0x9A, 0x35, 0x0, 0x90, 0x27, 0x3F, 0xC1, 0x4D], ''FsVolInfo''),
      (guid 0x1D85CD7F 0xF43D 0x11D2 [0x9A, 0xC, 0x0, 0x90, 0x27, 0x3F, 0xC1, 0x4D], ''Unicode''),
      (guid 0x376E5EB2 0x30E4 0x11D3 [0xBA, 0xE5, 0x0, 0x80, 0xC7, 0x3C, 0x88, 0x81], ''LegacyBoot''),
      (guid 0xBB25CF6F 0xF1D4 0x11D2 [0x9A, 0xC, 0x0, 0x90, 0x27, 0x3F, 0xC1, 0xFD], ''SerIo''),
      (guid 0xE3D6310 0x6FE4 0x11D3 [0xBB, 0x81, 0x0, 0x80, 0xC7, 0x3C, 0x88, 0x81], ''VgaClass''),
      (guid 0xA19832B9 0xAC25 0x11D3 [0x9A, 0x2D, 0x0, 0x90, 0x27, 0x3F, 0xC1, 0x4D], ''Net''),
      (guid 0xE18541CD 0xF755 0x4F73 [0x92, 0x8D, 0x64, 0x3C, 0x8A, 0x79, 0xB2, 0x29], ''Nii''),
      (guid 0x3C4E603 0xAC28 0x11D3 [0x9A, 0x2D, 0x0, 0x90, 0x27, 0x3F, 0xC1, 0x4D], ''Pxe''),
      (guid 0x245DCA21 0xFB7B 0x11D3 [0x8F, 0x1, 0x0, 0xA0, 0xC9, 0x69, 0x72, 0x3B], ''PxeCb''),
      (guid 0x56D830A0 0x7E7A 0x11D3 [0xBB, 0xA0, 0x0, 0xA0, 0xC9, 0x69, 0x72, 0x3B], ''TxtOutSplit''),
      (guid 0xF0BA9039 0x68F1 0x425E [0xAA, 0x7F, 0xD9, 0xAA, 0xF9, 0x1B, 0x82, 0xA1], ''ErrOutSplit''),
      (guid 0xF9A3C550 0x7FB5 0x11D3 [0xBB, 0xA0, 0x0, 0xA0, 0xC9, 0x69, 0x72, 0x3B], ''TxtInSplit''),
      (guid 0xE0C14753 0xF9BE 0x11D2 [0x9A, 0xC, 0x0, 0x90, 0x27, 0x3F, 0xC1, 0x4D], ''PcAnsi''),
      (guid 0xDFA66065 0xB419 0x11D3 [0x9A, 0x2D, 0x0, 0x90, 0x27, 0x3F, 0xC1, 0x4D], ''Vt100''),
      (guid 0x7BAEC70B 0x57E0 0x4C76 [0x8E, 0x87, 0x2F, 0x9E, 0x28, 0x8, 0x83, 0x43], ''Vt100Plus''),
      (guid 0xAD15A0D6 0x8BEC 0x4ACF [0xA0, 0x73, 0xD0, 0x1D, 0xE7, 0x7E, 0x2D, 0x88], ''VtUtf8''),
      (guid 0xCF31FAC5 0xC24E 0x11D2 [0x85, 0xF3, 0x0, 0xA0, 0xC9, 0x3E, 0xC9, 0x3B], ''UnknownDev''),
      (guid 0xC12A7328 0xF81F 0x11D2 [0xBA, 0x4B, 0x0, 0xA0, 0xC9, 0x3E, 0xC9, 0x3B], ''ESP''),
      (guid 0x24DEE41 0x33E7 0x11D3 [0x9D, 0x69, 0x0, 0x8, 0xC7, 0x81, 0xF3, 0x9F], ''GPT MBR''),
      (guid 0x47C7B223 0xC42A 0x11D2 [0x8E, 0x57, 0x0, 0xA0, 0xC9, 0x69, 0x72, 0x3B], ''ShellInt''),
      (guid 0x47C7B224 0xC42A 0x11D2 [0x8E, 0x57, 0x0, 0xA0, 0xC9, 0x69, 0x72, 0x3B], ''SEnv''),
      (guid 0x47C7B226 0xC42A 0x11D2 [0x8E, 0x57, 0x0, 0xA0, 0xC9, 0x69, 0x72, 0x3B], ''ShellProtId''),
      (guid 0x47C7B225 0xC42A 0x11D2 [0x8E, 0x57, 0x0, 0xA0, 0xC9, 0x69, 0x72, 0x3B], ''ShellDevPathMap''),
      (guid 0x47C7B227 0xC42A 0x11D2 [0x8E, 0x57, 0x0, 0xA0, 0xC9, 0x69, 0x72, 0x3B], ''ShellAlias'')]"

text \<open>\<^verbatim>\<open>CompareGuid\<close> with a GUID of the program's data.\<close>

definition guid_is :: "memory \<Rightarrow> addr \<Rightarrow> u8 list \<Rightarrow> bool" where
  "guid_is m a g \<longleftrightarrow> compare_guid_words (guid_words m a) (\<lambda>i. le_word (take 4 (drop (4 * i) g))) = 0"

definition GuidToString :: "memory \<Rightarrow> addr \<Rightarrow> u16 list option" where
  "GuidToString m Guid =
     (case find (\<lambda>(g, _). guid_is m Guid g) KnownGuids of
        Some (_, GuidName) \<Rightarrow> SPrint_text m GuidName []
      | None \<Rightarrow> SPrint_text m ''%08x-%04x-%04x-%02x%02x-%02x%02x%02x%02x%02x%02x''
          ([ucast (read32 m Guid), ucast (read16 m (Guid + 4)), ucast (read16 m (Guid + 6))] @ map ucast (read_bytes m (Guid + 8) 8)))"

text \<open>
  The conversions through functions of the library.  \<^verbatim>\<open>FloatToString\<close>, from the bits of a \<^verbatim>\<open>double\<close>, and \<^verbatim>\<open>DevicePathToStr\<close>, which allocates, are
  arguments here.
\<close>

definition std_sub :: "(addr \<Rightarrow> 'c \<Rightarrow> (u16 list \<times> 'c) option) \<Rightarrow> (bool \<Rightarrow> u64 \<Rightarrow> u16 list option) \<Rightarrow> ('c \<Rightarrow> memory) \<Rightarrow> 'c sub_conv" where
  "std_sub DevicePathToStr FloatToString memory_of c Comma a ctx =
     (if c = 0x44 then DevicePathToStr a ctx
      else map_option (\<lambda>t. (t, ctx))
        (if c = 0x66 then FloatToString Comma a
         else if c = 0x67 then GuidToString (memory_of ctx) a
         else if c = 0x72 then StatusToString (memory_of ctx) a
         else if c = 0x74 then TimeToString (memory_of ctx) a
         else None))"

section \<open>Printing to memory\<close>

definition wide :: "u16 list \<Rightarrow> u8 list" where
  "wide cs = concat (map (le_bytes 2) cs)"

record POOL_PRINT =
  pp_str :: addr
  pp_len :: u64
  pp_maxlen :: u64

text \<open>
  \<^verbatim>\<open>_SPrint\<close> and \<^verbatim>\<open>_PoolPrint\<close>, on the \<^verbatim>\<open>POOL_PRINT\<close> they get as context, which is in use only as long as its length is at most its maximum.
\<close>

definition SPrint_out :: "POOL_PRINT \<times> 'f world \<Rightarrow> u16 list \<Rightarrow> POOL_PRINT \<times> 'f world" where
  "SPrint_out ctx Buffer =
     (let (spc, w) = ctx;
          len = of_nat (length Buffer) :: u64;
          len = (if pp_len spc + len > pp_maxlen spc then pp_maxlen spc - pp_len spc else len);
          m = write_bytes (mem w) (pp_str spc + 2 * pp_len spc) (wide (take (unat len) Buffer));
          spc = spc\<lparr>pp_len := pp_len spc + len\<rparr>;
          m = (if pp_len spc < pp_maxlen spc then write16 m (pp_str spc + 2 * pp_len spc) 0
               else if pp_maxlen spc \<noteq> 0 then write16 m (pp_str spc + 2 * pp_maxlen spc) 0
               else m)
      in (spc, w\<lparr>mem := m\<rparr>))"

definition PoolPrint_out :: "'f boot_services \<Rightarrow> u32 \<Rightarrow> POOL_PRINT \<times> 'f world \<Rightarrow> u16 list \<Rightarrow> POOL_PRINT \<times> 'f world" where
  "PoolPrint_out bs pt ctx Buffer =
     (let (spc, w) = ctx;
          newlen = pp_len spc + of_nat (length Buffer) + 1;
          (spc, w) =
            (if newlen > pp_maxlen spc then
               let newlen = newlen + of_nat PRINT_STRING_LEN;
                   (str, w) = ReallocatePool bs pt (pp_str spc) (pp_len spc * 2) (newlen * 2) w;
                   spc = spc\<lparr>pp_maxlen := newlen, pp_str := str\<rparr>
               in (if str = 0 then spc\<lparr>pp_len := 0, pp_maxlen := 0\<rparr> else spc, w)
             else (spc, w))
      in SPrint_out (spc, w) Buffer)"

definition sprint_dev :: "(POOL_PRINT \<times> 'f world) print_dev" where
  "sprint_dev = \<lparr>Output = SPrint_out, SetAttr = None, dev_mem = \<lambda>c. mem (snd c)\<rparr>"

definition pool_dev :: "'f boot_services \<Rightarrow> u32 \<Rightarrow> (POOL_PRINT \<times> 'f world) print_dev" where
  "pool_dev bs pt = \<lparr>Output = PoolPrint_out bs pt, SetAttr = None, dev_mem = \<lambda>c. mem (snd c)\<rparr>"

text \<open>A format is a pointer to wide characters or a literal; \<open>BufSize\<close> is the parameter \<^verbatim>\<open>StrSize\<close>.\<close>

definition wide_fmt :: "path_arg \<Rightarrow> POINTER" where
  "wide_fmt f = \<lparr>Ascii = False, Index = 0, un = (case f of Ptr a \<Rightarrow> Memory a | Literal cs \<Rightarrow> Chars cs)\<rparr>"

definition PoolCatPrint :: "(POOL_PRINT \<times> 'f world) print_dev \<Rightarrow> (POOL_PRINT \<times> 'f world) sub_conv \<Rightarrow> path_arg \<Rightarrow> va_list \<Rightarrow> POOL_PRINT \<Rightarrow> 'f world \<Rightarrow>
    (POOL_PRINT \<times> 'f world) option" where
  "PoolCatPrint dev sub fmt va spc w = map_option (\<lambda>(_, ps). ps_Context ps) (Print_ps dev sub (zero_ps (wide_fmt fmt) va (spc, w)))"

definition UnicodeVSPrint :: "(POOL_PRINT \<times> 'f world) sub_conv \<Rightarrow> addr \<Rightarrow> u64 \<Rightarrow> path_arg \<Rightarrow> va_list \<Rightarrow> 'f world \<Rightarrow> (u64 \<times> 'f world) option" where
  "UnicodeVSPrint sub Str BufSize fmt va w =
     do {
       (spc, w) \<leftarrow> PoolCatPrint sprint_dev sub fmt va \<lparr>pp_str = Str, pp_len = 0, pp_maxlen = BufSize div 2 - 1\<rparr> w;
       Some (pp_len spc, w)
     }"

definition UnicodeSPrint :: "(POOL_PRINT \<times> 'f world) sub_conv \<Rightarrow> addr \<Rightarrow> u64 \<Rightarrow> path_arg \<Rightarrow> va_list \<Rightarrow> 'f world \<Rightarrow> (u64 \<times> 'f world) option" where
  "UnicodeSPrint sub Str BufSize fmt va w = UnicodeVSPrint sub Str BufSize fmt va w"

definition VPoolPrint :: "'f boot_services \<Rightarrow> u32 \<Rightarrow> (POOL_PRINT \<times> 'f world) sub_conv \<Rightarrow> path_arg \<Rightarrow> va_list \<Rightarrow> 'f world \<Rightarrow> (addr \<times> 'f world) option" where
  "VPoolPrint bs pt sub fmt va w =
     do {
       (spc, w) \<leftarrow> PoolCatPrint (pool_dev bs pt) sub fmt va \<lparr>pp_str = 0, pp_len = 0, pp_maxlen = 0\<rparr> w;
       Some (pp_str spc, w)
     }"

definition PoolPrint :: "'f boot_services \<Rightarrow> u32 \<Rightarrow> (POOL_PRINT \<times> 'f world) sub_conv \<Rightarrow> path_arg \<Rightarrow> va_list \<Rightarrow> 'f world \<Rightarrow> (addr \<times> 'f world) option" where
  "PoolPrint bs pt sub fmt va w = VPoolPrint bs pt sub fmt va w"

definition CatPrint :: "'f boot_services \<Rightarrow> u32 \<Rightarrow> (POOL_PRINT \<times> 'f world) sub_conv \<Rightarrow> POOL_PRINT \<Rightarrow> path_arg \<Rightarrow> va_list \<Rightarrow> 'f world \<Rightarrow>
    (addr \<times> POOL_PRINT \<times> 'f world) option" where
  "CatPrint bs pt sub Str fmt va w =
     do {
       (spc, w) \<leftarrow> PoolCatPrint (pool_dev bs pt) sub fmt va Str w;
       Some (pp_str spc, spc, w)
     }"

text \<open>The loop of \<^verbatim>\<open>AsciiVSPrint\<close> that narrows the characters.\<close>

primrec narrow_loop :: "memory \<Rightarrow> addr \<Rightarrow> addr \<Rightarrow> nat \<Rightarrow> u64 \<Rightarrow> memory" where
  "narrow_loop m Str UnicodeStr 0 i = m"
| "narrow_loop m Str UnicodeStr (Suc n) i = narrow_loop (m(Str + i := ucast (wchr m UnicodeStr i))) Str UnicodeStr n (i + 1)"

definition AsciiVSPrint :: "'f boot_services \<Rightarrow> u32 \<Rightarrow> (POOL_PRINT \<times> 'f world) sub_conv \<Rightarrow> addr \<Rightarrow> u64 \<Rightarrow> addr \<Rightarrow> va_list \<Rightarrow> 'f world \<Rightarrow>
    (u64 \<times> 'f world) option" where
  "AsciiVSPrint bs pt sub Str BufSize fmt va w =
     (let (UnicodeStr, w) = LibAllocatePool bs pt (BufSize * 2) w in
      if UnicodeStr = 0 then Some (0, w)
      else do {
        (UnicodeFmt, w) \<leftarrow> PoolPrint bs pt sub (Literal [0x25, 0x61]) \<lparr>gp_args = [fmt], fp_args = []\<rparr> w;
        if UnicodeFmt = 0 then Some (0, LibFreePool bs UnicodeStr w)
        else do {
          (Len, w) \<leftarrow> UnicodeVSPrint sub UnicodeStr BufSize (Ptr UnicodeFmt) va w;
          let w = LibFreePool bs UnicodeFmt w;
          let m = narrow_loop (mem w) Str UnicodeStr (unat Len) 0;
          let w = LibFreePool bs UnicodeStr (w\<lparr>mem := m(Str + Len := 0)\<rparr>);
          Some (Len, w)
        }
      })"

section \<open>Printing to a console\<close>

text \<open>A \<^verbatim>\<open>SIMPLE_TEXT_OUTPUT_INTERFACE\<close> of the firmware; \<open>OutAttribute\<close> is its \<^verbatim>\<open>Mode->Attribute\<close>.\<close>

record 'f text_output =
  OutputString :: "u16 list \<Rightarrow> 'f world \<Rightarrow> status \<times> 'f world"
  SetAttribute :: "u64 \<Rightarrow> 'f world \<Rightarrow> status \<times> 'f world"
  SetCursorPosition :: "u64 \<Rightarrow> u64 \<Rightarrow> 'f world \<Rightarrow> status \<times> 'f world"
  OutAttribute :: "'f world \<Rightarrow> u32"

definition EFI_TEXT_ATTR :: "u64 \<Rightarrow> u64 \<Rightarrow> u64" where
  "EFI_TEXT_ATTR f b = f OR push_bit 4 b"

definition EFI_RED :: u64 where "EFI_RED = 4"
definition EFI_LIGHTGRAY :: u64 where "EFI_LIGHTGRAY = 7"
definition EFI_YELLOW :: u64 where "EFI_YELLOW = 0xE"
definition EFI_WHITE :: u64 where "EFI_WHITE = 0xF"

definition console_dev :: "'f text_output \<Rightarrow> 'f world print_dev" where
  "console_dev Out = \<lparr>Output = \<lambda>w cs. snd (OutputString Out cs w), SetAttr = Some (\<lambda>w a. snd (SetAttribute Out a w)), dev_mem = mem\<rparr>"

text \<open>The attributes of a print state on a background taken from the current attribute.\<close>

definition set_attrs :: "u64 \<Rightarrow> 'c PRINT_STATE \<Rightarrow> 'c PRINT_STATE" where
  "set_attrs attr ps =
     (let back = drop_bit 4 attr AND 0xF in
      ps\<lparr>ps_Attr := attr, ps_AttrNorm := EFI_TEXT_ATTR EFI_LIGHTGRAY back, ps_AttrHighlight := EFI_TEXT_ATTR EFI_WHITE back,
         ps_AttrError := EFI_TEXT_ATTR EFI_YELLOW back\<rparr>)"

definition IPrint_fmt :: "'f world sub_conv \<Rightarrow> u64 \<Rightarrow> u64 \<Rightarrow> 'f text_output \<Rightarrow> POINTER \<Rightarrow> va_list \<Rightarrow> 'f world \<Rightarrow> (u64 \<times> 'f world) option" where
  "IPrint_fmt sub Column Row Out p va w =
     (let attr = scast (OutAttribute Out w);
          w = (if Column \<noteq> - 1 then snd (SetCursorPosition Out Column Row w) else w)
      in map_option (\<lambda>(n, ps). (n, ps_Context ps)) (Print_ps (console_dev Out) sub (set_attrs attr (zero_ps p va w))))"

definition Print :: "'f world sub_conv \<Rightarrow> 'f text_output \<Rightarrow> path_arg \<Rightarrow> va_list \<Rightarrow> 'f world \<Rightarrow> (u64 \<times> 'f world) option" where
  "Print sub ConOut fmt va w = IPrint_fmt sub (- 1) (- 1) ConOut (wide_fmt fmt) va w"

definition VPrint :: "'f world sub_conv \<Rightarrow> 'f text_output \<Rightarrow> path_arg \<Rightarrow> va_list \<Rightarrow> 'f world \<Rightarrow> (u64 \<times> 'f world) option" where
  "VPrint sub ConOut fmt va w = IPrint_fmt sub (- 1) (- 1) ConOut (wide_fmt fmt) va w"

definition PrintAt :: "'f world sub_conv \<Rightarrow> 'f text_output \<Rightarrow> u64 \<Rightarrow> u64 \<Rightarrow> path_arg \<Rightarrow> va_list \<Rightarrow> 'f world \<Rightarrow> (u64 \<times> 'f world) option" where
  "PrintAt sub ConOut Column Row fmt va w = IPrint_fmt sub Column Row ConOut (wide_fmt fmt) va w"

definition IPrint :: "'f world sub_conv \<Rightarrow> 'f text_output \<Rightarrow> path_arg \<Rightarrow> va_list \<Rightarrow> 'f world \<Rightarrow> (u64 \<times> 'f world) option" where
  "IPrint sub Out fmt va w = IPrint_fmt sub (- 1) (- 1) Out (wide_fmt fmt) va w"

definition IPrintAt :: "'f world sub_conv \<Rightarrow> 'f text_output \<Rightarrow> u64 \<Rightarrow> u64 \<Rightarrow> path_arg \<Rightarrow> va_list \<Rightarrow> 'f world \<Rightarrow> (u64 \<times> 'f world) option" where
  "IPrintAt sub Out Column Row fmt va w = IPrint_fmt sub Column Row Out (wide_fmt fmt) va w"

definition AsciiPrint :: "'f world sub_conv \<Rightarrow> 'f text_output \<Rightarrow> addr \<Rightarrow> va_list \<Rightarrow> 'f world \<Rightarrow> (u64 \<times> 'f world) option" where
  "AsciiPrint sub ConOut fmt va w = IPrint_fmt sub (- 1) (- 1) ConOut \<lparr>Ascii = True, Index = 0, un = Memory fmt\<rparr> va w"

text \<open>
  \<^verbatim>\<open>DbgPrint\<close>; \<open>DbgOut\<close> is \<^verbatim>\<open>LibRuntimeDebugOut\<close>, or \<^verbatim>\<open>ST->StdErr\<close> when that is \<^verbatim>\<open>NULL\<close>, or \<open>None\<close> when both are: then the text goes nowhere.
\<close>

definition null_dev :: "'f world print_dev" where
  "null_dev = \<lparr>Output = \<lambda>w cs. w, SetAttr = None, dev_mem = mem\<rparr>"

definition D_WARN :: u64 where "D_WARN = 2"
definition D_ERROR :: u64 where "D_ERROR = 0x80000000"

definition DbgPrint :: "'f world sub_conv \<Rightarrow> u64 \<Rightarrow> 'f text_output option \<Rightarrow> u64 \<Rightarrow> addr \<Rightarrow> va_list \<Rightarrow> 'f world \<Rightarrow> (u64 \<times> 'f world) option" where
  "DbgPrint sub EFIDebug DbgOut msk fmt va w =
     (if EFIDebug AND msk = 0 then Some (0, w)
      else
        let p = \<lparr>Ascii = True, Index = 0, un = Memory fmt\<rparr>;
            SavedAttribute = (case DbgOut of None \<Rightarrow> EFI_TEXT_ATTR EFI_LIGHTGRAY EFI_RED | Some Out \<Rightarrow> scast (OutAttribute Out w));
            ps = set_attrs SavedAttribute (zero_ps p va w);
            attr = (if msk AND D_ERROR \<noteq> 0 then ps_AttrError ps else if msk AND D_WARN \<noteq> 0 then ps_AttrHighlight ps else ps_AttrNorm ps)
        in case DbgOut of
             None \<Rightarrow> map_option (\<lambda>(_, ps). (0, ps_Context ps)) (Print_ps null_dev sub ps)
           | Some Out \<Rightarrow>
               let ps = ps\<lparr>ps_Attr := attr, ps_Context := snd (SetAttribute Out attr w)\<rparr>
               in map_option (\<lambda>(_, ps). (0, snd (SetAttribute Out SavedAttribute (ps_Context ps)))) (Print_ps (console_dev Out) sub ps))"

end
