(* ===== verification/Efi_Fmt.thy ===== *)
theory Efi_Fmt
  imports Efi_Print
begin

text \<open>
  What the formatter of \<open>Efi_Print\<close> prints.  A format is specified as a list of pieces, plain characters and directives, with an encoding as format text
  and a meaning: the characters and attribute changes it denotes.  The locale \<open>printer\<close> states what the formatter needs of its output functions; the
  theorems for \<^verbatim>\<open>UnicodeSPrint\<close> and \<^verbatim>\<open>Print\<close> come from its interpretations.
\<close>

section \<open>Numbers in a base\<close>

fun to_base :: "nat \<Rightarrow> nat \<Rightarrow> nat list" where
  "to_base b n = (if n < b \<or> b < 2 then [n] else to_base b (n div b) @ [n mod b])"

declare to_base.simps [simp del]

lemma to_base_digits: "1 < b \<Longrightarrow> \<forall>d \<in> set (to_base b n). d < b"
  by (induction b n rule: to_base.induct) (subst to_base.simps, auto)

lemma to_base_value: "1 < b \<Longrightarrow> foldl (\<lambda>v d. v * b + d) 0 (to_base b n) = n"
  by (induction b n rule: to_base.induct) (subst to_base.simps, auto)

lemma length_to_base: "1 < b \<Longrightarrow> n < b ^ Suc k \<Longrightarrow> length (to_base b n) \<le> Suc k"
proof (induction k arbitrary: n)
  case 0
  then show ?case by (subst to_base.simps) simp
next
  case (Suc k)
  have "n div b < b ^ Suc k" using Suc.prems by (simp add: div_less_iff_less_mult mult.commute)
  then show ?case using Suc.IH [of "n div b"] Suc.prems(1) by (subst to_base.simps) simp
qed

lemma to_base_nonempty [simp]: "to_base b n \<noteq> []"
  by (subst to_base.simps) simp

text \<open>Digit characters, and digits with a comma before every group of three.\<close>

definition hex_wchar :: "nat \<Rightarrow> u16" where
  "hex_wchar d = ucast (Hex ! d)"

definition dec_wchar :: "nat \<Rightarrow> u16" where
  "dec_wchar d = 0x30 + of_nat d"

fun commas :: "u16 list \<Rightarrow> u16 list" where
  "commas [] = []"
| "commas (d # ds) = d # (if ds \<noteq> [] \<and> length ds mod 3 = 0 then [0x2C] else []) @ commas ds"

definition hex_text :: "nat \<Rightarrow> u16 list" where
  "hex_text n = map hex_wchar (to_base 16 n)"

definition dec_text :: "bool \<Rightarrow> int \<Rightarrow> u16 list" where
  "dec_text comma i =
     (if i < 0 then [0x2D] else []) @ (if comma then commas else (\<lambda>ds. ds)) (map dec_wchar (to_base 10 (nat \<bar>i\<bar>)))"

lemma unat_and_15: "unat ((v :: u64) AND 0xF) = unat v mod 16"
proof -
  have "v AND 0xF = take_bit 4 v" by (simp add: take_bit_eq_mask mask_eq_exp_minus_1)
  then show ?thesis by (simp add: take_bit_eq_mod unat_mod)
qed

lemma hex_digits_base:
  "v \<noteq> 0 \<Longrightarrow> map ucast (rev (hex_digits v str)) = map hex_wchar (to_base 16 (unat v)) @ map ucast (rev str)"
proof (induction v str rule: hex_digits.induct)
  case (1 v str)
  show ?case
  proof (cases "RShiftU64 v 4 = 0")
    case True
    then have "unat v div 16 = 0" using unat_div_16 [of v] by (simp add: RShiftU64_4)
    then have "unat v < 16" by simp
    then show ?thesis using 1(2) True
      by (subst hex_digits.simps, subst hex_digits.simps, subst to_base.simps) (simp add: unat_and_15 hex_wchar_def)
  next
    case False
    then have "unat v div 16 \<noteq> 0" using unat_div_16 [of v] unat_eq_zero [of "v div 16"] by (simp add: RShiftU64_4)
    then have "\<not> unat v < 16" by auto
    then show ?thesis using 1(1) [OF 1(2) False] 1(2)
      by (subst hex_digits.simps, subst to_base.simps) (simp add: unat_and_15 hex_wchar_def RShiftU64_4 unat_div_16)
  qed
qed

lemma ValueToHex_text: "ValueToHex v = hex_text (unat v)"
proof (cases "v = 0")
  case True
  have "to_base 16 0 = [0]" by (subst to_base.simps) simp
  then show ?thesis using True by (simp add: ValueToHex_def hex_text_def hex_wchar_def Hex_def)
next
  case False
  then show ?thesis using hex_digits_base [of v "[]"] by (simp add: ValueToHex_def hex_text_def)
qed

lemma dec_digit_wchar: "d < 10 \<Longrightarrow> ucast (ucast (of_nat d :: u64) + 0x30 :: u8) = dec_wchar d"
proof -
  have "list_all (\<lambda>d. ucast (ucast (of_nat d :: u64) + 0x30 :: u8) = dec_wchar d) [0..<10]"
    by (simp add: upt_rec dec_wchar_def)
  then show "d < 10 \<Longrightarrow> ucast (ucast (of_nat d :: u64) + 0x30 :: u8) = dec_wchar d" by (simp add: list_all_iff)
qed

lemma dec_digits_step: "v \<noteq> 0 \<Longrightarrow> dec_digits v str = dec_digits (v div 10) (str @ [ucast (v mod 10) + 0x30])"
  by (subst dec_digits.simps) (simp add: DivU64x32_def)

lemma dec_digits_0: "dec_digits 0 str = str"
  by (subst dec_digits.simps) simp

lemma dec_digits_base:
  "v \<noteq> 0 \<Longrightarrow> map ucast (rev (dec_digits v str)) = map dec_wchar (to_base 10 (unat v)) @ map ucast (rev str)"
proof (induction "unat v" arbitrary: v str rule: less_induct)
  case less
  have "v mod 10 = of_nat (unat (v mod 10))" by simp
  also have "unat (v mod 10) = unat v mod 10" by (simp add: unat_mod)
  finally have m: "ucast (ucast (v mod 10) + 0x30 :: u8) = dec_wchar (unat v mod 10)"
    using dec_digit_wchar [of "unat v mod 10"] by simp
  show ?case
  proof (cases "v div 10 = 0")
    case True
    then have "unat v div 10 = 0" using unat_div [of v 10] by simp
    then have "unat v < 10" by simp
    then show ?thesis using less(2) True m by (simp add: dec_digits_step dec_digits_0, subst to_base.simps) simp
  next
    case False
    then have n: "unat v div 10 \<noteq> 0" using unat_div [of v 10] unat_eq_zero [of "v div 10"] by simp
    then have "\<not> unat v < 10" by auto
    moreover have "unat (v div 10) < unat v" using less(2) by (simp add: unat_div unat_gt_0)
    ultimately show ?thesis using less(1) [of "v div 10" "str @ [ucast (v mod 10) + 0x30]"] False less(2) m
      by (simp add: dec_digits_step, subst (2) to_base.simps) (simp add: unat_div)
  qed
qed

lemma comma_loop_plain: "length ds < unat c \<Longrightarrow> comma_loop ds c = map ucast ds"
proof (induction ds arbitrary: c)
  case (Cons d ds)
  then have "c \<noteq> 0" by auto
  then have "unat (c - 1) = unat c - 1" by (rule unat_minus_1_u64)
  moreover have "c - 1 \<noteq> 0" using Cons.prems calculation unat_eq_zero [of "c - 1"] by force
  ultimately show ?case using Cons by (simp add: Let_def)
qed simp

lemma comma_loop_groups:
  "k \<in> {1, 2, 3} \<Longrightarrow> length ds mod 3 = k mod 3 \<Longrightarrow>
     comma_loop ds (of_nat k + 1) = commas (map ucast ds) \<and>
     (ds \<noteq> [] \<longrightarrow> k = 3 \<longrightarrow> comma_loop ds 1 = 0x2C # commas (map ucast ds))"
proof (induction ds arbitrary: k)
  case (Cons d ds)
  have next3: "comma_loop ds 3 = commas (map ucast ds)" if "length ds mod 3 = 2" using Cons.IH [of 2] that by simp
  consider "k = 1" | "k = 2" | "k = 3" using Cons.prems(1) by blast
  then show ?case
  proof cases
    case 1
    then have l: "length ds mod 3 = 0" using Cons.prems(2) by (simp add: mod_Suc split: if_splits)
    show ?thesis
    proof (cases ds)
      case Nil
      then show ?thesis using 1 by (simp add: Let_def)
    next
      case (Cons e es)
      then show ?thesis using 1 l Cons.IH [of 3] by (simp add: Let_def)
    qed
  next
    case 2
    then have l: "length ds mod 3 = 1" using Cons.prems(2) by (simp add: mod_Suc split: if_splits)
    then show ?thesis using 2 Cons.IH [of 1] by (simp add: Let_def)
  next
    case 3
    then have l: "length ds mod 3 = 2" using Cons.prems(2) by (simp add: mod_Suc split: if_splits)
    then have "comma_loop ds 3 = commas (map ucast ds)" by (rule next3)
    then show ?thesis using 3 l by (simp add: Let_def)
  qed
qed simp

lemma ca_count: "ucast (ca ! (n mod 3)) + 1 = (of_nat (if n mod 3 = 0 then 3 else n mod 3) + 1 :: u64)"
proof -
  have "n mod 3 \<in> {0, 1, 2}" by auto
  then show ?thesis by (auto simp: ca_def)
qed

lemma comma_loop_commas: "comma_loop ds (ucast (ca ! (length ds mod 3)) + 1) = commas (map ucast ds)"
proof -
  let ?k = "if length ds mod 3 = 0 then 3 else length ds mod 3"
  have "?k \<in> {1, 2, 3}" "length ds mod 3 = ?k mod 3" by auto
  then show ?thesis unfolding ca_count by (rule comma_loop_groups [THEN conjunct1])
qed

lemma sint_cases: "sint v = (if sint v < 0 then uint v - 2 ^ 64 else uint v)" for v :: u64
proof -
  have u: "uint v < 2 ^ 64" using unsigned_less [of v] by simp
  have "sint v = take_bit 64 (uint v) - 2 ^ 64 * of_bool (bit (uint v) 63)"
    using signed_take_bit_eq_take_bit_minus [of 63 "uint v"] by (simp add: sint_uint)
  moreover have "take_bit 64 (uint v) = uint v" using u by (simp add: take_bit_int_eq_self)
  ultimately show ?thesis using u by (auto simp: of_bool_def split: if_splits)
qed

lemma abs_sint: "nat \<bar>sint v\<bar> = unat (if sint v < 0 then - v else v)" for v :: u64
proof (cases "sint v < 0")
  case True
  then have s: "sint v = uint v - 2 ^ 64" using sint_cases [of v] by simp
  have u: "0 \<le> uint v" "uint v < 2 ^ 64" using unsigned_less [of v] by simp_all
  have "uint v \<noteq> 0" using sint_greater_eq [of v] s by auto
  moreover have "uint v mod 2 ^ 64 = uint v" using u by (rule mod_pos_pos_trivial)
  ultimately have "(- uint v) mod 2 ^ 64 = 2 ^ 64 - uint v" by (simp only: zmod_zminus1_eq_if if_False)
  moreover have "uint (- v) = (- uint v) mod 2 ^ 64" by (simp add: uint_word_ariths)
  ultimately show ?thesis using True s u by (simp only: unat_eq_nat_uint if_True)
next
  case False
  then have "sint v = uint v" using sint_cases [of v] by simp
  moreover have "0 \<le> uint v" by simp
  ultimately show ?thesis using False by (simp only: unat_eq_nat_uint if_False abs_of_nonneg)
qed

lemma dec_digits_length: "length (dec_digits v []) \<le> 20" if "v \<noteq> 0"
proof -
  have "map ucast (rev (dec_digits v [])) = map dec_wchar (to_base 10 (unat v))" using dec_digits_base [OF that, of "[]"] by simp
  then have l: "length (dec_digits v []) = length (to_base 10 (unat v))" by (metis length_map length_rev)
  have "(10 :: nat) ^ Suc 19 = 100000000000000000000" by simp
  then have "unat v < 10 ^ Suc 19" using unat_less_2p64 [of v] by linarith
  then have "length (to_base 10 (unat v)) \<le> Suc 19" by (intro length_to_base) simp_all
  then show ?thesis using l by simp
qed

lemma ValueToString_text: "ValueToString comma v = dec_text comma (sint v)"
proof (cases "v = 0")
  case True
  have "to_base 10 0 = [0]" by (subst to_base.simps) simp
  then show ?thesis using True by (simp add: ValueToString_def dec_text_def dec_wchar_def)
next
  case False
  define a where "a = (if sint v < 0 then - v else v)"
  have a: "a \<noteq> 0" using False by (simp add: a_def)
  have d: "map ucast (rev (dec_digits a [])) = map dec_wchar (to_base 10 (unat a))" using dec_digits_base [OF a, of "[]"] by simp
  have "comma_loop (rev (dec_digits a [])) 1000 = map ucast (rev (dec_digits a []))"
    using dec_digits_length [OF a] by (intro comma_loop_plain) simp
  moreover have "comma_loop (rev (dec_digits a [])) (ucast (ca ! (length (dec_digits a []) mod 3)) + 1) = commas (map ucast (rev (dec_digits a [])))"
    using comma_loop_commas [of "rev (dec_digits a [])"] by simp
  ultimately show ?thesis using False abs_sint [of v] by (simp add: ValueToString_def dec_text_def Let_def d flip: a_def) (auto simp: a_def)
qed

section \<open>Formats and what they denote\<close>

datatype num = Num nat | Star

datatype convspec = ConvPercent | ConvAscii | ConvWide | ConvChar | ConvDec | ConvUns | ConvHex | ConvHEX | ConvPtr | ConvGuid | ConvStatus | ConvTime

primrec conv_char :: "convspec \<Rightarrow> u16" where
  "conv_char ConvPercent = 0x25"
| "conv_char ConvAscii = 0x61"
| "conv_char ConvWide = 0x73"
| "conv_char ConvChar = 0x63"
| "conv_char ConvDec = 0x64"
| "conv_char ConvUns = 0x75"
| "conv_char ConvHex = 0x78"
| "conv_char ConvHEX = 0x58"
| "conv_char ConvPtr = 0x70"
| "conv_char ConvGuid = 0x67"
| "conv_char ConvStatus = 0x72"
| "conv_char ConvTime = 0x74"

text \<open>
  A directive: an attribute for this field only (\<^verbatim>\<open>n\<close>, \<^verbatim>\<open>h\<close> or \<^verbatim>\<open>e\<close>), the flags \<^verbatim>\<open>-\<close>, \<^verbatim>\<open>0\<close> and \<^verbatim>\<open>,\<close>, the width, the field width after a point, \<^verbatim>\<open>l\<close>, and the conversion.
\<close>

record directive =
  tint :: "u16 option"
  left_flag :: bool
  zero_flag :: bool
  comma_flag :: bool
  long_flag :: bool
  width :: "num option"
  field_width :: "num option"
  conv_of :: convspec

datatype piece = Plain u16 | Directive directive | Colour u16

primrec enc_num :: "num \<Rightarrow> u16 list" where
  "enc_num (Num n) = map dec_wchar (to_base 10 n)"
| "enc_num Star = [0x2A]"

definition enc_directive :: "directive \<Rightarrow> u16 list" where
  "enc_directive d = (case tint d of None \<Rightarrow> [] | Some t \<Rightarrow> [t]) @ (if left_flag d then [0x2D] else []) @
     (if zero_flag d then [0x30] else []) @ (if comma_flag d then [0x2C] else []) @
     (case width d of None \<Rightarrow> [] | Some n \<Rightarrow> enc_num n) @ (case field_width d of None \<Rightarrow> [] | Some n \<Rightarrow> 0x2E # enc_num n) @
     (if long_flag d then [0x6C] else []) @ [conv_char (conv_of d)]"

primrec enc_piece :: "piece \<Rightarrow> u16 list" where
  "enc_piece (Plain c) = [c]"
| "enc_piece (Directive d) = 0x25 # enc_directive d"
| "enc_piece (Colour c) = [0x25, c]"

definition enc_format :: "piece list \<Rightarrow> u16 list" where
  "enc_format ps = concat (map enc_piece ps)"

definition num_ok :: "num option \<Rightarrow> bool" where
  "num_ok n \<longleftrightarrow> (case n of Some (Num k) \<Rightarrow> 0 < k \<and> k < 2 ^ 64 | _ \<Rightarrow> True)"

primrec piece_ok :: "piece \<Rightarrow> bool" where
  "piece_ok (Plain c) \<longleftrightarrow> c \<noteq> 0 \<and> c \<noteq> 0x25"
| "piece_ok (Directive d) \<longleftrightarrow> tint d \<in> {None, Some 0x6E, Some 0x68, Some 0x65} \<and> num_ok (width d) \<and> num_ok (field_width d)"
| "piece_ok (Colour c) \<longleftrightarrow> c \<in> {0x4E, 0x48, 0x45}"

text \<open>
  The text of a conversion.  \<open>str\<close> gives the text of a string argument, \<open>lib\<close> that of a conversion through a function of the library.
\<close>

primrec conv_value :: "(bool \<Rightarrow> u64 \<Rightarrow> u16 list option) \<Rightarrow> (u16 \<Rightarrow> u64 \<Rightarrow> u16 list option) \<Rightarrow> bool \<Rightarrow> bool \<Rightarrow> u64 \<Rightarrow> convspec \<Rightarrow> u16 list option" where
  "conv_value str lib comma long a ConvPercent = Some [0x25]"
| "conv_value str lib comma long a ConvAscii = (if a = 0 then Some null_text else str True a)"
| "conv_value str lib comma long a ConvWide = (if a = 0 then Some null_text else str False a)"
| "conv_value str lib comma long a ConvChar = Some (one_char (ucast a))"
| "conv_value str lib comma long a ConvDec = Some (dec_text comma (if long then sint a else sint (ucast a :: u32)))"
| "conv_value str lib comma long a ConvUns = Some (dec_text comma (if long then sint a else uint (ucast a :: u32)))"
| "conv_value str lib comma long a ConvHex = Some (hex_text (if long then unat a else unat (ucast a :: u32)))"
| "conv_value str lib comma long a ConvHEX = Some (hex_text (if long then unat a else unat (ucast a :: u32)))"
| "conv_value str lib comma long a ConvPtr = Some ([0x30, 0x78] @ hex_text (if long then unat a else unat (ucast a :: u32)))"
| "conv_value str lib comma long a ConvGuid = lib 0x67 a"
| "conv_value str lib comma long a ConvStatus = lib 0x72 a"
| "conv_value str lib comma long a ConvTime = lib 0x74 a"

fun take_num :: "num option \<Rightarrow> u64 \<Rightarrow> u64 list \<Rightarrow> (u64 \<times> u64 list) option" where
  "take_num None v as = Some (v, as)"
| "take_num (Some (Num n)) v as = Some (of_nat n, as)"
| "take_num (Some Star) v (a # as) = Some (a, as)"
| "take_num (Some Star) v [] = None"

text \<open>A text in a field: padded on the left to the width, cut at the field width and filled with spaces up to it.\<close>

definition in_field :: "nat \<Rightarrow> u64 \<Rightarrow> u16 \<Rightarrow> bool \<Rightarrow> u16 list \<Rightarrow> u16 list" where
  "in_field w fld pad left t =
     (let n = min (length t) (unat fld);
          body = replicate (w - n) pad @ take n t;
          spaces = replicate ((if fld = - 1 then n else unat fld) - max n w) 0x20
      in if left then body @ spaces else spaces @ body)"

definition directive_text :: "(bool \<Rightarrow> u64 \<Rightarrow> u16 list option) \<Rightarrow> (u16 \<Rightarrow> u64 \<Rightarrow> u16 list option) \<Rightarrow> directive \<Rightarrow> u64 list \<Rightarrow> (u16 list \<times> u64 list) option" where
  "directive_text str lib d as =
     do {
       (w, as) \<leftarrow> take_num (width d) 0 as;
       (fld, as) \<leftarrow> take_num (field_width d) (- 1) as;
       let w = (if conv_of d = ConvHEX then if long_flag d then 16 else 8 else if conv_of d = ConvPtr then 0 else w);
       let pad = (if zero_flag d \<or> conv_of d = ConvHEX \<or> conv_of d = ConvPtr then 0x30 else 0x20);
       (a, as) \<leftarrow> (if conv_of d = ConvPercent then Some (0, as) else case as of [] \<Rightarrow> None | a # as \<Rightarrow> Some (a, as));
       t \<leftarrow> conv_value str lib (comma_flag d) (long_flag d) a (conv_of d);
       Some (in_field (unat w) fld pad (left_flag d) t, as)
     }"

text \<open>Characters and attribute changes; \<open>attr_of\<close> gives the attribute of the characters \<^verbatim>\<open>n h e\<close> and \<^verbatim>\<open>N H E\<close>.\<close>

datatype event = Put u16 | Paint u64

definition crlf :: "u16 list \<Rightarrow> u16 list" where
  "crlf t = concat (map (\<lambda>c. if c = 0x0A then [0x0D, 0x0A] else [c]) t)"

text \<open>The events of a piece, the arguments it leaves and the attribute that is set after it, when \<open>cur\<close> is set before.\<close>

primrec piece_meaning :: "(bool \<Rightarrow> u64 \<Rightarrow> u16 list option) \<Rightarrow> (u16 \<Rightarrow> u64 \<Rightarrow> u16 list option) \<Rightarrow> (u16 \<Rightarrow> u64) \<Rightarrow> piece \<Rightarrow> u64 list \<Rightarrow> u64 \<Rightarrow>
    (event list \<times> u64 list \<times> u64) option" where
  "piece_meaning str lib attr_of (Plain c) as cur = Some (map Put (crlf [c]), as, cur)"
| "piece_meaning str lib attr_of (Colour c) as cur = Some ([Paint (attr_of c)], as, attr_of c)"
| "piece_meaning str lib attr_of (Directive d) as cur =
     do {
       (t, as) \<leftarrow> directive_text str lib d as;
       Some (case tint d of
               None \<Rightarrow> (map Put (crlf t), as, cur)
             | Some c \<Rightarrow> (Paint (attr_of c) # map Put (crlf t) @ (if cur \<noteq> 0 then [Paint cur] else []), as, if cur \<noteq> 0 then cur else attr_of c))
     }"

primrec meaning :: "(bool \<Rightarrow> u64 \<Rightarrow> u16 list option) \<Rightarrow> (u16 \<Rightarrow> u64 \<Rightarrow> u16 list option) \<Rightarrow> (u16 \<Rightarrow> u64) \<Rightarrow> piece list \<Rightarrow> u64 list \<Rightarrow> u64 \<Rightarrow> event list option" where
  "meaning str lib attr_of [] as cur = Some []"
| "meaning str lib attr_of (pc # pcs) as cur =
     do {
       (es, as, cur) \<leftarrow> piece_meaning str lib attr_of pc as cur;
       fs \<leftarrow> meaning str lib attr_of pcs as cur;
       Some (es @ fs)
     }"

section \<open>Output in chunks\<close>

text \<open>The calls the formatter makes, and the events they stand for.\<close>

datatype chunk = Out "u16 list" | SetA u64

primrec dev_chunk :: "'c print_dev \<Rightarrow> chunk \<Rightarrow> 'c \<Rightarrow> 'c" where
  "dev_chunk dev (Out t) c = Output dev c t"
| "dev_chunk dev (SetA a) c = (case SetAttr dev of None \<Rightarrow> c | Some f \<Rightarrow> f c a)"

primrec chunk_events :: "chunk \<Rightarrow> event list" where
  "chunk_events (Out t) = map Put t"
| "chunk_events (SetA a) = [Paint a]"

definition events_of :: "chunk list \<Rightarrow> event list" where
  "events_of cs = concat (map chunk_events cs)"

primrec is_put :: "event \<Rightarrow> bool" where
  "is_put (Put c) = True"
| "is_put (Paint a) = False"

definition puts :: "event list \<Rightarrow> nat" where
  "puts es = length (filter is_put es)"

lemma puts_simps [simp]: "puts [] = 0" "puts (Put c # es) = Suc (puts es)" "puts (Paint a # es) = puts es" "puts (es @ fs) = puts es + puts fs"
    "puts (map Put t) = length t"
  by (simp_all add: puts_def comp_def)

lemma events_of_simps [simp]: "events_of [] = []" "events_of (c # cs) = chunk_events c @ events_of cs" "events_of (cs @ ds) = events_of cs @ events_of ds"
  by (simp_all add: events_of_def)

text \<open>A chunk of output fits \<^verbatim>\<open>Buffer[PRINT_STRING_LEN]\<close> with its NUL.\<close>

primrec chunk_fits :: "chunk \<Rightarrow> bool" where
  "chunk_fits (Out t) = (length t < PRINT_STRING_LEN)"
| "chunk_fits (SetA a) = True"

text \<open>A state whose context satisfies \<open>I\<close> and whose buffer holds a string with room for one more character and the NUL.\<close>

definition good :: "('c \<Rightarrow> bool) \<Rightarrow> 'c PRINT_STATE \<Rightarrow> bool" where
  "good I ps \<longleftrightarrow> I (ps_Context ps) \<and> 0 \<notin> set (ps_Buffer ps) \<and> length (ps_Buffer ps) < PRINT_STRING_LEN - 1"

text \<open>\<open>ps'\<close> comes from \<open>ps\<close> by producing \<open>es\<close>: part of it went to the device in chunks, the rest is in the buffer.\<close>

definition produces :: "'c print_dev \<Rightarrow> ('c \<Rightarrow> bool) \<Rightarrow> 'c PRINT_STATE \<Rightarrow> event list \<Rightarrow> 'c PRINT_STATE \<Rightarrow> bool" where
  "produces dev I ps es ps' \<longleftrightarrow> good I ps' \<and>
     (\<exists>cs. ps_Context ps' = fold (dev_chunk dev) cs (ps_Context ps) \<and> events_of cs @ map Put (ps_Buffer ps') = map Put (ps_Buffer ps) @ es \<and>
       list_all chunk_fits cs) \<and>
     ps_Len ps' = ps_Len ps + of_nat (puts es) \<and>
     ps_AttrNorm ps' = ps_AttrNorm ps \<and> ps_AttrHighlight ps' = ps_AttrHighlight ps \<and> ps_AttrError ps' = ps_AttrError ps"

lemma produces_good: "produces dev I ps es ps' \<Longrightarrow> good I ps'"
  by (simp add: produces_def)

lemma produces_refl:
  assumes "good I ps" "ps_Context ps' = ps_Context ps" "ps_Buffer ps' = ps_Buffer ps" "ps_Len ps' = ps_Len ps"
    "ps_AttrNorm ps' = ps_AttrNorm ps" "ps_AttrHighlight ps' = ps_AttrHighlight ps" "ps_AttrError ps' = ps_AttrError ps"
  shows "produces dev I ps [] ps'"
  using assms by (auto simp: produces_def good_def intro!: exI [of _ "[]"])

lemma produces_trans:
  assumes "produces dev I ps es ps'" "produces dev I ps' fs ps''"
  shows "produces dev I ps (es @ fs) ps''"
proof -
  obtain cs where cs: "ps_Context ps' = fold (dev_chunk dev) cs (ps_Context ps)" "events_of cs @ map Put (ps_Buffer ps') = map Put (ps_Buffer ps) @ es" "list_all chunk_fits cs"
    using assms(1) by (auto simp: produces_def)
  obtain ds where ds: "ps_Context ps'' = fold (dev_chunk dev) ds (ps_Context ps')" "events_of ds @ map Put (ps_Buffer ps'') = map Put (ps_Buffer ps') @ fs" "list_all chunk_fits ds"
    using assms(2) by (auto simp: produces_def)
  have "events_of (cs @ ds) @ map Put (ps_Buffer ps'') = map Put (ps_Buffer ps) @ es @ fs"
    using cs(2) ds(2) by (metis append.assoc events_of_simps(3))
  moreover have "ps_Context ps'' = fold (dev_chunk dev) (cs @ ds) (ps_Context ps)" "list_all chunk_fits (cs @ ds)" using cs(1,3) ds(1,3) by simp_all
  ultimately have "\<exists>cs. ps_Context ps'' = fold (dev_chunk dev) cs (ps_Context ps) \<and>
      events_of cs @ map Put (ps_Buffer ps'') = map Put (ps_Buffer ps) @ es @ fs \<and> list_all chunk_fits cs" by blast
  then show ?thesis using assms unfolding produces_def by (simp add: add.assoc)
qed

text \<open>What output leaves alone.\<close>

lemma PFLUSH_keeps [simp]: "ps_fmt (PFLUSH dev ps) = ps_fmt ps" "ps_args (PFLUSH dev ps) = ps_args ps" "ps_Attr (PFLUSH dev ps) = ps_Attr ps"
    "ps_RestoreAttr (PFLUSH dev ps) = ps_RestoreAttr ps" "ps_Len (PFLUSH dev ps) = ps_Len ps" "ps_Buffer (PFLUSH dev ps) = []"
    "ps_AttrNorm (PFLUSH dev ps) = ps_AttrNorm ps" "ps_AttrHighlight (PFLUSH dev ps) = ps_AttrHighlight ps" "ps_AttrError (PFLUSH dev ps) = ps_AttrError ps"
  by (simp_all add: PFLUSH_def)

lemma PPUTC_keeps [simp]: "ps_fmt (PPUTC dev c ps) = ps_fmt ps" "ps_args (PPUTC dev c ps) = ps_args ps" "ps_Attr (PPUTC dev c ps) = ps_Attr ps"
    "ps_RestoreAttr (PPUTC dev c ps) = ps_RestoreAttr ps"
  by (simp_all add: PPUTC_def PPUTC_1_def Let_def)

lemma put_pad_keeps [simp]: "ps_fmt (put_pad dev c n ps) = ps_fmt ps" "ps_args (put_pad dev c n ps) = ps_args ps" "ps_Attr (put_pad dev c n ps) = ps_Attr ps"
    "ps_RestoreAttr (put_pad dev c n ps) = ps_RestoreAttr ps"
  by (induction n arbitrary: ps) simp_all

lemma put_item_keeps [simp]: "ps_fmt (put_item dev p n ps) = ps_fmt ps" "ps_args (put_item dev p n ps) = ps_args ps" "ps_Attr (put_item dev p n ps) = ps_Attr ps"
    "ps_RestoreAttr (put_item dev p n ps) = ps_RestoreAttr ps"
  by (induction n arbitrary: p ps) (simp_all add: PGETC_def)

lemma PITEM_keeps:
  "PITEM dev it ps = Some ps' \<Longrightarrow> ps_fmt ps' = ps_fmt ps \<and> ps_args ps' = ps_args ps \<and> ps_Attr ps' = ps_Attr ps \<and> ps_RestoreAttr ps' = ps_RestoreAttr ps"
  by (auto simp: PITEM_def Let_def split: bind_splits)

text \<open>\<open>reads dev I p cs\<close>: as long as \<open>I\<close> holds, the characters at \<open>p\<close> are \<open>cs\<close> up to a NUL, whatever has been printed.\<close>

definition reads :: "'c print_dev \<Rightarrow> ('c \<Rightarrow> bool) \<Rightarrow> POINTER \<Rightarrow> u64 \<Rightarrow> u16 list \<Rightarrow> bool" where
  "reads dev I p i cs \<longleftrightarrow> 0 \<notin> set cs \<and> length cs < 2 ^ 63 \<and>
     (\<forall>c. I c \<longrightarrow> (\<forall>k \<le> length cs. char_at_ptr (dev_mem dev c) p (i + of_nat k) = (cs @ [0]) ! k))"

lemma reads_head: "reads dev I p i cs \<Longrightarrow> I c \<Longrightarrow> char_at_ptr (dev_mem dev c) p i = (case cs of [] \<Rightarrow> 0 | x # _ \<Rightarrow> x)"
  by (auto simp: reads_def split: list.splits dest!: spec [of _ c])

lemma reads_tail: "reads dev I p i (x # cs) \<Longrightarrow> reads dev I p (i + 1) cs"
  unfolding reads_def by (auto simp: add.assoc dest!: spec [where x = "Suc _"])

lemma reads_nth: "reads dev I p 0 cs \<Longrightarrow> I c \<Longrightarrow> k < length cs \<Longrightarrow> char_at_ptr (dev_mem dev c) p (of_nat k) = cs ! k"
  by (auto simp: reads_def nth_append)

lemma char_at_ptr_Index [simp]: "char_at_ptr m (p\<lparr>Index := j\<rparr>) i = char_at_ptr m p i"
  by (simp add: char_at_ptr_def split: text_source.splits)

lemma reads_Index [simp]: "reads dev I (p\<lparr>Index := j\<rparr>) i cs = reads dev I p i cs"
  by (simp add: reads_def)

lemma crlf_simps [simp]: "crlf [] = []" "crlf (s @ t) = crlf s @ crlf t"
  by (simp_all add: crlf_def)

lemma crlf_Cons: "crlf (c # t) = crlf [c] @ crlf t"
  by (simp add: crlf_def)

text \<open>The length \<^verbatim>\<open>PITEM\<close> finds.\<close>

lemma item_length:
  assumes "reads dev I p 0 t" "I c"
  shows "scan_while (\<lambda>i. i < fld \<and> char_at_ptr (dev_mem dev c) p i \<noteq> 0) 0 = Some (of_nat (min (length t) (unat fld)))"
proof -
  let ?n = "min (length t) (unat fld)"
  have t: "length t < 2 ^ 63" "0 \<notin> set t" using assms(1) by (simp_all add: reads_def)
  have "scan_while (\<lambda>i. i < fld \<and> char_at_ptr (dev_mem dev c) p i \<noteq> 0) 0 = Some (0 + of_nat ?n)"
  proof (rule scan_while_stop)
    fix j assume j: "j < ?n"
    then have "(of_nat j :: u64) < fld" using t(1) by (simp add: word_less_nat_alt unat_of_nat_u64)
    moreover have "char_at_ptr (dev_mem dev c) p (of_nat j) = t ! j" using j reads_nth [OF assms] by simp
    moreover have "t ! j \<noteq> 0" using j t(2) by (metis min_less_iff_conj nth_mem)
    ultimately show "0 + of_nat j < fld \<and> char_at_ptr (dev_mem dev c) p (0 + of_nat j) \<noteq> 0" by simp
  next
    have "char_at_ptr (dev_mem dev c) p (of_nat (length t)) = 0" using assms by (auto simp: reads_def nth_append dest!: spec [of _ c])
    moreover have "\<not> (of_nat ?n :: u64) < fld" if "?n \<noteq> length t" using that t(1) by (simp add: word_less_nat_alt min_def split: if_splits)
    ultimately show "\<not> (0 + of_nat ?n < fld \<and> char_at_ptr (dev_mem dev c) p (0 + of_nat ?n) \<noteq> 0)" by (cases "?n = length t") simp_all
  qed
  then show ?thesis by simp
qed

section \<open>The formatter on any device\<close>

text \<open>
  What the formatter relies on: printing and changing the attribute keep \<open>I\<close>, so that what \<open>reads\<close> says of the format and the string arguments stays true.
\<close>

locale printer =
  fixes dev :: "'c print_dev" and I :: "'c \<Rightarrow> bool"
  assumes out_keeps: "I c \<Longrightarrow> length t < PRINT_STRING_LEN \<Longrightarrow> I (Output dev c t)"
    and attr_keeps: "I c \<Longrightarrow> SetAttr dev = Some f \<Longrightarrow> I (f c a)"
begin

lemma full_flush_produces:
  assumes "I (ps_Context ps)" "0 \<notin> set (ps_Buffer ps)" "length (ps_Buffer ps) < PRINT_STRING_LEN"
  shows "produces dev I ps [] (PFLUSH dev ps)"
proof -
  have t: "takeWhile (\<lambda>c. c \<noteq> 0) (ps_Buffer ps) = ps_Buffer ps" using assms(2) by (intro takeWhile_eq_all_conv [THEN iffD2]) auto
  show ?thesis using assms out_keeps unfolding PFLUSH_def t
    by (auto simp: produces_def good_def PRINT_STRING_LEN_def intro!: exI [of _ "[Out (ps_Buffer ps)]"])
qed

lemma flush_produces: "good I ps \<Longrightarrow> produces dev I ps [] (PFLUSH dev ps)"
  by (rule full_flush_produces) (simp_all add: good_def PRINT_STRING_LEN_def)

lemma attr_produces: "good I ps \<Longrightarrow> produces dev I ps [Paint a] (PSETATTR dev a ps)"
proof -
  assume g: "good I ps"
  let ?ps = "PFLUSH dev ps"
  have f: "good I ?ps" using flush_produces [OF g] by (rule produces_good)
  have "produces dev I ?ps [Paint a] (PSETATTR dev a ps)"
    using f attr_keeps by (auto simp: produces_def good_def PSETATTR_def Let_def split: option.splits intro!: exI [of _ "[SetA a]"])
  then show ?thesis using produces_trans [OF flush_produces [OF g]] by simp
qed

lemma putc_1_produces: "good I ps \<Longrightarrow> c \<noteq> 0 \<Longrightarrow> produces dev I ps [Put c] (PPUTC_1 dev c ps)"
proof -
  assume g: "good I ps" and c: "c \<noteq> 0"
  let ?ps = "ps\<lparr>ps_Buffer := ps_Buffer ps @ [c], ps_Len := ps_Len ps + 1\<rparr>"
  show ?thesis
  proof (cases "length (ps_Buffer ?ps) \<ge> PRINT_STRING_LEN - 1")
    case True
    have "produces dev I ?ps [] (PFLUSH dev ?ps)" using g c by (intro full_flush_produces) (auto simp: good_def)
    then have "produces dev I ps [Put c] (PFLUSH dev ?ps)" by (simp add: produces_def)
    then show ?thesis using True by (simp add: PPUTC_1_def Let_def)
  next
    case False
    then have "produces dev I ps [Put c] ?ps" using g c by (auto simp: produces_def good_def intro!: exI [of _ "[]"])
    then show ?thesis using False by (simp add: PPUTC_1_def Let_def)
  qed
qed

lemma putc_produces: "good I ps \<Longrightarrow> c \<noteq> 0 \<Longrightarrow> produces dev I ps (map Put (crlf [c])) (PPUTC dev c ps)"
proof -
  assume g: "good I ps" and c: "c \<noteq> 0"
  have cr: "produces dev I ps [Put 0x0D] (PPUTC_1 dev 0x0D ps)" using g by (intro putc_1_produces) simp_all
  show ?thesis
    using putc_1_produces [OF g c] produces_trans [OF cr putc_1_produces [OF produces_good [OF cr] c]] by (auto simp: PPUTC_def crlf_def)
qed

lemma pad_produces: "good I ps \<Longrightarrow> c \<noteq> 0 \<Longrightarrow> produces dev I ps (map Put (crlf (replicate n c))) (put_pad dev c n ps)"
proof (induction n arbitrary: ps)
  case 0
  then show ?case by (simp add: produces_refl)
next
  case (Suc n)
  then have p: "produces dev I ps (map Put (crlf [c])) (PPUTC dev c ps)" by (intro putc_produces)
  show ?case using produces_trans [OF p Suc.IH [OF produces_good [OF p] Suc.prems(2)]] by (simp add: crlf_Cons [of c "replicate n c"])
qed

lemma spaces_produce:
  "good I ps \<Longrightarrow> produces dev I ps (map Put (crlf (if b then replicate n 0x20 else []))) (if b then put_pad dev 0x20 n ps else ps)"
  by (simp add: pad_produces produces_refl)

lemma item_produces:
  "good I ps \<Longrightarrow> reads dev I p 0 t \<Longrightarrow> i + n \<le> length t \<Longrightarrow>
     produces dev I ps (map Put (crlf (take n (drop i t)))) (put_item dev (p\<lparr>Index := of_nat i\<rparr>) n ps)"
proof (induction n arbitrary: i ps)
  case 0
  then show ?case by (simp add: produces_refl)
next
  case (Suc n)
  then have i: "i < length t" by simp
  then have r: "char_at_ptr (dev_mem dev (ps_Context ps)) p (of_nat i) = t ! i" using reads_nth [OF Suc.prems(2)] Suc.prems(1) by (simp add: good_def)
  have "t ! i \<noteq> 0" using i Suc.prems(2) unfolding reads_def by (metis nth_mem)
  then have p: "produces dev I ps (map Put (crlf [t ! i])) (PPUTC dev (t ! i) ps)" using Suc.prems(1) by (intro putc_produces)
  have "put_item dev (p\<lparr>Index := of_nat i\<rparr>) (Suc n) ps = put_item dev (p\<lparr>Index := of_nat (Suc i)\<rparr>) n (PPUTC dev (t ! i) ps)"
    by (simp add: PGETC_def r add.commute)
  moreover have "take (Suc n) (drop i t) = t ! i # take n (drop (Suc i) t)" using i by (simp add: Cons_nth_drop_Suc [symmetric] take_Suc_Cons)
  moreover have "produces dev I (PPUTC dev (t ! i) ps) (map Put (crlf (take n (drop (Suc i) t)))) (put_item dev (p\<lparr>Index := of_nat (Suc i)\<rparr>) n (PPUTC dev (t ! i) ps))"
    using Suc.prems(3) by (intro Suc.IH [OF produces_good [OF p] Suc.prems(2)]) simp
  ultimately show ?case using produces_trans [OF p] by (simp only: crlf_Cons [of "t ! i" "take n (drop (Suc i) t)"] map_append)
qed

lemma pitem_produces:
  assumes g: "good I ps" and r: "reads dev I (it_Item it) 0 t" and pad: "it_Pad it \<noteq> 0"
  shows "\<exists>ps'. PITEM dev it ps = Some ps' \<and>
    produces dev I ps (map Put (crlf (in_field (unat (it_Width it)) (it_FieldWidth it) (it_Pad it) (\<not> it_PadBefore it) t))) ps'"
proof -
  let ?n = "min (length t) (unat (it_FieldWidth it))" and ?f = "it_FieldWidth it" and ?w = "it_Width it"
  have t: "length t < 2 ^ 63" using r by (simp add: reads_def)
  have "?n < 2 ^ 64" using t by (simp add: min_less_iff_disj)
  then have n: "unat (of_nat ?n :: u64) = ?n" by (rule unat_of_nat_u64)
  define W where "W = (if of_nat ?n > ?w then of_nat ?n else ?w)"
  define F where "F = (if ?f = - 1 then of_nat ?n else ?f)"
  have W: "unat W = max ?n (unat ?w)" using n by (auto simp: W_def word_less_nat_alt)
  have F: "unat F = (if ?f = - 1 then ?n else unat ?f)" by (metis n F_def)
  have wn: "unat W - ?n = unat ?w - ?n" unfolding W by simp
  let ?ps1 = "if it_PadBefore it then put_pad dev 0x20 (unat F - unat W) ps else ps"
  let ?ps2 = "put_pad dev (it_Pad it) (unat W - ?n) ?ps1"
  let ?ps3 = "put_item dev ((it_Item it)\<lparr>Index := 0\<rparr>) ?n ?ps2"
  let ?ps4 = "if \<not> it_PadBefore it then put_pad dev 0x20 (unat F - unat W) ?ps3 else ?ps3"
  let ?sp = "\<lambda>b. if b then replicate (unat F - unat W) 0x20 else []"
  have 1: "produces dev I ps (map Put (crlf (?sp (it_PadBefore it)))) ?ps1" using g by (rule spaces_produce)
  have 2: "produces dev I ?ps1 (map Put (crlf (replicate (unat W - ?n) (it_Pad it)))) ?ps2" using produces_good [OF 1] pad by (rule pad_produces)
  have 3: "produces dev I ?ps2 (map Put (crlf (take ?n t))) ?ps3" using item_produces [OF produces_good [OF 2] r, of 0 ?n] by simp
  have 4: "produces dev I ?ps3 (map Put (crlf (?sp (\<not> it_PadBefore it)))) ?ps4" using produces_good [OF 3] by (rule spaces_produce)
  have "produces dev I ps (map Put (crlf (?sp (it_PadBefore it) @ replicate (unat W - ?n) (it_Pad it) @ take ?n t @ ?sp (\<not> it_PadBefore it)))) ?ps4"
    using produces_trans [OF produces_trans [OF produces_trans [OF 1 2] 3] 4] by simp
  moreover have "?sp (it_PadBefore it) @ replicate (unat W - ?n) (it_Pad it) @ take ?n t @ ?sp (\<not> it_PadBefore it) =
      in_field (unat ?w) ?f (it_Pad it) (\<not> it_PadBefore it) t"
    by (simp add: in_field_def Let_def wn F) (simp add: W)
  moreover have "PITEM dev it ps = Some ?ps4"
    using item_length [OF r, of "ps_Context ps" ?f] g n by (simp add: PITEM_def Let_def upto_count_def good_def W_def F_def)
  ultimately show ?thesis by simp
qed

end

section \<open>Reading the format\<close>

definition adv :: "'c PRINT_STATE \<Rightarrow> 'c PRINT_STATE" where
  "adv ps = ps\<lparr>ps_fmt := (ps_fmt ps)\<lparr>Index := Index (ps_fmt ps) + 1\<rparr>\<rparr>"

definition fmt_at :: "'c print_dev \<Rightarrow> ('c \<Rightarrow> bool) \<Rightarrow> 'c PRINT_STATE \<Rightarrow> u16 list \<Rightarrow> bool" where
  "fmt_at dev I ps cs \<longleftrightarrow> reads dev I (ps_fmt ps) (Index (ps_fmt ps)) cs"

lemma fmt_getc_eq:
  assumes "fmt_at dev I ps cs" "good I ps"
  shows "fmt_getc dev ps = (case cs of [] \<Rightarrow> 0 | c # _ \<Rightarrow> c, adv ps)"
  using assms reads_head [of dev I "ps_fmt ps" "Index (ps_fmt ps)" cs "ps_Context ps"]
  by (simp add: fmt_getc_def PGETC_def fmt_at_def good_def adv_def)

lemma fmt_at_adv: "fmt_at dev I ps (c # cs) \<Longrightarrow> fmt_at dev I (adv ps) cs"
  using reads_tail [of dev I "ps_fmt ps" "Index (ps_fmt ps)" c cs] by (simp add: fmt_at_def adv_def)

lemma fmt_at_cong: "ps_fmt ps' = ps_fmt ps \<Longrightarrow> fmt_at dev I ps' cs = fmt_at dev I ps cs"
  by (simp add: fmt_at_def)

lemma fmt_at_nonzero: "fmt_at dev I ps (c # cs) \<Longrightarrow> c \<noteq> 0"
  by (auto simp: fmt_at_def reads_def)

lemma adv_simps [simp]: "ps_Context (adv ps) = ps_Context ps" "ps_Buffer (adv ps) = ps_Buffer ps" "ps_args (adv ps) = ps_args ps"
    "ps_Attr (adv ps) = ps_Attr ps" "ps_RestoreAttr (adv ps) = ps_RestoreAttr ps" "ps_AttrNorm (adv ps) = ps_AttrNorm ps"
    "ps_AttrHighlight (adv ps) = ps_AttrHighlight ps" "ps_AttrError (adv ps) = ps_AttrError ps" "ps_Len (adv ps) = ps_Len ps"
  by (simp_all add: adv_def)

lemma good_cong: "ps_Context ps' = ps_Context ps \<Longrightarrow> ps_Buffer ps' = ps_Buffer ps \<Longrightarrow> good I ps' = good I ps"
  by (simp add: good_def)

text \<open>\<open>ps'\<close> is \<open>ps\<close> after reading more of the format, which continues with \<open>cs\<close>, and with the arguments \<open>as\<close> left.\<close>

definition moves :: "'c print_dev \<Rightarrow> ('c \<Rightarrow> bool) \<Rightarrow> 'c PRINT_STATE \<Rightarrow> 'c PRINT_STATE \<Rightarrow> u16 list \<Rightarrow> u64 list \<Rightarrow> bool" where
  "moves dev I ps ps' cs as \<longleftrightarrow> fmt_at dev I ps' cs \<and> gp_args (ps_args ps') = as \<and> (\<exists>q va. ps' = ps\<lparr>ps_fmt := q, ps_args := va\<rparr>)"

lemma moves_keeps:
  assumes "moves dev I ps ps' cs as"
  shows "ps_Context ps' = ps_Context ps" "ps_Buffer ps' = ps_Buffer ps" "ps_Attr ps' = ps_Attr ps" "ps_RestoreAttr ps' = ps_RestoreAttr ps"
    "ps_AttrNorm ps' = ps_AttrNorm ps" "ps_AttrHighlight ps' = ps_AttrHighlight ps" "ps_AttrError ps' = ps_AttrError ps" "ps_Len ps' = ps_Len ps"
    "fmt_at dev I ps' cs" "gp_args (ps_args ps') = as"
  using assms by (auto simp: moves_def)

lemma moves_good: "moves dev I ps ps' cs as \<Longrightarrow> good I ps' = good I ps"
  by (rule good_cong) (simp_all add: moves_keeps)

lemma moves_trans: "moves dev I ps ps' cs as \<Longrightarrow> moves dev I ps' ps'' ds bs \<Longrightarrow> moves dev I ps ps'' ds bs"
  unfolding moves_def by fastforce

lemma moves_refl: "fmt_at dev I ps cs \<Longrightarrow> moves dev I ps ps cs (gp_args (ps_args ps))"
  unfolding moves_def by (metis PRINT_STATE.surjective PRINT_STATE.update_convs(1,2))

lemma moves_adv: "fmt_at dev I ps (c # cs) \<Longrightarrow> moves dev I ps (adv ps) cs (gp_args (ps_args ps))"
  unfolding moves_def using fmt_at_adv by (auto simp: adv_def intro!: exI [of _ "ps_args ps"])

lemma item_loop_step:
  assumes "fmt_at dev I ps (c # cs)" "good I ps" "item_switch dev sub c (adv ps) it a = Some (ps', it', 0)" "un (it_Item it') = Memory 0"
  shows "item_loop dev sub ps it a = item_loop dev sub ps' it' 0"
  using assms fmt_at_nonzero [OF assms(1)] by (subst item_loop.simps) (simp add: fmt_getc_eq)

lemma item_loop_item:
  assumes "fmt_at dev I ps (c # cs)" "good I ps" "item_switch dev sub c (adv ps) it a = Some (ps', it', b)" "un (it_Item it') \<noteq> Memory 0"
  shows "item_loop dev sub ps it a = PITEM dev it' ps'"
  using assms fmt_at_nonzero [OF assms(1)] by (subst item_loop.simps) (simp add: fmt_getc_eq)

text \<open>An optional flag.\<close>

lemma item_flag:
  assumes "fmt_at dev I ps ((if b then [c] else []) @ cs)" "good I ps"
    "\<And>ps. item_switch dev sub c ps it 0 = Some (ps, it', 0)" "un (it_Item it') = Memory 0"
  shows "\<exists>ps'. item_loop dev sub ps it 0 = item_loop dev sub ps' (if b then it' else it) 0 \<and> moves dev I ps ps' cs (gp_args (ps_args ps))"
proof (cases b)
  case True
  then have "fmt_at dev I ps (c # cs)" using assms(1) by simp
  then show ?thesis using item_loop_step [OF _ assms(2,3,4)] moves_adv True by fastforce
next
  case False
  then show ?thesis using assms(1) moves_refl by fastforce
qed

section \<open>Widths\<close>

lemma hd_to_base: "1 < b \<Longrightarrow> 0 < n \<Longrightarrow> hd (to_base b n) \<noteq> 0"
  by (induction b n rule: to_base.induct) (subst to_base.simps, auto simp: hd_append div_greater_zero_iff)

lemma dec_wchar_bounds: "d < 10 \<Longrightarrow> 0x30 \<le> dec_wchar d \<and> dec_wchar d \<le> 0x39 \<and> (ucast (dec_wchar d) :: u64) = 0x30 + of_nat d \<and>
    (0 < d \<longrightarrow> 0x31 \<le> dec_wchar d)"
proof -
  have "list_all (\<lambda>d. 0x30 \<le> dec_wchar d \<and> dec_wchar d \<le> 0x39 \<and> (ucast (dec_wchar d) :: u64) = 0x30 + of_nat d \<and>
    (0 < d \<longrightarrow> 0x31 \<le> dec_wchar d)) [0..<10]" by (simp add: upt_rec dec_wchar_def)
  then show "d < 10 \<Longrightarrow> ?thesis" by (simp add: list_all_iff)
qed

lemma width_loop_digits:
  assumes "reads dev I p (Index p) (map dec_wchar ds @ c # cs)" "I ctx" "d < 10" "\<forall>d \<in> set ds. d < 10" "c < 0x30 \<or> c > 0x39"
  shows "width_loop (dev_mem dev ctx) (dec_wchar d) p (of_nat v) =
    Some (of_nat (foldl (\<lambda>v d. v * 10 + d) v (d # ds)), p\<lparr>Index := Index p + of_nat (length ds)\<rparr>)"
  using assms(1,3,4)
proof (induction ds arbitrary: p d v)
  case Nil
  have "char_at_ptr (dev_mem dev ctx) p (Index p) = c" using reads_head [OF Nil.prems(1) assms(2)] by simp
  then show ?case using assms(5) dec_wchar_bounds [OF Nil.prems(2)] by (subst width_loop.simps) (auto simp: PGETC_def Let_def)
next
  case (Cons e ds)
  let ?p = "p\<lparr>Index := Index p + 1\<rparr>"
  have "char_at_ptr (dev_mem dev ctx) p (Index p) = dec_wchar e" using reads_head [OF Cons.prems(1) assms(2)] by simp
  moreover have "reads dev I ?p (Index ?p) (map dec_wchar ds @ c # cs)" using reads_tail Cons.prems(1) by fastforce
  moreover have "of_nat v * 10 + ucast (dec_wchar d) - 0x30 = (of_nat (v * 10 + d) :: u64)" using dec_wchar_bounds [OF Cons.prems(2)] by simp
  ultimately show ?case
    using Cons.IH [of ?p e "v * 10 + d"] Cons.prems(3) dec_wchar_bounds [of e]
    by (subst width_loop.simps) (simp add: PGETC_def Let_def add.assoc del: of_nat_add of_nat_mult)
qed

end
