(* ===== verification/Efi_Render.thy ===== *)
theory Efi_Render
  imports Efi_Fmt
begin

text \<open>
  The formatter refines the meaning of formats: on every device that keeps the format and the string arguments readable, \<^verbatim>\<open>_Print\<close> returns and has produced
  exactly the events that the format denotes.  Instances are \<^verbatim>\<open>UnicodeSPrint\<close>, which writes to memory, and \<^verbatim>\<open>Print\<close>, which writes to the console.
\<close>

section \<open>One directive\<close>

lemma reads_drop: "reads dev I p i (xs @ ys) \<Longrightarrow> reads dev I p (i + of_nat (length xs)) ys"
proof (induction xs arbitrary: i)
  case (Cons x xs)
  then have "reads dev I p (i + 1) (xs @ ys)" using reads_tail by fastforce
  then show ?case using Cons.IH [of "i + 1"] by (simp add: add.assoc)
qed simp

lemma item_switch_digit:
  "0x31 \<le> c \<Longrightarrow> c \<le> 0x39 \<Longrightarrow> width_loop (dev_mem dev (ps_Context ps)) c (ps_fmt ps) 0 = Some (v, p) \<Longrightarrow>
     item_switch dev sub c ps it a = Some (ps\<lparr>ps_fmt := p\<rparr>, set_width v it, a)"
  by (auto simp: item_switch_def)

lemma width_phase:
  assumes "fmt_at dev I ps ((case n of None \<Rightarrow> [] | Some n \<Rightarrow> enc_num n) @ c # cs)" "good I ps" "num_ok n" "c < 0x30 \<or> c > 0x39"
    "take_num n (if it_WidthParse it then it_FieldWidth it else it_Width it) (gp_args (ps_args ps)) = Some (w, as)" "un (it_Item it) = Memory 0"
  shows "\<exists>ps'. item_loop dev sub ps it 0 = item_loop dev sub ps' (set_width w it) 0 \<and> moves dev I ps ps' (c # cs) as"
proof (cases n)
  case None
  then have "set_width w it = it" using assms(5) by (auto simp: set_width_def)
  moreover have "moves dev I ps ps (c # cs) as" using moves_refl [of dev I ps "c # cs"] assms(1,5) None by auto
  ultimately show ?thesis by fastforce
next
  case (Some k)
  have un: "un (it_Item (set_width w it)) = Memory 0" using assms(6) by (simp add: set_width_def)
  show ?thesis
  proof (cases k)
    case Star
    then obtain as' where a: "gp_args (ps_args ps) = w # as" using assms(5) Some by (cases "gp_args (ps_args ps)") auto
    have f: "fmt_at dev I ps (0x2A # c # cs)" using assms(1) Some Star by simp
    let ?ps = "(adv ps)\<lparr>ps_args := (ps_args ps)\<lparr>gp_args := as\<rparr>\<rparr>"
    have "item_switch dev sub 0x2A (adv ps) it 0 = Some (?ps, set_width w it, 0)" by (simp add: item_switch_def a)
    then have "item_loop dev sub ps it 0 = item_loop dev sub ?ps (set_width w it) 0" by (rule item_loop_step [OF f assms(2) _ un])
    moreover have "moves dev I ps ?ps (c # cs) as" using fmt_at_adv [OF f] by (auto simp: moves_def adv_def fmt_at_def)
    ultimately show ?thesis by blast
  next
    case (Num v)
    then have v: "0 < v" "w = of_nat v" "as = gp_args (ps_args ps)" using Some assms(3,5) by (auto simp: num_ok_def)
    obtain d ds where ds: "to_base 10 v = d # ds" using to_base_nonempty by (metis neq_Nil_conv)
    then have dig: "d < 10" "\<forall>d \<in> set ds. d < 10" "d \<noteq> 0" using to_base_digits [of 10 v] hd_to_base [of 10 v] v(1) by auto
    have f: "fmt_at dev I ps (dec_wchar d # map dec_wchar ds @ c # cs)" using assms(1) Some Num ds by simp
    let ?q = "(ps_fmt ps)\<lparr>Index := Index (ps_fmt ps) + 1 + of_nat (length ds)\<rparr>" and ?ps = "\<lambda>q. (adv ps)\<lparr>ps_fmt := q\<rparr>"
    have "foldl (\<lambda>v d. v * 10 + d) 0 (d # ds) = v" using to_base_value [of 10 v] ds by simp
    then have "width_loop (dev_mem dev (ps_Context (adv ps))) (dec_wchar d) (ps_fmt (adv ps)) 0 = Some (of_nat v, ?q)"
      using width_loop_digits [of dev I "ps_fmt (adv ps)" ds c cs "ps_Context ps" d 0] fmt_at_adv [OF f] assms(2,4) dig
      by (simp add: fmt_at_def good_def) (simp add: adv_def)
    then have "item_switch dev sub (dec_wchar d) (adv ps) it 0 = Some (?ps ?q, set_width w it, 0)"
      unfolding v(2) by (rule item_switch_digit [rotated 2]) (use dec_wchar_bounds [of d] dig in auto)
    then have "item_loop dev sub ps it 0 = item_loop dev sub (?ps ?q) (set_width w it) 0" by (rule item_loop_step [OF f assms(2) _ un])
    moreover have "reads dev I (ps_fmt ps) (Index (ps_fmt ps) + 1 + of_nat (length ds)) (c # cs)"
      using reads_drop [of dev I "ps_fmt ps" "Index (ps_fmt ps) + 1" "map dec_wchar ds" "c # cs"] fmt_at_adv [OF f] by (simp add: fmt_at_def adv_def)
    then have "moves dev I ps (?ps ?q) (c # cs) as" by (auto simp: moves_def fmt_at_def adv_def v(3) intro!: exI [of _ "ps_args ps"])
    ultimately show ?thesis by blast
  qed
qed

lemma null_text_reads: "reads dev I (p\<lparr>un := Chars null_text, Ascii := b\<rparr>) 0 null_text"
  by (auto simp: reads_def char_at_ptr_def null_text_def unat_of_nat_u64 nth_append le_Suc_eq)

lemma chars_read: "0 \<notin> set t \<Longrightarrow> length t < 2 ^ 63 \<Longrightarrow> reads dev I (p\<lparr>un := Chars t\<rparr>) 0 t"
  by (auto simp: reads_def char_at_ptr_def unat_of_nat_u64 nth_append le_less)

lemma reads_cong: "un p = un q \<Longrightarrow> Ascii p = Ascii q \<Longrightarrow> reads dev I p i t = reads dev I q i t"
  by (simp add: reads_def char_at_ptr_def cong: text_source.case_cong)

text \<open>The texts of numbers are strings.\<close>

lemma hex_wchar_nonzero: "d < 16 \<Longrightarrow> hex_wchar d \<noteq> 0"
proof -
  have "list_all (\<lambda>d. hex_wchar d \<noteq> 0) [0..<16]" by (simp add: upt_rec hex_wchar_def Hex_def)
  then show "d < 16 \<Longrightarrow> hex_wchar d \<noteq> 0" by (simp add: list_all_iff)
qed

lemma hex_text_string: "n < 2 ^ 64 \<Longrightarrow> 0 \<notin> set (hex_text n) \<and> length (hex_text n) < 2 ^ 62"
  using to_base_digits [of 16 n] hex_wchar_nonzero length_to_base [of 16 n 15] by (force simp: hex_text_def)

lemma commas_string: "set (commas ds) \<subseteq> insert 0x2C (set ds) \<and> length (commas ds) \<le> 2 * length ds"
  by (induction ds) auto

lemma dec_text_string: "\<bar>i\<bar> \<le> 2 ^ 64 \<Longrightarrow> 0 \<notin> set (dec_text b i) \<and> length (dec_text b i) < 2 ^ 63"
proof -
  assume i: "\<bar>i\<bar> \<le> 2 ^ 64"
  let ?ds = "map dec_wchar (to_base 10 (nat \<bar>i\<bar>))"
  have "nat \<bar>i\<bar> < 10 ^ Suc 19" using i by simp
  then have l: "length ?ds \<le> 20" using length_to_base [of 10 "nat \<bar>i\<bar>" 19] by simp
  have z: "0 \<notin> set ?ds" using to_base_digits [of 10 "nat \<bar>i\<bar>"] dec_wchar_bounds by fastforce
  then have "0 \<notin> set (commas ?ds)" "length (commas ?ds) \<le> 40" using commas_string [of ?ds] l by auto
  then show ?thesis using z l by (auto simp: dec_text_def)
qed

lemma abs_sint_le: "\<bar>sint (v :: u64)\<bar> \<le> 2 ^ 64" "\<bar>sint (w :: u32)\<bar> \<le> 2 ^ 64" "\<bar>uint (w :: u32)\<bar> \<le> 2 ^ 64"
proof -
  have "uint w < 2 ^ 32" using unsigned_less [of w] by simp
  then show "\<bar>sint (v :: u64)\<bar> \<le> 2 ^ 64" "\<bar>sint (w :: u32)\<bar> \<le> 2 ^ 64" "\<bar>uint (w :: u32)\<bar> \<le> 2 ^ 64"
    using sint_less [of v] sint_greater_eq [of v] sint_less [of w] sint_greater_eq [of w] by simp_all
qed

lemma sint_signed_arg: "sint (signed_arg long a) = (if long then sint a else sint (ucast a :: u32))"
proof -
  have "sint (scast w :: u64) = sint w" for w :: u32
    using sint_less [of w] sint_greater_eq [of w] by (simp add: signed_scast_eq signed_take_bit_int_eq_self)
  then show ?thesis by (simp add: signed_arg_def)
qed

lemma sint_unsigned_arg: "sint (unsigned_arg long a) = (if long then sint a else uint (ucast a :: u32))"
proof -
  have "sint (ucast w :: u64) = uint w" for w :: u32
  proof -
    have "uint w < 2 ^ 32" using unsigned_less [of w] by simp
    moreover have "- (2 ^ 63) \<le> uint w" by (rule order_trans [of _ 0]) simp_all
    ultimately have "signed_take_bit 63 (uint w) = uint w" by (intro signed_take_bit_int_eq_self) simp_all
    then show ?thesis by (simp add: signed_ucast_eq)
  qed
  then show ?thesis by (simp add: unsigned_arg_def)
qed

lemma unat_unsigned_arg: "unat (unsigned_arg long a) = (if long then unat a else unat (ucast a :: u32))"
  using unat_ucast_up [of "ucast a :: u32", where ?'b = 64] by (simp add: unsigned_arg_def)

lemma null_text_string: "0 \<notin> set null_text \<and> length null_text < 2 ^ 63"
  by (simp add: null_text_def)

text \<open>The item after the flags, and after the widths.\<close>

definition flagged :: "directive \<Rightarrow> PRINT_ITEM" where
  "flagged d = new_item\<lparr>it_PadBefore := \<not> left_flag d, it_Pad := (if zero_flag d then 0x30 else 0x20), it_Comma := comma_flag d\<rparr>"

lemma flags_phase:
  assumes "fmt_at dev I ps ((if left_flag d then [0x2D] else []) @ (if zero_flag d then [0x30] else []) @
    (if comma_flag d then [0x2C] else []) @ cs)" "good I ps"
  shows "\<exists>ps'. item_loop dev sub ps new_item 0 = item_loop dev sub ps' (flagged d) 0 \<and> moves dev I ps ps' cs (gp_args (ps_args ps))"
proof -
  let ?it1 = "if left_flag d then new_item\<lparr>it_PadBefore := False\<rparr> else new_item"
  let ?it2 = "if zero_flag d then ?it1\<lparr>it_Pad := 0x30\<rparr> else ?it1"
  let ?it3 = "if comma_flag d then ?it2\<lparr>it_Comma := True\<rparr> else ?it2"
  have un: "un (it_Item new_item) = Memory 0" "un (it_Item ?it1) = Memory 0" "un (it_Item ?it2) = Memory 0"
    by (simp_all add: new_item_def)
  have sw: "item_switch dev sub 0x2D q it 0 = Some (q, it\<lparr>it_PadBefore := False\<rparr>, 0)" "item_switch dev sub 0x30 q it 0 = Some (q, it\<lparr>it_Pad := 0x30\<rparr>, 0)"
      "item_switch dev sub 0x2C q it 0 = Some (q, it\<lparr>it_Comma := True\<rparr>, 0)" for q it
    by (simp_all add: item_switch_def)
  have un': "un (it_Item (it\<lparr>it_PadBefore := False\<rparr>)) = un (it_Item it)" "un (it_Item (it\<lparr>it_Pad := 0x30\<rparr>)) = un (it_Item it)"
      "un (it_Item (it\<lparr>it_Comma := True\<rparr>)) = un (it_Item it)" for it by simp_all
  obtain p1 where p1: "item_loop dev sub ps new_item 0 = item_loop dev sub p1 ?it1 0" "moves dev I ps p1 ((if zero_flag d then [0x30] else []) @
      (if comma_flag d then [0x2C] else []) @ cs) (gp_args (ps_args ps))"
    using item_flag [OF assms sw(1) un'(1) [THEN trans, OF un(1)]] by blast
  then have g1: "good I p1" "gp_args (ps_args p1) = gp_args (ps_args ps)" using moves_good moves_keeps(10) assms(2) by blast+
  obtain p2 where p2: "item_loop dev sub p1 ?it1 0 = item_loop dev sub p2 ?it2 0"
      "moves dev I p1 p2 ((if comma_flag d then [0x2C] else []) @ cs) (gp_args (ps_args p1))"
    using item_flag [OF moves_keeps(9) [OF p1(2)] g1(1) sw(2) un'(2) [THEN trans, OF un(2)]] by blast
  then have g2: "good I p2" "gp_args (ps_args p2) = gp_args (ps_args ps)" using moves_good moves_keeps(10) g1 by metis+
  obtain p3 where p3: "item_loop dev sub p2 ?it2 0 = item_loop dev sub p3 ?it3 0"
      "moves dev I p2 p3 cs (gp_args (ps_args p2))"
    using item_flag [OF moves_keeps(9) [OF p2(2)] g2(1) sw(3) un'(3) [THEN trans, OF un(3)]] by blast
  have "moves dev I ps p3 cs (gp_args (ps_args ps))"
    using moves_trans [OF moves_trans [OF p1(2) p2(2)] p3(2)] g2(2) by simp
  moreover have "?it3 = flagged d" by (simp add: flagged_def new_item_def)
  ultimately show ?thesis unfolding p1(1) p2(1) p3(1) by (intro exI [of _ p3]) simp
qed

definition sized :: "directive \<Rightarrow> u64 \<Rightarrow> u64 \<Rightarrow> PRINT_ITEM" where
  "sized d w fld = (flagged d)\<lparr>it_Width := w, it_FieldWidth := fld, it_WidthParse := (field_width d \<noteq> None)\<rparr>"

lemma sized_simps [simp]: "it_Comma (sized d w fld) = comma_flag d" "it_Long (sized d w fld) = False" "it_Width (sized d w fld) = w"
    "it_FieldWidth (sized d w fld) = fld" "it_Pad (sized d w fld) = (if zero_flag d then 0x30 else 0x20)" "it_PadBefore (sized d w fld) = (\<not> left_flag d)"
    "Ascii (it_Item (sized d w fld)) = False" "un (it_Item (sized d w fld)) = Memory 0"
  by (simp_all add: sized_def flagged_def new_item_def)

lemma conv_char_no_digit: "conv_char k < 0x30 \<or> conv_char k > 0x39"
  by (cases k) simp_all

lemma widths_phase:
  assumes "fmt_at dev I ps ((case width d of None \<Rightarrow> [] | Some n \<Rightarrow> enc_num n) @ (case field_width d of None \<Rightarrow> [] | Some n \<Rightarrow> 0x2E # enc_num n) @ c # cs)"
    "good I ps" "c < 0x30 \<or> c > 0x39" "num_ok (width d)" "num_ok (field_width d)"
    "take_num (width d) 0 (gp_args (ps_args ps)) = Some (w, as)" "take_num (field_width d) (- 1) as = Some (fld, bs)"
  shows "\<exists>ps'. item_loop dev sub ps (flagged d) 0 = item_loop dev sub ps' (sized d w fld) 0 \<and> moves dev I ps ps' (c # cs) bs"
proof -
  let ?it = "set_width w (flagged d)"
  have un: "un (it_Item (flagged d)) = Memory 0" "un (it_Item ?it) = Memory 0" by (simp_all add: flagged_def set_width_def new_item_def)
  have val: "(if it_WidthParse (flagged d) then it_FieldWidth (flagged d) else it_Width (flagged d)) = 0" by (simp add: flagged_def new_item_def)
  show ?thesis
  proof (cases "field_width d")
    case None
    then have "sized d w fld = ?it" using assms(7) by (simp add: sized_def set_width_def flagged_def new_item_def)
    then show ?thesis using width_phase [of dev I ps "width d" c cs "flagged d" w as sub] assms un(1) None val by simp
  next
    case (Some n)
    let ?cs = "enc_num n @ c # cs" and ?it' = "?it\<lparr>it_WidthParse := True\<rparr>"
    have un': "un (it_Item ?it') = Memory 0" using un(2) by simp
    have "\<exists>p1. item_loop dev sub ps (flagged d) 0 = item_loop dev sub p1 ?it 0 \<and> moves dev I ps p1 (0x2E # ?cs) as"
      using assms Some un(1) val by (intro width_phase) simp_all
    then obtain p1 where p1: "item_loop dev sub ps (flagged d) 0 = item_loop dev sub p1 ?it 0" "moves dev I ps p1 (0x2E # ?cs) as" by blast
    have g1: "good I p1" "gp_args (ps_args p1) = as" using moves_good [OF p1(2)] assms(2) moves_keeps(10) [OF p1(2)] by simp_all
    have sw: "item_switch dev sub 0x2E q ?it 0 = Some (q, ?it', 0)" for q by (simp add: item_switch_def)
    have f1: "fmt_at dev I p1 ((if True then [0x2E] else []) @ ?cs)" using moves_keeps(9) [OF p1(2)] by simp
    obtain p2 where p2: "item_loop dev sub p1 ?it 0 = item_loop dev sub p2 ?it' 0" "moves dev I p1 p2 ?cs as"
      using item_flag [OF f1 g1(1) sw un'] g1(2) by auto
    have g2: "good I p2" "gp_args (ps_args p2) = as" using moves_good [OF p2(2)] g1(1) moves_keeps(10) [OF p2(2)] by simp_all
    have v: "(if it_WidthParse ?it' then it_FieldWidth ?it' else it_Width ?it') = - 1" by (simp add: set_width_def flagged_def new_item_def)
    have "\<exists>p3. item_loop dev sub p2 ?it' 0 = item_loop dev sub p3 (set_width fld ?it') 0 \<and> moves dev I p2 p3 (c # cs) bs"
      by (rule width_phase [where n = "Some n"]) (use moves_keeps(9) [OF p2(2)] g2 assms(3,5,7) Some un' v in simp_all)
    moreover have "set_width fld ?it' = sized d w fld" using Some by (simp add: sized_def set_width_def flagged_def new_item_def)
    ultimately show ?thesis using p1 p2 moves_trans [OF p1(2) p2(2)] by (metis moves_trans)
  qed
qed

text \<open>The attribute of \<^verbatim>\<open>n h e\<close> and \<^verbatim>\<open>N H E\<close>.\<close>

definition attr_for :: "'c PRINT_STATE \<Rightarrow> u16 \<Rightarrow> u64" where
  "attr_for ps c = (if c = 0x6E \<or> c = 0x4E then ps_AttrNorm ps else if c = 0x68 \<or> c = 0x48 then ps_AttrHighlight ps else ps_AttrError ps)"

lemma PSETATTR_keeps [simp]: "ps_fmt (PSETATTR dev a ps) = ps_fmt ps" "ps_args (PSETATTR dev a ps) = ps_args ps" "ps_Attr (PSETATTR dev a ps) = a"
    "ps_RestoreAttr (PSETATTR dev a ps) = ps_Attr ps" "ps_AttrNorm (PSETATTR dev a ps) = ps_AttrNorm ps"
    "ps_AttrHighlight (PSETATTR dev a ps) = ps_AttrHighlight ps" "ps_AttrError (PSETATTR dev a ps) = ps_AttrError ps"
  by (simp_all add: PSETATTR_def Let_def split: option.splits)

lemma attr_for_cong: "ps_AttrNorm ps' = ps_AttrNorm ps \<Longrightarrow> ps_AttrHighlight ps' = ps_AttrHighlight ps \<Longrightarrow> ps_AttrError ps' = ps_AttrError ps \<Longrightarrow>
    attr_for ps' = attr_for ps"
  by (simp add: attr_for_def fun_eq_iff)

lemma item_switch_tint: "c \<in> {0x6E, 0x68, 0x65} \<Longrightarrow> item_switch dev sub c ps it a = Some (PSETATTR dev (attr_for ps c) ps, it, a)"
  by (elim insertE emptyE; simp add: item_switch_def attr_for_def)

lemma item_switch_colour: "c \<in> {0x4E, 0x48, 0x45} \<Longrightarrow> item_switch dev sub c ps it a = Some (ps, it, attr_for ps c)"
  by (elim insertE emptyE; simp add: item_switch_def attr_for_def)

lemma attr_for_adv [simp]: "attr_for (adv ps) = attr_for ps" "attr_for (ps\<lparr>ps_RestoreAttr := r\<rparr>) = attr_for ps"
  by (rule attr_for_cong; simp)+

lemma produces_attr_for: "produces dev I ps es ps' \<Longrightarrow> attr_for ps' = attr_for ps"
  by (rule attr_for_cong) (simp_all add: produces_def)

lemma moves_produces: "moves dev I ps ps' cs as \<Longrightarrow> good I ps \<Longrightarrow> produces dev I ps [] ps'"
  by (rule produces_refl) (simp_all add: moves_keeps)

lemma moves_args: "fmt_at dev I ps (c # cs) \<Longrightarrow> moves dev I ps ((adv ps)\<lparr>ps_args := va\<rparr>) cs (gp_args va)"
  using fmt_at_adv [of dev I ps c cs]
  by (auto simp: moves_def adv_def fmt_at_def intro!: exI [of _ "(ps_fmt ps)\<lparr>Index := Index (ps_fmt ps) + 1\<rparr>"] exI [of _ va])

lemma directive_parts:
  assumes "directive_text str lib d as = Some (t, ds)"
  obtains w bs fld cs a v where "take_num (width d) 0 as = Some (w, bs)" "take_num (field_width d) (- 1) bs = Some (fld, cs)"
    "cs = (if conv_of d = ConvPercent then ds else a # ds)" "conv_value str lib (comma_flag d) (long_flag d) a (conv_of d) = Some v"
    "t = in_field (unat (if conv_of d = ConvHEX then if long_flag d then 16 else 8 else if conv_of d = ConvPtr then 0 else w)) fld
       (if zero_flag d \<or> conv_of d = ConvHEX \<or> conv_of d = ConvPtr then 0x30 else 0x20) (left_flag d) v"
  using assms by (auto simp: directive_text_def Let_def split: bind_splits if_splits list.splits)

text \<open>
  String arguments and conversions through the library: \<open>str\<close> gives texts that stay readable, \<open>lib\<close> the texts that \<open>sub\<close> returns without changing the context.
\<close>

locale formatter = printer dev I for dev :: "'c print_dev" and I :: "'c \<Rightarrow> bool" +
  fixes sub :: "'c sub_conv" and str :: "bool \<Rightarrow> u64 \<Rightarrow> u16 list option" and lib :: "u16 \<Rightarrow> u64 \<Rightarrow> u16 list option"
  assumes str_reads: "str asc a = Some t \<Longrightarrow> reads dev I \<lparr>Ascii = asc, Index = 0, un = Memory a\<rparr> 0 t"
    and lib_sub: "lib c a = Some t \<Longrightarrow> I ctx \<Longrightarrow> sub c comma a ctx = Some (t, ctx)"
    and lib_text: "lib c a = Some t \<Longrightarrow> 0 \<notin> set t \<and> length t < 2 ^ 63"
begin

lemma conv_value_string:
  assumes "conv_value str lib comma long a k = Some t"
  shows "0 \<notin> set t \<and> length t < 2 ^ 63"
proof -
  have "unat (ucast a :: u32) < 2 ^ 64" using unsigned_less [of "ucast a :: u32", where ?'a = nat] by simp
  then have h: "0 \<notin> set (hex_text (unat (ucast a :: u32))) \<and> length (hex_text (unat (ucast a :: u32))) < 2 ^ 62" by (rule hex_text_string)
  have h': "0 \<notin> set (hex_text (unat a)) \<and> length (hex_text (unat a)) < 2 ^ 62" by (rule hex_text_string) simp
  have s: "str asc b = Some t \<Longrightarrow> 0 \<notin> set t \<and> length t < 2 ^ 63" for asc b using str_reads [of asc b t] by (simp add: reads_def)
  show ?thesis
    using assms h h' s lib_text null_text_string dec_text_string [OF abs_sint_le(1)] dec_text_string [OF abs_sint_le(2)] dec_text_string [OF abs_sint_le(3)]
    by (cases k) (auto simp: one_char_def split: if_splits)
qed

text \<open>The item a conversion makes.\<close>

definition converted :: "convspec \<Rightarrow> u16 list \<Rightarrow> PRINT_ITEM \<Rightarrow> PRINT_ITEM \<Rightarrow> bool" where
  "converted k t it it' \<longleftrightarrow> un (it_Item it') \<noteq> Memory 0 \<and> reads dev I (it_Item it') 0 t \<and> it_FieldWidth it' = it_FieldWidth it \<and>
     it_PadBefore it' = it_PadBefore it \<and>
     it_Width it' = (if k = ConvHEX then if it_Long it then 16 else 8 else if k = ConvPtr then 0 else it_Width it) \<and>
     it_Pad it' = (if k = ConvHEX \<or> k = ConvPtr then 0x30 else it_Pad it)"

lemma converted_scratch:
  assumes "0 \<notin> set t \<and> length t < 2 ^ 63" "it_FieldWidth it' = it_FieldWidth it" "it_PadBefore it' = it_PadBefore it"
    "it_Width it' = (if k = ConvHEX then if it_Long it then 16 else 8 else if k = ConvPtr then 0 else it_Width it)"
    "it_Pad it' = (if k = ConvHEX \<or> k = ConvPtr then 0x30 else it_Pad it)"
  shows "converted k t it (set_scratch t it')"
  using assms chars_read [of t dev I "it_Item it'"] by (simp add: converted_def set_scratch_def)

lemma converted_string:
  assumes "a \<noteq> 0 \<Longrightarrow> str asc a = Some t" "a = 0 \<Longrightarrow> t = null_text" "\<not> Ascii (it_Item it)" "k \<noteq> ConvHEX" "k \<noteq> ConvPtr"
  shows "converted k t it (string_arg asc a it)"
proof (cases "a = 0")
  case True
  then show ?thesis using assms null_text_reads by (simp add: converted_def string_arg_def)
next
  case False
  then have "reads dev I \<lparr>Ascii = asc, Index = 0, un = Memory a\<rparr> 0 t" using str_reads assms(1) by blast
  then have "reads dev I ((it_Item it)\<lparr>un := Memory a, Ascii := asc\<rparr>) 0 t" by (subst reads_cong) simp_all
  then show ?thesis using False assms by (simp add: converted_def string_arg_def)
qed

lemma conv_phase:
  assumes "I (ps_Context ps)" "\<not> Ascii (it_Item it)" "conv_value str lib (it_Comma it) (it_Long it) a k = Some t"
    "gp_args (ps_args ps) = (if k = ConvPercent then as else a # as)"
  shows "\<exists>it' va. item_switch dev sub (conv_char k) ps it 0 = Some (ps\<lparr>ps_args := va\<rparr>, it', 0) \<and> gp_args va = as \<and> converted k t it it'"
proof -
  note t = conv_value_string [OF assms(3)]
  have va: "va_arg (ps_args ps) = Some (a, (ps_args ps)\<lparr>gp_args := as\<rparr>)" if "k \<noteq> ConvPercent" using assms(4) that by simp
  let ?va = "(ps_args ps)\<lparr>gp_args := as\<rparr>"
  have fin: ?thesis if "item_switch dev sub (conv_char k) ps it 0 = Some (ps\<lparr>ps_args := ?va\<rparr>, it', 0)" "converted k t it it'" for it'
    using that by (intro exI [of _ it'] exI [of _ ?va]) simp
  show ?thesis
  proof (cases k)
    case ConvPercent
    then have "item_switch dev sub (conv_char k) ps it 0 = Some (ps\<lparr>ps_args := ?va\<rparr>, set_scratch t it, 0)"
      using assms(3,4) by (simp add: item_switch_def)
    then show ?thesis by (rule fin) (use ConvPercent in \<open>simp add: converted_scratch [OF t]\<close>)
  next
    case ConvAscii
    then have "item_switch dev sub (conv_char k) ps it 0 = Some (ps\<lparr>ps_args := ?va\<rparr>, string_arg True a it, 0)" using va by (simp add: item_switch_def)
    then show ?thesis by (rule fin) (use ConvAscii assms(2,3) in \<open>simp add: converted_string split: if_splits\<close>)
  next
    case ConvWide
    then have "item_switch dev sub (conv_char k) ps it 0 = Some (ps\<lparr>ps_args := ?va\<rparr>, string_arg False a it, 0)" using va by (simp add: item_switch_def)
    then show ?thesis by (rule fin) (use ConvWide assms(2,3) in \<open>simp add: converted_string split: if_splits\<close>)
  next
    case ConvHEX
    let ?it = "it\<lparr>it_Width := (if it_Long it then 16 else 8), it_Pad := 0x30\<rparr>"
    have "item_switch dev sub (conv_char k) ps it 0 = Some (ps\<lparr>ps_args := ?va\<rparr>, set_scratch t ?it, 0)"
      using va assms(3) ConvHEX by (simp add: item_switch_def ValueToHex_text unat_unsigned_arg)
    then show ?thesis by (rule fin) (use ConvHEX in \<open>simp add: converted_scratch [OF t]\<close>)
  next
    case ConvPtr
    then have "item_switch dev sub (conv_char k) ps it 0 = Some (ps\<lparr>ps_args := ?va\<rparr>, set_scratch t (it\<lparr>it_Width := 0, it_Pad := 0x30\<rparr>), 0)"
      using va assms(3) by (simp add: item_switch_def ValueToHex_text unat_unsigned_arg)
    then show ?thesis by (rule fin) (use ConvPtr in \<open>simp add: converted_scratch [OF t]\<close>)
  qed (rule fin [of "set_scratch t it"]; use va assms(1,3) lib_sub in
      \<open>simp add: item_switch_def ValueToString_text ValueToHex_text sint_signed_arg sint_unsigned_arg unat_unsigned_arg converted_scratch [OF t]\<close>)+
qed

lemma conv_loop:
  assumes "good I ps" "fmt_at dev I ps (conv_char k # cs)" "gp_args (ps_args ps) = (if k = ConvPercent then ds else a # ds)"
    "conv_value str lib (it_Comma it) (it_Long it) a k = Some v" "\<not> Ascii (it_Item it)" "it_Pad it \<noteq> 0"
  shows "\<exists>ps'. item_loop dev sub ps it 0 = Some ps' \<and>
    produces dev I ps (map Put (crlf (in_field (unat (if k = ConvHEX then if it_Long it then 16 else 8 else if k = ConvPtr then 0 else it_Width it))
      (it_FieldWidth it) (if k = ConvHEX \<or> k = ConvPtr then 0x30 else it_Pad it) (\<not> it_PadBefore it) v))) ps' \<and> fmt_at dev I ps' cs \<and>
    gp_args (ps_args ps') = ds \<and> ps_Attr ps' = ps_Attr ps \<and> ps_RestoreAttr ps' = ps_RestoreAttr ps"
proof -
  have "I (ps_Context (adv ps))" using assms(1) by (simp add: good_def)
  then obtain it' va where c: "item_switch dev sub (conv_char k) (adv ps) it 0 = Some ((adv ps)\<lparr>ps_args := va\<rparr>, it', 0)" "gp_args va = ds"
      "converted k v it it'"
    using conv_phase [of "adv ps" it a k v ds] assms(3,4,5) by auto
  let ?q = "(adv ps)\<lparr>ps_args := va\<rparr>"
  have step: "item_loop dev sub ps it 0 = PITEM dev it' ?q" using c(3) by (intro item_loop_item [OF assms(2,1) c(1)]) (simp add: converted_def)
  have m: "moves dev I ps ?q cs ds" using moves_args [OF assms(2), of va] c(2) by simp
  have "good I ?q" using moves_good [OF m] assms(1) by simp
  moreover have "reads dev I (it_Item it') 0 v" using c(3) by (simp add: converted_def)
  moreover have "it_Pad it' \<noteq> 0" using c(3) assms(6) by (simp add: converted_def)
  ultimately obtain p where p: "PITEM dev it' ?q = Some p"
      "produces dev I ?q (map Put (crlf (in_field (unat (it_Width it')) (it_FieldWidth it') (it_Pad it') (\<not> it_PadBefore it') v))) p"
    using pitem_produces by blast
  note k = PITEM_keeps [OF p(1)]
  have "fmt_at dev I p cs" using moves_keeps(9) [OF m] k fmt_at_cong [of p ?q] by simp
  then show ?thesis using step p(1) k moves_keeps(3,4,10) [OF m] produces_trans [OF moves_produces [OF m assms(1)] p(2)] c(3)
    by (simp add: converted_def)
qed

lemma directive_loop:
  assumes "good I ps" "fmt_at dev I ps (enc_directive (d\<lparr>tint := None\<rparr>) @ cs)" "num_ok (width d)" "num_ok (field_width d)"
    "directive_text str lib d (gp_args (ps_args ps)) = Some (t, ds)"
  shows "\<exists>ps'. item_loop dev sub ps new_item 0 = Some ps' \<and> produces dev I ps (map Put (crlf t)) ps' \<and> fmt_at dev I ps' cs \<and>
    gp_args (ps_args ps') = ds \<and> ps_Attr ps' = ps_Attr ps \<and> ps_RestoreAttr ps' = ps_RestoreAttr ps"
proof -
  obtain w bs fld es a v where d: "take_num (width d) 0 (gp_args (ps_args ps)) = Some (w, bs)" "take_num (field_width d) (- 1) bs = Some (fld, es)"
      "es = (if conv_of d = ConvPercent then ds else a # ds)" "conv_value str lib (comma_flag d) (long_flag d) a (conv_of d) = Some v"
      "t = in_field (unat (if conv_of d = ConvHEX then if long_flag d then 16 else 8 else if conv_of d = ConvPtr then 0 else w)) fld
        (if zero_flag d \<or> conv_of d = ConvHEX \<or> conv_of d = ConvPtr then 0x30 else 0x20) (left_flag d) v"
    using assms(5) by (rule directive_parts)
  let ?l = "if long_flag d then [0x6C] else []" and ?it = "if long_flag d then (sized d w fld)\<lparr>it_Long := True\<rparr> else sized d w fld"
  let ?ws = "(case width d of None \<Rightarrow> [] | Some n \<Rightarrow> enc_num n) @ (case field_width d of None \<Rightarrow> [] | Some n \<Rightarrow> 0x2E # enc_num n) @ ?l @ conv_char (conv_of d) # cs"
  obtain c ls where c: "?l @ conv_char (conv_of d) # cs = c # ls" "c < 0x30 \<or> c > 0x39" using conv_char_no_digit [of "conv_of d"] by (cases "long_flag d") auto
  obtain p1 where p1: "item_loop dev sub ps new_item 0 = item_loop dev sub p1 (flagged d) 0" "moves dev I ps p1 ?ws (gp_args (ps_args ps))"
    using flags_phase [of dev I ps d ?ws sub] assms(1,2) by (auto simp: enc_directive_def)
  have g1: "good I p1" using moves_good [OF p1(2)] assms(1) by simp
  obtain q where q: "item_loop dev sub p1 (flagged d) 0 = item_loop dev sub q (sized d w fld) 0" "moves dev I p1 q (?l @ conv_char (conv_of d) # cs) es"
    using widths_phase [OF _ g1 c(2) assms(3,4), of dev ls w bs fld es sub] moves_keeps(9) [OF p1(2)] d(1,2) moves_keeps(10) [OF p1(2)] unfolding c(1) by auto
  have gq: "good I q" "gp_args (ps_args q) = es" using moves_good [OF q(2)] g1 moves_keeps(10) [OF q(2)] by simp_all
  have sw: "item_switch dev sub 0x6C x (sized d w fld) 0 = Some (x, (sized d w fld)\<lparr>it_Long := True\<rparr>, 0)" for x by (simp add: item_switch_def)
  obtain p2 where p2: "item_loop dev sub q (sized d w fld) 0 = item_loop dev sub p2 ?it 0" "moves dev I q p2 (conv_char (conv_of d) # cs) es"
    using item_flag [OF moves_keeps(9) [OF q(2)] gq(1) sw] gq(2) by auto
  have it: "it_Comma ?it = comma_flag d" "it_Long ?it = long_flag d" "it_Width ?it = w" "it_FieldWidth ?it = fld" "it_Pad ?it = (if zero_flag d then 0x30 else 0x20)"
      "it_PadBefore ?it = (\<not> left_flag d)" "Ascii (it_Item ?it) = False"
    by simp_all
  have m2: "moves dev I ps p2 (conv_char (conv_of d) # cs) es" using moves_trans [OF moves_trans [OF p1(2) q(2)] p2(2)] .
  have pad: "(if zero_flag d \<or> conv_of d = ConvHEX \<or> conv_of d = ConvPtr then 0x30 else 0x20) =
      (if conv_of d = ConvHEX \<or> conv_of d = ConvPtr then 0x30 else if zero_flag d then 0x30 else 0x20 :: u16)" by auto
  have "good I p2" using moves_good [OF m2] assms(1) by simp
  moreover have "(if zero_flag d then 0x30 else 0x20 :: u16) \<noteq> 0" by simp
  ultimately obtain p3 where p3: "item_loop dev sub p2 ?it 0 = Some p3" "produces dev I p2 (map Put (crlf t)) p3" "fmt_at dev I p3 cs"
      "gp_args (ps_args p3) = ds" "ps_Attr p3 = ps_Attr p2" "ps_RestoreAttr p3 = ps_RestoreAttr p2"
    using conv_loop [of p2 "conv_of d" cs ds a ?it v] moves_keeps(9,10) [OF m2] d(3,4) unfolding pad d(5) it not_not by blast
  then show ?thesis using p1(1) q(1) p2(1) moves_keeps(3,4) [OF m2] produces_trans [OF moves_produces [OF m2 assms(1)] p3(2)] by simp
qed

lemma tinted_loop:
  assumes "good I ps" "fmt_at dev I ps (enc_directive d @ cs)" "piece_ok (Directive d)" "tint d = Some c"
    "directive_text str lib d (gp_args (ps_args ps)) = Some (t, ds)"
  shows "\<exists>ps'. item_loop dev sub ps new_item 0 = Some ps' \<and> produces dev I ps (Paint (attr_for ps c) # map Put (crlf t)) ps' \<and> fmt_at dev I ps' cs \<and>
    gp_args (ps_args ps') = ds \<and> ps_Attr ps' = attr_for ps c \<and> ps_RestoreAttr ps' = ps_Attr ps"
proof -
  let ?p = "PSETATTR dev (attr_for ps c) (adv ps)"
  have f: "fmt_at dev I ps (c # enc_directive (d\<lparr>tint := None\<rparr>) @ cs)" using assms(2,4) by (simp add: enc_directive_def)
  have sw: "item_switch dev sub c (adv ps) new_item 0 = Some (?p, new_item, 0)" using assms(3,4) by (subst item_switch_tint) auto
  have "item_loop dev sub ps new_item 0 = item_loop dev sub ?p new_item 0"
    using item_loop_step [OF f assms(1) sw] by (simp add: new_item_def)
  moreover have g: "good I (adv ps)" using assms(1) by (simp add: good_def)
  have p: "produces dev I ps [Paint (attr_for ps c)] ?p"
    using produces_trans [OF moves_produces [OF moves_adv [OF f] assms(1)] attr_produces [OF g]] by simp
  have "fmt_at dev I ?p (enc_directive (d\<lparr>tint := None\<rparr>) @ cs)" using fmt_at_adv [OF f] fmt_at_cong [of ?p "adv ps"] by simp
  then obtain q where "item_loop dev sub ?p new_item 0 = Some q" "produces dev I ?p (map Put (crlf t)) q" "fmt_at dev I q cs"
      "gp_args (ps_args q) = ds" "ps_Attr q = ps_Attr ?p" "ps_RestoreAttr q = ps_RestoreAttr ?p"
    using directive_loop [OF produces_good [OF p], of d cs t ds] assms(3,5) by auto
  ultimately show ?thesis using produces_trans [OF p] by fastforce
qed

text \<open>One piece of the format.\<close>

definition print_steps :: "'c PRINT_STATE \<Rightarrow> u16 list \<Rightarrow> event list \<Rightarrow> u64 list \<Rightarrow> u64 \<Rightarrow> bool" where
  "print_steps ps cs es ds cur \<longleftrightarrow> (\<exists>ps'. print_loop dev sub ps = print_loop dev sub ps' \<and> produces dev I ps es ps' \<and> fmt_at dev I ps' cs \<and>
     gp_args (ps_args ps') = ds \<and> ps_Attr ps' = cur)"

lemma print_plain:
  assumes "good I ps" "fmt_at dev I ps (c # cs)" "c \<noteq> 0" "c \<noteq> 0x25"
  shows "print_steps ps cs (map Put (crlf [c])) (gp_args (ps_args ps)) (ps_Attr ps)"
proof -
  let ?p = "PPUTC dev c (adv ps)"
  have g: "good I (adv ps)" using assms(1) by (simp add: good_def)
  have "print_loop dev sub ps = print_loop dev sub ?p" using assms(3,4) fmt_getc_eq [OF assms(2,1)] by (subst print_loop.simps) simp
  moreover have "produces dev I ps (map Put (crlf [c])) ?p"
    using produces_trans [OF moves_produces [OF moves_adv [OF assms(2)] assms(1)] putc_produces [OF g assms(3)]] by simp
  moreover have "fmt_at dev I ?p cs" using fmt_at_adv [OF assms(2)] fmt_at_cong [of ?p "adv ps"] by simp
  ultimately show ?thesis unfolding print_steps_def by (intro exI [of _ ?p]) simp
qed

text \<open>The state in which a directive starts.\<close>

lemma directive_start:
  assumes "good I ps" "fmt_at dev I ps (0x25 # cs)"
  shows "good I ((adv ps)\<lparr>ps_RestoreAttr := 0\<rparr>)" "fmt_at dev I ((adv ps)\<lparr>ps_RestoreAttr := 0\<rparr>) cs"
    "produces dev I ps [] ((adv ps)\<lparr>ps_RestoreAttr := 0\<rparr>)"
    "print_loop dev sub ps =
       do { p \<leftarrow> item_loop dev sub ((adv ps)\<lparr>ps_RestoreAttr := 0\<rparr>) new_item 0;
            print_loop dev sub (if ps_RestoreAttr p \<noteq> 0 then PSETATTR dev (ps_RestoreAttr p) p else p) }"
  using assms fmt_at_adv [OF assms(2)] fmt_at_cong [of "(adv ps)\<lparr>ps_RestoreAttr := 0\<rparr>" "adv ps"] fmt_getc_eq [OF assms(2,1)]
  by (simp_all add: good_def produces_refl print_loop.simps [of dev sub ps])

lemma print_colour:
  assumes "good I ps" "fmt_at dev I ps (0x25 # c # cs)" "c \<in> {0x4E, 0x48, 0x45}" "attr_for ps c \<noteq> 0"
  shows "print_steps ps cs [Paint (attr_for ps c)] (gp_args (ps_args ps)) (attr_for ps c)"
proof -
  let ?q = "(adv ps)\<lparr>ps_RestoreAttr := 0\<rparr>" and ?a = "attr_for ps c"
  let ?p = "(PSETATTR dev ?a (adv ?q))\<lparr>ps_RestoreAttr := 0\<rparr>"
  note q = directive_start [OF assms(1,2)]
  have g: "good I (adv ?q)" using assms(1) by (simp add: good_def)
  have "item_switch dev sub c (adv ?q) new_item 0 = Some (adv ?q, new_item, ?a)" using assms(3) by (simp only: item_switch_colour attr_for_adv)
  then have "item_loop dev sub ?q new_item 0 = Some ?p"
    using fmt_getc_eq [OF q(2,1)] fmt_at_nonzero [OF q(2)] assms(4) by (subst item_loop.simps) (simp add: new_item_def)
  then have "print_loop dev sub ps = print_loop dev sub ?p" using q(4) by simp
  moreover have "produces dev I ps [] (adv ?q)" using assms(1) by (rule produces_refl) simp_all
  then have "produces dev I ps [Paint ?a] (PSETATTR dev ?a (adv ?q))" using produces_trans attr_produces [OF g] by fastforce
  then have "produces dev I ps [Paint ?a] ?p" using produces_trans [OF _ produces_refl [OF produces_good, of _ _ _ _ _ ?p]] by fastforce
  moreover have "fmt_at dev I ?p cs" using fmt_at_adv [OF q(2)] fmt_at_cong [of ?p "adv ?q"] by simp
  ultimately show ?thesis unfolding print_steps_def by (intro exI [of _ ?p]) (simp add: adv_def)
qed

lemma print_directive:
  assumes "good I ps" "fmt_at dev I ps (0x25 # enc_directive d @ cs)" "piece_ok (Directive d)"
    "directive_text str lib d (gp_args (ps_args ps)) = Some (t, ds)" "tint d = None"
  shows "print_steps ps cs (map Put (crlf t)) ds (ps_Attr ps)"
proof -
  note q = directive_start [OF assms(1,2)]
  let ?q = "(adv ps)\<lparr>ps_RestoreAttr := 0\<rparr>"
  have "d\<lparr>tint := None\<rparr> = d" using assms(5) by simp
  then obtain p where p: "item_loop dev sub ?q new_item 0 = Some p" "produces dev I ?q (map Put (crlf t)) p" "fmt_at dev I p cs"
      "gp_args (ps_args p) = ds" "ps_Attr p = ps_Attr ?q" "ps_RestoreAttr p = ps_RestoreAttr ?q"
    using directive_loop [OF q(1), of d cs t ds] q(2) assms(3,4) by auto
  then show ?thesis using q(4) produces_trans [OF q(3) p(2)] unfolding print_steps_def by (intro exI [of _ p]) simp
qed

lemma print_tinted:
  assumes "good I ps" "fmt_at dev I ps (0x25 # enc_directive d @ cs)" "piece_ok (Directive d)"
    "directive_text str lib d (gp_args (ps_args ps)) = Some (t, ds)" "tint d = Some c"
  shows "print_steps ps cs (Paint (attr_for ps c) # map Put (crlf t) @ (if ps_Attr ps \<noteq> 0 then [Paint (ps_Attr ps)] else [])) ds
    (if ps_Attr ps \<noteq> 0 then ps_Attr ps else attr_for ps c)"
proof -
  note q = directive_start [OF assms(1,2)]
  let ?q = "(adv ps)\<lparr>ps_RestoreAttr := 0\<rparr>" and ?es = "Paint (attr_for ps c) # map Put (crlf t)"
  obtain p where p: "item_loop dev sub ?q new_item 0 = Some p" "produces dev I ?q ?es p" "fmt_at dev I p cs"
      "gp_args (ps_args p) = ds" "ps_Attr p = attr_for ps c" "ps_RestoreAttr p = ps_Attr ps"
    using tinted_loop [OF q(1,2) assms(3,5), of t ds] assms(4) by auto
  have pr: "produces dev I ps ?es p" using produces_trans [OF q(3) p(2)] by simp
  show ?thesis
  proof (cases "ps_Attr ps = 0")
    case True
    then show ?thesis using q(4) p pr unfolding print_steps_def by (intro exI [of _ p]) simp
  next
    case False
    let ?r = "PSETATTR dev (ps_Attr ps) p"
    have "produces dev I ps (?es @ [Paint (ps_Attr ps)]) ?r" using produces_trans [OF pr attr_produces [OF produces_good [OF pr]]] .
    moreover have "fmt_at dev I ?r cs" using p(3) fmt_at_cong [of ?r p] by simp
    ultimately show ?thesis using False q(4) p unfolding print_steps_def by (intro exI [of _ ?r]) simp
  qed
qed

lemma print_piece:
  assumes "good I ps" "fmt_at dev I ps (enc_piece pc @ cs)" "piece_ok pc" "\<forall>c. pc = Colour c \<longrightarrow> attr_for ps c \<noteq> 0"
    "piece_meaning str lib (attr_for ps) pc (gp_args (ps_args ps)) (ps_Attr ps) = Some (es, ds, cur)"
  shows "print_steps ps cs es ds cur"
  using assms print_plain [OF assms(1)] print_colour [OF assms(1)] print_directive [OF assms(1)] print_tinted [OF assms(1)]
  by (cases pc) (auto split: bind_splits option.splits)

lemma print_loop_meaning:
  assumes "good I ps" "fmt_at dev I ps (enc_format pcs)" "list_all piece_ok pcs" "\<forall>c. Colour c \<in> set pcs \<longrightarrow> attr_for ps c \<noteq> 0"
    "meaning str lib (attr_for ps) pcs (gp_args (ps_args ps)) (ps_Attr ps) = Some es"
  shows "\<exists>ps'. print_loop dev sub ps = Some ps' \<and> produces dev I ps es ps'"
  using assms
proof (induction pcs arbitrary: ps es)
  case Nil
  then have "print_loop dev sub ps = Some (adv ps)" using fmt_getc_eq [of dev I ps "[]"] by (subst print_loop.simps) (simp add: enc_format_def)
  then show ?case using Nil by (simp add: produces_refl)
next
  case (Cons pc pcs)
  obtain e1 ds cur e2 where m: "piece_meaning str lib (attr_for ps) pc (gp_args (ps_args ps)) (ps_Attr ps) = Some (e1, ds, cur)"
      "meaning str lib (attr_for ps) pcs ds cur = Some e2" "es = e1 @ e2"
    using Cons.prems(5) by (auto split: bind_splits)
  have "print_steps ps (enc_format pcs) e1 ds cur" using Cons.prems(2-4) by (intro print_piece [OF Cons.prems(1) _ _ _ m(1)]) (auto simp: enc_format_def)
  then obtain p where p: "print_loop dev sub ps = print_loop dev sub p" "produces dev I ps e1 p" "fmt_at dev I p (enc_format pcs)"
      "gp_args (ps_args p) = ds" "ps_Attr p = cur" by (auto simp: print_steps_def)
  have "\<exists>ps'. print_loop dev sub p = Some ps' \<and> produces dev I p e2 ps'"
    using Cons.prems(3,4) m(2) p(4,5) produces_attr_for [OF p(2)] by (intro Cons.IH [OF produces_good [OF p(2)] p(3)]) simp_all
  then show ?case using p(1,2) m(3) produces_trans by fastforce
qed

text \<open>The whole formatter: the calls to the device stand for the events of the format, and the last of them is output.\<close>

lemma Print_ps_meaning:
  assumes "I (ps_Context ps)" "reads dev I (ps_fmt ps) 0 (enc_format pcs)" "list_all piece_ok pcs" "\<forall>c. Colour c \<in> set pcs \<longrightarrow> attr_for ps c \<noteq> 0"
    "meaning str lib (attr_for ps) pcs (gp_args (ps_args ps)) (ps_Attr ps) = Some es"
  shows "\<exists>ps' cs t. Print_ps dev sub ps = Some (of_nat (puts es), ps') \<and> ps_Context ps' = fold (dev_chunk dev) (cs @ [Out t]) (ps_Context ps) \<and>
    events_of (cs @ [Out t]) = es \<and> list_all chunk_fits (cs @ [Out t])"
proof -
  let ?q = "ps\<lparr>ps_Len := 0, ps_Buffer := [], ps_fmt := (ps_fmt ps)\<lparr>Index := 0\<rparr>\<rparr>"
  have "good I ?q" "fmt_at dev I ?q (enc_format pcs)" using assms(1,2) by (simp_all add: good_def fmt_at_def PRINT_STRING_LEN_def)
  moreover have "attr_for ?q = attr_for ps" by (rule attr_for_cong) simp_all
  ultimately obtain p where p: "print_loop dev sub ?q = Some p" "produces dev I ?q es p"
    using print_loop_meaning [of ?q pcs es] assms(3,4,5) by auto
  obtain cs where cs: "ps_Context p = fold (dev_chunk dev) cs (ps_Context ps)" "events_of cs @ map Put (ps_Buffer p) = es" "ps_Len p = of_nat (puts es)" "0 \<notin> set (ps_Buffer p)"
      "list_all chunk_fits cs" "length (ps_Buffer p) < PRINT_STRING_LEN"
    using p(2) by (auto simp: produces_def good_def)
  have t: "takeWhile (\<lambda>c. c \<noteq> 0) (ps_Buffer p) = ps_Buffer p" using cs(4) by (intro takeWhile_eq_all_conv [THEN iffD2]) auto
  have "Print_ps dev sub ps = Some (of_nat (puts es), PFLUSH dev p)" using p(1) cs(3) by (simp add: Print_ps_def Let_def)
  moreover have "ps_Context (PFLUSH dev p) = fold (dev_chunk dev) (cs @ [Out (ps_Buffer p)]) (ps_Context ps)" unfolding PFLUSH_def t using cs(1) by simp
  moreover have "events_of (cs @ [Out (ps_Buffer p)]) = es" "list_all chunk_fits (cs @ [Out (ps_Buffer p)])" using cs(2,5,6) by simp_all
  ultimately show ?thesis by blast
qed

end

section \<open>Texts without a device\<close>

lemma collect_formatter: "formatter collect_dev (\<lambda>_. True) sub (\<lambda>_ _. None) (\<lambda>_ _. None)"
  by unfold_locales simp_all

interpretation collect: formatter collect_dev "\<lambda>_. True" "\<lambda>_ _ _ _. None" "\<lambda>_ _. None" "\<lambda>_ _. None"
  by (rule collect_formatter)

definition chars_of :: "event list \<Rightarrow> u16 list" where
  "chars_of es = concat (map (\<lambda>e. case e of Put c \<Rightarrow> [c] | Paint _ \<Rightarrow> []) es)"

lemma chars_of_simps [simp]: "chars_of [] = []" "chars_of (Put c # es) = c # chars_of es" "chars_of (Paint a # es) = chars_of es"
    "chars_of (es @ fs) = chars_of es @ chars_of fs" "chars_of (map Put t) = t" "chars_of (chunk_events (Out t)) = t" "chars_of (chunk_events (SetA a)) = []"
proof -
  show "chars_of (map Put t) = t" by (induction t) (simp_all add: chars_of_def)
  then show "chars_of (chunk_events (Out t)) = t" by simp
qed (simp_all add: chars_of_def)

lemma puts_chars_of: "puts es = length (chars_of es)"
proof (induction es)
  case (Cons e es)
  then show ?case by (cases e) simp_all
qed simp

lemma zero_ps_simps [simp]: "ps_fmt (zero_ps p va c) = p" "ps_args (zero_ps p va c) = va" "ps_Attr (zero_ps p va c) = 0" "ps_Context (zero_ps p va c) = c"
    "attr_for (zero_ps p va c) = (\<lambda>_. 0)"
  by (simp_all add: zero_ps_def attr_for_def fun_eq_iff)

lemma fold_collect: "fold (dev_chunk collect_dev) cs (t, m) = (t @ chars_of (events_of cs), m)"
proof (induction cs arbitrary: t)
  case (Cons c cs)
  then show ?case by (cases c) (simp_all add: collect_dev_def)
qed simp

lemma SPrint_text_meaning:
  assumes "wlit s = enc_format pcs" "list_all piece_ok pcs" "\<forall>c. Colour c \<notin> set pcs" "length s < 2 ^ 63" "0 \<notin> set (wlit s)"
    "meaning (\<lambda>_ _. None) (\<lambda>_ _. None) (\<lambda>_. 0) pcs as 0 = Some es"
  shows "SPrint_text m s as = Some (chars_of es)"
proof -
  let ?ps = "zero_ps (literal_fmt s) \<lparr>gp_args = as, fp_args = []\<rparr> ([], m)"
  have len: "length (enc_format pcs) < 2 ^ 63" using assms(4) unfolding assms(1) [symmetric] by (simp add: wlit_def)
  have "reads collect_dev (\<lambda>_. True) (ps_fmt ?ps) 0 (enc_format pcs)"
    using chars_read [of "enc_format pcs" collect_dev "\<lambda>_. True" "ps_fmt ?ps"] len assms(5) by (simp add: literal_fmt_def assms(1))
  then obtain p cs t where "Print_ps collect_dev (\<lambda>_ _ _ _. None) ?ps = Some (of_nat (puts es), p)"
      "ps_Context p = fold (dev_chunk collect_dev) (cs @ [Out t]) ([], m)" "events_of (cs @ [Out t]) = es"
    using collect.Print_ps_meaning [of ?ps pcs es] assms(2,3,6) by auto
  then show ?thesis unfolding SPrint_text_def fold_collect by (auto simp del: append_assoc)
qed

end
