(* ===== verification/Efi_Sprint.thy ===== *)
theory Efi_Sprint
  imports Efi_Render
begin

text \<open>
  The formatter on its two kinds of device: \<^verbatim>\<open>UnicodeSPrint\<close> fills a buffer in memory with as much of the text as it has room for, and \<^verbatim>\<open>Print\<close> sends the
  text and the attribute changes to the console.
\<close>

section \<open>The buffer\<close>

lemma wide_simps [simp]: "wide [] = []" "wide (s @ t) = wide s @ wide t" "length (wide t) = 2 * length t"
  by (induction t) (simp_all add: wide_def)

lemma wide_Cons: "wide (c # t) = le_bytes 2 c @ wide t"
  by (simp add: wide_def)

lemma terminated_write:
  "write16 (write_bytes m (a + 2 * of_nat n) (wide t)) (a + 2 * of_nat (n + length t)) 0 = write_bytes m (a + 2 * of_nat n) (wide (t @ [0]))"
proof -
  have "a + 2 * of_nat (n + length t) = a + 2 * of_nat n + of_nat (length (wide t))" by (simp add: algebra_simps)
  then show ?thesis unfolding wide_simps(2) write_bytes_append by (simp only: write16_def wide_Cons wide_simps append_Nil2)
qed

text \<open>One call of \<^verbatim>\<open>_SPrint\<close>: the part of the text that fits is stored, and a NUL after it.\<close>

lemma SPrint_out_at:
  assumes "n \<le> unat mx" "mx \<noteq> 0" "unat mx < 2 ^ 63" "length t < 2 ^ 63"
  shows "SPrint_out (\<lparr>pp_str = a, pp_len = of_nat n, pp_maxlen = mx\<rparr>, w) t =
    (\<lparr>pp_str = a, pp_len = of_nat (min (n + length t) (unat mx)), pp_maxlen = mx\<rparr>,
     w\<lparr>mem := write_bytes (mem w) (a + 2 * of_nat n) (wide (take (unat mx - n) t @ [0]))\<rparr>)"
proof -
  have u: "unat (of_nat n + of_nat (length t) :: u64) = n + length t" using assms by (simp add: unat_of_nat_u64 flip: of_nat_add)
  show ?thesis
  proof (cases "n + length t > unat mx")
    case True
    have l: "mx - of_nat n = (of_nat (unat mx - n) :: u64)" using assms(1) by (simp add: of_nat_diff)
    then have s: "of_nat n + (of_nat (unat mx - n) :: u64) = mx" by (metis add.commute diff_add_cancel)
    have "unat (of_nat (unat mx - n) :: u64) = unat mx - n" using assms(3) by (intro unat_of_nat_u64) simp
    moreover have "of_nat (n + length (take (unat mx - n) t)) = mx" using True assms(1) by simp
    ultimately show ?thesis using True assms(2) terminated_write [of "mem w" a n "take (unat mx - n) t"]
      by (simp add: SPrint_out_def Let_def word_less_nat_alt u l s)
  next
    case False
    have len: "unat (of_nat (length t) :: u64) = length t" using assms(4) by (simp add: unat_of_nat_u64)
    have tw: "write16 (write_bytes (mem w) (a + 2 * of_nat n) (wide t)) (a + 2 * (of_nat n + of_nat (length t))) 0 = write_bytes (mem w) (a + 2 * of_nat n) (wide (t @ [0]))"
      using terminated_write [of "mem w" a n t] by (simp only: of_nat_add)
    have out: "take (unat mx - n) t = t" "min (n + length t) (unat mx) = n + length t" "\<not> of_nat n + of_nat (length t) > mx"
      using False u assms(1) by (simp_all add: word_less_nat_alt)
    show ?thesis
    proof (cases "n + length t = unat mx")
      case True
      then have "of_nat n + of_nat (length t) = mx" by (metis of_nat_add of_nat_unat_u64)
      then show ?thesis using tw out assms(2) len by (simp add: SPrint_out_def Let_def del: wide_simps)
    next
      case False
      then have "of_nat n + of_nat (length t) < mx" using out u by (simp add: word_less_nat_alt)
      then show ?thesis using tw out len by (simp add: SPrint_out_def Let_def del: wide_simps)
    qed
  qed
qed

text \<open>The buffer after the text \<open>t\<close> has been printed to it, and the states while printing: nothing is stored before the first call.\<close>

definition printed :: "addr \<Rightarrow> u64 \<Rightarrow> 'f world \<Rightarrow> u16 list \<Rightarrow> POOL_PRINT \<times> 'f world" where
  "printed a mx w t =
     (\<lparr>pp_str = a, pp_len = of_nat (min (length t) (unat mx)), pp_maxlen = mx\<rparr>, w\<lparr>mem := write_bytes (mem w) a (wide (take (unat mx) t @ [0]))\<rparr>)"

definition printing :: "addr \<Rightarrow> u64 \<Rightarrow> 'f world \<Rightarrow> u16 list \<Rightarrow> POOL_PRINT \<times> 'f world \<Rightarrow> bool" where
  "printing a mx w t ctx \<longleftrightarrow> ctx = printed a mx w t \<or> t = [] \<and> ctx = (\<lparr>pp_str = a, pp_len = 0, pp_maxlen = mx\<rparr>, w)"

lemma printing_out:
  assumes "printing a mx w s ctx" "mx \<noteq> 0" "unat mx < 2 ^ 62" "length t < PRINT_STRING_LEN"
  shows "SPrint_out ctx t = printed a mx w (s @ t)"
proof -
  let ?n = "min (length s) (unat mx)" and ?s = "take (unat mx) s"
  have t: "length t < 2 ^ 63" "unat mx < 2 ^ 63" using assms(3,4) by (simp_all add: PRINT_STRING_LEN_def)
  show ?thesis
  proof (cases "ctx = printed a mx w s")
    case True
    let ?t = "take (unat mx - ?n) t"
    have a: "a + 2 * of_nat ?n = a + of_nat (length (wide ?s))" by (simp add: min.commute)
    have le: "length (wide [0 :: u16]) \<le> length (wide (?t @ [0]))" "length (wide (?t @ [0])) \<le> 2 ^ 64" using t by simp_all
    have "write_bytes (write_bytes (mem w) a (wide (?s @ [0]))) (a + 2 * of_nat ?n) (wide (?t @ [0])) = write_bytes (mem w) a (wide (?s @ ?t @ [0]))"
      unfolding a wide_simps(2) [of ?s] write_bytes_append write_bytes_overwrite [OF le] by (rule refl)
    moreover have "take (unat mx) (s @ t) = ?s @ ?t" by (simp add: min_def)
    moreover have "min (?n + length t) (unat mx) = min (length (s @ t)) (unat mx)" by simp
    ultimately show ?thesis using True SPrint_out_at [of ?n mx t a "snd ctx"] assms(2) t by (simp add: printed_def)
  next
    case False
    then show ?thesis using assms(1,2) t SPrint_out_at [of 0 mx t a w] by (simp add: printing_def printed_def)
  qed
qed

lemma printing_fold:
  assumes "printing a mx w s ctx" "mx \<noteq> 0" "unat mx < 2 ^ 62" "list_all chunk_fits cs"
  shows "printing a mx w (s @ chars_of (events_of cs)) (fold (dev_chunk sprint_dev) cs ctx)"
  using assms(1,4)
proof (induction cs arbitrary: s ctx)
  case (Cons c cs)
  show ?case
  proof (cases c)
    case (Out t)
    then have "printing a mx w (s @ t) (dev_chunk sprint_dev c ctx)" using Cons.prems printing_out [OF Cons.prems(1) assms(2,3), of t] by (simp add: sprint_dev_def printing_def)
    then show ?thesis using Cons.IH [of "s @ t"] Cons.prems(2) Out by simp
  next
    case (SetA x)
    then show ?thesis using Cons.IH [of s ctx] Cons.prems by (simp add: sprint_dev_def)
  qed
qed simp

text \<open>What the buffer does not hold stays readable.\<close>

lemma printing_outside:
  assumes "printing a mx w s ctx" "\<not> in_range a (2 * (unat mx + 1)) x" "unat mx < 2 ^ 62"
  shows "mem (snd ctx) x = mem w x"
proof -
  have "length (wide (take (unat mx) s @ [0])) \<le> 2 * (unat mx + 1)" by simp
  then show ?thesis using assms by (auto simp: printing_def printed_def write_bytes_apply in_range_def)
qed

section \<open>Texts in memory\<close>

text \<open>A NUL-terminated text of narrow or wide characters, as an argument of \<^verbatim>\<open>%a\<close> or \<^verbatim>\<open>%s\<close> or as the format.\<close>

definition text_at :: "memory \<Rightarrow> bool \<Rightarrow> addr \<Rightarrow> u16 list \<Rightarrow> bool" where
  "text_at m asc a t \<longleftrightarrow> 0 \<notin> set t \<and> length t < 2 ^ 62 \<and> (\<forall>k \<le> length t. char_at_ptr m \<lparr>Ascii = asc, Index = 0, un = Memory a\<rparr> (of_nat k) = (t @ [0]) ! k)"

lemma text_atI:
  assumes "list_all (\<lambda>k. char_at_ptr m \<lparr>Ascii = asc, Index = 0, un = Memory a\<rparr> (of_nat k) = (t @ [0]) ! k) [0..<Suc (length t)]" "0 \<notin> set t" "length t < 100"
  shows "text_at m asc a t"
  using assms by (auto simp: text_at_def list_all_iff)

definition text_size :: "bool \<Rightarrow> u16 list \<Rightarrow> nat" where
  "text_size asc t = (if asc then 1 else 2) * (length t + 1)"

text \<open>The text is in memory, and not in the \<open>n\<close> bytes at \<open>b\<close>.\<close>

definition text_beside :: "memory \<Rightarrow> addr \<Rightarrow> nat \<Rightarrow> bool \<Rightarrow> addr \<Rightarrow> u16 list \<Rightarrow> bool" where
  "text_beside m b n asc a t \<longleftrightarrow> text_at m asc a t \<and> no_overlap b n a (text_size asc t)"

lemma char_at_ptr_frame:
  assumes "k \<le> length t" "length t < 2 ^ 62" "\<And>x. in_range a (text_size asc t) x \<Longrightarrow> m' x = m x"
  shows "char_at_ptr m' \<lparr>Ascii = asc, Index = 0, un = Memory a\<rparr> (of_nat k) = char_at_ptr m \<lparr>Ascii = asc, Index = 0, un = Memory a\<rparr> (of_nat k)"
proof (cases asc)
  case True
  have "in_range a (text_size asc t) (a + of_nat k)" using assms(1,2) True by (simp add: in_range_def text_size_def unat_of_nat_u64)
  then show ?thesis using True assms(3) by (simp add: char_at_ptr_def)
next
  case False
  have "m' x = m x" if "in_range (a + 2 * of_nat k) 2 x" for x
  proof -
    have "in_range (a + of_nat (2 * k)) 2 x" using that by simp
    then have "in_range a (text_size asc t) x" using in_range_sub [of a "2 * k" 2 x "text_size asc t"] assms(1,2) False by (auto simp: text_size_def)
    then show ?thesis by (rule assms(3))
  qed
  then have "read_bytes m' (a + 2 * of_nat k) 2 = read_bytes m (a + 2 * of_nat k) 2" by (intro read_bytes_frame) simp_all
  then show ?thesis using False by (simp add: char_at_ptr_def wchr_def read16_def)
qed

lemma text_reads:
  assumes "text_at m asc a t" "\<And>c x. I c \<Longrightarrow> in_range a (text_size asc t) x \<Longrightarrow> dev_mem dev c x = m x"
  shows "reads dev I \<lparr>Ascii = asc, Index = 0, un = Memory a\<rparr> 0 t"
proof -
  have "char_at_ptr (dev_mem dev c) \<lparr>Ascii = asc, Index = 0, un = Memory a\<rparr> (of_nat k) =
      char_at_ptr m \<lparr>Ascii = asc, Index = 0, un = Memory a\<rparr> (of_nat k)" if "I c" "k \<le> length t" for c k
    using that assms by (intro char_at_ptr_frame [of k t]) (auto simp: text_at_def)
  then show ?thesis using assms(1) by (auto simp: reads_def text_at_def)
qed

lemma text_beside_reads:
  assumes "text_beside (mem w) b n asc a t" "\<And>c x. I c \<Longrightarrow> \<not> in_range b n x \<Longrightarrow> dev_mem dev c x = mem w x"
  shows "reads dev I \<lparr>Ascii = asc, Index = 0, un = Memory a\<rparr> 0 t"
  using assms unfolding text_beside_def no_overlap_def by (intro text_reads [of "mem w"]) blast+

section \<open>Status codes\<close>

text \<open>The text of a status: its description, or the low 32 bits in hexadecimal for a code that is not in the table.\<close>

definition status_text :: "status \<Rightarrow> u16 list" where
  "status_text st = (case map_of ErrorCodeTable st of Some d \<Rightarrow> wlit d | None \<Rightarrow> in_field 8 (- 1) 0x30 False (hex_text (unat (ucast st :: u32))))"

lemma hex_wchar_no_newline: "d < 16 \<Longrightarrow> hex_wchar d \<noteq> 0x0A"
proof -
  have "list_all (\<lambda>d. hex_wchar d \<noteq> 0x0A) [0..<16]" by (simp add: upt_rec hex_wchar_def Hex_def)
  then show "d < 16 \<Longrightarrow> hex_wchar d \<noteq> 0x0A" by (simp add: list_all_iff)
qed

lemma crlf_id: "0x0A \<notin> set t \<Longrightarrow> crlf t = t"
  by (induction t) (auto simp: crlf_def)

lemma set_in_field: "set (in_field w fld pad left t) \<subseteq> {pad, 0x20} \<union> set t"
  by (auto simp: in_field_def Let_def dest: in_set_takeD split: if_splits)

lemma length_in_field: "length (in_field w (- 1) pad left t) \<le> w + length t"
  by (auto simp: in_field_def Let_def)

lemma ErrorCodeTable_texts: "list_all (\<lambda>(_, d). 0 \<notin> set (wlit d) \<and> length d < 100) ErrorCodeTable"
  by code_simp

lemma status_text_string: "0 \<notin> set (status_text st) \<and> length (status_text st) < 2 ^ 62"
proof (cases "map_of ErrorCodeTable st")
  case None
  let ?t = "hex_text (unat (ucast st :: u32))"
  have u: "unat (ucast st :: u32) < 2 ^ 32" using unsigned_less [of "ucast st :: u32", where ?'a = nat] by simp
  then have "0 \<notin> set ?t" using hex_text_string [of "unat (ucast st :: u32)"] by simp
  then have "0 \<notin> set (in_field 8 (- 1) 0x30 False ?t)" using set_in_field [of 8 "- 1" "0x30" False ?t] by auto
  moreover have "unat (ucast st :: u32) < 16 ^ Suc 7" using u by simp
  then have "length ?t \<le> 8" using length_to_base [of 16 "unat (ucast st :: u32)" 7] by (simp add: hex_text_def)
  then have "length (in_field 8 (- 1) 0x30 False ?t) < 2 ^ 62" using length_in_field [of 8 "0x30" False ?t] by simp
  ultimately show ?thesis using None by (simp add: status_text_def)
next
  case (Some d)
  then have "(st, d) \<in> set ErrorCodeTable" by (rule map_of_SomeD)
  then show ?thesis using ErrorCodeTable_texts Some by (auto simp: list_all_iff status_text_def wlit_def)
qed

lemma StatusToString_text: "StatusToString m st = Some (status_text st)"
proof (cases "map_of ErrorCodeTable st")
  case None
  let ?d = "\<lparr>tint = None, left_flag = False, zero_flag = False, comma_flag = False, long_flag = False, width = None, field_width = None, conv_of = ConvHEX\<rparr>"
  let ?t = "in_field 8 (- 1) 0x30 False (hex_text (unat (ucast st :: u32)))"
  have "0x0A \<notin> set (hex_text (unat (ucast st :: u32)))"
    using hex_wchar_no_newline to_base_digits [of 16 "unat (ucast st :: u32)"] by (force simp: hex_text_def)
  then have "crlf ?t = ?t" using set_in_field [of 8 "- 1" "0x30" False "hex_text (unat (ucast st :: u32))"] by (intro crlf_id) auto
  then have "SPrint_text m ''%X'' [st] = Some (chars_of (map Put ?t))"
    by (intro SPrint_text_meaning [of _ "[Directive ?d]"]) (simp_all add: wlit_def enc_format_def enc_directive_def num_ok_def directive_text_def Let_def)
  then show ?thesis using None by (simp add: StatusToString_def status_text_def)
qed (simp add: StatusToString_def status_text_def)

section \<open>GUIDs\<close>

text \<open>Hexadecimal numbers with leading zeros, the directive \<^verbatim>\<open>%0kx\<close>.\<close>

definition padded_hex :: "nat \<Rightarrow> nat \<Rightarrow> u16 list" where
  "padded_hex k v = in_field k (- 1) 0x30 False (hex_text v)"

definition padded_directive :: "nat \<Rightarrow> directive" where
  "padded_directive k = \<lparr>tint = None, left_flag = False, zero_flag = True, comma_flag = False, long_flag = False, width = Some (Num k), field_width = None, conv_of = ConvHex\<rparr>"

lemma hex_text_u32: "0 \<notin> set (hex_text (unat (v :: u32))) \<and> 0x0A \<notin> set (hex_text (unat v)) \<and> length (hex_text (unat v)) \<le> 8"
proof -
  have u: "unat v < 2 ^ 32" using unsigned_less [of v, where ?'a = nat] by simp
  then have "length (hex_text (unat v)) \<le> 8" using length_to_base [of 16 "unat v" 7] by (simp add: hex_text_def)
  moreover have "0x0A \<notin> set (hex_text (unat v))" using hex_wchar_no_newline to_base_digits [of 16 "unat v"] by (force simp: hex_text_def)
  ultimately show ?thesis using hex_text_string [of "unat v"] u by simp
qed

lemma padded_hex_string: "0 \<notin> set (padded_hex k (unat (v :: u32))) \<and> crlf (padded_hex k (unat v)) = padded_hex k (unat v) \<and> length (padded_hex k (unat v)) \<le> k + 8"
proof -
  have s: "set (padded_hex k (unat v)) \<subseteq> {0x30, 0x20} \<union> set (hex_text (unat v))" unfolding padded_hex_def by (rule set_in_field)
  then have "0x0A \<notin> set (padded_hex k (unat v))" using hex_text_u32 [of v] by auto
  moreover have "0 \<notin> set (padded_hex k (unat v))" using s hex_text_u32 [of v] by auto
  moreover have "length (padded_hex k (unat v)) \<le> k + 8"
    unfolding padded_hex_def using length_in_field [of k "0x30" False "hex_text (unat v)"] hex_text_u32 [of v] by linarith
  ultimately show ?thesis by (simp add: crlf_id)
qed

lemma padded_directive_text:
  "directive_text str lib (padded_directive k) (a # as) = Some (padded_hex (unat (of_nat k :: u64)) (unat (ucast a :: u32)), as)"
  "tint (padded_directive k) = None"
  by (simp_all add: padded_directive_def directive_text_def padded_hex_def)

lemma padded_piece_ok: "0 < k \<Longrightarrow> k < 2 ^ 64 \<Longrightarrow> piece_ok (Directive (padded_directive k))"
  by (simp add: padded_directive_def num_ok_def)

text \<open>A format without directives.\<close>

lemma plain_meaning: "meaning str lib f (map Plain t) as c = Some (map Put (crlf t))"
  by (induction t) (simp_all add: crlf_Cons [of _ "_ # _"], simp_all add: crlf_def)

lemma plain_format: "enc_format (map Plain t) = t"
  by (induction t) (simp_all add: enc_format_def)

lemma SPrint_text_plain:
  assumes "0 \<notin> set (wlit s)" "0x25 \<notin> set (wlit s)" "length s < 2 ^ 63"
  shows "SPrint_text m s as = Some (crlf (wlit s))"
proof -
  have "SPrint_text m s as = Some (chars_of (map Put (crlf (wlit s))))"
    by (rule SPrint_text_meaning [of s "map Plain (wlit s)"]) (use assms in \<open>auto simp: plain_format plain_meaning list_all_iff\<close>)
  then show ?thesis by simp
qed

definition guid_text :: "memory \<Rightarrow> addr \<Rightarrow> u16 list" where
  "guid_text m a =
     (case find (\<lambda>(g, _). guid_is m a g) KnownGuids of
        Some (_, n) \<Rightarrow> wlit n
      | None \<Rightarrow> padded_hex 8 (unat (read32 m a)) @ [0x2D] @ padded_hex 4 (unat (read16 m (a + 4))) @ [0x2D] @ padded_hex 4 (unat (read16 m (a + 6))) @ [0x2D] @
          concat (map (\<lambda>k. padded_hex 2 (unat (m (a + 8 + of_nat k)))) [0..<2]) @ [0x2D] @
          concat (map (\<lambda>k. padded_hex 2 (unat (m (a + 8 + of_nat k)))) [2..<8]))"

lemma KnownGuids_names: "list_all (\<lambda>(_, n). 0 \<notin> set (wlit n) \<and> 0x25 \<notin> set (wlit n) \<and> 0x0A \<notin> set (wlit n) \<and> length n < 100) KnownGuids"
  by code_simp

lemma ucast_u32: "(ucast (ucast (a :: u8) :: u64) :: u32) = ucast a" "(ucast (ucast (b :: u16) :: u64) :: u32) = ucast b" "(ucast (ucast (c :: u32) :: u64) :: u32) = c"
  by (rule bit_word_eqI; auto simp: bit_simps dest: bit_imp_le_length)+

lemma unat_ucast_u32: "unat (ucast (a :: u8) :: u32) = unat a" "unat (ucast (b :: u16) :: u32) = unat b"
  by (simp_all add: unat_ucast_up)

lemma padded_hex_small:
  "crlf (padded_hex k (unat (a :: u8))) = padded_hex k (unat a)" "crlf (padded_hex k (unat (b :: u16))) = padded_hex k (unat b)"
  using padded_hex_string [of k "ucast a"] padded_hex_string [of k "ucast b"] by (simp_all add: unat_ucast_u32)

lemma find_in_set: "find P xs = Some x \<Longrightarrow> x \<in> set xs"
  by (auto simp: find_Some_iff)

definition guid_format :: "piece list" where
  "guid_format = (let d = \<lambda>k. Directive (padded_directive k) in
     [d 8, Plain 0x2D, d 4, Plain 0x2D, d 4, Plain 0x2D, d 2, d 2, Plain 0x2D, d 2, d 2, d 2, d 2, d 2, d 2])"

lemma GuidToString_text: "GuidToString m a = Some (guid_text m a)"
proof (cases "find (\<lambda>(g, _). guid_is m a g) KnownGuids")
  case None
  let ?as = "[ucast (read32 m a), ucast (read16 m (a + 4)), ucast (read16 m (a + 6))] @ map ucast (read_bytes m (a + 8) 8) :: u64 list"
  have enc: "wlit ''%08x-%04x-%04x-%02x%02x-%02x%02x%02x%02x%02x%02x'' = enc_format guid_format"
    by (simp add: guid_format_def enc_format_def padded_directive_def enc_directive_def wlit_def to_base.simps dec_wchar_def Let_def)
  have bytes: "read_bytes m (a + 8) 8 = map (\<lambda>k. m (a + 8 + of_nat k)) [0..<8]" by (rule nth_equalityI) (simp_all add: nth_read_bytes)
  have mean: "meaning (\<lambda>_ _. None) (\<lambda>_ _. None) (\<lambda>_. 0) guid_format ?as 0 = Some (map Put (guid_text m a))"
    unfolding guid_format_def Let_def bytes guid_text_def None
    by (simp add: padded_directive_text ucast_u32 unat_ucast_u32 padded_hex_string [THEN conjunct2, THEN conjunct1] padded_hex_small upt_rec crlf_id)
  have "SPrint_text m ''%08x-%04x-%04x-%02x%02x-%02x%02x%02x%02x%02x%02x'' ?as = Some (chars_of (map Put (guid_text m a)))"
    by (rule SPrint_text_meaning [OF enc _ _ _ _ mean])
      (simp_all add: guid_format_def padded_directive_def num_ok_def Let_def wlit_def)
  then show ?thesis using None by (simp add: GuidToString_def)
next
  case (Some r)
  obtain g n where r: "r = (g, n)" by fastforce
  then have "(g, n) \<in> set KnownGuids" using find_in_set [OF Some] by simp
  then have "0 \<notin> set (wlit n) \<and> 0x25 \<notin> set (wlit n) \<and> 0x0A \<notin> set (wlit n) \<and> length n < 100" using KnownGuids_names by (auto simp: list_all_iff)
  then show ?thesis using Some r SPrint_text_plain [of n m "[]"] by (simp add: GuidToString_def guid_text_def crlf_id)
qed

lemma guid_text_string: "0 \<notin> set (guid_text m a) \<and> length (guid_text m a) < 2 ^ 62"
proof (cases "find (\<lambda>(g, _). guid_is m a g) KnownGuids")
  case None
  have h: "0 \<notin> set (padded_hex k (unat (ucast (b :: u8) :: u32)))" "length (padded_hex k (unat (ucast b :: u32))) \<le> k + 8" for k b
    using padded_hex_string by blast+
  have h': "0 \<notin> set (padded_hex k (unat (ucast (c :: u16) :: u32)))" "length (padded_hex k (unat (ucast c :: u32))) \<le> k + 8" for k c
    using padded_hex_string by blast+
  note b = h [unfolded unat_ucast_u32] h' [unfolded unat_ucast_u32] padded_hex_string [of 8 "read32 m a"]
  have "length (concat (map (\<lambda>k. padded_hex 2 (unat (m (a + 8 + of_nat k)))) ks)) \<le> 10 * length ks" for ks
  proof (induction ks)
    case (Cons k ks)
    then show ?case using b(2) [of 2 "m (a + 8 + of_nat k)"] by simp
  qed simp
  from this [of "[0..<2]"] this [of "[2..<8]"] have "length (guid_text m a) \<le> 200"
    using b(4) [of 4 "read16 m (a + 4)"] b(4) [of 4 "read16 m (a + 6)"] padded_hex_string [of 8 "read32 m a"] by (simp add: guid_text_def None)
  then show ?thesis using b by (simp add: guid_text_def None upt_rec)
next
  case (Some r)
  obtain g n where r: "r = (g, n)" by fastforce
  then have "(g, n) \<in> set KnownGuids" using find_in_set [OF Some] by simp
  then have "0 \<notin> set (wlit n) \<and> length n < 100" using KnownGuids_names by (auto simp: list_all_iff)
  then show ?thesis using Some r by (simp add: guid_text_def wlit_def)
qed

definition std_lib :: "u16 \<Rightarrow> u64 \<Rightarrow> u16 list option" where
  "std_lib c a = (if c = 0x72 then Some (status_text a) else None)"

lemma std_lib_sub: "std_lib c a = Some t \<Longrightarrow> std_sub dp fs mo c comma a ctx = Some (t, ctx)"
  by (simp add: std_lib_def std_sub_def StatusToString_text split: if_splits)

lemma std_lib_text: "std_lib c a = Some t \<Longrightarrow> 0 \<notin> set t \<and> length t < 2 ^ 63"
  using status_text_string [of a] by (auto simp: std_lib_def split: if_splits)

section \<open>Printing to memory\<close>

text \<open>The format is a literal or a text in memory that is not in the buffer.\<close>

definition format_is :: "memory \<Rightarrow> addr \<Rightarrow> nat \<Rightarrow> path_arg \<Rightarrow> u16 list \<Rightarrow> bool" where
  "format_is m b n fmt t \<longleftrightarrow> (case fmt of Ptr f \<Rightarrow> text_beside m b n False f t | Literal cs \<Rightarrow> cs = t \<and> 0 \<notin> set t \<and> length t < 2 ^ 63)"

lemma format_reads:
  assumes "format_is (mem w) b n fmt t" "\<And>c x. I c \<Longrightarrow> \<not> in_range b n x \<Longrightarrow> dev_mem dev c x = mem w x"
  shows "reads dev I (wide_fmt fmt) 0 t"
proof (cases fmt)
  case (Ptr f)
  then have "reads dev I \<lparr>Ascii = False, Index = 0, un = Memory f\<rparr> 0 t" using assms by (intro text_beside_reads) (simp_all add: format_is_def)
  then show ?thesis using Ptr by (simp add: wide_fmt_def)
next
  case (Literal cs)
  then show ?thesis using assms(1) chars_read [of t dev I "wide_fmt fmt"] by (simp add: format_is_def wide_fmt_def)
qed

lemma sprint_formatter:
  assumes "mx \<noteq> 0" "unat mx < 2 ^ 62" "\<And>asc a t. str asc a = Some t \<Longrightarrow> text_beside (mem w) b (2 * (unat mx + 1)) asc a t"
  shows "formatter sprint_dev (\<lambda>ctx. \<exists>s. printing b mx w s ctx) (std_sub dp fts (\<lambda>c. mem (snd c))) str std_lib"
proof unfold_locales
  fix c and t :: "u16 list" assume c: "\<exists>s. printing b mx w s c" "length t < PRINT_STRING_LEN"
  then obtain s where "printing b mx w s c" by blast
  then have "Output sprint_dev c t = printed b mx w (s @ t)" using printing_out [OF _ assms(1,2) c(2)] by (simp add: sprint_dev_def)
  then show "\<exists>s. printing b mx w s (Output sprint_dev c t)" unfolding printing_def by blast
next
  fix asc a t assume "str asc a = Some t"
  moreover have "dev_mem sprint_dev c x = mem w x" if "\<exists>s. printing b mx w s c" "\<not> in_range b (2 * (unat mx + 1)) x" for c x
    using that printing_outside [of b mx w _ c x] assms(2) by (auto simp: sprint_dev_def)
  ultimately show "reads sprint_dev (\<lambda>ctx. \<exists>s. printing b mx w s ctx) \<lparr>Ascii = asc, Index = 0, un = Memory a\<rparr> 0 t"
    by (intro text_beside_reads [OF assms(3)])
qed (auto simp: sprint_dev_def std_lib_sub dest: std_lib_text)


definition sprint_demo :: "unit world" where
  "sprint_demo = \<lparr>mem = write_bytes (\<lambda>_. 0) 0x200 (wide (wlit ''hi'')), fw = ()\<rparr>"

definition plain_directive :: "convspec \<Rightarrow> directive" where
  "plain_directive c = \<lparr>tint = None, left_flag = False, zero_flag = False, comma_flag = False, long_flag = False, width = None, field_width = None, conv_of = c\<rparr>"

definition demo_format :: "piece list" where
  "demo_format = [Directive (plain_directive ConvHex), Plain 0x2C, Directive (plain_directive ConvWide), Plain 0x0A, Directive (plain_directive ConvStatus)]"

definition demo_str :: "bool \<Rightarrow> u64 \<Rightarrow> u16 list option" where
  "demo_str asc a = (if \<not> asc \<and> a = 0x200 then Some (wlit ''hi'') else None)"

lemma demo_text: "demo_str asc a = Some t \<Longrightarrow> text_at (mem sprint_demo) asc a t"
proof -
  have "text_at (mem sprint_demo) False 0x200 (wlit ''hi'')" by (rule text_atI) code_simp+
  then show "demo_str asc a = Some t \<Longrightarrow> text_at (mem sprint_demo) asc a t" by (auto simp: demo_str_def split: if_splits)
qed

lemma in_field_none: "length t < 2 ^ 64 \<Longrightarrow> in_field 0 (- 1) pad left t = t"
proof -
  assume "length t < 2 ^ 64"
  then have "min (length t) (unat (- 1 :: u64)) = length t" by (simp add: unsigned_minus_1_eq_mask mask_eq_exp_minus_1)
  then show "in_field 0 (- 1) pad left t = t" by (simp add: in_field_def Let_def)
qed

lemma plain_directive_text:
  "directive_text str lib (plain_directive ConvHex) (a # as) = Some (hex_text (unat (ucast a :: u32)), as)"
  "directive_text str lib (plain_directive ConvWide) (a # as) =
     (if a = 0 then Some (null_text, as) else map_option (\<lambda>t. (in_field 0 (- 1) 0x20 False t, as)) (str False a))"
  "directive_text str lib (plain_directive ConvStatus) (a # as) = map_option (\<lambda>t. (in_field 0 (- 1) 0x20 False t, as)) (lib 0x72 a)"
proof -
  have "length (hex_text (unat (ucast a :: u32))) < 2 ^ 64"
    using hex_text_string [of "unat (ucast a :: u32)"] unsigned_less [of "ucast a :: u32", where ?'a = nat] by simp
  then show "directive_text str lib (plain_directive ConvHex) (a # as) = Some (hex_text (unat (ucast a :: u32)), as)"
    by (simp add: directive_text_def plain_directive_def Let_def in_field_none)
qed (simp_all add: directive_text_def plain_directive_def Let_def map_option_case in_field_none null_text_def split: option.splits)

lemma demo_texts:
  "hex_text 0x2A = wlit ''2A''" "demo_str False 0x200 = Some (wlit ''hi'')" "std_lib 0x72 0 = Some (wlit ''Success'')"
  "in_field 0 (- 1) p l (wlit ''hi'') = wlit ''hi''" "in_field 0 (- 1) p l (wlit ''Success'') = wlit ''Success''"
  "crlf (wlit ''hi'') = wlit ''hi''" "crlf (wlit ''Success'') = wlit ''Success''" "crlf (wlit ''2A'') = wlit ''2A''" "crlf [0x2C] = [0x2C]"
  "crlf [0x0A] = [0x0D, 0x0A]" "tint (plain_directive c) = None"
proof -
  show "hex_text 0x2A = wlit ''2A''" by (simp add: hex_text_def to_base.simps hex_wchar_def Hex_def wlit_def)
  show "std_lib 0x72 0 = Some (wlit ''Success'')" by (simp add: std_lib_def status_text_def ErrorCodeTable_def EFI_SUCCESS_def)
qed (simp_all add: demo_str_def wlit_def in_field_none crlf_def plain_directive_def)

lemma demo_meaning:
  "meaning demo_str std_lib attr demo_format [0x2A, 0x200, 0] cur = Some (map Put (wlit ''2A,hi'' @ [0x0D, 0x0A] @ wlit ''Success''))"
  by (simp add: demo_format_def plain_directive_text demo_texts) (simp add: wlit_def)

lemma demo_reads: "0 \<notin> set (enc_format demo_format)" "length (enc_format demo_format) = 8" "list_all piece_ok demo_format" "Colour c \<notin> set demo_format"
  by (simp_all add: demo_format_def plain_directive_def enc_format_def enc_directive_def num_ok_def)


section \<open>Printing to the console\<close>

text \<open>A console that shows the events it is sent and leaves the memory of the program alone.\<close>

definition shows_output :: "'f text_output \<Rightarrow> ('f world \<Rightarrow> event list) \<Rightarrow> bool" where
  "shows_output ConOut log \<longleftrightarrow>
     (\<forall>t w. log (snd (OutputString ConOut t w)) = log w @ map Put t \<and> mem (snd (OutputString ConOut t w)) = mem w) \<and>
     (\<forall>a w. log (snd (SetAttribute ConOut a w)) = log w @ [Paint a] \<and> mem (snd (SetAttribute ConOut a w)) = mem w)"

text \<open>The attributes on a console whose attribute is \<open>attr\<close>: light grey, white and yellow on the background of \<open>attr\<close>.\<close>

definition console_attr :: "u64 \<Rightarrow> u16 \<Rightarrow> u64" where
  "console_attr attr c =
     (let back = drop_bit 4 attr AND 0xF
      in EFI_TEXT_ATTR (if c = 0x6E \<or> c = 0x4E then EFI_LIGHTGRAY else if c = 0x68 \<or> c = 0x48 then EFI_WHITE else EFI_YELLOW) back)"

lemma console_attr_nonzero: "console_attr attr c \<noteq> 0"
  by (simp only: console_attr_def Let_def EFI_TEXT_ATTR_def or_eq_0_iff EFI_LIGHTGRAY_def EFI_WHITE_def EFI_YELLOW_def split: if_splits) simp

lemma attr_for_set_attrs: "attr_for (set_attrs attr ps) = console_attr attr"
  by (simp add: attr_for_def set_attrs_def console_attr_def Let_def fun_eq_iff)

lemma set_attrs_simps [simp]: "ps_Context (set_attrs attr ps) = ps_Context ps" "ps_fmt (set_attrs attr ps) = ps_fmt ps" "ps_args (set_attrs attr ps) = ps_args ps"
    "ps_Attr (set_attrs attr ps) = attr"
  by (simp_all add: set_attrs_def Let_def)

lemma text_beside_nothing: "text_beside m 0 0 asc a t = text_at m asc a t"
  by (simp add: text_beside_def no_overlap_def)

lemma console_formatter:
  assumes "shows_output ConOut log" "\<And>asc a t. str asc a = Some t \<Longrightarrow> text_at (mem w) asc a t"
  shows "formatter (console_dev ConOut) (\<lambda>v. mem v = mem w) (std_sub dp fts mem) str std_lib"
proof unfold_locales
  fix asc a t assume "str asc a = Some t"
  then have "text_beside (mem w) 0 0 asc a t" using assms(2) by (simp add: text_beside_nothing)
  then show "reads (console_dev ConOut) (\<lambda>v. mem v = mem w) \<lparr>Ascii = asc, Index = 0, un = Memory a\<rparr> 0 t"
    by (rule text_beside_reads) (simp add: console_dev_def)
qed (use assms(1) in \<open>auto simp: console_dev_def shows_output_def std_lib_sub dest: std_lib_text\<close>)

lemma console_fold:
  "shows_output ConOut log \<Longrightarrow> log (fold (dev_chunk (console_dev ConOut)) cs w) = log w @ events_of cs \<and> mem (fold (dev_chunk (console_dev ConOut)) cs w) = mem w"
proof (induction cs arbitrary: w)
  case (Cons c cs)
  then show ?case by (cases c) (simp_all add: console_dev_def shows_output_def)
qed simp


text \<open>A console whose firmware state is the log.\<close>

definition log_console :: "event list text_output" where
  "log_console = \<lparr>OutputString = \<lambda>t w. (EFI_SUCCESS, w\<lparr>fw := fw w @ map Put t\<rparr>), SetAttribute = \<lambda>a w. (EFI_SUCCESS, w\<lparr>fw := fw w @ [Paint a]\<rparr>),
     SetCursorPosition = \<lambda>c r w. (EFI_SUCCESS, w), OutAttribute = \<lambda>w. 0x1F\<rparr>"

definition console_demo :: "event list world" where
  "console_demo = \<lparr>mem = mem sprint_demo, fw = []\<rparr>"


end
