(* ===== verification/Efi_Number.thy ===== *)
theory Efi_Number
  imports Efi_Sprint
begin

text \<open>
  The numbers the formatter prints and the numbers \<^verbatim>\<open>xtoi\<close> and \<^verbatim>\<open>Atoi\<close> of \<open>Efi_Str\<close> read: reading what was printed gives the number back.
\<close>

text \<open>The characters at \<open>str\<close> are \<open>cs\<close> and a NUL.\<close>

definition units :: "memory \<Rightarrow> addr \<Rightarrow> u16 list \<Rightarrow> bool" where
  "units m str cs \<longleftrightarrow> (\<forall>k \<le> length cs. read16 m (str + 2 * of_nat k) = (cs @ [0]) ! k)"

lemma units_Nil: "units m str [] \<Longrightarrow> read16 m str = 0"
  by (auto simp: units_def)

lemma units_Cons: "units m str (c # cs) \<Longrightarrow> read16 m str = c \<and> units m (str + 2) cs"
  unfolding units_def by (auto simp: algebra_simps dest: spec [where x = 0] spec [where x = "Suc _"])

lemma text_at_units: "text_at m False a t \<Longrightarrow> units m a t"
  by (simp add: text_at_def units_def char_at_ptr_def wchr_def)

lemma no_leading_space: "units m a (c # cs) \<Longrightarrow> c \<noteq> 0x20 \<Longrightarrow> scan_while (\<lambda>i. wchr m a i = 32) 0 = Some 0"
  using units_Cons [of m a c cs] by (subst scan_while.simps) (simp add: wchr_def)

text \<open>Appending a digit.\<close>

lemma or_digit: "d < 16 \<Longrightarrow> push_bit 4 (u :: u64) OR of_nat d = u * 16 + of_nat d"
proof -
  assume d: "d < 16"
  have "\<not> bit (push_bit 4 u) n \<or> \<not> bit (of_nat d :: u64) n" for n
  proof (cases "n < 4")
    case False
    have "(of_nat d :: u64) = take_bit 4 (of_nat d)" using d by (simp add: take_bit_of_nat take_bit_nat_eq_self)
    then show ?thesis using False by (metis bit_take_bit_iff)
  qed (simp add: bit_push_bit_iff)
  then have "push_bit 4 u + of_nat d = push_bit 4 u OR of_nat d" by (rule disjunctive_add)
  then show ?thesis by (simp add: push_bit_eq_mult)
qed

lemma hex_wchar_value:
  assumes "d < 16"
  shows "hex_wchar d \<noteq> 0 \<and> hex_wchar d \<noteq> 0x20 \<and> \<not> (97 \<le> hex_wchar d \<and> hex_wchar d \<le> 102) \<and>
    (48 \<le> hex_wchar d \<and> hex_wchar d \<le> 57 \<or> 65 \<le> hex_wchar d \<and> hex_wchar d \<le> 70) \<and>
    (ucast (hex_wchar d) - (if 65 \<le> hex_wchar d then 55 else 48) :: u64) = of_nat d"
proof -
  have "list_all (\<lambda>d. hex_wchar d \<noteq> 0 \<and> hex_wchar d \<noteq> 0x20 \<and> \<not> (97 \<le> hex_wchar d \<and> hex_wchar d \<le> 102) \<and>
    (48 \<le> hex_wchar d \<and> hex_wchar d \<le> 57 \<or> 65 \<le> hex_wchar d \<and> hex_wchar d \<le> 70) \<and>
    (ucast (hex_wchar d) - (if 65 \<le> hex_wchar d then 55 else 48) :: u64) = of_nat d) [0..<16]" by code_simp
  then show ?thesis using assms by (simp only: list_all_iff) simp
qed

lemma xtoi_loop_digits:
  "units m str (map hex_wchar ds) \<Longrightarrow> \<forall>d \<in> set ds. d < 16 \<Longrightarrow> xtoi_loop m str (of_nat u) = Some (of_nat (foldl (\<lambda>v d. v * 16 + d) u ds))"
proof (induction ds arbitrary: str u)
  case Nil
  then show ?case using units_Nil [of m str] by (subst xtoi_loop.simps) simp
next
  case (Cons d ds)
  then have d: "d < 16" and r: "read16 m str = hex_wchar d" "units m (str + 2) (map hex_wchar ds)" using units_Cons [of m str "hex_wchar d"] by auto
  have "xtoi_loop m str (of_nat u) = xtoi_loop m (str + 2) (push_bit 4 (of_nat u) OR of_nat d)"
    using hex_wchar_value [OF d] r(1) by (subst xtoi_loop.simps) (simp only: Let_def if_False if_True simp_thms)
  also have "push_bit 4 (of_nat u) OR of_nat d = (of_nat (u * 16 + d) :: u64)" using or_digit [OF d, of "of_nat u"] by simp
  finally show ?case using Cons.IH [OF r(2), of "u * 16 + d"] Cons.prems(2) by simp
qed

lemma Atoi_loop_digits:
  "units m str (map dec_wchar ds) \<Longrightarrow> \<forall>d \<in> set ds. d < 10 \<Longrightarrow> Atoi_loop m str (of_nat u) = Some (of_nat (foldl (\<lambda>v d. v * 10 + d) u ds))"
proof (induction ds arbitrary: str u)
  case Nil
  then show ?case using units_Nil [of m str] by (subst Atoi_loop.simps) simp
next
  case (Cons d ds)
  then have d: "d < 10" and r: "read16 m str = dec_wchar d" "units m (str + 2) (map dec_wchar ds)" using units_Cons [of m str "dec_wchar d"] by auto
  have nz: "dec_wchar d \<noteq> 0" using dec_wchar_bounds [OF d] by auto
  have "Atoi_loop m str (of_nat u) = Atoi_loop m (str + 2) (of_nat (u * 10 + d))"
    using dec_wchar_bounds [OF d] nz r(1) by (subst Atoi_loop.simps) (simp add: Let_def)
  then show ?case using Cons.IH [OF r(2), of "u * 10 + d"] Cons.prems(2) by simp
qed

text \<open>
  C39: the number routines of the library are inverse to each other: \<^verbatim>\<open>xtoi\<close> reads back the number that \<^verbatim>\<open>ValueToHex\<close> has written, for every 64-bit value,
  and \<^verbatim>\<open>Atoi\<close> the number that \<^verbatim>\<open>ValueToString\<close> has written without commas, for every value that is not negative.
\<close>

theorem number_text_roundtrip:
  assumes "text_at m False a (ValueToHex v)" "0 \<le> sint w" "text_at m False b (ValueToString False w)"
  shows "xtoi m a = Some v \<and> Atoi m b = Some w"
proof
  have ds: "\<forall>d \<in> set (to_base 16 (unat v)). d < 16" by (rule to_base_digits) simp
  obtain d ds' where c: "to_base 16 (unat v) = d # ds'" using to_base_nonempty by (metis neq_Nil_conv)
  have u: "units m a (map hex_wchar (to_base 16 (unat v)))" using text_at_units [OF assms(1)] by (simp add: ValueToHex_text hex_text_def)
  then have "scan_while (\<lambda>i. wchr m a i = 32) 0 = Some 0" using hex_wchar_value [of d] ds c by (intro no_leading_space) auto
  moreover have "xtoi_loop m a 0 = Some v" using xtoi_loop_digits [OF u ds, of 0] to_base_value [of 16 "unat v"] by simp
  ultimately show "xtoi m a = Some v" by (simp add: xtoi_def)
next
  let ?n = "nat \<bar>sint w\<bar>"
  have ds: "\<forall>d \<in> set (to_base 10 ?n). d < 10" by (rule to_base_digits) simp
  obtain d ds' where c: "to_base 10 ?n = d # ds'" using to_base_nonempty by (metis neq_Nil_conv)
  have u: "units m b (map dec_wchar (to_base 10 ?n))" using text_at_units [OF assms(3)] assms(2) by (simp add: ValueToString_text dec_text_def)
  then have "scan_while (\<lambda>i. wchr m b i = 32) 0 = Some 0" using dec_wchar_bounds [of d] ds c by (intro no_leading_space) auto
  moreover have "(of_nat ?n :: u64) = w" using assms(2) by simp
  then have "Atoi_loop m b 0 = Some w" using Atoi_loop_digits [OF u ds, of 0] to_base_value [of 10 ?n] by simp
  ultimately show "Atoi m b = Some w" by (simp add: Atoi_def)
qed

theorem number_text_roundtrip_witness:
  "xtoi (write_bytes (write_bytes (\<lambda>_. 0) 0x100 (wide (wlit ''2A''))) 0x200 (wide (wlit ''37''))) 0x100 = Some 0x2A \<and>
   Atoi (write_bytes (write_bytes (\<lambda>_. 0) 0x100 (wide (wlit ''2A''))) 0x200 (wide (wlit ''37''))) 0x200 = Some 37"
proof -
  let ?m = "write_bytes (write_bytes (\<lambda>_. 0) 0x100 (wide (wlit ''2A''))) 0x200 (wide (wlit ''37''))"
  have t: "ValueToHex 0x2A = wlit ''2A''" "ValueToString False 37 = wlit ''37''"
    by (simp_all add: ValueToHex_text ValueToString_text hex_text_def dec_text_def to_base.simps hex_wchar_def Hex_def dec_wchar_def wlit_def)
  have "text_at ?m False 0x100 (wlit ''2A'')" by (rule text_atI) code_simp+
  moreover have "text_at ?m False 0x200 (wlit ''37'')" by (rule text_atI) code_simp+
  ultimately show ?thesis using number_text_roundtrip [of ?m "0x100" "0x2A" 37 "0x200"] t by simp
qed

end
