(* ===== verification/Efi_Pool.thy ===== *)
theory Efi_Pool
  imports Efi_Sprint Efi_Dpath
begin

text \<open>
  Printing to pool memory.  \<^verbatim>\<open>_PoolPrint\<close> grows its buffer through \<^verbatim>\<open>ReallocatePool\<close>, which frees the old block, so what the pool promises is stated with
  owners: every address in use belongs to a block, allocation adds a block of its own, and freeing a block leaves all the others alone.
\<close>

section \<open>What the pool promises\<close>

definition pool_blocks :: "'f boot_services \<Rightarrow> ('f \<Rightarrow> addr \<Rightarrow> addr option) \<Rightarrow> bool" where
  "pool_blocks bs owner \<longleftrightarrow>
     (\<forall>mt n a0 w st a w'. AllocatePool bs mt n a0 w = ((st, a), w') \<longrightarrow>
        (\<forall>x. owner (fw w) x \<noteq> None \<longrightarrow> mem w' x = mem w x \<and> owner (fw w') x = owner (fw w) x) \<and>
        (\<not> EFI_ERROR st \<longrightarrow> a \<noteq> 0 \<and> unat a + unat n < 2 ^ 64 \<and> unat n \<le> 2 ^ 62 \<and> (\<forall>x. owner (fw w) x \<noteq> Some a) \<and>
           (\<forall>k < unat n. owner (fw w) (a + of_nat k) = None \<and> owner (fw w') (a + of_nat k) = Some a))) \<and>
     (\<forall>p w st w'. FreePool bs p w = (st, w') \<longrightarrow>
        (\<forall>x q. owner (fw w) x = Some q \<and> q \<noteq> p \<longrightarrow> mem w' x = mem w x \<and> owner (fw w') x = Some q))"

text \<open>The next \<open>fits\<close> allocations of at most \<open>n\<close> bytes succeed.\<close>

definition pool_fits :: "'f boot_services \<Rightarrow> nat \<Rightarrow> ('f \<Rightarrow> nat) \<Rightarrow> bool" where
  "pool_fits bs n fits \<longleftrightarrow>
     (\<forall>mt k a0 w st a w'. AllocatePool bs mt k a0 w = ((st, a), w') \<and> unat k \<le> n \<longrightarrow>
        fits (fw w) \<le> Suc (fits (fw w')) \<and> (0 < fits (fw w) \<longrightarrow> \<not> EFI_ERROR st)) \<and>
     (\<forall>p w st w'. FreePool bs p w = (st, w') \<longrightarrow> fits (fw w) \<le> fits (fw w'))"

text \<open>What is in use in \<open>w\<close> is the same in \<open>w'\<close>.\<close>

definition extends :: "('f \<Rightarrow> addr \<Rightarrow> addr option) \<Rightarrow> 'f world \<Rightarrow> 'f world \<Rightarrow> bool" where
  "extends owner w w' \<longleftrightarrow> (\<forall>x q. owner (fw w) x = Some q \<longrightarrow> mem w' x = mem w x \<and> owner (fw w') x = Some q)"

lemma extends_refl [simp]: "extends owner w w"
  by (simp add: extends_def)

lemma extends_trans: "extends owner w w' \<Longrightarrow> extends owner w' w'' \<Longrightarrow> extends owner w w''"
  by (simp add: extends_def)

lemma LibAllocatePool_extends:
  assumes "pool_blocks bs owner" "LibAllocatePool bs pt n w = (p, w')"
  shows "extends owner w w'"
    and "p \<noteq> 0 \<Longrightarrow> unat p + unat n < 2 ^ 64 \<and> unat n \<le> 2 ^ 62 \<and> (\<forall>x. owner (fw w) x \<noteq> Some p) \<and>
      (\<forall>x. in_range p (unat n) x \<longrightarrow> owner (fw w) x = None \<and> owner (fw w') x = Some p)"
proof -
  obtain st a v where al: "AllocatePool bs pt n 0 w = ((st, a), v)" by (metis surj_pair)
  note law = assms(1) [unfolded pool_blocks_def, THEN conjunct1, rule_format, OF al]
  have r: "w' = v" "p = (if EFI_ERROR st then 0 else a)" using assms(2) al by (auto simp: LibAllocatePool_def split: if_splits)
  show "extends owner w w'" using law unfolding extends_def r(1) by auto
  show "unat p + unat n < 2 ^ 64 \<and> unat n \<le> 2 ^ 62 \<and> (\<forall>x. owner (fw w) x \<noteq> Some p) \<and>
      (\<forall>x. in_range p (unat n) x \<longrightarrow> owner (fw w) x = None \<and> owner (fw w') x = Some p)" if "p \<noteq> 0"
  proof -
    have "\<not> EFI_ERROR st" "p = a" using that r(2) by (auto split: if_splits)
    then show ?thesis using law r(1) by (auto elim!: in_rangeE)
  qed
qed

lemma LibAllocatePool_fits:
  assumes "pool_blocks bs owner" "pool_fits bs m fits" "LibAllocatePool bs pt n w = (p, w')" "unat n \<le> m"
  shows "fits (fw w) \<le> Suc (fits (fw w'))" and "0 < fits (fw w) \<Longrightarrow> p \<noteq> 0"
proof -
  obtain st a v where al: "AllocatePool bs pt n 0 w = ((st, a), v)" by (metis surj_pair)
  have f: "fits (fw w) \<le> Suc (fits (fw v)) \<and> (0 < fits (fw w) \<longrightarrow> \<not> EFI_ERROR st)" using assms(2,4) al unfolding pool_fits_def by blast
  have "\<not> EFI_ERROR st \<Longrightarrow> a \<noteq> 0" using assms(1) al unfolding pool_blocks_def by blast
  moreover have "w' = v" "p = (if EFI_ERROR st then 0 else a)" using assms(3) al by (auto simp: LibAllocatePool_def split: if_splits)
  ultimately show "fits (fw w) \<le> Suc (fits (fw w'))" "0 < fits (fw w) \<Longrightarrow> p \<noteq> 0" using f by auto
qed

lemma LibFreePool_keeps:
  assumes "pool_blocks bs owner" "owner (fw w) x = Some q" "q \<noteq> p"
  shows "mem (LibFreePool bs p w) x = mem w x" and "owner (fw (LibFreePool bs p w)) x = Some q"
proof -
  obtain st v where f: "FreePool bs p w = (st, v)" by (metis surj_pair)
  note law = assms(1) [unfolded pool_blocks_def, THEN conjunct2, rule_format, OF f]
  show "mem (LibFreePool bs p w) x = mem w x" "owner (fw (LibFreePool bs p w)) x = Some q" using law [of x q] assms(2,3) f by (simp_all add: LibFreePool_def)
qed

lemma LibFreePool_fits: "pool_fits bs m fits \<Longrightarrow> fits (fw w) \<le> fits (fw (LibFreePool bs p w))"
  unfolding pool_fits_def LibFreePool_def by (metis prod.collapse)

section \<open>The buffer\<close>

text \<open>A block of \<open>n\<close> bytes at \<open>p\<close> that was not in use in \<open>w0\<close>.\<close>

definition own_block :: "('f \<Rightarrow> addr \<Rightarrow> addr option) \<Rightarrow> 'f world \<Rightarrow> addr \<Rightarrow> nat \<Rightarrow> 'f world \<Rightarrow> bool" where
  "own_block owner w0 p n w \<longleftrightarrow> p \<noteq> 0 \<and> unat p + n < 2 ^ 64 \<and> (\<forall>x. owner (fw w0) x \<noteq> Some p) \<and> (\<forall>x. in_range p n x \<longrightarrow> owner (fw w) x = Some p)"

lemma own_block_write:
  assumes "own_block owner w0 p n w" "extends owner w0 w" "\<And>x. m x \<noteq> mem w x \<Longrightarrow> in_range p n x"
  shows "extends owner w0 (w\<lparr>mem := m\<rparr>)" and "own_block owner w0 p n (w\<lparr>mem := m\<rparr>)"
proof -
  show "own_block owner w0 p n (w\<lparr>mem := m\<rparr>)" using assms(1) by (simp add: own_block_def)
  have "m x = mem w0 x" if "owner (fw w0) x = Some q" for x q
    using that assms unfolding own_block_def extends_def by (metis option.inject)
  then show "extends owner w0 (w\<lparr>mem := m\<rparr>)" using assms(2) by (simp add: extends_def)
qed

text \<open>
  The states of a \<^verbatim>\<open>POOL_PRINT\<close> while printing started in \<open>w0\<close>: nothing is allocated, or the text is in a block of its own with room for a NUL.
\<close>

definition no_text :: POOL_PRINT where
  "no_text = \<lparr>pp_str = 0, pp_len = 0, pp_maxlen = 0\<rparr>"

definition pool_ok :: "('f \<Rightarrow> addr \<Rightarrow> addr option) \<Rightarrow> 'f world \<Rightarrow> POOL_PRINT \<times> 'f world \<Rightarrow> bool" where
  "pool_ok owner w0 ctx \<longleftrightarrow> extends owner w0 (snd ctx) \<and>
     (fst ctx = no_text \<or>
      pp_len (fst ctx) < pp_maxlen (fst ctx) \<and> unat (pp_maxlen (fst ctx)) \<le> 2 ^ 61 \<and> own_block owner w0 (pp_str (fst ctx)) (2 * unat (pp_maxlen (fst ctx))) (snd ctx))"

definition pool_text :: "u16 list \<Rightarrow> POOL_PRINT \<times> 'f world \<Rightarrow> bool" where
  "pool_text t ctx \<longleftrightarrow>
     (if fst ctx = no_text then t = []
      else unat (pp_len (fst ctx)) = length t \<and> holds (mem (snd ctx)) (pp_str (fst ctx)) (wide (t @ [0])))"

lemma own_block_extends: "own_block owner w0 p n w \<Longrightarrow> extends owner w w' \<Longrightarrow> own_block owner w0 p n w'"
  by (simp add: own_block_def extends_def)

lemma free_other_block:
  assumes "pool_blocks bs owner" "extends owner w0 w" "\<forall>x. owner (fw w0) x \<noteq> Some p"
  shows "extends owner w0 (LibFreePool bs p w)"
    and "own_block owner w0 q n w \<Longrightarrow> q \<noteq> p \<Longrightarrow> own_block owner w0 q n (LibFreePool bs p w) \<and> (\<forall>x. in_range q n x \<longrightarrow> mem (LibFreePool bs p w) x = mem w x)"
proof -
  show "extends owner w0 (LibFreePool bs p w)" unfolding extends_def
  proof (intro allI impI)
    fix x q assume x: "owner (fw w0) x = Some q"
    then have "mem w x = mem w0 x" "owner (fw w) x = Some q" "q \<noteq> p" using assms(2,3) by (auto simp: extends_def)
    then show "mem (LibFreePool bs p w) x = mem w0 x \<and> owner (fw (LibFreePool bs p w)) x = Some q" using LibFreePool_keeps [OF assms(1)] by simp
  qed
  show "own_block owner w0 q n w \<Longrightarrow> q \<noteq> p \<Longrightarrow> own_block owner w0 q n (LibFreePool bs p w) \<and> (\<forall>x. in_range q n x \<longrightarrow> mem (LibFreePool bs p w) x = mem w x)"
    using LibFreePool_keeps [OF assms(1), of w _ q p] by (simp add: own_block_def)
qed

text \<open>What \<^verbatim>\<open>ReallocatePool\<close> does to a block of \<open>k\<close> bytes or more: its first \<open>k\<close> bytes are in a new block, and the old one is gone.\<close>

lemma ReallocatePool_block:
  assumes P: "pool_blocks bs owner" and ex: "extends owner w0 w" and old: "own_block owner w0 p K w" "0 < K" "unat k \<le> K"
    and n: "k \<le> n" "n \<noteq> 0" and r: "ReallocatePool bs pt p k n w = (q, v)"
  shows "extends owner w0 v" and "q \<noteq> 0 \<Longrightarrow> own_block owner w0 q (unat n) v \<and> unat n \<le> 2 ^ 62"
    and "q \<noteq> 0 \<Longrightarrow> holds (mem w) p bytes \<Longrightarrow> length bytes = unat k \<Longrightarrow> holds (mem v) q bytes"
proof -
  have p0: "p \<noteq> 0" using old(1) by (simp add: own_block_def)
  obtain w1 where al: "LibAllocatePool bs pt n w = (q, w1)" and v: "v = LibFreePool bs p (if q \<noteq> 0 then w1\<lparr>mem := CopyMem (mem w1) q p k\<rparr> else w1)"
    using r n p0 by (auto simp: ReallocatePool_def Let_def split: prod.splits if_splits)
  note ex1 = LibAllocatePool_extends(1) [OF P al] and new = LibAllocatePool_extends(2) [OF P al]
  have ex0: "extends owner w0 w1" by (rule extends_trans [OF ex ex1])
  have in_p: "in_range p K p" using old(2) by (simp add: in_range_def)
  then have p_used: "owner (fw w) p = Some p" "\<forall>x. owner (fw w0) x \<noteq> Some p" using old(1) by (auto simp: own_block_def)
  have qp: "q \<noteq> p" if "q \<noteq> 0" using new [OF that] p_used by auto
  have own: "own_block owner w0 q (unat n) w1" "unat n \<le> 2 ^ 62" if "q \<noteq> 0"
    using new [OF that] that ex by (auto simp: own_block_def extends_def)
  have pre: "efi_copy_pre q p k" if "q \<noteq> 0"
    using that new [OF that] qp [OF that] old n(1) p0 unfolding efi_copy_pre_def own_block_def word_le_nat_alt by auto
  have frame: "CopyMem (mem w1) q p k x \<noteq> mem w1 x \<Longrightarrow> in_range q (unat n) x" if "q \<noteq> 0" for x
    using efi_copy.copy_frame [OF pre [OF that], of x] n(1) unfolding word_le_nat_alt by (fastforce simp: in_range_def)
  show "extends owner w0 v" "q \<noteq> 0 \<Longrightarrow> own_block owner w0 q (unat n) v \<and> unat n \<le> 2 ^ 62" "q \<noteq> 0 \<Longrightarrow> holds (mem w) p bytes \<Longrightarrow> length bytes = unat k \<Longrightarrow> holds (mem v) q bytes"
  proof (atomize (full), cases "q = 0")
    case True
    then show "extends owner w0 v \<and> (q \<noteq> 0 \<longrightarrow> own_block owner w0 q (unat n) v \<and> unat n \<le> 2 ^ 62) \<and>
        (q \<noteq> 0 \<longrightarrow> holds (mem w) p bytes \<longrightarrow> length bytes = unat k \<longrightarrow> holds (mem v) q bytes)"
      using free_other_block(1) [OF P ex0 p_used(2)] v by simp
  next
    case False
    let ?w2 = "w1\<lparr>mem := CopyMem (mem w1) q p k\<rparr>"
    have v2: "v = LibFreePool bs p ?w2" using v False by simp
    have w2: "extends owner w0 ?w2" "own_block owner w0 q (unat n) ?w2" using own_block_write [OF own(1) [OF False] ex0 frame [OF False]] by blast+
    note fr = free_other_block [OF P w2(1) p_used(2), folded v2]
    have "holds (mem v) q bytes" if b: "holds (mem w) p bytes" "length bytes = unat k"
    proof -
      have same: "mem w1 x = mem w x" if "in_range p (length bytes) x" for x
        using that old b(2) ex1 unfolding own_block_def extends_def by (auto simp: in_range_def)
      have l: "length bytes \<le> 2 ^ 64" using b(2) unat_less_2p64 [of k] by simp
      have "holds (mem w1) p bytes" by (rule holds_frame [OF b(1) same l])
      then have c: "holds (mem ?w2) q bytes" using efi_copy.copied [OF pre [OF False], of "mem w1"] b(2) by (simp add: holds_def)
      have "mem v x = mem ?w2 x" if "in_range q (length bytes) x" for x
        using that fr(2) [OF w2(2) qp [OF False]] n(1) b(2) unfolding word_le_nat_alt by (auto simp: in_range_def)
      then show ?thesis by (rule holds_frame [OF c _ l])
    qed
    then show "extends owner w0 v \<and> (q \<noteq> 0 \<longrightarrow> own_block owner w0 q (unat n) v \<and> unat n \<le> 2 ^ 62) \<and>
        (q \<noteq> 0 \<longrightarrow> holds (mem w) p bytes \<longrightarrow> length bytes = unat k \<longrightarrow> holds (mem v) q bytes)"
      using fr(1) fr(2) [OF w2(2) qp [OF False]] own(2) [OF False] by simp
  qed
qed

lemma ReallocatePool_nothing:
  assumes "pool_blocks bs owner" "extends owner w0 w" "n \<noteq> 0" "ReallocatePool bs pt 0 k n w = (q, v)"
  shows "extends owner w0 v" and "q \<noteq> 0 \<Longrightarrow> own_block owner w0 q (unat n) v \<and> unat n \<le> 2 ^ 62"
proof -
  have al: "LibAllocatePool bs pt n w = (q, v)" using assms(3,4) by (auto simp: ReallocatePool_def Let_def split: prod.splits if_splits)
  note ex = LibAllocatePool_extends(1) [OF assms(1) al] and new = LibAllocatePool_extends(2) [OF assms(1) al]
  show "extends owner w0 v" by (rule extends_trans [OF assms(2) ex])
  show "q \<noteq> 0 \<Longrightarrow> own_block owner w0 q (unat n) v \<and> unat n \<le> 2 ^ 62" using new assms(2) by (auto simp: own_block_def extends_def)
qed

text \<open>Moving the text to a larger block.\<close>

lemma ReallocatePool_moves:
  assumes P: "pool_blocks bs owner" and ok: "pool_ok owner w0 (spc, w)" and n: "pp_len spc * 2 < n" "unat n = 2 * N"
    and r: "ReallocatePool bs pt (pp_str spc) (pp_len spc * 2) n w = (q, v)"
  shows "extends owner w0 v" and "q \<noteq> 0 \<Longrightarrow> own_block owner w0 q (2 * N) v \<and> N \<le> 2 ^ 61"
    and "q \<noteq> 0 \<Longrightarrow> pool_text s (spc, w) \<Longrightarrow> holds (mem v) q (wide s)"
proof -
  have ex: "extends owner w0 w" and n0: "n \<noteq> 0" using ok n(1) by (auto simp: pool_ok_def)
  show "extends owner w0 v" "q \<noteq> 0 \<Longrightarrow> own_block owner w0 q (2 * N) v \<and> N \<le> 2 ^ 61" "q \<noteq> 0 \<Longrightarrow> pool_text s (spc, w) \<Longrightarrow> holds (mem v) q (wide s)"
  proof (atomize (full), cases "spc = no_text")
    case True
    then show "extends owner w0 v \<and> (q \<noteq> 0 \<longrightarrow> own_block owner w0 q (2 * N) v \<and> N \<le> 2 ^ 61) \<and> (q \<noteq> 0 \<longrightarrow> pool_text s (spc, w) \<longrightarrow> holds (mem v) q (wide s))"
      using ReallocatePool_nothing [OF P ex n0, of pt] r n(2) by (auto simp: no_text_def pool_text_def)
  next
    case False
    then have old: "pp_len spc < pp_maxlen spc" "unat (pp_maxlen spc) \<le> 2 ^ 61" "own_block owner w0 (pp_str spc) (2 * unat (pp_maxlen spc)) w"
      using ok by (auto simp: pool_ok_def)
    have lt: "unat (pp_len spc) < unat (pp_maxlen spc)" using old(1) by (simp add: word_less_nat_alt)
    have k: "unat (pp_len spc * 2) = 2 * unat (pp_len spc)" using old(2) lt by (subst unat_mult_lem [THEN iffD1]) simp_all
    have K: "0 < 2 * unat (pp_maxlen spc)" "unat (pp_len spc * 2) \<le> 2 * unat (pp_maxlen spc)" "pp_len spc * 2 \<le> n" using lt k n(1) by simp_all
    note m = ReallocatePool_block [OF P ex old(3) K n0 r]
    have "holds (mem v) q (wide s)" if "q \<noteq> 0" "pool_text s (spc, w)"
      using m(3) [of "wide s"] that False k by (simp add: pool_text_def holds_append)
    then show "extends owner w0 v \<and> (q \<noteq> 0 \<longrightarrow> own_block owner w0 q (2 * N) v \<and> N \<le> 2 ^ 61) \<and> (q \<noteq> 0 \<longrightarrow> pool_text s (spc, w) \<longrightarrow> holds (mem v) q (wide s))"
      using m(1,2) n(2) by simp
  qed
qed

text \<open>Printing a text for which the block has room.\<close>

lemma SPrint_out_room:
  assumes "own_block owner w0 (pp_str spc) (2 * unat (pp_maxlen spc)) w" "extends owner w0 w" "unat (pp_maxlen spc) \<le> 2 ^ 61"
    and "unat (pp_len spc) + length t < unat (pp_maxlen spc)"
  shows "pool_ok owner w0 (SPrint_out (spc, w) t)"
    and "unat (pp_len spc) = length s \<Longrightarrow> holds (mem w) (pp_str spc) (wide s) \<Longrightarrow> pool_text (s @ t) (SPrint_out (spc, w) t)"
    and "fw (snd (SPrint_out (spc, w) t)) = fw w" and "pp_maxlen (fst (SPrint_out (spc, w) t)) = pp_maxlen spc"
proof -
  let ?p = "pp_str spc" and ?n = "unat (pp_len spc)" and ?mx = "unat (pp_maxlen spc)" and ?r = "SPrint_out (spc, w) t"
  let ?m = "write_bytes (mem w) (?p + 2 * of_nat ?n) (wide (t @ [0]))"
  have out: "?r = (\<lparr>pp_str = ?p, pp_len = of_nat (?n + length t), pp_maxlen = pp_maxlen spc\<rparr>, w\<lparr>mem := ?m\<rparr>)"
  proof -
    have "\<lparr>pp_str = ?p, pp_len = of_nat ?n, pp_maxlen = pp_maxlen spc\<rparr> = spc" by simp
    moreover have "pp_maxlen spc \<noteq> 0" "?n \<le> ?mx" "?mx < 2 ^ 63" "length t < 2 ^ 63" "take (?mx - ?n) t = t" "min (?n + length t) ?mx = ?n + length t"
      using assms(3,4) by auto
    ultimately show ?thesis using SPrint_out_at [of ?n "pp_maxlen spc" t ?p w] by (simp only: simp_thms True_implies_equals)
  qed
  have u: "unat (of_nat (?n + length t) :: u64) = ?n + length t" using assms(3,4) by (intro unat_of_nat_u64) simp
  have frame: "in_range ?p (2 * ?mx) x" if "?m x \<noteq> mem w x" for x
  proof -
    have "in_range (?p + of_nat (2 * ?n)) (2 * length t + 2) x" using that assms(3,4) by (auto simp: write_bytes_apply split: if_splits)
    then show ?thesis by (rule in_range_sub) (use assms(3,4) in simp_all)
  qed
  show "pool_ok owner w0 ?r"
    using own_block_write [OF assms(1,2) frame] assms(3,4) u by (auto simp: out pool_ok_def word_less_nat_alt)
  show "fw (snd ?r) = fw w" "pp_maxlen (fst ?r) = pp_maxlen spc" by (simp_all add: out)
  show "pool_text (s @ t) ?r" if "?n = length s" "holds (mem w) ?p (wide s)"
  proof -
    have "holds ?m ?p (wide s)"
      using that assms(3,4) laid_out [of ?p "2 * ?mx" 0 "2 * length s" "2 * length s" "2 * length t + 2"] assms(1)
      by (intro holds_frame [OF that(2)] write_bytes_outside; cases "s = []") (auto simp: own_block_def)
    moreover have "holds ?m (?p + of_nat (2 * ?n)) (wide (t @ [0]))" using holds_write_bytes [of "wide (t @ [0])" "mem w"] assms(3,4) by simp
    moreover have "?p \<noteq> 0" using assms(1) by (simp add: own_block_def)
    ultimately show ?thesis using that(1) u unfolding pool_text_def out by (simp add: no_text_def holds_append add.assoc)
  qed
qed

lemma ReallocatePool_fits:
  assumes "pool_blocks bs owner" "pool_fits bs m fits" "ReallocatePool bs pt p k n w = (q, v)" "n \<noteq> 0" "unat n \<le> m"
  shows "fits (fw w) \<le> Suc (fits (fw v))" and "0 < fits (fw w) \<Longrightarrow> q \<noteq> 0"
proof -
  obtain w1 where al: "LibAllocatePool bs pt n w = (q, w1)" and v: "v = w1 \<or> v = LibFreePool bs p w1 \<or> (\<exists>m'. v = LibFreePool bs p (w1\<lparr>mem := m'\<rparr>))"
    using assms(3,4) by (auto simp: ReallocatePool_def Let_def split: prod.splits if_splits)
  note f = LibAllocatePool_fits [OF assms(1,2) al assms(5)]
  show "0 < fits (fw w) \<Longrightarrow> q \<noteq> 0" by (rule f(2))
  have "fits (fw w1) \<le> fits (fw v)" using v LibFreePool_fits [OF assms(2), of w1] LibFreePool_fits [OF assms(2), of "w1\<lparr>mem := _\<rparr>"] by auto
  then show "fits (fw w) \<le> Suc (fits (fw v))" using f(1) by simp
qed

lemma no_text_out: "SPrint_out (no_text, v) t = (no_text, v)"
  by (auto simp: SPrint_out_def no_text_def Let_def word_gt_0)

text \<open>One call of \<^verbatim>\<open>_PoolPrint\<close>.\<close>

lemma PoolPrint_out_grow:
  assumes "pp_len spc + of_nat (length t) + 1 > pp_maxlen spc"
    and "ReallocatePool bs pt (pp_str spc) (pp_len spc * 2) ((pp_len spc + of_nat (length t) + 1 + 200) * 2) w = (q, v)"
  shows "PoolPrint_out bs pt (spc, w) t =
    (if q = 0 then (no_text, v) else SPrint_out (spc\<lparr>pp_str := q, pp_maxlen := pp_len spc + of_nat (length t) + 1 + 200\<rparr>, v) t)"
  using assms no_text_out [of v t] by (cases spc) (auto simp: PoolPrint_out_def Let_def PRINT_STRING_LEN_def no_text_def algebra_simps)

lemma PoolPrint_out_ok:
  assumes P: "pool_blocks bs owner" and ok: "pool_ok owner w0 ctx" and t: "length t < PRINT_STRING_LEN"
  shows "pool_ok owner w0 (PoolPrint_out bs pt ctx t)"
    and "pool_text s ctx \<Longrightarrow> pool_fits bs (2 * (L + 201)) fits \<Longrightarrow> length (s @ t) \<le> L \<Longrightarrow> L div 200 < F \<Longrightarrow>
      F \<le> fits (fw (snd ctx)) + unat (pp_maxlen (fst ctx)) div 200 \<Longrightarrow> unat (pp_maxlen (fst ctx)) \<le> length s + 201 \<Longrightarrow>
      pool_text (s @ t) (PoolPrint_out bs pt ctx t) \<and> fst (PoolPrint_out bs pt ctx t) \<noteq> no_text \<and>
      F \<le> fits (fw (snd (PoolPrint_out bs pt ctx t))) + unat (pp_maxlen (fst (PoolPrint_out bs pt ctx t))) div 200 \<and>
      unat (pp_maxlen (fst (PoolPrint_out bs pt ctx t))) \<le> length (s @ t) + 201"
proof -
  obtain spc w where c: "ctx = (spc, w)" by (cases ctx)
  let ?n = "unat (pp_len spc)" and ?mx = "unat (pp_maxlen spc)"
  let ?new = "pp_len spc + of_nat (length t) + 1 :: u64"
  have b: "?n \<le> 2 ^ 61" "?mx \<le> 2 ^ 61" using ok c by (auto simp: pool_ok_def no_text_def word_less_nat_alt)
  have "?new = of_nat (?n + length t + 1)" by simp
  then have new: "unat ?new = ?n + length t + 1" using b t unat_of_nat_u64 [of "?n + length t + 1"] by (simp only: PRINT_STRING_LEN_def) simp
  have P200: "of_nat PRINT_STRING_LEN = (200 :: u64)" by (simp add: PRINT_STRING_LEN_def)
  have grown: "unat (?new + 200) = ?n + length t + 201" using new b t by (subst unat_add_lem [THEN iffD1]) (simp_all add: PRINT_STRING_LEN_def)
  let ?r = "PoolPrint_out bs pt ctx t"
  let ?goal = "pool_ok owner w0 ?r \<and> (pool_text s ctx \<longrightarrow> pool_fits bs (2 * (L + 201)) fits \<longrightarrow> length (s @ t) \<le> L \<longrightarrow> L div 200 < F \<longrightarrow>
      F \<le> fits (fw (snd ctx)) + unat (pp_maxlen (fst ctx)) div 200 \<longrightarrow> unat (pp_maxlen (fst ctx)) \<le> length s + 201 \<longrightarrow>
      pool_text (s @ t) ?r \<and> fst ?r \<noteq> no_text \<and> F \<le> fits (fw (snd ?r)) + unat (pp_maxlen (fst ?r)) div 200 \<and> unat (pp_maxlen (fst ?r)) \<le> length (s @ t) + 201)"
  have ?goal
  proof (cases "?new > pp_maxlen spc")
    case False
    then have r: "?r = SPrint_out (spc, w) t" and room: "?n + length t < ?mx" using new by (simp_all add: c PoolPrint_out_def Let_def word_less_nat_alt)
    then have "spc \<noteq> no_text" by (auto simp: no_text_def)
    then have blk: "own_block owner w0 (pp_str spc) (2 * ?mx) w" "extends owner w0 w" using ok c by (auto simp: pool_ok_def)
    note step = SPrint_out_room [OF blk b(2) room]
    have "fst ?r \<noteq> no_text" using step(4) room r by (auto simp: no_text_def)
    then show ?thesis using step(1,3,4) step(2) [of s] \<open>spc \<noteq> no_text\<close> unfolding r [unfolded c] c by (simp add: pool_text_def [of s] holds_append)
  next
    case True
    let ?N = "?new + 200"
    obtain q v where q: "ReallocatePool bs pt (pp_str spc) (pp_len spc * 2) (?N * 2) w = (q, v)" by fastforce
    have N2: "unat (?N * 2) = 2 * unat ?N" using grown b t by (subst unat_mult_lem [THEN iffD1]) (simp_all add: PRINT_STRING_LEN_def)
    have lt: "pp_len spc * 2 < ?N * 2" using N2 grown b unat_mult_lem [of "pp_len spc" 2] by (simp add: word_less_nat_alt)
    note moved = ReallocatePool_moves [OF P ok [unfolded c] lt N2 q]
    note r = PoolPrint_out_grow [OF True q]
    have len: "?n = length s" if "pool_text s (spc, w)" using that by (auto simp: pool_text_def no_text_def split: if_splits)
    have fits: "fits (fw w) \<le> Suc (fits (fw v))" "0 < fits (fw w) \<longrightarrow> q \<noteq> 0" if "pool_fits bs (2 * (L + 201)) fits" "?n + length t \<le> L"
      using ReallocatePool_fits [OF P that(1) q] that(2) N2 grown by force+
    show ?thesis
    proof (cases "q = 0")
      case True
      have "\<not> (pool_fits bs (2 * (L + 201)) fits \<and> ?n + length t \<le> L \<and> L div 200 < F \<and> F \<le> fits (fw w) + ?mx div 200)"
        using fits True new \<open>?new > pp_maxlen spc\<close> by (auto simp: word_less_nat_alt)
      then show ?thesis using moved(1) True r c len by (auto simp: pool_ok_def)
    next
      case False
      let ?spc = "spc\<lparr>pp_str := q, pp_maxlen := ?N\<rparr>"
      have blk: "own_block owner w0 (pp_str ?spc) (2 * unat (pp_maxlen ?spc)) v" "unat (pp_maxlen ?spc) \<le> 2 ^ 61" "unat (pp_len ?spc) + length t < unat (pp_maxlen ?spc)"
        using moved(2) [OF False] grown by simp_all
      note step = SPrint_out_room [OF blk(1) moved(1) blk(2,3)]
      have r': "?r = SPrint_out (?spc, v) t" using r False c by simp
      have "unat ?N div 200 \<ge> Suc (?mx div 200)" using grown new True by (simp add: word_less_nat_alt)
      then have "F \<le> fits (fw v) + unat ?N div 200" if "F \<le> fits (fw w) + ?mx div 200" "pool_fits bs (2 * (L + 201)) fits" "?n + length t \<le> L"
        using that fits(1) by fastforce
      moreover have "fst ?r \<noteq> no_text" using step(4) grown r' by (auto simp: no_text_def)
      moreover have "unat ?N \<le> length (s @ t) + 201" if "pool_text s (spc, w)" using grown len [OF that] by simp
      ultimately show ?thesis using step(1,3,4) step(2) [of s] moved(3) [OF False, of s] len unfolding r' [unfolded c] c by auto
    qed
  qed
  then show "pool_ok owner w0 ?r" "pool_text s ctx \<Longrightarrow> pool_fits bs (2 * (L + 201)) fits \<Longrightarrow> length (s @ t) \<le> L \<Longrightarrow> L div 200 < F \<Longrightarrow>
      F \<le> fits (fw (snd ctx)) + unat (pp_maxlen (fst ctx)) div 200 \<Longrightarrow> unat (pp_maxlen (fst ctx)) \<le> length s + 201 \<Longrightarrow>
      pool_text (s @ t) ?r \<and> fst ?r \<noteq> no_text \<and> F \<le> fits (fw (snd ?r)) + unat (pp_maxlen (fst ?r)) div 200 \<and> unat (pp_maxlen (fst ?r)) \<le> length (s @ t) + 201" by simp_all
qed

section \<open>The formatter on the pool\<close>

lemma pool_fold_ok:
  assumes "pool_blocks bs owner" "pool_ok owner w0 ctx" "list_all chunk_fits cs"
  shows "pool_ok owner w0 (fold (dev_chunk (pool_dev bs pt)) cs ctx)"
  using assms(2,3)
proof (induction cs arbitrary: ctx)
  case (Cons c cs)
  then show ?case using PoolPrint_out_ok(1) [OF assms(1)] by (cases c) (auto simp: pool_dev_def)
qed simp

text \<open>What is kept along the output of a text of at most \<open>L\<close> characters.\<close>

definition pool_run :: "('f \<Rightarrow> addr \<Rightarrow> addr option) \<Rightarrow> 'f world \<Rightarrow> ('f \<Rightarrow> nat) \<Rightarrow> nat \<Rightarrow> u16 list \<Rightarrow> POOL_PRINT \<times> 'f world \<Rightarrow> bool" where
  "pool_run owner w0 fits F t ctx \<longleftrightarrow> pool_ok owner w0 ctx \<and> pool_text t ctx \<and>
     F \<le> fits (fw (snd ctx)) + unat (pp_maxlen (fst ctx)) div 200 \<and> unat (pp_maxlen (fst ctx)) \<le> length t + 201"

lemma pool_run_out:
  assumes "pool_blocks bs owner" "pool_fits bs (2 * (L + 201)) fits" "L div 200 < F"
    and "pool_run owner w0 fits F s ctx" "length t < PRINT_STRING_LEN" "length (s @ t) \<le> L"
  shows "pool_run owner w0 fits F (s @ t) (PoolPrint_out bs pt ctx t) \<and> fst (PoolPrint_out bs pt ctx t) \<noteq> no_text"
  using assms PoolPrint_out_ok(1) [OF assms(1) _ assms(5), of w0 ctx pt] PoolPrint_out_ok(2) [OF assms(1) _ assms(5), of w0 ctx s L fits F pt] by (auto simp: pool_run_def)

lemma pool_fold:
  assumes "pool_blocks bs owner" "pool_fits bs (2 * (L + 201)) fits" "L div 200 < F"
    and "pool_run owner w0 fits F s ctx" "list_all chunk_fits cs" "length (s @ chars_of (events_of cs)) \<le> L"
  shows "pool_run owner w0 fits F (s @ chars_of (events_of cs)) (fold (dev_chunk (pool_dev bs pt)) cs ctx)"
  using assms(4-6)
proof (induction cs arbitrary: s ctx)
  case (Cons c cs)
  show ?case
  proof (cases c)
    case (Out t)
    then have "pool_run owner w0 fits F (s @ t) (dev_chunk (pool_dev bs pt) c ctx)"
      using pool_run_out [OF assms(1-3) Cons.prems(1), of t pt] Cons.prems(2,3) by (simp add: pool_dev_def)
    then show ?thesis using Cons.IH [of "s @ t"] Cons.prems(2,3) Out by simp
  next
    case (SetA a)
    then show ?thesis using Cons.IH [of s ctx] Cons.prems by (simp add: pool_dev_def)
  qed
qed simp

text \<open>A text or a GUID in memory that is in use.\<close>

definition in_use :: "('f \<Rightarrow> addr \<Rightarrow> addr option) \<Rightarrow> 'f world \<Rightarrow> addr \<Rightarrow> nat \<Rightarrow> bool" where
  "in_use owner w a n \<longleftrightarrow> (\<forall>x. in_range a n x \<longrightarrow> owner (fw w) x \<noteq> None)"

lemma pool_ok_mem: "pool_ok owner w0 ctx \<Longrightarrow> in_use owner w0 a n \<Longrightarrow> in_range a n x \<Longrightarrow> mem (snd ctx) x = mem w0 x"
  by (auto simp: pool_ok_def in_use_def extends_def)

lemma pool_formatter:
  assumes "pool_blocks bs owner" "\<And>asc a t. str asc a = Some t \<Longrightarrow> text_at (mem w0) asc a t \<and> in_use owner w0 a (text_size asc t)"
    and "\<And>c a t comma ctx. lib c a = Some t \<Longrightarrow> pool_ok owner w0 ctx \<Longrightarrow> sub c comma a ctx = Some (t, ctx)"
    and "\<And>c a t. lib c a = Some t \<Longrightarrow> 0 \<notin> set t \<and> length t < 2 ^ 63"
  shows "formatter (pool_dev bs pt) (pool_ok owner w0) sub str lib"
proof unfold_locales
  fix asc a t assume "str asc a = Some t"
  then show "reads (pool_dev bs pt) (pool_ok owner w0) \<lparr>Ascii = asc, Index = 0, un = Memory a\<rparr> 0 t"
    using assms(2) pool_ok_mem by (intro text_reads [of "mem w0"]) (fastforce simp: pool_dev_def)+
qed (use assms(1,3,4) PoolPrint_out_ok(1) in \<open>auto simp: pool_dev_def\<close>)

lemma CatPrint_appends:
  assumes P: "pool_blocks bs owner" "pool_fits bs (2 * (L + 201)) fits" "L div 200 < F"
    and F: "formatter (pool_dev bs pt) (pool_ok owner w0) sub str lib"
    and run: "pool_run owner w0 fits F s (spc, w)" and fmt: "0 \<notin> set (enc_format pcs)" "length (enc_format pcs) < 2 ^ 63"
    and m: "list_all piece_ok pcs" "\<forall>c. Colour c \<notin> set pcs" "meaning str lib (\<lambda>_. 0) pcs as 0 = Some es" "length (s @ chars_of es) \<le> L"
  shows "\<exists>spc' w'. CatPrint bs pt sub spc (Literal (enc_format pcs)) \<lparr>gp_args = as, fp_args = fs\<rparr> w = Some (pp_str spc', spc', w') \<and>
    pool_run owner w0 fits F (s @ chars_of es) (spc', w') \<and> spc' \<noteq> no_text"
proof -
  let ?dev = "pool_dev bs pt" and ?ps = "zero_ps (wide_fmt (Literal (enc_format pcs))) \<lparr>gp_args = as, fp_args = fs\<rparr> (spc, w)"
  have r: "reads ?dev (pool_ok owner w0) (ps_fmt ?ps) 0 (enc_format pcs)"
    using fmt chars_read [of "enc_format pcs" ?dev _ "ps_fmt ?ps"] by (simp add: wide_fmt_def)
  obtain p cs t where p: "Print_ps ?dev sub ?ps = Some (of_nat (puts es), p)" "ps_Context p = fold (dev_chunk ?dev) (cs @ [Out t]) (spc, w)"
      "events_of (cs @ [Out t]) = es" "list_all chunk_fits (cs @ [Out t])"
    using formatter.Print_ps_meaning [OF F _ r m(1), of es] m(2,3) run by (auto simp: pool_run_def)
  have es: "chars_of es = chars_of (events_of cs) @ t" using p(3) by auto
  have "pool_run owner w0 fits F (s @ chars_of (events_of cs)) (fold (dev_chunk ?dev) cs (spc, w))"
    using pool_fold [OF P run, of cs pt] p(4) m(4) es by simp
  then have "pool_run owner w0 fits F (s @ chars_of es) (ps_Context p) \<and> fst (ps_Context p) \<noteq> no_text"
    using pool_run_out [OF P, of w0 "s @ chars_of (events_of cs)" _ t pt] p(2,4) m(4) es by (simp add: pool_dev_def)
  moreover have "CatPrint bs pt sub spc (Literal (enc_format pcs)) \<lparr>gp_args = as, fp_args = fs\<rparr> w =
      Some (pp_str (fst (ps_Context p)), fst (ps_Context p), snd (ps_Context p))"
    using p(1) by (simp add: CatPrint_def PoolCatPrint_def split_beta)
  ultimately show ?thesis by (metis prod.collapse)
qed

end
