(* ===== verification/Efi_Dpstr.thy ===== *)
theory Efi_Dpstr
  imports Efi_Pool
begin

text \<open>
  The text of device paths, the second half of \<^verbatim>\<open>gnu-efi/lib/dpath.c\<close>: a printer for each kind of node, the table of printers, and \<^verbatim>\<open>DevicePathToStr\<close>, which
  unpacks a path and prints its nodes one after the other into pool memory.

  \<^verbatim>\<open>CatPrint(Str, fmt, ...)\<close> is an argument \<open>out\<close> of the printers; a string literal that the code passes for a \<^verbatim>\<open>%s\<close> is written into the format.  Fields are
  read when the call that prints them is made.
\<close>

section \<open>Printing nodes\<close>

type_synonym 'f str_state = "POOL_PRINT \<times> 'f world"
type_synonym 'f cat_print = "string \<Rightarrow> u64 list \<Rightarrow> 'f str_state \<Rightarrow> 'f str_state option"
type_synonym 'f node_printer = "'f cat_print \<Rightarrow> addr \<Rightarrow> 'f str_state \<Rightarrow> 'f str_state option"

definition fld8 :: "'f str_state \<Rightarrow> addr \<Rightarrow> u64" where "fld8 s a = ucast (mem (snd s) a)"
definition fld16 :: "'f str_state \<Rightarrow> addr \<Rightarrow> u64" where "fld16 s a = ucast (read16 (mem (snd s)) a)"
definition fld32 :: "'f str_state \<Rightarrow> addr \<Rightarrow> u64" where "fld32 s a = ucast (read32 (mem (snd s)) a)"
definition fld64 :: "'f str_state \<Rightarrow> addr \<Rightarrow> u64" where "fld64 s a = read64 (mem (snd s)) a"

definition DevPathPci :: "'f node_printer" where
  "DevPathPci out a s = out ''Pci(0x%x,0x%x)'' [fld8 s (a + 5), fld8 s (a + 4)] s"

definition DevPathPccard :: "'f node_printer" where
  "DevPathPccard out a s = out ''Pccard(0x%x)'' [fld8 s (a + 4)] s"

definition DevPathMemMap :: "'f node_printer" where
  "DevPathMemMap out a s = out ''MemMap(%d,0x%x,0x%x)'' [fld32 s (a + 4), fld64 s (a + 8), fld64 s (a + 16)] s"

definition DevPathController :: "'f node_printer" where
  "DevPathController out a s = out ''Ctrl(%d)'' [fld32 s (a + 4)] s"

definition HARDWARE_DEVICE_PATH :: u8 where "HARDWARE_DEVICE_PATH = 1"
definition ACPI_DEVICE_PATH :: u8 where "ACPI_DEVICE_PATH = 2"
definition MESSAGING_DEVICE_PATH :: u8 where "MESSAGING_DEVICE_PATH = 3"
definition MEDIA_DEVICE_PATH :: u8 where "MEDIA_DEVICE_PATH = 4"
definition BBS_DEVICE_PATH :: u8 where "BBS_DEVICE_PATH = 5"
definition END_DEVICE_PATH_TYPE :: u8 where "END_DEVICE_PATH_TYPE = 0x7F"

definition UNKNOWN_DEVICE_GUID :: "u8 list" where
  "UNKNOWN_DEVICE_GUID = guid 0xCF31FAC5 0xC24E 0x11D2 [0x85, 0xF3, 0x0, 0xA0, 0xC9, 0x3E, 0xC9, 0x3B]"

definition DevPathVendor :: "'f node_printer" where
  "DevPathVendor out a s = do {
     let t = DevicePathType (mem (snd s)) a;
     let Type = (if t = HARDWARE_DEVICE_PATH then ''Hw'' else if t = MESSAGING_DEVICE_PATH then ''Msg'' else if t = MEDIA_DEVICE_PATH then ''Media'' else ''?'');
     s \<leftarrow> out (''Ven'' @ Type @ ''(%g'') [a + 4] s;
     if guid_is (mem (snd s)) (a + 4) UNKNOWN_DEVICE_GUID then out '':%02x)'' [fld8 s (a + 20)] s else out '')'' [] s }"

definition PNP_EISA_ID_CONST :: u32 where "PNP_EISA_ID_CONST = 0x41D0"
definition PNP_EISA_ID_MASK :: u32 where "PNP_EISA_ID_MASK = 0xFFFF"
definition EISA_ID_TO_NUM :: "u32 \<Rightarrow> u32" where "EISA_ID_TO_NUM hid = drop_bit 16 hid"

definition acpi_names :: "(u32 \<times> string) list" where
  "acpi_names = [(0x301, ''Keyboard(%d)''), (0x401, ''ParallelPort(%d)''), (0x501, ''Serial(%d)''), (0x604, ''Floppy(%d)''),
     (0xA03, ''PciRoot(%d)''), (0xA08, ''PcieRoot(%d)'')]"

definition acpi_uid :: "'f node_printer" where
  "acpi_uid out a s = (if read32 (mem (snd s)) (a + 8) \<noteq> 0 then out '',%d'' [fld32 s (a + 8)] s else Some s)"

definition DevPathAcpi :: "'f node_printer" where
  "DevPathAcpi out a s =
     (let HID = read32 (mem (snd s)) (a + 4) in
      if HID AND PNP_EISA_ID_MASK = PNP_EISA_ID_CONST then
        case map_of acpi_names (EISA_ID_TO_NUM HID) of
          Some f \<Rightarrow> out f [fld32 s (a + 8)] s
        | None \<Rightarrow> do {
            s \<leftarrow> out ''Acpi(PNP%04x'' [ucast (EISA_ID_TO_NUM HID)] s;
            s \<leftarrow> acpi_uid out a s;
            out '')'' [] s }
      else do {
        s \<leftarrow> out ''Acpi(0x%X'' [ucast HID] s;
        s \<leftarrow> acpi_uid out a s;
        out '')'' [fld32 s (a + 4), fld32 s (a + 8)] s })"

definition DevPathAtapi :: "'f node_printer" where
  "DevPathAtapi out a s = out (''Ata('' @ (if fld8 s (a + 4) \<noteq> 0 then ''Secondary'' else ''Primary'') @ '','' @
     (if fld8 s (a + 5) \<noteq> 0 then ''Slave'' else ''Master'') @ '')'') [] s"

definition DevPathScsi :: "'f node_printer" where
  "DevPathScsi out a s = out ''Scsi(%d,%d)'' [fld16 s (a + 4), fld16 s (a + 6)] s"

definition MSG_FIBRECHANNEL_DP :: u8 where "MSG_FIBRECHANNEL_DP = 3"

definition DevPathFibre :: "'f node_printer" where
  "DevPathFibre out a s = out (''Fibre'' @ (if DevicePathType (mem (snd s)) a = MSG_FIBRECHANNEL_DP then '''' else ''Ex'') @ ''(0x%016lx,0x%016lx)'')
     [fld64 s (a + 8), fld64 s (a + 16)] s"

definition DevPath1394 :: "'f node_printer" where
  "DevPath1394 out a s = out ''I1394(%016lx)'' [fld64 s (a + 8)] s"

definition DevPathUsb :: "'f node_printer" where
  "DevPathUsb out a s = out ''Usb(0x%x,0x%x)'' [fld8 s (a + 4), fld8 s (a + 5)] s"

definition DevPathI2O :: "'f node_printer" where
  "DevPathI2O out a s = out ''I2O(0x%X)'' [fld32 s (a + 4)] s"

text \<open>Bytes from \<open>a\<close> on in hexadecimal.\<close>

primrec cat_bytes :: "'f cat_print \<Rightarrow> addr \<Rightarrow> nat \<Rightarrow> 'f str_state \<Rightarrow> 'f str_state option" where
  "cat_bytes out a 0 s = Some s"
| "cat_bytes out a (Suc n) s = do { s \<leftarrow> out ''%02x'' [fld8 s a] s; cat_bytes out (a + 1) n s }"

definition DevPathMacAddr :: "'f node_printer" where
  "DevPathMacAddr out a s = do {
     let IfType = mem (snd s) (a + 36);
     let HwAddressSize = (if IfType = 1 \<or> IfType = 0 then 6 else DevicePathNodeLength (mem (snd s)) a - 4 - 1);
     s \<leftarrow> out ''Mac('' [] s;
     s \<leftarrow> cat_bytes out (a + 4) (unat HwAddressSize) s;
     s \<leftarrow> (if mem (snd s) (a + 36) \<noteq> 0 then out '',%d'' [fld8 s (a + 36)] s else Some s);
     out '')'' [] s }"

definition CatPrintIPv4 :: "'f node_printer" where
  "CatPrintIPv4 out a s = out ''%d.%d.%d.%d'' [fld8 s a, fld8 s (a + 1), fld8 s (a + 2), fld8 s (a + 3)] s"

definition IsNotNullIPv4 :: "'f str_state \<Rightarrow> addr \<Rightarrow> bool" where
  "IsNotNullIPv4 s a \<longleftrightarrow> (let m = mem (snd s) in (m a OR m (a + 1)) OR (m (a + 2) OR m (a + 3)) \<noteq> 0)"

definition CatPrintNetworkProtocol :: "'f cat_print \<Rightarrow> u16 \<Rightarrow> 'f str_state \<Rightarrow> 'f str_state option" where
  "CatPrintNetworkProtocol out Proto s = (if Proto = 6 then out ''TCP'' [] s else if Proto = 17 then out ''UDP'' [] s else out ''%d'' [ucast Proto] s)"

text \<open>\<^verbatim>\<open>sizeof(IPv4_DEVICE_PATH)\<close> and \<^verbatim>\<open>sizeof(IPv6_DEVICE_PATH)\<close>: the structures are not packed and have an alignment of 2.\<close>

definition sizeof_IPv4 :: u64 where "sizeof_IPv4 = 28"
definition sizeof_IPv6 :: u64 where "sizeof_IPv6 = 60"

definition DevPathIPv4 :: "'f node_printer" where
  "DevPathIPv4 out a s = do {
     s \<leftarrow> out ''IPv4('' [] s;
     s \<leftarrow> CatPrintIPv4 out (a + 8) s;
     s \<leftarrow> out '','' [] s;
     s \<leftarrow> CatPrintNetworkProtocol out (read16 (mem (snd s)) (a + 16)) s;
     s \<leftarrow> out ('','' @ (if mem (snd s) (a + 18) \<noteq> 0 then ''Static'' else ''DHCP'')) [] s;
     let v2 = (\<lambda>s. DevicePathNodeLength (mem (snd s)) a = sizeof_IPv4);
     s \<leftarrow> (if IsNotNullIPv4 s (a + 4) \<or> v2 s \<and> (IsNotNullIPv4 s (a + 19) \<or> IsNotNullIPv4 s (a + 23)) then do {
             s \<leftarrow> out '','' [] s;
             s \<leftarrow> CatPrintIPv4 out (a + 4) s;
             if v2 s \<and> (IsNotNullIPv4 s (a + 19) \<or> IsNotNullIPv4 s (a + 23)) then do {
               s \<leftarrow> out '','' [] s;
               s \<leftarrow> CatPrintIPv4 out (a + 19) s;
               if IsNotNullIPv4 s (a + 23) then do { s \<leftarrow> out '','' [] s; CatPrintIPv4 out (a + 23) s } else Some s
             } else Some s
           } else Some s);
     out '')'' [] s }"

definition CatPrintIPv6_ADD :: "u8 \<Rightarrow> u8 \<Rightarrow> u64" where
  "CatPrintIPv6_ADD x y = push_bit 8 (ucast x) OR ucast y"

definition CatPrintIPv6 :: "'f node_printer" where
  "CatPrintIPv6 out a s = (let g = (\<lambda>k. CatPrintIPv6_ADD (mem (snd s) (a + k)) (mem (snd s) (a + k + 1))) in
     out ''%x:%x:%x:%x:%x:%x:%x:%x'' [g 0, g 2, g 4, g 6, g 8, g 10, g 12, g 14] s)"

definition DevPathIPv6 :: "'f node_printer" where
  "DevPathIPv6 out a s = do {
     s \<leftarrow> out ''IPv6('' [] s;
     s \<leftarrow> CatPrintIPv6 out (a + 20) s;
     s \<leftarrow> out '','' [] s;
     s \<leftarrow> CatPrintNetworkProtocol out (read16 (mem (snd s)) (a + 40)) s;
     let Origin = mem (snd s) (a + 42);
     s \<leftarrow> out ('','' @ (if Origin \<noteq> 0 then if Origin = 1 then ''StatelessAutoConfigure'' else ''StatefulAutoConfigure'' else ''Static'') @ '','') [] s;
     s \<leftarrow> CatPrintIPv6 out (a + 4) s;
     s \<leftarrow> (if DevicePathNodeLength (mem (snd s)) a = sizeof_IPv6 then do {
             s \<leftarrow> out '','' [] s;
             s \<leftarrow> CatPrintIPv6 out (a + 44) s;
             s \<leftarrow> out '','' [] s;
             out ''%d'' [a + 43] s
           } else Some s);
     out '')'' [] s }"

definition DevPathUri :: "'f node_printer" where
  "DevPathUri out a s = out ''Uri(%a)'' [a + 4] s"

definition DevPathInfiniBand :: "'f node_printer" where
  "DevPathInfiniBand out a s = out ''Infiniband(0x%x,%g,0x%lx,0x%lx,0x%lx)'' [fld32 s (a + 4), a + 8, fld64 s (a + 24), fld64 s (a + 32), fld64 s (a + 40)] s"

definition DevPathUart :: "'f node_printer" where
  "DevPathUart out a s = do {
     let par = mem (snd s) (a + 17);
     let Parity = ((if par = 0 then 0x44 else if par = 1 then 0x4E else if par = 2 then 0x45 else if par = 3 then 0x4F else if par = 4 then 0x4D
                   else if par = 5 then 0x53 else 0x78) :: u64);
     s \<leftarrow> (if fld64 s (a + 8) = 0 then out ''Uart(DEFAULT,'' [] s else out ''Uart(%ld,'' [fld64 s (a + 8)] s);
     s \<leftarrow> (if fld8 s (a + 16) = 0 then out ''DEFAULT,'' [] s else out ''%d,'' [fld8 s (a + 16)] s);
     s \<leftarrow> out ''%c,'' [Parity] s;
     let StopBits = mem (snd s) (a + 18);
     out (if StopBits = 0 then ''D)'' else if StopBits = 1 then ''1)'' else if StopBits = 2 then ''1.5)'' else if StopBits = 3 then ''2)'' else ''x)'') [] s }"

definition DevPathSata :: "'f node_printer" where
  "DevPathSata out a s = out ''Sata(0x%x,0x%x,0x%x)'' [fld16 s (a + 4), fld16 s (a + 6), fld16 s (a + 8)] s"

definition SIGNATURE_TYPE_MBR :: u8 where "SIGNATURE_TYPE_MBR = 1"
definition SIGNATURE_TYPE_GUID :: u8 where "SIGNATURE_TYPE_GUID = 2"

definition DevPathHardDrive :: "'f node_printer" where
  "DevPathHardDrive out a s =
     (let SignatureType = mem (snd s) (a + 41); PartitionNumber = fld32 s (a + 4) in
      if SignatureType = SIGNATURE_TYPE_MBR then out ''HD(%d,MBR,0x%08x)'' [PartitionNumber, fld32 s (a + 24)] s
      else if SignatureType = SIGNATURE_TYPE_GUID then out ''HD(%d,GPT,%g)'' [PartitionNumber, a + 24] s
      else out ''HD(%d,%d,0)'' [PartitionNumber, ucast SignatureType] s)"

definition DevPathCDROM :: "'f node_printer" where
  "DevPathCDROM out a s = out ''CDROM(0x%x)'' [fld32 s (a + 4)] s"

definition DevPathFilePath :: "'f node_printer" where
  "DevPathFilePath out a s = out ''%s'' [a + 4] s"

definition DevPathMediaProtocol :: "'f node_printer" where
  "DevPathMediaProtocol out a s = out ''%g'' [a + 4] s"

definition bbs_types :: "(u16 \<times> string) list" where
  "bbs_types = [(1, ''Floppy''), (2, ''Harddrive''), (3, ''CDROM''), (4, ''PCMCIA''), (5, ''Usb''), (6, ''Net'')]"

definition DevPathBssBss :: "'f node_printer" where
  "DevPathBssBss out a s = (let Type = (case map_of bbs_types (read16 (mem (snd s)) (a + 4)) of Some t \<Rightarrow> t | None \<Rightarrow> ''?'') in
     out (''Bss-'' @ Type @ ''(%a)'') [a + 8] s)"

definition DevPathEndInstance :: "'f node_printer" where
  "DevPathEndInstance out a s = out '','' [] s"

text \<open>The type is read with its unpacked bit.\<close>

definition DevPathNodeUnknown :: "'f node_printer" where
  "DevPathNodeUnknown out a s = do {
     let Type = mem (snd s) a;
     let sub = fld8 s (a + 1);
     s \<leftarrow> (if Type = HARDWARE_DEVICE_PATH then out ''HardwarePath(%d'' [sub] s
           else if Type = ACPI_DEVICE_PATH then out ''AcpiPath(%d'' [sub] s
           else if Type = MESSAGING_DEVICE_PATH then out ''Msg(%d'' [sub] s
           else if Type = MEDIA_DEVICE_PATH then out ''MediaPath(%d'' [sub] s
           else if Type = BBS_DEVICE_PATH then out ''BbsPath(%d'' [sub] s
           else out ''Path(%d,%d'' [ucast Type, sub] s);
     let len = unat (DevicePathNodeLength (mem (snd s)) a);
     s \<leftarrow> (if 0 < len then out '',0x'' [] s else Some s);
     s \<leftarrow> cat_bytes out (a + 4) len s;
     out '')'' [] s }"

section \<open>Printing paths\<close>

definition DevPathTable :: "((u8 \<times> u8) \<times> 'f node_printer) list" where
  "DevPathTable = [
     ((HARDWARE_DEVICE_PATH, 1), DevPathPci), ((HARDWARE_DEVICE_PATH, 2), DevPathPccard), ((HARDWARE_DEVICE_PATH, 3), DevPathMemMap),
     ((HARDWARE_DEVICE_PATH, 4), DevPathVendor), ((HARDWARE_DEVICE_PATH, 5), DevPathController), ((ACPI_DEVICE_PATH, 1), DevPathAcpi),
     ((MESSAGING_DEVICE_PATH, 1), DevPathAtapi), ((MESSAGING_DEVICE_PATH, 2), DevPathScsi), ((MESSAGING_DEVICE_PATH, MSG_FIBRECHANNEL_DP), DevPathFibre),
     ((MESSAGING_DEVICE_PATH, 4), DevPath1394), ((MESSAGING_DEVICE_PATH, 5), DevPathUsb), ((MESSAGING_DEVICE_PATH, 6), DevPathI2O),
     ((MESSAGING_DEVICE_PATH, 0xB), DevPathMacAddr), ((MESSAGING_DEVICE_PATH, 0xC), DevPathIPv4), ((MESSAGING_DEVICE_PATH, 0xD), DevPathIPv6),
     ((MESSAGING_DEVICE_PATH, 24), DevPathUri), ((MESSAGING_DEVICE_PATH, 9), DevPathInfiniBand), ((MESSAGING_DEVICE_PATH, 0xE), DevPathUart),
     ((MESSAGING_DEVICE_PATH, 18), DevPathSata), ((MESSAGING_DEVICE_PATH, 0xA), DevPathVendor), ((MEDIA_DEVICE_PATH, 1), DevPathHardDrive),
     ((MEDIA_DEVICE_PATH, 2), DevPathCDROM), ((MEDIA_DEVICE_PATH, 3), DevPathVendor), ((MEDIA_DEVICE_PATH, 4), DevPathFilePath),
     ((MEDIA_DEVICE_PATH, 5), DevPathMediaProtocol), ((BBS_DEVICE_PATH, 1), DevPathBssBss), ((END_DEVICE_PATH_TYPE, 1), DevPathEndInstance)]"

text \<open>The node at \<open>a\<close>, with a separator before it unless the text is empty or the node ends an instance.\<close>

definition DumpNode :: "'f node_printer" where
  "DumpNode out a s = do {
     let m = mem (snd s);
     let key = (DevicePathType m a, DevicePathSubType m a);
     s \<leftarrow> (if pp_len (fst s) \<noteq> 0 \<and> key \<noteq> (END_DEVICE_PATH_TYPE, 1) then out ''/'' [] s else Some s);
     (case map_of DevPathTable key of Some f \<Rightarrow> f | None \<Rightarrow> DevPathNodeUnknown) out a s }"

partial_function (option) nodes_loop :: "'f cat_print \<Rightarrow> addr \<Rightarrow> 'f str_state \<Rightarrow> 'f str_state option" where
  [code]: "nodes_loop out DevPathNode s =
     (if IsDevicePathEnd (mem (snd s)) DevPathNode then Some s
      else do { s \<leftarrow> DumpNode out DevPathNode s; nodes_loop out (NextDevicePathNode (mem (snd s)) DevPathNode) s })"

definition CatPrint_lit :: "'f boot_services \<Rightarrow> u32 \<Rightarrow> 'f str_state sub_conv \<Rightarrow> 'f cat_print" where
  "CatPrint_lit bs pt sub f as s = map_option snd (CatPrint bs pt sub (fst s) (Literal (wlit f)) \<lparr>gp_args = as, fp_args = []\<rparr> (snd s))"

definition DevicePathToStr :: "'f boot_services \<Rightarrow> u32 \<Rightarrow> 'f str_state sub_conv \<Rightarrow> addr \<Rightarrow> 'f world \<Rightarrow> (addr \<times> 'f world) option" where
  "DevicePathToStr bs pt sub DevPath w = do {
     (DevPath, w) \<leftarrow> UnpackDevicePath bs pt DevPath w;
     (Str, w) \<leftarrow> nodes_loop (CatPrint_lit bs pt sub) DevPath (\<lparr>pp_str = 0, pp_len = 0, pp_maxlen = 0\<rparr>, w);
     let w = LibFreePool bs DevPath w;
     let NewSize = (pp_len Str + 1) * 2;
     let (str, w) = ReallocatePool bs pt (pp_str Str) NewSize NewSize w;
     Some (str, w\<lparr>mem := write16 (mem w) (str + 2 * pp_len Str) 0\<rparr>) }"

end
