(* ===== verification/Efi_Dptext.thy ===== *)
theory Efi_Dptext
  imports Efi_Dpstr
begin

text \<open>
  What \<^verbatim>\<open>DevicePathToStr\<close> prints.  The text of a node is specified on the node's type, subtype and data, the text of a path is that of its nodes with
  slashes between them; unpacking the path and growing the string in the pool do not show.
\<close>

section \<open>Printing parts of the text\<close>

text \<open>Texts and GUIDs of the memory in use.\<close>

definition pool_str :: "('f \<Rightarrow> addr \<Rightarrow> addr option) \<Rightarrow> 'f world \<Rightarrow> bool \<Rightarrow> u64 \<Rightarrow> u16 list option" where
  "pool_str owner w asc a =
     (if \<exists>t. text_at (mem w) asc a t \<and> in_use owner w a (text_size asc t)
      then Some (THE t. text_at (mem w) asc a t \<and> in_use owner w a (text_size asc t)) else None)"

definition pool_lib :: "('f \<Rightarrow> addr \<Rightarrow> addr option) \<Rightarrow> 'f world \<Rightarrow> u16 \<Rightarrow> u64 \<Rightarrow> u16 list option" where
  "pool_lib owner w c a =
     (if c = 0x72 then Some (status_text a) else if c = 0x67 \<and> in_use owner w a 16 then Some (guid_text (mem w) a) else None)"

lemma text_at_unique:
  assumes "text_at m asc a t" "text_at m asc a u"
  shows "t = u"
proof -
  have le: "length u \<le> length t" if "text_at m asc a t" "text_at m asc a u" for t u
  proof (rule ccontr)
    assume "\<not> length u \<le> length t"
    then have "(t @ [0]) ! length t = (u @ [0]) ! length t" "0 \<notin> set u" "length t < length u" using that by (auto simp: text_at_def)
    then show False by (auto simp: nth_append) (metis nth_mem)
  qed
  then have "length t = length u" using assms le_antisym by blast
  moreover have "(t @ [0]) ! k = (u @ [0]) ! k" if "k \<le> length t" for k using that assms calculation by (auto simp: text_at_def)
  ultimately show ?thesis by (intro nth_equalityI) (simp, metis less_imp_le nth_append)
qed

lemma pool_str_text:
  "text_at (mem w) asc a t \<Longrightarrow> in_use owner w a (text_size asc t) \<Longrightarrow> pool_str owner w asc a = Some t"
  using text_at_unique [of "mem w" asc a] by (auto simp: pool_str_def intro!: the_equality)

lemma pool_str_SomeD: "pool_str owner w asc a = Some t \<Longrightarrow> text_at (mem w) asc a t \<and> in_use owner w a (text_size asc t)"
  using pool_str_text by (fastforce simp: pool_str_def split: if_splits)

lemma guid_text_bytes:
  assumes "read_bytes m' a' 16 = read_bytes m a 16"
  shows "guid_text m' a' = guid_text m a" and "guid_is m' a' g = guid_is m a g"
proof -
  have r: "read_bytes m' (a' + of_nat k) n = read_bytes m (a + of_nat k) n" if "k + n \<le> 16" for k n
    using that assms by (simp add: read_bytes_part [where l = 16])
  have b: "m' (a' + of_nat k) = m (a + of_nat k)" if "k < 16" for k using arg_cong [OF assms, of "\<lambda>bs. bs ! k"] that by simp
  have g: "guid_words m' a' k = guid_words m a k" if "k < 4" for k using that r [of "4 * k" 4] by (simp add: guid_words_def read32_def)
  then show same: "guid_is m' a' g = guid_is m a g" for g by (simp add: guid_is_def compare_guid_words_def)
  have "read32 m' a' = read32 m a" using g [of 0] by (simp add: guid_words_def)
  moreover have "read16 m' (a' + 4) = read16 m (a + 4)" "read16 m' (a' + 6) = read16 m (a + 6)" using r [of 4 2] r [of 6 2] by (simp_all add: read16_def)
  moreover have "m' (a' + 8 + of_nat k) = m (a + 8 + of_nat k)" if "k < 8" for k using b [of "8 + k"] that by (simp add: add.assoc)
  then have "map (\<lambda>k. padded_hex 2 (unat (m' (a' + 8 + of_nat k)))) [0..<2] = map (\<lambda>k. padded_hex 2 (unat (m (a + 8 + of_nat k)))) [0..<2]"
    "map (\<lambda>k. padded_hex 2 (unat (m' (a' + 8 + of_nat k)))) [2..<8] = map (\<lambda>k. padded_hex 2 (unat (m (a + 8 + of_nat k)))) [2..<8]"
    by (auto intro!: map_cong simp del: upt_rec_numeral)
  ultimately show "guid_text m' a' = guid_text m a" using same by (simp only: guid_text_def)
qed

lemma pool_lib_sub:
  assumes "pool_lib owner w c a = Some t" "pool_ok owner w ctx"
  shows "std_sub dp fts (\<lambda>c. mem (snd c)) c comma a ctx = Some (t, ctx)"
  using assms guid_text_bytes(1) [OF read_bytes_frame [OF pool_ok_mem [OF assms(2), of a 16]]]
  by (auto simp: pool_lib_def std_sub_def StatusToString_text GuidToString_text split: if_splits)

lemma pool_lib_text: "pool_lib owner w c a = Some t \<Longrightarrow> 0 \<notin> set t \<and> length t < 2 ^ 63"
  using status_text_string [of a] guid_text_string [of "mem w" a] by (auto simp: pool_lib_def split: if_splits)

text \<open>The circumstances under which a path is printed: \<open>w\<close> is the world in which printing starts, \<open>L\<close> the most characters to print.\<close>

definition print_env :: "'f boot_services \<Rightarrow> u32 \<Rightarrow> ('f \<Rightarrow> addr \<Rightarrow> addr option) \<Rightarrow> ('f \<Rightarrow> nat) \<Rightarrow> nat \<Rightarrow> nat \<Rightarrow> 'f str_state sub_conv \<Rightarrow> 'f world \<Rightarrow> bool" where
  "print_env bs pt owner fits L F sub w \<longleftrightarrow>
     pool_blocks bs owner \<and> pool_fits bs (2 * (L + 201)) fits \<and> L div 200 < F \<and> (\<exists>dp fts. sub = std_sub dp fts (\<lambda>c. mem (snd c)))"

lemma print_env_formatter:
  "print_env bs pt owner fits L F sub w \<Longrightarrow> formatter (pool_dev bs pt) (pool_ok owner w) sub (pool_str owner w) (pool_lib owner w)"
  unfolding print_env_def by (elim conjE exE) (rule pool_formatter; use pool_str_SomeD pool_lib_sub pool_lib_text in blast)

text \<open>A part of the printer that appends the text \<open>t\<close>.\<close>

definition appends :: "('f \<Rightarrow> addr \<Rightarrow> addr option) \<Rightarrow> ('f \<Rightarrow> nat) \<Rightarrow> nat \<Rightarrow> nat \<Rightarrow> 'f world \<Rightarrow> ('f str_state \<Rightarrow> 'f str_state option) \<Rightarrow> u16 list \<Rightarrow> bool" where
  "appends owner fits L F w f t \<longleftrightarrow>
     (\<forall>s ctx. pool_run owner w fits F s ctx \<and> length (s @ t) \<le> L \<longrightarrow> (\<exists>ctx'. f ctx = Some ctx' \<and> pool_run owner w fits F (s @ t) ctx'))"

lemma appends_skip: "appends owner fits L F w Some []"
  by (simp add: appends_def)

lemma appends_bind: "appends owner fits L F w f t \<Longrightarrow> appends owner fits L F w g u \<Longrightarrow> appends owner fits L F w (\<lambda>s. f s \<bind> g) (t @ u)"
  unfolding appends_def by (metis (no_types, lifting) append.assoc append_Nil2 bind.bind_lunit length_append le_add1 order_trans)

lemma appends_cong: "(\<And>ctx. pool_ok owner w ctx \<Longrightarrow> f ctx = g ctx) \<Longrightarrow> appends owner fits L F w f t = appends owner fits L F w g t"
  by (simp add: appends_def pool_run_def)

text \<open>A format with its arguments denotes a text, whatever follows.\<close>

definition says :: "('f \<Rightarrow> addr \<Rightarrow> addr option) \<Rightarrow> 'f world \<Rightarrow> string \<Rightarrow> u64 list \<Rightarrow> u16 list \<Rightarrow> bool" where
  "says owner w f as t \<longleftrightarrow> 0 \<notin> set (wlit f) \<and> (\<exists>pcs. wlit f = enc_format pcs \<and> list_all piece_ok pcs \<and> (\<forall>c. Colour c \<notin> set pcs) \<and>
     (\<forall>qs bs. meaning (pool_str owner w) (pool_lib owner w) (\<lambda>_. 0) (pcs @ qs) (as @ bs) 0 =
        map_option ((@) (map Put t)) (meaning (pool_str owner w) (pool_lib owner w) (\<lambda>_. 0) qs bs 0)))"

lemma wlit_simps [simp]: "wlit [] = []" "wlit (f @ g) = wlit f @ wlit g" "length (wlit f) = length f"
  by (simp_all add: wlit_def)

lemma says_append:
  assumes "says owner w f as t" "says owner w g bs u"
  shows "says owner w (f @ g) (as @ bs) (t @ u)"
proof -
  obtain pcs qcs where "wlit f = enc_format pcs" "list_all piece_ok pcs" "\<forall>c. Colour c \<notin> set pcs" "wlit g = enc_format qcs" "list_all piece_ok qcs" "\<forall>c. Colour c \<notin> set qcs"
    and m: "\<And>qs bs. meaning (pool_str owner w) (pool_lib owner w) (\<lambda>_. 0) (pcs @ qs) (as @ bs) 0 =
        map_option ((@) (map Put t)) (meaning (pool_str owner w) (pool_lib owner w) (\<lambda>_. 0) qs bs 0)"
      "\<And>qs cs. meaning (pool_str owner w) (pool_lib owner w) (\<lambda>_. 0) (qcs @ qs) (bs @ cs) 0 =
        map_option ((@) (map Put u)) (meaning (pool_str owner w) (pool_lib owner w) (\<lambda>_. 0) qs cs 0)"
    using assms unfolding says_def by blast
  moreover have "map_option ((@) (map Put t)) (map_option ((@) (map Put u)) x) = map_option ((@) (map Put (t @ u))) x" for x by (cases x) simp_all
  moreover have "0 \<notin> set (wlit (f @ g))" using assms by (simp add: says_def)
  ultimately show ?thesis unfolding says_def by (intro conjI exI [of _ "pcs @ qcs"]) (simp_all add: enc_format_def)
qed

lemma says_plain: "0 \<notin> set (wlit f) \<Longrightarrow> 0x25 \<notin> set (wlit f) \<Longrightarrow> 0x0A \<notin> set (wlit f) \<Longrightarrow> says owner w f [] (wlit f)"
proof -
  assume f: "0 \<notin> set (wlit f)" "0x25 \<notin> set (wlit f)" "0x0A \<notin> set (wlit f)"
  have "meaning str lib at (map Plain s @ qs) bs 0 = map_option ((@) (map Put s)) (meaning str lib at qs bs 0)" if "0x0A \<notin> set s" for str lib at s qs bs
    using that by (induction s) (auto simp: crlf_def option.map_comp comp_def map_option_case option.map_ident split: option.splits)
  then show "says owner w f [] (wlit f)" using f unfolding says_def
    by (intro conjI exI [of _ "map Plain (wlit f)"]) (auto simp: plain_format list_all_iff)
qed

lemma says_directive:
  assumes "wlit f = 0x25 # enc_directive d" "0 \<notin> set (wlit f)" "tint d = None" "num_ok (width d)" "num_ok (field_width d)"
    "\<And>bs. directive_text (pool_str owner w) (pool_lib owner w) d (a # bs) = Some (t, bs)"
  shows "says owner w f [a] (crlf t)"
  unfolding says_def using assms by (intro conjI exI [of _ "[Directive d]"]) (auto simp: enc_format_def map_option_case split: option.splits)

lemma appends_out:
  assumes "print_env bs pt owner fits L F sub w" "says owner w f as t" "length f < 2 ^ 63" "\<And>ctx. pool_ok owner w ctx \<Longrightarrow> P ctx = CatPrint_lit bs pt sub f (as @ cs) ctx"
  shows "appends owner fits L F w P t"
  unfolding appends_def
proof (intro allI impI, elim conjE)
  fix s ctx assume run: "pool_run owner w fits F s ctx" "length (s @ t) \<le> L"
  obtain pcs where p: "wlit f = enc_format pcs" "0 \<notin> set (wlit f)" "list_all piece_ok pcs" "\<forall>c. Colour c \<notin> set pcs"
      "\<And>qs bs. meaning (pool_str owner w) (pool_lib owner w) (\<lambda>_. 0) (pcs @ qs) (as @ bs) 0 =
        map_option ((@) (map Put t)) (meaning (pool_str owner w) (pool_lib owner w) (\<lambda>_. 0) qs bs 0)"
    using assms(2) unfolding says_def by blast
  have l: "length (enc_format pcs) < 2 ^ 63" using assms(3) unfolding p(1) [symmetric] by simp
  have m: "meaning (pool_str owner w) (pool_lib owner w) (\<lambda>_. 0) pcs (as @ cs) 0 = Some (map Put t)" using p(5) [of "[]" cs] by simp
  have "P ctx = CatPrint_lit bs pt sub f (as @ cs) ctx" using run(1) by (intro assms(4)) (simp add: pool_run_def)
  then show "\<exists>ctx'. P ctx = Some ctx' \<and> pool_run owner w fits F (s @ t) ctx'"
    using CatPrint_appends [OF _ _ _ print_env_formatter [OF assms(1)], of L fits F s "fst ctx" "snd ctx" pcs "as @ cs" "map Put t" "[]"] assms(1) run p l m
    by (auto simp: print_env_def CatPrint_lit_def)
qed

lemma appends_if:
  "(\<And>ctx. pool_ok owner w ctx \<Longrightarrow> c ctx = b) \<Longrightarrow> (b \<Longrightarrow> appends owner fits L F w f t) \<Longrightarrow> (\<not> b \<Longrightarrow> appends owner fits L F w g u) \<Longrightarrow>
     appends owner fits L F w (\<lambda>s. if c s then f s else g s) (if b then t else u)"
  by (auto simp: appends_def pool_run_def)

end
