(* ===== verification/Efi_Dpnode.thy ===== *)
theory Efi_Dpnode
  imports Efi_Dptext
begin

text \<open>
  The text of device path nodes.  It is specified on the subtype and the data of a node, as a list of bytes; the printers of \<open>Efi_Dpstr\<close>, on a node in memory
  that is in use, append exactly this text.
\<close>

section \<open>What the conversions say\<close>

lemma ucast_ucast_u32: "LENGTH('a::len) \<le> 32 \<Longrightarrow> (ucast (ucast (v :: 'a word) :: u64) :: u32) = ucast v"
  by (rule bit_word_eqI) (auto simp: bit_simps dest: bit_imp_le_length)

lemma hex_text_crlf: "v < 2 ^ 64 \<Longrightarrow> crlf (hex_text v) = hex_text v" "v < 2 ^ 64 \<Longrightarrow> length (hex_text v) < 2 ^ 64"
proof -
  assume v: "v < 2 ^ 64"
  have "0x0A \<notin> set (hex_text v)" using hex_wchar_no_newline to_base_digits [of 16 v] by (force simp: hex_text_def)
  then show "crlf (hex_text v) = hex_text v" by (rule crlf_id)
  show "length (hex_text v) < 2 ^ 64" using hex_text_string [OF v] by simp
qed

lemma says_hex_low: "says owner w ''%x'' [a] (hex_text (unat (ucast a :: u32)))"
proof -
  have v: "unat (ucast a :: u32) < 2 ^ 64" using unsigned_less [of "ucast a :: u32", where ?'a = nat] by simp
  have "says owner w ''%x'' [a] (crlf (hex_text (unat (ucast a :: u32))))"
    by (intro says_directive [of _ "plain_directive ConvHex"]) (simp_all add: plain_directive_text(1), simp_all add: plain_directive_def enc_directive_def wlit_def num_ok_def)
  then show ?thesis using hex_text_crlf [OF v] by simp
qed

lemma says_hex: "LENGTH('a::len) \<le> 32 \<Longrightarrow> says owner w ''%x'' [ucast (v :: 'a word)] (hex_text (unat v))"
  using says_hex_low [of owner w "ucast v"] by (simp add: ucast_ucast_u32 unat_ucast_up)

lemma dec_text_crlf: "\<bar>i\<bar> \<le> 2 ^ 64 \<Longrightarrow> crlf (dec_text False i) = dec_text False i" "\<bar>i\<bar> \<le> 2 ^ 64 \<Longrightarrow> length (dec_text False i) < 2 ^ 64"
proof -
  assume i: "\<bar>i\<bar> \<le> 2 ^ 64"
  have "dec_wchar d \<noteq> 0x0A" if "d < 10" for d using dec_wchar_bounds [OF that] by auto
  then have "0x0A \<notin> set (dec_text False i)" using to_base_digits [of 10 "nat \<bar>i\<bar>"] by (force simp: dec_text_def)
  then show "crlf (dec_text False i) = dec_text False i" by (rule crlf_id)
  show "length (dec_text False i) < 2 ^ 64" using dec_text_string [OF i, of False] by simp
qed

lemma says_dec32: "says owner w ''%d'' [ucast (v :: u32)] (dec_text False (sint v))"
proof -
  note c = dec_text_crlf [OF abs_sint_le(2), of v]
  have "(ucast (ucast v :: u64) :: u32) = v" by (simp add: ucast_u32)
  then have "says owner w ''%d'' [ucast v] (crlf (dec_text False (sint v)))"
    using c(2) by (intro says_directive [of _ "plain_directive ConvDec"])
      (simp_all add: directive_text_def plain_directive_def Let_def in_field_none enc_directive_def wlit_def num_ok_def)
  then show ?thesis using c by simp
qed

lemma says_dec:
  assumes "LENGTH('a::len) < 32"
  shows "says owner w ''%d'' [ucast (v :: 'a word)] (dec_text False (uint v))"
proof -
  have "uint v < 2 ^ LENGTH('a)" by simp
  moreover have "(2 :: int) ^ LENGTH('a) \<le> 2 ^ 31" using assms by (intro power_increasing) simp_all
  ultimately have v: "uint v < 2 ^ 31" by linarith
  have u: "uint (ucast v :: u32) = uint v" using assms by (simp add: uint_up_ucast is_up)
  have "sint (ucast v :: u32) = signed_take_bit 31 (uint (ucast v :: u32))" by (simp add: sint_uint)
  moreover have "- (2 ^ 31) \<le> uint v" by (rule order_trans [of _ 0]) simp_all
  ultimately have "sint (ucast v :: u32) = uint v" using v unfolding u by (simp add: signed_take_bit_int_eq_self)
  moreover have "(ucast (ucast v :: u32) :: u64) = ucast v" using assms by (intro bit_word_eqI) (auto simp: bit_simps dest: bit_imp_le_length)
  ultimately show ?thesis using says_dec32 [of owner w "ucast v"] by simp
qed

lemma says_padded:
  assumes "LENGTH('a::len) \<le> 32" "wlit f = 0x25 # enc_directive (padded_directive k)" "0 \<notin> set (wlit f)" "0 < k" "k < 2 ^ 64"
  shows "says owner w f [ucast (v :: 'a word)] (padded_hex k (unat v))"
proof -
  have k: "unat (of_nat k :: u64) = k" using assms(5) by (rule unat_of_nat_u64)
  have v: "unat (ucast (ucast v :: u64) :: u32) = unat v" using assms(1) by (simp add: ucast_ucast_u32 unat_ucast_up)
  have "says owner w f [ucast v] (crlf (padded_hex k (unat v)))"
    using assms(2-5) k v by (intro says_directive [of _ "padded_directive k"]) (simp_all add: padded_directive_text, simp_all add: padded_directive_def num_ok_def)
  then show ?thesis using padded_hex_string [of k "ucast (ucast v :: u64)"] v by simp
qed

lemma padded_formats: "wlit ''%02x'' = 0x25 # enc_directive (padded_directive 2)" "wlit ''%04x'' = 0x25 # enc_directive (padded_directive 4)"
    "wlit ''%08x'' = 0x25 # enc_directive (padded_directive 8)"
  by (simp_all add: wlit_def enc_directive_def padded_directive_def to_base.simps dec_wchar_def)

lemma says_padded_hex:
  assumes "LENGTH('a::len) \<le> 32"
  shows "says owner w ''%02x'' [ucast (v :: 'a word)] (padded_hex 2 (unat v))" "says owner w ''%04x'' [ucast v] (padded_hex 4 (unat v))"
    "says owner w ''%08x'' [ucast v] (padded_hex 8 (unat v))"
proof -
  show "says owner w ''%02x'' [ucast v] (padded_hex 2 (unat v))" by (rule says_padded [OF assms padded_formats(1)]) (simp_all add: wlit_def)
  show "says owner w ''%04x'' [ucast v] (padded_hex 4 (unat v))" by (rule says_padded [OF assms padded_formats(2)]) (simp_all add: wlit_def)
  show "says owner w ''%08x'' [ucast v] (padded_hex 8 (unat v))" by (rule says_padded [OF assms padded_formats(3)]) (simp_all add: wlit_def)
qed

lemma says_HEX: "says owner w ''%X'' [ucast (v :: u32)] (padded_hex 8 (unat v))"
proof -
  have "says owner w ''%X'' [ucast v] (crlf (padded_hex 8 (unat v)))"
    by (intro says_directive [of _ "plain_directive ConvHEX"])
      (simp_all add: directive_text_def plain_directive_def Let_def padded_hex_def ucast_u32 enc_directive_def wlit_def num_ok_def)
  then show ?thesis using padded_hex_string [of 8 v] by simp
qed

text \<open>Directives with \<^verbatim>\<open>l\<close>.\<close>

definition long_directive :: "bool \<Rightarrow> num option \<Rightarrow> convspec \<Rightarrow> directive" where
  "long_directive z n c = \<lparr>tint = None, left_flag = False, zero_flag = z, comma_flag = False, long_flag = True, width = n, field_width = None, conv_of = c\<rparr>"

lemma says_lhex: "says owner w ''%lx'' [v] (hex_text (unat v))"
proof -
  have "says owner w ''%lx'' [v] (crlf (hex_text (unat v)))"
    using hex_text_crlf(2) [of "unat v"] unat_less_2p64 [of v] by (intro says_directive [of _ "long_directive False None ConvHex"])
      (simp_all add: directive_text_def long_directive_def Let_def in_field_none enc_directive_def wlit_def num_ok_def)
  then show ?thesis using hex_text_crlf(1) [of "unat v"] unat_less_2p64 [of v] by simp
qed

lemma says_ldec: "says owner w ''%ld'' [v] (dec_text False (sint v))"
proof -
  note c = dec_text_crlf [OF abs_sint_le(1), of v]
  have "says owner w ''%ld'' [v] (crlf (dec_text False (sint v)))"
    using c(2) by (intro says_directive [of _ "long_directive False None ConvDec"])
      (simp_all add: directive_text_def long_directive_def Let_def in_field_none enc_directive_def wlit_def num_ok_def)
  then show ?thesis using c by simp
qed

lemma says_lpadded: "says owner w ''%016lx'' [v] (padded_hex 16 (unat v))"
proof -
  let ?d = "long_directive True (Some (Num 16)) ConvHex"
  have v: "unat v < 2 ^ 64" by (simp add: unat_less_2p64)
  have "wlit ''%016lx'' = 0x25 # enc_directive ?d" by (simp add: wlit_def enc_directive_def long_directive_def to_base.simps dec_wchar_def)
  then have "says owner w ''%016lx'' [v] (crlf (padded_hex 16 (unat v)))"
    by (rule says_directive) (simp_all add: directive_text_def long_directive_def Let_def padded_hex_def num_ok_def wlit_def)
  moreover have "0x0A \<notin> set (hex_text (unat v))" using hex_wchar_no_newline to_base_digits [of 16 "unat v"] by (force simp: hex_text_def)
  then have "crlf (padded_hex 16 (unat v)) = padded_hex 16 (unat v)"
    using set_in_field [of 16 "- 1" "0x30" False "hex_text (unat v)"] unfolding padded_hex_def by (intro crlf_id) auto
  ultimately show ?thesis by simp
qed

lemma says_char: "c \<noteq> 0 \<Longrightarrow> c \<noteq> 0x0A \<Longrightarrow> says owner w ''%c'' [ucast (c :: u16)] [c]"
proof -
  assume c: "c \<noteq> 0" "c \<noteq> 0x0A"
  have u: "ucast (ucast c :: u64) = c" by (intro bit_word_eqI) (auto simp: bit_simps)
  have "says owner w ''%c'' [ucast c] (crlf (one_char c))"
    by (intro says_directive [of _ "plain_directive ConvChar"])
      (simp_all add: directive_text_def plain_directive_def Let_def one_char_def in_field_none enc_directive_def wlit_def num_ok_def u)
  then show ?thesis using c by (simp add: one_char_def crlf_def)
qed

lemma guid_text_crlf: "crlf (guid_text m a) = guid_text m a"
proof (cases "find (\<lambda>(g, _). guid_is m a g) KnownGuids")
  case None
  have "crlf (concat (map (\<lambda>k. padded_hex 2 (unat (m (a + 8 + of_nat k)))) ks)) = concat (map (\<lambda>k. padded_hex 2 (unat (m (a + 8 + of_nat k)))) ks)" for ks
    using padded_hex_small(1) by (induction ks) (simp_all add: crlf_def)
  then have c: "crlf (concat (map (\<lambda>k. padded_hex 2 (unat (m (a + 8 + of_nat k)))) ks) @ t) = concat (map (\<lambda>k. padded_hex 2 (unat (m (a + 8 + of_nat k)))) ks) @ crlf t" for ks t
    by (simp add: crlf_def)
  have h: "crlf (padded_hex 8 (unat (v :: u32)) @ t) = padded_hex 8 (unat v) @ crlf t" "crlf (padded_hex 4 (unat (u :: u16)) @ t) = padded_hex 4 (unat u) @ crlf t"
      "crlf (0x2D # t) = 0x2D # crlf t" "crlf [] = []" for v u t
    using padded_hex_string [of 8 v] padded_hex_small(2) [of 4 u] by (simp_all add: crlf_def)
  have "crlf (guid_text m a @ []) = guid_text m a @ crlf []"
    unfolding guid_text_def None by (simp only: option.case append.simps append_assoc h c)
  then show ?thesis by (simp add: h)
next
  case (Some r)
  obtain g n where r: "r = (g, n)" by fastforce
  then have "(g, n) \<in> set KnownGuids" using find_in_set [OF Some] by simp
  then have "0x0A \<notin> set (wlit n)" using KnownGuids_names by (auto simp: list_all_iff)
  then show ?thesis using Some r by (simp add: guid_text_def crlf_id)
qed

lemma says_guid: "in_use owner w a 16 \<Longrightarrow> says owner w ''%g'' [a] (guid_text (mem w) a)"
  using guid_text_string [of "mem w" a] by (subst guid_text_crlf [symmetric], intro says_directive [of _ "plain_directive ConvGuid"])
    (simp_all add: directive_text_def plain_directive_def Let_def in_field_none pool_lib_def enc_directive_def wlit_def num_ok_def)

lemma says_text:
  assumes "text_at (mem w) asc a t" "in_use owner w a (text_size asc t)" "a \<noteq> 0"
  shows "says owner w (if asc then ''%a'' else ''%s'') [a] (crlf t)"
proof (cases asc)
  case True
  then show ?thesis using pool_str_text [OF assms(1,2)] assms(1,3) by (simp, intro says_directive [of _ "plain_directive ConvAscii"])
    (simp_all add: directive_text_def plain_directive_def Let_def in_field_none enc_directive_def wlit_def num_ok_def text_at_def)
next
  case False
  then show ?thesis using pool_str_text [OF assms(1,2)] assms(1,3) by (simp, intro says_directive [of _ "plain_directive ConvWide"])
    (simp_all add: directive_text_def plain_directive_def Let_def in_field_none enc_directive_def wlit_def num_ok_def text_at_def)
qed

section \<open>Nodes in memory\<close>

text \<open>Fields of a list of bytes.\<close>

definition data16 :: "u8 list \<Rightarrow> nat \<Rightarrow> u16" where "data16 d k = le_word (take 2 (drop k d))"
definition data32 :: "u8 list \<Rightarrow> nat \<Rightarrow> u32" where "data32 d k = le_word (take 4 (drop k d))"
definition data64 :: "u8 list \<Rightarrow> nat \<Rightarrow> u64" where "data64 d k = le_word (take 8 (drop k d))"

definition data_guid :: "u8 list \<Rightarrow> nat \<Rightarrow> u16 list" where "data_guid d k = guid_text (write_bytes (\<lambda>_. 0) 0 (take 16 (drop k d))) 0"

text \<open>The size of an unpacked node with data \<open>d\<close>, and an unpacked node in memory that is in use.\<close>

definition unpacked_size :: "u8 list \<Rightarrow> nat" where
  "unpacked_size d = 4 * ((length d + 3) div 4) + 4"

definition node_in :: "('f \<Rightarrow> addr \<Rightarrow> addr option) \<Rightarrow> 'f world \<Rightarrow> addr \<Rightarrow> node \<Rightarrow> bool" where
  "node_in owner w a n \<longleftrightarrow> (let (t, st, d) = n in
     mem w a = t OR 0x80 \<and> mem w (a + 1) = st \<and> DevicePathNodeLength (mem w) a = of_nat (unpacked_size d) \<and> holds (mem w) (a + 4) d \<and>
     in_use owner w a (4 + length d) \<and> unpacked_size d < 2 ^ 16 \<and> unat a + (4 + length d) < 2 ^ 64)"

lemma length_unpacked: "4 + length d \<le> unpacked_size d" "unpacked_size d \<le> 7 + length d" "unpacked_size d mod 4 = 0"
  unfolding unpacked_size_def by presburger+

lemma in_use_part: "in_use owner w a n \<Longrightarrow> k + l \<le> n \<Longrightarrow> n \<le> 2 ^ 64 \<Longrightarrow> in_use owner w (a + of_nat k) l"
  unfolding in_use_def using in_range_sub by blast

lemma pool_ok_read:
  assumes "pool_ok owner w ctx" "in_use owner w a n" "n \<le> 2 ^ 64"
  shows "read_bytes (mem (snd ctx)) a n = read_bytes (mem w) a n"
  by (intro read_bytes_frame pool_ok_mem [OF assms(1,2)] assms(3))

lemma node_read:
  assumes "node_in owner w a (t, st, d)" "pool_ok owner w ctx" "unat (b - (a + 4)) + n \<le> length d"
  shows "read_bytes (mem (snd ctx)) b n = take n (drop (unat (b - (a + 4))) d)" and "in_use owner w b n" and "read_bytes (mem w) b n = take n (drop (unat (b - (a + 4))) d)"
proof -
  let ?k = "unat (b - (a + 4))"
  have d: "length d < 2 ^ 16" "holds (mem w) (a + 4) d" using assms(1) length_unpacked(1) [of d] by (simp_all add: node_in_def)
  have b: "b = a + 4 + of_nat ?k" by simp
  then have b': "b = a + of_nat (4 + ?k)" by (metis add.assoc of_nat_add of_nat_numeral)
  show u: "in_use owner w b n" by (subst b', rule in_use_part) (use assms(1,3) d in \<open>auto simp: node_in_def\<close>)
  have "read_bytes (mem w) b n = take n (drop ?k (read_bytes (mem w) (a + 4) (length d)))"
    by (subst b, rule read_bytes_part) (use assms(3) in simp)
  then show "read_bytes (mem w) b n = take n (drop ?k d)" using d(2) by (simp add: holds_def)
  then show "read_bytes (mem (snd ctx)) b n = take n (drop ?k d)" using pool_ok_read [OF assms(2) u] assms(3) d by simp
qed

lemma node_data:
  assumes "node_in owner w a (t, st, d)" "pool_ok owner w ctx"
  shows "unat (b - (a + 4)) < length d \<Longrightarrow> mem (snd ctx) b = d ! unat (b - (a + 4))"
    and "unat (b - (a + 4)) < length d \<Longrightarrow> fld8 ctx b = ucast (d ! unat (b - (a + 4)))"
    and "unat (b - (a + 4)) + 2 \<le> length d \<Longrightarrow> read16 (mem (snd ctx)) b = data16 d (unat (b - (a + 4)))"
    and "unat (b - (a + 4)) + 2 \<le> length d \<Longrightarrow> fld16 ctx b = ucast (data16 d (unat (b - (a + 4))))"
    and "unat (b - (a + 4)) + 4 \<le> length d \<Longrightarrow> read32 (mem (snd ctx)) b = data32 d (unat (b - (a + 4)))"
    and "unat (b - (a + 4)) + 4 \<le> length d \<Longrightarrow> fld32 ctx b = ucast (data32 d (unat (b - (a + 4))))"
    and "unat (b - (a + 4)) + 8 \<le> length d \<Longrightarrow> fld64 ctx b = data64 d (unat (b - (a + 4)))"
    and "DevicePathType (mem (snd ctx)) a = t AND 0x7F" and "DevicePathSubType (mem (snd ctx)) a = st"
    and "DevicePathNodeLength (mem (snd ctx)) a = of_nat (unpacked_size d)"
proof -
  let ?m = "mem (snd ctx)"
  note r = node_read(1) [OF assms]
  show b: "?m b = d ! unat (b - (a + 4))" if "unat (b - (a + 4)) < length d" for b using r [of b 1] that by (simp add: take_Suc_conv_app_nth hd_drop_conv_nth)
  then show "unat (b - (a + 4)) < length d \<Longrightarrow> fld8 ctx b = ucast (d ! unat (b - (a + 4)))" by (simp add: fld8_def)
  show r2: "unat (b - (a + 4)) + 2 \<le> length d \<Longrightarrow> read16 ?m b = data16 d (unat (b - (a + 4)))" using r [of b 2] by (simp only: read16_def data16_def)
  show r4: "unat (b - (a + 4)) + 4 \<le> length d \<Longrightarrow> read32 ?m b = data32 d (unat (b - (a + 4)))" using r [of b 4] by (simp only: read32_def data32_def)
  show "unat (b - (a + 4)) + 2 \<le> length d \<Longrightarrow> fld16 ctx b = ucast (data16 d (unat (b - (a + 4))))" using r2 by (simp add: fld16_def)
  show "unat (b - (a + 4)) + 4 \<le> length d \<Longrightarrow> fld32 ctx b = ucast (data32 d (unat (b - (a + 4))))" using r4 by (simp add: fld32_def)
  show "unat (b - (a + 4)) + 8 \<le> length d \<Longrightarrow> fld64 ctx b = data64 d (unat (b - (a + 4)))" using r [of b 8] by (simp only: fld64_def read64_def data64_def)
  have u: "in_use owner w a (4 + length d)" using assms(1) by (simp add: node_in_def)
  have h: "?m (a + of_nat k) = mem w (a + of_nat k)" if "k < 4" for k
    using that assms(1) length_unpacked(1) [of d] by (intro pool_ok_mem [OF assms(2) u]) (simp add: node_in_def)
  have h4: "?m a = mem w a" "?m (a + 1) = mem w (a + 1)" "?m (a + 2) = mem w (a + 2)" "?m (a + 3) = mem w (a + 3)"
    using h [of 0] h [of 1] h [of 2] h [of 3] by simp_all
  moreover have "(t OR 0x80) AND 0x7F = t AND 0x7F" by (simp add: bit.conj_disj_distrib2)
  ultimately show "DevicePathType ?m a = t AND 0x7F" "DevicePathSubType ?m a = st" "DevicePathNodeLength ?m a = of_nat (unpacked_size d)"
    using assms(1) by (simp_all add: node_in_def DevicePathType_def DevicePathSubType_def DevicePathNodeLength_def)
qed

lemma node_guid:
  assumes "node_in owner w a (t, st, d)" "pool_ok owner w ctx" "unat (b - (a + 4)) + 16 \<le> length d"
  shows "guid_text (mem w) b = data_guid d (unat (b - (a + 4)))" and "in_use owner w b 16"
proof -
  let ?g = "take 16 (drop (unat (b - (a + 4))) d)"
  have l: "length ?g = 16" using assms(3) by simp
  have "read_bytes (write_bytes (\<lambda>_. 0) 0 ?g) 0 (length ?g) = ?g" by (rule read_write_bytes) (use l in simp)
  then have "read_bytes (mem w) b 16 = read_bytes (write_bytes (\<lambda>_. 0) 0 ?g) 0 16" using node_read(3) [OF assms] unfolding l by simp
  then show "guid_text (mem w) b = data_guid d (unat (b - (a + 4)))" unfolding data_guid_def by (rule guid_text_bytes)
  show "in_use owner w b 16" by (rule node_read(2) [OF assms])
qed

text \<open>NUL-terminated texts at the start of a list of bytes.\<close>

fun narrow_string :: "u8 list \<Rightarrow> u16 list option" where
  "narrow_string [] = None"
| "narrow_string (b # bs) = (if b = 0 then Some [] else map_option ((#) (ucast b)) (narrow_string bs))"

fun wide_string :: "u8 list \<Rightarrow> u16 list option" where
  "wide_string (b # c # bs) = (if b = 0 \<and> c = 0 then Some [] else map_option ((#) (le_word [b, c])) (wide_string bs))"
| "wide_string _ = None"

end
