(* ===== verification/Efi_Dpprint.thy ===== *)
theory Efi_Dpprint
  imports Efi_Dpnode
begin

text \<open>The text of each kind of node, and that the printers of \<open>Efi_Dpstr\<close> append it.\<close>

section \<open>Texts in nodes\<close>

lemma ucast_eq_0: "(ucast (b :: u8) :: u16) = 0 \<longleftrightarrow> b = 0"
  using unat_ucast_up [of b, where ?'b = 16] by (simp add: word_unat_eq_iff)

lemma narrow_string_chars:
  "narrow_string d = Some t \<Longrightarrow> length t < length d \<and> 0 \<notin> set t \<and> (\<forall>k \<le> length t. (t @ [0]) ! k = ucast (d ! k))"
proof (induction d arbitrary: t rule: narrow_string.induct)
  case (2 b bs)
  show ?case
  proof (cases "b = 0")
    case False
    then obtain u where u: "narrow_string bs = Some u" "t = ucast b # u" using 2(2) by auto
    have "(ucast b :: u16) \<noteq> 0" using False by (simp add: ucast_eq_0)
    then show ?thesis using 2(1) [OF False u(1)] u(2) by (auto simp: nth_Cons split: nat.splits)
  qed (use 2(2) in auto)
qed simp

lemma le_word_2_zero: "(le_word [b, c] :: u16) = 0 \<longleftrightarrow> b = 0 \<and> c = 0"
proof
  assume z: "(le_word [b, c] :: u16) = 0"
  have "le_bytes (length [b, c]) (le_word [b, c] :: u16) = [b, c]" by (rule le_bytes_le_word) simp
  then show "b = 0 \<and> c = 0" unfolding z by (simp add: le_bytes_numeral)
qed simp

lemma wide_string_chars:
  "wide_string d = Some t \<Longrightarrow> 2 * length t + 2 \<le> length d \<and> 0 \<notin> set t \<and> (\<forall>k \<le> length t. (t @ [0]) ! k = le_word (take 2 (drop (2 * k) d)))"
proof (induction d arbitrary: t rule: wide_string.induct)
  case (1 b c bs)
  show ?case
  proof (cases "b = 0 \<and> c = 0")
    case False
    then obtain u where u: "wide_string bs = Some u" "t = le_word [b, c] # u" using 1(2) by auto
    then show ?thesis using 1(1) [OF False u(1)] False le_word_2_zero [of b c] by (auto simp: nth_Cons simp del: le_word.simps split: nat.splits)
  qed (use 1(2) in auto)
qed simp_all

lemma narrow_text:
  assumes "read_bytes m a (length d) = d" "narrow_string d = Some t" "length d < 2 ^ 62"
  shows "text_at m True a t" and "text_size True t \<le> length d"
proof -
  note s = narrow_string_chars [OF assms(2)]
  have "m (a + of_nat k) = d ! k" if "k \<le> length t" for k using that s arg_cong [OF assms(1), of "\<lambda>bs. bs ! k"] by simp
  then show "text_at m True a t" using s assms(3) by (simp add: text_at_def char_at_ptr_def)
  show "text_size True t \<le> length d" using s by (simp add: text_size_def)
qed

lemma wide_text:
  assumes "read_bytes m a (length d) = d" "wide_string d = Some t" "length d < 2 ^ 62"
  shows "text_at m False a t" and "text_size False t \<le> length d"
proof -
  note s = wide_string_chars [OF assms(2)]
  have "read_bytes m (a + of_nat (2 * k)) 2 = take 2 (drop (2 * k) d)" if "k \<le> length t" for k
    using that s assms(1) by (subst read_bytes_part [of _ _ "length d"]) simp_all
  then show "text_at m False a t" using s assms(3) by (simp add: text_at_def char_at_ptr_def wchr_def read16_def)
  show "text_size False t \<le> length d" using s by (simp add: text_size_def)
qed

lemma in_use_sub: "in_use owner w a n \<Longrightarrow> k \<le> n \<Longrightarrow> in_use owner w a k"
  by (auto simp: in_use_def in_range_def)

text \<open>What the conversions say on the texts and GUIDs of a node.\<close>

lemma node_says:
  assumes "node_in owner w a (t, st, d)" "unat (b - (a + 4)) \<le> length d" "b \<noteq> 0"
  shows "narrow_string (drop (unat (b - (a + 4))) d) = Some u \<Longrightarrow> says owner w ''%a'' [b] (crlf u)"
    and "wide_string (drop (unat (b - (a + 4))) d) = Some u \<Longrightarrow> says owner w ''%s'' [b] (crlf u)"
    and "unat (b - (a + 4)) + 16 \<le> length d \<Longrightarrow> says owner w ''%g'' [b] (data_guid d (unat (b - (a + 4))))"
proof -
  let ?k = "unat (b - (a + 4))" and ?e = "drop (unat (b - (a + 4))) d"
  have d: "length ?e < 2 ^ 62" using assms(1) length_unpacked(1) [of d] by (auto simp: node_in_def)
  have "pool_ok owner w (no_text, w)" by (simp add: pool_ok_def)
  note r = node_read [OF assms(1) this, of b "length ?e"] node_guid [OF assms(1) this, of b]
  have e: "read_bytes (mem w) b (length ?e) = ?e" "in_use owner w b (length ?e)" using r(2,3) assms(2) by simp_all
  show "says owner w ''%a'' [b] (crlf u)" if "narrow_string ?e = Some u"
    using says_text [OF narrow_text(1) [OF e(1) that d] in_use_sub [OF e(2) narrow_text(2) [OF e(1) that d]] assms(3)] by simp
  show "says owner w ''%s'' [b] (crlf u)" if "wide_string ?e = Some u"
    using says_text [OF wide_text(1) [OF e(1) that d] in_use_sub [OF e(2) wide_text(2) [OF e(1) that d]] assms(3)] by simp
  show "?k + 16 \<le> length d \<Longrightarrow> says owner w ''%g'' [b] (data_guid d ?k)" using says_guid [of owner w b] r(4,5) by simp
qed

section \<open>Calls in parts\<close>

text \<open>The format of a call in parts: plain text, and directives with their argument and the text they produce.\<close>

datatype part = Lit string | Arg string u64 "u16 list"

primrec part_fmt :: "part \<Rightarrow> string" where
  "part_fmt (Lit f) = f"
| "part_fmt (Arg f a t) = f"

primrec part_args :: "part \<Rightarrow> u64 list" where
  "part_args (Lit f) = []"
| "part_args (Arg f a t) = [a]"

primrec part_text :: "part \<Rightarrow> u16 list" where
  "part_text (Lit f) = wlit f"
| "part_text (Arg f a t) = t"

primrec part_ok :: "('f \<Rightarrow> addr \<Rightarrow> addr option) \<Rightarrow> 'f world \<Rightarrow> part \<Rightarrow> bool" where
  "part_ok owner w (Lit f) \<longleftrightarrow> 0 \<notin> set (wlit f) \<and> 0x25 \<notin> set (wlit f) \<and> 0x0A \<notin> set (wlit f)"
| "part_ok owner w (Arg f a t) \<longleftrightarrow> says owner w f [a] t"

lemma says_parts:
  "list_all (part_ok owner w) ps \<Longrightarrow> says owner w (concat (map part_fmt ps)) (concat (map part_args ps)) (concat (map part_text ps))"
proof (induction ps)
  case Nil
  show ?case using says_plain [of "[]" owner w] by simp
next
  case (Cons p ps)
  have "says owner w (part_fmt p) (part_args p) (part_text p)" using Cons.prems by (cases p) (simp_all add: says_plain)
  then show ?case using Cons says_append by fastforce
qed

lemma appends_parts:
  assumes "print_env bs pt owner fits L F sub w" "list_all (part_ok owner w) ps" "length (concat (map part_fmt ps)) < 2 ^ 63"
    "\<And>ctx. pool_ok owner w ctx \<Longrightarrow> P ctx = CatPrint_lit bs pt sub (concat (map part_fmt ps)) (concat (map part_args ps) @ cs) ctx"
    "t = concat (map part_text ps)"
  shows "appends owner fits L F w P t"
  unfolding assms(5) by (rule appends_out [OF assms(1) says_parts [OF assms(2)] assms(3,4)])

lemmas says_conversions = says_hex says_hex_low says_dec32 says_dec says_padded_hex says_HEX says_lhex says_ldec says_lpadded says_char

lemma nonempty: "n \<le> length d \<Longrightarrow> d \<noteq> [] \<or> n = 0"
  by auto

section \<open>The texts of nodes\<close>

abbreviation hex_of :: "'a::len word \<Rightarrow> u16 list" where "hex_of v \<equiv> hex_text (unat v)"
abbreviation dec_of :: "'a::len word \<Rightarrow> u16 list" where "dec_of v \<equiv> dec_text False (uint v)"
abbreviation signed_of :: "'a::len word \<Rightarrow> u16 list" where "signed_of v \<equiv> dec_text False (sint v)"

definition pci_text :: "u8 list \<Rightarrow> u16 list" where
  "pci_text d = wlit ''Pci(0x'' @ hex_of (d ! 1) @ wlit '',0x'' @ hex_of (d ! 0) @ wlit '')''"

lemma DevPathPci_text:
  assumes "print_env bs pt owner fits L F sub w" "node_in owner w a (t, st, d)" "2 \<le> length d"
  shows "appends owner fits L F w (DevPathPci (CatPrint_lit bs pt sub) a) (pci_text d)"
  by (rule appends_parts [OF assms(1), of "[Lit ''Pci(0x'', Arg ''%x'' (ucast (d ! 1)) (hex_of (d ! 1)), Lit '',0x'', Arg ''%x'' (ucast (d ! 0)) (hex_of (d ! 0)), Lit '')'']" _ "[]"])
    (use assms(3) nonempty [OF assms(3)] in \<open>simp_all add: DevPathPci_def pci_text_def node_data [OF assms(2)] says_conversions wlit_def\<close>)

definition pccard_text :: "u8 list \<Rightarrow> u16 list" where
  "pccard_text d = wlit ''Pccard(0x'' @ hex_of (d ! 0) @ wlit '')''"

lemma DevPathPccard_text:
  assumes "print_env bs pt owner fits L F sub w" "node_in owner w a (t, st, d)" "1 \<le> length d"
  shows "appends owner fits L F w (DevPathPccard (CatPrint_lit bs pt sub) a) (pccard_text d)"
  by (rule appends_parts [OF assms(1), of "[Lit ''Pccard(0x'', Arg ''%x'' (ucast (d ! 0)) (hex_of (d ! 0)), Lit '')'']" _ "[]"])
    (use assms(3) nonempty [OF assms(3)] in \<open>simp_all add: DevPathPccard_def pccard_text_def node_data [OF assms(2)] says_conversions wlit_def\<close>)

definition controller_text :: "u8 list \<Rightarrow> u16 list" where
  "controller_text d = wlit ''Ctrl('' @ signed_of (data32 d 0) @ wlit '')''"

lemma DevPathController_text:
  assumes "print_env bs pt owner fits L F sub w" "node_in owner w a (t, st, d)" "4 \<le> length d"
  shows "appends owner fits L F w (DevPathController (CatPrint_lit bs pt sub) a) (controller_text d)"
  by (rule appends_parts [OF assms(1), of "[Lit ''Ctrl('', Arg ''%d'' (ucast (data32 d 0)) (signed_of (data32 d 0)), Lit '')'']" _ "[]"])
    (use assms(3) nonempty [OF assms(3)] in \<open>simp_all add: DevPathController_def controller_text_def node_data [OF assms(2)] says_conversions wlit_def\<close>)

definition scsi_text :: "u8 list \<Rightarrow> u16 list" where
  "scsi_text d = wlit ''Scsi('' @ dec_of (data16 d 0) @ wlit '','' @ dec_of (data16 d 2) @ wlit '')''"

lemma DevPathScsi_text:
  assumes "print_env bs pt owner fits L F sub w" "node_in owner w a (t, st, d)" "4 \<le> length d"
  shows "appends owner fits L F w (DevPathScsi (CatPrint_lit bs pt sub) a) (scsi_text d)"
  by (rule appends_parts [OF assms(1), of "[Lit ''Scsi('', Arg ''%d'' (ucast (data16 d 0)) (dec_of (data16 d 0)), Lit '','', Arg ''%d'' (ucast (data16 d 2)) (dec_of (data16 d 2)), Lit '')'']" _ "[]"])
    (use assms(3) nonempty [OF assms(3)] in \<open>simp_all add: DevPathScsi_def scsi_text_def node_data [OF assms(2)] says_conversions wlit_def\<close>)

definition fibre_text :: "u8 list \<Rightarrow> u16 list" where
  "fibre_text d = wlit ''Fibre(0x'' @ padded_hex 16 (unat (data64 d 4)) @ wlit '',0x'' @ padded_hex 16 (unat (data64 d 12)) @ wlit '')''"

lemma DevPathFibre_text:
  assumes "print_env bs pt owner fits L F sub w" "node_in owner w a (t, st, d)" "20 \<le> length d" "t AND 0x7F = 3"
  shows "appends owner fits L F w (DevPathFibre (CatPrint_lit bs pt sub) a) (fibre_text d)"
  by (rule appends_parts [OF assms(1), of "[Lit ''Fibre(0x'', Arg ''%016lx'' (data64 d 4) (padded_hex 16 (unat (data64 d 4))), Lit '',0x'', Arg ''%016lx'' (data64 d 12) (padded_hex 16 (unat (data64 d 12))), Lit '')'']" _ "[]"])
    (use assms(3,4) nonempty [OF assms(3)] in \<open>simp_all add: DevPathFibre_def MSG_FIBRECHANNEL_DP_def fibre_text_def node_data [OF assms(2)] says_conversions wlit_def\<close>)

definition i1394_text :: "u8 list \<Rightarrow> u16 list" where
  "i1394_text d = wlit ''I1394('' @ padded_hex 16 (unat (data64 d 4)) @ wlit '')''"

lemma DevPath1394_text:
  assumes "print_env bs pt owner fits L F sub w" "node_in owner w a (t, st, d)" "12 \<le> length d"
  shows "appends owner fits L F w (DevPath1394 (CatPrint_lit bs pt sub) a) (i1394_text d)"
  by (rule appends_parts [OF assms(1), of "[Lit ''I1394('', Arg ''%016lx'' (data64 d 4) (padded_hex 16 (unat (data64 d 4))), Lit '')'']" _ "[]"])
    (use assms(3) nonempty [OF assms(3)] in \<open>simp_all add: DevPath1394_def i1394_text_def node_data [OF assms(2)] says_conversions wlit_def\<close>)

definition usb_text :: "u8 list \<Rightarrow> u16 list" where
  "usb_text d = wlit ''Usb(0x'' @ hex_of (d ! 0) @ wlit '',0x'' @ hex_of (d ! 1) @ wlit '')''"

lemma DevPathUsb_text:
  assumes "print_env bs pt owner fits L F sub w" "node_in owner w a (t, st, d)" "2 \<le> length d"
  shows "appends owner fits L F w (DevPathUsb (CatPrint_lit bs pt sub) a) (usb_text d)"
  by (rule appends_parts [OF assms(1), of "[Lit ''Usb(0x'', Arg ''%x'' (ucast (d ! 0)) (hex_of (d ! 0)), Lit '',0x'', Arg ''%x'' (ucast (d ! 1)) (hex_of (d ! 1)), Lit '')'']" _ "[]"])
    (use assms(3) nonempty [OF assms(3)] in \<open>simp_all add: DevPathUsb_def usb_text_def node_data [OF assms(2)] says_conversions wlit_def\<close>)

definition i2o_text :: "u8 list \<Rightarrow> u16 list" where
  "i2o_text d = wlit ''I2O(0x'' @ padded_hex 8 (unat (data32 d 0)) @ wlit '')''"

lemma DevPathI2O_text:
  assumes "print_env bs pt owner fits L F sub w" "node_in owner w a (t, st, d)" "4 \<le> length d"
  shows "appends owner fits L F w (DevPathI2O (CatPrint_lit bs pt sub) a) (i2o_text d)"
  by (rule appends_parts [OF assms(1), of "[Lit ''I2O(0x'', Arg ''%X'' (ucast (data32 d 0)) (padded_hex 8 (unat (data32 d 0))), Lit '')'']" _ "[]"])
    (use assms(3) nonempty [OF assms(3)] in \<open>simp_all add: DevPathI2O_def i2o_text_def node_data [OF assms(2)] says_conversions wlit_def\<close>)

definition sata_text :: "u8 list \<Rightarrow> u16 list" where
  "sata_text d = wlit ''Sata(0x'' @ hex_of (data16 d 0) @ wlit '',0x'' @ hex_of (data16 d 2) @ wlit '',0x'' @ hex_of (data16 d 4) @ wlit '')''"

lemma DevPathSata_text:
  assumes "print_env bs pt owner fits L F sub w" "node_in owner w a (t, st, d)" "6 \<le> length d"
  shows "appends owner fits L F w (DevPathSata (CatPrint_lit bs pt sub) a) (sata_text d)"
  by (rule appends_parts [OF assms(1), of "[Lit ''Sata(0x'', Arg ''%x'' (ucast (data16 d 0)) (hex_of (data16 d 0)), Lit '',0x'', Arg ''%x'' (ucast (data16 d 2)) (hex_of (data16 d 2)), Lit '',0x'', Arg ''%x'' (ucast (data16 d 4)) (hex_of (data16 d 4)), Lit '')'']" _ "[]"])
    (use assms(3) nonempty [OF assms(3)] in \<open>simp_all add: DevPathSata_def sata_text_def node_data [OF assms(2)] says_conversions wlit_def\<close>)

definition cdrom_text :: "u8 list \<Rightarrow> u16 list" where
  "cdrom_text d = wlit ''CDROM(0x'' @ hex_of (data32 d 0) @ wlit '')''"

lemma DevPathCDROM_text:
  assumes "print_env bs pt owner fits L F sub w" "node_in owner w a (t, st, d)" "4 \<le> length d"
  shows "appends owner fits L F w (DevPathCDROM (CatPrint_lit bs pt sub) a) (cdrom_text d)"
  by (rule appends_parts [OF assms(1), of "[Lit ''CDROM(0x'', Arg ''%x'' (ucast (data32 d 0)) (hex_of (data32 d 0)), Lit '')'']" _ "[]"])
    (use assms(3) nonempty [OF assms(3)] in \<open>simp_all add: DevPathCDROM_def cdrom_text_def node_data [OF assms(2)] says_conversions wlit_def\<close>)

definition memmap_text :: "u8 list \<Rightarrow> u16 list" where
  "memmap_text d = wlit ''MemMap('' @ signed_of (data32 d 0) @ wlit '',0x'' @ hex_of (ucast (data64 d 4) :: u32) @ wlit '',0x'' @ hex_of (ucast (data64 d 12) :: u32) @ wlit '')''"

lemma DevPathMemMap_text:
  assumes "print_env bs pt owner fits L F sub w" "node_in owner w a (t, st, d)" "20 \<le> length d"
  shows "appends owner fits L F w (DevPathMemMap (CatPrint_lit bs pt sub) a) (memmap_text d)"
  by (rule appends_parts [OF assms(1), of "[Lit ''MemMap('', Arg ''%d'' (ucast (data32 d 0)) (signed_of (data32 d 0)), Lit '',0x'',
        Arg ''%x'' (data64 d 4) (hex_of (ucast (data64 d 4) :: u32)), Lit '',0x'', Arg ''%x'' (data64 d 12) (hex_of (ucast (data64 d 12) :: u32)), Lit '')'']" _ "[]"])
    (use assms(3) nonempty [OF assms(3)] in \<open>simp_all add: DevPathMemMap_def memmap_text_def node_data [OF assms(2)] says_conversions wlit_def\<close>)

lemma node_addr:
  assumes "node_in owner w a (t, st, d)" "k \<le> length d"
  shows "a + 4 + of_nat k \<noteq> 0"
proof -
  have "unat a + (4 + k) < 2 ^ 64" using assms by (simp add: node_in_def)
  then have "unat (a + of_nat (4 + k)) = unat a + (4 + k)" by (rule unat_add_of_nat_u64)
  then have "a + of_nat (4 + k) \<noteq> 0" by (metis add_is_0 unat_0 zero_neq_numeral)
  then show ?thesis by (simp add: add.assoc)
qed

lemma node_says_at:
  assumes "node_in owner w a (t, st, d)" "k \<le> length d"
  shows "narrow_string (drop k d) = Some u \<Longrightarrow> says owner w ''%a'' [a + 4 + of_nat k] (crlf u)"
    and "wide_string (drop k d) = Some u \<Longrightarrow> says owner w ''%s'' [a + 4 + of_nat k] (crlf u)"
    and "k + 16 \<le> length d \<Longrightarrow> says owner w ''%g'' [a + 4 + of_nat k] (data_guid d k)"
proof -
  have "k < 2 ^ 64" using assms length_unpacked(1) [of d] by (auto simp: node_in_def)
  then have k: "unat (a + 4 + of_nat k - (a + 4)) = k" by (simp add: unat_of_nat_u64)
  note s = node_says [OF assms(1) _ node_addr [OF assms], unfolded k, OF assms(2)]
  show "narrow_string (drop k d) = Some u \<Longrightarrow> says owner w ''%a'' [a + 4 + of_nat k] (crlf u)" by (rule s(1))
  show "wide_string (drop k d) = Some u \<Longrightarrow> says owner w ''%s'' [a + 4 + of_nat k] (crlf u)" by (rule s(2))
  show "k + 16 \<le> length d \<Longrightarrow> says owner w ''%g'' [a + 4 + of_nat k] (data_guid d k)" by (rule s(3))
qed

definition file_text :: "u8 list \<Rightarrow> u16 list option" where
  "file_text d = map_option crlf (wide_string d)"

lemma DevPathFilePath_text:
  assumes "print_env bs pt owner fits L F sub w" "node_in owner w a (t, st, d)" "file_text d = Some u"
  shows "appends owner fits L F w (DevPathFilePath (CatPrint_lit bs pt sub) a) u"
  by (rule appends_parts [OF assms(1), of "[Arg ''%s'' (a + 4) u]" _ "[]"])
    (use assms(3) node_says_at(2) [OF assms(2), of 0] in \<open>auto simp: DevPathFilePath_def file_text_def\<close>)

definition uri_text :: "u8 list \<Rightarrow> u16 list option" where
  "uri_text d = map_option (\<lambda>s. wlit ''Uri('' @ crlf s @ wlit '')'') (narrow_string d)"

lemma DevPathUri_text:
  assumes "print_env bs pt owner fits L F sub w" "node_in owner w a (t, st, d)" "uri_text d = Some u"
  shows "appends owner fits L F w (DevPathUri (CatPrint_lit bs pt sub) a) u"
proof -
  obtain s where s: "narrow_string d = Some s" "u = wlit ''Uri('' @ crlf s @ wlit '')''" using assms(3) by (auto simp: uri_text_def)
  show ?thesis
    by (rule appends_parts [OF assms(1), of "[Lit ''Uri('', Arg ''%a'' (a + 4) (crlf s), Lit '')'']" _ "[]"])
      (use s node_says_at(1) [OF assms(2), of 0 s] in \<open>simp_all add: DevPathUri_def wlit_def\<close>)
qed

definition protocol_text :: "u8 list \<Rightarrow> u16 list" where
  "protocol_text d = data_guid d 0"

lemma DevPathMediaProtocol_text:
  assumes "print_env bs pt owner fits L F sub w" "node_in owner w a (t, st, d)" "16 \<le> length d"
  shows "appends owner fits L F w (DevPathMediaProtocol (CatPrint_lit bs pt sub) a) (protocol_text d)"
  by (rule appends_parts [OF assms(1), of "[Arg ''%g'' (a + 4) (data_guid d 0)]" _ "[]"])
    (use assms(3) node_says_at(3) [OF assms(2), of 0] in \<open>simp_all add: DevPathMediaProtocol_def protocol_text_def\<close>)

definition infiniband_text :: "u8 list \<Rightarrow> u16 list" where
  "infiniband_text d = wlit ''Infiniband(0x'' @ hex_of (data32 d 0) @ wlit '','' @ data_guid d 4 @ wlit '',0x'' @ hex_of (data64 d 20) @ wlit '',0x'' @
     hex_of (data64 d 28) @ wlit '',0x'' @ hex_of (data64 d 36) @ wlit '')''"

lemma DevPathInfiniBand_text:
  assumes "print_env bs pt owner fits L F sub w" "node_in owner w a (t, st, d)" "44 \<le> length d"
  shows "appends owner fits L F w (DevPathInfiniBand (CatPrint_lit bs pt sub) a) (infiniband_text d)"
  by (rule appends_parts [OF assms(1), of "[Lit ''Infiniband(0x'', Arg ''%x'' (ucast (data32 d 0)) (hex_of (data32 d 0)), Lit '','', Arg ''%g'' (a + 8) (data_guid d 4), Lit '',0x'',
        Arg ''%lx'' (data64 d 20) (hex_of (data64 d 20)), Lit '',0x'', Arg ''%lx'' (data64 d 28) (hex_of (data64 d 28)), Lit '',0x'',
        Arg ''%lx'' (data64 d 36) (hex_of (data64 d 36)), Lit '')'']" _ "[]"])
    (use assms(3) nonempty [OF assms(3)] node_says_at(3) [OF assms(2), of 4] in
      \<open>simp_all add: DevPathInfiniBand_def infiniband_text_def node_data [OF assms(2)] says_conversions wlit_def add.assoc\<close>)

text \<open>A GUID partition table, a master boot record or another kind of partition.\<close>

definition harddrive_text :: "u8 list \<Rightarrow> u16 list" where
  "harddrive_text d = wlit ''HD('' @ signed_of (data32 d 0) @ wlit '','' @
     (if d ! 37 = 1 then wlit ''MBR,0x'' @ padded_hex 8 (unat (data32 d 20))
      else if d ! 37 = 2 then wlit ''GPT,'' @ data_guid d 20
      else dec_of (d ! 37) @ wlit '',0'') @ wlit '')''"

lemma DevPathHardDrive_text:
  assumes "print_env bs pt owner fits L F sub w" "node_in owner w a (t, st, d)" "38 \<le> length d"
  shows "appends owner fits L F w (DevPathHardDrive (CatPrint_lit bs pt sub) a) (harddrive_text d)"
proof -
  let ?n = "Arg ''%d'' (ucast (data32 d 0)) (signed_of (data32 d 0))"
  note defs = DevPathHardDrive_def harddrive_text_def node_data [OF assms(2)] says_conversions wlit_def SIGNATURE_TYPE_MBR_def SIGNATURE_TYPE_GUID_def Let_def add.assoc
  have facts: "38 \<le> length d" "d \<noteq> []" "says owner w ''%g'' [a + 24] (data_guid d 20)"
    using assms(3) nonempty [OF assms(3)] node_says_at(3) [OF assms(2), of 20] by (simp_all add: add.assoc)
  consider "d ! 37 = 1" | "d ! 37 = 2" | "d ! 37 \<noteq> 1" "d ! 37 \<noteq> 2" by blast
  then show ?thesis
  proof cases
    case 1
    then show ?thesis
      by (intro appends_parts [OF assms(1), of "[Lit ''HD('', ?n, Lit '',MBR,0x'', Arg ''%08x'' (ucast (data32 d 20)) (padded_hex 8 (unat (data32 d 20))), Lit '')'']" _ "[]"])
        (use facts in \<open>simp_all add: defs\<close>)
  next
    case 2
    then show ?thesis
      by (intro appends_parts [OF assms(1), of "[Lit ''HD('', ?n, Lit '',GPT,'', Arg ''%g'' (a + 24) (data_guid d 20), Lit '')'']" _ "[]"])
        (use facts in \<open>simp_all add: defs\<close>)
  next
    case 3
    then show ?thesis
      by (intro appends_parts [OF assms(1), of "[Lit ''HD('', ?n, Lit '','', Arg ''%d'' (ucast (d ! 37)) (dec_of (d ! 37)), Lit '',0)'']" _ "[]"])
        (use facts in \<open>simp_all add: defs\<close>)
  qed
qed

definition atapi_text :: "u8 list \<Rightarrow> u16 list" where
  "atapi_text d = wlit ''Ata('' @ wlit (if d ! 0 = 0 then ''Primary'' else ''Secondary'') @ wlit '','' @ wlit (if d ! 1 = 0 then ''Master'' else ''Slave'') @ wlit '')''"

lemma ucast_u8_zero: "(ucast (b :: u8) :: u64) = 0 \<longleftrightarrow> b = 0"
  using unat_ucast_up [of b, where ?'b = 64] by (simp add: word_unat_eq_iff)

lemma DevPathAtapi_text:
  assumes "print_env bs pt owner fits L F sub w" "node_in owner w a (t, st, d)" "2 \<le> length d"
  shows "appends owner fits L F w (DevPathAtapi (CatPrint_lit bs pt sub) a) (atapi_text d)"
  by (rule appends_parts [OF assms(1), of "[Lit ''Ata('', Lit (if d ! 0 = 0 then ''Primary'' else ''Secondary''), Lit '','', Lit (if d ! 1 = 0 then ''Master'' else ''Slave''), Lit '')'']" _ "[]"])
    (use assms(3) nonempty [OF assms(3)] in \<open>simp_all add: DevPathAtapi_def atapi_text_def node_data [OF assms(2)] wlit_def ucast_u8_zero\<close>)

definition bbs_name :: "u16 \<Rightarrow> string" where
  "bbs_name ty = (case map_of bbs_types ty of Some n \<Rightarrow> n | None \<Rightarrow> ''?'')"

definition bbs_text :: "u8 list \<Rightarrow> u16 list option" where
  "bbs_text d = map_option (\<lambda>s. wlit ''Bss-'' @ wlit (bbs_name (data16 d 0)) @ wlit ''('' @ crlf s @ wlit '')'') (narrow_string (drop 4 d))"

lemma bbs_name_lit: "part_ok owner w (Lit (bbs_name ty))" "length (bbs_name ty) \<le> 9"
  by (auto simp: bbs_name_def bbs_types_def wlit_def)

lemma DevPathBssBss_text:
  assumes "print_env bs pt owner fits L F sub w" "node_in owner w a (t, st, d)" "4 \<le> length d" "bbs_text d = Some u"
  shows "appends owner fits L F w (DevPathBssBss (CatPrint_lit bs pt sub) a) u"
proof -
  obtain s where s: "narrow_string (drop 4 d) = Some s" "u = wlit ''Bss-'' @ wlit (bbs_name (data16 d 0)) @ wlit ''('' @ crlf s @ wlit '')''"
    using assms(4) by (auto simp: bbs_text_def)
  have "says owner w ''%a'' [a + 8] (crlf s)" using node_says_at(1) [OF assms(2,3) s(1)] by (simp add: add.assoc)
  then show ?thesis
    by (intro appends_parts [OF assms(1), of "[Lit ''Bss-'', Lit (bbs_name (data16 d 0)), Lit ''('', Arg ''%a'' (a + 8) (crlf s), Lit '')'']" _ "[]"])
      (use s bbs_name_lit(1) [of _ _ "data16 d 0"] bbs_name_lit(2) [of "data16 d 0"] assms(3) nonempty [OF assms(3)] in \<open>auto simp: DevPathBssBss_def node_data [OF assms(2)] wlit_def Let_def simp flip: bbs_name_def\<close>)
qed

definition acpi_devices :: "(u32 \<times> string) list" where
  "acpi_devices = [(0x301, ''Keyboard''), (0x401, ''ParallelPort''), (0x501, ''Serial''), (0x604, ''Floppy''), (0xA03, ''PciRoot''), (0xA08, ''PcieRoot'')]"

definition acpi_uid_text :: "u32 \<Rightarrow> u16 list" where
  "acpi_uid_text uid = (if uid \<noteq> 0 then wlit '','' @ signed_of uid else [])"

definition acpi_text :: "u8 list \<Rightarrow> u16 list" where
  "acpi_text d = (let hid = data32 d 0; uid = data32 d 4 in
     if hid AND 0xFFFF = 0x41D0 then
       case map_of acpi_devices (drop_bit 16 hid) of
         Some n \<Rightarrow> wlit n @ wlit ''('' @ signed_of uid @ wlit '')''
       | None \<Rightarrow> wlit ''Acpi(PNP'' @ padded_hex 4 (unat (drop_bit 16 hid)) @ acpi_uid_text uid @ wlit '')''
     else wlit ''Acpi(0x'' @ padded_hex 8 (unat hid) @ acpi_uid_text uid @ wlit '')'')"

lemma map_of_acpi_names: "map_of acpi_names x = map_option (\<lambda>n. n @ ''(%d)'') (map_of acpi_devices x)"
  by (simp add: acpi_names_def acpi_devices_def)

lemma acpi_device_lit: "map_of acpi_devices x = Some n \<Longrightarrow> part_ok owner w (Lit n) \<and> length n < 20"
  by (auto simp: acpi_devices_def wlit_def split: if_splits)

lemma acpi_uid_appends:
  assumes "print_env bs pt owner fits L F sub w" "node_in owner w a (t, st, d)" "8 \<le> length d"
  shows "appends owner fits L F w (acpi_uid (CatPrint_lit bs pt sub) a) (acpi_uid_text (data32 d 4))"
proof -
  have "appends owner fits L F w (\<lambda>s. CatPrint_lit bs pt sub '',%d'' [fld32 s (a + 8)] s) (wlit '','' @ signed_of (data32 d 4))"
    by (rule appends_parts [OF assms(1), of "[Lit '','', Arg ''%d'' (ucast (data32 d 4)) (signed_of (data32 d 4))]" _ "[]"])
      (use assms(3) in \<open>simp_all add: node_data [OF assms(2)] says_conversions wlit_def\<close>)
  then show ?thesis unfolding acpi_uid_def [abs_def] acpi_uid_text_def using assms(3)
    by (intro appends_if appends_skip) (simp_all add: node_data [OF assms(2)])
qed

lemma appends_lit:
  assumes "print_env bs pt owner fits L F sub w" "part_ok owner w (Lit f)" "length f < 2 ^ 63" "t = wlit f" "P = CatPrint_lit bs pt sub f cs"
  shows "appends owner fits L F w P t"
  using appends_parts [OF assms(1), of "[Lit f]" P cs t] assms by simp

lemma DevPathAcpi_text:
  assumes "print_env bs pt owner fits L F sub w" "node_in owner w a (t, st, d)" "8 \<le> length d"
  shows "appends owner fits L F w (DevPathAcpi (CatPrint_lit bs pt sub) a) (acpi_text d)"
proof -
  let ?out = "CatPrint_lit bs pt sub" and ?hid = "data32 d 0" and ?uid = "data32 d 4"
  note facts = assms(3) nonempty [OF assms(3)] and defs = node_data [OF assms(2)] says_conversions wlit_def
  note uid = acpi_uid_appends [OF assms]
  have close: "appends owner fits L F w (?out '')'' cs) (wlit '')'')" for cs by (rule appends_lit [OF assms(1)]) (simp_all add: wlit_def)
  have num: "\<And>ctx. pool_ok owner w ctx \<Longrightarrow> DevPathAcpi ?out a ctx =
     (if ?hid AND 0xFFFF = 0x41D0 then
        case map_of acpi_devices (drop_bit 16 ?hid) of
          Some n \<Rightarrow> ?out (n @ ''(%d)'') [ucast ?uid] ctx
        | None \<Rightarrow> ?out ''Acpi(PNP%04x'' [ucast (drop_bit 16 ?hid)] ctx \<bind> (\<lambda>s. acpi_uid ?out a s \<bind> ?out '')'' [])
      else ?out ''Acpi(0x%X'' [ucast ?hid] ctx \<bind> (\<lambda>s. acpi_uid ?out a s \<bind> (\<lambda>s. ?out '')'' [fld32 s (a + 4), fld32 s (a + 8)] s)))"
    using facts by (simp add: DevPathAcpi_def defs PNP_EISA_ID_CONST_def PNP_EISA_ID_MASK_def EISA_ID_TO_NUM_def map_of_acpi_names Let_def split: option.split)
  have close': "appends owner fits L F w (\<lambda>s. ?out '')'' [fld32 s (a + 4), fld32 s (a + 8)] s) (wlit '')'')"
    by (rule appends_parts [OF assms(1), of "[Lit '')'']" _ "[ucast ?hid, ucast ?uid]"]) (use facts in \<open>simp_all add: defs\<close>)
  have pnp: "appends owner fits L F w (?out ''Acpi(PNP%04x'' [ucast (drop_bit 16 ?hid)]) (wlit ''Acpi(PNP'' @ padded_hex 4 (unat (drop_bit 16 ?hid)))"
    by (rule appends_parts [OF assms(1), of "[Lit ''Acpi(PNP'', Arg ''%04x'' (ucast (drop_bit 16 ?hid)) (padded_hex 4 (unat (drop_bit 16 ?hid)))]" _ "[]"])
      (simp_all add: defs)
  have hid: "appends owner fits L F w (?out ''Acpi(0x%X'' [ucast ?hid]) (wlit ''Acpi(0x'' @ padded_hex 8 (unat ?hid))"
    by (rule appends_parts [OF assms(1), of "[Lit ''Acpi(0x'', Arg ''%X'' (ucast ?hid) (padded_hex 8 (unat ?hid))]" _ "[]"]) (simp_all add: defs)
  have dev: "appends owner fits L F w (?out (n @ ''(%d)'') [ucast ?uid]) (wlit n @ wlit ''('' @ signed_of ?uid @ wlit '')'')"
    if "map_of acpi_devices (drop_bit 16 ?hid) = Some n" for n
    by (rule appends_parts [OF assms(1), of "[Lit n, Lit ''('', Arg ''%d'' (ucast ?uid) (signed_of ?uid), Lit '')'']" _ "[]"])
      (use acpi_device_lit [OF that, of owner w] in \<open>simp_all add: defs\<close>)
  show ?thesis
    by (subst appends_cong [OF num], assumption, cases "?hid AND 0xFFFF = 0x41D0"; cases "map_of acpi_devices (drop_bit 16 ?hid)")
      (use dev appends_bind [OF pnp appends_bind [OF uid close [of "[]"]]] appends_bind [OF hid appends_bind [OF uid close']] in \<open>simp_all add: acpi_text_def Let_def\<close>)
qed

text \<open>Hardware addresses of six bytes.\<close>

definition bytes_text :: "u8 list \<Rightarrow> u16 list" where
  "bytes_text bs = concat (map (\<lambda>b. padded_hex 2 (unat b)) bs)"

lemma cat_bytes_appends:
  assumes "print_env bs pt owner fits L F sub w" "node_in owner w a (t, st, d)"
  shows "k + n \<le> length d \<Longrightarrow> appends owner fits L F w (cat_bytes (CatPrint_lit bs pt sub) (a + 4 + of_nat k) n) (bytes_text (take n (drop k d)))"
proof (induction n arbitrary: k)
  case 0
  then show ?case by (simp add: bytes_text_def appends_skip [unfolded fun_eq_iff] appends_def)
next
  case (Suc n)
  have d: "length d < 2 ^ 64" using assms(2) length_unpacked(1) [of d] by (auto simp: node_in_def)
  have k: "unat (a + 4 + of_nat k - (a + 4)) = k" using Suc.prems d by (simp add: unat_of_nat_u64)
  have fld: "fld8 ctx (a + 4 + of_nat k) = ucast (d ! k)" if "pool_ok owner w ctx" for ctx
    using node_data(2) [OF assms(2) that, of "a + 4 + of_nat k"] Suc.prems unfolding k by simp
  have "appends owner fits L F w (\<lambda>s. CatPrint_lit bs pt sub ''%02x'' [fld8 s (a + 4 + of_nat k)] s) (padded_hex 2 (unat (d ! k)))"
    by (rule appends_parts [OF assms(1), of "[Arg ''%02x'' (ucast (d ! k)) (padded_hex 2 (unat (d ! k)))]" _ "[]"])
      (simp_all add: says_conversions fld)
  moreover have "appends owner fits L F w (cat_bytes (CatPrint_lit bs pt sub) (a + 4 + of_nat k + 1) n) (bytes_text (take n (drop (Suc k) d)))"
    using Suc.IH [of "Suc k"] Suc.prems by (simp add: algebra_simps)
  moreover have "drop k d = d ! k # drop (Suc k) d" using Suc.prems by (simp add: Cons_nth_drop_Suc)
  ultimately show ?case using appends_bind unfolding bytes_text_def by fastforce
qed

definition mac_text :: "u8 list \<Rightarrow> u16 list option" where
  "mac_text d = (if d ! 32 \<le> 1 then Some (wlit ''Mac('' @ bytes_text (take 6 d) @ (if d ! 32 = 1 then wlit '',1'' else []) @ wlit '')'') else None)"

lemma DevPathMacAddr_text:
  assumes "print_env bs pt owner fits L F sub w" "node_in owner w a (t, st, d)" "33 \<le> length d" "mac_text d = Some u"
  shows "appends owner fits L F w (DevPathMacAddr (CatPrint_lit bs pt sub) a) u"
proof -
  let ?out = "CatPrint_lit bs pt sub"
  have u: "d ! 32 \<le> 1" "u = wlit ''Mac('' @ bytes_text (take 6 d) @ (if d ! 32 = 1 then wlit '',1'' else []) @ wlit '')''"
    using assms(4) by (auto simp: mac_text_def split: if_splits)
  then have i: "d ! 32 = 0 \<or> d ! 32 = 1" by (simp add: word_le_nat_alt word_unat_eq_iff) arith
  have P: "DevPathMacAddr ?out a ctx = ?out ''Mac('' [] ctx \<bind> (\<lambda>s. cat_bytes ?out (a + 4) 6 s \<bind>
      (\<lambda>s. (if mem (snd s) (a + 36) \<noteq> 0 then ?out '',%d'' [fld8 s (a + 36)] s else Some s) \<bind> ?out '')'' []))" if "pool_ok owner w ctx" for ctx
    using i assms(3) that by (auto simp: DevPathMacAddr_def node_data(1) [OF assms(2)] Let_def)
  have lit: "appends owner fits L F w (?out f []) (wlit f)" if "f \<in> {''Mac('', '')''}" for f
    using that by (intro appends_lit [OF assms(1)]) (auto simp: wlit_def)
  have bytes: "appends owner fits L F w (cat_bytes ?out (a + 4) 6) (bytes_text (take 6 d))" using cat_bytes_appends [OF assms(1,2), of 0 6] assms(3) by simp
  have "appends owner fits L F w (\<lambda>s. ?out '',%d'' [fld8 s (a + 36)] s) (wlit '','' @ dec_of (d ! 32))"
    by (rule appends_parts [OF assms(1), of "[Lit '','', Arg ''%d'' (ucast (d ! 32)) (dec_of (d ! 32))]" _ "[]"])
      (use assms(3) in \<open>simp_all add: node_data [OF assms(2)] says_conversions wlit_def\<close>)
  then have ty: "appends owner fits L F w (\<lambda>s. if mem (snd s) (a + 36) \<noteq> 0 then ?out '',%d'' [fld8 s (a + 36)] s else Some s)
      (if d ! 32 \<noteq> 0 then wlit '','' @ dec_of (d ! 32) else [])"
    by (intro appends_if appends_skip) (use assms(3) in \<open>simp_all add: node_data [OF assms(2)]\<close>)
  have "appends owner fits L F w (DevPathMacAddr ?out a) (wlit ''Mac('' @ bytes_text (take 6 d) @ (if d ! 32 \<noteq> 0 then wlit '','' @ dec_of (d ! 32) else []) @ wlit '')'')"
    by (subst appends_cong [OF P], assumption) (intro appends_bind lit bytes ty, simp_all)
  moreover have "dec_of (1 :: u8) = wlit ''1''" by (simp add: dec_text_def to_base.simps dec_wchar_def wlit_def)
  ultimately show ?thesis using i u(2) by (auto simp: wlit_def)
qed

text \<open>Vendor nodes; one GUID is followed by a drive letter.\<close>

lemma le_word_inject: "length xs = 4 \<Longrightarrow> length ys = 4 \<Longrightarrow> (le_word xs :: u32) = le_word ys \<longleftrightarrow> xs = ys"
  using le_bytes_le_word [of xs, where 'a = 32] le_bytes_le_word [of ys, where 'a = 32] by fastforce

lemma all_less_4: "(\<forall>i < 4. P i) \<longleftrightarrow> P 0 \<and> P 1 \<and> P 2 \<and> P (3 :: nat)"
proof -
  have "i < 4 \<longleftrightarrow> i = 0 \<or> i = 1 \<or> i = 2 \<or> i = 3" for i :: nat by arith
  then show ?thesis by auto
qed

lemma ex_less_4: "(\<exists>i < 4. P i) \<longleftrightarrow> P 0 \<or> P 1 \<or> P 2 \<or> P (3 :: nat)"
  using all_less_4 [of "\<lambda>i. \<not> P i"] by auto

lemma take_4_eq:
  assumes "length (xs :: u8 list) = 16" "length ys = 16" "\<forall>i < 4. take 4 (drop (4 * i) xs) = take 4 (drop (4 * i) ys)"
  shows "xs = ys"
proof (rule nth_equalityI)
  fix k assume k: "k < length xs"
  then have "k div 4 < 4" using assms(1) by (simp add: div_less_iff_less_mult)
  then have "take 4 (drop (4 * (k div 4)) xs) ! (k mod 4) = take 4 (drop (4 * (k div 4)) ys) ! (k mod 4)" using assms(3) by simp
  then show "xs ! k = ys ! k" using k assms(1,2) by simp
qed (use assms in simp)

lemma guid_is_bytes: "length g = 16 \<Longrightarrow> guid_is m a g \<longleftrightarrow> read_bytes m a 16 = g"
proof -
  assume g: "length g = 16"
  have w: "guid_words m a i = le_word (take 4 (drop (4 * i) (read_bytes m a 16)))" if "i < 4" for i
    using that read_bytes_part [of "4 * i" 4 16 m a] by (simp add: guid_words_def read32_def)
  have "guid_is m a g \<longleftrightarrow> (\<forall>i < 4. guid_words m a i = le_word (take 4 (drop (4 * i) g)))"
    by (simp add: guid_is_def compare_guid_words_def Let_def or_eq_0_iff signed_eq_0_iff all_less_4)
  also have "\<dots> \<longleftrightarrow> (\<forall>i < 4. take 4 (drop (4 * i) (read_bytes m a 16)) = take 4 (drop (4 * i) g))"
    using g by (simp add: w le_word_inject)
  finally show "guid_is m a g \<longleftrightarrow> read_bytes m a 16 = g" using take_4_eq [of "read_bytes m a 16" g] g by auto
qed

definition vendor_text :: "string \<Rightarrow> u8 list \<Rightarrow> u16 list option" where
  "vendor_text name d = (if take 16 d \<noteq> UNKNOWN_DEVICE_GUID then Some (wlit ''Ven'' @ wlit name @ wlit ''('' @ data_guid d 0 @ wlit '')'')
     else if 17 \<le> length d then Some (wlit ''Ven'' @ wlit name @ wlit ''('' @ data_guid d 0 @ wlit '':'' @ padded_hex 2 (unat (d ! 16)) @ wlit '')'') else None)"

lemma DevPathVendor_text:
  assumes "print_env bs pt owner fits L F sub w" "node_in owner w a (t, st, d)" "16 \<le> length d" "vendor_text name d = Some u"
    "(t AND 0x7F, name) \<in> {(1, ''Hw''), (3, ''Msg''), (4, ''Media'')}"
  shows "appends owner fits L F w (DevPathVendor (CatPrint_lit bs pt sub) a) u"
proof -
  let ?out = "CatPrint_lit bs pt sub"
  have name: "part_ok owner w (Lit name)" "length name < 10" using assms(5) by (auto simp: wlit_def)
  have guid: "read_bytes (mem (snd ctx)) (a + 4) 16 = take 16 d" if "pool_ok owner w ctx" for ctx
    using node_read(1) [OF assms(2) that, of "a + 4" 16] assms(3) by simp
  have "length UNKNOWN_DEVICE_GUID = 16" by (simp add: UNKNOWN_DEVICE_GUID_def guid_def)
  then have known: "guid_is (mem (snd ctx)) (a + 4) UNKNOWN_DEVICE_GUID \<longleftrightarrow> take 16 d = UNKNOWN_DEVICE_GUID" if "pool_ok owner w ctx" for ctx
    using guid [OF that] by (simp add: guid_is_bytes)
  have P: "DevPathVendor ?out a ctx = ?out (''Ven'' @ name @ ''(%g'') [a + 4] ctx \<bind>
      (\<lambda>s. if guid_is (mem (snd s)) (a + 4) UNKNOWN_DEVICE_GUID then ?out '':%02x)'' [fld8 s (a + 20)] s else ?out '')'' [] s)" if "pool_ok owner w ctx" for ctx
    using assms(5) by (auto simp: DevPathVendor_def node_data(8) [OF assms(2) that] HARDWARE_DEVICE_PATH_def MESSAGING_DEVICE_PATH_def MEDIA_DEVICE_PATH_def Let_def)
  have head: "appends owner fits L F w (?out (''Ven'' @ name @ ''(%g'') [a + 4]) (wlit ''Ven'' @ wlit name @ wlit ''('' @ data_guid d 0)"
    by (rule appends_parts [OF assms(1), of "[Lit ''Ven'', Lit name, Lit ''('', Arg ''%g'' (a + 4) (data_guid d 0)]" _ "[]"])
      (use name node_says_at(3) [OF assms(2), of 0] assms(3) in \<open>simp_all add: wlit_def\<close>)
  have drive: "appends owner fits L F w (\<lambda>s. ?out '':%02x)'' [fld8 s (a + 20)] s) (wlit '':'' @ padded_hex 2 (unat (d ! 16)) @ wlit '')'')" if "17 \<le> length d"
    by (rule appends_parts [OF assms(1), of "[Lit '':'', Arg ''%02x'' (ucast (d ! 16)) (padded_hex 2 (unat (d ! 16))), Lit '')'']" _ "[]"])
      (use that in \<open>simp_all add: node_data [OF assms(2)] says_conversions wlit_def\<close>)
  have close: "appends owner fits L F w (\<lambda>s. ?out '')'' [] s) (wlit '')'')" by (intro appends_lit [OF assms(1)]) (auto simp: wlit_def)
  show ?thesis
  proof (cases "take 16 d = UNKNOWN_DEVICE_GUID")
    case True
    then have "17 \<le> length d" "u = (wlit ''Ven'' @ wlit name @ wlit ''('' @ data_guid d 0) @ (wlit '':'' @ padded_hex 2 (unat (d ! 16)) @ wlit '')'')"
      using assms(4) by (auto simp: vendor_text_def split: if_splits)
    then show ?thesis using appends_bind [OF head appends_if [OF known drive close]] True by (subst appends_cong [OF P]) simp_all
  next
    case False
    then have "u = (wlit ''Ven'' @ wlit name @ wlit ''('' @ data_guid d 0) @ wlit '')''" using assms(4) by (auto simp: vendor_text_def)
    then show ?thesis using appends_bind [OF head appends_if [OF known _ close]] False by (subst appends_cong [OF P]) simp_all
  qed
qed

definition instance_text :: "u8 list \<Rightarrow> u16 list" where
  "instance_text d = wlit '',''"

lemma DevPathEndInstance_text:
  assumes "print_env bs pt owner fits L F sub w"
  shows "appends owner fits L F w (DevPathEndInstance (CatPrint_lit bs pt sub) a) (instance_text d)"
  unfolding DevPathEndInstance_def [abs_def] instance_text_def by (intro appends_lit [OF assms]) (auto simp: wlit_def)

end
