(* ===== verification/Efi_Dpnet.thy ===== *)
theory Efi_Dpnet
  imports Efi_Dpprint
begin

text \<open>The text of nodes that are printed in several calls: serial lines and internet addresses.\<close>

section \<open>Serial lines\<close>

definition uart_parity :: "u8 \<Rightarrow> string" where
  "uart_parity p = (if p < 6 then [''DNEOMS'' ! unat p] else ''x'')"

definition uart_stop :: "u8 \<Rightarrow> string" where
  "uart_stop s = (if s = 0 then ''D'' else if s = 1 then ''1'' else if s = 2 then ''1.5'' else if s = 3 then ''2'' else ''x'')"

definition uart_text :: "u8 list \<Rightarrow> u16 list" where
  "uart_text d = wlit ''Uart('' @ (if data64 d 4 = 0 then wlit ''DEFAULT'' else signed_of (data64 d 4)) @ wlit '','' @
     (if d ! 12 = 0 then wlit ''DEFAULT'' else dec_of (d ! 12)) @ wlit '','' @ wlit (uart_parity (d ! 13)) @ wlit '','' @ wlit (uart_stop (d ! 14)) @ wlit '')''"

lemma less_6_cases: "(p :: u8) < 6 \<longleftrightarrow> p = 0 \<or> p = 1 \<or> p = 2 \<or> p = 3 \<or> p = 4 \<or> p = 5"
  by (simp add: word_less_nat_alt word_unat_eq_iff) arith

lemma uart_parity_char:
  "[ucast ((if p = 0 then 0x44 else if p = 1 then 0x4E else if p = 2 then 0x45 else if p = 3 then 0x4F else if p = 4 then 0x4D
      else if p = 5 then 0x53 else 0x78) :: u64) :: u16] = wlit (uart_parity p)"
  unfolding uart_parity_def less_6_cases by (auto simp: wlit_def)

lemma DevPathUart_text:
  assumes "print_env bs pt owner fits L F sub w" "node_in owner w a (t, st, d)" "15 \<le> length d"
  shows "appends owner fits L F w (DevPathUart (CatPrint_lit bs pt sub) a) (uart_text d)"
proof -
  let ?out = "CatPrint_lit bs pt sub"
  let ?par = "(if d ! 13 = 0 then 0x44 else if d ! 13 = 1 then 0x4E else if d ! 13 = 2 then 0x45 else if d ! 13 = 3 then 0x4F else if d ! 13 = 4 then 0x4D
      else if d ! 13 = 5 then 0x53 else 0x78) :: u64"
  note f = node_data [OF assms(2)]
  have P: "DevPathUart ?out a ctx =
      (if fld64 ctx (a + 8) = 0 then ?out ''Uart(DEFAULT,'' [] ctx else ?out ''Uart(%ld,'' [fld64 ctx (a + 8)] ctx) \<bind>
      (\<lambda>s. (if fld8 s (a + 16) = 0 then ?out ''DEFAULT,'' [] s else ?out ''%d,'' [fld8 s (a + 16)] s) \<bind>
      (\<lambda>s. ?out ''%c,'' [?par] s \<bind>
      (\<lambda>s. ?out (if mem (snd s) (a + 18) = 0 then ''D)'' else if mem (snd s) (a + 18) = 1 then ''1)'' else if mem (snd s) (a + 18) = 2 then ''1.5)''
         else if mem (snd s) (a + 18) = 3 then ''2)'' else ''x)'') [] s)))" if "pool_ok owner w ctx" for ctx
    using f(1) [OF that, of "a + 17"] assms(3) by (simp add: DevPathUart_def Let_def)
  have lit: "appends owner fits L F w (\<lambda>s. ?out f [] s) (wlit f)" if "f \<in> {''Uart(DEFAULT,'', ''DEFAULT,''}" for f
    using that by (intro appends_lit [OF assms(1)]) (auto simp: wlit_def)
  have baud: "appends owner fits L F w (\<lambda>s. if fld64 s (a + 8) = 0 then ?out ''Uart(DEFAULT,'' [] s else ?out ''Uart(%ld,'' [fld64 s (a + 8)] s)
      (if data64 d 4 = 0 then wlit ''Uart(DEFAULT,'' else wlit ''Uart('' @ signed_of (data64 d 4) @ wlit '','')"
    by (intro appends_if lit appends_parts [OF assms(1), of "[Lit ''Uart('', Arg ''%ld'' (data64 d 4) (signed_of (data64 d 4)), Lit '','']" _ "[]"])
      (use assms(3) in \<open>simp_all add: f says_conversions wlit_def\<close>)
  have bits: "appends owner fits L F w (\<lambda>s. if fld8 s (a + 16) = 0 then ?out ''DEFAULT,'' [] s else ?out ''%d,'' [fld8 s (a + 16)] s)
      (if d ! 12 = 0 then wlit ''DEFAULT,'' else dec_of (d ! 12) @ wlit '','')"
    by (intro appends_if lit appends_parts [OF assms(1), of "[Arg ''%d'' (ucast (d ! 12)) (dec_of (d ! 12)), Lit '','']" _ "[]"])
      (use assms(3) in \<open>simp_all add: f says_conversions wlit_def ucast_u8_zero\<close>)
  have "ucast (ucast ?par :: u16) = ?par" "(ucast ?par :: u16) \<noteq> 0" "(ucast ?par :: u16) \<noteq> 0x0A" by simp_all
  then have "says owner w ''%c'' [?par] (wlit (uart_parity (d ! 13)))" using says_char [of "ucast ?par" owner w] uart_parity_char [of "d ! 13"] by simp
  then have par: "appends owner fits L F w (\<lambda>s. ?out ''%c,'' [?par] s) (wlit (uart_parity (d ! 13)) @ wlit '','')"
    by (intro appends_parts [OF assms(1), of "[Arg ''%c'' ?par (wlit (uart_parity (d ! 13))), Lit '','']" _ "[]"]) (simp_all add: wlit_def)
  have stop: "appends owner fits L F w (\<lambda>s. ?out (if mem (snd s) (a + 18) = 0 then ''D)'' else if mem (snd s) (a + 18) = 1 then ''1)''
         else if mem (snd s) (a + 18) = 2 then ''1.5)'' else if mem (snd s) (a + 18) = 3 then ''2)'' else ''x)'') [] s) (wlit (uart_stop (d ! 14)) @ wlit '')'')"
    by (rule appends_parts [OF assms(1), of "[Lit (uart_stop (d ! 14)), Lit '')'']" _ "[]"])
      (use assms(3) in \<open>simp_all add: f wlit_def uart_stop_def\<close>)
  have whole: "uart_text d = (if data64 d 4 = 0 then wlit ''Uart(DEFAULT,'' else wlit ''Uart('' @ signed_of (data64 d 4) @ wlit '','') @
      (if d ! 12 = 0 then wlit ''DEFAULT,'' else dec_of (d ! 12) @ wlit '','') @ (wlit (uart_parity (d ! 13)) @ wlit '','') @ (wlit (uart_stop (d ! 14)) @ wlit '')'')"
    by (simp add: uart_text_def wlit_def)
  show ?thesis unfolding whole by (subst appends_cong [OF P], assumption) (rule appends_bind [OF baud appends_bind [OF bits appends_bind [OF par stop]]])
qed

section \<open>Internet addresses\<close>

definition ip4_text :: "u8 list \<Rightarrow> nat \<Rightarrow> u16 list" where
  "ip4_text d k = dec_of (d ! k) @ wlit ''.'' @ dec_of (d ! (k + 1)) @ wlit ''.'' @ dec_of (d ! (k + 2)) @ wlit ''.'' @ dec_of (d ! (k + 3))"

definition ip4_given :: "u8 list \<Rightarrow> nat \<Rightarrow> bool" where
  "ip4_given d k \<longleftrightarrow> (\<exists>i < 4. d ! (k + i) \<noteq> 0)"

definition protocol_name :: "u16 \<Rightarrow> u16 list" where
  "protocol_name p = (if p = 6 then wlit ''TCP'' else if p = 17 then wlit ''UDP'' else dec_of p)"

text \<open>Gateway and subnet mask are in nodes of the second version only.\<close>

definition ip4_node_text :: "u8 list \<Rightarrow> u16 list option" where
  "ip4_node_text d = (let v2 = unpacked_size d = 28; gateway = v2 \<and> (ip4_given d 15 \<or> ip4_given d 19) in
     if v2 \<and> length d < 23 then None
     else Some (wlit ''IPv4('' @ ip4_text d 4 @ wlit '','' @ protocol_name (data16 d 12) @ wlit '','' @ wlit (if d ! 14 = 0 then ''DHCP'' else ''Static'') @
       (if ip4_given d 0 \<or> gateway then
          wlit '','' @ ip4_text d 0 @ (if gateway then wlit '','' @ ip4_text d 15 @ (if ip4_given d 19 then wlit '','' @ ip4_text d 19 else []) else [])
        else []) @ wlit '')''))"

lemma ip4_appends:
  assumes "print_env bs pt owner fits L F sub w" "node_in owner w a (t, st, d)" "k + 4 \<le> length d" "b = a + 4 + of_nat k"
  shows "appends owner fits L F w (CatPrintIPv4 (CatPrint_lit bs pt sub) b) (ip4_text d k)"
    and "pool_ok owner w ctx \<Longrightarrow> IsNotNullIPv4 ctx b = ip4_given d k"
proof -
  have d: "length d < 2 ^ 63" using assms(2) length_unpacked(1) [of d] by (auto simp: node_in_def)
  have m: "mem (snd ctx) (b + of_nat i) = d ! (k + i)" if "pool_ok owner w ctx" "i < 4" for ctx i
  proof -
    have e: "b + of_nat i - (a + 4) = of_nat (k + i)" using assms(4) by simp
    have "unat (b + of_nat i - (a + 4)) = k + i" unfolding e by (rule unat_of_nat_u64) (use that assms(3) d in simp)
    then show ?thesis using node_data(1) [OF assms(2) that(1), of "b + of_nat i"] that assms(3) by simp
  qed
  note m4 = m [of _ 0] m [of _ 1] m [of _ 2] m [of _ 3]
  show "appends owner fits L F w (CatPrintIPv4 (CatPrint_lit bs pt sub) b) (ip4_text d k)"
    by (rule appends_parts [OF assms(1), of "[Arg ''%d'' (ucast (d ! k)) (dec_of (d ! k)), Lit ''.'', Arg ''%d'' (ucast (d ! (k + 1))) (dec_of (d ! (k + 1))), Lit ''.'',
        Arg ''%d'' (ucast (d ! (k + 2))) (dec_of (d ! (k + 2))), Lit ''.'', Arg ''%d'' (ucast (d ! (k + 3))) (dec_of (d ! (k + 3)))]" _ "[]"])
      (use m4 in \<open>simp_all add: CatPrintIPv4_def ip4_text_def fld8_def says_conversions wlit_def\<close>)
  show "pool_ok owner w ctx \<Longrightarrow> IsNotNullIPv4 ctx b = ip4_given d k"
    using m4 [of ctx] unfolding ip4_given_def by (simp add: IsNotNullIPv4_def Let_def or_eq_0_iff) (simp add: ex_less_4)
qed

lemma protocol_appends:
  assumes "print_env bs pt owner fits L F sub w" "node_in owner w a (t, st, d)" "unat (b - (a + 4)) + 2 \<le> length d"
  shows "appends owner fits L F w (\<lambda>s. CatPrintNetworkProtocol (CatPrint_lit bs pt sub) (read16 (mem (snd s)) b) s) (protocol_name (data16 d (unat (b - (a + 4)))))"
proof -
  let ?p = "data16 d (unat (b - (a + 4)))" and ?out = "CatPrint_lit bs pt sub"
  have lit: "appends owner fits L F w (?out f []) (wlit f)" if "f \<in> {''TCP'', ''UDP''}" for f
    using that by (intro appends_lit [OF assms(1)]) (auto simp: wlit_def)
  have num: "appends owner fits L F w (?out ''%d'' [ucast ?p]) (dec_of ?p)"
    by (rule appends_parts [OF assms(1), of "[Arg ''%d'' (ucast ?p) (dec_of ?p)]" _ "[]"]) (simp_all add: says_conversions)
  have "appends owner fits L F w (CatPrintNetworkProtocol ?out ?p) (protocol_name ?p)"
    using lit num by (auto simp: CatPrintNetworkProtocol_def [abs_def] protocol_name_def)
  then show ?thesis
    by (subst appends_cong [of owner w _ "CatPrintNetworkProtocol ?out ?p"]) (use assms(3) in \<open>simp_all add: node_data [OF assms(2)]\<close>)
qed

lemma DevPathIPv4_text:
  assumes "print_env bs pt owner fits L F sub w" "node_in owner w a (t, st, d)" "15 \<le> length d" "ip4_node_text d = Some u"
  shows "appends owner fits L F w (DevPathIPv4 (CatPrint_lit bs pt sub) a) u"
proof -
  let ?out = "CatPrint_lit bs pt sub" and ?gw = "unpacked_size d = 28 \<and> (ip4_given d 15 \<or> ip4_given d 19)"
  have v2: "unpacked_size d = 28 \<Longrightarrow> 23 \<le> length d" using assms(4) by (auto simp: ip4_node_text_def Let_def split: if_splits)
  have size: "unpacked_size d < 2 ^ 16" using assms(2) by (simp add: node_in_def)
  then have len: "(of_nat (unpacked_size d) = sizeof_IPv4) = (unpacked_size d = 28)"
    using unat_of_nat_u64 [of "unpacked_size d"] by (auto simp: sizeof_IPv4_def word_unat_eq_iff)
  note f = node_data [OF assms(2)] and ip = ip4_appends [OF assms(1,2)]
  have lit: "appends owner fits L F w (\<lambda>s. ?out f [] s) (wlit f)" if "f \<in> {''IPv4('', '','', '')''}" for f
    using that by (intro appends_lit [OF assms(1)]) (auto simp: wlit_def)
  have origin: "appends owner fits L F w (\<lambda>s. ?out ('','' @ (if mem (snd s) (a + 18) \<noteq> 0 then ''Static'' else ''DHCP'')) [] s)
      (wlit '','' @ wlit (if d ! 14 = 0 then ''DHCP'' else ''Static''))"
    by (rule appends_parts [OF assms(1), of "[Lit '','', Lit (if d ! 14 = 0 then ''DHCP'' else ''Static'')]" _ "[]"])
      (use assms(3) in \<open>simp_all add: f wlit_def\<close>)
  have proto: "appends owner fits L F w (\<lambda>s. CatPrintNetworkProtocol ?out (read16 (mem (snd s)) (a + 16)) s) (protocol_name (data16 d 12))"
    using protocol_appends [OF assms(1,2), of "a + 16"] assms(3) by simp
  have addr: "appends owner fits L F w (CatPrintIPv4 ?out (a + 4)) (ip4_text d 0)" "appends owner fits L F w (CatPrintIPv4 ?out (a + 8)) (ip4_text d 4)"
      "unpacked_size d = 28 \<Longrightarrow> appends owner fits L F w (CatPrintIPv4 ?out (a + 19)) (ip4_text d 15)"
      "unpacked_size d = 28 \<Longrightarrow> appends owner fits L F w (CatPrintIPv4 ?out (a + 23)) (ip4_text d 19)"
    using ip(1) [of 0 "a + 4"] ip(1) [of 4 "a + 8"] ip(1) [of 15 "a + 19"] ip(1) [of 19 "a + 23"] v2 assms(3) by simp_all
  have given: "IsNotNullIPv4 ctx (a + 4) = ip4_given d 0" "unpacked_size d = 28 \<Longrightarrow> IsNotNullIPv4 ctx (a + 19) = ip4_given d 15"
      "unpacked_size d = 28 \<Longrightarrow> IsNotNullIPv4 ctx (a + 23) = ip4_given d 19" if "pool_ok owner w ctx" for ctx
    using ip(2) [OF _ _ that, of 0 "a + 4"] ip(2) [OF _ _ that, of 15 "a + 19"] ip(2) [OF _ _ that, of 19 "a + 23"] v2 assms(3) by simp_all
  have mask: "appends owner fits L F w (\<lambda>s. if IsNotNullIPv4 s (a + 23) then ?out '','' [] s \<bind> CatPrintIPv4 ?out (a + 23) else Some s)
      (if ip4_given d 19 then wlit '','' @ ip4_text d 19 else [])" if "unpacked_size d = 28"
    using that by (intro appends_if appends_bind appends_skip lit addr given) simp_all
  have gateway: "appends owner fits L F w (\<lambda>s. if DevicePathNodeLength (mem (snd s)) a = sizeof_IPv4 \<and> (IsNotNullIPv4 s (a + 19) \<or> IsNotNullIPv4 s (a + 23)) then
        ?out '','' [] s \<bind> (\<lambda>s. CatPrintIPv4 ?out (a + 19) s \<bind> (\<lambda>s. if IsNotNullIPv4 s (a + 23) then ?out '','' [] s \<bind> CatPrintIPv4 ?out (a + 23) else Some s)) else Some s)
      (if ?gw then wlit '','' @ ip4_text d 15 @ (if ip4_given d 19 then wlit '','' @ ip4_text d 19 else []) else [])"
    by (intro appends_if appends_bind appends_skip lit addr mask) (auto simp: f(10) len given)
  have rest: "appends owner fits L F w (\<lambda>s. if IsNotNullIPv4 s (a + 4) \<or> DevicePathNodeLength (mem (snd s)) a = sizeof_IPv4 \<and> (IsNotNullIPv4 s (a + 19) \<or> IsNotNullIPv4 s (a + 23)) then
        ?out '','' [] s \<bind> (\<lambda>s. CatPrintIPv4 ?out (a + 4) s \<bind> (\<lambda>s. if DevicePathNodeLength (mem (snd s)) a = sizeof_IPv4 \<and> (IsNotNullIPv4 s (a + 19) \<or> IsNotNullIPv4 s (a + 23)) then
        ?out '','' [] s \<bind> (\<lambda>s. CatPrintIPv4 ?out (a + 19) s \<bind> (\<lambda>s. if IsNotNullIPv4 s (a + 23) then ?out '','' [] s \<bind> CatPrintIPv4 ?out (a + 23) else Some s)) else Some s)) else Some s)
      (if ip4_given d 0 \<or> ?gw then wlit '','' @ ip4_text d 0 @
        (if ?gw then wlit '','' @ ip4_text d 15 @ (if ip4_given d 19 then wlit '','' @ ip4_text d 19 else []) else []) else [])"
    by (intro appends_if [OF _ appends_bind [OF lit appends_bind [OF addr(1) gateway]] appends_skip]) (auto simp: f(10) len given)
  have "u = wlit ''IPv4('' @ ip4_text d 4 @ wlit '','' @ protocol_name (data16 d 12) @ (wlit '','' @ wlit (if d ! 14 = 0 then ''DHCP'' else ''Static'')) @
      (if ip4_given d 0 \<or> ?gw then wlit '','' @ ip4_text d 0 @
        (if ?gw then wlit '','' @ ip4_text d 15 @ (if ip4_given d 19 then wlit '','' @ ip4_text d 19 else []) else []) else []) @ wlit '')''"
    using assms(4) by (auto simp: ip4_node_text_def Let_def split: if_splits)
  then show ?thesis
    using appends_bind [OF lit appends_bind [OF addr(2) appends_bind [OF lit appends_bind [OF proto appends_bind [OF origin appends_bind [OF rest lit]]]]],
        of "''IPv4(''" "'',''" "'')''"]
    by (simp add: DevPathIPv4_def [abs_def] Let_def)
qed

definition ip6_text :: "u8 list \<Rightarrow> nat \<Rightarrow> u16 list" where
  "ip6_text d k = (let g = \<lambda>i. hex_text (256 * unat (d ! (k + i)) + unat (d ! (k + i + 1))); c = wlit '':'' in
     g 0 @ c @ g 2 @ c @ g 4 @ c @ g 6 @ c @ g 8 @ c @ g 10 @ c @ g 12 @ c @ g 14)"

definition ip6_node_text :: "u8 list \<Rightarrow> u16 list option" where
  "ip6_node_text d = (if unpacked_size d = 60 then None
     else Some (wlit ''IPv6('' @ ip6_text d 16 @ wlit '','' @ protocol_name (data16 d 36) @ wlit '','' @
       wlit (if d ! 38 = 0 then ''Static'' else if d ! 38 = 1 then ''StatelessAutoConfigure'' else ''StatefulAutoConfigure'') @ wlit '','' @
       ip6_text d 0 @ wlit '')''))"

lemma CatPrintIPv6_ADD_value: "unat (ucast (CatPrintIPv6_ADD x y) :: u32) = 256 * unat x + unat y"
proof -
  have "(ucast (CatPrintIPv6_ADD x y) :: u32) = push_bit 8 (ucast x) OR ucast y"
    by (rule bit_word_eqI) (auto simp: CatPrintIPv6_ADD_def bit_simps dest: bit_imp_le_length)
  also have "\<dots> = push_bit 8 (ucast x) + ucast y"
    by (rule disjunctive_add_eq_or [symmetric]) (rule bit_word_eqI, auto simp: bit_simps dest: bit_imp_le_length)
  also have "\<dots> = of_nat (256 * unat x + unat y)" by (simp add: push_bit_eq_mult mult.commute)
  finally have e: "(ucast (CatPrintIPv6_ADD x y) :: u32) = of_nat (256 * unat x + unat y)" .
  have "unat x < 256" "unat y < 256" using unsigned_less [of x, where ?'a = nat] unsigned_less [of y, where ?'a = nat] by simp_all
  then show ?thesis unfolding e by (subst unat_of_nat) simp
qed

lemma ip6_appends:
  assumes "print_env bs pt owner fits L F sub w" "node_in owner w a (t, st, d)" "k + 16 \<le> length d" "b = a + 4 + of_nat k"
  shows "appends owner fits L F w (CatPrintIPv6 (CatPrint_lit bs pt sub) b) (ip6_text d k)"
proof -
  have d: "length d < 2 ^ 63" using assms(2) length_unpacked(1) [of d] by (auto simp: node_in_def)
  have m: "mem (snd ctx) (b + of_nat i) = d ! (k + i)" if "pool_ok owner w ctx" "i < 16" for ctx i
  proof -
    have e: "b + of_nat i - (a + 4) = of_nat (k + i)" using assms(4) by simp
    have "unat (b + of_nat i - (a + 4)) = k + i" unfolding e by (rule unat_of_nat_u64) (use that assms(3) d in simp)
    then show ?thesis using node_data(1) [OF assms(2) that(1), of "b + of_nat i"] that assms(3) by simp
  qed
  let ?g = "\<lambda>i. Arg ''%x'' (CatPrintIPv6_ADD (d ! (k + i)) (d ! (k + i + 1))) (hex_text (256 * unat (d ! (k + i)) + unat (d ! (k + i + 1))))"
  have g: "says owner w ''%x'' [CatPrintIPv6_ADD x y] (hex_text (256 * unat x + unat y))" for x y
    using says_hex_low [of owner w "CatPrintIPv6_ADD x y"] by (simp add: CatPrintIPv6_ADD_value)
  note ms = m [of _ 0] m [of _ 1] m [of _ 2] m [of _ 3] m [of _ 4] m [of _ 5] m [of _ 6] m [of _ 7] m [of _ 8] m [of _ 9] m [of _ 10] m [of _ 11] m [of _ 12]
    m [of _ 13] m [of _ 14] m [of _ 15]
  have P: "CatPrintIPv6 (CatPrint_lit bs pt sub) b ctx = CatPrint_lit bs pt sub ''%x:%x:%x:%x:%x:%x:%x:%x''
      (map (\<lambda>i. CatPrintIPv6_ADD (d ! (k + i)) (d ! (k + i + 1))) [0, 2, 4, 6, 8, 10, 12, 14]) ctx" if "pool_ok owner w ctx" for ctx
    using ms [OF that] by (simp add: CatPrintIPv6_def Let_def ac_simps numeral_3_eq_3)
  show ?thesis
    by (rule appends_parts [OF assms(1), of "[?g 0, Lit '':'', ?g 2, Lit '':'', ?g 4, Lit '':'', ?g 6, Lit '':'', ?g 8, Lit '':'', ?g 10, Lit '':'', ?g 12, Lit '':'', ?g 14]" _ "[]"])
      (simp_all add: P ip6_text_def g wlit_def Let_def)
qed

lemma DevPathIPv6_text:
  assumes "print_env bs pt owner fits L F sub w" "node_in owner w a (t, st, d)" "39 \<le> length d" "ip6_node_text d = Some u"
  shows "appends owner fits L F w (DevPathIPv6 (CatPrint_lit bs pt sub) a) u"
proof -
  let ?out = "CatPrint_lit bs pt sub"
  let ?origin = "if d ! 38 = 0 then ''Static'' else if d ! 38 = 1 then ''StatelessAutoConfigure'' else ''StatefulAutoConfigure''"
  note f = node_data [OF assms(2)]
  have v1: "unpacked_size d \<noteq> 60" using assms(4) by (auto simp: ip6_node_text_def)
  have "unpacked_size d < 2 ^ 16" using assms(2) by (simp add: node_in_def)
  then have len: "of_nat (unpacked_size d) \<noteq> sizeof_IPv6"
    using unat_of_nat_u64 [of "unpacked_size d"] v1 by (auto simp: sizeof_IPv6_def word_unat_eq_iff)
  have lit: "appends owner fits L F w (\<lambda>s. ?out f [] s) (wlit f)" if "f \<in> {''IPv6('', '','', '')''}" for f
    using that by (intro appends_lit [OF assms(1)]) (auto simp: wlit_def)
  have proto: "appends owner fits L F w (\<lambda>s. CatPrintNetworkProtocol ?out (read16 (mem (snd s)) (a + 40)) s) (protocol_name (data16 d 36))"
    using protocol_appends [OF assms(1,2), of "a + 40"] assms(3) by simp
  have origin: "appends owner fits L F w (\<lambda>s. ?out ('','' @ (if mem (snd s) (a + 42) \<noteq> 0 then if mem (snd s) (a + 42) = 1 then ''StatelessAutoConfigure''
      else ''StatefulAutoConfigure'' else ''Static'') @ '','') [] s) (wlit '','' @ wlit ?origin @ wlit '','')"
    by (rule appends_parts [OF assms(1), of "[Lit '','', Lit ?origin, Lit '','']" _ "[]"]) (use assms(3) in \<open>simp_all add: f wlit_def\<close>)
  have addr: "appends owner fits L F w (CatPrintIPv6 ?out (a + 4)) (ip6_text d 0)" "appends owner fits L F w (CatPrintIPv6 ?out (a + 20)) (ip6_text d 16)"
    using ip6_appends [OF assms(1,2), of 0 "a + 4"] ip6_appends [OF assms(1,2), of 16 "a + 20"] assms(3) by simp_all
  have rest: "appends owner fits L F w (\<lambda>s. if DevicePathNodeLength (mem (snd s)) a = sizeof_IPv6 then
      ?out '','' [] s \<bind> (\<lambda>s. CatPrintIPv6 ?out (a + 44) s \<bind> (\<lambda>s. ?out '','' [] s \<bind> ?out ''%d'' [a + 43])) else Some s) []"
    by (subst appends_cong [of owner w _ Some]) (simp_all add: f(10) len appends_skip)
  have "u = wlit ''IPv6('' @ ip6_text d 16 @ wlit '','' @ protocol_name (data16 d 36) @ (wlit '','' @ wlit ?origin @ wlit '','') @ ip6_text d 0 @ [] @ wlit '')''"
    using assms(4) by (auto simp: ip6_node_text_def split: if_splits)
  then show ?thesis
    using appends_bind [OF lit appends_bind [OF addr(2) appends_bind [OF lit appends_bind [OF proto appends_bind [OF origin appends_bind [OF addr(1) appends_bind [OF rest lit]]]]]],
        of "''IPv6(''" "'',''" "'')''"]
    by (simp add: DevPathIPv6_def [abs_def] Let_def)
qed

end
