(* ===== verification/Efi_Dppath.thy ===== *)
theory Efi_Dppath
  imports Efi_Dpnet
begin

text \<open>
  What \<^verbatim>\<open>DevicePathToStr\<close> returns.  The text of a path is that of its nodes, one after the other with slashes between them; unpacking the path and growing the
  string in the pool do not show.
\<close>

section \<open>The text of a path\<close>

text \<open>For each type and subtype the least size of the data, and the text.\<close>

definition node_texts :: "((u8 \<times> u8) \<times> nat \<times> (u8 list \<Rightarrow> u16 list option)) list" where
  "node_texts = [
     ((1, 1), 2, \<lambda>d. Some (pci_text d)), ((1, 2), 1, \<lambda>d. Some (pccard_text d)), ((1, 3), 20, \<lambda>d. Some (memmap_text d)), ((1, 4), 16, vendor_text ''Hw''),
     ((1, 5), 4, \<lambda>d. Some (controller_text d)), ((2, 1), 8, \<lambda>d. Some (acpi_text d)), ((3, 1), 2, \<lambda>d. Some (atapi_text d)),
     ((3, 2), 4, \<lambda>d. Some (scsi_text d)), ((3, 3), 20, \<lambda>d. Some (fibre_text d)), ((3, 4), 12, \<lambda>d. Some (i1394_text d)), ((3, 5), 2, \<lambda>d. Some (usb_text d)),
     ((3, 6), 4, \<lambda>d. Some (i2o_text d)), ((3, 9), 44, \<lambda>d. Some (infiniband_text d)), ((3, 10), 16, vendor_text ''Msg''), ((3, 11), 33, mac_text),
     ((3, 12), 15, ip4_node_text), ((3, 13), 39, ip6_node_text), ((3, 14), 15, \<lambda>d. Some (uart_text d)), ((3, 18), 6, \<lambda>d. Some (sata_text d)),
     ((3, 24), 0, uri_text), ((4, 1), 38, \<lambda>d. Some (harddrive_text d)), ((4, 2), 4, \<lambda>d. Some (cdrom_text d)), ((4, 3), 16, vendor_text ''Media''),
     ((4, 4), 0, file_text), ((4, 5), 16, \<lambda>d. Some (protocol_text d)), ((5, 1), 4, bbs_text), ((0x7F, 1), 0, \<lambda>d. Some (instance_text d))]"

definition node_text :: "node \<Rightarrow> u16 list option" where
  "node_text n = (let (t, st, d) = n in
     case map_of node_texts (t AND 0x7F, st) of Some (k, f) \<Rightarrow> if k \<le> length d then f d else None | None \<Rightarrow> None)"

text \<open>What comes before a node when \<open>s\<close> has been printed, and the text of a path after \<open>s\<close>.\<close>

definition separator :: "u16 list \<Rightarrow> node \<Rightarrow> u16 list" where
  "separator s n = (let (t, st, d) = n in if s \<noteq> [] \<and> (t AND 0x7F, st) \<noteq> (0x7F, 1) then wlit ''/'' else [])"

fun path_text :: "u16 list \<Rightarrow> node list \<Rightarrow> u16 list option" where
  "path_text s [] = Some s"
| "path_text s (n # ns) = do { u \<leftarrow> node_text n; path_text (s @ separator s n @ u) ns }"

lemma path_text_longer: "path_text s ns = Some t \<Longrightarrow> length s \<le> length t"
  by (induction s ns rule: path_text.induct) (fastforce split: bind_splits)+

lemma node_printed:
  assumes "print_env bs pt owner fits L F sub w" "node_in owner w a (t, st, d)" "node_text (t, st, d) = Some u"
  obtains P where "map_of DevPathTable (t AND 0x7F, st) = Some P" "appends owner fits L F w (P (CatPrint_lit bs pt sub) a) u"
proof -
  obtain k f where "map_of node_texts (t AND 0x7F, st) = Some (k, f)" and kf: "k \<le> length d" "f d = Some u"
    using assms(3) by (auto simp: node_text_def split: option.splits if_splits)
  then have m: "((t AND 0x7F, st), k, f) \<in> set node_texts" by (intro map_of_SomeD)
  note tab = DevPathTable_def HARDWARE_DEVICE_PATH_def ACPI_DEVICE_PATH_def MESSAGING_DEVICE_PATH_def MEDIA_DEVICE_PATH_def BBS_DEVICE_PATH_def
    END_DEVICE_PATH_TYPE_def MSG_FIBRECHANNEL_DP_def
  note plain = DevPathPci_text DevPathPccard_text DevPathMemMap_text DevPathController_text DevPathAcpi_text DevPathAtapi_text DevPathScsi_text DevPathFibre_text
    DevPath1394_text DevPathUsb_text DevPathI2O_text DevPathInfiniBand_text DevPathUart_text DevPathSata_text DevPathHardDrive_text DevPathCDROM_text
    DevPathMediaProtocol_text
  note partial = DevPathMacAddr_text DevPathIPv4_text DevPathIPv6_text DevPathUri_text DevPathFilePath_text DevPathBssBss_text
  have "\<exists>P. map_of DevPathTable (t AND 0x7F, st) = Some P \<and> appends owner fits L F w (P (CatPrint_lit bs pt sub) a) u"
    using m [unfolded node_texts_def list.set insert_iff empty_iff prod.inject] kf
    by (elim disjE conjE; hypsubst?;
      auto simp: tab intro: plain [OF assms(1,2)] partial [OF assms(1,2)] DevPathVendor_text [OF assms(1,2)] DevPathEndInstance_text [OF assms(1)])
  then show thesis using that by blast
qed

text \<open>The separator and the node.\<close>

lemma pool_run_length: "pool_run owner w fits F s ctx \<Longrightarrow> pp_len (fst ctx) \<noteq> 0 \<longleftrightarrow> s \<noteq> []"
proof -
  assume "pool_run owner w fits F s ctx"
  then have "unat (pp_len (fst ctx)) = length s" by (auto simp: pool_run_def pool_text_def no_text_def split: if_splits)
  then show ?thesis by (metis length_0_conv unat_eq_zero)
qed

lemma appends_run:
  "appends owner fits L F w f t \<Longrightarrow> pool_run owner w fits F s ctx \<Longrightarrow> length (s @ t) \<le> L \<Longrightarrow> \<exists>ctx'. f ctx = Some ctx' \<and> pool_run owner w fits F (s @ t) ctx'"
  unfolding appends_def by blast

lemma DumpNode_prints:
  assumes env: "print_env bs pt owner fits L F sub w" and n: "node_in owner w a n" "node_text n = Some u"
    and run: "pool_run owner w fits F s ctx" and l: "length (s @ separator s n @ u) \<le> L"
  shows "\<exists>ctx'. DumpNode (CatPrint_lit bs pt sub) a ctx = Some ctx' \<and> pool_run owner w fits F (s @ separator s n @ u) ctx'"
proof -
  obtain t st d where nd: "n = (t, st, d)" by (metis prod_cases3)
  let ?out = "CatPrint_lit bs pt sub" and ?c = "s \<noteq> [] \<and> (t AND 0x7F, st) \<noteq> (0x7F, 1)"
  obtain P where P: "map_of DevPathTable (t AND 0x7F, st) = Some P" "appends owner fits L F w (P ?out a) u"
    using node_printed [OF env n [unfolded nd]] by blast
  have key: "DevicePathType (mem (snd ctx)) a = t AND 0x7F" "DevicePathSubType (mem (snd ctx)) a = st"
    using node_data(8,9) [OF n(1) [unfolded nd], of ctx] run by (simp_all add: pool_run_def)
  have sep: "appends owner fits L F w (if ?c then ?out ''/'' [] else Some) (separator s n)"
    using appends_lit [OF env, of "''/''" _ _ "[]"] appends_skip by (auto simp: nd separator_def wlit_def)
  obtain c1 where c1: "(if ?c then ?out ''/'' [] else Some) ctx = Some c1" "pool_run owner w fits F (s @ separator s n) c1"
    using appends_run [OF sep run] l by auto
  moreover obtain c2 where "P ?out a c1 = Some c2" "pool_run owner w fits F (s @ separator s n @ u) c2"
    using appends_run [OF P(2) c1(2)] l by auto
  moreover have "DumpNode ?out a ctx = (if ?c then ?out ''/'' [] else Some) ctx \<bind> P ?out a"
    using P(1) pool_run_length [OF run] by (simp add: DumpNode_def key END_DEVICE_PATH_TYPE_def Let_def)
  ultimately show ?thesis by auto
qed

section \<open>Walking the unpacked path\<close>

fun nodes_in :: "('f \<Rightarrow> addr \<Rightarrow> addr option) \<Rightarrow> 'f world \<Rightarrow> addr \<Rightarrow> node list \<Rightarrow> bool" where
  "nodes_in owner w a [] \<longleftrightarrow> node_in owner w a (0x7F, 0xFF, [])"
| "nodes_in owner w a (n # ns) \<longleftrightarrow> node_in owner w a n \<and> nodes_in owner w (a + of_nat (unpacked_size (snd (snd n)))) ns"

lemma node_text_not_end: "node_text (t, st, d) = Some u \<Longrightarrow> \<not> (t AND 0x7F = 0x7F \<and> st = 0xFF)"
  by (auto simp: node_text_def node_texts_def)

lemma nodes_loop_prints:
  assumes env: "print_env bs pt owner fits L F sub w"
  shows "nodes_in owner w a ns \<Longrightarrow> path_text s ns = Some t \<Longrightarrow> length t \<le> L \<Longrightarrow> pool_run owner w fits F s ctx \<Longrightarrow>
    \<exists>ctx'. nodes_loop (CatPrint_lit bs pt sub) a ctx = Some ctx' \<and> pool_run owner w fits F t ctx'"
proof (induction ns arbitrary: a s ctx)
  case Nil
  then have "IsDevicePathEnd (mem (snd ctx)) a"
    using node_data(8,9) [of owner w a "0x7F" "0xFF" "[]" ctx]
    by (simp add: pool_run_def IsDevicePathEnd_def IsDevicePathEndType_def IsDevicePathEndSubType_def DevicePathSubType_def)
  then show ?case using Nil by (subst nodes_loop.simps) simp
next
  case (Cons n ns)
  obtain ty st d where nd: "n = (ty, st, d)" by (metis prod_cases3)
  obtain u where u: "node_text n = Some u" "path_text (s @ separator s n @ u) ns = Some t" using Cons.prems(2) by (auto split: bind_splits)
  have n: "node_in owner w a n" "nodes_in owner w (a + of_nat (unpacked_size d)) ns" using Cons.prems(1) by (simp_all add: nd)
  have l: "length (s @ separator s n @ u) \<le> L" using path_text_longer [OF u(2)] Cons.prems(3) by simp
  obtain c1 where c1: "DumpNode (CatPrint_lit bs pt sub) a ctx = Some c1" "pool_run owner w fits F (s @ separator s n @ u) c1"
    using DumpNode_prints [OF env n(1) u(1) Cons.prems(4) l] by blast
  have ok: "pool_ok owner w ctx" "pool_ok owner w c1" using Cons.prems(4) c1(2) by (simp_all add: pool_run_def)
  have "\<not> IsDevicePathEnd (mem (snd ctx)) a"
    using node_data(8,9) [OF n(1) [unfolded nd] ok(1)] node_text_not_end u(1)
    by (auto simp: nd IsDevicePathEnd_def IsDevicePathEndType_def IsDevicePathEndSubType_def DevicePathSubType_def)
  moreover have "NextDevicePathNode (mem (snd c1)) a = a + of_nat (unpacked_size d)"
    using node_data(10) [OF n(1) [unfolded nd] ok(2)] by (simp add: NextDevicePathNode_def)
  ultimately show ?case using Cons.IH [OF n(2) u(2) Cons.prems(3) c1(2)] c1(1) by (subst nodes_loop.simps) simp
qed

section \<open>Unpacking\<close>

text \<open>Nodes that \<^verbatim>\<open>UnpackDevicePath\<close> can measure, and the size of the unpacked path without its end.\<close>

definition listed :: "node \<Rightarrow> bool" where
  "listed n \<longleftrightarrow> (let (t, st, d) = n in \<not> (t AND 0x7F = 0x7F \<and> st = 0xFF) \<and> unpacked_size d < 2 ^ 16)"

definition unpacked_sizes :: "node list \<Rightarrow> nat" where
  "unpacked_sizes ns = sum_list (map (\<lambda>n. unpacked_size (snd (snd n))) ns)"

lemma unpacked_sizes_simps [simp]: "unpacked_sizes [] = 0" "unpacked_sizes ((t, st, d) # ns) = unpacked_size d + unpacked_sizes ns"
  by (simp_all add: unpacked_sizes_def)

lemma ALIGN_SIZE_of_nat:
  assumes "4 dvd k"
  shows "of_nat (k + (4 + length d)) + ALIGN_SIZE (of_nat (k + (4 + length d))) = of_nat (k + unpacked_size d)"
proof -
  let ?n = "4 + length d"
  have "(of_nat (k + ?n) :: u64) mod 4 = of_nat ((k + ?n) mod 4)"
    by (rule word_unat_eq_iff [THEN iffD2]) (simp add: unat_mod unat_of_nat mod_mod_cancel unat_of_nat_u64 del: of_nat_add)
  moreover have "(k + ?n) mod 4 = length d mod 4" using assms by (auto simp: dvd_def)
  ultimately have m: "(of_nat (k + ?n) :: u64) mod 4 = of_nat (length d mod 4)" by simp
  have r: "length d mod 4 < 4" by simp
  then have z: "(of_nat (length d mod 4) :: u64) = 0 \<longleftrightarrow> length d mod 4 = 0" using unat_of_nat_u64 [of "length d mod 4"] by (auto simp: word_unat_eq_iff)
  have "unpacked_size d = ?n + (if length d mod 4 = 0 then 0 else 4 - length d mod 4)" unfolding unpacked_size_def by presburger
  moreover have "(4 :: u64) - of_nat (length d mod 4) = of_nat (4 - length d mod 4)" using r by (simp add: of_nat_diff)
  ultimately show ?thesis unfolding ALIGN_SIZE_def m by (simp add: z)
qed

lemma end_enc: "EndDevicePath = enc_node (0x7F, 0xFF, [])"
  by (simp add: EndDevicePath_def enc_node_def le_bytes_numeral)

lemma enc_path_simps: "enc_path [] = enc_node (0x7F, 0xFF, [])" "enc_path (n # ns) = enc_node n @ enc_path ns"
  by (simp_all add: enc_path_def end_enc)

lemma enc_path_size: "length (enc_path ns) \<le> unpacked_sizes ns + 4"
proof (induction ns)
  case (Cons n ns)
  then show ?case using length_unpacked(1) [of "snd (snd n)"] by (cases n) (simp add: enc_path_simps)
qed (simp add: enc_path_simps)

lemma listed_length: "listed (t, st, d) \<Longrightarrow> 4 + length d < 2 ^ 16"
  using length_unpacked(1) [of d] by (simp add: listed_def)

lemma listed_end:
  assumes "holds m a (enc_node (t, st, d))" "4 + length d < 2 ^ 16"
  shows "IsDevicePathEnd m a \<longleftrightarrow> t AND 0x7F = 0x7F \<and> st = 0xFF"
  using node_header(1,2) [OF assms] by (simp add: IsDevicePathEnd_def IsDevicePathEndType_def IsDevicePathEndSubType_def DevicePathType_def DevicePathSubType_def)

lemma unpack_size_nodes:
  "holds m a (enc_path ns) \<Longrightarrow> list_all listed ns \<Longrightarrow> 4 dvd k \<Longrightarrow> unpack_size_loop m a (of_nat k) = Some (of_nat (k + unpacked_sizes ns + 4))"
proof (induction ns arbitrary: a k)
  case Nil
  then have h: "holds m a (enc_node (0x7F, 0xFF, []))" by (simp add: enc_path_simps)
  have "IsDevicePathEnd m a" using listed_end [OF h] by simp
  moreover have "of_nat k + DevicePathNodeLength m a + ALIGN_SIZE (of_nat k + DevicePathNodeLength m a) = of_nat (k + 4)"
    using node_header(4) [OF h] ALIGN_SIZE_of_nat [OF Nil.prems(3), of "[]"] by (simp add: unpacked_size_def)
  ultimately show ?case by (subst unpack_size_loop.simps) (simp add: Let_def)
next
  case (Cons n ns)
  obtain t st d where nd: "n = (t, st, d)" by (metis prod_cases3)
  have l: "4 + length d < 2 ^ 16" using Cons.prems(2) listed_length [of t st d] by (simp add: nd)
  have h: "holds m a (enc_node (t, st, d))" "holds m (a + of_nat (4 + length d)) (enc_path ns)" using Cons.prems(1) by (simp_all add: nd enc_path_simps holds_append)
  have "\<not> IsDevicePathEnd m a" using listed_end [OF h(1) l] Cons.prems(2) by (simp add: nd listed_def)
  moreover have "of_nat k + DevicePathNodeLength m a + ALIGN_SIZE (of_nat k + DevicePathNodeLength m a) = of_nat (k + unpacked_size d)"
    using node_header(4) [OF h(1) l] ALIGN_SIZE_of_nat [OF Cons.prems(3), of d] by simp
  moreover have "4 dvd k + unpacked_size d" using Cons.prems(3) length_unpacked(3) [of d] by (simp add: dvd_eq_mod_eq_0 mod_add_eq [symmetric])
  then have "unpack_size_loop m (a + of_nat (4 + length d)) (of_nat (k + unpacked_size d)) = Some (of_nat (k + unpacked_size d + unpacked_sizes ns + 4))"
    using Cons.prems(2) by (intro Cons.IH [OF h(2)]) simp_all
  ultimately show ?case using node_header(5) [OF h(1) l] by (subst unpack_size_loop.simps) (simp add: Let_def nd ac_simps)
qed

text \<open>One node, copied, with its new length and the bit that marks it as unpacked.\<close>

definition unpacked_node :: "memory \<Rightarrow> addr \<Rightarrow> node \<Rightarrow> bool" where
  "unpacked_node m a n \<longleftrightarrow> (let (t, st, d) = n in
     m a = t OR 0x80 \<and> m (a + 1) = st \<and> DevicePathNodeLength m a = of_nat (unpacked_size d) \<and> holds m (a + 4) d)"

lemma node_length_set:
  assumes "n < 2 ^ 16"
  shows "DevicePathNodeLength (SetDevicePathNodeLength m a (of_nat n)) a = of_nat n"
proof -
  have "take_bit 16 n = n" using assms by (rule take_bit_nat_eq_self)
  then have b: "bit n i \<Longrightarrow> i < 16" for i by (metis bit_take_bit_iff)
  show ?thesis
    by (rule bit_word_eqI) (auto simp: DevicePathNodeLength_def SetDevicePathNodeLength_def bit_simps dest: b)
qed

definition unpack_node :: "addr \<Rightarrow> addr \<Rightarrow> memory \<Rightarrow> memory" where
  "unpack_node Src Dest m = (let Size = DevicePathNodeLength m Src; m = CopyMem m Dest Src Size; Size = Size + ALIGN_SIZE Size;
     m = SetDevicePathNodeLength m Dest Size in m(Dest := m Dest OR 0x80))"

lemma unpack_node_writes:
  assumes h: "holds m Src (enc_node (t, st, d))" and l: "unpacked_size d < 2 ^ 16" and s: "Src \<noteq> 0" "unat Src + (4 + length d) < 2 ^ 64"
    and p: "Dest \<noteq> 0" "unat Dest + (4 + length d) \<le> 2 ^ 64"
  shows "unpacked_node (unpack_node Src Dest m) Dest (t, st, d)" and "\<not> in_range Dest (4 + length d) x \<Longrightarrow> unpack_node Src Dest m x = m x"
proof -
  let ?n = "4 + length d"
  have n: "?n < 2 ^ 16" using l length_unpacked(1) [of d] by simp
  note hd = node_header [OF h n]
  define m1 where "m1 = CopyMem m Dest Src (of_nat ?n)"
  let ?m = "unpack_node Src Dest m"
  have size: "(of_nat ?n :: u64) + ALIGN_SIZE (of_nat ?n) = of_nat (unpacked_size d)" using ALIGN_SIZE_of_nat [of 0 d] by simp
  have m: "?m = (SetDevicePathNodeLength m1 Dest (of_nat (unpacked_size d)))(Dest := m1 Dest OR 0x80)"
    unfolding unpack_node_def hd(4) Let_def size m1_def [symmetric] by (simp add: SetDevicePathNodeLength_def)
  have len: "length (enc_node (t, st, d)) < 2 ^ 64" using n by simp
  have pre: "efi_copy_pre Dest Src (of_nat (length (enc_node (t, st, d))))" using s p n by (simp add: efi_copy_pre_def unat_of_nat_u64 del: of_nat_add)
  note c = CopyMem_holds [OF pre len h, unfolded length_enc_node, folded m1_def]
  note c1 = node_header [OF c(1) n]
  have out: "?m x = m1 x" if "\<not> in_range Dest 4 x" for x
    using that by (auto simp: m SetDevicePathNodeLength_def in_range_def)
  have "\<not> in_range Dest 4 x" if "in_range (Dest + of_nat 4) (length d) x" for x
    using laid_out(1) [OF p(2), of 4 "length d" 0 4 x] that by (cases "length d = 0") auto
  then have "holds ?m (Dest + 4) d" using out n by (intro holds_frame [OF c1(3)]) auto
  moreover have "DevicePathNodeLength ?m Dest = of_nat (unpacked_size d)"
    using node_length_set [OF l, of m1 Dest] by (simp add: m DevicePathNodeLength_def)
  moreover have "?m Dest = t OR 0x80" "?m (Dest + 1) = st" using c1(1,2) by (simp_all add: m SetDevicePathNodeLength_def)
  ultimately show "unpacked_node ?m Dest (t, st, d)" by (simp add: unpacked_node_def)
  show "?m x = m x" if "\<not> in_range Dest (4 + length d) x"
  proof -
    have "\<not> in_range Dest 4 x" using that by (auto simp: in_range_def)
    then show ?thesis using out c(2) [OF that] by simp
  qed
qed

text \<open>The unpacked path in memory.\<close>

fun unpacked :: "memory \<Rightarrow> addr \<Rightarrow> node list \<Rightarrow> bool" where
  "unpacked m a [] \<longleftrightarrow> unpacked_node m a (0x7F, 0xFF, [])"
| "unpacked m a (n # ns) \<longleftrightarrow> unpacked_node m a n \<and> unpacked m (a + of_nat (unpacked_size (snd (snd n)))) ns"

lemma unpacked_node_frame:
  assumes "unpacked_node m a (t, st, d)" "\<And>x. in_range a (4 + length d) x \<Longrightarrow> m' x = m x" "length d < 2 ^ 16"
  shows "unpacked_node m' a (t, st, d)"
proof -
  have h: "m' (a + of_nat k) = m (a + of_nat k)" if "k < 4" for k using that assms(2,3) by simp
  have "m' a = m a" "m' (a + 1) = m (a + 1)" "m' (a + 2) = m (a + 2)" "m' (a + 3) = m (a + 3)" using h [of 0] h [of 1] h [of 2] h [of 3] by simp_all
  moreover have "holds m' (a + 4) d" if "holds m (a + 4) d"
  proof (rule holds_frame [OF that])
    fix x assume "in_range (a + 4) (length d) x"
    then have "in_range (a + of_nat 4) (length d) x" by simp
    then have "in_range a (4 + length d) x" by (rule in_range_sub) (use assms(3) in simp_all)
    then show "m' x = m x" by (rule assms(2))
  qed (use assms(3) in simp)
  ultimately show ?thesis using assms(1) by (simp add: unpacked_node_def DevicePathNodeLength_def)
qed

lemma unpack_copy_step:
  "unpack_copy_loop Src Dest m =
     (if IsDevicePathEnd (unpack_node Src Dest m) Src then Some (unpack_node Src Dest m)
      else unpack_copy_loop (NextDevicePathNode (unpack_node Src Dest m) Src)
        (Dest + (DevicePathNodeLength m Src + ALIGN_SIZE (DevicePathNodeLength m Src))) (unpack_node Src Dest m))"
  by (subst unpack_copy_loop.simps) (simp add: unpack_node_def Let_def)

lemma unpack_copy_nodes:
  "holds m Src (enc_path ns) \<Longrightarrow> list_all listed ns \<Longrightarrow> Src \<noteq> 0 \<Longrightarrow> Dest \<noteq> 0 \<Longrightarrow> unat Src + length (enc_path ns) < 2 ^ 64 \<Longrightarrow>
     unat Dest + (unpacked_sizes ns + 4) < 2 ^ 64 \<Longrightarrow> (\<forall>x. in_range Dest (unpacked_sizes ns + 4) x \<longrightarrow> \<not> in_range Src (length (enc_path ns)) x) \<Longrightarrow>
     \<exists>m'. unpack_copy_loop Src Dest m = Some m' \<and> unpacked m' Dest ns \<and> (\<forall>x. \<not> in_range Dest (unpacked_sizes ns + 4) x \<longrightarrow> m' x = m x)"
proof (induction ns arbitrary: Src Dest m)
  case Nil
  then have h: "holds m Src (enc_node (0x7F, 0xFF, []))" by (simp add: enc_path_simps)
  have size: "unpacked_size [] = 4" by (simp add: unpacked_size_def)
  note wr = unpack_node_writes [OF h, of Dest, unfolded size]
  let ?m = "unpack_node Src Dest m"
  have w: "unpacked_node ?m Dest (0x7F, 0xFF, [])" "\<And>x. \<not> in_range Dest 4 x \<Longrightarrow> ?m x = m x" using wr Nil.prems by (simp_all add: enc_path_simps)
  have "holds ?m Src (enc_node (0x7F, 0xFF, []))" by (rule holds_frame [OF h]) (use w(2) Nil.prems(7) in \<open>auto simp: enc_path_simps\<close>)
  then have "IsDevicePathEnd ?m Src" by (simp add: listed_end)
  then show ?case using w by (subst unpack_copy_step) simp
next
  case (Cons n ns)
  obtain t st d where nd: "n = (t, st, d)" by (metis prod_cases3)
  let ?l = "4 + length d" and ?u = "unpacked_size d" and ?m = "unpack_node Src Dest m" and ?S = "unpacked_sizes ns + 4" and ?P = "length (enc_path ns)"
  have li: "listed (t, st, d)" "list_all listed ns" using Cons.prems(2) by (simp_all add: nd)
  have l: "?l < 2 ^ 16" "?u < 2 ^ 16" "?l \<le> ?u" using listed_length [OF li(1)] length_unpacked(1) [of d] li(1) by (simp_all add: listed_def)
  have h: "holds m Src (enc_node (t, st, d))" "holds m (Src + of_nat ?l) (enc_path ns)" using Cons.prems(1) by (simp_all add: nd enc_path_simps holds_append)
  have b: "unat Src + (?l + ?P) < 2 ^ 64" "unat Dest + (?u + ?S) < 2 ^ 64" using Cons.prems(5,6) by (simp_all add: nd enc_path_simps)
  have apart: "\<not> in_range Src (?l + ?P) x" if "in_range Dest (?u + ?S) x" for x using Cons.prems(7) that by (simp add: nd enc_path_simps add.assoc)
  have u: "unat (Src + of_nat ?l) = unat Src + ?l" "unat (Dest + of_nat ?u) = unat Dest + ?u" using b by (intro unat_add_of_nat_u64; simp)+
  have w: "unpacked_node ?m Dest (t, st, d)" "\<And>x. \<not> in_range Dest ?l x \<Longrightarrow> ?m x = m x"
    using unpack_node_writes [OF h(1) l(2) Cons.prems(3) _ Cons.prems(4)] b l(3) by simp_all
  have keep: "?m x = m x" if "in_range Src (?l + ?P) x" for x
  proof (rule w(2), rule notI)
    assume "in_range Dest ?l x"
    then have "in_range Dest (?u + ?S) x" using l(3) by (simp add: in_range_def)
    then show False using apart that by blast
  qed
  have tail: "in_range Src (?l + ?P) x" if "in_range (Src + of_nat ?l) ?P x" for x using in_range_sub [OF that] b(1) by simp
  have h': "holds ?m Src (enc_node (t, st, d))" "holds ?m (Src + of_nat ?l) (enc_path ns)"
  proof -
    show "holds ?m Src (enc_node (t, st, d))" by (rule holds_frame [OF h(1)], rule keep) (use l in \<open>simp_all add: in_range_def\<close>)
    show "holds ?m (Src + of_nat ?l) (enc_path ns)" by (rule holds_frame [OF h(2)], rule keep, rule tail) (use b(1) in simp_all)
  qed
  have next': "NextDevicePathNode ?m Src = Src + of_nat ?l" "\<not> IsDevicePathEnd ?m Src"
    using node_header(5) [OF h'(1) l(1)] listed_end [OF h'(1) l(1)] li(1) by (simp_all add: listed_def)
  have dest: "DevicePathNodeLength m Src + ALIGN_SIZE (DevicePathNodeLength m Src) = of_nat ?u"
    using node_header(4) [OF h(1) l(1)] ALIGN_SIZE_of_nat [of 0 d] by simp
  have in_dest: "in_range Dest (?u + ?S) x" if "in_range (Dest + of_nat ?u) ?S x" for x using in_range_sub [OF that] b(2) by simp
  have sep: "\<forall>x. in_range (Dest + of_nat ?u) ?S x \<longrightarrow> \<not> in_range (Src + of_nat ?l) ?P x" using apart in_dest tail by blast
  have nz: "Src + of_nat ?l \<noteq> 0" "Dest + of_nat ?u \<noteq> 0" using u l by (metis add_is_0 unat_0 zero_neq_numeral, metis add_is_0 le_zero_eq unat_0 zero_neq_numeral)
  have fit: "unat (Src + of_nat ?l) + ?P < 2 ^ 64" "unat (Dest + of_nat ?u) + ?S < 2 ^ 64" using b unfolding u by simp_all
  obtain m' where m': "unpack_copy_loop (Src + of_nat ?l) (Dest + of_nat ?u) ?m = Some m'" "unpacked m' (Dest + of_nat ?u) ns"
      "\<And>x. \<not> in_range (Dest + of_nat ?u) ?S x \<Longrightarrow> m' x = ?m x"
    using Cons.IH [OF h'(2) li(2) nz fit sep] by blast
  have "m' x = ?m x" if "in_range Dest ?l x" for x
    using laid_out(1) [of Dest "?u + ?S" 0 ?l ?u ?S x] that b(2) l(3) m'(3) by simp
  then have "unpacked_node m' Dest n" unfolding nd by (intro unpacked_node_frame [OF w(1)]) (use l in simp_all)
  moreover have "m' x = m x" if "\<not> in_range Dest (?u + ?S) x" for x
    using that in_dest [of x] m'(3) [of x] w(2) [of x] l(3) by (auto simp: in_range_def)
  moreover have "unpack_copy_loop Src Dest m = Some m'" by (subst unpack_copy_step) (simp only: next' dest m'(1) if_False)
  ultimately show ?case using m'(2) by (auto simp: nd add.assoc)
qed

section \<open>The string\<close>

lemma unpacked_nodes_in:
  "unpacked (mem w) a ns \<Longrightarrow> list_all listed ns \<Longrightarrow> in_use owner w a (unpacked_sizes ns + 4) \<Longrightarrow> unat a + (unpacked_sizes ns + 4) < 2 ^ 64 \<Longrightarrow> nodes_in owner w a ns"
proof (induction ns arbitrary: a)
  case Nil
  then show ?case by (simp add: unpacked_node_def node_in_def unpacked_size_def)
next
  case (Cons n ns)
  obtain t st d where nd: "n = (t, st, d)" by (metis prod_cases3)
  let ?u = "unpacked_size d" and ?S = "unpacked_sizes ns + 4"
  have l: "?u < 2 ^ 16" "4 + length d \<le> ?u" using Cons.prems(2) length_unpacked(1) [of d] by (simp_all add: nd listed_def)
  have use: "in_use owner w a (?u + ?S)" "unat a + (?u + ?S) < 2 ^ 64" using Cons.prems(3,4) by (simp_all add: nd add.assoc)
  then have u: "unat (a + of_nat ?u) = unat a + ?u" by (intro unat_add_of_nat_u64) simp
  have "in_use owner w a (4 + length d)" by (rule in_use_sub [OF use(1)]) (use l(2) in simp)
  then have "node_in owner w a n" using Cons.prems(1) l use(2) by (simp add: nd node_in_def unpacked_node_def)
  moreover have "in_use owner w (a + of_nat ?u) ?S" by (rule in_use_part [OF use(1)]) (use use(2) in simp_all)
  then have "nodes_in owner w (a + of_nat ?u) ns" using Cons.IH [of "a + of_nat ?u"] Cons.prems(1,2) use(2) by (simp add: nd u)
  ultimately show ?case by (simp add: nd)
qed

lemma unpacked_sizes_bound: "unpacked_sizes ns + 4 \<le> 2 * length (enc_path ns)"
proof (induction ns)
  case (Cons n ns)
  then show ?case using length_unpacked(2) [of "snd (snd n)"] by (cases n) (simp add: enc_path_simps)
qed (simp add: enc_path_simps)

lemma AllocateZeroPool_fresh:
  assumes "pool_blocks bs owner" "pool_fits bs n fits" "unat k \<le> n" "0 < fits (fw w)" "AllocateZeroPool bs pt k w = (p, w1)"
  shows "own_block owner w p (unat k) w1" and "extends owner w w1" and "fits (fw w) \<le> Suc (fits (fw w1))"
proof -
  obtain q v where al: "LibAllocatePool bs pt k w = (q, v)" by fastforce
  note f = LibAllocatePool_fits [OF assms(1,2) al assms(3)]
  have q: "q \<noteq> 0" using f(2) assms(4) by blast
  note law = LibAllocatePool_extends(1) [OF assms(1) al] LibAllocatePool_extends(2) [OF assms(1) al q]
  have r: "p = q" "w1 = v\<lparr>mem := ZeroMem (mem v) q k\<rparr>" using assms(5) al q by (auto simp: AllocateZeroPool_def)
  have own: "own_block owner w q (unat k) v" using law(2) q by (simp add: own_block_def)
  have "in_range q (unat k) x" if "ZeroMem (mem v) q k x \<noteq> mem v x" for x using that by (auto simp: ZeroMem_block block_fill_def split: if_splits)
  then show "own_block owner w p (unat k) w1" "extends owner w w1" unfolding r using own_block_write [OF own law(1)] by blast+
  show "fits (fw w) \<le> Suc (fits (fw w1))" using f(1) by (simp add: r)
qed

lemma UnpackDevicePath_unpacks:
  assumes P: "pool_blocks bs owner" "pool_fits bs n fits" "2 * length (enc_path ns) \<le> n" "0 < fits (fw w)"
    and h: "holds (mem w) Src (enc_path ns)" "in_use owner w Src (length (enc_path ns))" "Src \<noteq> 0" "unat Src + length (enc_path ns) < 2 ^ 63" "list_all listed ns"
  shows "\<exists>p w1. UnpackDevicePath bs pt Src w = Some (p, w1) \<and> extends owner w w1 \<and> own_block owner w p (unpacked_sizes ns + 4) w1 \<and>
    nodes_in owner w1 p ns \<and> fits (fw w) \<le> Suc (fits (fw w1))"
proof -
  let ?S = "unpacked_sizes ns + 4" and ?l = "length (enc_path ns)"
  have S: "unat (of_nat ?S :: u64) = ?S" using unpacked_sizes_bound [of ns] h(4) by (intro unat_of_nat_u64) simp
  obtain p v where al: "AllocateZeroPool bs pt (of_nat ?S) w = (p, v)" by fastforce
  note new = AllocateZeroPool_fresh [OF P(1,2) _ P(4) al, unfolded S]
  have blk: "own_block owner w p ?S v" "extends owner w v" "fits (fw w) \<le> Suc (fits (fw v))" using new P(3) unpacked_sizes_bound [of ns] by simp_all
  have p: "p \<noteq> 0" "unat p + ?S < 2 ^ 64" using blk(1) by (simp_all add: own_block_def)
  have src: "mem v x = mem w x \<and> \<not> in_range p ?S x" if x: "in_range Src ?l x" for x
  proof -
    obtain q where q: "owner (fw w) x = Some q" using h(2) x by (auto simp: in_use_def)
    then have "q \<noteq> p" "owner (fw v) x = Some q" "mem v x = mem w x" using blk(1,2) by (auto simp: own_block_def extends_def)
    then show ?thesis using blk(1) by (auto simp: own_block_def)
  qed
  have hv: "holds (mem v) Src (enc_path ns)" by (rule holds_frame [OF h(1)]) (use src h(4) in simp_all)
  have bnd: "unat Src + ?l < 2 ^ 64" using h(4) by simp
  have sep: "\<forall>x. in_range p ?S x \<longrightarrow> \<not> in_range Src ?l x" using src by blast
  obtain m' where m': "unpack_copy_loop Src p (mem v) = Some m'" "unpacked m' p ns" "\<forall>x. \<not> in_range p ?S x \<longrightarrow> m' x = mem v x"
    using unpack_copy_nodes [OF hv h(5,3) p(1) bnd p(2) sep] by blast
  have wr: "in_range p ?S x" if "m' x \<noteq> mem v x" for x using that m'(3) by blast
  let ?w1 = "v\<lparr>mem := m'\<rparr>"
  note w1 = own_block_write [OF blk(1,2) wr]
  have "in_use owner ?w1 p ?S" using w1(2) by (simp add: own_block_def in_use_def)
  then have "nodes_in owner ?w1 p ns" using m'(2) h(5) p(2) by (intro unpacked_nodes_in) simp_all
  moreover have "UnpackDevicePath bs pt Src w = Some (p, ?w1)"
    using unpack_size_nodes [OF h(1,5), of 0] al p(1) m'(1) by (simp add: UnpackDevicePath_def)
  ultimately show ?thesis using w1 blk(3) by auto
qed

text \<open>The text is kept when the unpacked path is freed, and moved to a block of its size with a NUL at its end.\<close>

lemma own_block_start: "own_block owner w0 p n w \<Longrightarrow> 0 < n \<Longrightarrow> owner (fw w) p = Some p"
  by (auto simp: own_block_def in_range_def)

lemma own_block_earlier: "own_block owner w1 q n w \<Longrightarrow> extends owner w0 w1 \<Longrightarrow> own_block owner w0 q n w"
  by (auto simp: own_block_def extends_def)

lemma terminated_text:
  assumes "own_block owner w0 q (2 * (length t + 1)) w" "extends owner w0 w" "holds (mem w) q (wide t)" "length t < 2 ^ 61"
  defines "w' \<equiv> w\<lparr>mem := write16 (mem w) (q + 2 * of_nat (length t)) 0\<rparr>"
  shows "own_block owner w0 q (2 * (length t + 1)) w'" "extends owner w0 w'" "holds (mem w') q (wide (t @ [0]))"
proof -
  let ?a = "q + of_nat (2 * length t)" and ?m = "write_bytes (mem w) (q + of_nat (2 * length t)) (wide [0])"
  have w': "w' = w\<lparr>mem := ?m\<rparr>" by (simp add: w'_def write16_def wide_Cons)
  have q: "unat q + 2 * (length t + 1) < 2 ^ 64" using assms(1) by (simp add: own_block_def)
  have wr: "in_range q (2 * (length t + 1)) x" if "?m x \<noteq> mem w x" for x
  proof -
    have "in_range ?a 2 x" using that by (auto simp: write_bytes_apply split: if_splits)
    then show ?thesis by (rule in_range_sub) (use assms(4) in simp_all)
  qed
  show "own_block owner w0 q (2 * (length t + 1)) w'" "extends owner w0 w'" unfolding w' using own_block_write [OF assms(1,2) wr] by blast+
  have "\<not> in_range ?a 2 x" if "in_range q (2 * length t) x" for x
    using laid_out(1) [of q "2 * (length t + 1)" 0 "2 * length t" "2 * length t" 2 x] q that by (cases "t = []") simp_all
  then have "holds ?m q (wide t)" using assms(4) by (intro holds_frame [OF assms(3)] write_bytes_outside) simp_all
  moreover have "holds ?m ?a (wide [0])" by (rule holds_write_bytes) simp
  ultimately show "holds (mem w') q (wide (t @ [0]))" by (simp add: w' holds_append)
qed

lemma string_finished:
  assumes P: "pool_blocks bs owner" "pool_fits bs n fits" "2 * (length t + 1) \<le> n" "length t < 2 ^ 60"
    and w1: "extends owner w w1" "own_block owner w p S w1" "0 < S" and run: "pool_run owner w1 fits F t (Str, w2)" "0 < fits (fw w2)"
    and r: "ReallocatePool bs pt (pp_str Str) ((pp_len Str + 1) * 2) ((pp_len Str + 1) * 2) (LibFreePool bs p w2) = (q, v)"
  shows "own_block owner w q (2 * (length t + 1)) v" "extends owner w v" "holds (mem v) q (wide t)"
proof -
  let ?w3 = "LibFreePool bs p w2" and ?N = "(pp_len Str + 1) * 2"
  have ok: "pool_ok owner w1 (Str, w2)" "pool_text t (Str, w2)" using run(1) by (simp_all add: pool_run_def)
  have l: "unat (pp_len Str) = length t" using ok(2) by (cases "Str = no_text") (simp_all add: pool_text_def no_text_def)
  then have len: "pp_len Str = of_nat (length t)" by (metis of_nat_unat_u64)
  then have "?N = of_nat (2 * (length t + 1))" by simp
  then have N: "unat ?N = 2 * (length t + 1)" using unat_of_nat_u64 [of "2 * (length t + 1)"] P(4) by (simp only:) simp
  have N0: "?N \<noteq> 0" using N by (intro notI) (simp only: unat_0, simp)
  have ex2: "extends owner w w2" using extends_trans [OF w1(1)] ok(1) by (simp add: pool_ok_def)
  have fresh: "\<forall>x. owner (fw w) x \<noteq> Some p" using w1(2) by (simp add: own_block_def)
  note free = free_other_block [OF P(1) ex2 fresh]
  have q: "q \<noteq> 0" using ReallocatePool_fits(2) [OF P(1,2) r N0] N P(3) LibFreePool_fits [OF P(2), of w2 p] run(2) by simp
  show "own_block owner w q (2 * (length t + 1)) v" "extends owner w v" "holds (mem v) q (wide t)"
  proof (atomize (full), cases "Str = no_text")
    case True
    then have "t = []" "pp_str Str = 0" using ok(2) by (simp_all add: pool_text_def no_text_def)
    then show "own_block owner w q (2 * (length t + 1)) v \<and> extends owner w v \<and> holds (mem v) q (wide t)"
      using ReallocatePool_nothing [OF P(1) free(1) N0, of pt] r q N by auto
  next
    case False
    let ?K = "2 * unat (pp_maxlen Str)"
    have blk: "own_block owner w1 (pp_str Str) ?K w2" "pp_len Str < pp_maxlen Str" using ok(1) False by (simp_all add: pool_ok_def)
    have K: "unat ?N \<le> ?K" "0 < ?K" using blk(2) N len P(4) by (simp_all add: word_less_nat_alt unat_of_nat_u64)
    have "pp_str Str \<noteq> p" using own_block_start [OF w1(2,3)] blk(1) by (auto simp: own_block_def)
    then have moved: "own_block owner w (pp_str Str) ?K ?w3" "\<And>x. in_range (pp_str Str) ?K x \<Longrightarrow> mem ?w3 x = mem w2 x"
      using free(2) [OF own_block_earlier [OF blk(1) w1(1)]] by blast+
    have "holds (mem w2) (pp_str Str) (wide (t @ [0]))" using ok(2) False by (simp add: pool_text_def)
    then have h: "holds (mem ?w3) (pp_str Str) (wide (t @ [0]))"
      by (rule holds_frame, intro moved(2)) (use K(1) N P(4) in \<open>auto simp: in_range_def\<close>)
    note m = ReallocatePool_block [OF P(1) free(1) moved(1) K(2,1) order_refl N0 r]
    have "holds (mem v) q (wide (t @ [0]))" using m(3) [OF q h] N by simp
    then show "own_block owner w q (2 * (length t + 1)) v \<and> extends owner w v \<and> holds (mem v) q (wide t)"
      using m(1) m(2) [OF q] N by (simp add: holds_append)
  qed
qed

lemma pool_fits_smaller: "pool_fits bs n fits \<Longrightarrow> k \<le> n \<Longrightarrow> pool_fits bs k fits"
  unfolding pool_fits_def by (meson le_trans)

text \<open>
  C38: \<^verbatim>\<open>DevicePathToStr\<close> of a packed path whose nodes have a text returns, when the pool does not run out, a block of its own of just the size of the text and
  its terminator that holds the text of the path, its nodes in order with a slash before every node but the first and the ends of instances; nothing that was in use
  is changed.
\<close>

theorem DevicePathToStr_text:
  assumes P: "pool_blocks bs owner" "pool_fits bs n fits" "length t div 200 + 4 \<le> fits (fw w)" "2 * (length t + 201) \<le> n" "2 * length (enc_path ns) \<le> n"
    and h: "holds (mem w) DevPath (enc_path ns)" "in_use owner w DevPath (length (enc_path ns))" "DevPath \<noteq> 0" "unat DevPath + length (enc_path ns) < 2 ^ 63"
    and t: "list_all listed ns" "path_text [] ns = Some t" "length t < 2 ^ 60"
  shows "\<exists>str w'. DevicePathToStr bs pt (std_sub dp fts (\<lambda>c. mem (snd c))) DevPath w = Some (str, w') \<and> extends owner w w' \<and>
    own_block owner w str (2 * (length t + 1)) w' \<and> holds (mem w') str (wide (t @ [0]))"
proof -
  let ?sub = "std_sub dp fts (\<lambda>c. mem (snd c))" and ?S = "unpacked_sizes ns + 4"
  obtain p w1 where w1: "UnpackDevicePath bs pt DevPath w = Some (p, w1)" "extends owner w w1" "own_block owner w p ?S w1" "nodes_in owner w1 p ns"
      "fits (fw w) \<le> Suc (fits (fw w1))"
    using UnpackDevicePath_unpacks [OF P(1,2,5) _ h t(1), of pt] P(3) by auto
  let ?F = "fits (fw w1)"
  have env: "print_env bs pt owner fits (length t) ?F ?sub w1"
    using P(1,3) pool_fits_smaller [OF P(2,4)] w1(5) by (auto simp: print_env_def)
  have "pool_run owner w1 fits ?F [] (no_text, w1)" by (simp add: pool_run_def pool_ok_def pool_text_def no_text_def)
  then obtain Str w2 where run: "nodes_loop (CatPrint_lit bs pt ?sub) p (no_text, w1) = Some (Str, w2)" "pool_run owner w1 fits ?F t (Str, w2)"
    using nodes_loop_prints [OF env w1(4) t(2) order_refl] by (metis prod.collapse)
  have "(length t + 201) div 200 \<le> (length t + 2 * 200) div 200" by (rule div_le_mono) simp
  also have "\<dots> = length t div 200 + 2" by simp
  finally have "(length t + 201) div 200 \<le> length t div 200 + 2" .
  then have left: "0 < fits (fw w2)" using run(2) P(3) w1(5) div_le_mono [of "unat (pp_maxlen Str)" "length t + 201" 200] by (simp add: pool_run_def)
  obtain q v where r: "ReallocatePool bs pt (pp_str Str) ((pp_len Str + 1) * 2) ((pp_len Str + 1) * 2) (LibFreePool bs p w2) = (q, v)" by fastforce
  have S: "0 < ?S" "2 * (length t + 1) \<le> n" "length t < 2 ^ 61" using P(4) t(3) by simp_all
  note fin = string_finished [OF P(1,2) S(2) t(3) w1(2,3) S(1) run(2) left r]
  have "unat (pp_len Str) = length t" using run(2) by (auto simp: pool_run_def pool_text_def no_text_def split: if_splits)
  then have len: "pp_len Str = of_nat (length t)" by (metis of_nat_unat_u64)
  show ?thesis using terminated_text [OF fin S(3)] w1(1) run(1) r by (simp add: DevicePathToStr_def no_text_def len)
qed

section \<open>A path, printed\<close>

text \<open>A pool of a hundred blocks of \<open>0x1000\<close> bytes, none of them reused; the firmware state is the number of blocks that were handed out.\<close>

definition slot_bs :: "nat boot_services" where
  "slot_bs = null_bs\<lparr>
     AllocatePool := \<lambda>_ n a w. if unat n \<le> 0x1000 \<and> fw w < 100 then ((EFI_SUCCESS, of_nat (0x1000 * Suc (fw w))), w\<lparr>fw := Suc (fw w)\<rparr>) else ((EFI_OUT_OF_RESOURCES, a), w),
     FreePool := \<lambda>_ w. (EFI_SUCCESS, w)\<rparr>"

definition slot_owner :: "nat \<Rightarrow> addr \<Rightarrow> addr option" where
  "slot_owner c x = (let i = unat x div 0x1000 in if 1 \<le> i \<and> i \<le> c \<and> i \<le> 100 then Some (of_nat (0x1000 * i)) else None)"

lemma slot_start: "i \<le> 100 \<Longrightarrow> unat (of_nat (0x1000 * i) :: addr) = 0x1000 * i"
  by (rule unat_of_nat_u64) simp

lemma slot_blocks: "pool_blocks slot_bs slot_owner"
proof -
  have inj: "i = j" if "(of_nat (0x1000 * i) :: addr) = of_nat (0x1000 * j)" "i \<le> 100" "j \<le> 100" for i j
    using that slot_start [of i] slot_start [of j] by simp
  have new: "slot_owner c x \<noteq> Some (of_nat (0x1000 * Suc c))" if "c < 100" for c x
    using that inj [of "unat x div 0x1000" "Suc c"] by (auto simp: slot_owner_def Let_def)
  have part: "unat (of_nat (0x1000 * Suc c) + of_nat k :: addr) div 0x1000 = Suc c" if "c < 100" "k < 0x1000" for c k
  proof -
    have "unat (of_nat (0x1000 * Suc c) + of_nat k :: addr) = 0x1000 * Suc c + k"
      using that slot_start [of "Suc c"] by (subst unat_add_of_nat_u64) simp_all
    then show ?thesis using that by simp
  qed
  have own: "slot_owner c (of_nat (0x1000 * Suc c) + of_nat k) = None \<and> slot_owner (Suc c) (of_nat (0x1000 * Suc c) + of_nat k) = Some (of_nat (0x1000 * Suc c))"
    if "c < 100" "k < 0x1000" for c k
    unfolding slot_owner_def Let_def part [OF that] using that by simp
  have old: "slot_owner (Suc c) x = slot_owner c x" if "slot_owner c x \<noteq> None" for c x
    using that by (auto simp: slot_owner_def Let_def split: if_splits)
  have alloc: "(\<forall>x. slot_owner (fw w) x \<noteq> None \<longrightarrow> mem w' x = mem w x \<and> slot_owner (fw w') x = slot_owner (fw w) x) \<and>
      (\<not> EFI_ERROR st \<longrightarrow> a \<noteq> 0 \<and> unat a + unat n < 2 ^ 64 \<and> unat n \<le> 2 ^ 62 \<and> (\<forall>x. slot_owner (fw w) x \<noteq> Some a) \<and>
         (\<forall>k < unat n. slot_owner (fw w) (a + of_nat k) = None \<and> slot_owner (fw w') (a + of_nat k) = Some a))"
    if r: "AllocatePool slot_bs mt n a0 w = ((st, a), w')" for mt n a0 w st a w'
  proof (cases "unat n \<le> 0x1000 \<and> fw w < 100")
    case True
    then have a: "a = of_nat (0x1000 * Suc (fw w))" "w' = w\<lparr>fw := Suc (fw w)\<rparr>" and c: "fw w < 100" and n: "unat n \<le> 0x1000"
      using r by (auto simp: slot_bs_def)
    have u: "unat a = 0x1000 * Suc (fw w)" using slot_start [of "Suc (fw w)"] c by (simp add: a(1) del: of_nat_mult of_nat_Suc)
    then have "a \<noteq> 0" by auto
    moreover have "unat a + unat n < 2 ^ 64" "unat n \<le> 2 ^ 62" using u c n by simp_all
    ultimately show ?thesis using new [OF c] own [OF c] old n unfolding a by (simp del: of_nat_mult of_nat_Suc)
  next
    case False
    then show ?thesis using r by (auto simp: slot_bs_def EFI_ERROR_def EFI_OUT_OF_RESOURCES_def EFIERR_def)
  qed
  have "mem w' x = mem w x \<and> slot_owner (fw w') x = Some q" if "FreePool slot_bs p w = (st, w')" "slot_owner (fw w) x = Some q" for p w st w' x q
    using that by (simp add: slot_bs_def)
  then show ?thesis using alloc unfolding pool_blocks_def by blast
qed

lemma slot_fits: "pool_fits slot_bs 0x1000 (\<lambda>c. 100 - c)"
  by (auto simp: pool_fits_def slot_bs_def EFI_ERROR_def EFI_SUCCESS_def split: if_splits)

text \<open>A PCI device and the file \<^verbatim>\<open>a\<close> on it.\<close>

definition demo_path :: "node list" where
  "demo_path = [(1, 1, [2, 0x1F]), (4, 4, [0x61, 0, 0, 0])]"

definition demo_path_world :: "nat world" where
  "demo_path_world = \<lparr>mem = write_bytes (\<lambda>_. 0) 0x1000 (enc_path demo_path), fw = 1\<rparr>"

lemma demo_path_bytes: "enc_path demo_path = [1, 1, 6, 0, 2, 0x1F, 4, 4, 8, 0, 0x61, 0, 0, 0, 0x7F, 0xFF, 4, 0]"
  by (simp add: demo_path_def enc_path_simps enc_node_def le_bytes_numeral)

lemma demo_path_text: "path_text [] demo_path = Some (wlit ''Pci(0x1F,0x2)/a'')"
  by (simp add: demo_path_def node_text_def node_texts_def separator_def pci_text_def file_text_def wlit_def hex_text_def to_base.simps hex_wchar_def Hex_def crlf_def)

theorem DevicePathToStr_text_witness:
  "\<exists>str w'. DevicePathToStr slot_bs 4 (std_sub (\<lambda>_ _. None) (\<lambda>_ _. None) (\<lambda>c. mem (snd c))) 0x1000 demo_path_world = Some (str, w') \<and>
     holds (mem w') str (wide (wlit ''Pci(0x1F,0x2)/a'' @ [0]))"
proof -
  have h: "holds (mem demo_path_world) 0x1000 (enc_path demo_path)" unfolding demo_path_world_def world.simps
    by (rule holds_write_bytes) (simp add: demo_path_bytes)
  have u: "in_use slot_owner demo_path_world 0x1000 (length (enc_path demo_path))" unfolding in_use_def
  proof (intro allI impI)
    fix x :: addr
    assume x: "in_range 0x1000 (length (enc_path demo_path)) x"
    define k where "k = unat (x - 0x1000)"
    have k: "k < 18" "x = 0x1000 + of_nat k" using x by (simp_all add: demo_path_bytes in_range_def k_def)
    have "unat x = 0x1000 + k" unfolding k(2) using k(1) unat_add_of_nat_u64 [of "0x1000" k] by simp
    then have "unat x div 0x1000 = 1" using k(1) by simp
    then show "slot_owner (fw demo_path_world) x \<noteq> None" by (simp add: slot_owner_def demo_path_world_def)
  qed
  have n: "length (wlit ''Pci(0x1F,0x2)/a'') = 15" "length (enc_path demo_path) = 18" by (simp_all add: wlit_def demo_path_bytes)
  have l: "list_all listed demo_path" by (simp add: demo_path_def listed_def unpacked_size_def)
  have "fw demo_path_world = 1" by (simp add: demo_path_world_def)
  then show ?thesis using DevicePathToStr_text [OF slot_blocks slot_fits _ _ _ h u _ _ l demo_path_text, of 4 "\<lambda>_ _. None" "\<lambda>_ _. None", unfolded n] by auto
qed

end
