(* ===== verification/Dbg_Io.thy ===== *)
theory Dbg_Io
  imports Prelude "HOL-Library.Signed_Division" "HOL-Library.Multiset"
begin

text \<open>
  The kernel's debug output, \<^verbatim>\<open>debug/dbgio.c\<close>: the table of character sinks, the number conversions with
  their static buffers, and the formatter behind \<^verbatim>\<open>dbg_msg\<close>.

  A sink is the address of a function, \<^verbatim>\<open>NULL\<close> is 0, and the calls of sinks are recorded in order in \<open>calls\<close>.  A static
  buffer is a function on \<open>int\<close> indices, so that an index outside the array is visible.  A C string is
  a function from offsets to bytes.  The arguments of \<^verbatim>\<open>dbg_msg\<close> are integers in 64-bit slots or strings; asking for
  an argument that is not there or is of the other sort is undefined in C and gives \<open>None\<close>.
\<close>

type_synonym buf = "int \<Rightarrow> u8"
type_synonym ctext = "u64 \<Rightarrow> u8"

record dbgio =
  sinks :: "addr list"
  toU64StrBuff :: buf
  toH64StrBuff :: buf
  toH32StrBuff :: buf
  toH16StrBuff :: buf
  toH8StrBuff :: buf
  toI64StrBuff :: buf
  calls :: "(addr \<times> u8) list"

definition DBG_MAX_CHARSINKS :: nat where "DBG_MAX_CHARSINKS = 4"
definition EBUSY :: int where "EBUSY = 16"

definition dbgio_init :: dbgio where
  "dbgio_init = \<lparr>sinks = replicate DBG_MAX_CHARSINKS 0, toU64StrBuff = (\<lambda>_. 0), toH64StrBuff = (\<lambda>_. 0), toH32StrBuff = (\<lambda>_. 0),
     toH16StrBuff = (\<lambda>_. 0), toH8StrBuff = (\<lambda>_. 0), toI64StrBuff = (\<lambda>_. 0), calls = []\<rparr>"

section \<open>Sinks\<close>

text \<open>The loops over the sink table, from its first entry on; \<open>None\<close> when the loop ends without a return.\<close>

primrec replace_first :: "addr \<Rightarrow> addr \<Rightarrow> addr list \<Rightarrow> addr list option" where
  "replace_first old new [] = None"
| "replace_first old new (s # ss) =
     (if s = old then Some (new # ss) else map_option ((#) s) (replace_first old new ss))"

definition dbg_register_sink :: "addr \<Rightarrow> dbgio \<Rightarrow> int \<times> dbgio" where
  "dbg_register_sink sink d =
     (case replace_first 0 sink (sinks d) of Some ss \<Rightarrow> (0, d\<lparr>sinks := ss\<rparr>) | None \<Rightarrow> (- EBUSY, d))"

definition dbg_unregister_sink :: "addr \<Rightarrow> dbgio \<Rightarrow> dbgio" where
  "dbg_unregister_sink sink d =
     (case replace_first sink 0 (sinks d) of Some ss \<Rightarrow> d\<lparr>sinks := ss\<rparr> | None \<Rightarrow> d)"

definition dbg_sinkchr :: "u8 \<Rightarrow> dbgio \<Rightarrow> dbgio" where
  "dbg_sinkchr c d = d\<lparr>calls := calls d @ map (\<lambda>s. (s, c)) (filter (\<lambda>s. s \<noteq> 0) (sinks d))\<rparr>"

section \<open>Numbers\<close>

definition dbg_strlen :: "ctext \<Rightarrow> u64 option" where
  "dbg_strlen str = scan_while (\<lambda>i. str i \<noteq> 0) 0"

definition buf_text :: "buf \<Rightarrow> ctext" where
  "buf_text b i = b (uint i)"

function count_digits :: "u64 \<Rightarrow> u8 \<Rightarrow> u8" where
  "count_digits sizeTest len = (if sizeTest div 10 > 0 then count_digits (sizeTest div 10) (len + 1) else len)"
  by pat_completeness auto
termination
  by (relation "measure (\<lambda>(s, _). unat s)") (auto simp: word_less_nat_alt unat_div)

declare count_digits.simps [simp del]

text \<open>The \<^verbatim>\<open>do\<close> loop of \<^verbatim>\<open>u64_to_str\<close>: returned are \<^verbatim>\<open>v\<close>, \<^verbatim>\<open>index\<close> and the buffer.\<close>

function u64_digits :: "u8 \<Rightarrow> u64 \<Rightarrow> u8 \<Rightarrow> buf \<Rightarrow> u64 \<times> u8 \<times> buf" where
  "u64_digits len v index b =
     (let b = b(uint len - uint index := ucast (v mod 10) + 48); v = v div 10; index = index + 1
      in if v div 10 > 0 then u64_digits len v index b else (v, index, b))"
  by pat_completeness auto
termination
  by (relation "measure (\<lambda>(_, v, _). unat v)") (auto simp: word_less_nat_alt unat_div)

declare u64_digits.simps [simp del]

definition u64_to_str :: "u64 \<Rightarrow> dbgio \<Rightarrow> dbgio" where
  "u64_to_str v d =
     (let len = count_digits v 0;
          (v, index, b) = u64_digits len v 0 (toU64StrBuff d)
      in d\<lparr>toU64StrBuff := b(uint len - uint index := ucast (v mod 10) + 48, uint len + 1 := 0)\<rparr>)"

definition hexDigits :: "u8 list" where
  "hexDigits = [0x30, 0x31, 0x32, 0x33, 0x34, 0x35, 0x36, 0x37, 0x38, 0x39, 0x41, 0x42, 0x43, 0x44, 0x45, 0x46]"

text \<open>\<^verbatim>\<open>for (int i = 0; i < n; ++i) buff[n - 1 - i] = hexDigits[(v >> (i * 4)) & 0xF];\<close>\<close>

primrec hex_loop :: "nat \<Rightarrow> u64 \<Rightarrow> nat \<Rightarrow> buf \<Rightarrow> buf" where
  "hex_loop n v 0 b = b"
| "hex_loop n v (Suc k) b =
     hex_loop n v k (b(int n - 1 - (int n - int (Suc k)) := hexDigits ! unat (drop_bit ((n - Suc k) * 4) v AND 0xF)))"

definition u64_to_hstr :: "u64 \<Rightarrow> dbgio \<Rightarrow> dbgio" where
  "u64_to_hstr v d = d\<lparr>toH64StrBuff := (hex_loop 16 v 16 (toH64StrBuff d))(16 := 0)\<rparr>"

definition u32_to_hstr :: "u32 \<Rightarrow> dbgio \<Rightarrow> dbgio" where
  "u32_to_hstr v d = d\<lparr>toH32StrBuff := (hex_loop 8 (ucast v) 8 (toH32StrBuff d))(8 := 0)\<rparr>"

definition u8_to_hstr :: "u8 \<Rightarrow> dbgio \<Rightarrow> dbgio" where
  "u8_to_hstr v d = d\<lparr>toH8StrBuff := (hex_loop 2 (ucast v) 2 (toH8StrBuff d))(8 := 0)\<rparr>"

text \<open>
  \<^verbatim>\<open>s64\<close> values are \<open>int\<close>; the product with -1 wraps, the divisions truncate.
\<close>

definition s64_wrap :: "int \<Rightarrow> int" where
  "s64_wrap v = sint (word_of_int v :: u64)"

function s64_digits :: "u8 \<Rightarrow> u8 \<Rightarrow> int \<Rightarrow> u8 \<Rightarrow> buf \<Rightarrow> int \<times> u8 \<times> buf" where
  "s64_digits negative len v index b =
     (if v sdiv 10 > 0
      then s64_digits negative len (v sdiv 10) (index + 1)
             (b(uint negative + uint len - uint index := word_of_int (v smod 10) + 48))
      else (v, index, b))"
  by pat_completeness auto
termination
  by (relation "measure (\<lambda>(_, _, v, _). nat v)")
     (auto simp: signed_divide_int_def sgn_if abs_if split: if_splits)

declare s64_digits.simps [simp del]

definition s64_to_str :: "int \<Rightarrow> dbgio \<Rightarrow> dbgio" where
  "s64_to_str v d =
     (let (negative, v, b) = (if v < 0 then (1, s64_wrap (v * -1), (toI64StrBuff d)(0 := 0x2D)) else (0, v, toI64StrBuff d));
          len = count_digits (word_of_int v) 0;
          (v, index, b) = s64_digits negative len v 0 b
      in d\<lparr>toI64StrBuff := b(uint negative + uint len - uint index := word_of_int (v smod 10) + 48,
                             uint negative + uint len + 1 := 0)\<rparr>)"

section \<open>The formatter\<close>

datatype dbg_arg = VInt u64 | VStr ctext

datatype conv = ConvC | ConvS | ConvD | ConvLD | ConvU | ConvLU | ConvB | ConvX | ConvLX

text \<open>The chain of conditions on the characters after \<^verbatim>\<open>%\<close>, with the number of characters taken.\<close>

definition conversion :: "u8 \<Rightarrow> u8 \<Rightarrow> (conv \<times> u64) option" where
  "conversion c0 c1 =
     (if c0 = 0x63 then Some (ConvC, 1)
      else if c0 = 0x73 then Some (ConvS, 1)
      else if c0 = 0x64 \<or> c0 = 0x69 then Some (ConvD, 1)
      else if c0 = 0x6C \<and> c1 = 0x64 \<or> c0 = 0x6C \<and> c1 = 0x69 then Some (ConvLD, 2)
      else if c0 = 0x75 then Some (ConvU, 1)
      else if c0 = 0x6C \<and> c1 = 0x75 then Some (ConvLU, 2)
      else if c0 = 0x62 then Some (ConvB, 1)
      else if c0 = 0x78 then Some (ConvX, 1)
      else if c0 = 0x6C \<and> c1 = 0x78 then Some (ConvLX, 2)
      else None)"

text \<open>The string a conversion prints, for all but \<^verbatim>\<open>%c\<close>.\<close>

fun conv_str :: "conv \<Rightarrow> dbg_arg \<Rightarrow> dbgio \<Rightarrow> (ctext \<times> dbgio) option" where
  "conv_str ConvS (VStr str) d = Some (str, d)"
| "conv_str ConvD (VInt a) d = (let d = s64_to_str (sint (ucast a :: u32)) d in Some (buf_text (toI64StrBuff d), d))"
| "conv_str ConvLD (VInt a) d = (let d = s64_to_str (sint a) d in Some (buf_text (toI64StrBuff d), d))"
| "conv_str ConvU (VInt a) d = (let d = u64_to_str (ucast (ucast a :: u32)) d in Some (buf_text (toU64StrBuff d), d))"
| "conv_str ConvLU (VInt a) d = (let d = u64_to_str a d in Some (buf_text (toU64StrBuff d), d))"
| "conv_str ConvB (VInt a) d = (let d = u8_to_hstr (ucast a) d in Some (buf_text (toH8StrBuff d), d))"
| "conv_str ConvX (VInt a) d = (let d = u32_to_hstr (ucast a) d in Some (buf_text (toH32StrBuff d), d))"
| "conv_str ConvLX (VInt a) d = (let d = u64_to_hstr a d in Some (buf_text (toH64StrBuff d), d))"
| "conv_str _ _ d = None"

primrec dbg_internal_print_str :: "ctext \<Rightarrow> u64 \<Rightarrow> nat \<Rightarrow> dbgio \<Rightarrow> dbgio" where
  "dbg_internal_print_str s i 0 d = d"
| "dbg_internal_print_str s i (Suc n) d = dbg_internal_print_str s (i + 1) n (dbg_sinkchr (s i) d)"

text \<open>\<open>fmt\<close> is the offset into the format string \<open>f\<close>.\<close>

partial_function (option) dbg_internal_print ::
  "ctext \<Rightarrow> u64 \<Rightarrow> dbg_arg list \<Rightarrow> u64 \<Rightarrow> dbgio \<Rightarrow> (u64 \<times> dbgio) option" where
  [code]: "dbg_internal_print f fmt params written d =
     (if f fmt = 0 then Some (written, d)
      else let maxrem = - 1 - written in
        if f fmt \<noteq> 0x25 \<or> f (fmt + 1) = 0x25 then
          let fmt = (if f fmt = 0x25 then fmt + 1 else fmt) in
          case scan_while (\<lambda>i. f (fmt + i) \<noteq> 0 \<and> f (fmt + i) \<noteq> 0x25) 1 of None \<Rightarrow> None
          | Some amount \<Rightarrow>
              if maxrem < amount then Some (0, d)
              else dbg_internal_print f (fmt + amount) params (written + amount)
                     (dbg_internal_print_str (\<lambda>i. f (fmt + i)) 0 (unat amount) d)
        else
          case conversion (f (fmt + 1)) (f (fmt + 2)) of
            Some (k, n) \<Rightarrow>
              (case params of [] \<Rightarrow> None
               | a # params \<Rightarrow>
                   if k = ConvC then
                     (case a of VStr _ \<Rightarrow> None
                      | VInt c \<Rightarrow>
                          if maxrem < 1 then Some (0, d)
                          else dbg_internal_print f (fmt + 1 + n) params (written + 1)
                                 (dbg_internal_print_str (\<lambda>_. ucast c) 0 1 d))
                   else
                     (case conv_str k a d of None \<Rightarrow> None
                      | Some (str, d) \<Rightarrow>
                          (case dbg_strlen str of None \<Rightarrow> None
                           | Some amount \<Rightarrow>
                               if maxrem < amount then Some (0, d)
                               else dbg_internal_print f (fmt + 1 + n) params (written + amount)
                                      (dbg_internal_print_str str 0 (unat amount) d))))
          | None \<Rightarrow>
              (case dbg_strlen (\<lambda>i. f (fmt + i)) of None \<Rightarrow> None
               | Some amount \<Rightarrow>
                   if maxrem < amount then Some (0, d)
                   else dbg_internal_print f (fmt + amount) params (written + amount)
                          (dbg_internal_print_str (\<lambda>i. f (fmt + i)) 0 (unat amount) d)))"

definition dbg_msg :: "ctext \<Rightarrow> dbg_arg list \<Rightarrow> dbgio \<Rightarrow> (u64 \<times> dbgio) option" where
  "dbg_msg fmt params d = dbg_internal_print fmt 0 params 0 d"

section \<open>Strings in buffers\<close>

definition text_is :: "ctext \<Rightarrow> u8 list \<Rightarrow> bool" where
  "text_is t bs \<longleftrightarrow> length bs < 2 ^ 64 \<and> (\<forall>i < length bs. t (of_nat i) = bs ! i \<and> bs ! i \<noteq> 0) \<and> t (of_nat (length bs)) = 0"

lemma dbg_strlen_text: "text_is t bs \<Longrightarrow> dbg_strlen t = Some (of_nat (length bs))"
  unfolding dbg_strlen_def using scan_while_stop [of "length bs" "\<lambda>i. t i \<noteq> 0" 0] by (simp add: text_is_def)

text \<open>\<open>overlay b k ds\<close>: the buffer \<open>b\<close> with \<open>ds\<close> written from index \<open>k\<close> on.\<close>

definition overlay :: "buf \<Rightarrow> int \<Rightarrow> u8 list \<Rightarrow> buf" where
  "overlay b k ds i = (if k \<le> i \<and> i < k + int (length ds) then ds ! nat (i - k) else b i)"

lemma overlay_Nil [simp]: "overlay b k [] = b"
proof
  show "overlay b k [] i = b i" for i by (cases "k \<le> i \<and> i < k") (auto simp: overlay_def)
qed

lemma overlay_snoc: "overlay b k (ds @ [c]) = overlay (b(k + int (length ds) := c)) k ds"
proof
  fix i
  consider "k \<le> i" "i < k + int (length ds)" | "i = k + int (length ds)" | "i < k \<or> k + int (length ds) < i" by linarith
  then show "overlay b k (ds @ [c]) i = overlay (b(k + int (length ds) := c)) k ds i"
    by cases (auto simp: overlay_def nth_append)
qed

lemma overlay_text:
  assumes "length ds < 2 ^ 63" "\<forall>c \<in> set ds. c \<noteq> 0" "\<And>i. i < int (length ds) \<Longrightarrow> 0 \<le> i \<Longrightarrow> b i = ds ! nat i" "b (int (length ds)) = 0"
  shows "text_is (buf_text b) ds"
proof -
  have u: "uint (of_nat k :: u64) = int k" if "k \<le> length ds" for k
    using that assms(1) by (simp add: uint_nat unat_of_nat_u64)
  show ?thesis using assms u by (auto simp: text_is_def buf_text_def)
qed

section \<open>Decimal and hexadecimal texts\<close>

fun show_nat :: "nat \<Rightarrow> u8 list" where
  "show_nat n = (if n < 10 then [48 + of_nat n] else show_nat (n div 10) @ [48 + of_nat (n mod 10)])"

declare show_nat.simps [simp del]

definition show_int :: "int \<Rightarrow> u8 list" where
  "show_int v = (if v < 0 then 0x2D # show_nat (nat (- v)) else show_nat (nat v))"

definition show_hex :: "nat \<Rightarrow> nat \<Rightarrow> u8 list" where
  "show_hex n x = map (\<lambda>j. hexDigits ! (x div 16 ^ (n - 1 - j) mod 16)) [0..<n]"

lemma show_nat_small: "n < 10 \<Longrightarrow> show_nat n = [48 + of_nat n]"
  by (subst show_nat.simps) simp

lemma show_nat_big: "10 \<le> n \<Longrightarrow> show_nat n = show_nat (n div 10) @ [48 + of_nat (n mod 10)]"
  by (subst show_nat.simps) simp

lemma digit_nonzero: "n < 10 \<Longrightarrow> (48 + of_nat n :: u8) \<noteq> 0"
proof -
  assume "n < 10"
  then have "unat (48 + of_nat n :: u8) = 48 + n" by (simp add: unat_word_ariths unat_of_nat)
  then show ?thesis by (intro notI) simp
qed

lemma show_nat_nonzero: "\<forall>c \<in> set (show_nat n). c \<noteq> 0"
proof (induction n rule: less_induct)
  case (less n)
  show ?case
  proof (cases "n < 10")
    case True
    then show ?thesis using digit_nonzero [OF True] by (simp add: show_nat_small)
  next
    case False
    then have "\<forall>c \<in> set (show_nat (n div 10)). c \<noteq> 0" by (intro less.IH) simp
    then show ?thesis using False digit_nonzero [of "n mod 10"] by (simp add: show_nat_big)
  qed
qed

lemma length_show_nat_pos: "0 < length (show_nat n)"
  by (subst show_nat.simps) simp

lemma length_show_nat: "n < 10 ^ Suc k \<Longrightarrow> length (show_nat n) \<le> Suc k"
proof (induction k arbitrary: n)
  case (Suc k)
  show ?case
  proof (cases "n < 10")
    case False
    then show ?thesis using Suc.IH [of "n div 10"] Suc.prems by (simp add: show_nat_big)
  qed (simp add: show_nat_small)
qed (simp add: show_nat_small)

lemma length_show_u64: "length (show_nat (unat (v :: u64))) \<le> 20"
  using length_show_nat [of "unat v" 19] unat_less_2p64 [of v] by simp

lemma div10_pos: "0 < (v :: u64) div 10 \<longleftrightarrow> 10 \<le> unat v"
  by (simp add: word_less_nat_alt unat_div div_greater_zero_iff)

lemma unat_add_1_u8: "unat (x :: u8) + 1 < 256 \<Longrightarrow> unat (x + 1) = unat x + 1"
  by (simp add: unat_word_ariths)

lemma count_digits_length:
  "unat len + length (show_nat (unat v)) \<le> 256 \<Longrightarrow> unat (count_digits v len) + 1 = unat len + length (show_nat (unat v))"
proof (induction v len rule: count_digits.induct)
  case (1 v len)
  show ?case
  proof (cases "0 < v div 10")
    case True
    then have big: "10 \<le> unat v" by (simp add: div10_pos)
    then have l: "length (show_nat (unat v)) = Suc (length (show_nat (unat (v div 10))))"
      by (simp add: show_nat_big unat_div)
    have "unat len + 1 < 256"
      using "1.prems" l length_show_nat_pos [of "unat (v div 10)"] by linarith
    then have "unat (len + 1) = unat len + 1" by (rule unat_add_1_u8)
    then show ?thesis using 1 True l by (subst count_digits.simps) simp
  next
    case False
    then have "unat v < 10" by (simp add: div10_pos)
    then show ?thesis using False by (subst count_digits.simps) (simp add: show_nat_small)
  qed
qed

lemma digit_u8: "(ucast ((v :: u64) mod 10) + 48 :: u8) = 48 + of_nat (unat v mod 10)"
proof -
  have "(ucast (v mod 10) :: u8) = of_nat (unat (v mod 10))" by (simp only: of_nat_unat)
  moreover have "unat (v mod 10) = unat v mod 10" by (simp add: unat_mod_distrib unat_mod)
  ultimately show ?thesis by (simp only: add.commute)
qed

lemma u64_digits_overlay:
  assumes "10 \<le> unat v" "uint len - uint index + 1 = int (length (show_nat (unat v)))" "uint len < 255"
    "u64_digits len v index b = (v', index', b')"
  shows "b'(uint len - uint index' := ucast (v' mod 10) + 48) = overlay b 0 (show_nat (unat v))"
  using assms
proof (induction len v index b rule: u64_digits.induct)
  case (1 len v index b)
  let ?b = "b(uint len - uint index := ucast (v mod 10) + 48)"
  let ?D = "show_nat (unat (v div 10))"
  have D: "show_nat (unat v) = ?D @ [48 + of_nat (unat v mod 10)]" using "1.prems"(1) by (simp add: show_nat_big unat_div)
  have pos: "uint len - uint index = int (length ?D)" using "1.prems"(2) D by simp
  have "uint index + 1 < 256" using pos "1.prems"(3) length_show_nat_pos [of "unat (v div 10)"] by linarith
  then have i1: "uint (index + 1) = uint index + 1" by (simp add: uint_word_ariths)
  have b: "overlay b 0 (show_nat (unat v)) = overlay ?b 0 ?D" by (simp add: D overlay_snoc pos digit_u8)
  show ?case
  proof (cases "0 < v div 10 div 10")
    case True
    then have run: "u64_digits len (v div 10) (index + 1) ?b = (v', index', b')"
      using "1.prems"(4) by (subst (asm) u64_digits.simps) (simp add: Let_def)
    have "10 \<le> unat (v div 10)" using True by (simp only: div10_pos)
    moreover have "uint len - uint (index + 1) + 1 = int (length ?D)" using pos i1 by simp
    ultimately show ?thesis unfolding b by (rule "1.IH" [OF refl refl refl True _ _ "1.prems"(3) run])
  next
    case False
    then have small: "unat (v div 10) < 10" by (simp only: div10_pos not_le)
    have r: "v' = v div 10" "index' = index + 1" "b' = ?b"
      using "1.prems"(4) False by (subst (asm) u64_digits.simps, simp add: Let_def)+
    have "?D = [48 + of_nat (unat (v div 10) mod 10)]" using small by (simp add: show_nat_small)
    moreover have "uint len - uint (index + 1) = 0" using calculation pos i1 by simp
    ultimately show ?thesis unfolding b r by (simp only: digit_u8 overlay_snoc [of _ _ "[]", simplified])
  qed
qed

lemma u64_to_str_small:
  assumes "unat v < 10"
  shows "toU64StrBuff (u64_to_str v d) = (toU64StrBuff d)(0 := 48 + of_nat (unat v), -1 := 48, 1 := 0)"
proof -
  have z: "\<not> 0 < v div 10" using assms by (simp only: div10_pos)
  then have "v div 10 = 0" by (simp add: word_gt_0)
  moreover have "count_digits v 0 = 0" using z by (subst count_digits.simps) simp
  moreover have "(ucast (v mod 10) + 48 :: u8) = 48 + of_nat (unat v)" using assms by (simp only: digit_u8 mod_less)
  ultimately show ?thesis
    by (simp add: u64_to_str_def Let_def) (subst u64_digits.simps, simp add: Let_def add.commute)
qed

lemma u64_to_str_big:
  assumes "10 \<le> unat v"
  shows "toU64StrBuff (u64_to_str v d) =
    (overlay (toU64StrBuff d) 0 (show_nat (unat v)))(int (length (show_nat (unat v))) := 0)"
proof -
  let ?D = "show_nat (unat v)" and ?len = "count_digits v 0"
  have "unat ?len + 1 = length ?D" using count_digits_length [of 0 v] length_show_u64 [of v] by simp
  then have len: "uint ?len + 1 = int (length ?D)" unfolding uint_nat by linarith
  obtain v' index' b' where run: "u64_digits ?len v 0 (toU64StrBuff d) = (v', index', b')" by (rule prod_cases3)
  have "uint ?len < 255" using len length_show_u64 [of v] by linarith
  then have "b'(uint ?len - uint index' := ucast (v' mod 10) + 48) = overlay (toU64StrBuff d) 0 ?D"
    using len by (intro u64_digits_overlay [OF assms _ _ run]) simp_all
  then show ?thesis using run len by (simp add: u64_to_str_def Let_def)
qed

lemma u64_to_str_text: "text_is (buf_text (toU64StrBuff (u64_to_str v d))) (show_nat (unat v))"
proof (cases "unat v < 10")
  case True
  then show ?thesis
    using show_nat_nonzero [of "unat v"] by (intro overlay_text) (auto simp: u64_to_str_small show_nat_small)
next
  case False
  then show ?thesis
    using length_show_u64 [of v] show_nat_nonzero [of "unat v"]
    by (intro overlay_text) (auto simp: u64_to_str_big overlay_def)
qed

lemma sdiv10_nonneg: "0 \<le> v \<Longrightarrow> v sdiv 10 = v div 10" "0 \<le> v \<Longrightarrow> v smod 10 = v mod (10 :: int)"
  by (auto simp: signed_divide_int_def signed_modulo_int_def sgn_if minus_div_mult_eq_mod)

lemma digit_int: "0 \<le> v \<Longrightarrow> (word_of_int (v mod 10) + 48 :: u8) = 48 + of_nat (nat v mod 10)"
proof -
  assume "0 \<le> v"
  then have "v mod 10 = int (nat v mod 10)" by (simp add: nat_mod_as_int)
  then show ?thesis by (simp only: of_int_of_nat_eq add.commute)
qed

lemma s64_digits_overlay:
  assumes "0 \<le> v" "uint len - uint index + 1 = int (length (show_nat (nat v)))" "uint len < 255"
    "s64_digits negative len v index b = (v', index', b')"
  shows "b'(uint negative + uint len - uint index' := word_of_int (v' smod 10) + 48) = overlay b (uint negative) (show_nat (nat v))"
  using assms
proof (induction negative len v index b rule: s64_digits.induct)
  case (1 negative len v index b)
  let ?b = "b(uint negative + uint len - uint index := word_of_int (v smod 10) + 48)"
  let ?D = "show_nat (nat (v div 10))"
  show ?case
  proof (cases "v div 10 > 0")
    case True
    then have "10 \<le> nat v" by linarith
    then have D: "show_nat (nat v) = ?D @ [48 + of_nat (nat v mod 10)]" by (simp add: show_nat_big nat_div_distrib)
    have pos: "uint len - uint index = int (length ?D)" using "1.prems"(2) D by simp
    then have off: "uint negative + uint len - uint index = uint negative + int (length ?D)" by simp
    have "uint index + 1 < 256" using pos "1.prems"(3) length_show_nat_pos [of "nat (v div 10)"] by linarith
    then have l: "uint len - uint (index + 1) + 1 = int (length ?D)" using pos by (simp add: uint_word_ariths)
    have b: "overlay b (uint negative) (show_nat (nat v)) = overlay ?b (uint negative) ?D"
      unfolding D overlay_snoc off using "1.prems"(1) by (simp only: sdiv10_nonneg digit_int)
    have sd: "v sdiv 10 = v div 10" using "1.prems"(1) by (rule sdiv10_nonneg)
    have run: "s64_digits negative len (v sdiv 10) (index + 1) ?b = (v', index', b')"
      using "1.prems"(4) True sd by (subst (asm) s64_digits.simps) simp
    show ?thesis unfolding b
      by (rule "1.IH" [unfolded sd, OF True _ l "1.prems"(3) run [unfolded sd]]) (use True in linarith)
  next
    case False
    then have small: "nat v < 10" by linarith
    then have D: "show_nat (nat v) = [48 + of_nat (nat v mod 10)]" by (simp add: show_nat_small)
    have r: "v' = v" "index' = index" "b' = b"
      using "1.prems"(1,4) False by (subst (asm) s64_digits.simps, simp add: sdiv10_nonneg)+
    have "uint negative + uint len - uint index = uint negative" using "1.prems"(2) D by simp
    then show ?thesis
      using "1.prems"(1) unfolding r D by (simp only: sdiv10_nonneg digit_int overlay_snoc [of _ _ "[]", simplified])
  qed
qed

lemma s64_to_str_buffer:
  assumes "- (2 ^ 63) < v" "v < 2 ^ 63"
  defines "k \<equiv> if v < 0 then 1 else 0 :: int"
  shows "toI64StrBuff (s64_to_str v d) =
    (overlay (if v < 0 then (toI64StrBuff d)(0 := 0x2D) else toI64StrBuff d) k (show_nat (nat \<bar>v\<bar>)))
      (k + int (length (show_nat (nat \<bar>v\<bar>))) := 0)"
proof -
  define b where "b = (if v < 0 then (toI64StrBuff d)(0 := 0x2D) else toI64StrBuff d)"
  define n where "n = (if v < 0 then 1 else 0 :: u8)"
  let ?D = "show_nat (nat \<bar>v\<bar>)" and ?len = "count_digits (word_of_int \<bar>v\<bar>) 0"
  have u: "unat (word_of_int \<bar>v\<bar> :: u64) = nat \<bar>v\<bar>"
    using assms(1,2) by (simp add: unat_eq_nat_uint uint_word_of_int)
  have w: "s64_wrap (- v) = \<bar>v\<bar>" if "v < 0"
    unfolding s64_wrap_def signed_of_int using that assms(1) by (simp add: signed_take_bit_int_eq_self)
  have l20: "length ?D \<le> 20" using length_show_u64 [of "word_of_int \<bar>v\<bar>"] unfolding u .
  then have "unat ?len + 1 = length ?D" using count_digits_length [of 0 "word_of_int \<bar>v\<bar>"] unfolding u by simp
  then have len: "uint ?len + 1 = int (length ?D)" unfolding uint_nat by linarith
  have nk: "uint n = k" by (simp add: n_def k_def)
  obtain v' index' b' where run: "s64_digits n ?len \<bar>v\<bar> 0 b = (v', index', b')" by (rule prod_cases3)
  have "b'(uint n + uint ?len - uint index' := word_of_int (v' smod 10) + 48) = overlay b (uint n) ?D"
    using len l20 by (intro s64_digits_overlay [OF _ _ _ run]) simp_all
  moreover have "uint n + uint ?len + 1 = k + int (length ?D)" using len nk by simp
  moreover have "s64_to_str v d = d\<lparr>toI64StrBuff := b'(uint n + uint ?len - uint index' := word_of_int (v' smod 10) + 48,
      uint n + uint ?len + 1 := 0)\<rparr>"
    using run w by (cases "v < 0") (simp_all add: s64_to_str_def Let_def n_def b_def)
  ultimately show ?thesis by (simp only: nk b_def) simp
qed

lemma s64_to_str_text:
  assumes "- (2 ^ 63) < v" "v < 2 ^ 63"
  shows "text_is (buf_text (toI64StrBuff (s64_to_str v d))) (show_int v)"
proof -
  let ?D = "show_nat (nat \<bar>v\<bar>)"
  have "length ?D \<le> 20" using length_show_nat [of "nat \<bar>v\<bar>" 19] assms by simp
  moreover note show_nat_nonzero [of "nat \<bar>v\<bar>"]
  ultimately show ?thesis
    by (intro overlay_text)
      (auto simp: s64_to_str_buffer [OF assms] show_int_def overlay_def nth_Cons' nat_diff_distrib)
qed

lemma hex_loop_overlay:
  "k \<le> n \<Longrightarrow> hex_loop n v k b = overlay b 0 (map (\<lambda>j. hexDigits ! unat (drop_bit ((n - 1 - j) * 4) v AND 0xF)) [0..<k])"
proof (induction k arbitrary: b)
  case (Suc k)
  have "n - Suc k = n - 1 - k" by simp
  then show ?case using Suc by (simp add: overlay_snoc)
qed simp

lemma hex_digit: "unat (drop_bit (4 * k) (v :: u64) AND 0xF) = unat v div 16 ^ k mod 16"
proof -
  have "drop_bit (4 * k) v AND 0xF = take_bit 4 (drop_bit (4 * k) v)" by (simp add: take_bit_eq_mask mask_eq_exp_minus_1)
  then have "unat (drop_bit (4 * k) v AND 0xF) = take_bit 4 (drop_bit (4 * k) (unat v))"
    by (simp add: unsigned_take_bit_eq unsigned_drop_bit_eq take_bit_nat_eq_self)
  then show ?thesis by (simp add: take_bit_eq_mod drop_bit_eq_div power_mult)
qed

lemma hex_loop_show: "hex_loop n v n b = overlay b 0 (show_hex n (unat v))"
  by (simp add: hex_loop_overlay show_hex_def hex_digit mult.commute [of _ 4])

lemma show_hex_nonzero: "\<forall>c \<in> set (show_hex n x). c \<noteq> 0"
proof -
  have "\<forall>c \<in> set hexDigits. c \<noteq> 0" "length hexDigits = 16" by (simp_all add: hexDigits_def)
  then have "hexDigits ! (k mod 16) \<noteq> 0" for k by (metis nth_mem mod_less_divisor zero_less_numeral)
  then show ?thesis by (auto simp: show_hex_def)
qed

lemma length_show_hex [simp]: "length (show_hex n x) = n"
  by (simp add: show_hex_def)

lemma hstr_text:
  "text_is (buf_text (toH64StrBuff (u64_to_hstr v d))) (show_hex 16 (unat v))"
  "text_is (buf_text (toH32StrBuff (u32_to_hstr w d))) (show_hex 8 (unat w))"
  "toH8StrBuff d 2 = 0 \<Longrightarrow> text_is (buf_text (toH8StrBuff (u8_to_hstr c d))) (show_hex 2 (unat c))"
  using show_hex_nonzero
  by (auto intro!: overlay_text simp: u64_to_hstr_def u32_to_hstr_def u8_to_hstr_def hex_loop_show overlay_def unat_ucast_up)

section \<open>What a format string means\<close>

text \<open>
  The text of one conversion, and \<open>renders fmt args out\<close>: the characters a format string stands for, one character or
  conversion at a time.  The smallest \<^verbatim>\<open>s64\<close> value has no meaning under \<^verbatim>\<open>%ld\<close>; the code does not print it properly.
\<close>

inductive conv_text :: "conv \<Rightarrow> dbg_arg \<Rightarrow> u8 list \<Rightarrow> bool" where
  text_C: "conv_text ConvC (VInt c) [ucast c]"
| text_S: "text_is t bs \<Longrightarrow> conv_text ConvS (VStr t) bs"
| text_D: "conv_text ConvD (VInt a) (show_int (sint (ucast a :: u32)))"
| text_LD: "- (2 ^ 63) < sint a \<Longrightarrow> conv_text ConvLD (VInt a) (show_int (sint a))"
| text_U: "conv_text ConvU (VInt a) (show_nat (unat (ucast a :: u32)))"
| text_LU: "conv_text ConvLU (VInt a) (show_nat (unat a))"
| text_B: "conv_text ConvB (VInt a) (show_hex 2 (unat (ucast a :: u8)))"
| text_X: "conv_text ConvX (VInt a) (show_hex 8 (unat (ucast a :: u32)))"
| text_LX: "conv_text ConvLX (VInt a) (show_hex 16 (unat a))"

inductive_cases conv_text_C_E: "conv_text ConvC a t"

definition char_at :: "u8 list \<Rightarrow> nat \<Rightarrow> u8" where
  "char_at cs i = (if i < length cs then cs ! i else 0)"

inductive renders :: "u8 list \<Rightarrow> dbg_arg list \<Rightarrow> u8 list \<Rightarrow> bool" where
  r_end: "renders [] args []"
| r_char: "c \<noteq> 0x25 \<Longrightarrow> renders cs args out \<Longrightarrow> renders (c # cs) args (c # out)"
| r_percent: "renders cs args out \<Longrightarrow> renders (0x25 # 0x25 # cs) args (0x25 # out)"
| r_conv: "conversion (char_at cs 0) (char_at cs 1) = Some (k, n) \<Longrightarrow> conv_text k a t \<Longrightarrow>
    renders (drop (unat n) cs) args out \<Longrightarrow> renders (0x25 # cs) (a # args) (t @ out)"
| r_other: "char_at cs 0 \<noteq> 0x25 \<Longrightarrow> conversion (char_at cs 0) (char_at cs 1) = None \<Longrightarrow> renders (0x25 # cs) args (0x25 # cs)"

inductive_cases renders_Nil_E: "renders [] args out"
inductive_cases renders_Cons_E: "renders (c # cs) args out"

definition sink_calls :: "addr list \<Rightarrow> u8 list \<Rightarrow> (addr \<times> u8) list" where
  "sink_calls ss cs = concat (map (\<lambda>c. map (\<lambda>s. (s, c)) (filter (\<lambda>s. s \<noteq> 0) ss)) cs)"

text \<open>The state invariant: four sinks, and the third byte of the byte buffer is never written.\<close>

definition dbgio_inv :: "dbgio \<Rightarrow> bool" where
  "dbgio_inv d \<longleftrightarrow> length (sinks d) = DBG_MAX_CHARSINKS \<and> toH8StrBuff d 2 = 0"

definition emitted :: "dbgio \<Rightarrow> dbgio \<Rightarrow> u8 list \<Rightarrow> bool" where
  "emitted d d' out \<longleftrightarrow> sinks d' = sinks d \<and> calls d' = calls d @ sink_calls (sinks d) out \<and> dbgio_inv d'"

lemma emitted_trans: "emitted d d1 t \<Longrightarrow> emitted d1 d2 u \<Longrightarrow> emitted d d2 (t @ u)"
  by (simp add: emitted_def sink_calls_def)

lemma print_str_emits:
  "dbgio_inv d \<Longrightarrow> emitted d (dbg_internal_print_str s i n d) (map (\<lambda>k. s (i + of_nat k)) [0..<n])"
proof (induction n arbitrary: i d)
  case (Suc n)
  have inv: "dbgio_inv (dbg_sinkchr (s i) d)" using Suc.prems by (simp add: dbgio_inv_def dbg_sinkchr_def)
  have "emitted d (dbg_sinkchr (s i) d) [s i]" using inv by (simp add: emitted_def dbg_sinkchr_def sink_calls_def)
  from emitted_trans [OF this Suc.IH [OF inv, of "i + 1"]] show ?case
    by (simp add: map_upt_Suc algebra_simps del: upt_Suc)
qed (simp add: emitted_def sink_calls_def)

lemma print_text_emits:
  assumes "text_is t bs" "n \<le> length bs" "dbgio_inv d"
  shows "emitted d (dbg_internal_print_str t 0 n d) (take n bs)"
proof -
  have "map (\<lambda>k. t (0 + of_nat k)) [0..<n] = take n bs"
    using assms(1,2) by (intro nth_equalityI) (auto simp: text_is_def)
  then show ?thesis using print_str_emits [OF assms(3), of t 0 n] by simp
qed

lemma conv_str_text:
  assumes "conv_text k a t" "k \<noteq> ConvC" "dbgio_inv d"
  shows "\<exists>str d1. conv_str k a d = Some (str, d1) \<and> text_is str t \<and> emitted d d1 []"
proof -
  note defs = emitted_def sink_calls_def dbgio_inv_def Let_def
  have h8: "toH8StrBuff d 2 = 0" using assms(3) by (simp add: dbgio_inv_def)
  have s32: "- (2 ^ 63) < sint (x :: u32)" "sint x < 2 ^ 63" for x
    using sint_greater_eq [of x] sint_less [of x] by simp_all
  have s64: "sint (x :: u64) < 2 ^ 63" for x using sint_less [of x] by simp
  have u32: "unat (ucast (x :: u32) :: u64) = unat x" for x by (rule unat_ucast_up) simp
  show ?thesis
    using assms
  proof cases
    case (text_U a)
    then show ?thesis using assms(3) u64_to_str_text [of "ucast (ucast a :: u32)" d]
      by (simp add: defs u64_to_str_def split_beta u32)
  qed (use h8 s32 s64 u64_to_str_text hstr_text s64_to_str_text in
    \<open>auto simp: defs u64_to_str_def s64_to_str_def u64_to_hstr_def u32_to_hstr_def u8_to_hstr_def hex_loop_show overlay_def split_beta\<close>)
qed

section \<open>The formatter prints what the format means\<close>

lemma renders_run:
  "renders (xs @ ys) args out \<Longrightarrow> \<forall>x \<in> set xs. x \<noteq> 0x25 \<Longrightarrow> \<exists>out'. out = xs @ out' \<and> renders ys args out'"
  by (induction xs arbitrary: out) (auto elim!: renders_Cons_E)

lemma text_drop:
  assumes "text_is (\<lambda>i. f (p + i)) bs" "k \<le> length bs"
  shows "text_is (\<lambda>i. f (p + of_nat k + i)) (drop k bs)"
  unfolding text_is_def
proof (intro conjI allI impI)
  have f: "f (p + of_nat (k + i)) = bs ! (k + i)" "bs ! (k + i) \<noteq> 0" if "k + i < length bs" for i
    using assms(1) that unfolding text_is_def by blast+
  show "length (drop k bs) < 2 ^ 64" using assms(1) unfolding text_is_def by (simp only: length_drop) linarith
  show "f (p + of_nat k + of_nat i) = drop k bs ! i" "drop k bs ! i \<noteq> 0" if "i < length (drop k bs)" for i
    using that f [of i] by (simp_all add: add.assoc)
  have "f (p + of_nat (k + (length bs - k))) = 0" using assms by (simp add: text_is_def)
  then show "f (p + of_nat k + of_nat (length (drop k bs))) = 0" by (simp add: add.assoc)
qed

lemma text_char_at: "text_is t bs \<Longrightarrow> i \<le> length bs \<Longrightarrow> t (of_nat i) = char_at bs i"
  by (auto simp: text_is_def char_at_def not_less)

lemma text_scan:
  assumes "text_is t (c # cs)"
  shows "scan_while (\<lambda>i. t i \<noteq> 0 \<and> t i \<noteq> 0x25) 1 = Some (of_nat (Suc (length (takeWhile (\<lambda>x. x \<noteq> 0x25) cs))))"
proof -
  let ?n = "length (takeWhile (\<lambda>x. x \<noteq> 0x25) cs)"
  have t: "t (1 + of_nat j) = char_at cs j" if "j \<le> length cs" for j
    using text_char_at [OF assms, of "Suc j"] that by (simp add: char_at_def)
  have n: "?n \<le> length cs" by (rule length_takeWhile_le)
  have nz: "cs ! j \<noteq> 0" if "j < length cs" for j using assms that unfolding text_is_def by fastforce
  have "scan_while (\<lambda>i. t i \<noteq> 0 \<and> t i \<noteq> 0x25) 1 = Some (1 + of_nat ?n)"
  proof (rule scan_while_stop)
    show "t (1 + of_nat j) \<noteq> 0 \<and> t (1 + of_nat j) \<noteq> 0x25" if "j < ?n" for j
      using that n nz t [of j] nth_mem [OF that] by (auto simp: char_at_def takeWhile_nth dest: set_takeWhileD)
    show "\<not> (t (1 + of_nat ?n) \<noteq> 0 \<and> t (1 + of_nat ?n) \<noteq> 0x25)"
      using t [OF n] nth_length_takeWhile [of "\<lambda>x. x \<noteq> 0x25" cs] by (auto simp: char_at_def)
  qed
  then show ?thesis by simp
qed

lemma room:
  assumes "unat written + n < 2 ^ 64"
  shows "\<not> (- 1 - written < (of_nat n :: u64))" "unat (written + of_nat n) = unat written + n" "unat (of_nat n :: u64) = n"
proof -
  show u: "unat (of_nat n :: u64) = n" using assms by (intro unat_of_nat_u64) linarith
  show "unat (written + of_nat n) = unat written + n" by (rule unat_add_of_nat_u64 [OF assms])
  have "unat (- 1 :: u64) = 0xFFFFFFFFFFFFFFFF" by (simp add: unsigned_minus_1_eq_mask mask_eq_exp_minus_1)
  moreover have "unat written \<le> 0xFFFFFFFFFFFFFFFF" using unat_less_2p64 [of written] by linarith
  ultimately have "unat (- 1 - written) = 0xFFFFFFFFFFFFFFFF - unat written" by (simp only: unat_sub_u64 if_True)
  then show "\<not> (- 1 - written < (of_nat n :: u64))" using assms u by (simp add: word_less_nat_alt)
qed

text \<open>One turn of the loop for each sort of item.\<close>

lemma print_end: "f p = 0 \<Longrightarrow> dbg_internal_print f p args written d = Some (written, d)"
  by (subst dbg_internal_print.simps) simp

lemma print_run:
  assumes tx: "text_is (\<lambda>i. f (q + i)) (c # cs)" and inv: "dbgio_inv d"
    and q: "q = p \<and> c \<noteq> 0x25 \<or> q = p + 1 \<and> f p = 0x25 \<and> c = 0x25"
    and n: "n = Suc (length (takeWhile (\<lambda>x. x \<noteq> 0x25) cs))" and fit: "unat written + n < 2 ^ 64"
  shows "\<exists>d1. dbg_internal_print f p args written d =
      dbg_internal_print f (q + of_nat n) args (written + of_nat n) d1 \<and> emitted d d1 (take n (c # cs))"
proof -
  have c: "f q = c" "c \<noteq> 0" using tx unfolding text_is_def by fastforce+
  have le: "n \<le> length (c # cs)" by (simp add: n length_takeWhile_le)
  have "dbg_internal_print f p args written d = dbg_internal_print f (q + of_nat n) args (written + of_nat n)
      (dbg_internal_print_str (\<lambda>i. f (q + i)) 0 n d)"
    using q c text_scan [OF tx] room [OF fit]
    by (subst dbg_internal_print.simps) (auto simp: Let_def n simp del: of_nat_Suc)
  then show ?thesis using print_text_emits [OF tx le inv] by blast
qed

lemma print_conv:
  assumes tx: "text_is (\<lambda>i. f (p + i)) (0x25 # cs)" and inv: "dbgio_inv d"
    and conv: "conversion (char_at cs 0) (char_at cs 1) = Some (k, n)" and t: "conv_text k a t"
    and fit: "unat written + length t < 2 ^ 64"
  shows "\<exists>d1. dbg_internal_print f p (a # args) written d =
      dbg_internal_print f (p + 1 + n) args (written + of_nat (length t)) d1 \<and> emitted d d1 t"
proof -
  have c0: "char_at cs 0 \<noteq> 0x25" "char_at cs 0 \<noteq> 0" using conv by (auto simp: conversion_def)
  then have ne: "cs \<noteq> []" by (auto simp: char_at_def)
  have f: "f p = 0x25" "f (p + 1) = char_at cs 0" "f (p + 2) = char_at cs 1"
    using text_char_at [OF tx, of 0] text_char_at [OF tx, of 1] text_char_at [OF tx, of 2] ne
    by (auto simp: char_at_def Suc_le_eq neq_Nil_conv)
  note step = dbg_internal_print.simps [of f p "a # args"]
  show ?thesis
  proof (cases "k = ConvC")
    case True
    then obtain c where "a = VInt c" "t = [ucast c]" using t by (auto elim: conv_text_C_E)
    then show ?thesis
      using print_str_emits [OF inv, of "\<lambda>_. ucast c" 0 1] f conv c0 True room [OF fit]
      by (subst step) (auto simp: Let_def)
  next
    case False
    obtain str d1 where d1: "conv_str k a d = Some (str, d1)" "text_is str t" "emitted d d1 []"
      using conv_str_text [OF t False inv] by blast
    then have "emitted d1 (dbg_internal_print_str str 0 (length t) d1) t"
      using print_text_emits [OF d1(2) le_refl, of d1] by (simp add: emitted_def)
    from emitted_trans [OF d1(3) this] have e: "emitted d (dbg_internal_print_str str 0 (length t) d1) t" by simp
    then show ?thesis
      using f conv c0 False d1(1) dbg_strlen_text [OF d1(2)] room [OF fit]
      by (subst step) (auto simp: Let_def)
  qed
qed

lemma print_other:
  assumes tx: "text_is (\<lambda>i. f (p + i)) (0x25 # cs)" and inv: "dbgio_inv d"
    and other: "char_at cs 0 \<noteq> 0x25" "conversion (char_at cs 0) (char_at cs 1) = None"
    and fit: "unat written + Suc (length cs) < 2 ^ 64"
  shows "\<exists>d1. dbg_internal_print f p args written d = Some (written + of_nat (Suc (length cs)), d1) \<and>
      emitted d d1 (0x25 # cs)"
proof -
  have f: "f p = 0x25" "f (p + 1) = char_at cs 0"
    using text_char_at [OF tx, of 0] text_char_at [OF tx, of 1] by (auto simp: char_at_def)
  have conv: "conversion (f (p + 1)) (f (p + 2)) = None"
  proof (cases cs)
    case Nil
    then show ?thesis using f by (simp add: char_at_def conversion_def)
  next
    case (Cons x xs)
    then have "f (p + 2) = char_at cs 1" using text_char_at [OF tx, of 2] by (auto simp: char_at_def)
    then show ?thesis using f other by simp
  qed
  have "f (p + of_nat (Suc (length cs))) = 0" using tx by (simp add: text_is_def)
  then have "dbg_internal_print f p args written d =
      Some (written + of_nat (Suc (length cs)), dbg_internal_print_str (\<lambda>i. f (p + i)) 0 (Suc (length cs)) d)"
    using f conv other dbg_strlen_text [OF tx] room [OF fit]
    by (subst dbg_internal_print.simps) (auto simp: Let_def print_end simp del: of_nat_Suc)
  then show ?thesis using print_text_emits [OF tx le_refl inv] by auto
qed

text \<open>From offset \<open>p\<close> on, the formatter returns and prints \<open>out\<close>.\<close>

definition prints :: "ctext \<Rightarrow> u64 \<Rightarrow> dbg_arg list \<Rightarrow> u8 list \<Rightarrow> bool" where
  "prints f p args out \<longleftrightarrow> (\<forall>written d. dbgio_inv d \<longrightarrow> unat written + length out < 2 ^ 64 \<longrightarrow>
     (\<exists>d'. dbg_internal_print f p args written d = Some (written + of_nat (length out), d') \<and> emitted d d' out))"

lemma prints_step:
  assumes rest: "prints f p' args' out2"
    and step: "\<And>written d. dbgio_inv d \<Longrightarrow> unat written + length out1 < 2 ^ 64 \<Longrightarrow>
      \<exists>d1. dbg_internal_print f p args written d = dbg_internal_print f p' args' (written + of_nat (length out1)) d1 \<and> emitted d d1 out1"
  shows "prints f p args (out1 @ out2)"
  unfolding prints_def
proof (intro allI impI)
  fix written :: u64 and d assume inv: "dbgio_inv d" and fit: "unat written + length (out1 @ out2) < 2 ^ 64"
  then have fit1: "unat written + length out1 < 2 ^ 64" by simp
  note r = room(2) [OF fit1]
  obtain d1 where d1: "dbg_internal_print f p args written d = dbg_internal_print f p' args' (written + of_nat (length out1)) d1"
      "emitted d d1 out1"
    using step [OF inv fit1] by blast
  have "dbgio_inv d1" using d1(2) by (simp add: emitted_def)
  moreover have "unat (written + of_nat (length out1)) + length out2 < 2 ^ 64" using fit unfolding r by simp
  ultimately obtain d2 where "dbg_internal_print f p' args' (written + of_nat (length out1)) d1 =
      Some (written + of_nat (length out1) + of_nat (length out2), d2)" "emitted d1 d2 out2"
    using rest unfolding prints_def by blast
  then show "\<exists>d'. dbg_internal_print f p args written d = Some (written + of_nat (length (out1 @ out2)), d') \<and>
      emitted d d' (out1 @ out2)"
    using d1 emitted_trans [OF d1(2), of d2 out2] by (auto simp: algebra_simps)
qed

lemma prints_run:
  assumes IH: "\<And>p bs out. length bs \<le> length cs \<Longrightarrow> text_is (\<lambda>i. f (p + i)) bs \<Longrightarrow> renders bs args out \<Longrightarrow> prints f p args out"
    and chunk: "text_is (\<lambda>i. f (q + i)) (c # cs)" "q = p \<and> c \<noteq> 0x25 \<or> q = p + 1 \<and> f p = 0x25 \<and> c = 0x25"
    and ren: "renders cs args out"
  shows "prints f p args (c # out)"
proof -
  let ?xs = "takeWhile (\<lambda>x. x \<noteq> 0x25) cs" and ?ys = "dropWhile (\<lambda>x. x \<noteq> 0x25) cs"
  obtain out2 where o: "out = ?xs @ out2" "renders ?ys args out2"
    using renders_run [of ?xs ?ys args out] ren by (auto dest: set_takeWhileD)
  define n where "n = Suc (length ?xs)"
  have xs: "take n (c # cs) = c # ?xs" "drop n (c # cs) = ?ys"
    by (simp_all add: n_def takeWhile_eq_take [symmetric] dropWhile_eq_drop [symmetric])
  have "text_is (\<lambda>i. f (q + of_nat n + i)) ?ys"
    using text_drop [OF chunk(1), of n] xs by (simp add: n_def length_takeWhile_le)
  then have "prints f (q + of_nat n) args out2" by (rule IH [OF length_dropWhile_le _ o(2)])
  then have "prints f p args ((c # ?xs) @ out2)"
  proof (rule prints_step)
    show "\<exists>d1. dbg_internal_print f p args written d =
        dbg_internal_print f (q + of_nat n) args (written + of_nat (length (c # ?xs))) d1 \<and> emitted d d1 (c # ?xs)"
      if "dbgio_inv d" "unat written + length (c # ?xs) < 2 ^ 64" for written d
      using print_run [OF chunk(1) that(1) chunk(2) n_def, of written args] that(2) xs(1) by (simp add: n_def)
  qed
  then show ?thesis using o(1) by simp
qed

lemma prints_renders:
  "text_is (\<lambda>i. f (p + i)) bs \<Longrightarrow> renders bs args out \<Longrightarrow> prints f p args out"
proof (induction "length bs" arbitrary: p bs args out rule: less_induct)
  case less
  note tx = less.prems(1)
  from less.prems(2) show ?case
  proof cases
    case r_end
    then show ?thesis using tx by (auto simp: prints_def text_is_def print_end emitted_def sink_calls_def)
  next
    case (r_char c cs out1)
    show ?thesis unfolding r_char(2)
      by (rule prints_run [of cs f args p]) (use less r_char in \<open>auto simp: less_Suc_eq_le\<close>)
  next
    case (r_percent cs out1)
    have "text_is (\<lambda>i. f (p + 1 + i)) (0x25 # cs)" using text_drop [OF tx, of 1] r_percent by simp
    moreover have "f p = 0x25" using text_char_at [OF tx, of 0] r_percent by (simp add: char_at_def)
    moreover have "prints f p' args out'" if "length bs' \<le> length cs" "text_is (\<lambda>i. f (p' + i)) bs'" "renders bs' args out'" for p' bs' out'
      using less.hyps [of bs' p' args out'] that r_percent(1) by simp
    ultimately show ?thesis unfolding r_percent(2) using r_percent(3)
      by (intro prints_run [of cs f args "p + 1"]) auto
  next
    case (r_conv cs k n a t args1 out1)
    have "unat n \<le> length cs" "0 < unat n"
      using r_conv(4) by (auto simp: conversion_def char_at_def Suc_le_eq split: if_splits)
    then have "text_is (\<lambda>i. f (p + 1 + n + i)) (drop (unat n) cs)" "length (drop (unat n) cs) < length bs"
      using text_drop [OF tx, of "Suc (unat n)"] r_conv(1) by (simp_all add: algebra_simps)
    then have "prints f (p + 1 + n) args1 out1" by (rule less.hyps [OF _ _ r_conv(6), rotated])
    then show ?thesis unfolding r_conv(2,3)
      by (rule prints_step) (use print_conv [OF tx [unfolded r_conv(1)] _ r_conv(4,5)] in blast)
  next
    case (r_other cs)
    then show ?thesis using print_other [OF tx [unfolded r_other(1)]] by (auto simp: prints_def)
  qed
qed

lemma dbg_msg_emits:
  assumes "text_is fmt bs" "renders bs args out" "length out < 2 ^ 64" "dbgio_inv d"
  shows "\<exists>d'. dbg_msg fmt args d = Some (of_nat (length out), d') \<and> emitted d d' out"
proof -
  have "prints fmt 0 args out" using assms by (intro prints_renders) simp
  moreover have "unat (0 :: u64) + length out < 2 ^ 64" using assms(3) by simp
  ultimately have "\<exists>d'. dbg_internal_print fmt 0 args 0 d = Some (0 + of_nat (length out), d') \<and> emitted d d' out"
    using assms(4) unfolding prints_def by blast
  then show ?thesis by (auto simp: dbg_msg_def)
qed


lemma four_zeros: "replicate 4 (0 :: addr) = [0, 0, 0, 0]"
  by (simp add: numeral_eq_Suc)

text \<open>The message \<^verbatim>\<open>"%u%%"\<close> with argument 42, on a state with one sink.\<close>

definition one_sink :: dbgio where
  "one_sink = snd (dbg_register_sink 0x1000 dbgio_init)"

definition demo_fmt :: ctext where
  "demo_fmt = (\<lambda>_. 0)(0 := 0x25, 1 := 0x75, 2 := 0x25, 3 := 0x25)"


section \<open>The sink table\<close>

lemma replace_first_Some:
  "replace_first old new ss = Some ss' \<Longrightarrow> \<exists>xs ys. ss = xs @ old # ys \<and> old \<notin> set xs \<and> ss' = xs @ new # ys"
proof (induction ss arbitrary: ss')
  case (Cons s ss)
  show ?case
  proof (cases "s = old")
    case True
    then have "s # ss = [] @ old # ss \<and> old \<notin> set [] \<and> ss' = [] @ new # ss" using Cons.prems by simp
    then show ?thesis by blast
  next
    case False
    then obtain zs where zs: "replace_first old new ss = Some zs" "ss' = s # zs" using Cons.prems by auto
    then obtain xs ys where "ss = xs @ old # ys" "old \<notin> set xs" "zs = xs @ new # ys" using Cons.IH by blast
    then have "s # ss = (s # xs) @ old # ys \<and> old \<notin> set (s # xs) \<and> ss' = (s # xs) @ new # ys" using False zs by simp
    then show ?thesis by blast
  qed
qed simp

lemma replace_first_None: "replace_first old new ss = None \<longleftrightarrow> old \<notin> set ss"
  by (induction ss) auto

definition registered :: "dbgio \<Rightarrow> addr multiset" where
  "registered d = filter_mset (\<lambda>s. s \<noteq> 0) (mset (sinks d))"

text \<open>
  C20: the sink table behaves as a multiset of at most four sinks.  Registering a sink adds it and returns 0 when fewer than
  four are registered, and otherwise returns \<^verbatim>\<open>-EBUSY\<close> and changes nothing; unregistering takes one occurrence
  away, and does nothing for a sink that is not registered.  Both keep the state invariant.
\<close>

theorem sink_table_correct:
  assumes "dbgio_inv d" "sink \<noteq> 0"
  shows "dbgio_inv (snd (dbg_register_sink sink d)) \<and> dbgio_inv (dbg_unregister_sink sink d) \<and>
    (if size (registered d) < 4
     then fst (dbg_register_sink sink d) = 0 \<and> registered (snd (dbg_register_sink sink d)) = add_mset sink (registered d)
     else dbg_register_sink sink d = (- EBUSY, d)) \<and>
    registered (dbg_unregister_sink sink d) = registered d - {#sink#}"
proof -
  have len: "length (sinks d) = 4" using assms(1) by (simp add: dbgio_inv_def DBG_MAX_CHARSINKS_def)
  have reg: "registered e = mset (filter (\<lambda>s. s \<noteq> 0) (sinks e))" for e by (simp add: registered_def mset_filter)
  have room: "size (registered d) < 4 \<longleftrightarrow> 0 \<in> set (sinks d)"
  proof
    show "size (registered d) < 4 \<Longrightarrow> 0 \<in> set (sinks d)"
      using len by (metis (mono_tags, lifting) reg filter_True less_irrefl size_mset)
    show "0 \<in> set (sinks d) \<Longrightarrow> size (registered d) < 4"
      using length_filter_less [of 0 "sinks d" "\<lambda>s. s \<noteq> 0"] len by (simp only: reg size_mset)
  qed
  have add: "dbgio_inv (snd (dbg_register_sink sink d)) \<and> (if 0 \<in> set (sinks d)
      then fst (dbg_register_sink sink d) = 0 \<and> registered (snd (dbg_register_sink sink d)) = add_mset sink (registered d)
      else dbg_register_sink sink d = (- EBUSY, d))"
  proof (cases "replace_first 0 sink (sinks d)")
    case (Some ss)
    with replace_first_Some [OF Some] assms show ?thesis
      by (auto simp: dbg_register_sink_def dbgio_inv_def reg)
  next
    case None
    then have "0 \<notin> set (sinks d)" by (simp add: replace_first_None)
    then show ?thesis using assms None by (simp add: dbg_register_sink_def)
  qed
  have del: "dbgio_inv (dbg_unregister_sink sink d) \<and> registered (dbg_unregister_sink sink d) = registered d - {#sink#}"
  proof (cases "replace_first sink 0 (sinks d)")
    case (Some ss)
    with replace_first_Some [OF Some] assms show ?thesis
      by (auto simp: dbg_unregister_sink_def dbgio_inv_def reg)
  next
    case None
    then have "sink \<notin># registered d" by (simp add: replace_first_None registered_def)
    with None assms show ?thesis by (simp add: dbg_unregister_sink_def diff_single_trivial)
  qed
  show ?thesis using add del room by simp
qed

theorem sink_table_correct_witness:
  "fst (dbg_register_sink 0x2000 one_sink) = 0 \<and>
   registered (snd (dbg_register_sink 0x2000 one_sink)) = add_mset 0x2000 (registered one_sink)"
proof -
  have d: "sinks one_sink = [0x1000, 0, 0, 0]" "dbgio_inv one_sink"
    by (simp_all add: one_sink_def dbg_register_sink_def dbgio_init_def dbgio_inv_def DBG_MAX_CHARSINKS_def four_zeros)
  then show ?thesis using sink_table_correct [OF d(2), of "0x2000"] by (simp add: registered_def split: if_splits)
qed

section \<open>Where the conversions leave their buffers\<close>

text \<open>
  For values below ten \<open>u64_to_str\<close> stores a digit at index -1, before its buffer.
\<close>

theorem u64_to_str_underflow:
  "unat v < 10 \<Longrightarrow> toU64StrBuff (u64_to_str v d) (-1) = 0x30"
  by (simp add: u64_to_str_small)

end
