(* ===== verification/Dbg_Serial.thy ===== *)
theory Dbg_Serial
  imports Prelude "HOL-Library.Monad_Syntax"
begin

text \<open>
  The debugger's serial line, \<^verbatim>\<open>arch/x86_64/debug/dbg_serial.c\<close>.  The processor's \<^verbatim>\<open>outb\<close> and \<^verbatim>\<open>inb\<close> on the hardware state are
  parameters; a wait loop that never sees its condition is \<open>None\<close>.
\<close>

record 'h io_ports =
  outb :: "u16 \<Rightarrow> u8 \<Rightarrow> 'h \<Rightarrow> 'h"
  inb :: "u16 \<Rightarrow> 'h \<Rightarrow> u8 \<times> 'h"

record 'h serial =
  dbg_serial_initialized :: bool
  hw :: 'h

definition ENODEV :: int where "ENODEV = 19"
definition COM1_PORT :: u16 where "COM1_PORT = 0x3F8"
definition COM1_REG :: "u16 \<Rightarrow> u16" where "COM1_REG reg = COM1_PORT + reg"

definition COM_R_RX_BUFF :: u16 where "COM_R_RX_BUFF = 0"
definition COM_W_TX_BUFF :: u16 where "COM_W_TX_BUFF = 0"
definition COM_RW_INTERUPT_ENABLE_REG :: u16 where "COM_RW_INTERUPT_ENABLE_REG = 1"
definition COM_RW_LEAST_SIGNIFICANT_BYTE_BAUD :: u16 where "COM_RW_LEAST_SIGNIFICANT_BYTE_BAUD = 0"
definition COM_RW_MOST_SIGNIFICANT_BYTE_BAUD :: u16 where "COM_RW_MOST_SIGNIFICANT_BYTE_BAUD = 1"
definition COM_W_FIFO_CONTROL_REG :: u16 where "COM_W_FIFO_CONTROL_REG = 2"
definition COM_RW_LINE_CONTROL_REG :: u16 where "COM_RW_LINE_CONTROL_REG = 3"
definition COM_RW_MODEM_CONTROL_REG :: u16 where "COM_RW_MODEM_CONTROL_REG = 4"
definition COM_R_LINE_STATUS_REG :: u16 where "COM_R_LINE_STATUS_REG = 5"

definition serial_out :: "'h io_ports \<Rightarrow> u16 \<Rightarrow> u8 \<Rightarrow> 'h serial \<Rightarrow> 'h serial" where
  "serial_out io reg v s = s\<lparr>hw := outb io (COM1_REG reg) v (hw s)\<rparr>"

definition serial_in :: "'h io_ports \<Rightarrow> u16 \<Rightarrow> 'h serial \<Rightarrow> u8 \<times> 'h serial" where
  "serial_in io reg s = (let (v, h) = inb io (COM1_REG reg) (hw s) in (v, s\<lparr>hw := h\<rparr>))"

definition dbg_serial_init :: "'h io_ports \<Rightarrow> 'h serial \<Rightarrow> int \<times> 'h serial" where
  "dbg_serial_init io s =
     (if dbg_serial_initialized s then (0, s)
      else let
          s = serial_out io COM_RW_INTERUPT_ENABLE_REG 0x00 s;
          s = serial_out io COM_RW_LINE_CONTROL_REG 0x80 s;
          s = serial_out io COM_RW_LEAST_SIGNIFICANT_BYTE_BAUD 0x03 s;
          s = serial_out io COM_RW_MOST_SIGNIFICANT_BYTE_BAUD 0x00 s;
          s = serial_out io COM_RW_LINE_CONTROL_REG 0x03 s;
          s = serial_out io COM_W_FIFO_CONTROL_REG 0xC7 s;
          s = serial_out io COM_RW_MODEM_CONTROL_REG 0x1E s;
          s = serial_out io COM_W_TX_BUFF 0xAE s;
          (v, s) = serial_in io COM_R_RX_BUFF s
        in if v \<noteq> 0xAE then (- ENODEV, s)
           else (0, (serial_out io COM_RW_MODEM_CONTROL_REG 0x0F s)\<lparr>dbg_serial_initialized := True\<rparr>))"

definition dbg_serial_is_tx_empty :: "'h io_ports \<Rightarrow> 'h serial \<Rightarrow> bool \<times> 'h serial" where
  "dbg_serial_is_tx_empty io s = (let (v, s) = serial_in io COM_R_LINE_STATUS_REG s in (v AND 0x20 \<noteq> 0, s))"

definition dbg_serial_is_rx_avail :: "'h io_ports \<Rightarrow> 'h serial \<Rightarrow> bool \<times> 'h serial" where
  "dbg_serial_is_rx_avail io s = (let (v, s) = serial_in io COM_R_LINE_STATUS_REG s in (v AND 0x1 \<noteq> 0, s))"

text \<open>\<^verbatim>\<open>while (!cond());\<close>\<close>

partial_function (option) wait_until :: "('s \<Rightarrow> bool \<times> 's) \<Rightarrow> 's \<Rightarrow> 's option" where
  [code]: "wait_until cond s = (if fst (cond s) then Some (snd (cond s)) else wait_until cond (snd (cond s)))"

text \<open>The recursion sends a carriage return before a line feed.\<close>

partial_function (option) dbg_serial_putc :: "'h io_ports \<Rightarrow> u8 \<Rightarrow> 'h serial \<Rightarrow> 'h serial option" where
  [code]: "dbg_serial_putc io c s =
     (let r = (if \<not> dbg_serial_initialized s then dbg_serial_init io s else (0, s)) in
      if fst r < 0 then Some (snd r)
      else do {
        s \<leftarrow> (if c = 0x0A then dbg_serial_putc io 0x0D (snd r) else Some (snd r));
        s \<leftarrow> wait_until (dbg_serial_is_tx_empty io) s;
        Some (serial_out io COM_W_TX_BUFF c s)
      })"

definition dbg_serial_getc :: "'h io_ports \<Rightarrow> 'h serial \<Rightarrow> (u8 \<times> 'h serial) option" where
  "dbg_serial_getc io s =
     (let r = (if \<not> dbg_serial_initialized s then dbg_serial_init io s else (0, s)) in
      if fst r < 0 then Some (0, snd r)
      else do {
        s \<leftarrow> wait_until (dbg_serial_is_rx_avail io) (snd r);
        Some (serial_in io COM_R_RX_BUFF s)
      })"

section \<open>A 16550 on the port\<close>

text \<open>
  What the data sheet says of the device, as far as the driver uses it: bit 7 of the line control register
  makes the first two registers the baud divisor; bit 4 of the modem control register connects the
  transmitter to the receiver; else a byte written to the first register goes on the line.  Reading a
  register changes none of this, and the transmitter becomes empty after finitely many readings of the
  status register, \<open>busy\<close> at most.
\<close>

record uart =
  u_dlab :: bool
  u_loop :: bool
  u_rx :: u8
  u_sent :: "u8 list"

definition uart_out :: "u16 \<Rightarrow> u8 \<Rightarrow> uart \<Rightarrow> uart" where
  "uart_out p v u =
     (if p = 0x3FB then u\<lparr>u_dlab := bit v 7\<rparr>
      else if p = 0x3FC then u\<lparr>u_loop := bit v 4\<rparr>
      else if p = 0x3F8 \<and> \<not> u_dlab u then
        (if u_loop u then u\<lparr>u_rx := v\<rparr> else u\<lparr>u_sent := u_sent u @ [v]\<rparr>)
      else u)"

definition is_16550 :: "'h io_ports \<Rightarrow> ('h \<Rightarrow> uart) \<Rightarrow> ('h \<Rightarrow> nat) \<Rightarrow> bool" where
  "is_16550 io u busy \<longleftrightarrow>
     (\<forall>p v h. u (outb io p v h) = uart_out p v (u h)) \<and> (\<forall>p h. u (snd (inb io p h)) = u h) \<and>
     (\<forall>h. u_loop (u h) \<longrightarrow> fst (inb io 0x3F8 h) = u_rx (u h)) \<and>
     (\<forall>h. busy h = 0 \<longrightarrow> fst (inb io 0x3FD h) AND 0x20 \<noteq> 0) \<and>
     (\<forall>h. busy h \<noteq> 0 \<longrightarrow> busy (snd (inb io 0x3FD h)) < busy h)"

text \<open>The driver's invariant: once initialised, the device is in its normal mode.\<close>

definition serial_inv :: "('h \<Rightarrow> uart) \<Rightarrow> 'h serial \<Rightarrow> bool" where
  "serial_inv u s \<longleftrightarrow> (dbg_serial_initialized s \<longrightarrow> \<not> u_dlab (u (hw s)) \<and> \<not> u_loop (u (hw s)))"

lemmas com_defs = COM1_REG_def COM1_PORT_def COM_R_RX_BUFF_def COM_W_TX_BUFF_def COM_RW_INTERUPT_ENABLE_REG_def
  COM_RW_LEAST_SIGNIFICANT_BYTE_BAUD_def COM_RW_MOST_SIGNIFICANT_BYTE_BAUD_def COM_W_FIFO_CONTROL_REG_def
  COM_RW_LINE_CONTROL_REG_def COM_RW_MODEM_CONTROL_REG_def COM_R_LINE_STATUS_REG_def

lemma wait_tx_empty:
  assumes "is_16550 io u busy"
  shows "\<exists>s'. wait_until (dbg_serial_is_tx_empty io) s = Some s' \<and> u (hw s') = u (hw s) \<and>
    dbg_serial_initialized s' = dbg_serial_initialized s"
proof (induction "busy (hw s)" arbitrary: s rule: less_induct)
  case less
  obtain v h where v: "inb io 0x3FD (hw s) = (v, h)" by fastforce
  have u: "u h = u (hw s)" using assms v unfolding is_16550_def by (metis snd_conv)
  have poll: "dbg_serial_is_tx_empty io s = (v AND 0x20 \<noteq> 0, s\<lparr>hw := h\<rparr>)"
    by (simp add: dbg_serial_is_tx_empty_def serial_in_def com_defs v)
  show ?case
  proof (cases "v AND 0x20 \<noteq> 0")
    case True
    then show ?thesis by (subst wait_until.simps) (simp add: poll u)
  next
    case False
    then have "busy h < busy (hw s)" using assms v unfolding is_16550_def by (metis fst_conv snd_conv)
    then show ?thesis using less [of "s\<lparr>hw := h\<rparr>"] False by (subst wait_until.simps) (simp add: poll u)
  qed
qed

lemma serial_init_ready:
  assumes "is_16550 io u busy" "serial_inv u s"
  shows "\<exists>s'. dbg_serial_init io s = (0, s') \<and> dbg_serial_initialized s' \<and> serial_inv u s' \<and> u_sent (u (hw s')) = u_sent (u (hw s))"
proof (cases "dbg_serial_initialized s")
  case True
  then show ?thesis using assms by (simp add: dbg_serial_init_def)
next
  case False
  have out: "u (outb io p v h) = uart_out p v (u h)" and rd: "u (snd (inb io p h)) = u h" for p v h
    using assms(1) by (simp_all add: is_16550_def)
  have rx: "u_loop (u h) \<Longrightarrow> fst (inb io 0x3F8 h) = u_rx (u h)" for h using assms(1) by (simp add: is_16550_def)
  show ?thesis
    using False
    by (simp add: dbg_serial_init_def serial_out_def serial_in_def com_defs Let_def split_beta rx rd out uart_out_def serial_inv_def bit_simps)
qed

definition on_line :: "u8 \<Rightarrow> u8 list" where
  "on_line c = (if c = 0x0A then [0x0D, 0x0A] else [c])"

text \<open>
  The receiver in its normal mode: \<open>line\<close> are the bytes still to be read, in order.  While there are some,
  the data ready bit comes up after finitely many readings of the status register, \<open>quiet\<close> at most, and is
  not up before; reading the receive buffer then takes the first byte.
\<close>

definition receives :: "'h io_ports \<Rightarrow> ('h \<Rightarrow> uart) \<Rightarrow> ('h \<Rightarrow> u8 list) \<Rightarrow> ('h \<Rightarrow> nat) \<Rightarrow> bool" where
  "receives io u line quiet \<longleftrightarrow>
     (\<forall>h. line (snd (inb io 0x3FD h)) = line h) \<and>
     (\<forall>p v h. p \<noteq> 0x3FA \<longrightarrow> line (outb io p v h) = line h) \<and>
     (\<forall>h. line h \<noteq> [] \<and> fst (inb io 0x3FD h) AND 1 = 0 \<longrightarrow> quiet (snd (inb io 0x3FD h)) < quiet h) \<and>
     (\<forall>h. line h \<noteq> [] \<and> \<not> u_dlab (u h) \<and> \<not> u_loop (u h) \<longrightarrow>
        fst (inb io 0x3F8 h) = hd (line h) \<and> line (snd (inb io 0x3F8 h)) = tl (line h))"

lemma putc_plain:
  assumes "is_16550 io u busy" "serial_inv u s" "dbg_serial_initialized s" "c \<noteq> 0x0A"
  shows "\<exists>s'. dbg_serial_putc io c s = Some s' \<and> dbg_serial_initialized s' \<and> serial_inv u s' \<and>
    u_sent (u (hw s')) = u_sent (u (hw s)) @ [c]"
proof -
  obtain s' where s': "wait_until (dbg_serial_is_tx_empty io) s = Some s'" "u (hw s') = u (hw s)" "dbg_serial_initialized s'"
    using wait_tx_empty [OF assms(1), of s] assms(3) by auto
  have "u (outb io p v h) = uart_out p v (u h)" for p v h using assms(1) by (simp add: is_16550_def)
  then show ?thesis
    using assms s' by (subst dbg_serial_putc.simps) (simp add: serial_out_def com_defs uart_out_def serial_inv_def)
qed

lemma putc_initialises:
  assumes "dbg_serial_init io s = (0, s')" "dbg_serial_initialized s'"
  shows "dbg_serial_putc io c s = dbg_serial_putc io c s'"
proof (cases "dbg_serial_initialized s")
  case True
  then show ?thesis using assms by (simp add: dbg_serial_init_def)
next
  case False
  then show ?thesis using assms by (subst (1 2) dbg_serial_putc.simps) simp
qed

lemma putc_newline:
  assumes "dbg_serial_initialized s"
  shows "dbg_serial_putc io 0x0A s =
    do { s \<leftarrow> dbg_serial_putc io 0x0D s; s \<leftarrow> wait_until (dbg_serial_is_tx_empty io) s; Some (serial_out io COM_W_TX_BUFF 0x0A s) }"
  using assms by (subst dbg_serial_putc.simps) simp

lemma putc_step:
  assumes "is_16550 io u busy" "serial_inv u s"
  shows "\<exists>s'. dbg_serial_putc io c s = Some s' \<and> dbg_serial_initialized s' \<and> serial_inv u s' \<and>
    u_sent (u (hw s')) = u_sent (u (hw s)) @ on_line c"
proof -
  obtain s0 where s0: "dbg_serial_init io s = (0, s0)" "dbg_serial_initialized s0" "serial_inv u s0"
    "u_sent (u (hw s0)) = u_sent (u (hw s))"
    using serial_init_ready [OF assms] by auto
  show ?thesis
  proof (cases "c = 0x0A")
    case False
    then show ?thesis
      using putc_plain [OF assms(1) s0(3,2) False] s0(4) by (simp add: putc_initialises [OF s0(1,2)] on_line_def)
  next
    case True
    obtain s1 where s1: "dbg_serial_putc io 0x0D s0 = Some s1" "dbg_serial_initialized s1" "serial_inv u s1"
      "u_sent (u (hw s1)) = u_sent (u (hw s0)) @ [0x0D]"
      using putc_plain [OF assms(1) s0(3,2), of "0x0D"] by auto
    obtain s2 where s2: "wait_until (dbg_serial_is_tx_empty io) s1 = Some s2" "u (hw s2) = u (hw s1)" "dbg_serial_initialized s2"
      using wait_tx_empty [OF assms(1), of s1] s1(2) by auto
    have "u (outb io p v h) = uart_out p v (u h)" for p v h using assms(1) by (simp add: is_16550_def)
    then show ?thesis
      using s0 s1 s2
      by (simp add: True putc_initialises [OF s0(1,2)] putc_newline serial_out_def com_defs uart_out_def serial_inv_def on_line_def)
  qed
qed

lemma wait_until_keeps:
  assumes "wait_until cond s = Some s'" "\<And>s. f (snd (cond s)) = f s"
  shows "f s' = f s"
proof (rule wait_until.raw_induct [where P = "\<lambda>cond s s'. (\<forall>s. f (snd (cond s)) = f s) \<longrightarrow> f s' = f s", OF _ assms(1), rule_format],
    goal_cases)
  case (1 g cond s s')
  then show ?case by (auto split: if_splits)
qed (use assms(2) in blast)

text \<open>Sending does not touch the bytes still to be read.\<close>

lemma putc_keeps_line:
  assumes "receives io u line quiet" "dbg_serial_initialized s" "dbg_serial_putc io c s = Some s'"
  shows "line (hw s') = line (hw s)"
proof -
  have kept: "line (hw (snd (dbg_serial_is_tx_empty io s))) = line (hw s)"
    "dbg_serial_initialized (snd (dbg_serial_is_tx_empty io s)) = dbg_serial_initialized s" for s
    using assms(1) by (simp_all add: dbg_serial_is_tx_empty_def serial_in_def com_defs receives_def split_beta)
  note wait = wait_until_keeps [where f = "\<lambda>s. line (hw s)", OF _ kept(1)] wait_until_keeps [where f = dbg_serial_initialized, OF _ kept(2)]
  have out: "line (hw (serial_out io COM_W_TX_BUFF v s)) = line (hw s)"
    "dbg_serial_initialized (serial_out io COM_W_TX_BUFF v s) = dbg_serial_initialized s" for v s
    using assms(1) by (simp_all add: serial_out_def com_defs receives_def)
  have plain: "line (hw s2) = line (hw s1) \<and> dbg_serial_initialized s2"
    if "dbg_serial_putc io d s1 = Some s2" "d \<noteq> 0x0A" "dbg_serial_initialized s1" for d s1 s2
    using that by (subst (asm) dbg_serial_putc.simps) (auto simp: bind_eq_Some_conv out dest: wait)
  show ?thesis
  proof (cases "c = 0x0A")
    case True
    then obtain y z where "dbg_serial_putc io 0x0D s = Some y" "wait_until (dbg_serial_is_tx_empty io) y = Some z"
        "s' = serial_out io COM_W_TX_BUFF 0x0A z"
      using assms(2,3) by (auto simp: putc_newline bind_eq_Some_conv)
    then show ?thesis using plain [of "0x0D" s y] wait(1) [of y z] assms(2) by (simp add: out)
  next
    case False
    then show ?thesis using plain assms(2,3) by blast
  qed
qed

lemma putc_ready:
  assumes "is_16550 io u busy" "receives io u line quiet" "serial_inv u s" "dbg_serial_initialized s"
  obtains s' where "dbg_serial_putc io c s = Some s'" "dbg_serial_initialized s'" "serial_inv u s'"
    "u_sent (u (hw s')) = u_sent (u (hw s)) @ on_line c" "line (hw s') = line (hw s)"
  using putc_step [OF assms(1,3), of c] putc_keeps_line [OF assms(2,4)] by blast

lemma wait_rx_avail:
  assumes "is_16550 io u busy" "receives io u line quiet" "line (hw s) \<noteq> []"
  shows "\<exists>s'. wait_until (dbg_serial_is_rx_avail io) s = Some s' \<and> u (hw s') = u (hw s) \<and> line (hw s') = line (hw s) \<and>
    dbg_serial_initialized s' = dbg_serial_initialized s"
  using assms(3)
proof (induction "quiet (hw s)" arbitrary: s rule: less_induct)
  case less
  obtain v h where v: "inb io 0x3FD (hw s) = (v, h)" by fastforce
  have u: "u h = u (hw s)" using assms(1) v unfolding is_16550_def by (metis snd_conv)
  have l: "line h = line (hw s)" using assms(2) v unfolding receives_def by (metis snd_conv)
  have poll: "dbg_serial_is_rx_avail io s = (v AND 1 \<noteq> 0, s\<lparr>hw := h\<rparr>)"
    by (simp add: dbg_serial_is_rx_avail_def serial_in_def com_defs v)
  show ?case
  proof (cases "v AND 1 \<noteq> 0")
    case True
    then show ?thesis by (subst wait_until.simps) (simp add: poll u l)
  next
    case False
    then have "quiet h < quiet (hw s)" using assms(2) less.prems v unfolding receives_def by (metis fst_conv snd_conv)
    then show ?thesis using less(1) [of "s\<lparr>hw := h\<rparr>"] less.prems False by (subst wait_until.simps) (simp add: poll u l)
  qed
qed

lemma getc_step:
  assumes "is_16550 io u busy" "receives io u line quiet" "serial_inv u s" "dbg_serial_initialized s" "line (hw s) = c # cs"
  shows "\<exists>s'. dbg_serial_getc io s = Some (c, s') \<and> dbg_serial_initialized s' \<and> serial_inv u s' \<and>
    u (hw s') = u (hw s) \<and> line (hw s') = cs"
proof -
  obtain s' where s': "wait_until (dbg_serial_is_rx_avail io) s = Some s'" "u (hw s') = u (hw s)" "line (hw s') = c # cs"
    "dbg_serial_initialized s'"
    using wait_rx_avail [OF assms(1,2), of s] assms(4,5) by auto
  obtain v h where v: "inb io 0x3F8 (hw s') = (v, h)" by fastforce
  have "u h = u (hw s')" using assms(1) v unfolding is_16550_def by (metis snd_conv)
  moreover have "v = c" "line h = cs"
    using assms(2-4) s' v unfolding receives_def serial_inv_def by (metis fst_conv snd_conv list.sel list.discI)+
  ultimately show ?thesis
    using assms(3,4) s' by (simp add: dbg_serial_getc_def serial_in_def com_defs v serial_inv_def)
qed


text \<open>
  C22: when nothing answers the loopback test, \<^verbatim>\<open>dbg_serial_init\<close> reports \<^verbatim>\<open>-ENODEV\<close>, and neither \<^verbatim>\<open>dbg_serial_putc\<close> nor \<^verbatim>\<open>dbg_serial_getc\<close>
  waits for the device: both return after the failed initialisation, \<^verbatim>\<open>dbg_serial_getc\<close> with 0.
\<close>

theorem dbg_serial_no_device:
  assumes "\<And>h. fst (inb io 0x3F8 h) \<noteq> 0xAE" "\<not> dbg_serial_initialized s"
  shows "fst (dbg_serial_init io s) = - ENODEV \<and> \<not> dbg_serial_initialized (snd (dbg_serial_init io s)) \<and>
    dbg_serial_putc io c s = Some (snd (dbg_serial_init io s)) \<and> dbg_serial_getc io s = Some (0, snd (dbg_serial_init io s))"
proof -
  have init: "fst (dbg_serial_init io s) = - ENODEV \<and> \<not> dbg_serial_initialized (snd (dbg_serial_init io s))"
    using assms by (simp add: dbg_serial_init_def serial_out_def serial_in_def com_defs Let_def split_beta)
  then show ?thesis
    using assms(2) by (subst dbg_serial_putc.simps) (simp add: dbg_serial_getc_def ENODEV_def)
qed

section \<open>A concrete device\<close>

text \<open>
  A device that is busy for two readings after each byte, and has a queue of received bytes.
\<close>

type_synonym demo_hw = "uart \<times> nat \<times> u8 list"

definition demo_outb :: "u16 \<Rightarrow> u8 \<Rightarrow> demo_hw \<Rightarrow> demo_hw" where
  "demo_outb p v h = (uart_out p v (fst h), (if p = 0x3F8 then 2 else fst (snd h)), snd (snd h))"

definition demo_inb :: "u16 \<Rightarrow> demo_hw \<Rightarrow> u8 \<times> demo_hw" where
  "demo_inb p h =
     (if p = 0x3FD then ((if fst (snd h) = 0 then 0x20 else 0) OR (if snd (snd h) = [] then 0 else 1),
        (fst h, fst (snd h) - 1, snd (snd h)))
      else if p = 0x3F8 then
        (if u_loop (fst h) then (u_rx (fst h), h)
         else if u_dlab (fst h) \<or> snd (snd h) = [] then (0, h)
         else (hd (snd (snd h)), fst h, fst (snd h), tl (snd (snd h))))
      else (0, h))"

definition demo_ports :: "demo_hw io_ports" where
  "demo_ports = \<lparr>outb = demo_outb, inb = demo_inb\<rparr>"

definition demo_serial :: "u8 list \<Rightarrow> demo_hw serial" where
  "demo_serial input =
     \<lparr>dbg_serial_initialized = False, hw = (\<lparr>u_dlab = False, u_loop = False, u_rx = 0, u_sent = []\<rparr>, 0, input)\<rparr>"

lemma demo_16550: "is_16550 demo_ports fst (\<lambda>h. fst (snd h))"
  by (simp add: is_16550_def demo_ports_def demo_outb_def demo_inb_def)

lemma demo_receives: "receives demo_ports fst (\<lambda>h. snd (snd h)) (\<lambda>_. 0)"
  by (auto simp: receives_def demo_ports_def demo_outb_def demo_inb_def)


text \<open>An unused port reads as \<^verbatim>\<open>0xFF\<close>.\<close>

definition no_ports :: "unit io_ports" where
  "no_ports = \<lparr>outb = (\<lambda>_ _ h. h), inb = (\<lambda>_ h. (0xFF, h))\<rparr>"

definition no_serial :: "unit serial" where
  "no_serial = \<lparr>dbg_serial_initialized = False, hw = ()\<rparr>"

theorem dbg_serial_no_device_witness:
  "fst (dbg_serial_init no_ports no_serial) = - ENODEV \<and> \<not> dbg_serial_initialized (snd (dbg_serial_init no_ports no_serial)) \<and>
    dbg_serial_putc no_ports 0x41 no_serial = Some (snd (dbg_serial_init no_ports no_serial)) \<and>
    dbg_serial_getc no_ports no_serial = Some (0, snd (dbg_serial_init no_ports no_serial))"
  by (rule dbg_serial_no_device) (simp_all add: no_ports_def no_serial_def)

end
