(* ===== verification/Dbg_Cmd.thy ===== *)
theory Dbg_Cmd
  imports Dbg_Io Dbg_Serial Kernel_Lib
begin

text \<open>
  The command line of the kernel debugger, first part of \<^verbatim>\<open>arch/x86_64/debug/debug.c\<close>: its private string functions, the line
  editor \<^verbatim>\<open>dbg_getcmd\<close> and the splitting of a line into words by \<^verbatim>\<open>dbg_parsecmd\<close>.

  Strings that are only read are functions from offsets to bytes, as in the formatter; the command buffer is in memory.  \<^verbatim>\<open>int\<close>
  values of characters are sign-extended bytes, \<^verbatim>\<open>long\<close> arithmetic wraps.
\<close>

section \<open>Characters, numbers and strings\<close>

definition dbg_isspace :: "u32 \<Rightarrow> bool" where
  "dbg_isspace c \<longleftrightarrow> c = 0x20 \<or> c - 9 < 5"

definition dbg_isdigit :: "u32 \<Rightarrow> bool" where
  "dbg_isdigit c \<longleftrightarrow> c - 0x30 < 10"

definition atol_digit :: "u8 \<Rightarrow> u64 option" where
  "atol_digit c =
     (if dbg_isdigit (scast c) then Some (ucast c - 0x30)
      else if 0x61 \<le> c \<and> c \<le> 0x66 then Some (ucast c - 0x61 + 10)
      else if 0x41 \<le> c \<and> c \<le> 0x46 then Some (ucast c - 0x41 + 10)
      else None)"

partial_function (option) atol_hex :: "ctext \<Rightarrow> u64 \<Rightarrow> u64 \<Rightarrow> u64 option" where
  [code]: "atol_hex t s n =
     (if t s \<noteq> 0 then
        (case atol_digit (t s) of None \<Rightarrow> Some n | Some digit \<Rightarrow> atol_hex t (s + 1) (n * 16 + digit))
      else Some n)"

partial_function (option) atol_dec :: "ctext \<Rightarrow> u64 \<Rightarrow> u64 \<Rightarrow> u64 option" where
  [code]: "atol_dec t s n =
     (if dbg_isdigit (scast (t s)) then atol_dec t (s + 1) (10 * n - (ucast (t s) - 0x30)) else Some n)"

definition dbg_atol :: "ctext \<Rightarrow> u64 option" where
  "dbg_atol t =
     (case scan_while (\<lambda>i. dbg_isspace (scast (t i))) 0 of None \<Rightarrow> None
      | Some s \<Rightarrow>
          let neg = (t s = 0x2D); s = (if t s = 0x2D \<or> t s = 0x2B then s + 1 else s) in
          if t s = 0x30 \<and> (t (s + 1) = 0x78 \<or> t (s + 1) = 0x58)
          then map_option (\<lambda>n. if neg then - n else n) (atol_hex t (s + 2) 0)
          else map_option (\<lambda>n. if neg then n else - n) (atol_dec t s 0))"

definition dbg_strcmp :: "ctext \<Rightarrow> ctext \<Rightarrow> int option" where
  "dbg_strcmp str1 str2 =
     map_option (\<lambda>i. strcmp_res (str1 i) (str2 i)) (scan_while (\<lambda>i. str1 i = str2 i \<and> str1 i \<noteq> 0 \<and> str2 i \<noteq> 0) 0)"

definition dbg_strncmp :: "ctext \<Rightarrow> ctext \<Rightarrow> u64 \<Rightarrow> int option" where
  "dbg_strncmp str1 str2 num =
     map_option (\<lambda>i. strcmp_res (str1 i) (str2 i))
       (scan_while (\<lambda>i. str1 i = str2 i \<and> str1 i \<noteq> 0 \<and> str2 i \<noteq> 0 \<and> i < num) 0)"

definition dbg_strcpy :: "memory \<Rightarrow> addr \<Rightarrow> addr \<Rightarrow> (memory \<times> addr) option" where
  "dbg_strcpy m dst src = map_option (\<lambda>m'. (m', dst)) (strcpy_loop m dst src 0)"

definition dbg_strncpy :: "memory \<Rightarrow> addr \<Rightarrow> addr \<Rightarrow> u64 \<Rightarrow> memory \<times> addr" where
  "dbg_strncpy m dst src num = (memcpy_loop m dst src (unat num), dst)"

text \<open>The result is an offset, \<open>None\<close> inside stands for \<^verbatim>\<open>NULL\<close>.\<close>

definition dbg_strchr :: "ctext \<Rightarrow> u8 \<Rightarrow> u64 option option" where
  "dbg_strchr str c =
     map_option (\<lambda>i. if str i = c then Some i else None) (scan_while (\<lambda>i. str i \<noteq> 0 \<and> str i \<noteq> c) 0)"

section \<open>The line editor\<close>

text \<open>The loop of \<^verbatim>\<open>dbg_getcmd\<close>: returned are the final \<^verbatim>\<open>i\<close>, the memory and the serial line.\<close>

partial_function (option) getcmd_loop ::
  "'h io_ports \<Rightarrow> addr \<Rightarrow> u64 \<Rightarrow> u64 \<Rightarrow> memory \<Rightarrow> 'h serial \<Rightarrow> (u64 \<times> memory \<times> 'h serial) option" where
  [code]: "getcmd_loop io cmd sz i m s =
     (if i < sz then do {
        r \<leftarrow> dbg_serial_getc io s;
        let c = fst r;
        if c = 0x08 \<or> c = 0x7F then
          if i > 0 then do {
            s \<leftarrow> dbg_serial_putc io 0x08 (snd r);
            s \<leftarrow> dbg_serial_putc io 0x20 s;
            s \<leftarrow> dbg_serial_putc io 0x08 s;
            getcmd_loop io cmd sz (i - 1) m s
          } else getcmd_loop io cmd sz i m (snd r)
        else do {
          let m = m(cmd + i := c);
          s \<leftarrow> dbg_serial_putc io (if m (cmd + i) = 0x0D then 0x0A else m (cmd + i)) (snd r);
          if m (cmd + i) = 0x0A \<or> m (cmd + i) = 0x0D then Some (i + 1, m(cmd + i := 0), s)
          else getcmd_loop io cmd sz (i + 1) m s
        }
      } else Some (i, m, s))"

definition dbg_getcmd :: "'h io_ports \<Rightarrow> addr \<Rightarrow> u64 \<Rightarrow> memory \<Rightarrow> 'h serial \<Rightarrow> (u64 \<times> memory \<times> 'h serial) option" where
  "dbg_getcmd io cmd sz m s = getcmd_loop io cmd sz 0 m s"

section \<open>Splitting a line\<close>

partial_function (option) parsecmd_loop ::
  "nat \<Rightarrow> addr \<Rightarrow> nat \<Rightarrow> addr list \<Rightarrow> memory \<Rightarrow> (nat \<times> addr list \<times> memory) option" where
  [code]: "parsecmd_loop max_args buff argc argv m =
     (if m buff \<noteq> 0 \<and> argc < max_args then do {
        i \<leftarrow> scan_while (\<lambda>i. dbg_isspace (scast (m (buff + i)))) 0;
        let buff = buff + i;
        if m buff = 0 then Some (argc, argv, m)
        else do {
          let argv = argv[argc := buff];
          j \<leftarrow> scan_while (\<lambda>j. m (buff + j) \<noteq> 0 \<and> \<not> dbg_isspace (scast (m (buff + j)))) 0;
          let buff = buff + j;
          if m buff \<noteq> 0 then parsecmd_loop max_args (buff + 1) (argc + 1) argv (m(buff := 0))
          else parsecmd_loop max_args buff (argc + 1) argv m
        }
      } else Some (argc, argv, m))"

definition dbg_parsecmd :: "addr \<Rightarrow> addr list \<Rightarrow> nat \<Rightarrow> memory \<Rightarrow> (nat \<times> addr list \<times> memory) option" where
  "dbg_parsecmd buff argv max_args m = parsecmd_loop max_args buff 0 argv m"

section \<open>Texts in memory\<close>

text \<open>\<open>mtext m p bs\<close>: the C string \<open>bs\<close> is at address \<open>p\<close>.\<close>

abbreviation mtext :: "memory \<Rightarrow> addr \<Rightarrow> u8 list \<Rightarrow> bool" where
  "mtext m p bs \<equiv> text_is (\<lambda>i. m (p + i)) bs"

lemma text_scan_while:
  assumes "text_is t bs" "\<not> P 0"
  shows "scan_while (\<lambda>i. P (t i)) 0 = Some (of_nat (length (takeWhile P bs)))"
proof -
  let ?n = "length (takeWhile P bs)"
  have n: "?n \<le> length bs" by (rule length_takeWhile_le)
  have "scan_while (\<lambda>i. P (t i)) 0 = Some (0 + of_nat ?n)"
  proof (rule scan_while_stop)
    show "P (t (0 + of_nat j))" if "j < ?n" for j
    proof -
      have "P (bs ! j)" using set_takeWhileD [of "takeWhile P bs ! j" P bs] nth_mem [OF that] that by (simp add: takeWhile_nth)
      then show ?thesis using that n text_char_at [OF assms(1), of j] by (simp add: char_at_def)
    qed
    show "\<not> P (t (0 + of_nat ?n))"
      using text_char_at [OF assms(1) n] assms(2) nth_length_takeWhile [of P bs]
      by (cases "?n < length bs") (simp_all add: char_at_def)
  qed
  then show ?thesis by simp
qed

lemma of_nat_u64_inj: "i < 2 ^ 64 \<Longrightarrow> j < 2 ^ 64 \<Longrightarrow> (of_nat i :: u64) = of_nat j \<longleftrightarrow> i = j"
  by (metis unat_of_nat_u64)

lemma below_range: "i < k \<Longrightarrow> k + n \<le> 2 ^ 64 \<Longrightarrow> \<not> in_range (q + of_nat k) n (q + of_nat i)"
proof
  assume a: "i < k" "k + n \<le> 2 ^ 64" and "in_range (q + of_nat k) n (q + of_nat i)"
  then obtain j where "j < n" "q + of_nat i = q + of_nat k + of_nat j" by (elim in_rangeE) auto
  then have "(of_nat i :: u64) = of_nat (k + j)" "k + j < 2 ^ 64" using a(2) by (simp_all add: add.assoc)
  then show False using a of_nat_u64_inj [of i "k + j"] by simp
qed

lemma mtext_frame:
  assumes "mtext m p bs" "\<And>i. i \<le> length bs \<Longrightarrow> m' (p + of_nat i) = m (p + of_nat i)"
  shows "mtext m' p bs"
  using assms by (auto simp: text_is_def)

lemma mtext_cut:
  assumes "mtext m p bs" "k \<le> length bs"
  shows "mtext (m(p + of_nat k := 0)) p (take k bs)"
proof -
  have len: "length bs < 2 ^ 64" using assms(1) by (simp only: text_is_def)
  have "(of_nat i :: u64) \<noteq> of_nat k" if "i < k" for i
    using that assms(2) len of_nat_u64_inj [of i k] by simp
  then show ?thesis
    using assms len unfolding text_is_def by (simp add: min_absorb2 del: of_nat_eq_iff)
qed

lemma mtext_drop: "mtext m p bs \<Longrightarrow> k \<le> length bs \<Longrightarrow> mtext m (p + of_nat k) (drop k bs)"
  by (rule text_drop)

lemma text_nonzero: "text_is t bs \<Longrightarrow> c \<in> set bs \<Longrightarrow> c \<noteq> 0"
  unfolding text_is_def in_set_conv_nth by metis

lemma mtext_head: "mtext m p bs \<Longrightarrow> m p = (case bs of [] \<Rightarrow> 0 | c # _ \<Rightarrow> c)"
  using text_char_at [of "\<lambda>i. m (p + i)" bs 0] by (simp add: char_at_def split: list.splits)

lemma mtext_zero_iff: "mtext m p bs \<Longrightarrow> m p = 0 \<longleftrightarrow> bs = []"
  using mtext_head [of m p bs] text_nonzero [of "\<lambda>i. m (p + i)" bs "hd bs"] by (cases bs) simp_all

section \<open>Words of a line\<close>

abbreviation space :: "u8 \<Rightarrow> bool" where
  "space c \<equiv> dbg_isspace (scast c)"

function words :: "u8 list \<Rightarrow> u8 list list" where
  "words cs =
     (let w = dropWhile space cs
      in if w = [] then [] else takeWhile (\<lambda>c. \<not> space c) w # words (dropWhile (\<lambda>c. \<not> space c) w))"
  by pat_completeness auto
termination
proof (relation "measure length")
  fix cs :: "u8 list" and w
  assume w: "w = dropWhile space cs" "w \<noteq> []"
  have "\<not> space (hd w)" using hd_dropWhile [of space cs] w by simp
  then have "length (dropWhile (\<lambda>c. \<not> space c) w) < length w"
    using w(2) length_dropWhile_le [of "\<lambda>c. \<not> space c" "tl w"] by (cases w) auto
  also have "\<dots> \<le> length cs" using w length_dropWhile_le by simp
  finally show "(dropWhile (\<lambda>c. \<not> space c) w, cs) \<in> measure length" by simp
qed simp

declare words.simps [simp del]

lemma words_space: "space c \<Longrightarrow> words (c # cs) = words cs"
  by (simp only: words.simps [of cs] words.simps [of "c # cs"] dropWhile.simps if_True)

lemma space_0: "\<not> space 0"
  by (simp add: dbg_isspace_def)

text \<open>What one turn of the loop sees: \<open>a\<close> leading spaces, a word of length \<open>b\<close>, and the rest.\<close>

lemma words_split:
  assumes "a = length (takeWhile space cs)" "a < length cs" "b = length (takeWhile (\<lambda>c. \<not> space c) (drop a cs))"
  shows "words cs = take b (drop a cs) # words (drop (a + b) cs)" "0 < b"
    "a + b < length cs \<Longrightarrow> words cs = take b (drop a cs) # words (drop (a + b + 1) cs)"
proof -
  have w: "dropWhile space cs = drop a cs" by (simp add: assms(1) dropWhile_eq_drop)
  have ne: "drop a cs \<noteq> []" using assms(2) by simp
  have tk: "takeWhile (\<lambda>c. \<not> space c) (drop a cs) = take b (drop a cs)" "dropWhile (\<lambda>c. \<not> space c) (drop a cs) = drop (a + b) cs"
    using takeWhile_eq_take [of "\<lambda>c. \<not> space c" "drop a cs"] dropWhile_eq_drop [of "\<lambda>c. \<not> space c" "drop a cs"]
    unfolding assms(3) [symmetric] by (simp_all add: add.commute)
  show 1: "words cs = take b (drop a cs) # words (drop (a + b) cs)"
    using assms(2) by (subst words.simps) (simp add: Let_def w tk)
  have "\<not> space (hd (drop a cs))" using hd_dropWhile [of space cs] w ne by simp
  then show "0 < b" unfolding assms(3) using ne by (cases "drop a cs") simp_all
  show "words cs = take b (drop a cs) # words (drop (a + b + 1) cs)" if "a + b < length cs"
  proof -
    have "drop (a + b) cs = cs ! (a + b) # drop (a + b + 1) cs" using that by (simp add: Cons_nth_drop_Suc)
    moreover have "space (cs ! (a + b))"
      using nth_length_takeWhile [of "\<lambda>c. \<not> space c" "drop a cs"] that by (simp add: assms(3) [symmetric])
    ultimately show ?thesis using 1 words_space by simp
  qed
qed

definition parsed :: "nat \<Rightarrow> addr \<Rightarrow> u8 list \<Rightarrow> nat \<Rightarrow> addr list \<Rightarrow> memory \<Rightarrow> (nat \<times> addr list \<times> memory) \<Rightarrow> bool" where
  "parsed mx p cs argc argv m r \<longleftrightarrow> (case r of (argc', argv', m') \<Rightarrow>
     argc' = argc + min (mx - argc) (length (words cs)) \<and> length argv' = length argv \<and> (\<forall>k < argc. argv' ! k = argv ! k) \<and>
     (\<forall>k < argc' - argc. mtext m' (argv' ! (argc + k)) (words cs ! k)) \<and> (\<forall>x. \<not> in_range p (length cs) x \<longrightarrow> m' x = m x))"

lemma parsed_word:
  assumes a: "a = length (takeWhile space cs)" "a < length cs" "b = length (takeWhile (\<lambda>c. \<not> space c) (drop a cs))" "a + b < length cs"
    and m: "mtext m p cs" and argc: "argc < mx" "argc < length argv"
    and r: "parsed mx (p + of_nat (a + b + 1)) (drop (a + b + 1) cs) (argc + 1) (argv[argc := p + of_nat a]) (m(p + of_nat (a + b) := 0)) r"
  shows "parsed mx p cs argc argv m r"
proof -
  obtain argc' argv' m' where r': "r = (argc', argv', m')" by (rule prod_cases3)
  let ?e = "p + of_nat (a + b)" and ?q = "p + of_nat a" and ?n = "length cs - (a + b + 1)"
  note W = words_split(3) [OF a]
  have len: "length cs < 2 ^ 64" using m by (simp only: text_is_def)
  have frame: "m' x = (m(?e := 0)) x" if "\<not> in_range (p + of_nat (a + b + 1)) ?n x" for x
    using r that unfolding parsed_def r' prod.case length_drop by blast
  have "mtext (m(?e := 0)) ?q (take b (drop a cs))"
    using mtext_cut [OF mtext_drop [OF m], of a b] a(2,4) by (simp add: add.assoc)
  then have first: "mtext m' ?q (take b (drop a cs))"
  proof (rule mtext_frame)
    fix i assume "i \<le> length (take b (drop a cs))"
    then have "a + i < a + b + 1" by simp
    moreover have "a + b + 1 + ?n \<le> 2 ^ 64" using len a(4) by linarith
    ultimately have "\<not> in_range (p + of_nat (a + b + 1)) ?n (p + of_nat (a + i))" by (rule below_range)
    from frame [OF this] show "m' (?q + of_nat i) = (m(?e := 0)) (?q + of_nat i)"
      by (simp only: of_nat_add add.assoc)
  qed
  have "m' x = m x" if "\<not> in_range p (length cs) x" for x
  proof -
    have "x \<noteq> ?e" using that in_range_offset [OF a(4), of p] len by (metis less_imp_le)
    moreover have "\<not> in_range (p + of_nat (a + b + 1)) ?n x"
    proof
      assume "in_range (p + of_nat (a + b + 1)) ?n x"
      then have "in_range p (length cs) x" by (rule in_range_sub) (use a(4) len in simp_all)
      then show False using that by blast
    qed
    ultimately show ?thesis using frame by simp
  qed
  moreover have "mtext m' (argv' ! (argc + k)) (words cs ! k)" if "k < argc' - argc" for k
    using r first that argc by (cases k) (auto simp: parsed_def r' W)
  ultimately show ?thesis
    using r argc by (auto simp: parsed_def r' W)
qed

lemma parsecmd_turn:
  assumes m: "mtext m p cs" and more: "cs \<noteq> []" "argc < mx"
    and a: "a = length (takeWhile space cs)" and b: "b = length (takeWhile (\<lambda>c. \<not> space c) (drop a cs))"
  shows "parsecmd_loop mx p argc argv m =
    (if a = length cs then Some (argc, argv, m)
     else if a + b = length cs then Some (argc + 1, argv[argc := p + of_nat a], m)
     else parsecmd_loop mx (p + of_nat (a + b + 1)) (argc + 1) (argv[argc := p + of_nat a]) (m(p + of_nat (a + b) := 0)))"
proof -
  have al: "a \<le> length cs" unfolding a by (rule length_takeWhile_le)
  have bl: "a + b \<le> length cs"
    using length_takeWhile_le [of "\<lambda>c. \<not> space c" "drop a cs"] al unfolding b by simp
  note q = mtext_drop [OF m al] and e = mtext_drop [OF m bl]
  have sa: "scan_while (\<lambda>i. space (m (p + i))) 0 = Some (of_nat a)"
    using text_scan_while [OF m, of space] space_0 by (simp add: a)
  have "takeWhile (\<lambda>c. c \<noteq> 0 \<and> \<not> space c) (drop a cs) = takeWhile (\<lambda>c. \<not> space c) (drop a cs)"
    by (rule takeWhile_cong [OF refl]) (use text_nonzero [OF q] in blast)
  then have sb: "scan_while (\<lambda>i. m (p + of_nat a + i) \<noteq> 0 \<and> \<not> space (m (p + of_nat a + i))) 0 = Some (of_nat b)"
    using text_scan_while [OF q, of "\<lambda>c. c \<noteq> 0 \<and> \<not> space c"] by (simp add: b)
  have z: "m p \<noteq> 0" "m (p + of_nat a) = 0 \<longleftrightarrow> a = length cs" "m (p + of_nat a + of_nat b) = 0 \<longleftrightarrow> a + b = length cs"
    using mtext_zero_iff [OF m] more(1) mtext_zero_iff [OF q] mtext_zero_iff [OF e] al bl by (auto simp: add.assoc)
  have stop: "parsecmd_loop mx x k as m = Some (k, as, m)" if "m x = 0" for x k as
    using that by (subst parsecmd_loop.simps) simp
  show ?thesis
    using z more(2) sa sb stop by (subst parsecmd_loop.simps) (simp add: Let_def ac_simps)
qed

lemma mtext_after_cut:
  assumes "mtext m p cs" "k < length cs"
  shows "mtext (m(p + of_nat k := 0)) (p + of_nat (k + 1)) (drop (k + 1) cs)"
proof (rule mtext_frame)
  show "mtext m (p + of_nat (k + 1)) (drop (k + 1) cs)" using mtext_drop [OF assms(1), of "k + 1"] assms(2) by simp
  have len: "length cs < 2 ^ 64" using assms(1) by (simp only: text_is_def)
  fix i assume "i \<le> length (drop (k + 1) cs)"
  then have "k + 1 + i < 2 ^ 64" using len assms(2) by simp
  then have "(of_nat (k + 1 + i) :: u64) \<noteq> of_nat k" using of_nat_u64_inj [of "k + 1 + i" k] by simp
  then have "p + of_nat (k + 1) + of_nat i \<noteq> p + of_nat k" by (simp only: of_nat_add add.assoc add_left_cancel) blast
  then show "(m(p + of_nat k := 0)) (p + of_nat (k + 1) + of_nat i) = m (p + of_nat (k + 1) + of_nat i)" by (rule fun_upd_other)
qed

lemma parsecmd_loop_parsed:
  assumes "mtext m p cs" "argc \<le> mx" "mx \<le> length argv"
  shows "\<exists>r. parsecmd_loop mx p argc argv m = Some r \<and> parsed mx p cs argc argv m r"
  using assms
proof (induction cs arbitrary: m p argc argv rule: length_induct)
  case (1 cs)
  show ?case
  proof (cases "cs \<noteq> [] \<and> argc < mx")
    case False
    then have "parsecmd_loop mx p argc argv m = Some (argc, argv, m)"
      using mtext_zero_iff [OF 1(2)] by (subst parsecmd_loop.simps) auto
    moreover have "min (mx - argc) (length (words cs)) = 0" using False by (auto simp: words.simps)
    ultimately show ?thesis by (simp add: parsed_def)
  next
    case True
    define a where "a = length (takeWhile space cs)"
    define b where "b = length (takeWhile (\<lambda>c. \<not> space c) (drop a cs))"
    note turn = parsecmd_turn [OF 1(2) conjunct1 [OF True] conjunct2 [OF True] a_def b_def, of argv]
    have al: "a \<le> length cs" unfolding a_def by (rule length_takeWhile_le)
    have bl: "a + b \<le> length cs"
      using length_takeWhile_le [of "\<lambda>c. \<not> space c" "drop a cs"] al unfolding b_def by simp
    consider "a = length cs" | "a < length cs" "a + b = length cs" | "a < length cs" "a + b < length cs"
      using al bl by linarith
    then show ?thesis
    proof cases
      case all_spaces: 1
      then have "dropWhile space cs = []" unfolding a_def by (simp add: dropWhile_eq_drop)
      then have "words cs = []" by (subst words.simps) simp
      then show ?thesis using turn all_spaces by (simp add: parsed_def)
    next
      case last: 2
      then have "words cs = [drop a cs]"
        using words_split(1) [OF a_def last(1) b_def] by (simp add: words.simps)
      then show ?thesis using turn last True 1(4) mtext_drop [OF 1(2) al] by (auto simp: parsed_def)
    next
      case more: 3
      let ?argv = "argv[argc := p + of_nat a]" and ?m = "m(p + of_nat (a + b) := 0)" and ?p = "p + of_nat (a + b + 1)"
      obtain r where r: "parsecmd_loop mx ?p (argc + 1) ?argv ?m = Some r" "parsed mx ?p (drop (a + b + 1) cs) (argc + 1) ?argv ?m r"
      proof -
        have "\<exists>r. parsecmd_loop mx ?p (argc + 1) ?argv ?m = Some r \<and> parsed mx ?p (drop (a + b + 1) cs) (argc + 1) ?argv ?m r"
          by (rule 1(1) [rule_format, OF _ mtext_after_cut [OF 1(2) more(2)]]) (use True 1(4) more(2) in simp_all)
        then show thesis using that by blast
      qed
      have "parsed mx p cs argc argv m r"
        using parsed_word [OF a_def more(1) b_def more(2) 1(2)] r(2) True 1(4) by simp
      then show ?thesis using turn more r(1) by auto
    qed
  qed
qed

text \<open>
  C30: \<^verbatim>\<open>dbg_parsecmd\<close> splits the line in its buffer at white space: it returns the number of words, at most the size of \<^verbatim>\<open>argv\<close>, makes
  \<^verbatim>\<open>argv[k]\<close> point to the \<open>k\<close>-th word as a NUL-terminated string, and writes only inside the line.
\<close>

theorem dbg_parsecmd_words:
  assumes "text_is (\<lambda>i. m (buff + i)) cs" "max_args \<le> length argv"
  shows "\<exists>argc argv' m'. dbg_parsecmd buff argv max_args m = Some (argc, argv', m') \<and>
    argc = min max_args (length (words cs)) \<and> (\<forall>k < argc. text_is (\<lambda>i. m' (argv' ! k + i)) (words cs ! k)) \<and>
    (\<forall>x. \<not> in_range buff (length cs) x \<longrightarrow> m' x = m x)"
  using parsecmd_loop_parsed [OF assms(1) _ assms(2), of 0] by (auto simp: dbg_parsecmd_def parsed_def)

text \<open>The line \<^verbatim>\<open>x  rsp\<close>.\<close>

definition demo_line :: memory where
  "demo_line = write_bytes (\<lambda>_. 0) 0x1000 [0x78, 0x20, 0x20, 0x72, 0x73, 0x70]"

lemma demo_line_text: "text_is (\<lambda>i. demo_line (0x1000 + i)) [0x78, 0x20, 0x20, 0x72, 0x73, 0x70]"
  by (auto simp: text_is_def demo_line_def nth_Cons' less_Suc_eq)

lemma demo_line_words: "words [0x78, 0x20, 0x20, 0x72, 0x73, 0x70] = [[0x78], [0x72, 0x73, 0x70]]"
  by code_simp

theorem dbg_parsecmd_words_witness:
  "\<exists>argc argv' m'. dbg_parsecmd 0x1000 (replicate 8 0) 8 demo_line = Some (argc, argv', m') \<and> argc = 2 \<and>
    text_is (\<lambda>i. m' (argv' ! 0 + i)) [0x78] \<and> text_is (\<lambda>i. m' (argv' ! 1 + i)) [0x72, 0x73, 0x70] \<and> m' 0x2000 = 0"
proof -
  obtain argc argv' m' where r: "dbg_parsecmd 0x1000 (replicate 8 0) 8 demo_line = Some (argc, argv', m')" "argc = 2"
      "\<forall>k < argc. text_is (\<lambda>i. m' (argv' ! k + i)) ([[0x78], [0x72, 0x73, 0x70]] ! k)"
      "\<forall>x. \<not> in_range 0x1000 6 x \<longrightarrow> m' x = demo_line x"
    using dbg_parsecmd_words [OF demo_line_text, of 8 "replicate 8 0"] by (auto simp: demo_line_words eval_nat_numeral)
  have "\<not> in_range 0x1000 6 (0x2000 :: u64)" "demo_line 0x2000 = 0" by (simp_all add: in_range_def demo_line_def)
  then have "m' 0x2000 = 0" using r(4) by simp
  moreover have "0 < argc" "1 < argc" using r(2) by simp_all
  then have "mtext m' (argv' ! 0) ([[0x78], [0x72, 0x73, 0x70]] ! 0)" "mtext m' (argv' ! 1) ([[0x78], [0x72, 0x73, 0x70]] ! 1)" using r(3) by blast+
  ultimately show ?thesis using r(1,2) by simp
qed

section \<open>Numbers\<close>

abbreviation digit :: "u8 \<Rightarrow> bool" where
  "digit c \<equiv> dbg_isdigit (scast c)"

lemma text_Cons:
  assumes "text_is (\<lambda>i. t (p + i)) (c # cs)"
  shows "t p = c" "c \<noteq> 0" "text_is (\<lambda>i. t (p + 1 + i)) cs"
  using text_char_at [OF assms, of 0] text_nonzero [OF assms, of c] text_drop [OF assms, of 1] by (simp_all add: char_at_def)

lemma text_end: "text_is (\<lambda>i. t (p + i)) [] \<Longrightarrow> t p = 0"
  by (simp add: text_is_def)

lemma atol_hex_text:
  assumes "text_is (\<lambda>i. t (p + i)) ds" "\<forall>d \<in> set ds. atol_digit d \<noteq> None"
  shows "atol_hex t p n = Some (foldl (\<lambda>n d. n * 16 + the (atol_digit d)) n ds)"
  using assms
proof (induction ds arbitrary: p n)
  case Nil
  then show ?case using text_end by (subst atol_hex.simps) simp
next
  case (Cons d ds)
  then show ?case using text_Cons [OF Cons.prems(1)] by (subst atol_hex.simps) auto
qed

lemma atol_dec_text:
  assumes "text_is (\<lambda>i. t (p + i)) ds" "\<forall>d \<in> set ds. digit d"
  shows "atol_dec t p n = Some (foldl (\<lambda>n d. 10 * n - (ucast d - 0x30)) n ds)"
  using assms
proof (induction ds arbitrary: p n)
  case Nil
  then have "t p = 0" by (intro text_end) simp
  then show ?case by (subst atol_dec.simps) (simp add: dbg_isdigit_def)
next
  case (Cons d ds)
  then show ?case using text_Cons [OF Cons.prems(1)] by (subst atol_dec.simps) simp
qed

lemma atol_digit_hex: "k < 16 \<Longrightarrow> atol_digit (hexDigits ! k) = Some (of_nat k)"
proof -
  have "list_all (\<lambda>k. atol_digit (hexDigits ! k) = Some (of_nat k)) [0..<16]" by code_simp
  then show "k < 16 \<Longrightarrow> atol_digit (hexDigits ! k) = Some (of_nat k)" by (simp add: list_all_iff)
qed

lemma digit_dec:
  "k < 10 \<Longrightarrow> digit (48 + of_nat k) \<and> (ucast (48 + of_nat k :: u8) :: u64) = 0x30 + of_nat k \<and>
   (48 + of_nat k :: u8) \<notin> {0x2D, 0x2B, 0x78, 0x58} \<and> \<not> space (48 + of_nat k)"
proof -
  have "list_all (\<lambda>k. digit (48 + of_nat k) \<and> (ucast (48 + of_nat k :: u8) :: u64) = 0x30 + of_nat k \<and>
      (48 + of_nat k :: u8) \<notin> {0x2D, 0x2B, 0x78, 0x58} \<and> \<not> space (48 + of_nat k)) [0..<10]" by code_simp
  then show "k < 10 \<Longrightarrow> ?thesis" by (simp add: list_all_iff)
qed

lemma show_hex_Suc: "show_hex (Suc n) x = show_hex n (x div 16) @ [hexDigits ! (x mod 16)]"
proof (rule nth_equalityI)
  fix j assume "j < length (show_hex (Suc n) x)"
  then show "show_hex (Suc n) x ! j = (show_hex n (x div 16) @ [hexDigits ! (x mod 16)]) ! j"
  proof (cases "j < n")
    case True
    then have "n - j = Suc (n - Suc j)" by simp
    then have "x div 16 ^ (n - j) = x div 16 div 16 ^ (n - Suc j)" by (simp add: div_mult2_eq)
    then show ?thesis using True by (simp add: show_hex_def nth_append)
  qed (use \<open>j < length (show_hex (Suc n) x)\<close> in \<open>auto simp: show_hex_def nth_append less_Suc_eq\<close>)
qed simp

lemma fold_show_hex:
  "\<forall>d \<in> set (show_hex n x). atol_digit d \<noteq> None"
  "foldl (\<lambda>n d. n * 16 + the (atol_digit d)) 0 (show_hex n x) = of_nat (x mod 16 ^ n)"
proof (induction n arbitrary: x)
  case (Suc n)
  {
    case 1
    then show ?case using Suc(1) by (simp add: show_hex_Suc atol_digit_hex)
  next
    case 2
    have "x mod 16 ^ Suc n = (x div 16 mod 16 ^ n) * 16 + x mod 16" by (simp add: mod_mult2_eq)
    then show ?case using Suc(2) [of "x div 16"] by (simp add: show_hex_Suc atol_digit_hex)
  }
qed (simp_all add: show_hex_def)

lemma show_nat_digits: "\<forall>d \<in> set (show_nat n). \<exists>k < 10. d = 48 + of_nat k"
proof (induction n rule: less_induct)
  case (less n)
  show ?case
  proof (cases "n < 10")
    case False
    then have "\<forall>d \<in> set (show_nat (n div 10)). \<exists>k < 10. d = 48 + of_nat k" by (intro less) simp
    moreover have "\<exists>k < 10. (48 + of_nat (n mod 10) :: u8) = 48 + of_nat k" by (rule exI [of _ "n mod 10"]) simp
    ultimately show ?thesis using False by (simp add: show_nat_big)
  qed (auto simp: show_nat_small)
qed

lemma fold_show_nat: "foldl (\<lambda>n d. 10 * n - (ucast d - 0x30)) 0 (show_nat n) = (- of_nat n :: u64)"
proof (induction n rule: less_induct)
  case (less n)
  show ?case
  proof (cases "n < 10")
    case True
    then show ?thesis using digit_dec [OF True] by (simp add: show_nat_small)
  next
    case False
    then have IH: "foldl (\<lambda>n d. 10 * n - (ucast d - 0x30)) 0 (show_nat (n div 10)) = (- of_nat (n div 10) :: u64)" by (intro less) simp
    have "(of_nat n :: u64) = 10 * of_nat (n div 10) + of_nat (n mod 10)"
      by (metis mult_div_mod_eq of_nat_add of_nat_mult of_nat_numeral)
    then show ?thesis using IH False digit_dec [of "n mod 10"] by (simp add: show_nat_big)
  qed
qed

lemma no_spaces: "\<not> space (t 0) \<Longrightarrow> scan_while (\<lambda>i. space (t i)) 0 = Some 0"
  by (subst scan_while.simps) simp

lemma atol_hex_input:
  assumes "text_is t ([0x30, 0x78] @ show_hex 16 (unat v))"
  shows "dbg_atol t = Some v"
proof -
  have t: "text_is (\<lambda>i. t (0 + i)) (0x30 # 0x78 # show_hex 16 (unat v))" using assms by simp
  note t1 = text_Cons [OF text_Cons(3) [OF t]]
  have "atol_hex t 2 0 = Some (of_nat (unat v mod 16 ^ 16))"
    using atol_hex_text [of t 2 "show_hex 16 (unat v)" 0] t1(3) fold_show_hex [of 16 "unat v"] by simp
  moreover have "of_nat (unat v mod 16 ^ 16) = v" by simp
  moreover have "t 0 = 0x30" "t 1 = 0x78" using text_Cons(1) [OF t] t1(1) by simp_all
  moreover have "\<not> space 0x30" by (simp add: dbg_isspace_def)
  ultimately show ?thesis using no_spaces [of t] by (simp add: dbg_atol_def Let_def)
qed

text \<open>Decimal digits from offset \<open>p\<close> on are not taken for a sign or the start of a hexadecimal number.\<close>

lemma atol_dec_input:
  assumes "text_is (\<lambda>i. t (p + i)) (show_nat n)"
  shows "atol_dec t p 0 = Some (- of_nat n)" "t p \<notin> {0x2D, 0x2B}" "\<not> space (t p)" "t (p + 1) \<noteq> 0x78" "t (p + 1) \<noteq> 0x58"
proof -
  have d: "digit d \<and> d \<notin> {0x2D, 0x2B, 0x78, 0x58} \<and> \<not> space d" if m: "d \<in> set (show_nat n)" for d
  proof -
    obtain k where "k < 10" "d = 48 + of_nat k" using show_nat_digits [of n] m by blast
    then show ?thesis using digit_dec [of k] by (metis (no_types, lifting))
  qed
  then have "\<forall>d \<in> set (show_nat n). digit d" by blast
  then show "atol_dec t p 0 = Some (- of_nat n)" by (simp only: atol_dec_text [OF assms] fold_show_nat)
  obtain c cs where cs: "show_nat n = c # cs" using length_show_nat_pos [of n] by (cases "show_nat n") auto
  note t = text_Cons [OF assms [unfolded cs]]
  show "t p \<notin> {0x2D, 0x2B}" "\<not> space (t p)" using d [of c] cs t(1) by auto
  have "t (p + 1) = 0 \<or> t (p + 1) \<in> set (show_nat n)"
    using text_end [of t "p + 1"] text_Cons(1) [of t "p + 1"] t(3) cs by (cases cs) auto
  then show "t (p + 1) \<noteq> 0x78" "t (p + 1) \<noteq> 0x58" using d by auto
qed

lemma atol_int_input:
  assumes "text_is t (show_int (sint v))"
  shows "dbg_atol t = Some v"
proof (cases "sint v < 0")
  case True
  then have t: "text_is (\<lambda>i. t (0 + i)) (0x2D # show_nat (nat (- sint v)))" using assms by (simp add: show_int_def)
  have minus: "t 0 = 0x2D" using text_Cons(1) [OF t] by simp
  note d = atol_dec_input [of t 1, OF text_Cons(3) [OF t, simplified]]
  have "(- of_nat (nat (- sint v)) :: u64) = of_int (sint v)" using True by (simp add: of_nat_nat)
  moreover have "\<not> space 0x2D" by (simp add: dbg_isspace_def)
  ultimately show ?thesis using d minus no_spaces [of t] by (simp add: dbg_atol_def Let_def)
next
  case False
  then have t: "text_is (\<lambda>i. t (0 + i)) (show_nat (nat (sint v)))" using assms by (simp add: show_int_def)
  note d = atol_dec_input [OF t]
  have "(of_nat (nat (sint v)) :: u64) = v" using False by (simp add: of_nat_nat)
  then show ?thesis using d no_spaces [of t] by (simp add: dbg_atol_def Let_def)
qed

text \<open>
  C32: \<^verbatim>\<open>dbg_atol\<close> reads back what the debugger prints: the sixteen hexadecimal digits of a value after \<^verbatim>\<open>0x\<close>, as \<^verbatim>\<open>%lx\<close> gives them, and its signed decimal
  form, as \<^verbatim>\<open>%ld\<close> gives it, the least value included.
\<close>

theorem dbg_atol_roundtrip:
  assumes "text_is t ([0x30, 0x78] @ show_hex 16 (unat v)) \<or> text_is t (show_int (sint v))"
  shows "dbg_atol t = Some v"
  using assms atol_hex_input atol_int_input by blast

theorem dbg_atol_roundtrip_witness: "dbg_atol (\<lambda>i. [0x2D, 0x34, 0x32, 0] ! unat i) = Some (- 42)"
proof -
  have "show_int (sint (- 42 :: u64)) = [0x2D, 0x34, 0x32]" by code_simp
  then have "text_is (\<lambda>i. [0x2D, 0x34, 0x32, 0] ! unat i) (show_int (sint (- 42 :: u64)))"
    by (auto simp: text_is_def nth_Cons' less_Suc_eq unat_of_nat)
  then show ?thesis by (intro dbg_atol_roundtrip) blast
qed

text \<open>
  \<^verbatim>\<open>dbg_strncmp\<close> looks at one character more than it should: with \<^verbatim>\<open>num\<close> 0 it still compares the first characters.
\<close>

theorem dbg_strncmp_one_too_many:
  assumes "str1 0 \<noteq> str2 0"
  shows "dbg_strncmp str1 str2 0 = Some (strcmp_res (str1 0) (str2 0))"
  using assms by (simp add: dbg_strncmp_def) (subst scan_while.simps, simp)

section \<open>What the line editor does\<close>

abbreviation erase :: "u8 \<Rightarrow> bool" where
  "erase c \<equiv> c = 0x08 \<or> c = 0x7F"

primrec edit :: "u8 list \<Rightarrow> u8 list \<Rightarrow> u8 list" where
  "edit [] acc = acc"
| "edit (c # cs) acc = edit cs (if erase c then butlast acc else acc @ [c])"

text \<open>What appears on the screen: each character, and backspace, blank, backspace for an erased one.\<close>

primrec echo :: "u8 list \<Rightarrow> nat \<Rightarrow> u8 list" where
  "echo [] n = []"
| "echo (c # cs) n =
     (if erase c then (if n > 0 then [0x08, 0x20, 0x08] else []) @ echo cs (n - 1) else c # echo cs (Suc n))"

lemma of_nat_less_u64: "n < unat sz \<Longrightarrow> of_nat n < (sz :: u64)"
  using less_2p64_le_unat [of "Suc n" sz] by (simp add: word_less_nat_alt unat_of_nat_u64)

lemma read_bytes_snoc: "read_bytes m a (Suc n) = read_bytes m a n @ [m (a + of_nat n)]"
  using read_bytes_add [of m a n 1] by simp

lemma read_bytes_upd_beyond:
  assumes "n \<le> k" "k < 2 ^ 64"
  shows "read_bytes (m(a + of_nat k := c)) a n = read_bytes m a n"
proof (rule read_bytes_cong)
  fix i assume "i < n"
  then have "(of_nat i :: u64) \<noteq> of_nat k" using assms of_nat_u64_inj [of i k] by simp
  then show "(m(a + of_nat k := c)) (a + of_nat i) = m (a + of_nat i)" by simp
qed

text \<open>
  \<open>got\<close>: the result of the loop when it has read a line that ends with \<open>acc\<close> in the buffer: \<open>out\<close> was sent meanwhile, and
  \<open>rest\<close> is left to read.
\<close>

definition got :: "('h \<Rightarrow> uart) \<Rightarrow> ('h \<Rightarrow> u8 list) \<Rightarrow> addr \<Rightarrow> nat \<Rightarrow> memory \<Rightarrow> 'h serial \<Rightarrow> u8 list \<Rightarrow> u8 list \<Rightarrow> u8 list \<Rightarrow>
    u64 \<times> memory \<times> 'h serial \<Rightarrow> bool" where
  "got u line cmd sz m s acc out rest r \<longleftrightarrow> (case r of (n, m', s') \<Rightarrow>
     n = of_nat (length acc + 1) \<and> read_bytes m' cmd (length acc + 1) = acc @ [0] \<and>
     (\<forall>x. \<not> in_range cmd sz x \<longrightarrow> m' x = m x) \<and> line (hw s') = rest \<and>
     dbg_serial_initialized s' \<and> serial_inv u s' \<and> u_sent (u (hw s')) = u_sent (u (hw s)) @ out)"

lemma got_mono:
  assumes "got u line cmd sz m1 s1 acc out rest r" "u_sent (u (hw s1)) = u_sent (u (hw s)) @ out1"
    "\<And>x. \<not> in_range cmd sz x \<Longrightarrow> m1 x = m x"
  shows "got u line cmd sz m s acc (out1 @ out) rest r"
  using assms by (auto simp: got_def)

lemma getcmd_end:
  assumes dev: "is_16550 io u busy" "receives io u line quiet" and s: "serial_inv u s" "dbg_serial_initialized s"
    and line: "line (hw s) = e # rest" "e = 0x0A \<or> e = 0x0D"
    and acc: "read_bytes m cmd (length acc) = acc" "length acc < unat sz"
  shows "\<exists>r. getcmd_loop io cmd sz (of_nat (length acc)) m s = Some r \<and> got u line cmd (unat sz) m s acc [0x0D, 0x0A] rest r"
proof -
  obtain s1 where s1: "dbg_serial_getc io s = Some (e, s1)" "dbg_serial_initialized s1" "serial_inv u s1" "u (hw s1) = u (hw s)"
      "line (hw s1) = rest"
    using getc_step [OF dev s line(1)] by blast
  obtain s2 where s2: "dbg_serial_putc io 0x0A s1 = Some s2" "dbg_serial_initialized s2" "serial_inv u s2"
      "u_sent (u (hw s2)) = u_sent (u (hw s1)) @ on_line 0x0A" "line (hw s2) = line (hw s1)"
    using putc_ready [OF dev s1(3,2)] by blast
  have len: "length acc < 2 ^ 64" using acc(2) less_2p64_le_unat [of "Suc (length acc)" sz] by simp
  have "in_range cmd (unat sz) (cmd + of_nat (length acc))" using acc(2) by (intro in_range_offset) simp_all
  moreover have "read_bytes (m(cmd + of_nat (length acc) := 0)) cmd (Suc (length acc)) = acc @ [0]"
    using acc(1) len by (simp add: read_bytes_snoc read_bytes_upd_beyond del: read_bytes.simps)
  ultimately show ?thesis
    using s1 s2 line(2) of_nat_less_u64 [OF acc(2)]
    by (subst getcmd_loop.simps) (auto simp: got_def on_line_def Let_def simp del: read_bytes.simps)
qed

lemma getcmd_char:
  assumes dev: "is_16550 io u busy" "receives io u line quiet" and s: "serial_inv u s" "dbg_serial_initialized s"
    and line: "line (hw s) = c # rest" "\<not> erase c" "c \<noteq> 0x0A" "c \<noteq> 0x0D" and n: "n < unat sz"
  obtains s' where "getcmd_loop io cmd sz (of_nat n) m s = getcmd_loop io cmd sz (of_nat (Suc n)) (m(cmd + of_nat n := c)) s'"
    "dbg_serial_initialized s'" "serial_inv u s'" "line (hw s') = rest" "u_sent (u (hw s')) = u_sent (u (hw s)) @ [c]"
proof -
  obtain s1 where s1: "dbg_serial_getc io s = Some (c, s1)" "dbg_serial_initialized s1" "serial_inv u s1" "u (hw s1) = u (hw s)"
      "line (hw s1) = rest"
    using getc_step [OF dev s line(1)] by blast
  obtain s2 where s2: "dbg_serial_putc io c s1 = Some s2" "dbg_serial_initialized s2" "serial_inv u s2"
      "u_sent (u (hw s2)) = u_sent (u (hw s1)) @ on_line c" "line (hw s2) = line (hw s1)"
    using putc_ready [OF dev s1(3,2)] by blast
  have "getcmd_loop io cmd sz (of_nat n) m s = getcmd_loop io cmd sz (of_nat (Suc n)) (m(cmd + of_nat n := c)) s2"
    using s1 s2 line(2-4) of_nat_less_u64 [OF n] by (subst getcmd_loop.simps) (simp add: Let_def add.commute)
  then show thesis using that s1 s2 line(3) by (simp add: on_line_def)
qed

lemma getcmd_erase:
  assumes dev: "is_16550 io u busy" "receives io u line quiet" and s: "serial_inv u s" "dbg_serial_initialized s"
    and line: "line (hw s) = c # rest" "erase c" and n: "n < unat sz"
  obtains s' where "getcmd_loop io cmd sz (of_nat n) m s = getcmd_loop io cmd sz (of_nat (n - 1)) m s'"
    "dbg_serial_initialized s'" "serial_inv u s'" "line (hw s') = rest"
    "u_sent (u (hw s')) = u_sent (u (hw s)) @ (if n > 0 then [0x08, 0x20, 0x08] else [])"
proof -
  obtain s1 where s1: "dbg_serial_getc io s = Some (c, s1)" "dbg_serial_initialized s1" "serial_inv u s1" "u (hw s1) = u (hw s)"
      "line (hw s1) = rest"
    using getc_step [OF dev s line(1)] by blast
  obtain s2 where s2: "dbg_serial_putc io 0x08 s1 = Some s2" "dbg_serial_initialized s2" "serial_inv u s2"
      "u_sent (u (hw s2)) = u_sent (u (hw s1)) @ on_line 0x08" "line (hw s2) = line (hw s1)"
    using putc_ready [OF dev s1(3,2)] by blast
  obtain s3 where s3: "dbg_serial_putc io 0x20 s2 = Some s3" "dbg_serial_initialized s3" "serial_inv u s3"
      "u_sent (u (hw s3)) = u_sent (u (hw s2)) @ on_line 0x20" "line (hw s3) = line (hw s2)"
    using putc_ready [OF dev s2(3,2)] by blast
  obtain s4 where s4: "dbg_serial_putc io 0x08 s3 = Some s4" "dbg_serial_initialized s4" "serial_inv u s4"
      "u_sent (u (hw s4)) = u_sent (u (hw s3)) @ on_line 0x08" "line (hw s4) = line (hw s3)"
    using putc_ready [OF dev s3(3,2)] by blast
  have n64: "n < 2 ^ 64" using n less_2p64_le_unat [of "Suc n" sz] by simp
  note lt = of_nat_less_u64 [OF n]
  show thesis
  proof (cases n)
    case 0
    then have "getcmd_loop io cmd sz (of_nat n) m s = getcmd_loop io cmd sz (of_nat (n - 1)) m s1"
      using s1 line(2) lt by (subst getcmd_loop.simps) (simp add: Let_def)
    then show thesis using that s1 0 by simp
  next
    case (Suc k)
    have "(of_nat n :: u64) \<noteq> 0" using n64 Suc of_nat_u64_inj [of n 0] by simp
    moreover have "(of_nat n :: u64) - 1 = of_nat (n - 1)" using Suc by simp
    ultimately have "getcmd_loop io cmd sz (of_nat n) m s = getcmd_loop io cmd sz (of_nat (n - 1)) m s4"
      using s1 s2 s3 s4 line(2) lt by (subst getcmd_loop.simps) (simp add: Let_def word_gt_0)
    then show thesis using that s1 s2 s3 s4 Suc by (simp add: on_line_def)
  qed
qed

lemma getcmd_line:
  assumes dev: "is_16550 io u busy" "receives io u line quiet" and s: "serial_inv u s" "dbg_serial_initialized s"
    and line: "line (hw s) = ts @ e # rest" "e = 0x0A \<or> e = 0x0D" "\<forall>c \<in> set ts. c \<noteq> 0x0A \<and> c \<noteq> 0x0D"
    and acc: "read_bytes m cmd (length acc) = acc" "length acc + length ts < unat sz"
  shows "\<exists>r. getcmd_loop io cmd sz (of_nat (length acc)) m s = Some r \<and>
    got u line cmd (unat sz) m s (edit ts acc) (echo ts (length acc) @ [0x0D, 0x0A]) rest r"
  using s line(1,3) acc
proof (induction ts arbitrary: acc m s)
  case Nil
  then show ?case using getcmd_end [OF dev Nil(1,2) _ line(2)] by simp
next
  case (Cons c ts)
  have n: "length acc < unat sz" and l: "line (hw s) = c # ts @ e # rest" "c \<noteq> 0x0A" "c \<noteq> 0x0D"
    using Cons.prems(3,4,6) by simp_all
  show ?case
  proof (cases "erase c")
    case True
    obtain s1 where s1: "getcmd_loop io cmd sz (of_nat (length acc)) m s = getcmd_loop io cmd sz (of_nat (length acc - 1)) m s1"
        "dbg_serial_initialized s1" "serial_inv u s1" "line (hw s1) = ts @ e # rest"
        "u_sent (u (hw s1)) = u_sent (u (hw s)) @ (if length acc > 0 then [0x08, 0x20, 0x08] else [])"
      using getcmd_erase [OF dev Cons.prems(1,2) l(1) True n] by blast
    have "read_bytes m cmd (length (butlast acc)) = butlast acc"
      using Cons.prems(5) read_bytes_snoc [of m cmd "length acc - 1"] by (cases acc rule: rev_cases) simp_all
    moreover have "length (butlast acc) + length ts < unat sz" using Cons.prems(6) by simp
    ultimately obtain r where r: "getcmd_loop io cmd sz (of_nat (length acc - 1)) m s1 = Some r"
        "got u line cmd (unat sz) m s1 (edit ts (butlast acc)) (echo ts (length acc - 1) @ [0x0D, 0x0A]) rest r"
      using Cons.IH [OF s1(3,2,4), of m "butlast acc"] Cons.prems(4) by auto
    have "got u line cmd (unat sz) m s (edit (c # ts) acc) (echo (c # ts) (length acc) @ [0x0D, 0x0A]) rest r"
      using got_mono [OF r(2) s1(5), of m] True by simp
    then show ?thesis using r(1) s1(1) by auto
  next
    case False
    let ?m = "m(cmd + of_nat (length acc) := c)"
    obtain s1 where s1: "getcmd_loop io cmd sz (of_nat (length acc)) m s = getcmd_loop io cmd sz (of_nat (Suc (length acc))) ?m s1"
        "dbg_serial_initialized s1" "serial_inv u s1" "line (hw s1) = ts @ e # rest"
        "u_sent (u (hw s1)) = u_sent (u (hw s)) @ [c]"
      using getcmd_char [OF dev Cons.prems(1,2) l(1) False l(2,3) n] by blast
    have "length acc < 2 ^ 64" using n less_2p64_le_unat [of "Suc (length acc)" sz] by simp
    then have "read_bytes ?m cmd (length (acc @ [c])) = acc @ [c]"
      using Cons.prems(5) by (simp add: read_bytes_snoc read_bytes_upd_beyond del: read_bytes.simps)
    then have "\<exists>r. getcmd_loop io cmd sz (of_nat (length (acc @ [c]))) ?m s1 = Some r \<and>
        got u line cmd (unat sz) ?m s1 (edit ts (acc @ [c])) (echo ts (length (acc @ [c])) @ [0x0D, 0x0A]) rest r"
      by (rule Cons.IH [OF s1(3,2,4), rotated]) (use Cons.prems(4,6) in simp_all)
    then obtain r where r: "getcmd_loop io cmd sz (of_nat (Suc (length acc))) ?m s1 = Some r"
        "got u line cmd (unat sz) ?m s1 (edit ts (acc @ [c])) (echo ts (Suc (length acc)) @ [0x0D, 0x0A]) rest r"
      unfolding length_append_singleton by blast
    have "?m x = m x" if "\<not> in_range cmd (unat sz) x" for x using that in_range_offset [OF n, of cmd] by auto
    then have "got u line cmd (unat sz) m s (edit (c # ts) acc) (echo (c # ts) (length acc) @ [0x0D, 0x0A]) rest r"
      using got_mono [OF r(2) s1(5), of m] False by simp
    then show ?thesis using r(1) s1(1) by auto
  qed
qed

text \<open>
  C29: when a line shorter than the buffer is typed and ended by a carriage return or a line feed, \<^verbatim>\<open>dbg_getcmd\<close> returns with the edited line,
  NUL-terminated, in the buffer and its length with the NUL as the size.  It has echoed the line and read nothing more.
\<close>

theorem dbg_getcmd_line:
  assumes "is_16550 io u busy" "receives io u line quiet" "serial_inv u s" "dbg_serial_initialized s"
    "line (hw s) = ts @ e # rest" "e = 0x0A \<or> e = 0x0D" "\<forall>c \<in> set ts. c \<noteq> 0x0A \<and> c \<noteq> 0x0D" "length ts < unat sz"
  shows "\<exists>m' s'. dbg_getcmd io cmd sz m s = Some (of_nat (length (edit ts []) + 1), m', s') \<and>
    read_bytes m' cmd (length (edit ts []) + 1) = edit ts [] @ [0] \<and> (\<forall>x. \<not> in_range cmd (unat sz) x \<longrightarrow> m' x = m x) \<and>
    line (hw s') = rest \<and> u_sent (u (hw s')) = u_sent (u (hw s)) @ echo ts 0 @ [0x0D, 0x0A]"
  using getcmd_line [OF assms(1-7), of m cmd "[]" sz] assms(8) by (auto simp: dbg_getcmd_def got_def)

text \<open>Typed: \<^verbatim>\<open>cx\<close>, backspace, return.\<close>

definition demo_ready :: "u8 list \<Rightarrow> demo_hw serial" where
  "demo_ready input = (demo_serial input)\<lparr>dbg_serial_initialized := True\<rparr>"

lemma demo_ready [simp]: "serial_inv fst (demo_ready input)" "dbg_serial_initialized (demo_ready input)"
    "snd (snd (hw (demo_ready input))) = input"
  by (simp_all add: demo_ready_def demo_serial_def serial_inv_def)

theorem dbg_getcmd_line_witness:
  "\<exists>m' s'. dbg_getcmd demo_ports 0x1000 256 (\<lambda>_. 1) (demo_ready [0x63, 0x78, 0x08, 0x0D]) = Some (2, m', s') \<and>
    read_bytes m' 0x1000 2 = [0x63, 0] \<and> snd (snd (hw s')) = [] \<and>
    u_sent (fst (hw s')) = u_sent (fst (hw (demo_ready [0x63, 0x78, 0x08, 0x0D]))) @ [0x63, 0x78, 0x08, 0x20, 0x08, 0x0D, 0x0A]"
  using dbg_getcmd_line [OF demo_16550 demo_receives, of "demo_ready [0x63, 0x78, 0x08, 0x0D]" "[0x63, 0x78, 0x08]" "0x0D" "[]" 256 "0x1000" "\<lambda>_. 1"]
  by (auto simp del: read_bytes.simps simp add: numeral_2_eq_2 [symmetric])

end
