(* ===== verification/Disasm_Tables.thy ===== *)
theory Disasm_Tables
  imports Prelude
begin

text \<open>
  The instruction tables of the debugger's disassembler, \<^verbatim>\<open>arch/x86_64/debug/disasm.h\<close>: operand modes, mnemonics
  and operand sizes of the one-byte opcodes, of the two-byte opcodes after \<^verbatim>\<open>0F\<close>, and of the opcode groups.

  A mode word packs up to three operand kinds, one per byte, and is read from its lowest byte on;
  here it is the list of the kinds in that order.  The flag \<^verbatim>\<open>DA_MODRM\<close> of a size is a Boolean of its own.  A \<^verbatim>\<open>NULL\<close> name is
  \<open>None\<close>, and \<^verbatim>\<open>ext\<close> is nothing, a string, a table of names or one of the descriptor tables.  The
  descriptor tables of the floating-point escapes and the tables that no entry points to are never read and left out.
\<close>

datatype operand =
    DA_E | DA_EInd | DA_Ew | DA_Eb | DA_R | DA_Rw | DA_Ri | DA_S
  | DA_Si | DA_A | DA_BX | DA_CL | DA_DX | DA_SI | DA_DI | DA_CR
  | DA_DR | DA_TR | DA_I | DA_Is | DA_Ib | DA_Ibs | DA_Iw | DA_Iq
  | DA_O | DA_Db | DA_Dl | DA_o1 | DA_o3 | DA_OS | DA_ST | DA_STI
  | DA_X | DA_XA | DA_Ril | DA_Iba | DA_ME | DA_Rq

abbreviation (input) DA_BYTE :: nat where "DA_BYTE \<equiv> 0"
abbreviation (input) DA_WORD :: nat where "DA_WORD \<equiv> 1"
abbreviation (input) DA_LONG :: nat where "DA_LONG \<equiv> 2"
abbreviation (input) DA_QUAD :: nat where "DA_QUAD \<equiv> 3"
abbreviation (input) DA_SNGL :: nat where "DA_SNGL \<equiv> 4"
abbreviation (input) DA_DBLR :: nat where "DA_DBLR \<equiv> 5"
abbreviation (input) DA_EXTR :: nat where "DA_EXTR \<equiv> 6"
abbreviation (input) DA_SDEP :: nat where "DA_SDEP \<equiv> 7"
abbreviation (input) DA_NONE :: nat where "DA_NONE \<equiv> 8"

abbreviation (input) DA2_A_Ri :: "operand list" where "DA2_A_Ri \<equiv> [DA_Ri, DA_A]"
abbreviation (input) DA2_I_Ri :: "operand list" where "DA2_I_Ri \<equiv> [DA_Ri, DA_I]"
abbreviation (input) DA2_Ib_Ri :: "operand list" where "DA2_Ib_Ri \<equiv> [DA_Ri, DA_Ib]"
abbreviation (input) DA2_Iq_Ri :: "operand list" where "DA2_Iq_Ri \<equiv> [DA_Ri, DA_Iq]"
abbreviation (input) DA2_Iq_Ib :: "operand list" where "DA2_Iq_Ib \<equiv> [DA_Ib, DA_Iq]"
abbreviation (input) DA2_E_R :: "operand list" where "DA2_E_R \<equiv> [DA_R, DA_E]"
abbreviation (input) DA2_E_A :: "operand list" where "DA2_E_A \<equiv> [DA_A, DA_E]"
abbreviation (input) DA2_O_A :: "operand list" where "DA2_O_A \<equiv> [DA_A, DA_O]"
abbreviation (input) DA2_A_O :: "operand list" where "DA2_A_O \<equiv> [DA_O, DA_A]"
abbreviation (input) DA2_Eb_R :: "operand list" where "DA2_Eb_R \<equiv> [DA_R, DA_Eb]"
abbreviation (input) DA2_Ew_R :: "operand list" where "DA2_Ew_R \<equiv> [DA_R, DA_Ew]"
abbreviation (input) DA2_Ei_R :: "operand list" where "DA2_Ei_R \<equiv> [DA_R, DA_EInd]"
abbreviation (input) DA2_CL_E :: "operand list" where "DA2_CL_E \<equiv> [DA_E, DA_CL]"
abbreviation (input) DA2_R_E :: "operand list" where "DA2_R_E \<equiv> [DA_E, DA_R]"
abbreviation (input) DA2_R_I :: "operand list" where "DA2_R_I \<equiv> [DA_I, DA_R]"
abbreviation (input) DA2_I_E :: "operand list" where "DA2_I_E \<equiv> [DA_E, DA_I]"
abbreviation (input) DA2_Ib_E :: "operand list" where "DA2_Ib_E \<equiv> [DA_E, DA_Ib]"
abbreviation (input) DA2_Iw_E :: "operand list" where "DA2_Iw_E \<equiv> [DA_E, DA_Iw]"
abbreviation (input) DA2_I_EInd :: "operand list" where "DA2_I_EInd \<equiv> [DA_EInd, DA_I]"
abbreviation (input) DA2_I_A :: "operand list" where "DA2_I_A \<equiv> [DA_A, DA_I]"
abbreviation (input) DA2_Ib_A :: "operand list" where "DA2_Ib_A \<equiv> [DA_A, DA_Ib]"
abbreviation (input) DA2_A_Ib :: "operand list" where "DA2_A_Ib \<equiv> [DA_Ib, DA_A]"
abbreviation (input) DA2_DX_A :: "operand list" where "DA2_DX_A \<equiv> [DA_A, DA_DX]"
abbreviation (input) DA2_A_DX :: "operand list" where "DA2_A_DX \<equiv> [DA_DX, DA_A]"
abbreviation (input) DA2_CR_E :: "operand list" where "DA2_CR_E \<equiv> [DA_E, DA_CR]"
abbreviation (input) DA2_DR_E :: "operand list" where "DA2_DR_E \<equiv> [DA_E, DA_DR]"
abbreviation (input) DA2_TR_E :: "operand list" where "DA2_TR_E \<equiv> [DA_E, DA_DR]"
abbreviation (input) DA2_E_CR :: "operand list" where "DA2_E_CR \<equiv> [DA_CR, DA_E]"
abbreviation (input) DA2_E_DR :: "operand list" where "DA2_E_DR \<equiv> [DA_DR, DA_E]"
abbreviation (input) DA2_E_TR :: "operand list" where "DA2_E_TR \<equiv> [DA_TR, DA_E]"
abbreviation (input) DA2_S_Ew :: "operand list" where "DA2_S_Ew \<equiv> [DA_Ew, DA_S]"
abbreviation (input) DA2_Ew_S :: "operand list" where "DA2_Ew_S \<equiv> [DA_S, DA_Ew]"
abbreviation (input) DA2_STI_ST :: "operand list" where "DA2_STI_ST \<equiv> [DA_ST, DA_STI]"
abbreviation (input) DA2_ST_STI :: "operand list" where "DA2_ST_STI \<equiv> [DA_STI, DA_ST]"
abbreviation (input) DA2_SI_DI :: "operand list" where "DA2_SI_DI \<equiv> [DA_DI, DA_SI]"
abbreviation (input) DA2_DX_DI :: "operand list" where "DA2_DX_DI \<equiv> [DA_DI, DA_DX]"
abbreviation (input) DA2_SI_DX :: "operand list" where "DA2_SI_DX \<equiv> [DA_DX, DA_SI]"
abbreviation (input) DA2_o1_E :: "operand list" where "DA2_o1_E \<equiv> [DA_E, DA_o1]"
abbreviation (input) DA3_Ib_R_E :: "operand list" where "DA3_Ib_R_E \<equiv> [DA_E, DA_R, DA_Ib]"
abbreviation (input) DA3_CL_R_E :: "operand list" where "DA3_CL_R_E \<equiv> [DA_E, DA_R, DA_CL]"
abbreviation (input) DA3_Ib_E_R :: "operand list" where "DA3_Ib_E_R \<equiv> [DA_R, DA_E, DA_Ib]"
abbreviation (input) DA3_CL_E_R :: "operand list" where "DA3_CL_E_R \<equiv> [DA_R, DA_E, DA_CL]"
abbreviation (input) DA3_I_E_R :: "operand list" where "DA3_I_E_R \<equiv> [DA_R, DA_E, DA_I]"

datatype group = grp3 | grp4 | grp5 | grp7 | esc8 | esc9 | esca | escb | escc | escd | esce | escf

datatype ext = Ext0 | ExtStr string | ExtNames "string list" | ExtGrp group

datatype instdesc = Inst (inst_name: "string option") (inst_size: nat) (inst_modrm: bool) (inst_mode: "operand list") (inst_ext: ext)

definition grp1 :: "string list" where
  "grp1 = [''add'', ''or'', ''adc'', ''sbb'', ''and'', ''sub'', ''xor'', ''cmp'']"

definition grp2 :: "string list" where
  "grp2 = [''rol'', ''ror'', ''rcl'', ''rcr'', ''shl'', ''shr'', ''sal'', ''sar'']"

definition grp6 :: "string list" where
  "grp6 = [''sldt'', ''str'', ''lldt'', ''ltr'', ''verr'', ''verw'', [], []]"

definition inst0f00 :: "string list" where
  "inst0f00 = [''invplg'', ''swapgs'', ''rdtscp'', [], [], [], [], []]"

definition grp8 :: "string list" where
  "grp8 = [[], [], [], [], ''bt'', ''bts'', ''btr'', ''btc'']"

definition grp9 :: "string list" where
  "grp9 = [[], ''cmpxchg8b'', [], [], [], [], [], []]"

definition grpB :: "string list" where
  "grpB = [''xstorerng'', ''xcryptecb'', ''xcryptcbc'', [], ''xcryptcfb'', ''xcryptofb'', [], []]"

definition inst0f71 :: "string list" where
  "inst0f71 = [[], [], ''psrlw'', [], ''psraw'', [], ''psllw'', []]"

definition grp3_tbl :: "instdesc list" where
  "grp3_tbl = [
    Inst (Some ''test'') DA_NONE True DA2_I_E Ext0,
    Inst (Some ''test'') DA_NONE True DA2_I_E Ext0,
    Inst (Some ''not'') DA_NONE True [DA_E] Ext0,
    Inst (Some ''neg'') DA_NONE True [DA_E] Ext0,
    Inst (Some ''mul'') DA_NONE True DA2_E_A Ext0,
    Inst (Some ''imul'') DA_NONE True DA2_E_A Ext0,
    Inst (Some ''div'') DA_NONE True DA2_E_A Ext0,
    Inst (Some ''idiv'') DA_NONE True DA2_E_A Ext0]"

definition grp4_tbl :: "instdesc list" where
  "grp4_tbl = [
    Inst (Some ''inc'') DA_BYTE True [DA_E] Ext0,
    Inst (Some ''dec'') DA_BYTE True [DA_E] Ext0,
    Inst (Some []) DA_NONE True [] Ext0,
    Inst (Some []) DA_NONE True [] Ext0,
    Inst (Some []) DA_NONE True [] Ext0,
    Inst (Some []) DA_NONE True [] Ext0,
    Inst (Some []) DA_NONE True [] Ext0,
    Inst (Some []) DA_NONE True [] Ext0]"

definition grp5_tbl :: "instdesc list" where
  "grp5_tbl = [
    Inst (Some ''inc'') DA_LONG True [DA_E] Ext0,
    Inst (Some ''dec'') DA_LONG True [DA_E] Ext0,
    Inst (Some ''call'') DA_QUAD True [DA_EInd] Ext0,
    Inst (Some ''lcall'') DA_NONE True [DA_EInd] Ext0,
    Inst (Some ''jmp'') DA_NONE True [DA_EInd] Ext0,
    Inst (Some ''ljmp'') DA_NONE True [DA_EInd] Ext0,
    Inst (Some ''push'') DA_QUAD True [DA_E] Ext0,
    Inst (Some []) DA_NONE True [] Ext0]"

definition grp7_tbl :: "instdesc list" where
  "grp7_tbl = [
    Inst (Some ''sgdt'') DA_QUAD True [DA_ME] Ext0,
    Inst (Some ''sidt'') DA_QUAD True [DA_ME] Ext0,
    Inst (Some ''lgdt'') DA_QUAD True [DA_ME] Ext0,
    Inst (Some ''lidt'') DA_QUAD True [DA_ME] Ext0,
    Inst (Some ''smsw'') DA_NONE True [DA_Rw] Ext0,
    Inst (Some []) DA_NONE True [DA_Rw] Ext0,
    Inst (Some ''lmsw'') DA_NONE True [DA_Rw] Ext0,
    Inst None DA_NONE True [DA_Rw] (ExtNames inst0f00)]"

definition inst0f0 :: "instdesc list" where
  "inst0f0 = [
    Inst None DA_NONE True [DA_Ew] (ExtNames grp6),
    Inst None DA_NONE True [DA_Ew] (ExtGrp grp7),
    Inst (Some ''lar'') DA_LONG True DA2_E_R Ext0,
    Inst (Some ''lsl'') DA_LONG True DA2_E_R Ext0,
    Inst (Some []) DA_NONE False [] Ext0,
    Inst (Some ''syscall'') DA_NONE False [] Ext0,
    Inst (Some ''clts'') DA_NONE False [] Ext0,
    Inst (Some ''sysret'') DA_NONE False [] Ext0,
    Inst (Some ''invd'') DA_NONE False [] Ext0,
    Inst (Some ''wbinvd'') DA_NONE False [] Ext0,
    Inst (Some []) DA_NONE False [] Ext0,
    Inst (Some []) DA_NONE False [] Ext0,
    Inst (Some []) DA_NONE False [] Ext0,
    Inst (Some []) DA_NONE False [] Ext0,
    Inst (Some []) DA_NONE False [] Ext0,
    Inst (Some []) DA_NONE False [] Ext0]"

definition inst0f2 :: "instdesc list" where
  "inst0f2 = [
    Inst (Some ''mov'') DA_LONG True DA2_CR_E Ext0,
    Inst (Some ''mov'') DA_LONG True DA2_DR_E Ext0,
    Inst (Some ''mov'') DA_LONG True DA2_E_CR Ext0,
    Inst (Some ''mov'') DA_LONG True DA2_E_DR Ext0,
    Inst (Some ''mov'') DA_LONG True DA2_TR_E Ext0,
    Inst (Some []) DA_NONE False [] Ext0,
    Inst (Some ''mov'') DA_LONG True DA2_E_TR Ext0,
    Inst (Some []) DA_NONE False [] Ext0,
    Inst (Some []) DA_NONE False [] Ext0,
    Inst (Some []) DA_NONE False [] Ext0,
    Inst (Some []) DA_NONE False [] Ext0,
    Inst (Some []) DA_NONE False [] Ext0,
    Inst (Some []) DA_NONE False [] Ext0,
    Inst (Some []) DA_NONE False [] Ext0,
    Inst (Some []) DA_NONE False [] Ext0,
    Inst (Some []) DA_NONE False [] Ext0]"

definition inst0f3 :: "instdesc list" where
  "inst0f3 = [
    Inst (Some ''wrmsr'') DA_NONE False [] Ext0,
    Inst (Some ''rdtsc'') DA_NONE False [] Ext0,
    Inst (Some ''rdmsr'') DA_NONE False [] Ext0,
    Inst (Some ''rdpmc'') DA_NONE False [] Ext0,
    Inst (Some []) DA_NONE False [] Ext0,
    Inst (Some []) DA_NONE False [] Ext0,
    Inst (Some []) DA_NONE False [] Ext0,
    Inst (Some []) DA_NONE False [] Ext0,
    Inst (Some []) DA_NONE False [] Ext0,
    Inst (Some []) DA_NONE False [] Ext0,
    Inst (Some []) DA_NONE False [] Ext0,
    Inst (Some []) DA_NONE False [] Ext0,
    Inst (Some []) DA_NONE False [] Ext0,
    Inst (Some []) DA_NONE False [] Ext0,
    Inst (Some []) DA_NONE False [] Ext0,
    Inst (Some []) DA_NONE False [] Ext0]"

definition inst0f7 :: "instdesc list" where
  "inst0f7 = [
    Inst (Some []) DA_NONE False [] Ext0,
    Inst None DA_NONE False [] (ExtNames inst0f71),
    Inst (Some []) DA_NONE False [] Ext0,
    Inst (Some []) DA_NONE False [] Ext0,
    Inst (Some []) DA_NONE False [] Ext0,
    Inst (Some []) DA_NONE False [] Ext0,
    Inst (Some []) DA_NONE False [] Ext0,
    Inst (Some []) DA_NONE False [] Ext0,
    Inst (Some []) DA_NONE False [] Ext0,
    Inst (Some []) DA_NONE False [] Ext0,
    Inst (Some []) DA_NONE False [] Ext0,
    Inst (Some []) DA_NONE False [] Ext0,
    Inst (Some []) DA_NONE False [] Ext0,
    Inst (Some []) DA_NONE False [] Ext0,
    Inst (Some []) DA_NONE False [] Ext0,
    Inst (Some []) DA_NONE False [] Ext0,
    Inst (Some []) DA_NONE False [] Ext0]"

definition inst0f8 :: "instdesc list" where
  "inst0f8 = [
    Inst (Some ''jo'') DA_NONE False [DA_Dl] Ext0,
    Inst (Some ''jno'') DA_NONE False [DA_Dl] Ext0,
    Inst (Some ''jb'') DA_NONE False [DA_Dl] Ext0,
    Inst (Some ''jnb'') DA_NONE False [DA_Dl] Ext0,
    Inst (Some ''jz'') DA_NONE False [DA_Dl] Ext0,
    Inst (Some ''jnz'') DA_NONE False [DA_Dl] Ext0,
    Inst (Some ''jbe'') DA_NONE False [DA_Dl] Ext0,
    Inst (Some ''jnbe'') DA_NONE False [DA_Dl] Ext0,
    Inst (Some ''js'') DA_NONE False [DA_Dl] Ext0,
    Inst (Some ''jns'') DA_NONE False [DA_Dl] Ext0,
    Inst (Some ''jp'') DA_NONE False [DA_Dl] Ext0,
    Inst (Some ''jnp'') DA_NONE False [DA_Dl] Ext0,
    Inst (Some ''jl'') DA_NONE False [DA_Dl] Ext0,
    Inst (Some ''jnl'') DA_NONE False [DA_Dl] Ext0,
    Inst (Some ''jle'') DA_NONE False [DA_Dl] Ext0,
    Inst (Some ''jnle'') DA_NONE False [DA_Dl] Ext0]"

definition inst0f9 :: "instdesc list" where
  "inst0f9 = [
    Inst (Some ''seto'') DA_NONE True [DA_Eb] Ext0,
    Inst (Some ''setno'') DA_NONE True [DA_Eb] Ext0,
    Inst (Some ''setb'') DA_NONE True [DA_Eb] Ext0,
    Inst (Some ''setnb'') DA_NONE True [DA_Eb] Ext0,
    Inst (Some ''setz'') DA_NONE True [DA_Eb] Ext0,
    Inst (Some ''setnz'') DA_NONE True [DA_Eb] Ext0,
    Inst (Some ''setbe'') DA_NONE True [DA_Eb] Ext0,
    Inst (Some ''setnbe'') DA_NONE True [DA_Eb] Ext0,
    Inst (Some ''sets'') DA_NONE True [DA_Eb] Ext0,
    Inst (Some ''setns'') DA_NONE True [DA_Eb] Ext0,
    Inst (Some ''setp'') DA_NONE True [DA_Eb] Ext0,
    Inst (Some ''setnp'') DA_NONE True [DA_Eb] Ext0,
    Inst (Some ''setl'') DA_NONE True [DA_Eb] Ext0,
    Inst (Some ''setnl'') DA_NONE True [DA_Eb] Ext0,
    Inst (Some ''setle'') DA_NONE True [DA_Eb] Ext0,
    Inst (Some ''setnle'') DA_NONE True [DA_Eb] Ext0]"

definition inst0fa :: "instdesc list" where
  "inst0fa = [
    Inst (Some ''push'') DA_QUAD False [DA_Si] Ext0,
    Inst (Some ''pop'') DA_QUAD False [DA_Si] Ext0,
    Inst (Some ''cpuid'') DA_NONE False [] Ext0,
    Inst (Some ''bt'') DA_LONG True DA2_R_E Ext0,
    Inst (Some ''shld'') DA_LONG True DA3_Ib_R_E Ext0,
    Inst (Some ''shld'') DA_LONG True DA3_CL_R_E Ext0,
    Inst (Some []) DA_NONE False [] Ext0,
    Inst (Some []) DA_NONE True [] (ExtNames grpB),
    Inst (Some ''push'') DA_QUAD False [DA_Si] Ext0,
    Inst (Some ''pop'') DA_QUAD False [DA_Si] Ext0,
    Inst (Some []) DA_NONE False [] Ext0,
    Inst (Some ''bts'') DA_LONG True DA2_R_E Ext0,
    Inst (Some ''shrd'') DA_LONG True DA3_Ib_R_E Ext0,
    Inst (Some ''shrd'') DA_LONG True DA3_CL_R_E Ext0,
    Inst None DA_NONE True [DA_E] (ExtNames grp9),
    Inst (Some ''imul'') DA_LONG True DA2_E_R Ext0]"

definition inst0fb :: "instdesc list" where
  "inst0fb = [
    Inst (Some ''cmpxchg'') DA_BYTE True DA2_R_E Ext0,
    Inst (Some ''cmpxchg'') DA_LONG True DA2_R_E Ext0,
    Inst (Some ''lss'') DA_LONG True DA2_E_R Ext0,
    Inst (Some ''btr'') DA_LONG True DA2_R_E Ext0,
    Inst (Some ''lfs'') DA_LONG True DA2_E_R Ext0,
    Inst (Some ''lgs'') DA_LONG True DA2_E_R Ext0,
    Inst (Some ''movzb'') DA_LONG True DA2_Eb_R Ext0,
    Inst (Some ''movzw'') DA_LONG True DA2_Ew_R Ext0,
    Inst (Some []) DA_NONE False [] Ext0,
    Inst (Some []) DA_NONE False [] Ext0,
    Inst None DA_LONG True DA2_Ib_E (ExtNames grp8),
    Inst (Some ''btc'') DA_LONG True DA2_R_E Ext0,
    Inst (Some ''bsf'') DA_LONG True DA2_E_R Ext0,
    Inst (Some ''bsr'') DA_LONG True DA2_E_R Ext0,
    Inst (Some ''movsb'') DA_LONG True DA2_Eb_R Ext0,
    Inst (Some ''movsw'') DA_LONG True DA2_Ew_R Ext0]"

definition inst0fc :: "instdesc list" where
  "inst0fc = [
    Inst (Some ''xadd'') DA_BYTE True DA2_R_E Ext0,
    Inst (Some ''xadd'') DA_LONG True DA2_R_E Ext0,
    Inst (Some []) DA_NONE False [] Ext0,
    Inst (Some []) DA_NONE False [] Ext0,
    Inst (Some []) DA_NONE False [] Ext0,
    Inst (Some []) DA_NONE False [] Ext0,
    Inst (Some []) DA_NONE False [] Ext0,
    Inst None DA_NONE True [DA_E] (ExtNames grp9),
    Inst (Some ''bswap'') DA_LONG False [DA_Ril] Ext0,
    Inst (Some ''bswap'') DA_LONG False [DA_Ril] Ext0,
    Inst (Some ''bswap'') DA_LONG False [DA_Ril] Ext0,
    Inst (Some ''bswap'') DA_LONG False [DA_Ril] Ext0,
    Inst (Some ''bswap'') DA_LONG False [DA_Ril] Ext0,
    Inst (Some ''bswap'') DA_LONG False [DA_Ril] Ext0,
    Inst (Some ''bswap'') DA_LONG False [DA_Ril] Ext0,
    Inst (Some ''bswap'') DA_LONG False [DA_Ril] Ext0]"

definition inst_tbl_0 :: "instdesc list" where
  "inst_tbl_0 = [
    Inst (Some ''add'') DA_BYTE True DA2_R_E Ext0,
    Inst (Some ''add'') DA_LONG True DA2_R_E Ext0,
    Inst (Some ''add'') DA_BYTE True DA2_E_R Ext0,
    Inst (Some ''add'') DA_LONG True DA2_E_R Ext0,
    Inst (Some ''add'') DA_BYTE False DA2_Ib_A Ext0,
    Inst (Some ''add'') DA_LONG False DA2_I_A Ext0,
    Inst (Some []) DA_NONE False [DA_Si] Ext0,
    Inst (Some []) DA_NONE False [DA_Si] Ext0,
    Inst (Some ''or'') DA_BYTE True DA2_R_E Ext0,
    Inst (Some ''or'') DA_LONG True DA2_R_E Ext0,
    Inst (Some ''or'') DA_BYTE True DA2_E_R Ext0,
    Inst (Some ''or'') DA_LONG True DA2_E_R Ext0,
    Inst (Some ''or'') DA_BYTE False DA2_Ib_A Ext0,
    Inst (Some ''or'') DA_LONG False DA2_I_A Ext0,
    Inst (Some []) DA_NONE False [] Ext0,
    Inst (Some []) DA_NONE False [] Ext0,
    Inst (Some ''adc'') DA_BYTE True DA2_R_E Ext0,
    Inst (Some ''adc'') DA_LONG True DA2_R_E Ext0,
    Inst (Some ''adc'') DA_BYTE True DA2_E_R Ext0,
    Inst (Some ''adc'') DA_LONG True DA2_E_R Ext0,
    Inst (Some ''adc'') DA_BYTE False DA2_Ib_A Ext0,
    Inst (Some ''adc'') DA_LONG False DA2_I_A Ext0,
    Inst (Some []) DA_NONE False [] Ext0,
    Inst (Some []) DA_NONE False [] Ext0,
    Inst (Some ''sbb'') DA_BYTE True DA2_R_E Ext0,
    Inst (Some ''sbb'') DA_LONG True DA2_R_E Ext0,
    Inst (Some ''sbb'') DA_BYTE True DA2_E_R Ext0,
    Inst (Some ''sbb'') DA_LONG True DA2_E_R Ext0,
    Inst (Some ''sbb'') DA_BYTE False DA2_Ib_A Ext0,
    Inst (Some ''sbb'') DA_LONG False DA2_I_A Ext0,
    Inst (Some []) DA_NONE False [] Ext0,
    Inst (Some []) DA_NONE False [] Ext0,
    Inst (Some ''and'') DA_BYTE True DA2_R_E Ext0,
    Inst (Some ''and'') DA_LONG True DA2_R_E Ext0,
    Inst (Some ''and'') DA_BYTE True DA2_E_R Ext0,
    Inst (Some ''and'') DA_LONG True DA2_E_R Ext0,
    Inst (Some ''and'') DA_BYTE False DA2_Ib_A Ext0,
    Inst (Some ''and'') DA_LONG False DA2_I_A Ext0,
    Inst (Some []) DA_NONE False [] Ext0,
    Inst (Some []) DA_NONE False [] Ext0,
    Inst (Some ''sub'') DA_BYTE True DA2_R_E Ext0,
    Inst (Some ''sub'') DA_LONG True DA2_R_E Ext0,
    Inst (Some ''sub'') DA_BYTE True DA2_E_R Ext0,
    Inst (Some ''sub'') DA_LONG True DA2_E_R Ext0,
    Inst (Some ''sub'') DA_BYTE False DA2_Ib_A Ext0,
    Inst (Some ''sub'') DA_LONG False DA2_I_A Ext0,
    Inst (Some []) DA_NONE False [] Ext0,
    Inst (Some []) DA_NONE False [] Ext0,
    Inst (Some ''xor'') DA_BYTE True DA2_R_E Ext0,
    Inst (Some ''xor'') DA_LONG True DA2_R_E Ext0,
    Inst (Some ''xor'') DA_BYTE True DA2_E_R Ext0,
    Inst (Some ''xor'') DA_LONG True DA2_E_R Ext0,
    Inst (Some ''xor'') DA_BYTE False DA2_Ib_A Ext0,
    Inst (Some ''xor'') DA_LONG False DA2_I_A Ext0,
    Inst (Some []) DA_NONE False [] Ext0,
    Inst (Some []) DA_NONE False [] Ext0,
    Inst (Some ''cmp'') DA_BYTE True DA2_R_E Ext0,
    Inst (Some ''cmp'') DA_BYTE True DA2_R_E Ext0,
    Inst (Some ''cmp'') DA_BYTE True DA2_E_R Ext0,
    Inst (Some ''cmp'') DA_LONG True DA2_E_R Ext0,
    Inst (Some ''cmp'') DA_BYTE False DA2_Ib_A Ext0,
    Inst (Some ''cmp'') DA_LONG False DA2_I_A Ext0,
    Inst (Some []) DA_NONE False [] Ext0,
    Inst (Some []) DA_NONE False [] Ext0]"

definition inst_tbl_1 :: "instdesc list" where
  "inst_tbl_1 = [
    Inst (Some []) DA_LONG False [DA_Ri] Ext0,
    Inst (Some []) DA_LONG False [DA_Ri] Ext0,
    Inst (Some []) DA_LONG False [DA_Ri] Ext0,
    Inst (Some []) DA_LONG False [DA_Ri] Ext0,
    Inst (Some []) DA_LONG False [DA_Ri] Ext0,
    Inst (Some []) DA_LONG False [DA_Ri] Ext0,
    Inst (Some []) DA_LONG False [DA_Ri] Ext0,
    Inst (Some []) DA_LONG False [DA_Ri] Ext0,
    Inst (Some []) DA_LONG False [DA_Ri] Ext0,
    Inst (Some []) DA_LONG False [DA_Ri] Ext0,
    Inst (Some []) DA_LONG False [DA_Ri] Ext0,
    Inst (Some []) DA_LONG False [DA_Ri] Ext0,
    Inst (Some []) DA_LONG False [DA_Ri] Ext0,
    Inst (Some []) DA_LONG False [DA_Ri] Ext0,
    Inst (Some []) DA_LONG False [DA_Ri] Ext0,
    Inst (Some []) DA_LONG False [DA_Ri] Ext0,
    Inst (Some ''push'') DA_QUAD False [DA_Rq] Ext0,
    Inst (Some ''push'') DA_QUAD False [DA_Rq] Ext0,
    Inst (Some ''push'') DA_QUAD False [DA_Rq] Ext0,
    Inst (Some ''push'') DA_QUAD False [DA_Rq] Ext0,
    Inst (Some ''push'') DA_QUAD False [DA_Rq] Ext0,
    Inst (Some ''push'') DA_QUAD False [DA_Rq] Ext0,
    Inst (Some ''push'') DA_QUAD False [DA_Rq] Ext0,
    Inst (Some ''push'') DA_QUAD False [DA_Rq] Ext0,
    Inst (Some ''pop'') DA_QUAD False [DA_Rq] Ext0,
    Inst (Some ''pop'') DA_QUAD False [DA_Rq] Ext0,
    Inst (Some ''pop'') DA_QUAD False [DA_Rq] Ext0,
    Inst (Some ''pop'') DA_QUAD False [DA_Rq] Ext0,
    Inst (Some ''pop'') DA_QUAD False [DA_Rq] Ext0,
    Inst (Some ''pop'') DA_QUAD False [DA_Rq] Ext0,
    Inst (Some ''pop'') DA_QUAD False [DA_Rq] Ext0,
    Inst (Some ''pop'') DA_QUAD False [DA_Rq] Ext0,
    Inst (Some []) DA_LONG False [] Ext0,
    Inst (Some []) DA_LONG False [] Ext0,
    Inst (Some []) DA_LONG True DA2_E_R Ext0,
    Inst (Some ''movsxd'') DA_LONG True DA2_E_R Ext0,
    Inst (Some []) DA_NONE False [] Ext0,
    Inst (Some []) DA_NONE False [] Ext0,
    Inst (Some []) DA_NONE False [] Ext0,
    Inst (Some []) DA_NONE False [] Ext0,
    Inst (Some ''push'') DA_LONG False [DA_I] Ext0,
    Inst (Some ''imul'') DA_LONG True DA3_I_E_R Ext0,
    Inst (Some ''push'') DA_QUAD False [DA_Ib] Ext0,
    Inst (Some ''imul'') DA_LONG True DA3_Ib_E_R Ext0,
    Inst (Some ''ins'') DA_BYTE False DA2_DX_DI Ext0,
    Inst (Some ''ins'') DA_LONG False DA2_DX_DI Ext0,
    Inst (Some ''outs'') DA_BYTE False DA2_SI_DX Ext0,
    Inst (Some ''outs'') DA_LONG False DA2_SI_DX Ext0,
    Inst (Some ''jo'') DA_NONE False [DA_Db] Ext0,
    Inst (Some ''jno'') DA_NONE False [DA_Db] Ext0,
    Inst (Some ''jb'') DA_NONE False [DA_Db] Ext0,
    Inst (Some ''jnb'') DA_NONE False [DA_Db] Ext0,
    Inst (Some ''jz'') DA_NONE False [DA_Db] Ext0,
    Inst (Some ''jnz'') DA_NONE False [DA_Db] Ext0,
    Inst (Some ''jbe'') DA_NONE False [DA_Db] Ext0,
    Inst (Some ''jnbe'') DA_NONE False [DA_Db] Ext0,
    Inst (Some ''js'') DA_NONE False [DA_Db] Ext0,
    Inst (Some ''jns'') DA_NONE False [DA_Db] Ext0,
    Inst (Some ''jp'') DA_NONE False [DA_Db] Ext0,
    Inst (Some ''jnp'') DA_NONE False [DA_Db] Ext0,
    Inst (Some ''jl'') DA_NONE False [DA_Db] Ext0,
    Inst (Some ''jnl'') DA_NONE False [DA_Db] Ext0,
    Inst (Some ''jle'') DA_NONE False [DA_Db] Ext0,
    Inst (Some ''jnle'') DA_NONE False [DA_Db] Ext0]"

definition inst_tbl_2 :: "instdesc list" where
  "inst_tbl_2 = [
    Inst None DA_BYTE True DA2_Ib_E (ExtNames grp1),
    Inst None DA_LONG True DA2_I_E (ExtNames grp1),
    Inst None DA_BYTE True DA2_Ib_E (ExtNames grp1),
    Inst None DA_LONG True DA2_Ib_E (ExtNames grp1),
    Inst (Some ''test'') DA_BYTE True DA2_R_E Ext0,
    Inst (Some ''test'') DA_LONG True DA2_R_E Ext0,
    Inst (Some ''xchg'') DA_BYTE True DA2_R_E Ext0,
    Inst (Some ''xchg'') DA_LONG True DA2_R_E Ext0,
    Inst (Some ''mov'') DA_BYTE True DA2_R_E Ext0,
    Inst (Some ''mov'') DA_LONG True DA2_R_E Ext0,
    Inst (Some ''mov'') DA_BYTE True DA2_E_R Ext0,
    Inst (Some ''mov'') DA_LONG True DA2_E_R Ext0,
    Inst (Some ''mov'') DA_NONE True DA2_S_Ew Ext0,
    Inst (Some ''lea'') DA_LONG True DA2_E_R Ext0,
    Inst (Some ''mov'') DA_NONE True DA2_Ew_S Ext0,
    Inst (Some ''pop'') DA_QUAD True [DA_E] Ext0,
    Inst (Some ''nop'') DA_NONE False [] Ext0,
    Inst (Some ''xchg'') DA_LONG False DA2_A_Ri Ext0,
    Inst (Some ''xchg'') DA_LONG False DA2_A_Ri Ext0,
    Inst (Some ''xchg'') DA_LONG False DA2_A_Ri Ext0,
    Inst (Some ''xchg'') DA_LONG False DA2_A_Ri Ext0,
    Inst (Some ''xchg'') DA_LONG False DA2_A_Ri Ext0,
    Inst (Some ''xchg'') DA_LONG False DA2_A_Ri Ext0,
    Inst (Some ''xchg'') DA_LONG False DA2_A_Ri Ext0,
    Inst (Some ''cbw'') DA_SDEP False [] (ExtStr ''cdqe''),
    Inst (Some ''cwd'') DA_SDEP False [] (ExtStr ''cqo''),
    Inst (Some []) DA_NONE False [DA_OS] Ext0,
    Inst (Some ''wait'') DA_NONE False [] Ext0,
    Inst (Some ''pushf'') DA_QUAD False [] Ext0,
    Inst (Some ''popf'') DA_QUAD False [] Ext0,
    Inst (Some ''sahf'') DA_NONE False [] Ext0,
    Inst (Some ''lahf'') DA_NONE False [] Ext0,
    Inst (Some ''mov'') DA_BYTE False DA2_O_A Ext0,
    Inst (Some ''mov'') DA_LONG False DA2_O_A Ext0,
    Inst (Some ''mov'') DA_BYTE False DA2_A_O Ext0,
    Inst (Some ''mov'') DA_LONG False DA2_A_O Ext0,
    Inst (Some ''movsb'') DA_BYTE False [] Ext0,
    Inst (Some ''movsd'') DA_LONG False [] Ext0,
    Inst (Some ''cmpsb'') DA_BYTE False [] Ext0,
    Inst (Some ''cmpsd'') DA_LONG False [] Ext0,
    Inst (Some ''test'') DA_BYTE False DA2_I_A Ext0,
    Inst (Some ''test'') DA_LONG False DA2_I_A Ext0,
    Inst (Some ''stosb'') DA_BYTE False [] Ext0,
    Inst (Some ''stosw'') DA_WORD False [] Ext0,
    Inst (Some ''lodsb'') DA_BYTE False [] Ext0,
    Inst (Some ''lodsw'') DA_WORD False [] Ext0,
    Inst (Some ''scasb'') DA_BYTE False [] Ext0,
    Inst (Some ''scasd'') DA_LONG False [] Ext0,
    Inst (Some ''mov'') DA_BYTE False DA2_Ib_Ri Ext0,
    Inst (Some ''mov'') DA_BYTE False DA2_Ib_Ri Ext0,
    Inst (Some ''mov'') DA_BYTE False DA2_Ib_Ri Ext0,
    Inst (Some ''mov'') DA_BYTE False DA2_Ib_Ri Ext0,
    Inst (Some ''mov'') DA_BYTE False DA2_Ib_Ri Ext0,
    Inst (Some ''mov'') DA_BYTE False DA2_Ib_Ri Ext0,
    Inst (Some ''mov'') DA_BYTE False DA2_Ib_Ri Ext0,
    Inst (Some ''mov'') DA_BYTE False DA2_Ib_Ri Ext0,
    Inst (Some ''mov'') DA_LONG False DA2_I_Ri Ext0,
    Inst (Some ''mov'') DA_LONG False DA2_I_Ri Ext0,
    Inst (Some ''mov'') DA_LONG False DA2_I_Ri Ext0,
    Inst (Some ''mov'') DA_LONG False DA2_I_Ri Ext0,
    Inst (Some ''mov'') DA_LONG False DA2_Iq_Ri Ext0,
    Inst (Some ''mov'') DA_LONG False DA2_Iq_Ri Ext0,
    Inst (Some ''mov'') DA_LONG False DA2_Iq_Ri Ext0,
    Inst (Some ''mov'') DA_LONG False DA2_Iq_Ri Ext0]"

definition inst_tbl_3 :: "instdesc list" where
  "inst_tbl_3 = [
    Inst None DA_BYTE True DA2_Ib_E (ExtNames grp2),
    Inst None DA_LONG True DA2_Ib_E (ExtNames grp2),
    Inst (Some ''ret'') DA_NONE False [DA_Iw] Ext0,
    Inst (Some ''ret'') DA_NONE False [] Ext0,
    Inst (Some []) DA_LONG True DA2_E_R Ext0,
    Inst (Some []) DA_LONG True DA2_E_R Ext0,
    Inst (Some ''mov'') DA_BYTE True DA2_I_E Ext0,
    Inst (Some ''mov'') DA_LONG True DA2_I_E Ext0,
    Inst (Some ''enter'') DA_NONE False DA2_Iq_Ib Ext0,
    Inst (Some ''leave'') DA_NONE False [] Ext0,
    Inst (Some ''lret'') DA_NONE False [DA_Iw] Ext0,
    Inst (Some ''lret'') DA_NONE False [] Ext0,
    Inst (Some ''int'') DA_NONE False [DA_o3] Ext0,
    Inst (Some ''int'') DA_NONE False [DA_Ib] Ext0,
    Inst (Some []) DA_NONE False [] Ext0,
    Inst (Some ''iret'') DA_NONE False [] Ext0,
    Inst None DA_BYTE True DA2_o1_E (ExtNames grp2),
    Inst None DA_LONG True DA2_o1_E (ExtNames grp2),
    Inst None DA_BYTE True DA2_CL_E (ExtNames grp2),
    Inst None DA_LONG True DA2_CL_E (ExtNames grp2),
    Inst (Some []) DA_NONE True [DA_Ib] Ext0,
    Inst (Some []) DA_NONE True [DA_Ib] Ext0,
    Inst (Some []) DA_NONE False [] Ext0,
    Inst (Some ''xlat'') DA_BYTE False [DA_BX] Ext0,
    Inst (Some []) DA_NONE True [] (ExtGrp esc8),
    Inst (Some []) DA_NONE True [] (ExtGrp esc9),
    Inst (Some []) DA_NONE True [] (ExtGrp esca),
    Inst (Some []) DA_NONE True [] (ExtGrp escb),
    Inst (Some []) DA_NONE True [] (ExtGrp escc),
    Inst (Some []) DA_NONE True [] (ExtGrp escd),
    Inst (Some []) DA_NONE True [] (ExtGrp esce),
    Inst (Some []) DA_NONE True [] (ExtGrp escf),
    Inst (Some ''loopne'') DA_NONE False [DA_Db] Ext0,
    Inst (Some ''loope'') DA_NONE False [DA_Db] Ext0,
    Inst (Some ''loop'') DA_NONE False [DA_Db] Ext0,
    Inst (Some ''jcxz'') DA_SDEP False [DA_Db] (ExtStr ''jrcxz''),
    Inst (Some ''in'') DA_BYTE False DA2_Ib_A Ext0,
    Inst (Some ''in'') DA_LONG False DA2_Ib_A Ext0,
    Inst (Some ''out'') DA_BYTE False DA2_A_Ib Ext0,
    Inst (Some ''out'') DA_LONG False DA2_A_Ib Ext0,
    Inst (Some ''call'') DA_LONG False [DA_Dl] Ext0,
    Inst (Some ''jmp'') DA_LONG False [DA_Dl] Ext0,
    Inst (Some []) DA_NONE False [DA_OS] Ext0,
    Inst (Some ''jmp'') DA_NONE False [DA_Db] Ext0,
    Inst (Some ''in'') DA_BYTE False DA2_DX_A Ext0,
    Inst (Some ''in'') DA_LONG False DA2_DX_A Ext0,
    Inst (Some ''out'') DA_BYTE False DA2_A_DX Ext0,
    Inst (Some ''out'') DA_LONG False DA2_A_DX Ext0,
    Inst (Some []) DA_NONE False [] Ext0,
    Inst (Some []) DA_NONE False [] Ext0,
    Inst (Some []) DA_NONE False [] Ext0,
    Inst (Some []) DA_NONE False [] Ext0,
    Inst (Some ''hlt'') DA_NONE False [] Ext0,
    Inst (Some ''cmc'') DA_NONE False [] Ext0,
    Inst None DA_BYTE True [] (ExtGrp grp3),
    Inst None DA_LONG True [] (ExtGrp grp3),
    Inst (Some ''clc'') DA_NONE False [] Ext0,
    Inst (Some ''stc'') DA_NONE False [] Ext0,
    Inst (Some ''cli'') DA_NONE False [] Ext0,
    Inst (Some ''sti'') DA_NONE False [] Ext0,
    Inst (Some ''cld'') DA_NONE False [] Ext0,
    Inst (Some ''std'') DA_NONE False [] Ext0,
    Inst None DA_NONE True [] (ExtGrp grp4),
    Inst None DA_NONE True [] (ExtGrp grp5)]"

definition inst_tbl :: "instdesc list" where
  "inst_tbl = inst_tbl_0 @ inst_tbl_1 @ inst_tbl_2 @ inst_tbl_3"

definition inst_tbl0f :: "instdesc list option list" where
  "inst_tbl0f = [Some inst0f0, None, Some inst0f2, Some inst0f3, None, None, None, Some inst0f7,
     Some inst0f8, Some inst0f9, Some inst0fa, Some inst0fb, Some inst0fc, None, None, None]"

definition sizestr :: "string list" where
  "sizestr = [''byte'', ''word'', ''dword'', ''qword'', ''single'', ''double'', ''extend'']"

definition regs :: "string list list" where
  "regs = [
    [''al'', ''cl'', ''dl'', ''bl'', ''ah'', ''ch'', ''dh'', ''bh'', ''r8b'', ''r9b'', ''r10b'', ''r11b'', ''r12b'', ''r13b'', ''r14b'', ''r15b''],
    [''ax'', ''cx'', ''dx'', ''bx'', ''sp'', ''bp'', ''si'', ''di'', ''r8w'', ''r9w'', ''r10w'', ''r11w'', ''r12w'', ''r13w'', ''r14w'', ''r15w''],
    [''eax'', ''ecx'', ''edx'', ''ebx'', ''esp'', ''ebp'', ''esi'', ''edi'', ''r8d'', ''r9d'', ''r10d'', ''r11d'', ''r12d'', ''r13d'', ''r14d'', ''r15d''],
    [''rax'', ''rcx'', ''rdx'', ''rbx'', ''rsp'', ''rbp'', ''rsi'', ''rdi'', ''r8'', ''r9'', ''r10'', ''r11'', ''r12'', ''r13'', ''r14'', ''r15'']]"

definition sregs :: "string list" where
  "sregs = [''es'', ''cs'', ''ss'', ''ds'', ''fs'', ''gs'', ''?'', ''?'']"

definition unkmnemonic :: string where "unkmnemonic = ''???''"

primrec group_tbl :: "group \<Rightarrow> instdesc list option" where
  "group_tbl grp3 = Some grp3_tbl"
| "group_tbl grp4 = Some grp4_tbl"
| "group_tbl grp5 = Some grp5_tbl"
| "group_tbl grp7 = Some grp7_tbl"
| "group_tbl esc8 = None"
| "group_tbl esc9 = None"
| "group_tbl esca = None"
| "group_tbl escb = None"
| "group_tbl escc = None"
| "group_tbl escd = None"
| "group_tbl esce = None"
| "group_tbl escf = None"

end
