(* ===== verification/Disasm.thy ===== *)
theory Disasm
  imports Disasm_Tables "HOL-Library.Monad_Syntax"
begin

text \<open>
  The disassembler of the debugger, \<^verbatim>\<open>arch/x86_64/debug/disasm.h\<close>: its formatter \<^verbatim>\<open>dbg_sprintf\<close>, the printing of
  memory operands and \<^verbatim>\<open>disasm\<close> itself.

  The output pointer \<^verbatim>\<open>str\<close> is \<open>None\<close> for \<^verbatim>\<open>NULL\<close>, else the text written so far; the code bytes are read from memory and are
  taken not to overlap the output buffer.  \<open>None\<close> as a result stands for behaviour C leaves undefined (reading past a table or a string) and for a
  loop that does not end.
\<close>

section \<open>Formatted output\<close>

datatype sarg = SInt u64 | SStr "string option"

definition is_dec :: "char \<Rightarrow> bool" where
  "is_dec c \<longleftrightarrow> 48 \<le> (of_char c :: nat) \<and> (of_char c :: nat) \<le> 57"

fun parse_len :: "nat \<Rightarrow> string \<Rightarrow> nat \<times> string" where
  "parse_len len [] = (len, [])"
| "parse_len len (c # cs) = (if is_dec c then parse_len (len * 10 + (of_char c - 48)) cs else (len, c # cs))"

text \<open>The digit loops fill \<^verbatim>\<open>tmpstr\<close> from its end; \<open>acc\<close> is the part filled.\<close>

fun vs_dec :: "nat \<Rightarrow> string \<Rightarrow> string" where
  "vs_dec arg acc =
     (let acc = char_of (48 + arg mod 10) # acc
      in if arg div 10 \<noteq> 0 \<and> length acc < 18 then vs_dec (arg div 10) acc else acc)"

declare vs_dec.simps [simp del]

definition hex_char :: "u64 \<Rightarrow> char" where
  "hex_char n = char_of (unat (n + (if 9 < n then 0x37 else 0x30)))"

primrec vs_hex :: "nat \<Rightarrow> u64 \<Rightarrow> string \<Rightarrow> string" where
  "vs_hex 0 arg acc = acc"
| "vs_hex (Suc i) arg acc =
     (let acc = hex_char (arg AND 0xF) # acc; arg = signed_drop_bit 4 arg
      in if arg \<noteq> 0 \<and> i > 0 then vs_hex i arg acc else acc)"

definition vs_d :: "nat \<Rightarrow> char \<Rightarrow> u64 \<Rightarrow> string" where
  "vs_d len pad a =
     (let v = sint (ucast a :: u32); n = nat \<bar>v\<bar>; n = (if n > 99999999999999999 then 99999999999999999 else n);
          s = vs_dec n []; s = (if v < 0 then CHR ''-'' # s else s)
      in if len > 0 \<and> len < 18 then replicate (len - length s) pad @ s else s)"

definition vs_x :: "nat \<Rightarrow> u64 \<Rightarrow> string" where
  "vs_x len a =
     (let s = vs_hex 16 a []
      in if len > 0 \<and> len \<le> 16 then replicate (len - length s) CHR ''0'' @ s else s)"

definition skip_l :: "string \<Rightarrow> string" where
  "skip_l fmt = (case fmt of [] \<Rightarrow> [] | c # cs \<Rightarrow> if c = CHR ''l'' then cs else fmt)"

lemma parse_len_length: "parse_len len cs = (n, r) \<Longrightarrow> length r \<le> length cs"
  by (induction len cs rule: parse_len.induct) (auto split: if_splits)

lemma skip_l_length: "length (skip_l r) \<le> length r"
  by (simp add: skip_l_def split: list.splits)

lemma vs_step_length: "skip_l (snd (parse_len 0 (c # cs))) = k # r \<Longrightarrow> length r < Suc (length cs)"
proof -
  assume "skip_l (snd (parse_len 0 (c # cs))) = k # r"
  then have "length (k # r) \<le> length (snd (parse_len 0 (c # cs)))" using skip_l_length by metis
  also have "\<dots> \<le> length (c # cs)" using parse_len_length [of 0 "c # cs"] by (metis prod.collapse)
  finally show ?thesis by simp
qed

text \<open>
  The rest of the format string, the padding character and the arguments left; going past the end of
  the format string or asking for an argument of the wrong sort is undefined.
\<close>

function dbg_vsprintf :: "string \<Rightarrow> char \<Rightarrow> sarg list \<Rightarrow> string option" where
  "dbg_vsprintf [] pad args = Some []"
| "dbg_vsprintf (c # cs) pad args =
     (if c \<noteq> CHR ''%'' then map_option ((#) c) (dbg_vsprintf cs pad args)
      else case cs of [] \<Rightarrow> None
      | c1 # cs1 \<Rightarrow>
          if c1 = CHR ''%'' then map_option ((#) c1) (dbg_vsprintf cs1 pad args)
          else let pad = (if c1 = CHR ''0'' then CHR ''0'' else pad); len = fst (parse_len 0 (c1 # cs1)) in
            case skip_l (snd (parse_len 0 (c1 # cs1))) of [] \<Rightarrow> None
            | k # r \<Rightarrow>
                if k = CHR ''c'' then
                  (case args of SInt a # args \<Rightarrow> map_option ((#) (char_of (unat (ucast a :: u8)))) (dbg_vsprintf r pad args) | _ \<Rightarrow> None)
                else if k = CHR ''d'' then
                  (case args of SInt a # args \<Rightarrow> map_option ((@) (vs_d len pad a)) (dbg_vsprintf r pad args) | _ \<Rightarrow> None)
                else if k = CHR ''x'' then
                  (case args of SInt a # args \<Rightarrow> map_option ((@) (vs_x len a)) (dbg_vsprintf r pad args) | _ \<Rightarrow> None)
                else if k = CHR ''s'' then
                  (case args of SStr p # args \<Rightarrow>
                     map_option ((@) (case p of None \<Rightarrow> ''(null)'' | Some s \<Rightarrow> s)) (dbg_vsprintf r pad args) | _ \<Rightarrow> None)
                else dbg_vsprintf r pad args)"
  by pat_completeness auto
termination
  by (relation "measure (\<lambda>(fmt, _). length fmt)") (auto simp del: parse_len.simps dest!: vs_step_length)

definition dbg_sprintf :: "string \<Rightarrow> sarg list \<Rightarrow> string option" where
  "dbg_sprintf fmt args = dbg_vsprintf fmt CHR '' '' args"

text \<open>\<^verbatim>\<open>if (str != NULL) str += sprintf(str, fmt, args)\<close>.\<close>

definition emit :: "string option \<Rightarrow> string \<Rightarrow> sarg list \<Rightarrow> string option option" where
  "emit str fmt args = (case str of None \<Rightarrow> Some None | Some s \<Rightarrow> map_option (\<lambda>t. Some (s @ t)) (dbg_sprintf fmt args))"

section \<open>Operands\<close>

text \<open>The global variables.\<close>

record addr_state =
  addr_reg :: bool
  addr_scale :: u8
  addr_disp :: u64
  addr_seg :: u8
  addr_saddr :: nat
  addr_base :: "string option"
  addr_idx :: "string option"

definition reg_name :: "nat \<Rightarrow> nat \<Rightarrow> string option" where
  "reg_name sz r = (if sz < 4 \<and> r < 16 then Some (regs ! sz ! r) else None)"

definition emit_reg :: "string option \<Rightarrow> nat \<Rightarrow> nat \<Rightarrow> string option option" where
  "emit_reg str sz r = (if str = None then Some None else do { n \<leftarrow> reg_name sz r; emit str n [] })"

definition emit_seg :: "string option \<Rightarrow> addr_state \<Rightarrow> string option option" where
  "emit_seg str g = (if addr_seg g \<noteq> 0 then emit str ''%cs:'' [SInt (ucast (addr_seg g))] else Some str)"

definition prt_index :: "string option \<Rightarrow> addr_state \<Rightarrow> string option option" where
  "prt_index str g = do {
     str \<leftarrow> emit str ''%s'' [SStr (addr_base g)];
     if addr_idx g \<noteq> None then do {
       str \<leftarrow> emit str ''+%s'' [SStr (addr_idx g)];
       if addr_scale g > 1 then emit str ''*%d'' [SInt (ucast (addr_scale g))] else Some str
     } else Some str }"

text \<open>Called with \<open>str\<close> not \<^verbatim>\<open>NULL\<close> only.\<close>

definition disasm_prtaddr :: "addr_state \<Rightarrow> string option \<Rightarrow> addr \<Rightarrow> operand \<Rightarrow> nat \<Rightarrow> u8 \<Rightarrow> (addr_state \<times> string option) option" where
  "disasm_prtaddr g str a md sz r =
     (if addr_reg g then do {
        str \<leftarrow> emit_reg str (if sz > 3 then 3 else sz) (unat r);
        Some (g, str)
      } else do {
        str \<leftarrow> emit str ''%s '' [SStr (Some (sizestr ! (if sz > 6 then 6 else sz)))];
        str \<leftarrow> emit_seg str g;
        str \<leftarrow> emit str ''['' [];
        str \<leftarrow> (if addr_base g \<noteq> None then prt_index str g else Some str);
        let g = (if addr_base g = None \<and> md \<noteq> DA_E then g\<lparr>addr_disp := addr_disp g + a\<rparr> else g);
        str \<leftarrow> (if addr_disp g \<noteq> 0
                then emit str ''%s%x'' [SStr (Some (if addr_base g \<noteq> None then ''+'' else [])), SInt (addr_disp g)]
                else if addr_base g = None then Some (map_option (\<lambda>s. s @ ''0'') str)
                else Some str);
        str \<leftarrow> emit str '']'' [];
        Some (g, str)
      })"

text \<open>What \<^verbatim>\<open>disasm\<close> has decoded when it comes to the operands.\<close>

record decoded =
  d_rex :: u8
  d_size :: nat
  d_opcode :: u8
  d_modrm :: u8
  d_reg :: nat
  d_i_size :: nat

text \<open>The machine state of the operand loop: \<^verbatim>\<open>addr\<close>, the globals, \<^verbatim>\<open>str\<close>.\<close>

type_synonym dstate = "addr \<times> addr_state \<times> string option"

definition with_str :: "addr \<Rightarrow> addr_state \<Rightarrow> string option option \<Rightarrow> dstate option" where
  "with_str a g r = map_option (\<lambda>str. (a, g, str)) r"

definition operand_E :: "string option \<Rightarrow> addr \<Rightarrow> addr_state \<Rightarrow> operand \<Rightarrow> nat \<Rightarrow> u8 \<Rightarrow> dstate option" where
  "operand_E str a g md sz r =
     (if str = None then Some (a, g, str) else map_option (\<lambda>(g, str). (a, g, str)) (disasm_prtaddr g str a md sz r))"

definition operand_ptr :: "string option \<Rightarrow> addr \<Rightarrow> addr_state \<Rightarrow> nat \<Rightarrow> nat \<Rightarrow> dstate option" where
  "operand_ptr str a g sz r =
     (if str = None then Some (a, g, str)
      else if sz < 7 \<and> addr_saddr g < 4 then with_str a g (do {
        str \<leftarrow> emit_seg str g;
        emit str ''%s [%s]'' [SStr (Some (sizestr ! sz)), SStr (Some (regs ! addr_saddr g ! r))] })
      else None)"

definition ri_index :: "decoded \<Rightarrow> nat" where
  "ri_index d = unat ((d_opcode d AND 7) + push_bit 3 (d_rex d AND 1))"

text \<open>Immediates of the operand size, bytes, and far pointers.\<close>

fun operand_I :: "memory \<Rightarrow> decoded \<Rightarrow> dstate \<Rightarrow> dstate option" where
  "operand_I m d (a, g, str) =
     (if d_i_size d = DA_WORD then with_str (a + 2) g (emit str ''%xh'' [SInt (scast (read16 m a))])
      else with_str (a + 4) g (emit str ''%xh'' [SInt (scast (read32 m a))]))"

fun operand_Ibs :: "memory \<Rightarrow> dstate \<Rightarrow> dstate option" where
  "operand_Ibs m (a, g, str) =
     (if m a \<noteq> 0x0A then with_str (a + 1) g (emit str ''%1xh'' [SInt (ucast (m a))]) else Some (a + 1, g, str))"

fun operand_OS :: "memory \<Rightarrow> decoded \<Rightarrow> dstate \<Rightarrow> dstate option" where
  "operand_OS m d (a, g, str) =
     (let (disp, a) = (if d_size d = DA_QUAD then (read64 m a, a + 8)
                       else if d_size d = DA_LONG then (scast (read32 m a), a + 4)
                       else if d_size d = DA_WORD then (scast (read16 m a), a + 2)
                       else if d_size d = DA_BYTE then (scast (m a), a + 1)
                       else (0, a))
      in with_str (a + 2) g (emit str ''%x:%xh'' [SInt (ucast (read16 m a)), SInt disp]))"

text \<open>One turn of the operand loop, for the kind in the low byte of \<^verbatim>\<open>i_mode\<close>.\<close>

fun operand_step :: "memory \<Rightarrow> decoded \<Rightarrow> operand \<Rightarrow> dstate \<Rightarrow> dstate option" where
  "operand_step m d k (a, g, str) = (case k of
     DA_E \<Rightarrow> operand_E str a g k (d_i_size d) (ucast (addr_disp g))
   | DA_EInd \<Rightarrow> operand_E str a g k (d_i_size d) (ucast (addr_disp g))
   | DA_Ew \<Rightarrow> operand_E str a g k DA_WORD (of_nat (d_reg d))
   | DA_Eb \<Rightarrow> operand_E str a g k DA_BYTE (of_nat (d_reg d))
   | DA_ME \<Rightarrow> with_str a g (emit str (case addr_base g of Some b \<Rightarrow> b | None \<Rightarrow> ''0'') [])
   | DA_R \<Rightarrow> with_str a g (emit_reg str (d_i_size d) (d_reg d))
   | DA_Rw \<Rightarrow> with_str a g (emit_reg str DA_WORD (d_reg d))
   | DA_Ri \<Rightarrow> with_str a g (emit_reg str (d_i_size d) (ri_index d))
   | DA_Rq \<Rightarrow> with_str a g (emit_reg str DA_QUAD (ri_index d))
   | DA_Ril \<Rightarrow> with_str a g (emit_reg str DA_LONG (ri_index d))
   | DA_S \<Rightarrow> with_str a g (emit str (sregs ! unat (d_modrm d AND 7)) [])
   | DA_Si \<Rightarrow> with_str a g (emit str (sregs ! unat (d_opcode d AND 7)) [])
   | DA_A \<Rightarrow> with_str a g (emit_reg str (d_i_size d) 0)
   | DA_BX \<Rightarrow> operand_ptr str a g (d_i_size d) 3
   | DA_CL \<Rightarrow> with_str a g (emit_reg str DA_BYTE 1)
   | DA_DX \<Rightarrow> with_str a g (emit_reg str DA_WORD 2)
   | DA_SI \<Rightarrow> operand_ptr str a g (d_i_size d) 6
   | DA_DI \<Rightarrow> operand_ptr str a g (d_i_size d) 7
   | DA_CR \<Rightarrow> with_str a g (emit str ''cr%d'' [SInt (of_nat (d_reg d))])
   | DA_DR \<Rightarrow> with_str a g (emit str ''dr%d'' [SInt (of_nat (d_reg d))])
   | DA_TR \<Rightarrow> with_str a g (emit str ''tr%d'' [SInt (of_nat (d_reg d))])
   | DA_I \<Rightarrow> operand_I m d (a, g, str)
   | DA_Is \<Rightarrow> operand_I m d (a, g, str)
   | DA_Ib \<Rightarrow> with_str (a + 1) g (emit str ''%1xh'' [SInt (ucast (m a))])
   | DA_Iba \<Rightarrow> operand_Ibs m (a, g, str)
   | DA_Ibs \<Rightarrow> operand_Ibs m (a, g, str)
   | DA_Iw \<Rightarrow> with_str (a + 2) g (emit str ''%2xh'' [SInt (ucast (read16 m a))])
   | DA_Iq \<Rightarrow> with_str (a + 8) g (emit str ''%8xh'' [SInt (read64 m a)])
   | DA_O \<Rightarrow> with_str (a + 2) g (do { str \<leftarrow> emit_seg str g; emit str ''%xh'' [SInt (ucast (read16 m a))] })
   | DA_Db \<Rightarrow> with_str (a + 1) g (emit str ''%xh'' [SInt (scast (m a) + (a + 1))])
   | DA_Dl \<Rightarrow> with_str (a + 4) g (emit str ''%xh'' [SInt (scast (read32 m a) + (a + 4))])
   | DA_o1 \<Rightarrow> with_str a g (emit str ''1'' [])
   | DA_o3 \<Rightarrow> with_str a g (emit str ''3'' [])
   | DA_OS \<Rightarrow> operand_OS m d (a, g, str)
   | DA_ST \<Rightarrow> with_str a g (emit str ''?'' [])
   | DA_STI \<Rightarrow> with_str a g (emit str ''?'' [])
   | DA_X \<Rightarrow> with_str a g (emit str ''?'' [])
   | DA_XA \<Rightarrow> with_str a g (emit str ''?'' []))"

text \<open>The \<^verbatim>\<open>for\<close> loop over the operands, with the comma before each but the first.\<close>

primrec operands_loop :: "memory \<Rightarrow> decoded \<Rightarrow> operand list \<Rightarrow> dstate \<Rightarrow> dstate option" where
  "operands_loop m d [] s = Some s"
| "operands_loop m d (k # ks) s =
     (case s of (a, g, str) \<Rightarrow> do {
        str \<leftarrow> (case str of None \<Rightarrow> Some None
                | Some t \<Rightarrow> if last t \<noteq> CHR 0x09 then emit str '', '' [] else Some str);
        s \<leftarrow> operand_step m d k (a, g, str);
        operands_loop m d ks s })"

section \<open>Decoding\<close>

text \<open>
  From \<^verbatim>\<open>getprefix\<close> to \<^verbatim>\<open>prefixend\<close>: returned are the opcode, \<^verbatim>\<open>addr\<close>, \<^verbatim>\<open>rex\<close>, \<^verbatim>\<open>size\<close>, the globals and \<^verbatim>\<open>str\<close>.
\<close>

partial_function (option) prefix_loop ::
  "memory \<Rightarrow> u8 \<Rightarrow> nat \<Rightarrow> addr \<Rightarrow> addr_state \<Rightarrow> string option \<Rightarrow> (u8 \<times> u8 \<times> nat \<times> dstate) option" where
  [code]: "prefix_loop m rex sz a g str =
       (let opcode = m a; a = a + 1 in
        if opcode = 0x26 \<or> opcode = 0x36 \<or> opcode = 0x2E \<or> opcode = 0x3E then prefix_loop m rex sz a g str
        else if opcode = 0x64 then prefix_loop m rex sz a (g\<lparr>addr_seg := 0x66\<rparr>) str
        else if opcode = 0x65 then prefix_loop m rex sz a (g\<lparr>addr_seg := 0x67\<rparr>) str
        else if opcode = 0x66 then prefix_loop m 0x40 DA_WORD a g str
        else if opcode = 0x67 then prefix_loop m rex sz a (g\<lparr>addr_saddr := DA_LONG\<rparr>) str
        else if opcode = 0xF0 then do { str \<leftarrow> emit str ''lock '' []; prefix_loop m rex sz a g str }
        else if opcode = 0xF2 then do { str \<leftarrow> emit str ''repnz '' []; prefix_loop m rex sz a g str }
        else if opcode = 0xF3 then do { str \<leftarrow> emit str ''repe '' []; prefix_loop m rex sz a g str }
        else if opcode AND 0xF0 = 0x40 then
          Some (m a, opcode, if opcode AND 0x08 \<noteq> 0 then DA_QUAD else sz, (a + 1, g, str))
        else Some (opcode, rex, sz, (a, g, str)))"

text \<open>
  The displacement and base of a memory operand, with the scale-index-base byte when there is one.  \<^verbatim>\<open>mod\<close> is the top
  two bits of \<^verbatim>\<open>modrm\<close>.
\<close>

definition decode_sib :: "memory \<Rightarrow> u8 \<Rightarrow> u8 \<Rightarrow> addr \<Rightarrow> addr_state \<Rightarrow> nat \<times> addr \<times> addr_state" where
  "decode_sib m rex modrm a g =
     (if modrm AND 7 = 4 then
        let sib = m a; idx = unat (push_bit 2 (rex AND 2) + (drop_bit 3 sib AND 7));
            g = g\<lparr>addr_scale := drop_bit 6 sib\<rparr>;
            g = (if idx \<noteq> 4 then g\<lparr>addr_idx := Some (regs ! DA_QUAD ! idx)\<rparr> else g)
        in (unat (push_bit 3 (rex AND 1) + (sib AND 7)), a + 1, g)
      else (unat (push_bit 3 (rex AND 1) + (modrm AND 7)), a, g))"

definition decode_modrm :: "memory \<Rightarrow> u8 \<Rightarrow> u8 \<Rightarrow> addr \<Rightarrow> addr_state \<Rightarrow> addr \<times> addr_state" where
  "decode_modrm m rex modrm a g =
     (let md = drop_bit 6 modrm AND 3;
          g = g\<lparr>addr_disp := 0, addr_base := None, addr_idx := None, addr_scale := 0, addr_reg := False\<rparr>
      in if md = 3 then (a, g\<lparr>addr_reg := True, addr_disp := ucast (push_bit 3 (rex AND 1) + (modrm AND 7))\<rparr>)
         else let (rm, a, g) = decode_sib m rex modrm a g; g = g\<lparr>addr_base := Some (regs ! DA_QUAD ! rm)\<rparr>
         in if md = 0 then (if rm = 5 then (a + 4, g\<lparr>addr_disp := ucast (read32 m a), addr_base := None\<rparr>) else (a, g))
            else if md = 1 then (a + 1, g\<lparr>addr_disp := ucast (m a)\<rparr>)
            else (a + 4, g\<lparr>addr_disp := ucast (read32 m a)\<rparr>))"

text \<open>The descriptor of an opcode: after \<^verbatim>\<open>0F\<close> from the second table, else from the first.\<close>

definition find_inst :: "memory \<Rightarrow> u8 \<Rightarrow> addr \<Rightarrow> instdesc option \<times> addr" where
  "find_inst m opcode a =
     (if opcode = 0x0F then
        (map_option (\<lambda>t. t ! unat (m a AND 0xF)) (inst_tbl0f ! unat (drop_bit 4 (m a))), a + 1)
      else (Some (inst_tbl ! unat opcode), a))"

text \<open>
  The selection by the middle bits of \<^verbatim>\<open>modrm\<close>.  \<open>None\<close> is the jump to \<^verbatim>\<open>unknown\<close>; for the opcodes \<^verbatim>\<open>D0\<close> to \<^verbatim>\<open>D8\<close> it is taken
  whenever there is an extension.
\<close>

definition select_inst :: "u8 \<Rightarrow> u8 \<Rightarrow> instdesc \<Rightarrow> instdesc option" where
  "select_inst opcode modrm inst =
     (if (inst_name inst = None \<or> inst_name inst = Some []) \<and> inst_ext inst \<noteq> Ext0 then
        if 0xD0 \<le> opcode \<and> opcode \<le> 0xD8 then None
        else Some (case inst_ext inst of
            ExtGrp gr \<Rightarrow> (case group_tbl gr of Some t \<Rightarrow> t ! unat (drop_bit 3 modrm AND 7) | None \<Rightarrow> inst)
          | _ \<Rightarrow> inst)
      else Some inst)"

text \<open>\<^verbatim>\<open>inst->name != NULL ? inst->name : ((char **) inst->ext)[reg]\<close>, undefined past the end of the table.\<close>

definition mnemonic :: "instdesc \<Rightarrow> nat \<Rightarrow> string option" where
  "mnemonic inst r =
     (case inst_name inst of Some n \<Rightarrow> Some n
      | None \<Rightarrow> (case inst_ext inst of ExtNames ns \<Rightarrow> if r < length ns then Some (ns ! r) else None | _ \<Rightarrow> None))"

text \<open>The label \<^verbatim>\<open>end\<close>, and the label \<^verbatim>\<open>unknown\<close> that continues there.\<close>

definition disasm_end :: "addr \<Rightarrow> dstate \<Rightarrow> dstate option" where
  "disasm_end start s =
     (case s of (a, g, str) \<Rightarrow>
        if a - start > 15 then with_str a g (emit str '' <too long>'' []) else Some s)"

definition disasm_unknown :: "addr \<Rightarrow> dstate \<Rightarrow> dstate option" where
  "disasm_unknown start s =
     (case s of (a, g, str) \<Rightarrow> do { str \<leftarrow> emit str unkmnemonic []; disasm_end start (a, g, str) })"

text \<open>From the mnemonic on.\<close>

definition disasm_print :: "memory \<Rightarrow> addr \<Rightarrow> decoded \<Rightarrow> instdesc \<Rightarrow> string \<Rightarrow> dstate \<Rightarrow> dstate option" where
  "disasm_print m start d inst i_name s =
     (case s of (a, g, str) \<Rightarrow>
        let i_size = inst_size inst; dep = (i_size = DA_SDEP);
            nm = (if dep \<and> d_size d = DA_LONG then (case inst_ext inst of ExtStr t \<Rightarrow> Some t | _ \<Rightarrow> None) else Some i_name);
            i_size = (if dep then d_size d else i_size);
            i_size = (if d_rex d \<noteq> 0 then d_size d else i_size)
        in do {
          str \<leftarrow> (if str = None then Some None else do { n \<leftarrow> nm; emit str (''%6s'' @ [CHR 0x09]) [SStr (Some n)] });
          s \<leftarrow> operands_loop m (d\<lparr>d_i_size := i_size\<rparr>) (inst_mode inst) (a, g, str);
          disasm_end start s })"

definition disasm_inst :: "memory \<Rightarrow> addr \<Rightarrow> u8 \<Rightarrow> u8 \<Rightarrow> nat \<Rightarrow> dstate \<Rightarrow> dstate option" where
  "disasm_inst m start opcode rex sz s =
     (case s of (a, g, str) \<Rightarrow>
      case find_inst m opcode a of
        (None, a) \<Rightarrow> disasm_unknown start (a, g, str)
      | (Some inst, a) \<Rightarrow>
          let modrm = (if inst_modrm inst then m a else 0);
              r = (if inst_modrm inst then unat (push_bit 1 (rex AND 4) + (drop_bit 3 modrm AND 7)) else 0);
              (a, g) = (if inst_modrm inst then decode_modrm m rex modrm (a + 1) g else (a, g))
          in case select_inst opcode modrm inst of
               None \<Rightarrow> disasm_unknown start (a, g, str)
             | Some inst \<Rightarrow> do {
                 i_name \<leftarrow> mnemonic inst r;
                 if i_name = [] then disasm_unknown start (a, g, str)
                 else disasm_print m start
                   \<lparr>d_rex = rex, d_size = sz, d_opcode = opcode, d_modrm = modrm, d_reg = r, d_i_size = DA_NONE\<rparr>
                   inst i_name (a, g, str) })"

definition disasm :: "memory \<Rightarrow> addr \<Rightarrow> addr_state \<Rightarrow> string option \<Rightarrow> dstate option" where
  "disasm m start g str = do {
     (opcode, rex, sz, (a, g, str)) \<leftarrow>
       prefix_loop m 0 DA_LONG start (g\<lparr>addr_seg := 0, addr_saddr := DA_QUAD, addr_base := None, addr_idx := None\<rparr>) str;
     if opcode = 0x90 then do {
       n \<leftarrow> scan_while (\<lambda>i. m (a + i) = 0x90) 0;
       with_str (a + n) g (emit str '' %d x nop'' [SInt (ucast (ucast (n + 1) :: u32))])
     } else disasm_inst m start opcode rex sz (a, g, str) }"

section \<open>The length of an instruction does not depend on the output\<close>

text \<open>The bytes an operand takes from the code.\<close>

definition operand_len :: "decoded \<Rightarrow> operand \<Rightarrow> u64" where
  "operand_len d k =
     (if k \<in> {DA_I, DA_Is} then (if d_i_size d = DA_WORD then 2 else 4)
      else if k \<in> {DA_Ib, DA_Iba, DA_Ibs, DA_Db} then 1
      else if k \<in> {DA_Iw, DA_O} then 2
      else if k = DA_Iq then 8
      else if k = DA_Dl then 4
      else if k = DA_OS then (if d_size d = DA_QUAD then 10 else if d_size d = DA_LONG then 6
        else if d_size d = DA_WORD then 4 else if d_size d = DA_BYTE then 3 else 2)
      else 0)"

lemma emit_None [simp]: "emit None fmt args = Some None" "emit_reg None sz r = Some None" "emit_seg None g = Some None"
  by (simp_all add: emit_def emit_reg_def emit_seg_def)

lemma emit_Some_iff: "emit str fmt args = Some str' \<Longrightarrow> str' = None \<longleftrightarrow> str = None"
  by (auto simp: emit_def split: option.splits)

lemma emit_reg_Some_iff: "emit_reg str sz r = Some str' \<Longrightarrow> str' = None \<longleftrightarrow> str = None"
  by (auto simp: emit_reg_def bind_eq_Some_conv dest: emit_Some_iff split: if_splits)

lemma emit_seg_Some_iff: "emit_seg str g = Some str' \<Longrightarrow> str' = None \<longleftrightarrow> str = None"
  by (auto simp: emit_seg_def dest: emit_Some_iff split: if_splits)

lemmas emit_iffs = emit_Some_iff emit_reg_Some_iff emit_seg_Some_iff

lemma with_str_Some: "with_str a g r = Some (a', g', str') \<longleftrightarrow> a' = a \<and> g' = g \<and> r = Some str'"
  by (auto simp: with_str_def)

lemma with_str_None [simp]: "with_str a g (Some str) = Some (a, g, str)"
  by (simp add: with_str_def)

lemma prt_index_iff: "prt_index str g = Some str' \<Longrightarrow> str' = None \<longleftrightarrow> str = None"
  by (auto simp: prt_index_def bind_eq_Some_conv dest!: emit_iffs split: if_splits)

lemma disasm_prtaddr_iff: "disasm_prtaddr g str a md sz r = Some (g', str') \<Longrightarrow> str' = None \<longleftrightarrow> str = None"
  by (auto simp: disasm_prtaddr_def Let_def bind_eq_Some_conv dest!: emit_iffs prt_index_iff split: if_splits)

lemma operand_step_None: "operand_step m d k (a, g, None) = Some (a + operand_len d k, g, None)"
  by (cases k) (simp_all add: operand_len_def operand_E_def operand_ptr_def Let_def)

lemma operand_step_Some:
  "operand_step m d k (a, g, str) = Some (a', g', str') \<Longrightarrow> a' = a + operand_len d k \<and> (str' = None \<longleftrightarrow> str = None)"
  by (cases k)
    (auto simp: operand_len_def operand_E_def operand_ptr_def Let_def with_str_Some bind_eq_Some_conv
      dest!: emit_iffs disasm_prtaddr_iff split: if_splits)

lemma operands_loop_None:
  "operands_loop m d ks (a, g, None) = Some (a + sum_list (map (operand_len d) ks), g, None)"
  by (induction ks arbitrary: a) (simp_all add: operand_step_None add.assoc del: operand_step.simps)

lemma operands_loop_Some:
  "operands_loop m d ks (a, g, str) = Some (a', g', str') \<Longrightarrow>
   a' = a + sum_list (map (operand_len d) ks) \<and> (str' = None \<longleftrightarrow> str = None)"
proof (induction ks arbitrary: a g str)
  case (Cons k ks)
  obtain str1 a1 g1 str2 where
    1: "(case str of None \<Rightarrow> Some None | Some t \<Rightarrow> if last t \<noteq> CHR 0x09 then emit str '', '' [] else Some str) = Some str1"
    and 2: "operand_step m d k (a, g, str1) = Some (a1, g1, str2)" and 3: "operands_loop m d ks (a1, g1, str2) = Some (a', g', str')"
    using Cons.prems by (auto simp: bind_eq_Some_conv simp del: operand_step.simps split: prod.splits)
  from 1 have "str1 = None \<longleftrightarrow> str = None" by (auto dest!: emit_Some_iff split: option.splits if_splits)
  with operand_step_Some [OF 2] Cons.IH [OF 3] show ?case by (simp add: add.assoc)
qed simp

lemma prefix_loop_None:
  assumes "prefix_loop m rex sz a g str = Some (opcode, rex', sz', (a', g', str'))"
  shows "prefix_loop m rex sz a g None = Some (opcode, rex', sz', (a', g', None)) \<and> (str' = None \<longleftrightarrow> str = None)"
proof -
  let ?P = "\<lambda>m rex sz a g str (opcode, rex', sz', a', g', str').
    prefix_loop m rex sz a g None = Some (opcode, rex', sz', (a', g', None)) \<and> (str' = None \<longleftrightarrow> str = None)"
  have "?P m rex sz a g str (opcode, rex', sz', a', g', str')"
  proof (rule prefix_loop.raw_induct [where P = ?P, OF _ assms], goal_cases)
    case (1 f m rex sz a g str y)
    show ?case
      using 1(2) by (subst prefix_loop.simps)
        (auto simp: Let_def bind_eq_Some_conv dest!: 1(1) emit_Some_iff split: if_splits)
  qed
  then show ?thesis by simp
qed

lemma disasm_end_None: "disasm_end start (a, g, None) = Some (a, g, None)"
  by (simp add: disasm_end_def)

lemma disasm_end_Some: "disasm_end start (a, g, str) = Some (a', g', str') \<Longrightarrow> a' = a \<and> (str' = None \<longleftrightarrow> str = None)"
  by (auto simp: disasm_end_def with_str_Some dest!: emit_Some_iff split: if_splits)

lemma disasm_unknown_None: "disasm_unknown start (a, g, None) = Some (a, g, None)"
  by (simp add: disasm_unknown_def disasm_end_None)

lemma disasm_unknown_Some:
  "disasm_unknown start (a, g, str) = Some (a', g', str') \<Longrightarrow> a' = a \<and> (str' = None \<longleftrightarrow> str = None)"
  by (auto simp: disasm_unknown_def bind_eq_Some_conv dest!: emit_Some_iff disasm_end_Some)

lemma disasm_print_None:
  "\<exists>e. disasm_print m start d inst nm (a, g, None) =
     Some (a + sum_list (map (operand_len (d\<lparr>d_i_size := e\<rparr>)) (inst_mode inst)), g, None)"
  by (auto simp: disasm_print_def Let_def operands_loop_None disasm_end_None)

lemma disasm_print_Some:
  "disasm_print m start d inst nm (a, g, str) = Some (a', g', str') \<Longrightarrow>
   (\<exists>g2. disasm_print m start d inst nm (a, g2, None) = Some (a', g2, None)) \<and> (str' = None \<longleftrightarrow> str = None)"
  by (auto simp: disasm_print_def Let_def operands_loop_None disasm_end_None bind_eq_Some_conv
      dest!: operands_loop_Some disasm_end_Some emit_Some_iff split: if_splits)

lemma disasm_print_None_state:
  "disasm_print m start d inst nm (a, g, None) = Some (a', g', None) \<Longrightarrow>
   disasm_print m start d inst nm (a, g2, None) = Some (a', g2, None)"
  by (auto simp: disasm_print_def Let_def operands_loop_None disasm_end_None)

text \<open>The common part of \<open>disasm_inst\<close> after the descriptor is found.\<close>

definition inst_tail :: "memory \<Rightarrow> addr \<Rightarrow> decoded \<Rightarrow> instdesc \<Rightarrow> dstate \<Rightarrow> dstate option" where
  "inst_tail m start d inst s =
     (case select_inst (d_opcode d) (d_modrm d) inst of
        None \<Rightarrow> disasm_unknown start s
      | Some inst \<Rightarrow> do {
          i_name \<leftarrow> mnemonic inst (d_reg d);
          if i_name = [] then disasm_unknown start s else disasm_print m start d inst i_name s })"

lemma disasm_inst_cases:
  obtains b where "\<And>str. disasm_inst m start opcode rex sz (a, g, str) = disasm_unknown start (b, g, str)"
      "find_inst m opcode a = (None, b)"
    | inst b c h d where
      "\<And>str. disasm_inst m start opcode rex sz (a, g, str) = inst_tail m start d inst (c, h, str)"
      "find_inst m opcode a = (Some inst, b)" "d_opcode d = opcode" "d_size d = sz" "d_rex d = rex"
      "d_reg d = (if inst_modrm inst then unat (push_bit 1 (rex AND 4) + (drop_bit 3 (d_modrm d) AND 7)) else 0)"
      "(if inst_modrm inst then decode_modrm m rex (m b) (b + 1) g else (b, g)) = (c, h)"
proof (cases "find_inst m opcode a")
  case (Pair oi b)
  show thesis
  proof (cases oi)
    case None
    then show ?thesis using that(1) [of b] Pair by (simp add: disasm_inst_def)
  next
    case (Some inst)
    define mr where "mr = (if inst_modrm inst then m b else 0)"
    define r where "r = (if inst_modrm inst then unat (push_bit 1 (rex AND 4) + (drop_bit 3 mr AND 7)) else 0)"
    obtain c h where dec: "(if inst_modrm inst then decode_modrm m rex (m b) (b + 1) g else (b, g)) = (c, h)"
      by fastforce
    let ?d = "\<lparr>d_rex = rex, d_size = sz, d_opcode = opcode, d_modrm = mr, d_reg = r, d_i_size = DA_NONE\<rparr>"
    have "disasm_inst m start opcode rex sz (a, g, str) = inst_tail m start ?d inst (c, h, str)" for str
      using Pair Some dec unfolding disasm_inst_def inst_tail_def Let_def mr_def r_def
      by (cases "inst_modrm inst") (simp_all cong: option.case_cong)
    then show ?thesis using that(2) [of ?d inst c h b] Pair Some dec by (simp add: r_def)
  qed
qed

lemma inst_tail_None:
  assumes "inst_tail m start d inst (a, g, str) = Some (a', g', str')"
  shows "inst_tail m start d inst (a, g, None) = Some (a', g, None) \<and> (str' = None \<longleftrightarrow> str = None)"
proof (cases "select_inst (d_opcode d) (d_modrm d) inst")
  case None
  then show ?thesis using assms disasm_unknown_Some by (fastforce simp: inst_tail_def disasm_unknown_None)
next
  case (Some i)
  then obtain nm where nm: "mnemonic i (d_reg d) = Some nm" using assms by (auto simp: inst_tail_def bind_eq_Some_conv)
  show ?thesis
  proof (cases "nm = []")
    case True
    then show ?thesis
      using assms Some nm disasm_unknown_Some by (fastforce simp: inst_tail_def disasm_unknown_None)
  next
    case False
    then have "disasm_print m start d i nm (a, g, str) = Some (a', g', str')"
      using assms Some nm by (simp add: inst_tail_def)
    from disasm_print_Some [OF this] show ?thesis
      using Some nm False disasm_print_None_state by (fastforce simp: inst_tail_def)
  qed
qed

lemma disasm_inst_None:
  assumes "disasm_inst m start opcode rex sz (a, g, str) = Some (a', g', str')"
  shows "(\<exists>g2. disasm_inst m start opcode rex sz (a, g, None) = Some (a', g2, None)) \<and> (str' = None \<longleftrightarrow> str = None)"
proof (rule disasm_inst_cases [of m start opcode rex sz a g], goal_cases)
  case (1 b)
  then show ?thesis using assms disasm_unknown_Some by (fastforce simp: disasm_unknown_None)
next
  case (2 inst b c h d)
  then show ?thesis using assms inst_tail_None [of m start d inst c h str] by auto
qed

text \<open>
  C23: where the next instruction starts does not depend on whether text is produced: when \<open>disasm\<close>
  returns with an output buffer, it returns the same address without one.
\<close>

theorem disasm_output_independent:
  assumes "disasm m start g str = Some (a, g', str')"
  shows "(\<exists>g2. disasm m start g None = Some (a, g2, None)) \<and> (str' = None \<longleftrightarrow> str = None)"
proof -
  let ?g = "g\<lparr>addr_seg := 0, addr_saddr := DA_QUAD, addr_base := None, addr_idx := None\<rparr>"
  obtain opcode rex sz a1 g1 str1 where p: "prefix_loop m 0 DA_LONG start ?g str = Some (opcode, rex, sz, (a1, g1, str1))"
    using assms by (auto simp: disasm_def bind_eq_Some_conv)
  note q = prefix_loop_None [OF p]
  show ?thesis
  proof (cases "opcode = 0x90")
    case True
    then show ?thesis
      using assms p q by (auto simp: disasm_def bind_eq_Some_conv with_str_Some dest!: emit_Some_iff)
  next
    case False
    then have "disasm_inst m start opcode rex sz (a1, g1, str1) = Some (a, g', str')"
      using assms p by (simp add: disasm_def)
    from disasm_inst_None [OF this] show ?thesis using q False by (simp add: disasm_def)
  qed
qed

section \<open>The disassembler returns, and instructions are short\<close>

definition operand_max :: "operand \<Rightarrow> nat" where
  "operand_max k =
     (if k \<in> {DA_I, DA_Is, DA_Dl} then 4 else if k \<in> {DA_Ib, DA_Iba, DA_Ibs, DA_Db} then 1
      else if k \<in> {DA_Iw, DA_O} then 2 else if k = DA_Iq then 8 else if k = DA_OS then 10 else 0)"

text \<open>
  A check of every descriptor: its operands take at most ten bytes, and where it has no name of its own there is a table of eight names, or a
  group.
\<close>

definition good_name :: "instdesc \<Rightarrow> bool" where
  "good_name i \<longleftrightarrow> (case inst_name i of Some _ \<Rightarrow> True
     | None \<Rightarrow> (case inst_ext i of ExtNames ns \<Rightarrow> length ns = 8 | _ \<Rightarrow> False))"

definition good_inst :: "instdesc \<Rightarrow> bool" where
  "good_inst i \<longleftrightarrow> sum_list (map operand_max (inst_mode i)) \<le> 10 \<and>
     (good_name i \<or> (case inst_ext i of ExtGrp gr \<Rightarrow> group_tbl gr \<noteq> None | _ \<Rightarrow> False))"

lemma tables_good:
  "list_all good_inst inst_tbl_0" "list_all good_inst inst_tbl_1" "list_all good_inst inst_tbl_2" "list_all good_inst inst_tbl_3"
  "list_all (\<lambda>t. case t of None \<Rightarrow> True | Some t \<Rightarrow> list_all good_inst t \<and> length t \<ge> 16) inst_tbl0f"
  "list_all (\<lambda>gr. case group_tbl gr of None \<Rightarrow> True | Some t \<Rightarrow> list_all (\<lambda>i. good_inst i \<and> good_name i) t \<and> length t = 8)
     [grp3, grp4, grp5, grp7]"
  by code_simp+

lemma table_lengths: "length inst_tbl = 256" "length inst_tbl0f = 16"
  by code_simp+

lemma operand_len_max: "\<exists>n \<le> operand_max k. operand_len d k = of_nat n"
proof (cases "k = DA_OS \<or> k \<in> {DA_I, DA_Is}")
  case True
  then have "operand_len d k \<in> {2, 3, 4, 6, 10}" "operand_len d k \<in> {2, 4} \<or> k = DA_OS"
    by (auto simp: operand_len_def)
  then show ?thesis
    using True by (auto simp: operand_max_def intro: exI [of _ 2] exI [of _ 3] exI [of _ 4] exI [of _ 6] exI [of _ 10])
next
  case False
  then have "operand_len d k = of_nat (operand_max k)" by (auto simp: operand_len_def operand_max_def)
  then show ?thesis by blast
qed

lemma operands_len_max: "\<exists>n \<le> sum_list (map operand_max ks). sum_list (map (operand_len d) ks) = of_nat n"
proof (induction ks)
  case (Cons k ks)
  then obtain n p where "n \<le> sum_list (map operand_max ks)" "sum_list (map (operand_len d) ks) = of_nat n"
      "p \<le> operand_max k" "operand_len d k = of_nat p"
    using operand_len_max by blast
  then show ?case by (intro exI [of _ "p + n"]) simp
qed simp

lemma decode_modrm_len:
  assumes "decode_modrm m rex mr a g = (c, h)"
  shows "\<exists>n \<le> 5. c = a + of_nat n"
proof -
  obtain rm a1 g1 where sib: "decode_sib m rex mr a (g\<lparr>addr_disp := 0, addr_base := None, addr_idx := None, addr_scale := 0, addr_reg := False\<rparr>) = (rm, a1, g1)"
    by (rule prod_cases3)
  then have "a1 = a \<or> a1 = a + 1" by (auto simp: decode_sib_def Let_def split: if_splits)
  then obtain j :: nat where j: "j \<le> 1" "a1 = a + of_nat j" by (auto intro: that [of 0] that [of 1])
  have "c = a \<or> c = a1 \<or> c = a1 + 1 \<or> c = a1 + 4"
    using assms sib by (auto simp: decode_modrm_def Let_def split: if_splits)
  then show ?thesis using j by (auto intro: exI [of _ 0] exI [of _ j] exI [of _ "j + 1"] exI [of _ "j + 4"])
qed

lemma nibbles: "unat (drop_bit 4 (b :: u8)) < 16" "unat ((b :: u8) AND 0xF) < 16" "unat ((b :: u8) AND 7) < 8"
proof -
  have "unat (drop_bit 4 b) = unat b div 16" by (simp add: drop_bit_eq_div unat_div)
  moreover have "unat b < 2 ^ LENGTH(8)" by (rule unsigned_less)
  ultimately show "unat (drop_bit 4 b) < 16" by simp
  have "b AND 0xF \<le> 0xF" "b AND 7 \<le> 7" by (rule word_and_le1)+
  then show "unat (b AND 0xF) < 16" "unat (b AND 7) < 8" by (simp_all add: word_le_nat_alt)
qed

lemma find_inst_good:
  assumes "find_inst m opcode a = (oi, b)"
  shows "(\<exists>n \<le> 1. b = a + of_nat n) \<and> (\<forall>inst. oi = Some inst \<longrightarrow> good_inst inst)"
proof (cases "opcode = 0x0F")
  case True
  have "good_inst inst" if oi: "oi = Some inst" for inst
  proof -
    obtain t where t: "inst_tbl0f ! unat (drop_bit 4 (m a)) = Some t" "inst = t ! unat (m a AND 0xF)"
      using assms True oi by (cases "inst_tbl0f ! unat (drop_bit 4 (m a))") (auto simp: find_inst_def)
    have "Some t \<in> set inst_tbl0f" using t(1) nibbles(1) [of "m a"] table_lengths by (metis nth_mem)
    then have "list_all good_inst t" "16 \<le> length t" using tables_good(5) unfolding list_all_iff by auto
    then show ?thesis using t(2) nibbles(2) [of "m a"] by (simp add: list_all_length)
  qed
  then show ?thesis using assms True by (auto simp: find_inst_def intro: exI [of _ 1])
next
  case False
  then have "oi = Some (inst_tbl ! unat opcode)" "b = a" using assms by (auto simp: find_inst_def)
  moreover have "inst_tbl ! unat opcode \<in> set inst_tbl" 
    using table_lengths unsigned_less [of opcode, where ?'a = nat] by (intro nth_mem) simp
  moreover have "\<forall>i \<in> set inst_tbl. good_inst i" using tables_good(1-4) unfolding inst_tbl_def list_all_iff by auto
  ultimately show ?thesis by (auto intro: exI [of _ 0])
qed

lemma select_inst_good:
  assumes "good_inst inst" "select_inst opcode mr inst = Some i"
  shows "good_name i \<and> sum_list (map operand_max (inst_mode i)) \<le> 10"
proof (cases "good_name inst")
  case True
  show ?thesis
  proof (cases "\<exists>gr t. inst_ext inst = ExtGrp gr \<and> group_tbl gr = Some t \<and> i = t ! unat (drop_bit 3 mr AND 7)")
    case True
    then obtain gr t where t: "group_tbl gr = Some t" "i = t ! unat (drop_bit 3 mr AND 7)" by blast
    have "gr \<in> set [grp3, grp4, grp5, grp7]" using t(1) by (cases gr) auto
    then have "list_all (\<lambda>i. good_inst i \<and> good_name i) t" "length t = 8" using tables_good(6) t(1) unfolding list_all_iff by auto
    then show ?thesis using t(2) nibbles(3) [of "drop_bit 3 mr"] by (simp add: list_all_length good_inst_def)
  next
    case False
    then have "i = inst" using assms(2) by (auto simp: select_inst_def split: if_splits ext.splits option.splits)
    then show ?thesis using True assms(1) by (simp add: good_inst_def)
  qed
next
  case False
  then obtain gr t where g: "inst_ext inst = ExtGrp gr" "group_tbl gr = Some t" "inst_name inst = None"
    using assms(1) by (auto simp: good_inst_def good_name_def split: ext.splits option.splits)
  then have i: "i = t ! unat (drop_bit 3 mr AND 7)" using assms(2) by (auto simp: select_inst_def split: if_splits)
  have "gr \<in> set [grp3, grp4, grp5, grp7]" using g(2) by (cases gr) auto
  then have "list_all (\<lambda>i. good_inst i \<and> good_name i) t" "length t = 8" using tables_good(6) g(2) unfolding list_all_iff by auto
  then show ?thesis using i nibbles(3) [of "drop_bit 3 mr"] by (simp add: list_all_length good_inst_def)
qed

lemma inst_tail_returns:
  assumes "good_inst inst" "d_reg d < 8"
  shows "\<exists>n \<le> 10. inst_tail m start d inst (a, g, None) = Some (a + of_nat n, g, None)"
proof (cases "select_inst (d_opcode d) (d_modrm d) inst")
  case None
  then show ?thesis by (auto simp: inst_tail_def disasm_unknown_None intro: exI [of _ 0])
next
  case (Some i)
  note good = select_inst_good [OF assms(1) Some]
  then obtain nm where nm: "mnemonic i (d_reg d) = Some nm"
    using assms(2) by (auto simp: good_name_def mnemonic_def split: option.splits ext.splits)
  show ?thesis
  proof (cases "nm = []")
    case True
    then show ?thesis using Some nm by (auto simp: inst_tail_def disasm_unknown_None intro: exI [of _ 0])
  next
    case False
    obtain e where "disasm_print m start d i nm (a, g, None) =
        Some (a + sum_list (map (operand_len (d\<lparr>d_i_size := e\<rparr>)) (inst_mode i)), g, None)"
      using disasm_print_None by blast
    moreover obtain n where "n \<le> 10" "sum_list (map (operand_len (d\<lparr>d_i_size := e\<rparr>)) (inst_mode i)) = of_nat n"
      using operands_len_max [of "inst_mode i"] good by (meson order_trans)
    ultimately show ?thesis using Some nm False by (auto simp: inst_tail_def)
  qed
qed

lemma disasm_inst_returns:
  assumes "rex AND 4 = 0"
  shows "\<exists>n g'. n \<le> 17 \<and> disasm_inst m start opcode rex sz (a, g, None) = Some (a + of_nat n, g', None)"
proof (rule disasm_inst_cases [of m start opcode rex sz a g], goal_cases)
  case (1 b)
  obtain n where "n \<le> 1" "b = a + of_nat n" using find_inst_good [OF 1(2)] by blast
  then show ?case using 1(1) by (intro exI [of _ n] exI [of _ g]) (simp add: disasm_unknown_None)
next
  case (2 inst b c h d)
  have "d_reg d < 8" unfolding 2(6) using assms nibbles(3) [of "drop_bit 3 (d_modrm d)"] by simp
  moreover obtain n1 where n1: "n1 \<le> 1" "b = a + of_nat n1" "good_inst inst" using find_inst_good [OF 2(2)] by blast
  ultimately obtain n3 where n3: "n3 \<le> 10" "inst_tail m start d inst (c, h, None) = Some (c + of_nat n3, h, None)"
    using inst_tail_returns by blast
  obtain n2 where n2: "n2 \<le> 6" "c = b + of_nat n2"
  proof (cases "inst_modrm inst")
    case True
    then obtain n where "n \<le> 5" "c = b + 1 + of_nat n" using decode_modrm_len 2(7) by (metis (full_types))
    then show ?thesis using that [of "Suc n"] by simp
  next
    case False
    then show ?thesis using that [of 0] 2(7) by simp
  qed
  show ?case using n1 n2 n3 2(1) by (intro exI [of _ "n1 + n2 + n3"] exI [of _ h]) (simp add: add.assoc)
qed

definition is_prefix :: "u8 \<Rightarrow> bool" where
  "is_prefix b \<longleftrightarrow> b \<in> {0x26, 0x36, 0x2E, 0x3E, 0x64, 0x65, 0x66, 0x67, 0xF0, 0xF2, 0xF3}"

lemma prefix_loop_returns:
  assumes "\<forall>j < k. is_prefix (m (a + of_nat j))" "\<not> is_prefix (m (a + of_nat k))" "m (a + of_nat k) AND 0xF0 \<noteq> 0x40"
    "rex AND 4 = 0"
  shows "\<exists>rex' sz' g'. prefix_loop m rex sz a g None = Some (m (a + of_nat k), rex', sz', (a + of_nat k + 1, g', None)) \<and> rex' AND 4 = 0"
  using assms
proof (induction k arbitrary: a rex sz g)
  case 0
  then show ?case by (subst prefix_loop.simps) (auto simp: is_prefix_def Let_def)
next
  case (Suc k)
  have sh: "a + 1 + of_nat j = a + of_nat (Suc j)" for j by simp
  have IH: "\<exists>rex' sz' g'. prefix_loop m r z (a + 1) h None =
      Some (m (a + of_nat (Suc k)), rex', sz', (a + of_nat (Suc k) + 1, g', None)) \<and> rex' AND 4 = 0" if "r AND 4 = 0" for r z h
  proof -
    have "\<forall>j < k. is_prefix (m (a + 1 + of_nat j))" unfolding sh using Suc.prems(1) by blast
    from Suc.IH [OF this, unfolded sh, OF Suc.prems(2,3) that] show ?thesis .
  qed
  have "is_prefix (m a)" using Suc.prems(1) [rule_format, of 0] by simp
  then consider "m a \<in> {0x26, 0x36, 0x2E, 0x3E}" | "m a = 0x64" | "m a = 0x65" | "m a = 0x66" | "m a = 0x67" | "m a \<in> {0xF0, 0xF2, 0xF3}"
    by (auto simp: is_prefix_def)
  then show ?case
    by cases (use IH [of rex sz] IH [of "0x40" DA_WORD g] Suc.prems(4) in
      \<open>subst prefix_loop.simps; auto simp: Let_def simp del: of_nat_Suc\<close>)+
qed


section \<open>Concrete instructions\<close>

text \<open>\<^verbatim>\<open>C3\<close> is \<^verbatim>\<open>ret\<close>.\<close>

definition ret_code :: memory where
  "ret_code = (\<lambda>_. 0)(0x1000 := 0xC3)"

definition addr_init :: addr_state where
  "addr_init = \<lparr>addr_reg = False, addr_scale = 0, addr_disp = 0, addr_seg = 0, addr_saddr = 0, addr_base = None, addr_idx = None\<rparr>"

lemma inst_C3: "inst_tbl ! 0xC3 = Inst (Some ''ret'') DA_NONE False [] Ext0"
  by code_simp

lemma sprintf_mnemonic: "dbg_sprintf (''%6s'' @ [CHR 0x09]) [SStr (Some t)] = Some (t @ [CHR 0x09])"
  by (simp add: dbg_sprintf_def is_dec_def skip_l_def)

lemma prefix_loop_ret:
  "prefix_loop ret_code 0 DA_LONG 0x1000 g str = Some (0xC3, 0, DA_LONG, (0x1001, g, str))"
  by (subst prefix_loop.simps) (simp add: ret_code_def Let_def)

lemma disasm_ret: "\<exists>g'. disasm ret_code 0x1000 addr_init (Some []) = Some (0x1001, g', Some (''ret'' @ [CHR 0x09]))"
  by (simp add: disasm_def prefix_loop_ret disasm_inst_def find_inst_def inst_C3 select_inst_def mnemonic_def
      disasm_print_def Let_def emit_def sprintf_mnemonic [simplified] disasm_end_def)

theorem disasm_output_independent_witness:
  "\<exists>g' g2. disasm ret_code 0x1000 addr_init (Some []) = Some (0x1001, g', Some (''ret'' @ [CHR 0x09])) \<and>
     disasm ret_code 0x1000 addr_init None = Some (0x1001, g2, None)"
proof -
  obtain g' where r: "disasm ret_code 0x1000 addr_init (Some []) = Some (0x1001, g', Some (''ret'' @ [CHR 0x09]))"
    using disasm_ret by blast
  from disasm_output_independent [OF r] r show ?thesis by blast
qed


text \<open>
  The shifts by one or by \<^verbatim>\<open>cl\<close>, opcodes \<^verbatim>\<open>D0\<close> to \<^verbatim>\<open>D3\<close>, have names in \<open>grp2\<close> but are always printed as unknown: the test for the floating-point
  escapes starts at \<^verbatim>\<open>D0\<close> instead of \<^verbatim>\<open>D8\<close>.
\<close>

lemma inst_D0_D3:
  "list_all (\<lambda>op. inst_name (inst_tbl ! op) = None \<and> inst_modrm (inst_tbl ! op) \<and> inst_ext (inst_tbl ! op) = ExtNames grp2)
     [0xD0, 0xD1, 0xD2, 0xD3]"
  by code_simp

theorem shifts_unknown:
  assumes "opcode \<in> {0xD0, 0xD1, 0xD2, 0xD3}"
  shows "select_inst opcode mr (inst_tbl ! unat opcode) = None"
proof -
  have "unat opcode \<in> set [0xD0, 0xD1, 0xD2, 0xD3]" using assms by auto
  then have "inst_name (inst_tbl ! unat opcode) = None" "inst_ext (inst_tbl ! unat opcode) = ExtNames grp2"
    using inst_D0_D3 unfolding list_all_iff by blast+
  then show ?thesis using assms by (auto simp: select_inst_def)
qed

end
