(* ===== verification/Debugger.thy ===== *)
theory Debugger
  imports Dbg_Cmd Disasm
begin

text \<open>
  The kernel debugger, second part of \<^verbatim>\<open>arch/x86_64/debug/debug.c\<close>: its commands, their dispatch and the loop of
  \<^verbatim>\<open>dbg_main\<close>, which runs on every debug trap.

  The state is what the commands read and change: the debug output and the serial line behind it, memory (with the command buffer and the
  disassembly buffer at fixed addresses), \<^verbatim>\<open>argv_buffer\<close>, \<^verbatim>\<open>stepping\<close>, the globals of the disassembler and the debug registers.  The saved registers of the
  interrupted program are passed beside it.  \<open>None\<close> is behaviour C leaves undefined, or a loop that does not end.
\<close>

section \<open>State\<close>

record gp_regs =
  rax :: u64
  rbx :: u64
  rcx :: u64
  rdx :: u64
  rsi :: u64
  rdi :: u64
  r8 :: u64
  r9 :: u64
  r10 :: u64
  r11 :: u64
  r12 :: u64
  r13 :: u64
  r14 :: u64
  r15 :: u64
  rbp :: u64
  gp_rsp :: u64

record int_frame =
  ecode :: u64
  rip :: u64
  seg_cs :: u64
  rflags :: u64
  rsp :: u64
  seg_ss :: u64

record int_info =
  iregs :: gp_regs
  iframe :: int_frame

record 'h kdbg =
  con :: dbgio
  ser :: "'h serial"
  mem :: memory
  argv_buffer :: "addr list"
  stepping :: bool
  dis :: addr_state
  dr :: "u64 list"
  dr6 :: u64
  dr7 :: u64

text \<open>The hardware and the addresses the linker gives.\<close>

record 'h dbg_env =
  ports :: "'h io_ports"
  cmd_buffer :: addr
  dbg_disasm_buffer :: addr
  putc_fn :: addr

datatype dbg_res = DBG_SUCCESS | DBG_CONTINUE | DBG_STEP | DBG_UNKNOWN_CMD | DBG_INVALID_PARAMS

section \<open>Messages\<close>

definition text_lit :: "string \<Rightarrow> ctext" where
  "text_lit s i = (if unat i < length s then of_char (s ! unat i) else 0)"

text \<open>
  The characters go to the registered sinks in order; the only function of the kernel that is registered is
  \<^verbatim>\<open>dbg_serial_putc\<close>, and a call through any other pointer is undefined.
\<close>

primrec run_sinks :: "'h dbg_env \<Rightarrow> (addr \<times> u8) list \<Rightarrow> 'h serial \<Rightarrow> 'h serial option" where
  "run_sinks e [] s = Some s"
| "run_sinks e (ac # cs) s =
     (if fst ac = putc_fn e then do { s \<leftarrow> dbg_serial_putc (ports e) (snd ac) s; run_sinks e cs s } else None)"

definition msg :: "'h dbg_env \<Rightarrow> string \<Rightarrow> dbg_arg list \<Rightarrow> 'h kdbg \<Rightarrow> 'h kdbg option" where
  "msg e fmt args st = do {
     r \<leftarrow> dbg_msg (text_lit fmt) args ((con st)\<lparr>calls := []\<rparr>);
     s \<leftarrow> run_sinks e (calls (snd r)) (ser st);
     Some (st\<lparr>con := (snd r)\<lparr>calls := []\<rparr>, ser := s\<rparr>) }"

definition nl :: string where "nl = [CHR 0x0A]"

section \<open>Commands\<close>

definition DBG_REGS_ARRAY :: "int_info \<Rightarrow> (string \<times> u64) list" where
  "DBG_REGS_ARRAY i =
     [(''rax'', rax (iregs i)), (''rbx'', rbx (iregs i)), (''rcx'', rcx (iregs i)), (''rdx'', rdx (iregs i)),
      (''rsi'', rsi (iregs i)), (''rdi'', rdi (iregs i)), (''rsp'', rsp (iframe i)), (''rbp'', rbp (iregs i)),
      (''r8'', r8 (iregs i)), (''r9'', r9 (iregs i)), (''r10'', r10 (iregs i)), (''r11'', r11 (iregs i)),
      (''r12'', r12 (iregs i)), (''r13'', r13 (iregs i)), (''r14'', r14 (iregs i)), (''r15'', r15 (iregs i)),
      (''rip'', rip (iframe i)), (''cs'', seg_cs (iframe i)), (''ss'', seg_ss (iframe i)), (''rflags'', rflags (iframe i))]"

text \<open>The loop over a table of names with \<^verbatim>\<open>dbg_strcmp\<close>: the entry found, if any.\<close>

primrec find_name :: "ctext \<Rightarrow> (string \<times> 'a) list \<Rightarrow> 'a option option" where
  "find_name t [] = Some None"
| "find_name t (r # rs) = do {
     c \<leftarrow> dbg_strcmp t (text_lit (fst r));
     if c = 0 then Some (Some (snd r)) else find_name t rs }"

definition arg_text :: "'h kdbg \<Rightarrow> addr list \<Rightarrow> nat \<Rightarrow> ctext" where
  "arg_text st argv k = (\<lambda>i. mem st (argv ! k + i))"

type_synonym 'h command = "nat \<Rightarrow> addr list \<Rightarrow> int_info \<Rightarrow> 'h kdbg \<Rightarrow> (dbg_res \<times> 'h kdbg) option"

definition dbg_do_cntn :: "'h dbg_env \<Rightarrow> 'h command" where
  "dbg_do_cntn e argc argv info st = Some (DBG_CONTINUE, st)"

text \<open>The registers from number \<open>i\<close> on, \<^verbatim>\<open>count\<close> in all.\<close>

primrec reg_loop :: "'h dbg_env \<Rightarrow> nat \<Rightarrow> nat \<Rightarrow> (string \<times> u64) list \<Rightarrow> 'h kdbg \<Rightarrow> 'h kdbg option" where
  "reg_loop e cnt i [] st = Some st"
| "reg_loop e cnt i (r # rs) st = do {
     st \<leftarrow> msg e ''%s: 0x%lx '' [VStr (text_lit (fst r)), VInt (snd r)] st;
     st \<leftarrow> (if (i + 1) mod 4 = 0 \<or> i = cnt - 1 then msg e nl [] st else Some st);
     reg_loop e cnt (i + 1) rs st }"

definition dbg_do_reg :: "'h dbg_env \<Rightarrow> 'h command" where
  "dbg_do_reg e argc argv info st =
     (let regs = DBG_REGS_ARRAY info in
      if argc = 0 then do {
        st \<leftarrow> reg_loop e (length regs) 0 regs st;
        Some (DBG_SUCCESS, st)
      } else if argc = 1 then do {
        f \<leftarrow> find_name (arg_text st argv 0) regs;
        case f of
          Some v \<Rightarrow> do { st \<leftarrow> msg e (''0x%lx'' @ nl) [VInt v] st; Some (DBG_SUCCESS, st) }
        | None \<Rightarrow> do {
            st \<leftarrow> msg e (''Unknown register %s'' @ nl) [VStr (arg_text st argv 0)] st;
            Some (DBG_INVALID_PARAMS, st) }
      } else Some (DBG_INVALID_PARAMS, st))"

datatype dbg_access = DBG_ACCESS_NONE | DBG_ACCESS_EX | DBG_ACCESS_MA

text \<open>\<^verbatim>\<open>DBG_DR0\<close> to \<^verbatim>\<open>DBG_DR3\<close> are 1 to 4.\<close>

definition bp_dr7 :: "u64 \<Rightarrow> dbg_access \<Rightarrow> nat \<Rightarrow> u64 \<Rightarrow> u64" where
  "bp_dr7 bp access reg v =
     (let enable_bit = (reg - 1) * 2 + 1; type_bit = 16 + (reg - 1) * 4 in
      if access = DBG_ACCESS_NONE \<and> bp = 0 then
        v AND NOT (push_bit (enable_bit - 1) 1 OR push_bit enable_bit 1 OR push_bit type_bit 3 OR push_bit (type_bit + 2) 3)
      else let
          v = v OR push_bit enable_bit 1;
          v = v AND NOT (push_bit type_bit 3);
          v = v AND NOT (push_bit (type_bit + 2) 3)
        in if access = DBG_ACCESS_MA then v OR push_bit type_bit 3 else v)"

definition dbg_do_hardware_bp :: "'h dbg_env \<Rightarrow> 'h command" where
  "dbg_do_hardware_bp e argc argv info st =
     (if argc \<noteq> 3 then Some (DBG_INVALID_PARAMS, st)
      else do {
        bp \<leftarrow> dbg_atol (arg_text st argv 0);
        reg \<leftarrow> find_name (arg_text st argv 1) [(''dr0'', 1), (''dr1'', 2), (''dr2'', 3), (''dr3'', 4 :: nat)];
        case reg of
          None \<Rightarrow> do {
            st \<leftarrow> msg e (''Invalid register %s'' @ nl) [VStr (arg_text st argv 1)] st;
            Some (DBG_INVALID_PARAMS, st) }
        | Some reg \<Rightarrow> do {
            access \<leftarrow> find_name (arg_text st argv 2) [(''0'', DBG_ACCESS_NONE), (''ex'', DBG_ACCESS_EX), (''ma'', DBG_ACCESS_MA)];
            case access of
              None \<Rightarrow> Some (DBG_INVALID_PARAMS, st)
            | Some access \<Rightarrow>
                let st = (if access = DBG_ACCESS_NONE \<and> bp = 0 then st else st\<lparr>dr := (dr st)[reg - 1 := bp]\<rparr>)
                in Some (DBG_SUCCESS, st\<lparr>dr7 := bp_dr7 bp access reg (dr7 st)\<rparr>) }
      })"

definition dbg_do_step :: "'h dbg_env \<Rightarrow> 'h command" where
  "dbg_do_step e argc argv info st = Some (DBG_STEP, st)"

text \<open>\<^verbatim>\<open>base\<close> goes up to \<^verbatim>\<open>limit\<close>; \<^verbatim>\<open>c\<close> counts the bytes of a row.\<close>

partial_function (option) dumphex_loop :: "'h dbg_env \<Rightarrow> addr \<Rightarrow> addr \<Rightarrow> nat \<Rightarrow> 'h kdbg \<Rightarrow> 'h kdbg option" where
  [code]: "dumphex_loop e base limit c st =
     (if base < limit then do {
        st \<leftarrow> msg e ''0x%b '' [VInt (ucast (mem st base))] st;
        let base = base + 1;
        let c = c + 1;
        st \<leftarrow> (if c = 8 then msg e '' '' [] st else Some st);
        if c = 16 \<and> base < limit then do {
          st \<leftarrow> msg e (nl @ ''0x%lx: '') [VInt base] st;
          dumphex_loop e base limit 0 st
        } else dumphex_loop e base limit c st
      } else Some st)"

text \<open>The base address of \<^verbatim>\<open>x\<close> and \<^verbatim>\<open>disasm\<close>: the value of a register, or else a number.\<close>

definition base_arg :: "ctext \<Rightarrow> int_info \<Rightarrow> u64 option" where
  "base_arg t info = do {
     f \<leftarrow> find_name t (DBG_REGS_ARRAY info);
     let base = (case f of Some v \<Rightarrow> v | None \<Rightarrow> 0);
     if base = 0 then dbg_atol t else Some base }"

definition dbg_do_dumphex :: "'h dbg_env \<Rightarrow> 'h command" where
  "dbg_do_dumphex e argc argv info st = do {
     base \<leftarrow> base_arg (arg_text st argv 0) info;
     if base = 0 then Some (DBG_INVALID_PARAMS, st)
     else do {
       n \<leftarrow> dbg_atol (arg_text st argv 1);
       st \<leftarrow> msg e ''0x%lx: '' [VInt base] st;
       st \<leftarrow> dumphex_loop e base (base + n) 0 st;
       st \<leftarrow> msg e nl [] st;
       Some (DBG_SUCCESS, st) } }"

text \<open>\<^verbatim>\<open>disasm(base, dbg_disasm_buffer); dbg_msg("0x%lx: %s\n", base, dbg_disasm_buffer);\<close>\<close>

definition show_inst :: "'h dbg_env \<Rightarrow> addr \<Rightarrow> 'h kdbg \<Rightarrow> (addr \<times> 'h kdbg) option" where
  "show_inst e base st = do {
     r \<leftarrow> disasm (mem st) base (dis st) (Some []);
     let st = st\<lparr>dis := fst (snd r),
       mem := write_bytes (mem st) (dbg_disasm_buffer e) (map of_char (the (snd (snd r))) @ [0])\<rparr>;
     st \<leftarrow> msg e (''0x%lx: %s'' @ nl) [VInt base, VStr (\<lambda>i. mem st (dbg_disasm_buffer e + i))] st;
     Some (fst r, st) }"

primrec disassembly_loop :: "'h dbg_env \<Rightarrow> nat \<Rightarrow> addr \<Rightarrow> 'h kdbg \<Rightarrow> 'h kdbg option" where
  "disassembly_loop e 0 base st = Some st"
| "disassembly_loop e (Suc n) base st = do { r \<leftarrow> show_inst e base st; disassembly_loop e n (fst r) (snd r) }"

definition dbg_do_disassembly :: "'h dbg_env \<Rightarrow> 'h command" where
  "dbg_do_disassembly e argc argv info st =
     (if argc \<noteq> 2 then Some (DBG_INVALID_PARAMS, st)
      else do {
        base \<leftarrow> base_arg (arg_text st argv 0) info;
        if base = 0 then Some (DBG_INVALID_PARAMS, st)
        else do {
          n \<leftarrow> dbg_atol (arg_text st argv 1);
          let instCount = sint (ucast n :: u32);
          if instCount = 0 then Some (DBG_INVALID_PARAMS, st)
          else do { st \<leftarrow> disassembly_loop e (nat instCount) base st; Some (DBG_SUCCESS, st) } } })"

definition dbg_do_help :: "'h dbg_env \<Rightarrow> 'h command" where
  "dbg_do_help e argc argv info st = do {
     st \<leftarrow> msg e (''c -=- continue execution'' @ nl) [] st;
     st \<leftarrow> msg e (''s -=- single step instructions'' @ nl) [] st;
     st \<leftarrow> msg e (''reg [register] -=- print contents of a register'' @ nl) [] st;
     st \<leftarrow> msg e (''hbp [addr] [reg] [cond] -=- set a hardware breakpoint'' @ nl) [] st;
     st \<leftarrow> msg e (''x [addr] [count] -=- print [count] bytes at [addr]'' @ nl) [] st;
     st \<leftarrow> msg e (''disasm [addr] [count] -=- disassemble [count] instructions at [addr]'' @ nl) [] st;
     st \<leftarrow> msg e (''help -=- print this message'' @ nl) [] st;
     Some (DBG_SUCCESS, st) }"

definition cmd_table :: "'h dbg_env \<Rightarrow> (string \<times> 'h command) list" where
  "cmd_table e =
     [(''c'', dbg_do_cntn e), (''s'', dbg_do_step e), (''reg'', dbg_do_reg e), (''hbp'', dbg_do_hardware_bp e),
      (''x'', dbg_do_dumphex e), (''disasm'', dbg_do_disassembly e), (''help'', dbg_do_help e)]"

definition dbg_exec :: "'h dbg_env \<Rightarrow> 'h command" where
  "dbg_exec e argc argv info st =
     (if argc = 0 then Some (DBG_UNKNOWN_CMD, st)
      else do {
        f \<leftarrow> find_name (arg_text st argv 0) (cmd_table e);
        case f of None \<Rightarrow> Some (DBG_UNKNOWN_CMD, st) | Some func \<Rightarrow> func (argc - 1) (tl argv) info st })"

section \<open>The main loop\<close>

definition TF :: u64 where "TF = push_bit 8 1"

definition set_rflags :: "u64 \<Rightarrow> int_info \<Rightarrow> int_info" where
  "set_rflags v info = info\<lparr>iframe := (iframe info)\<lparr>rflags := v\<rparr>\<rparr>"

text \<open>One turn: the prompt, a line, and the command on it.\<close>

definition dbg_turn :: "'h dbg_env \<Rightarrow> int_info \<Rightarrow> 'h kdbg \<Rightarrow> (dbg_res \<times> 'h kdbg) option" where
  "dbg_turn e info st = do {
     st \<leftarrow> msg e ''/> '' [] st;
     r \<leftarrow> dbg_getcmd (ports e) (cmd_buffer e) 256 (mem st) (ser st);
     let st = st\<lparr>mem := fst (snd r), ser := snd (snd r)\<rparr>;
     if fst r = 0 then Some (DBG_SUCCESS, st)
     else do {
       p \<leftarrow> dbg_parsecmd (cmd_buffer e) (argv_buffer st) 8 (mem st);
       let st = st\<lparr>argv_buffer := fst (snd p), mem := snd (snd p)\<rparr>;
       dbg_exec e (fst p) (argv_buffer st) info st } }"

partial_function (option) dbg_loop :: "'h dbg_env \<Rightarrow> int_info \<Rightarrow> 'h kdbg \<Rightarrow> (int_info \<times> 'h kdbg) option" where
  [code]: "dbg_loop e info st = do {
     r \<leftarrow> dbg_turn e info st;
     if fst r = DBG_UNKNOWN_CMD then do { st \<leftarrow> msg e (''Error: Unknown command'' @ nl) [] (snd r); dbg_loop e info st }
     else if fst r = DBG_INVALID_PARAMS then do { st \<leftarrow> msg e (''Error: Invalid parameter'' @ nl) [] (snd r); dbg_loop e info st }
     else if fst r = DBG_CONTINUE then Some (info, snd r)
     else if fst r = DBG_STEP then Some (set_rflags (rflags (iframe info) OR TF) info, (snd r)\<lparr>stepping := True\<rparr>)
     else dbg_loop e info (snd r) }"

text \<open>The number of the debug register that \<^verbatim>\<open>dr6\<close> blames, if it is one alone.\<close>

definition break_condition :: "u64 \<Rightarrow> nat option" where
  "break_condition v =
     (let b = v AND 0xF in if b = 1 then Some 0 else if b = 2 then Some 1 else if b = 4 then Some 2 else if b = 8 then Some 3 else None)"

definition dbg_main :: "'h dbg_env \<Rightarrow> int_info \<Rightarrow> 'h kdbg \<Rightarrow> (int_info \<times> 'h kdbg) option" where
  "dbg_main e info st = do {
     st \<leftarrow> (if stepping st then Some st
            else case break_condition (dr6 st) of None \<Rightarrow> Some st
              | Some k \<Rightarrow> msg e (nl @ ''Breakpoint %d at address 0x%lx'' @ nl) [VInt (of_nat k), VInt (dr st ! k)] st);
     let info = (if stepping st then set_rflags (rflags (iframe info) AND NOT TF) info else info);
     r \<leftarrow> show_inst e (rip (iframe info)) st;
     dbg_loop e info ((snd r)\<lparr>stepping := False\<rparr>) }"

definition do_dbg_entry :: "'h dbg_env \<Rightarrow> int_info \<Rightarrow> 'h kdbg \<Rightarrow> (int_info \<times> 'h kdbg) option" where
  "do_dbg_entry e info st = dbg_main e info st"

section \<open>Messages reach the line\<close>

abbreviation bytes :: "string \<Rightarrow> u8 list" where
  "bytes s \<equiv> map of_char s"

definition plain_text :: "string \<Rightarrow> bool" where
  "plain_text s \<longleftrightarrow> length s < 1000 \<and> list_all (\<lambda>c. (of_char c :: u8) \<noteq> 0) s"

lemma text_lit: "plain_text s \<Longrightarrow> text_is (text_lit s) (bytes s)"
  by (auto simp: text_is_def text_lit_def plain_text_def list_all_length unat_of_nat_u64)

lemma renders_plain: "\<forall>c \<in> set bs. c \<noteq> 0x25 \<Longrightarrow> renders bs args bs"
  by (induction bs) (auto intro: renders.intros)

text \<open>
  \<open>wired\<close>: the serial line is the one registered sink, and ready.
\<close>

definition wired :: "'h dbg_env \<Rightarrow> ('h \<Rightarrow> uart) \<Rightarrow> dbgio \<Rightarrow> 'h serial \<Rightarrow> bool" where
  "wired e u d s \<longleftrightarrow> dbgio_inv d \<and> filter (\<lambda>p. p \<noteq> 0) (sinks d) = [putc_fn e] \<and> dbg_serial_initialized s \<and> serial_inv u s"

lemma run_sinks_putc:
  assumes dev: "is_16550 (ports e) u busy" "receives (ports e) u line quiet" and s: "serial_inv u s" "dbg_serial_initialized s"
  shows "\<exists>s'. run_sinks e (map (\<lambda>c. (putc_fn e, c)) out) s = Some s' \<and> dbg_serial_initialized s' \<and> serial_inv u s' \<and>
    u_sent (u (hw s')) = u_sent (u (hw s)) @ concat (map on_line out) \<and> line (hw s') = line (hw s)"
  using s
proof (induction out arbitrary: s)
  case (Cons c out)
  obtain s1 where s1: "dbg_serial_putc (ports e) c s = Some s1" "dbg_serial_initialized s1" "serial_inv u s1"
      "u_sent (u (hw s1)) = u_sent (u (hw s)) @ on_line c" "line (hw s1) = line (hw s)"
    using putc_ready [OF dev Cons.prems] by blast
  then show ?case using Cons.IH [OF s1(3,2)] by auto
qed simp

lemma msg_runs:
  assumes inv: "dbgio_inv (con st)" "filter (\<lambda>p. p \<noteq> 0) (sinks (con st)) = [putc_fn e]"
    and fmt: "plain_text fmt" "renders (bytes fmt) args out" "length out < 2 ^ 64"
  shows "\<exists>d. dbgio_inv d \<and> sinks d = sinks (con st) \<and>
    msg e fmt args st = map_option (\<lambda>s. st\<lparr>con := d, ser := s\<rparr>) (run_sinks e (map (\<lambda>c. (putc_fn e, c)) out) (ser st))"
proof -
  let ?d = "(con st)\<lparr>calls := []\<rparr>"
  have "dbgio_inv ?d" using inv by (simp add: dbgio_inv_def)
  then obtain d where d: "dbg_msg (text_lit fmt) args ?d = Some (of_nat (length out), d)" "emitted ?d d out"
    using dbg_msg_emits [OF text_lit [OF fmt(1)] fmt(2,3)] by blast
  have "concat (map (\<lambda>c. [(putc_fn e, c)]) out) = map (\<lambda>c. (putc_fn e, c)) out" by (induction out) simp_all
  then have c: "calls d = map (\<lambda>c. (putc_fn e, c)) out" using d(2) inv(2) by (simp add: emitted_def sink_calls_def)
  have "dbgio_inv (d\<lparr>calls := []\<rparr>)" "sinks (d\<lparr>calls := []\<rparr>) = sinks (con st)"
    using d(2) inv(1) by (simp_all add: emitted_def dbgio_inv_def)
  moreover have "msg e fmt args st = map_option (\<lambda>s. st\<lparr>con := d\<lparr>calls := []\<rparr>, ser := s\<rparr>) (run_sinks e (calls d) (ser st))"
    by (cases "run_sinks e (calls d) (ser st)") (simp_all add: msg_def d(1))
  ultimately show ?thesis unfolding c by blast
qed

lemma msg_sends:
  assumes dev: "is_16550 (ports e) u busy" "receives (ports e) u line quiet" and w: "wired e u (con st) (ser st)"
    and fmt: "plain_text fmt" "renders (bytes fmt) args out" "length out < 2 ^ 64"
  shows "\<exists>d s. msg e fmt args st = Some (st\<lparr>con := d, ser := s\<rparr>) \<and> wired e u d s \<and>
    u_sent (u (hw s)) = u_sent (u (hw (ser st))) @ concat (map on_line out) \<and> line (hw s) = line (hw (ser st))"
proof -
  obtain d where d: "dbgio_inv d" "sinks d = sinks (con st)"
      "msg e fmt args st = map_option (\<lambda>s. st\<lparr>con := d, ser := s\<rparr>) (run_sinks e (map (\<lambda>c. (putc_fn e, c)) out) (ser st))"
    using msg_runs [OF _ _ fmt, of st e] w by (auto simp: wired_def)
  obtain s where s: "run_sinks e (map (\<lambda>c. (putc_fn e, c)) out) (ser st) = Some s" "dbg_serial_initialized s" "serial_inv u s"
      "u_sent (u (hw s)) = u_sent (u (hw (ser st))) @ concat (map on_line out)" "line (hw s) = line (hw (ser st))"
    using run_sinks_putc [OF dev, of "ser st" out] w unfolding wired_def by blast
  then show ?thesis using d w by (intro exI [of _ d] exI [of _ s]) (simp add: wired_def)
qed

section \<open>Looking up names\<close>

lemma dbg_strcmp_text:
  assumes a: "text_is a xs" and b: "text_is b ys"
  shows "\<exists>r. dbg_strcmp a b = Some r \<and> (r = 0 \<longleftrightarrow> xs = ys)"
proof -
  let ?P = "\<lambda>i. a i = b i \<and> a i \<noteq> 0 \<and> b i \<noteq> 0"
  have stop: "\<not> ?P (of_nat (length xs))" "\<not> ?P (of_nat (length ys))" using a b by (simp_all add: text_is_def)
  then obtain i where i: "scan_while ?P 0 = Some i" using scan_while_None [of ?P 0] by blast
  then obtain k where k: "\<not> ?P i" "i = of_nat k" "\<forall>j < k. ?P (of_nat j)" using scan_while_SomeD [OF i] by auto
  have le: "k \<le> length xs" "k \<le> length ys" using k(3) stop by (meson not_le)+
  have ab: "a i = char_at xs k" "b i = char_at ys k" using k(2) text_char_at [OF a le(1)] text_char_at [OF b le(2)] by simp_all
  have "xs = ys" if "a i = b i"
  proof -
    have "a i = 0" "b i = 0" using that k(1) by auto
    then have "k = length xs" "k = length ys"
      using ab le text_nonzero [OF a] text_nonzero [OF b] by (auto simp: char_at_def order.order_iff_strict split: if_splits)
    moreover have "xs ! j = ys ! j" if "j < k" for j
      using k(3) that text_char_at [OF a, of j] text_char_at [OF b, of j] le by (simp add: char_at_def)
    ultimately show ?thesis by (intro nth_equalityI) simp_all
  qed
  moreover have "a i = b i" if "xs = ys" using that ab by simp
  ultimately show ?thesis using i by (auto simp: dbg_strcmp_def)
qed

lemma find_name_text:
  assumes "text_is t w" "list_all (\<lambda>r. plain_text (fst r)) tbl"
  shows "find_name t tbl = Some (map_of (map (\<lambda>r. (bytes (fst r), snd r)) tbl) w)"
  using assms(2)
proof (induction tbl)
  case (Cons r tbl)
  then obtain c where "dbg_strcmp t (text_lit (fst r)) = Some c" "c = 0 \<longleftrightarrow> w = bytes (fst r)"
    using dbg_strcmp_text [OF assms(1) text_lit] by auto
  then show ?case using Cons by auto
qed simp

section \<open>A turn of the loop\<close>

lemma edit_set: "set (edit ts acc) \<subseteq> set ts \<union> set acc"
proof (induction ts arbitrary: acc)
  case (Cons c ts)
  have "set (butlast acc) \<subseteq> set acc" by (auto dest: in_set_butlastD)
  then show ?case using Cons [of "butlast acc"] Cons [of "acc @ [c]"] by auto
qed simp

lemma edit_length: "length (edit ts acc) \<le> length ts + length acc"
proof (induction ts arbitrary: acc)
  case (Cons c ts)
  show ?case using Cons [of "butlast acc"] Cons [of "acc @ [c]"] by auto
qed simp

lemma read_bytes_mtext:
  assumes "read_bytes m p (length bs + 1) = bs @ [0]" "0 \<notin> set bs" "length bs < 2 ^ 64"
  shows "mtext m p bs"
proof -
  have "m (p + of_nat i) = (bs @ [0]) ! i" if "i \<le> length bs" for i
    using nth_read_bytes [of i "length bs + 1" m p] that assms(1) by simp
  then show ?thesis using assms(2,3) by (auto simp: text_is_def nth_append) (metis nth_mem)
qed

text \<open>
  The line typed, its words, and the state in which the command is executed.
\<close>

lemma turn_reads:
  assumes dev: "is_16550 (ports e) u busy" "receives (ports e) u line quiet" and w: "wired e u (con st) (ser st)"
    and line: "line (hw (ser st)) = ts @ c # rest" "c = 0x0A \<or> c = 0x0D" "\<forall>t \<in> set ts. t \<noteq> 0x0A \<and> t \<noteq> 0x0D \<and> t \<noteq> 0" "length ts < 256"
    and argv: "length (argv_buffer st) = 8"
  shows "\<exists>d s m av. let st1 = st\<lparr>con := d, ser := s, argv_buffer := av, mem := m\<rparr>; ws = words (edit ts []) in
    dbg_turn e info st = dbg_exec e (min 8 (length ws)) av info st1 \<and> (\<forall>k < min 8 (length ws). mtext m (av ! k) (ws ! k)) \<and>
    length av = 8 \<and> wired e u d s \<and> line (hw s) = rest \<and>
    u_sent (u (hw s)) = u_sent (u (hw (ser st))) @ [0x2F, 0x3E, 0x20] @ echo ts 0 @ [0x0D, 0x0A]"
proof -
  have "renders (bytes ''/> '') [] [0x2F, 0x3E, 0x20]" using renders_plain [of "[0x2F, 0x3E, 0x20]"] by simp
  then obtain d s1 where s1: "msg e ''/> '' [] st = Some (st\<lparr>con := d, ser := s1\<rparr>)" "wired e u d s1"
      "u_sent (u (hw s1)) = u_sent (u (hw (ser st))) @ [0x2F, 0x3E, 0x20]" "line (hw s1) = ts @ c # rest"
    using msg_sends [OF dev w, of "''/> ''" "[]" "[0x2F, 0x3E, 0x20]"] line(1) by (auto simp: plain_text_def on_line_def)
  have "serial_inv u s1" "dbg_serial_initialized s1" using s1(2) by (simp_all add: wired_def)
  then obtain r where r: "getcmd_loop (ports e) (cmd_buffer e) 256 0 (mem st) s1 = Some r"
      "got u line (cmd_buffer e) 256 (mem st) s1 (edit ts []) (echo ts 0 @ [0x0D, 0x0A]) rest r"
    using getcmd_line [OF dev _ _ s1(4) line(2), of "mem st" "cmd_buffer e" "[]" 256] line(3,4) by auto
  obtain n m s2 where n: "r = (n, m, s2)" by (rule prod_cases3)
  have len: "length (edit ts []) < 256" using edit_length [of ts "[]"] line(4) by simp
  then have "n \<noteq> 0" using r(2) of_nat_u64_inj [of "length (edit ts []) + 1" 0] by (simp add: got_def n)
  have "0 \<notin> set (edit ts [])" using edit_set [of ts "[]"] line(3) by auto
  then have "mtext m (cmd_buffer e) (edit ts [])" using r(2) len by (intro read_bytes_mtext) (simp_all add: got_def n)
  then obtain p where p: "parsecmd_loop 8 (cmd_buffer e) 0 (argv_buffer st) m = Some p"
      "parsed 8 (cmd_buffer e) (edit ts []) 0 (argv_buffer st) m p"
    using parsecmd_loop_parsed [of m "cmd_buffer e" "edit ts []" 0 8 "argv_buffer st"] argv by auto
  obtain k av m2 where k: "p = (k, av, m2)" by (rule prod_cases3)
  show ?thesis
    using s1 r p \<open>n \<noteq> 0\<close> argv
    by (intro exI [of _ d] exI [of _ s2] exI [of _ m2] exI [of _ av])
       (simp add: dbg_turn_def dbg_getcmd_def dbg_parsecmd_def n k got_def parsed_def wired_def Let_def)
qed

lemma cmd_table_plain: "list_all (\<lambda>r. plain_text (fst r)) (cmd_table e)"
  by (simp add: cmd_table_def plain_text_def)

lemma exec_text:
  assumes "mtext (mem st) (av ! 0) w" "0 < argc"
  shows "dbg_exec e argc av info st =
    (case map_of (map (\<lambda>r. (bytes (fst r), snd r)) (cmd_table e)) w of
       None \<Rightarrow> Some (DBG_UNKNOWN_CMD, st) | Some f \<Rightarrow> f (argc - 1) (tl av) info st)"
  using find_name_text [of "arg_text st av 0" w "cmd_table e"] cmd_table_plain [of e] assms
  by (simp add: dbg_exec_def arg_text_def cong: option.case_cong)

lemma loop_resumes:
  assumes dev: "is_16550 (ports e) u busy" "receives (ports e) u line quiet" and w: "wired e u (con st) (ser st)"
    and line: "line (hw (ser st)) = ts @ c # rest" "c = 0x0A \<or> c = 0x0D" "\<forall>t \<in> set ts. t \<noteq> 0x0A \<and> t \<noteq> 0x0D \<and> t \<noteq> 0" "length ts < 256"
    and argv: "length (argv_buffer st) = 8" and k: "words (edit ts []) = [k] # ws" "k = 0x63 \<or> k = 0x73"
  shows "\<exists>st'. dbg_loop e info st = Some (if k = 0x63 then info else set_rflags (rflags (iframe info) OR TF) info, st') \<and>
    stepping st' = (k = 0x73 \<or> stepping st) \<and> dr st' = dr st \<and> dr7 st' = dr7 st \<and> line (hw (ser st')) = rest \<and>
    u_sent (u (hw (ser st'))) = u_sent (u (hw (ser st))) @ [0x2F, 0x3E, 0x20] @ echo ts 0 @ [0x0D, 0x0A]"
proof -
  obtain d s m av where turn: "dbg_turn e info st = dbg_exec e (min 8 (Suc (length ws))) av info (st\<lparr>con := d, ser := s, argv_buffer := av, mem := m\<rparr>)"
      "mtext m (av ! 0) [k]" "line (hw s) = rest"
      "u_sent (u (hw s)) = u_sent (u (hw (ser st))) @ [0x2F, 0x3E, 0x20] @ echo ts 0 @ [0x0D, 0x0A]"
    using turn_reads [OF dev w line argv, of info] unfolding k(1) Let_def by fastforce
  let ?st = "st\<lparr>con := d, ser := s, argv_buffer := av, mem := m\<rparr>"
  have "dbg_turn e info st = Some (if k = 0x63 then DBG_CONTINUE else DBG_STEP, ?st)"
    using k(2) turn(1,2) exec_text [of ?st av "[k]" "min 8 (Suc (length ws))" e info]
    by (auto simp: cmd_table_def dbg_do_cntn_def dbg_do_step_def)
  then show ?thesis using k(2) turn(3,4) by (subst dbg_loop.simps) auto
qed

text \<open>
  C33: a line whose first word is no command, or that has no word, is answered with the message that says so, and the loop goes on with the rest of the input
  from an otherwise unchanged state.
\<close>

theorem dbg_loop_unknown_command:
  assumes dev: "is_16550 (ports e) u busy" "receives (ports e) u line quiet" and w: "wired e u (con st) (ser st)"
    and line: "line (hw (ser st)) = ts @ c # rest" "c = 0x0A \<or> c = 0x0D" "\<forall>t \<in> set ts. t \<noteq> 0x0A \<and> t \<noteq> 0x0D \<and> t \<noteq> 0" "length ts < 256"
    and argv: "length (argv_buffer st) = 8"
    and k: "words (edit ts []) = [] \<or> hd (words (edit ts [])) \<notin> bytes ` {''c'', ''s'', ''reg'', ''hbp'', ''x'', ''disasm'', ''help''}"
  shows "\<exists>d s av m. dbg_loop e info st = dbg_loop e info (st\<lparr>argv_buffer := av, mem := m, con := d, ser := s\<rparr>) \<and>
    length av = 8 \<and> wired e u d s \<and> line (hw s) = rest \<and>
    u_sent (u (hw s)) = u_sent (u (hw (ser st))) @ [0x2F, 0x3E, 0x20] @ echo ts 0 @ [0x0D, 0x0A] @
      map of_char ''Error: Unknown command'' @ [0x0D, 0x0A]"
proof -
  let ?ws = "words (edit ts [])"
  obtain d s m av where turn: "dbg_turn e info st = dbg_exec e (min 8 (length ?ws)) av info (st\<lparr>con := d, ser := s, argv_buffer := av, mem := m\<rparr>)"
      "\<forall>k < min 8 (length ?ws). mtext m (av ! k) (?ws ! k)" "length av = 8" "wired e u d s" "line (hw s) = rest"
      "u_sent (u (hw s)) = u_sent (u (hw (ser st))) @ [0x2F, 0x3E, 0x20] @ echo ts 0 @ [0x0D, 0x0A]"
    using turn_reads [OF dev w line argv, of info] unfolding Let_def by blast
  let ?st = "st\<lparr>con := d, ser := s, argv_buffer := av, mem := m\<rparr>" and ?out = "bytes (''Error: Unknown command'' @ nl)"
  have "dbg_turn e info st = Some (DBG_UNKNOWN_CMD, ?st)"
  proof (cases "?ws")
    case Nil
    then show ?thesis using turn(1) by (simp add: dbg_exec_def)
  next
    case (Cons x xs)
    then have "mtext (mem ?st) (av ! 0) x" using turn(2) by fastforce
    then show ?thesis
      using exec_text [of ?st av x "min 8 (length ?ws)" e info] turn(1) k Cons by (auto simp: cmd_table_def)
  qed
  moreover obtain d2 s2 where m: "msg e (''Error: Unknown command'' @ nl) [] ?st = Some (?st\<lparr>con := d2, ser := s2\<rparr>)" "wired e u d2 s2"
      "u_sent (u (hw s2)) = u_sent (u (hw s)) @ concat (map on_line ?out)" "line (hw s2) = line (hw s)"
    using msg_sends [OF dev, of ?st "''Error: Unknown command'' @ nl" "[]" ?out] renders_plain [of ?out "[]"] turn(4)
    by (auto simp: plain_text_def nl_def)
  moreover have "concat (map on_line ?out) = bytes ''Error: Unknown command'' @ [0x0D, 0x0A]"
    by (simp add: on_line_def nl_def)
  ultimately show ?thesis
    using turn(3,5,6)
    by (intro exI [of _ d2] exI [of _ s2] exI [of _ av] exI [of _ m]) (subst dbg_loop.simps, simp)
qed

section \<open>Hardware breakpoints\<close>

lemma bit_field_1: "i < 64 \<Longrightarrow> bit (push_bit n (1 :: u64)) i \<longleftrightarrow> i = n"
  by (auto simp: bit_simps)

lemma bit_field_3: "i < 64 \<Longrightarrow> bit (push_bit n (3 :: u64)) i \<longleftrightarrow> i = n \<or> i = n + 1"
proof -
  assume "i < 64"
  moreover have m: "(3 :: u64) = mask 2" by (simp add: mask_eq_exp_minus_1)
  ultimately show ?thesis unfolding m bit_push_bit_iff bit_mask_iff by auto
qed

lemma bit_not_u64: "i < 64 \<Longrightarrow> bit (NOT (w :: u64)) i \<longleftrightarrow> \<not> bit w i"
  by (simp add: bit_simps)

lemmas dr7_bits = bit_field_1 bit_field_3 bit_not_u64 bit_and_iff bit_or_iff

lemma bp_dr7_set:
  assumes "k < 4" "access \<noteq> DBG_ACCESS_NONE \<or> bp \<noteq> 0" "i < 64"
  shows "bit (bp_dr7 bp access (Suc k) v) i \<longleftrightarrow>
    (if i = 2 * k + 1 then True else if i \<in> {16 + 4 * k, 17 + 4 * k} then access = DBG_ACCESS_MA
     else if i \<in> {18 + 4 * k, 19 + 4 * k} then False else bit v i)"
proof -
  have c: "(access = DBG_ACCESS_NONE \<and> bp = 0) = False" using assms(2) by blast
  show ?thesis
    unfolding bp_dr7_def Let_def diff_Suc_1 c if_False if_distrib [of "\<lambda>w. bit w i"] dr7_bits(1-3) [OF assms(3)] dr7_bits(4,5)
    using assms(1) by auto
qed

lemma bp_dr7_clear:
  assumes "k < 4" "i < 64"
  shows "bit (bp_dr7 0 DBG_ACCESS_NONE (Suc k) v) i \<longleftrightarrow>
    bit v i \<and> i \<notin> {2 * k, 2 * k + 1, 16 + 4 * k, 17 + 4 * k, 18 + 4 * k, 19 + 4 * k}"
  unfolding bp_dr7_def Let_def diff_Suc_1 simp_thms(6,21) if_True dr7_bits(1-3) [OF assms(2)] dr7_bits(4,5)
  using assms(1) by auto

lemma dr_names: "k < 4 \<Longrightarrow>
  map_of (map (\<lambda>r. (bytes (fst r), snd r)) [(''dr0'', 1), (''dr1'', 2), (''dr2'', 3), (''dr3'', 4 :: nat)]) [0x64, 0x72, 0x30 + of_nat k] =
  Some (k + 1)"
  by (cases "k = 0"; cases "k = 1"; cases "k = 2"; cases "k = 3") simp_all

lemma hbp_runs:
  assumes "dbg_atol (arg_text st argv 0) = Some bp" "k < 4" "text_is (arg_text st argv 1) [0x64, 0x72, 0x30 + of_nat k]"
    "text_is (arg_text st argv 2) (bytes a)" "(a, access) \<in> {(''0'', DBG_ACCESS_NONE), (''ex'', DBG_ACCESS_EX), (''ma'', DBG_ACCESS_MA)}"
  shows "dbg_do_hardware_bp e 3 argv info st =
    (let st1 = (if access = DBG_ACCESS_NONE \<and> bp = 0 then st else st\<lparr>dr := (dr st)[k := bp]\<rparr>)
     in Some (DBG_SUCCESS, st1\<lparr>dr7 := bp_dr7 bp access (k + 1) (dr7 st)\<rparr>))"
proof -
  have "find_name (arg_text st argv 1) [(''dr0'', 1), (''dr1'', 2), (''dr2'', 3), (''dr3'', 4 :: nat)] = Some (Some (k + 1))"
    using find_name_text [OF assms(3), of "[(''dr0'', 1), (''dr1'', 2), (''dr2'', 3), (''dr3'', 4 :: nat)]"] dr_names [OF assms(2)]
    by (simp add: plain_text_def)
  moreover have "find_name (arg_text st argv 2) [(''0'', DBG_ACCESS_NONE), (''ex'', DBG_ACCESS_EX), (''ma'', DBG_ACCESS_MA)] = Some (Some access)"
    using find_name_text [OF assms(4), of "[(''0'', DBG_ACCESS_NONE), (''ex'', DBG_ACCESS_EX), (''ma'', DBG_ACCESS_MA)]"] assms(5)
    by (auto simp: plain_text_def)
  ultimately show ?thesis using assms(1) by (simp add: dbg_do_hardware_bp_def)
qed

text \<open>
  C31: \<^verbatim>\<open>hbp\<close> with an address, \<^verbatim>\<open>dr0\<close> to \<^verbatim>\<open>dr3\<close> and \<^verbatim>\<open>ex\<close> or \<^verbatim>\<open>ma\<close> puts the address into that debug register and sets the global enable bit, the
  condition bits and the length bits of that register in \<^verbatim>\<open>dr7\<close>; \<^verbatim>\<open>hbp 0\<close> with \<^verbatim>\<open>0\<close> clears all bits of that register there.  The bits and addresses of the
  other three registers are kept.
\<close>

theorem hardware_bp_programs_dr7:
  assumes "dbg_atol (arg_text st argv 0) = Some bp" "k < 4" "text_is (arg_text st argv 1) [0x64, 0x72, 0x30 + of_nat k]"
    "text_is (arg_text st argv 2) (map of_char a)" "a = ''ex'' \<or> a = ''ma'' \<or> a = ''0'' \<and> bp = 0" "length (dr st) = 4"
  shows "\<exists>st'. dbg_do_hardware_bp e 3 argv info st = Some (DBG_SUCCESS, st') \<and>
    (\<forall>j < 4. dr st' ! j = (if j = k \<and> a \<noteq> ''0'' then bp else dr st ! j)) \<and>
    (\<forall>i < 64. bit (dr7 st') i =
      (if i = 2 * k then a \<noteq> ''0'' \<and> bit (dr7 st) i
       else if i = 2 * k + 1 then a \<noteq> ''0''
       else if i \<in> {16 + 4 * k, 17 + 4 * k} then a = ''ma''
       else if i \<in> {18 + 4 * k, 19 + 4 * k} then False
       else bit (dr7 st) i))"
proof -
  obtain access where acc: "(a, access) \<in> {(''0'', DBG_ACCESS_NONE), (''ex'', DBG_ACCESS_EX), (''ma'', DBG_ACCESS_MA)}"
    using assms(5) by blast
  note run = hbp_runs [OF assms(1-4) this, of e info]
  show ?thesis
  proof (cases "a = ''0''")
    case True
    then have "access = DBG_ACCESS_NONE" "bp = 0" using acc assms(5) by auto
    then show ?thesis using run True assms(2) by (auto simp: bp_dr7_clear)
  next
    case False
    then have "access \<noteq> DBG_ACCESS_NONE" "access = DBG_ACCESS_MA \<longleftrightarrow> a = ''ma''" using acc by auto
    then show ?thesis using run False assms(2,6) by (auto simp: bp_dr7_set)
  qed
qed

section \<open>A whole session\<close>

lemma renders_append_plain: "\<forall>c \<in> set xs. c \<noteq> 0x25 \<Longrightarrow> renders ys args out \<Longrightarrow> renders (xs @ ys) args (xs @ out)"
  by (induction xs) (auto intro: renders.intros)

definition inst_line :: "addr \<Rightarrow> string \<Rightarrow> u8 list" where
  "inst_line a t = bytes ''0x'' @ show_hex 16 (unat a) @ bytes '': '' @ bytes t @ [0x0A]"

lemma renders_inst_line:
  assumes "text_is tx (bytes t)"
  shows "renders (bytes (''0x%lx: %s'' @ nl)) [VInt a, VStr tx] (inst_line a t)"
proof -
  have "renders [0x0A] [] [0x0A]" by (rule renders_plain) simp
  then have "renders (0x25 # 0x73 # [0x0A]) [VStr tx] (bytes t @ [0x0A])"
    by (intro r_conv [OF _ text_S [OF assms], where n = 1]) (simp_all add: conversion_def char_at_def)
  then have "renders (bytes '': '' @ 0x25 # 0x73 # [0x0A]) [VStr tx] (bytes '': '' @ bytes t @ [0x0A])"
    by (rule renders_append_plain [rotated]) simp
  then have "renders (0x25 # 0x6C # 0x78 # bytes '': '' @ 0x25 # 0x73 # [0x0A]) [VInt a, VStr tx]
      (show_hex 16 (unat a) @ bytes '': '' @ bytes t @ [0x0A])"
    by (intro r_conv [OF _ text_LX, where n = 2]) (simp_all add: conversion_def char_at_def)
  then have "renders (bytes ''0x'' @ 0x25 # 0x6C # 0x78 # bytes '': '' @ 0x25 # 0x73 # [0x0A]) [VInt a, VStr tx]
      (bytes ''0x'' @ show_hex 16 (unat a) @ bytes '': '' @ bytes t @ [0x0A])"
    by (rule renders_append_plain [rotated]) simp
  then show ?thesis by (simp add: inst_line_def nl_def)
qed

lemma show_inst_sends:
  assumes dev: "is_16550 (ports e) u busy" "receives (ports e) u line quiet" and w: "wired e u (con st) (ser st)"
    and t: "disasm (mem st) a (dis st) (Some []) = Some (n, g, Some t)" "plain_text t"
  shows "\<exists>m d s. show_inst e a st = Some (n, st\<lparr>dis := g, mem := m, con := d, ser := s\<rparr>) \<and> wired e u d s \<and>
    u_sent (u (hw s)) = u_sent (u (hw (ser st))) @ concat (map on_line (inst_line a t)) \<and> line (hw s) = line (hw (ser st))"
proof -
  define m where "m = write_bytes (mem st) (dbg_disasm_buffer e) (bytes t @ [0])"
  let ?st = "st\<lparr>dis := g, mem := m\<rparr>"
  have tx: "mtext m (dbg_disasm_buffer e) (bytes t)"
    using read_write_bytes [of "bytes t @ [0]" "mem st" "dbg_disasm_buffer e"] t(2) unfolding m_def
    by (intro read_bytes_mtext) (auto simp: plain_text_def list_all_iff simp del: read_bytes.simps)
  have "length (inst_line a t) < 2 ^ 64" "plain_text (''0x%lx: %s'' @ nl)"
    using t(2) by (simp_all add: inst_line_def plain_text_def nl_def)
  then show ?thesis
    using msg_sends [OF dev, of ?st "''0x%lx: %s'' @ nl" _ "inst_line a t", OF _ _ renders_inst_line [OF tx]] w t(1)
    by (fastforce simp: show_inst_def m_def [symmetric])
qed

definition banner :: "'h kdbg \<Rightarrow> u8 list" where
  "banner st =
     (if stepping st then []
      else case break_condition (dr6 st) of None \<Rightarrow> []
        | Some k \<Rightarrow> [0x0A] @ bytes ''Breakpoint '' @ show_int (int k) @ bytes '' at address 0x'' @ show_hex 16 (unat (dr st ! k)) @ [0x0A])"

lemma break_condition_less: "break_condition v = Some k \<Longrightarrow> k < 4"
  by (auto simp: break_condition_def Let_def split: if_splits)

lemma renders_banner:
  assumes "k < 4"
  shows "renders (bytes (nl @ ''Breakpoint %d at address 0x%lx'' @ nl)) [VInt (of_nat k), VInt a]
    ([0x0A] @ bytes ''Breakpoint '' @ show_int (int k) @ bytes '' at address 0x'' @ show_hex 16 (unat a) @ [0x0A])"
proof -
  have k: "sint (ucast (of_nat k :: u64) :: u32) = int k"
  proof -
    have "k \<in> {0, 1, 2, 3}" using assms by auto
    then show ?thesis by auto
  qed
  have "renders [0x0A] [] [0x0A]" by (rule renders_plain) simp
  then have "renders (0x25 # 0x6C # 0x78 # [0x0A]) [VInt a] (show_hex 16 (unat a) @ [0x0A])"
    by (intro r_conv [OF _ text_LX, where n = 2]) (simp_all add: conversion_def char_at_def)
  then have "renders (bytes '' at address 0x'' @ 0x25 # 0x6C # 0x78 # [0x0A]) [VInt a]
      (bytes '' at address 0x'' @ show_hex 16 (unat a) @ [0x0A])"
    by (rule renders_append_plain [rotated]) simp
  then have "renders (0x25 # 0x64 # bytes '' at address 0x'' @ 0x25 # 0x6C # 0x78 # [0x0A]) [VInt (of_nat k), VInt a]
      (show_int (sint (ucast (of_nat k :: u64) :: u32)) @ bytes '' at address 0x'' @ show_hex 16 (unat a) @ [0x0A])"
    by (intro r_conv [OF _ text_D, where n = 1]) (simp_all add: conversion_def char_at_def)
  then have "renders ((0x0A # bytes ''Breakpoint '') @ 0x25 # 0x64 # bytes '' at address 0x'' @ 0x25 # 0x6C # 0x78 # [0x0A])
      [VInt (of_nat k), VInt a]
      ((0x0A # bytes ''Breakpoint '') @ show_int (int k) @ bytes '' at address 0x'' @ show_hex 16 (unat a) @ [0x0A])"
    unfolding k by (rule renders_append_plain [rotated]) simp
  then show ?thesis by (simp add: nl_def)
qed

end
