(* ===== verification/Dbg_Session.thy ===== *)
theory Dbg_Session
  imports Debugger
begin

text \<open>
  Sessions of the kernel debugger: what \<open>dbg_main\<close> leaves of the interrupted program's registers, and a session from the
  trap to the command that resumes the program, with everything that appears on the serial line.
\<close>

section \<open>What a session can change\<close>

lemma msg_keeps: "msg e fmt args st = Some st' \<Longrightarrow> stepping st' = stepping st"
  by (auto simp: msg_def bind_eq_Some_conv)

lemma reg_loop_keeps: "reg_loop e n i rs st = Some st' \<Longrightarrow> stepping st' = stepping st"
  by (induction rs arbitrary: i st) (auto simp: bind_eq_Some_conv dest!: msg_keeps split: if_splits)

lemma dumphex_loop_keeps:
  assumes "dumphex_loop e base limit c st = Some st'"
  shows "stepping st' = stepping st"
proof (rule dumphex_loop.raw_induct [where P = "\<lambda>e base limit c st st'. stepping st' = stepping st", OF _ assms], goal_cases)
  case (1 f e base limit c st st')
  then show ?case by (auto simp: bind_eq_Some_conv Let_def dest!: msg_keeps 1(1) split: if_splits)
qed

lemma show_inst_keeps: "show_inst e a st = Some (n, st') \<Longrightarrow> stepping st' = stepping st"
  by (auto simp: show_inst_def bind_eq_Some_conv Let_def dest!: msg_keeps)

lemma disassembly_loop_keeps: "disassembly_loop e n a st = Some st' \<Longrightarrow> stepping st' = stepping st"
  by (induction n arbitrary: a st) (auto simp: bind_eq_Some_conv dest!: show_inst_keeps)

lemmas keeps = msg_keeps reg_loop_keeps dumphex_loop_keeps show_inst_keeps disassembly_loop_keeps

lemma hardware_bp_keeps:
  assumes "dbg_do_hardware_bp e argc argv info st = Some (r, st')"
  shows "stepping st' = stepping st"
proof (cases "argc = 3")
  case True
  then obtain bp reg where reg: "find_name (arg_text st argv 1) [(''dr0'', 1), (''dr1'', 2), (''dr2'', 3), (''dr3'', 4 :: nat)] = Some reg"
      "dbg_atol (arg_text st argv 0) = Some bp"
    using assms by (auto simp: dbg_do_hardware_bp_def bind_eq_Some_conv simp del: find_name.simps)
  show ?thesis
  proof (cases reg)
    case None
    then show ?thesis
      using assms reg True by (auto simp: dbg_do_hardware_bp_def bind_eq_Some_conv simp del: find_name.simps dest!: msg_keeps)
  next
    case (Some k)
    then obtain access where acc: "find_name (arg_text st argv 2) [(''0'', DBG_ACCESS_NONE), (''ex'', DBG_ACCESS_EX), (''ma'', DBG_ACCESS_MA)] = Some access"
      using assms reg True by (auto simp: dbg_do_hardware_bp_def bind_eq_Some_conv simp del: find_name.simps)
    then show ?thesis
      using assms reg True Some
      by (cases access) (auto simp: dbg_do_hardware_bp_def Let_def simp del: find_name.simps split: if_splits)
  qed
qed (use assms in \<open>simp add: dbg_do_hardware_bp_def\<close>)

definition keeps_stepping :: "'h command \<Rightarrow> bool" where
  "keeps_stepping f \<longleftrightarrow> (\<forall>argc argv info st r st'. f argc argv info st = Some (r, st') \<longrightarrow> stepping st' = stepping st)"

lemma commands_keep: "\<forall>r \<in> set (cmd_table e). keeps_stepping (snd r)"
proof -
  have "keeps_stepping (dbg_do_cntn e)" "keeps_stepping (dbg_do_step e)"
    by (simp_all add: keeps_stepping_def dbg_do_cntn_def dbg_do_step_def)
  moreover have "keeps_stepping (dbg_do_reg e)"
    by (auto simp: keeps_stepping_def dbg_do_reg_def bind_eq_Some_conv Let_def dest!: keeps split: if_splits option.splits)
  moreover have "keeps_stepping (dbg_do_hardware_bp e)" unfolding keeps_stepping_def by (blast dest: hardware_bp_keeps)
  moreover have "keeps_stepping (dbg_do_dumphex e)"
    by (auto simp: keeps_stepping_def dbg_do_dumphex_def bind_eq_Some_conv dest!: keeps split: if_splits)
  moreover have "keeps_stepping (dbg_do_disassembly e)"
    by (auto simp: keeps_stepping_def dbg_do_disassembly_def bind_eq_Some_conv Let_def dest!: keeps split: if_splits)
  moreover have "keeps_stepping (dbg_do_help e)"
    by (auto simp: keeps_stepping_def dbg_do_help_def bind_eq_Some_conv dest!: keeps)
  ultimately show ?thesis by (simp add: cmd_table_def)
qed

lemma find_name_in: "find_name t tbl = Some (Some f) \<Longrightarrow> f \<in> snd ` set tbl"
  by (induction tbl) (auto simp: bind_eq_Some_conv split: if_splits)

lemma exec_keeps:
  assumes "dbg_exec e argc argv info st = Some (r, st')"
  shows "stepping st' = stepping st"
proof (cases "argc = 0")
  case False
  then obtain f where f: "find_name (arg_text st argv 0) (cmd_table e) = Some f"
      "(case f of None \<Rightarrow> Some (DBG_UNKNOWN_CMD, st) | Some g \<Rightarrow> g (argc - Suc 0) (tl argv) info st) = Some (r, st')"
    using assms by (auto simp: dbg_exec_def bind_eq_Some_conv)
  show ?thesis
  proof (cases f)
    case (Some g)
    then have "keeps_stepping g" using find_name_in f(1) commands_keep by fastforce
    then show ?thesis using f(2) Some by (auto simp: keeps_stepping_def)
  qed (use f(2) in simp)
qed (use assms in \<open>simp add: dbg_exec_def\<close>)

lemma turn_keeps: "dbg_turn e info st = Some (r, st') \<Longrightarrow> stepping st' = stepping st"
  by (auto simp: dbg_turn_def bind_eq_Some_conv Let_def dest!: keeps exec_keeps split: if_splits)

lemma loop_keeps:
  assumes "dbg_loop e info st = Some (info', st')"
  shows "stepping st' \<and> info' = set_rflags (rflags (iframe info) OR TF) info \<or> stepping st' = stepping st \<and> info' = info"
proof -
  let ?P = "\<lambda>e info st r. stepping (snd r) \<and> fst r = set_rflags (rflags (iframe info) OR TF) info \<or> stepping (snd r) = stepping st \<and> fst r = info"
  have "?P e info st (info', st')"
  proof (rule dbg_loop.raw_induct [where P = ?P, OF _ assms], goal_cases)
    case (1 f e info st y)
    obtain r st1 where t: "dbg_turn e info st = Some (r, st1)" using 1(2) by (auto simp: bind_eq_Some_conv)
    show ?case
      using 1(2) turn_keeps [OF t] by (cases r) (auto simp: t bind_eq_Some_conv dest!: keeps 1(1))
  qed
  then show ?thesis by simp
qed

text \<open>
  C28: when \<^verbatim>\<open>dbg_main\<close> returns, the saved registers are those of the trap except for the trap flag: it is cleared when the trap was a single step, and
  set when the session ended with a request for one, which is when \<^verbatim>\<open>stepping\<close> is on.
\<close>

theorem dbg_main_registers:
  assumes "dbg_main e info st = Some (info', st')"
  shows "let f = rflags (iframe info); f0 = (if stepping st then f AND NOT TF else f)
    in info' = set_rflags (if stepping st' then f0 OR TF else f0) info"
proof -
  let ?info = "if stepping st then set_rflags (rflags (iframe info) AND NOT TF) info else info"
  obtain st1 n st2 where 1: "stepping st1 = stepping st" "show_inst e (rip (iframe ?info)) st1 = Some (n, st2)"
      "dbg_loop e ?info (st2\<lparr>stepping := False\<rparr>) = Some (info', st')"
    using assms by (auto simp: dbg_main_def bind_eq_Some_conv Let_def dest!: msg_keeps split: if_splits option.splits)
  have "set_rflags (rflags (iframe info)) info = info" by (simp add: set_rflags_def)
  then show ?thesis using loop_keeps [OF 1(3)] by (auto simp: set_rflags_def Let_def)
qed

section \<open>A session\<close>

lemma banner_sends:
  assumes dev: "is_16550 (ports e) u busy" "receives (ports e) u line quiet" and w: "wired e u (con st) (ser st)"
  shows "\<exists>d s. (if stepping st then Some st
      else case break_condition (dr6 st) of None \<Rightarrow> Some st
        | Some k \<Rightarrow> msg e (nl @ ''Breakpoint %d at address 0x%lx'' @ nl) [VInt (of_nat k), VInt (dr st ! k)] st) =
      Some (st\<lparr>con := d, ser := s\<rparr>) \<and> wired e u d s \<and>
    u_sent (u (hw s)) = u_sent (u (hw (ser st))) @ concat (map on_line (banner st)) \<and> line (hw s) = line (hw (ser st))"
proof (cases "stepping st \<or> break_condition (dr6 st) = None")
  case True
  then show ?thesis using w by (intro exI [of _ "con st"] exI [of _ "ser st"]) (auto simp: banner_def)
next
  case False
  then obtain k where k: "break_condition (dr6 st) = Some k" by auto
  have "length (show_int (int k)) \<le> 20" using length_show_nat [of k 18] break_condition_less [OF k] by (simp add: show_int_def)
  then have "length (banner st) < 2 ^ 64" using k False by (simp add: banner_def)
  moreover have "plain_text (nl @ ''Breakpoint %d at address 0x%lx'' @ nl)" by (simp add: plain_text_def nl_def)
  ultimately show ?thesis
    using msg_sends [OF dev w _ renders_banner [OF break_condition_less [OF k], of "dr st ! k"]] k False
    by (simp add: banner_def del: append.simps)
qed

lemma main_session:
  assumes dev: "is_16550 (ports e) u busy" "receives (ports e) u line quiet" and w: "wired e u (con st) (ser st)"
    and line: "line (hw (ser st)) = ts @ c # rest" "c = 0x0A \<or> c = 0x0D" "\<forall>t \<in> set ts. t \<noteq> 0x0A \<and> t \<noteq> 0x0D \<and> t \<noteq> 0" "length ts < 256"
    and argv: "length (argv_buffer st) = 8" and k: "words (edit ts []) = [k] # ws" "k = 0x63 \<or> k = 0x73"
    and inst: "disasm (mem st) (rip (iframe info)) (dis st) (Some []) = Some (n, g, Some t)" "plain_text t"
  shows "\<exists>info' st'. dbg_main e info st = Some (info', st') \<and> stepping st' = (k = 0x73) \<and>
    (bit (rflags (iframe info')) 8 \<longleftrightarrow> k = 0x73 \<or> \<not> stepping st \<and> bit (rflags (iframe info)) 8) \<and>
    u_sent (u (hw (ser st'))) = u_sent (u (hw (ser st))) @
      concat (map on_line (banner st @ inst_line (rip (iframe info)) t)) @ [0x2F, 0x3E, 0x20] @ echo ts 0 @ [0x0D, 0x0A]"
proof -
  let ?info = "if stepping st then set_rflags (rflags (iframe info) AND NOT TF) info else info"
  have rip: "rip (iframe ?info) = rip (iframe info)" by (simp add: set_rflags_def)
  obtain d1 s1 where B: "(if stepping st then Some st
      else case break_condition (dr6 st) of None \<Rightarrow> Some st
        | Some k \<Rightarrow> msg e (nl @ ''Breakpoint %d at address 0x%lx'' @ nl) [VInt (of_nat k), VInt (dr st ! k)] st) =
      Some (st\<lparr>con := d1, ser := s1\<rparr>)"
    and 1: "wired e u d1 s1" "u_sent (u (hw s1)) = u_sent (u (hw (ser st))) @ concat (map on_line (banner st))"
      "line (hw s1) = line (hw (ser st))"
    using banner_sends [OF dev w] by blast
  have main: "dbg_main e info st = do { r \<leftarrow> show_inst e (rip (iframe info)) (st\<lparr>con := d1, ser := s1\<rparr>); dbg_loop e ?info ((snd r)\<lparr>stepping := False\<rparr>) }"
    unfolding dbg_main_def B by (simp add: Let_def rip)
  obtain m d2 s2 where 2: "show_inst e (rip (iframe info)) (st\<lparr>con := d1, ser := s1\<rparr>) =
        Some (n, st\<lparr>dis := g, mem := m, con := d2, ser := s2\<rparr>)" "wired e u d2 s2"
      "u_sent (u (hw s2)) = u_sent (u (hw s1)) @ concat (map on_line (inst_line (rip (iframe info)) t))" "line (hw s2) = line (hw s1)"
    using show_inst_sends [OF dev, of "st\<lparr>con := d1, ser := s1\<rparr>" "rip (iframe info)" n g t] 1(1) inst by auto
  let ?st = "st\<lparr>dis := g, mem := m, con := d2, ser := s2, stepping := False\<rparr>"
  have "wired e u (con ?st) (ser ?st)" "line (hw (ser ?st)) = ts @ c # rest" "length (argv_buffer ?st) = 8"
    using 1(3) 2(2,4) line(1) argv by simp_all
  then obtain st' where 3: "dbg_loop e ?info ?st = Some (if k = 0x63 then ?info else set_rflags (rflags (iframe ?info) OR TF) ?info, st')"
      "stepping st' = (k = 0x73 \<or> stepping ?st)"
      "u_sent (u (hw (ser st'))) = u_sent (u (hw (ser ?st))) @ [0x2F, 0x3E, 0x20] @ echo ts 0 @ [0x0D, 0x0A]"
    using loop_resumes [OF dev _ _ line(2-4) _ k, of ?st rest ?info] by blast
  have "dbg_main e info st = Some (if k = 0x63 then ?info else set_rflags (rflags (iframe ?info) OR TF) ?info, st')"
    unfolding main 2(1) using 3(1) by simp
  moreover have "bit TF 8" by (simp add: TF_def bit_simps)
  ultimately show ?thesis using 1(2) 2(3) 3(2,3) k(2) by (auto simp: set_rflags_def bit_simps)
qed

text \<open>
  C27: a whole session.  When the disassembler can show the instruction at the saved instruction pointer and the line typed at the prompt starts with the
  word \<^verbatim>\<open>c\<close> or \<^verbatim>\<open>s\<close>, then \<^verbatim>\<open>dbg_main\<close> returns.  On the line appeared the breakpoint that was hit, if the trap was not a single step, the instruction, the prompt and the echo.  The
  saved flags have the trap flag after \<^verbatim>\<open>s\<close>, and after a single step and \<^verbatim>\<open>c\<close> not.
\<close>

theorem dbg_main_session:
  assumes dev: "is_16550 (ports e) u busy" "receives (ports e) u line quiet" and w: "wired e u (con st) (ser st)"
    and line: "line (hw (ser st)) = ts @ c # rest" "c = 0x0A \<or> c = 0x0D" "\<forall>t \<in> set ts. t \<noteq> 0x0A \<and> t \<noteq> 0x0D \<and> t \<noteq> 0" "length ts < 256"
    and argv: "length (argv_buffer st) = 8" and k: "words (edit ts []) = [k] # ws" "k = 0x63 \<or> k = 0x73"
    and inst: "disasm (mem st) (rip (iframe info)) (dis st) (Some []) = Some (n, g, Some t)" "plain_text t"
  shows "\<exists>info' st'. dbg_main e info st = Some (info', st') \<and> stepping st' = (k = 0x73) \<and>
    (bit (rflags (iframe info')) 8 \<longleftrightarrow> k = 0x73 \<or> \<not> stepping st \<and> bit (rflags (iframe info)) 8) \<and>
    u_sent (u (hw (ser st'))) = u_sent (u (hw (ser st))) @
      concat (map on_line (banner st @ inst_line (rip (iframe info)) t)) @ [0x2F, 0x3E, 0x20] @ echo ts 0 @ [0x0D, 0x0A]"
  by (rule main_session [OF assms])

section \<open>Concrete sessions\<close>

definition demo_env :: "demo_hw dbg_env" where
  "demo_env = \<lparr>ports = demo_ports, cmd_buffer = 0x5000, dbg_disasm_buffer = 0x6000, putc_fn = 0x1000\<rparr>"

definition demo_dbg :: "u8 list \<Rightarrow> demo_hw kdbg" where
  "demo_dbg input = \<lparr>con = one_sink, ser = demo_ready input, mem = ret_code, argv_buffer = replicate 8 0, stepping = True,
     dis = addr_init, dr = [0, 0, 0, 0], dr6 = 0, dr7 = 0x400\<rparr>"

definition demo_info :: int_info where
  "demo_info = \<lparr>iregs = \<lparr>rax = 0, rbx = 0, rcx = 0, rdx = 0, rsi = 0, rdi = 0, r8 = 0, r9 = 0, r10 = 0, r11 = 0, r12 = 0, r13 = 0,
     r14 = 0, r15 = 0, rbp = 0, gp_rsp = 0\<rparr>, iframe = \<lparr>ecode = 0, rip = 0x1000, seg_cs = 8, rflags = 0x102, rsp = 0x9000, seg_ss = 0x10\<rparr>\<rparr>"

lemma demo_wired: "wired demo_env fst (con (demo_dbg input)) (ser (demo_dbg input))"
  by (simp add: wired_def demo_dbg_def demo_env_def one_sink_def dbg_register_sink_def dbgio_init_def dbgio_inv_def
      DBG_MAX_CHARSINKS_def four_zeros)

lemma demo_fields [simp]: "ports demo_env = demo_ports" "ser (demo_dbg input) = demo_ready input" "length (argv_buffer (demo_dbg input)) = 8"
    "mem (demo_dbg input) = ret_code" "dis (demo_dbg input) = addr_init" "rip (iframe demo_info) = 0x1000" "stepping (demo_dbg input)"
  by (simp_all add: demo_env_def demo_dbg_def demo_info_def)

lemma demo_dev: "is_16550 (ports demo_env) fst (\<lambda>h. fst (snd h))" "receives (ports demo_env) fst (\<lambda>h. snd (snd h)) (\<lambda>_. 0)"
  by (simp_all add: demo_16550 demo_receives)

lemma words_s: "words (edit [0x73] []) = [[0x73]]"
  by code_simp

lemma demo_disasm:
  obtains g where "disasm (mem (demo_dbg input)) (rip (iframe demo_info)) (dis (demo_dbg input)) (Some []) =
    Some (0x1001, g, Some (''ret'' @ [CHR 0x09]))" "plain_text (''ret'' @ [CHR 0x09])"
  using disasm_ret by (auto simp: plain_text_def)

theorem dbg_main_session_witness:
  "\<exists>info' st'. dbg_main demo_env demo_info (demo_dbg [0x73, 0x0D]) = Some (info', st') \<and> stepping st' \<and>
    bit (rflags (iframe info')) 8 \<and>
    u_sent (fst (hw (ser st'))) = u_sent (fst (hw (ser (demo_dbg [0x73, 0x0D])))) @
      concat (map on_line (banner (demo_dbg [0x73, 0x0D]) @ inst_line (rip (iframe demo_info)) (''ret'' @ [CHR 0x09]))) @
      [0x2F, 0x3E, 0x20] @ echo [0x73] 0 @ [0x0D, 0x0A]"
proof -
  obtain g where g: "disasm (mem (demo_dbg [0x73, 0x0D])) (rip (iframe demo_info)) (dis (demo_dbg [0x73, 0x0D])) (Some []) =
      Some (0x1001, g, Some (''ret'' @ [CHR 0x09]))" "plain_text (''ret'' @ [CHR 0x09])"
    by (rule demo_disasm)
  show ?thesis
    using dbg_main_session [OF demo_dev demo_wired _ _ _ _ _ words_s _ g, of "0x0D" "[]"] by auto
qed

theorem dbg_main_registers_witness:
  "\<exists>info' st'. dbg_main demo_env demo_info (demo_dbg [0x73, 0x0D]) = Some (info', st') \<and>
    info' = set_rflags (if stepping st' then 0x102 AND NOT TF OR TF else 0x102 AND NOT TF) demo_info"
proof -
  obtain g where g: "disasm (mem (demo_dbg [0x73, 0x0D])) (rip (iframe demo_info)) (dis (demo_dbg [0x73, 0x0D])) (Some []) =
      Some (0x1001, g, Some (''ret'' @ [CHR 0x09]))" "plain_text (''ret'' @ [CHR 0x09])"
    by (rule demo_disasm)
  have "\<exists>info' st'. dbg_main demo_env demo_info (demo_dbg [0x73, 0x0D]) = Some (info', st')"
    using main_session [OF demo_dev demo_wired _ _ _ _ _ words_s _ g, of "0x0D" "[]"] by auto
  then obtain info' st' where r: "dbg_main demo_env demo_info (demo_dbg [0x73, 0x0D]) = Some (info', st')" by blast
  have "rflags (iframe demo_info) = 0x102" by (simp add: demo_info_def)
  then show ?thesis using dbg_main_registers [OF r] r by (simp add: Let_def)
qed

lemma words_q: "words (edit [0x71] []) = [[0x71]]"
  by code_simp

theorem dbg_loop_unknown_command_witness:
  "\<exists>d s av m. dbg_loop demo_env demo_info (demo_dbg [0x71, 0x0A]) =
      dbg_loop demo_env demo_info ((demo_dbg [0x71, 0x0A])\<lparr>argv_buffer := av, mem := m, con := d, ser := s\<rparr>) \<and>
    length av = 8 \<and> wired demo_env fst d s \<and> snd (snd (hw s)) = [] \<and>
    u_sent (fst (hw s)) = u_sent (fst (hw (ser (demo_dbg [0x71, 0x0A])))) @ [0x2F, 0x3E, 0x20] @ echo [0x71] 0 @ [0x0D, 0x0A] @
      map of_char ''Error: Unknown command'' @ [0x0D, 0x0A]"
  by (rule dbg_loop_unknown_command [OF demo_dev demo_wired, of _ _ "0x0A" "[]"]) (simp_all add: words_q [simplified])

text \<open>The words \<^verbatim>\<open>16\<close>, \<^verbatim>\<open>dr1\<close> and \<^verbatim>\<open>ma\<close> in memory.\<close>

definition bp_mem :: memory where
  "bp_mem = (\<lambda>_. 0)(0x7000 := 0x31, 0x7001 := 0x36, 0x7100 := 0x64, 0x7101 := 0x72, 0x7102 := 0x31, 0x7200 := 0x6D, 0x7201 := 0x61)"

definition bp_dbg :: "demo_hw kdbg" where
  "bp_dbg = (demo_dbg [])\<lparr>mem := bp_mem\<rparr>"

theorem hardware_bp_programs_dr7_witness:
  "\<exists>st'. dbg_do_hardware_bp demo_env 3 [0x7000, 0x7100, 0x7200] demo_info bp_dbg = Some (DBG_SUCCESS, st') \<and>
    dr st' ! 0 = 0 \<and> dr st' ! 1 = 16 \<and> bit (dr7 st') 3 \<and> bit (dr7 st') 20 \<and> bit (dr7 st') 21 \<and> \<not> bit (dr7 st') 22 \<and> bit (dr7 st') 10"
proof -
  have "show_int (sint (16 :: u64)) = [0x31, 0x36]" by code_simp
  then have "text_is (arg_text bp_dbg [0x7000, 0x7100, 0x7200] 0) (show_int (sint (16 :: u64)))"
    by (auto simp: arg_text_def bp_dbg_def bp_mem_def text_is_def nth_Cons' less_Suc_eq)
  then have bp: "dbg_atol (arg_text bp_dbg [0x7000, 0x7100, 0x7200] 0) = Some 16" by (rule atol_int_input)
  have "\<exists>st'. dbg_do_hardware_bp demo_env 3 [0x7000, 0x7100, 0x7200] demo_info bp_dbg = Some (DBG_SUCCESS, st') \<and>
    (\<forall>j < 4. dr st' ! j = (if j = 1 \<and> ''ma'' \<noteq> ''0'' then 16 else dr bp_dbg ! j)) \<and>
    (\<forall>i < 64. bit (dr7 st') i =
      (if i = 2 * 1 then ''ma'' \<noteq> ''0'' \<and> bit (dr7 bp_dbg) i
       else if i = 2 * 1 + 1 then ''ma'' \<noteq> ''0''
       else if i \<in> {16 + 4 * 1, 17 + 4 * 1} then ''ma'' = ''ma''
       else if i \<in> {18 + 4 * 1, 19 + 4 * 1} then False
       else bit (dr7 bp_dbg) i))"
    by (rule hardware_bp_programs_dr7 [OF bp])
       (auto simp: arg_text_def bp_dbg_def bp_mem_def text_is_def nth_Cons' less_Suc_eq demo_dbg_def)
  then obtain st' where st': "dbg_do_hardware_bp demo_env 3 [0x7000, 0x7100, 0x7200] demo_info bp_dbg = Some (DBG_SUCCESS, st')"
      "\<forall>j < 4. dr st' ! j = (if j = 1 then 16 else dr bp_dbg ! j)"
      "\<forall>i < 64. bit (dr7 st') i = (if i = 2 then bit (dr7 bp_dbg) i else if i = 3 then True else if i = 20 \<or> i = 21 then True
        else if i = 22 \<or> i = 23 then False else bit (dr7 bp_dbg) i)" by auto
  have "dr bp_dbg ! 0 = 0" "bit (dr7 bp_dbg) 10" by (simp_all add: bp_dbg_def demo_dbg_def bit_iff_odd_drop_bit)
  then show ?thesis using st'(1) st'(2) [rule_format, of 0] st'(2) [rule_format, of 1] st'(3) [rule_format, of 3] st'(3) [rule_format, of 10]
      st'(3) [rule_format, of 20] st'(3) [rule_format, of 21] st'(3) [rule_format, of 22] by auto
qed

end
