(* ===== verification/Idt.thy ===== *)
theory Idt
  imports Kernel_Lib
begin

text \<open>
  The interrupt descriptor table, \<^verbatim>\<open>arch/x86_64/kernel/idt.c\<close> with \<^verbatim>\<open>asm/desc.h\<close> and \<^verbatim>\<open>asm/desc_defs.h\<close>: how a table of
  handlers becomes the sixteen-byte gates the processor reads.  The table \<^verbatim>\<open>idt\<close>, the stack variable \<^verbatim>\<open>desc\<close> and the handler
  \<^verbatim>\<open>dbg_entry\<close> are addresses, and gates are copied with the kernel's \<open>memcpy\<close>.  The instructions that load or store the table register have no
  effect on memory and are left out.
\<close>

section \<open>Definitions\<close>

record idt_bits =
  ist :: u16
  zero :: u16
  gtype :: u16
  dpl :: u16
  present :: u16

record idt_data =
  vector :: u16
  idt_segment :: u16
  idt_bits :: idt_bits
  idt_addr :: addr

record gate_desc =
  offset0 :: u16
  segment :: u16
  bits :: idt_bits
  offset1 :: u16
  offset2 :: u32
  reserved :: u32

definition GATE_INTERRUPT :: u16 where "GATE_INTERRUPT = 0xE"
definition GATE_TRAP :: u16 where "GATE_TRAP = 0xF"
definition DPL0 :: u16 where "DPL0 = 0"
definition IDT_ENTRIES :: nat where "IDT_ENTRIES = 256"

text \<open>Bit fields of widths 3, 5, 5, 2 and 1 from the lowest bit on, and the packed structure in memory.\<close>

definition idt_bits_val :: "idt_bits \<Rightarrow> u16" where
  "idt_bits_val b = (ist b AND 7) OR push_bit 3 (zero b AND 0x1F) OR push_bit 8 (gtype b AND 0x1F) OR
     push_bit 13 (dpl b AND 3) OR push_bit 15 (present b AND 1)"

definition gate_bytes :: "gate_desc \<Rightarrow> u8 list" where
  "gate_bytes g = le_bytes 2 (offset0 g) @ le_bytes 2 (segment g) @ le_bytes 2 (idt_bits_val (bits g)) @
     le_bytes 2 (offset1 g) @ le_bytes 4 (offset2 g) @ le_bytes 4 (reserved g)"

definition idt_init_desc :: "idt_data \<Rightarrow> gate_desc" where
  "idt_init_desc d =
     (let a = idt_addr d
      in \<lparr>offset0 = ucast a, segment = idt_segment d, bits = idt_bits d, offset1 = ucast (drop_bit 16 a),
          offset2 = ucast (drop_bit 32 a), reserved = 0\<rparr>)"

definition write_idt_entry :: "memory \<Rightarrow> addr \<Rightarrow> u16 \<Rightarrow> addr \<Rightarrow> memory" where
  "write_idt_entry m idt vec gate = fst (memcpy m (idt + 16 * ucast vec) gate 16)"

primrec idt_setup_from_table :: "addr \<Rightarrow> addr \<Rightarrow> idt_data list \<Rightarrow> memory \<Rightarrow> memory" where
  "idt_setup_from_table desc idt [] m = m"
| "idt_setup_from_table desc idt (d # table) m =
     (let m = write_bytes m desc (gate_bytes (idt_init_desc d))
      in idt_setup_from_table desc idt table (write_idt_entry m idt (vector d) desc))"

definition GATE :: "u16 \<Rightarrow> addr \<Rightarrow> u16 \<Rightarrow> u16 \<Rightarrow> u16 \<Rightarrow> u16 \<Rightarrow> idt_data" where
  "GATE v a i t dp seg =
     \<lparr>vector = v, idt_segment = seg, idt_bits = \<lparr>ist = i, zero = 0, gtype = t, dpl = dp, present = 1\<rparr>, idt_addr = a\<rparr>"

definition INTG :: "u16 \<Rightarrow> addr \<Rightarrow> idt_data" where
  "INTG v a = GATE v a 0 GATE_INTERRUPT DPL0 0x08"

definition early_idt :: "addr \<Rightarrow> idt_data list" where
  "early_idt dbg_entry = [INTG 1 dbg_entry, INTG 3 dbg_entry]"

definition idt_setup_early_traps :: "addr \<Rightarrow> addr \<Rightarrow> addr \<Rightarrow> memory \<Rightarrow> memory" where
  "idt_setup_early_traps desc idt dbg_entry m = idt_setup_from_table desc idt (early_idt dbg_entry) m"

section \<open>What the processor reads\<close>

text \<open>The gate of a vector as the processor decodes it: target, selector and attribute word.\<close>

definition gate_target :: "memory \<Rightarrow> addr \<Rightarrow> addr" where
  "gate_target m g = ucast (read16 m g) OR push_bit 16 (ucast (read16 m (g + 6))) OR push_bit 32 (ucast (read32 m (g + 8)))"

definition gate_is :: "memory \<Rightarrow> addr \<Rightarrow> idt_data \<Rightarrow> bool" where
  "gate_is m g d \<longleftrightarrow> gate_target m g = idt_addr d \<and> read16 m (g + 2) = idt_segment d \<and>
     read16 m (g + 4) = idt_bits_val (idt_bits d) \<and> read32 m (g + 12) = 0"

definition idt_entry :: "addr \<Rightarrow> u16 \<Rightarrow> addr" where
  "idt_entry idt v = idt + 16 * ucast v"

lemma read_bytes_sub:
  "k + n \<le> l \<Longrightarrow> read_bytes m (a + of_nat k) n = take n (drop k (read_bytes m a l))"
  by (rule nth_equalityI) (simp_all add: add.assoc)

lemma length_gate_bytes [simp]: "length (gate_bytes g) = 16"
  by (simp add: gate_bytes_def)

lemma gate_fields:
  assumes "read_bytes m a 16 = gate_bytes g"
  shows "read16 m a = offset0 g" "read16 m (a + 2) = segment g" "read16 m (a + 4) = idt_bits_val (bits g)"
    "read16 m (a + 6) = offset1 g" "read32 m (a + 8) = offset2 g" "read32 m (a + 12) = reserved g"
  using read_bytes_sub [of 0 2 16 m a] read_bytes_sub [of 2 2 16 m a] read_bytes_sub [of 4 2 16 m a]
    read_bytes_sub [of 6 2 16 m a] read_bytes_sub [of 8 4 16 m a] read_bytes_sub [of 12 4 16 m a]
  by (simp_all add: read16_def read32_def assms gate_bytes_def le_word_le_bytes)

lemma split_address: "ucast (ucast a :: u16) OR push_bit 16 (ucast (ucast (drop_bit 16 a) :: u16)) OR
    push_bit 32 (ucast (ucast (drop_bit 32 a) :: u32)) = (a :: u64)" (is "?w = a")
proof (rule bit_word_eqI)
  fix n assume "n < LENGTH(64)"
  then show "bit ?w n = bit a n" by (cases "n < 16"; cases "n < 32") (auto simp: bit_simps)
qed

lemma gate_is_init:
  assumes "read_bytes m a 16 = gate_bytes (idt_init_desc d)"
  shows "gate_is m a d"
  using gate_fields [OF assms] split_address [of "idt_addr d"]
  by (simp add: gate_is_def gate_target_def idt_init_desc_def Let_def)

lemma in_idt_entry: "in_range (idt_entry idt v) 16 x \<longleftrightarrow> unat (x - idt) div 16 = unat v"
proof -
  have v: "unat (16 * ucast v :: u64) = 16 * unat v"
    using unsigned_less [of v, where ?'a = nat] by (simp add: unat_word_ariths unat_ucast_up)
  have o: "x - idt_entry idt v = (x - idt) - 16 * ucast v" by (simp add: idt_entry_def)
  show ?thesis
  proof (cases "16 * unat v \<le> unat (x - idt)")
    case True
    then have "unat (x - idt_entry idt v) = unat (x - idt) - 16 * unat v"
      unfolding o using v by (simp add: unat_sub word_le_nat_alt)
    then show ?thesis using True by (auto simp: in_range_def)
  next
    case False
    have "unat (x - idt_entry idt v) = 2 ^ 64 + unat (x - idt) - 16 * unat v"
      unfolding o using False v by (simp add: unat_sub_if' word_le_nat_alt)
    moreover have "16 * unat v < 2 ^ 32" using unsigned_less [of v, where ?'a = nat] by simp
    ultimately show ?thesis using False by (auto simp: in_range_def)
  qed
qed

lemma memcpy_gate:
  assumes "no_overlap (idt_entry idt v) 16 desc 16"
  shows "write_idt_entry m idt v desc = block_copy m (idt_entry idt v) desc 16"
  using k_memcpy.copy_block [of "idt_entry idt v" 16 desc m] assms by (simp add: write_idt_entry_def idt_entry_def)

lemma entry_off_desc:
  assumes "no_overlap idt 4096 desc 16" "unat v < 256"
  shows "no_overlap (idt_entry idt v) 16 desc 16"
proof -
  have "in_range idt 4096 x" if "in_range (idt_entry idt v) 16 x" for x
    using that assms(2) unfolding in_idt_entry by (simp add: in_range_def)
  then show ?thesis using assms(1) by (auto simp: no_overlap_def)
qed

lemma setup_frame:
  assumes "no_overlap idt 4096 desc 16" "\<forall>d \<in> set table. unat (vector d) < 256"
    "\<not> in_range desc 16 x" "\<forall>d \<in> set table. \<not> in_range (idt_entry idt (vector d)) 16 x"
  shows "idt_setup_from_table desc idt table m x = m x"
  using assms(2,4)
proof (induction table arbitrary: m)
  case (Cons d table)
  then show ?case
    using assms(1,3) by (simp add: Let_def memcpy_gate entry_off_desc block_copy_def write_bytes_apply)
qed simp

lemma setup_entry:
  assumes "no_overlap idt 4096 desc 16" "\<forall>d \<in> set table. unat (vector d) < 256" "distinct (map vector table)" "d \<in> set table"
  shows "read_bytes (idt_setup_from_table desc idt table m) (idt_entry idt (vector d)) 16 = gate_bytes (idt_init_desc d)"
  using assms(2-4)
proof (induction table arbitrary: m)
  case (Cons c table)
  let ?e = "idt_entry idt (vector d)"
  let ?m = "write_idt_entry (write_bytes m desc (gate_bytes (idt_init_desc c))) idt (vector c) desc"
  show ?case
  proof (cases "d \<in> set table")
    case True
    then show ?thesis using Cons by (simp add: Let_def)
  next
    case False
    with Cons.prems have d: "d = c" "unat (vector d) < 256" by simp_all
    note off = entry_off_desc [OF assms(1) d(2)]
    have "idt_setup_from_table desc idt table ?m x = ?m x" if "in_range ?e 16 x" for x
    proof (rule setup_frame [OF assms(1)])
      show "\<not> in_range desc 16 x" using off that by (auto simp: no_overlap_def)
      show "\<forall>d \<in> set table. \<not> in_range (idt_entry idt (vector d)) 16 x"
        using that Cons.prems(2) d(1) by (auto simp: in_idt_entry)
    qed (use Cons.prems in simp)
    then have "read_bytes (idt_setup_from_table desc idt table ?m) ?e 16 = read_bytes ?m ?e 16"
      by (intro read_bytes_cong) simp
    also have "\<dots> = gate_bytes (idt_init_desc d)"
      using read_write_bytes [of "gate_bytes (idt_init_desc d)" m desc] d(1) off
      by (simp add: memcpy_gate read_block_copy)
    finally show ?thesis by (simp add: Let_def)
  qed
qed simp



end
