(* ===== verification/Kernel_Main.thy ===== *)
theory Kernel_Main
  imports Debugger Idt
begin

text \<open>
  The kernel's entry \<^verbatim>\<open>main\<close> (\<^verbatim>\<open>arch/x86_64/init/main.c\<close>) and \<^verbatim>\<open>panic\<close> (\<^verbatim>\<open>arch/x86_64/kernel/panic.c\<close>) in the debug build, and the static
  data of \<^verbatim>\<open>mm/memblock.c\<close>.  The state is that of the debugger, which holds memory and the debug output, and the processor's
  interrupt flag.  \<^verbatim>\<open>_exit\<close> clears the flag and halts for ever, so a call of \<open>main\<close> or \<open>panic\<close> ends in a halted machine; the optional breakpoint before
  the message is not part of this build.
\<close>

section \<open>Definitions\<close>

record 'h machine =
  kd :: "'h kdbg"
  intr :: bool
  halted :: bool

record kernel_layout =
  idt_table :: addr
  desc_local :: addr
  dbg_entry_fn :: addr

definition init_dbg_print :: "'h dbg_env \<Rightarrow> 'h kdbg \<Rightarrow> 'h kdbg" where
  "init_dbg_print e st =
     (let s = snd (dbg_serial_init (ports e) (ser st)); d = snd (dbg_register_sink (putc_fn e) (con st))
      in st\<lparr>ser := s, con := d\<rparr>)"

definition exit_kernel :: "'h machine \<Rightarrow> 'h machine" where
  "exit_kernel k = k\<lparr>intr := False, halted := True\<rparr>"

definition kernel_main :: "'h dbg_env \<Rightarrow> kernel_layout \<Rightarrow> 'h machine \<Rightarrow> 'h machine option" where
  "kernel_main e l k = do {
     let st = init_dbg_print e (kd k);
     let st = st\<lparr>mem := idt_setup_early_traps (desc_local l) (idt_table l) (dbg_entry_fn l) (mem st)\<rparr>;
     st \<leftarrow> msg e ''EOF'' [] st;
     Some (exit_kernel (k\<lparr>kd := st\<rparr>)) }"

definition panic :: "'h dbg_env \<Rightarrow> ctext \<Rightarrow> 'h machine \<Rightarrow> 'h machine option" where
  "panic e text k = do {
     st \<leftarrow> msg e (''Kernel panic: %s'' @ nl) [VStr text] (kd k);
     Some (exit_kernel (k\<lparr>kd := st, intr := False\<rparr>)) }"

text \<open>The memory block allocator has only its initial state so far.\<close>

record memblock_type =
  mb_cnt :: u64
  mb_max :: u64
  mb_total_size :: u64
  mb_regions :: addr

record memblock =
  bottom_up :: bool
  mb_memory :: memblock_type
  mb_reserved :: memblock_type

definition INIT_MEMBLOCK_REGIONS :: u64 where "INIT_MEMBLOCK_REGIONS = 128"

definition memblock_init :: "addr \<Rightarrow> addr \<Rightarrow> memblock" where
  "memblock_init memory_regions reserved_regions =
     \<lparr>bottom_up = False,
      mb_memory = \<lparr>mb_cnt = 1, mb_max = INIT_MEMBLOCK_REGIONS, mb_total_size = 0, mb_regions = memory_regions\<rparr>,
      mb_reserved = \<lparr>mb_cnt = 1, mb_max = INIT_MEMBLOCK_REGIONS, mb_total_size = 0, mb_regions = reserved_regions\<rparr>\<rparr>"

section \<open>Properties\<close>

text \<open>After \<^verbatim>\<open>init_dbg_print\<close> on a fresh state, messages go to the line.\<close>

lemma init_wires:
  assumes "is_16550 (ports e) u busy" "serial_inv u (ser st)" "con st = dbgio_init" "putc_fn e \<noteq> 0"
  shows "wired e u (con (init_dbg_print e st)) (ser (init_dbg_print e st)) \<and>
    u_sent (u (hw (ser (init_dbg_print e st)))) = u_sent (u (hw (ser st)))"
  using serial_init_ready [OF assms(1,2)] assms(3,4)
  by (auto simp: init_dbg_print_def wired_def dbg_register_sink_def dbgio_init_def dbgio_inv_def DBG_MAX_CHARSINKS_def four_zeros Let_def)

lemma run_sinks_sends:
  assumes dev: "is_16550 (ports e) u busy" and s: "serial_inv u s" "dbg_serial_initialized s"
  shows "\<exists>s'. run_sinks e (map (\<lambda>c. (putc_fn e, c)) out) s = Some s' \<and> dbg_serial_initialized s' \<and> serial_inv u s' \<and>
    u_sent (u (hw s')) = u_sent (u (hw s)) @ concat (map on_line out)"
  using s
proof (induction out arbitrary: s)
  case (Cons c out)
  then show ?case using putc_step [OF dev Cons.prems(1), of c] by fastforce
qed simp

lemma wired_msg:
  assumes dev: "is_16550 (ports e) u busy" and w: "wired e u (con st) (ser st)"
    and fmt: "plain_text fmt" "renders (bytes fmt) args out" "length out < 2 ^ 64"
  shows "\<exists>d s. msg e fmt args st = Some (st\<lparr>con := d, ser := s\<rparr>) \<and> wired e u d s \<and>
    u_sent (u (hw s)) = u_sent (u (hw (ser st))) @ concat (map on_line out)"
proof -
  obtain d where d: "dbgio_inv d" "sinks d = sinks (con st)"
      "msg e fmt args st = map_option (\<lambda>s. st\<lparr>con := d, ser := s\<rparr>) (run_sinks e (map (\<lambda>c. (putc_fn e, c)) out) (ser st))"
    using msg_runs [OF _ _ fmt, of st e] w by (auto simp: wired_def)
  obtain s where s: "run_sinks e (map (\<lambda>c. (putc_fn e, c)) out) (ser st) = Some s" "dbg_serial_initialized s" "serial_inv u s"
      "u_sent (u (hw s)) = u_sent (u (hw (ser st))) @ concat (map on_line out)"
    using run_sinks_sends [OF dev, of "ser st" out] w unfolding wired_def by blast
  then show ?thesis using d w by (intro exI [of _ d] exI [of _ s]) (simp add: wired_def)
qed

lemma early_traps_gates:
  assumes "no_overlap idt 4096 desc 16"
  shows "gate_is (idt_setup_early_traps desc idt a m) (idt + 16) (INTG 1 a)" "gate_is (idt_setup_early_traps desc idt a m) (idt + 48) (INTG 3 a)"
proof -
  have t: "\<forall>d \<in> set (early_idt a). unat (vector d) < 256" "distinct (map vector (early_idt a))"
    by (simp_all add: early_idt_def INTG_def GATE_def)
  have g: "gate_is (idt_setup_early_traps desc idt a m) (idt_entry idt (vector d)) d" if "d \<in> set (early_idt a)" for d
    unfolding idt_setup_early_traps_def by (rule gate_is_init [OF setup_entry [OF assms t that]])
  have v: "vector (INTG i b) = i" for i b by (simp add: INTG_def GATE_def)
  show "gate_is (idt_setup_early_traps desc idt a m) (idt + 16) (INTG 1 a)" "gate_is (idt_setup_early_traps desc idt a m) (idt + 48) (INTG 3 a)"
    using g [of "INTG 1 a"] g [of "INTG 3 a"] by (simp_all add: early_idt_def v idt_entry_def)
qed

text \<open>
  C25: started on a fresh state with a 16550 on the port, \<^verbatim>\<open>main\<close> sends exactly its message, leaves gates for the debug and breakpoint
  vectors that lead to the debugger, and ends halted with interrupts off.
\<close>

theorem kernel_main_runs:
  assumes dev: "is_16550 (ports e) u busy" and fresh: "\<not> dbg_serial_initialized (ser (kd k))" "con (kd k) = dbgio_init" "putc_fn e \<noteq> 0"
    and idt: "no_overlap (idt_table l) 4096 (desc_local l) 16"
  shows "\<exists>k'. kernel_main e l k = Some k' \<and> halted k' \<and> \<not> intr k' \<and>
    u_sent (u (hw (ser (kd k')))) = u_sent (u (hw (ser (kd k)))) @ map of_char ''EOF'' \<and>
    gate_is (mem (kd k')) (idt_table l + 16) (INTG 1 (dbg_entry_fn l)) \<and>
    gate_is (mem (kd k')) (idt_table l + 48) (INTG 3 (dbg_entry_fn l))"
proof -
  let ?st = "init_dbg_print e (kd k)"
  let ?m = "idt_setup_early_traps (desc_local l) (idt_table l) (dbg_entry_fn l) (mem ?st)"
  have "serial_inv u (ser (kd k))" using fresh(1) by (simp add: serial_inv_def)
  note w = init_wires [OF dev this fresh(2,3)]
  have "renders (bytes ''EOF'') [] (bytes ''EOF'')" by (rule renders_plain) simp
  then obtain d s where "msg e ''EOF'' [] (?st\<lparr>mem := ?m\<rparr>) = Some (?st\<lparr>mem := ?m, con := d, ser := s\<rparr>)"
      "u_sent (u (hw s)) = u_sent (u (hw (ser ?st))) @ concat (map on_line (bytes ''EOF''))"
    using wired_msg [OF dev, of "?st\<lparr>mem := ?m\<rparr>" "''EOF''" "[]" "bytes ''EOF''"] w by (auto simp: plain_text_def)
  then show ?thesis
    using w early_traps_gates [OF idt, of "dbg_entry_fn l" "mem ?st"]
    by (simp add: kernel_main_def exit_kernel_def on_line_def Let_def)
qed

lemma renders_panic:
  assumes "text_is t bs"
  shows "renders (bytes (''Kernel panic: %s'' @ nl)) [VStr t] (bytes ''Kernel panic: '' @ bs @ [0x0A])"
proof -
  have "renders [0x0A] [] [0x0A]" by (rule renders_plain) simp
  then have "renders (0x25 # 0x73 # [0x0A]) [VStr t] (bs @ [0x0A])"
    by (intro r_conv [OF _ text_S [OF assms], where n = 1]) (simp_all add: conversion_def char_at_def)
  then have "renders (bytes ''Kernel panic: '' @ 0x25 # 0x73 # [0x0A]) [VStr t] (bytes ''Kernel panic: '' @ bs @ [0x0A])"
    by (rule renders_append_plain [rotated]) simp
  then show ?thesis by (simp add: nl_def)
qed

text \<open>
  \<^verbatim>\<open>panic\<close> sends its reason on the line and ends halted with interrupts off.
\<close>

theorem panic_reports:
  assumes "is_16550 (ports e) u busy" "wired e u (con (kd k)) (ser (kd k))" "text_is reason bs" "length bs < 1000"
  shows "\<exists>k'. panic e reason k = Some k' \<and> halted k' \<and> \<not> intr k' \<and>
    u_sent (u (hw (ser (kd k')))) = u_sent (u (hw (ser (kd k)))) @
      concat (map on_line (map of_char ''Kernel panic: '' @ bs @ [0x0A]))"
proof -
  have "plain_text (''Kernel panic: %s'' @ nl)" "length (bytes ''Kernel panic: '' @ bs @ [0x0A]) < 2 ^ 64"
    using assms(4) by (simp_all add: plain_text_def nl_def)
  from wired_msg [OF assms(1,2) this(1) renders_panic [OF assms(3)] this(2)] show ?thesis
    by (auto simp: panic_def exit_kernel_def simp del: append.simps)
qed

section \<open>A concrete machine\<close>

definition boot_env :: "demo_hw dbg_env" where
  "boot_env = \<lparr>ports = demo_ports, cmd_buffer = 0x5000, dbg_disasm_buffer = 0x6000, putc_fn = 0x1000\<rparr>"

definition boot_layout :: kernel_layout where
  "boot_layout = \<lparr>idt_table = 0x2000, desc_local = 0x8000, dbg_entry_fn = 0xFFFFFFFF80001234\<rparr>"

definition boot_machine :: "dbgio \<Rightarrow> demo_hw serial \<Rightarrow> demo_hw machine" where
  "boot_machine d s = \<lparr>kd = \<lparr>con = d, ser = s, mem = (\<lambda>_. 0), argv_buffer = replicate 8 0, stepping = False,
     dis = addr_init, dr = [0, 0, 0, 0], dr6 = 0, dr7 = 0x400\<rparr>, intr = True, halted = False\<rparr>"

lemma boot_16550: "is_16550 (ports boot_env) fst (\<lambda>h. fst (snd h))"
  by (simp add: boot_env_def demo_16550)

theorem kernel_main_runs_witness:
  "\<exists>k'. kernel_main boot_env boot_layout (boot_machine dbgio_init (demo_serial [])) = Some k' \<and> halted k' \<and> \<not> intr k' \<and>
    u_sent (fst (hw (ser (kd k')))) = [] @ map of_char ''EOF'' \<and>
    gate_is (mem (kd k')) (0x2000 + 16) (INTG 1 0xFFFFFFFF80001234) \<and> gate_is (mem (kd k')) (0x2000 + 48) (INTG 3 0xFFFFFFFF80001234)"
proof -
  have "no_overlap (idt_table boot_layout) 4096 (desc_local boot_layout) 16"
    by (rule no_overlap_linear) (simp_all add: boot_layout_def)
  from kernel_main_runs [OF boot_16550 _ _ _ this, of "boot_machine dbgio_init (demo_serial [])"] show ?thesis
    by (simp add: boot_machine_def demo_serial_def boot_layout_def boot_env_def)
qed

theorem panic_reports_witness:
  "\<exists>k'. panic boot_env (text_lit ''oom'') (boot_machine one_sink (demo_ready [])) = Some k' \<and> halted k' \<and> \<not> intr k' \<and>
    u_sent (fst (hw (ser (kd k')))) = u_sent (fst (hw (ser (kd (boot_machine one_sink (demo_ready [])))))) @
      concat (map on_line (map of_char ''Kernel panic: '' @ map of_char ''oom'' @ [0x0A]))"
proof (rule panic_reports [OF boot_16550])
  show "wired boot_env fst (con (kd (boot_machine one_sink (demo_ready [])))) (ser (kd (boot_machine one_sink (demo_ready []))))"
    by (simp add: wired_def boot_machine_def boot_env_def one_sink_def dbg_register_sink_def dbgio_init_def dbgio_inv_def
        DBG_MAX_CHARSINKS_def four_zeros)
  show "text_is (text_lit ''oom'') (bytes ''oom'')" by (rule text_lit) (simp add: plain_text_def)
qed simp

end
