(* ===== verification/Spec2Isabelle.thy ===== *)
theory Spec2Isabelle
  imports Kernel_Lib Boot_Map Elf_Load Boot_X64 Efi_Reloc Efi_Number Efi_Dppath Dbg_Session Kernel_Main
begin

text \<open>
  \<^bold>\<open>MidnightOS: the boot chain, the kernel start-up and the kernel debugger.\<close>

  The system starts in three programs.  The firmware runs \<^verbatim>\<open>bootx64\<close> (\<^verbatim>\<open>bootloader/uefi-x86_64/bootx64\<close>), which looks for
  \<^verbatim>\<open>NYXBOOT.EFI\<close> on every file system and starts it.  The boot loader \<^verbatim>\<open>nyxboot\<close> (\<^verbatim>\<open>bootloader/uefi-x86_64/nyxboot\<close>) finds its partition by
  GUID, reads and checks the boot configuration, loads the kernel's ELF file, builds four-level page tables and the boot
  information structure, leaves the firmware's boot services and jumps to the kernel.  The kernel (\<^verbatim>\<open>arch/x86_64\<close>, \<^verbatim>\<open>debug\<close>, \<^verbatim>\<open>lib\<close>,
  \<^verbatim>\<open>mm\<close>) sets up the debug output on a serial line, installs the interrupt gates of the debugger and halts; its debugger is entered by
  the breakpoint and debug exceptions and has a command line, a disassembler and hardware breakpoints.  Both boot programs link the EFI
  library \<^verbatim>\<open>bootloader/gnu-efi\<close>.

  \<^bold>\<open>How the code is modelled.\<close>  An address is a 64-bit word, memory a function from addresses to bytes, and every structure of
  the C code that a claim depends on is a range of bytes at an address, read and written field by field; integers keep the width
  the source gives them and wrap.  A C function becomes a function from memory (or a record of the state it touches) to its
  result and the new memory, with every early return as a branch.  Firmware services, port instructions and other things that are
  not in the repository are fields of a record or arguments; what the UEFI specification or the data sheet promises of them
  is a named predicate that a theorem takes as a hypothesis, and every such hypothesis has a concrete instance in a witness.
  A loop that need not end is a \<open>partial_function (option)\<close>: the value \<open>None\<close> means that it never returns, and the theorems
  about such functions prove that they do return \<open>Some\<close>.  There is no fuel; the two counters that look like it are bounds of the source:
  \<^verbatim>\<open>leave_firmware\<close> makes \<^verbatim>\<open>EXIT_BS_MAX_ATTEMPTS\<close> attempts, and \<^verbatim>\<open>DevicePathInstance\<close> gives up after 512 nodes (octal \<^verbatim>\<open>01000\<close>).

  \<^bold>\<open>The theories.\<close>
  \<^item> \<open>Prelude\<close>: words, memory, little-endian integers, strings, offsets and overlap.  \<open>Mem_Specs\<close>: contracts of the memory and string
    primitives as locales (\<open>copy_routine\<close>, \<open>fill_routine\<close>, \<open>compare_routine\<close>, \<open>strlen_routine\<close>, \<open>strcmp_routine\<close>), because the repository has three
    implementations of each; each implementation is an interpretation.
  \<^item> \<open>Kernel_Lib\<close>: \<^verbatim>\<open>lib/*.c\<close>.  \<open>Efi_Rt\<close>, \<open>Efi_Str\<close>: gnu-efi's \<^verbatim>\<open>lib/runtime/efirtlib.c\<close>, \<^verbatim>\<open>rtstr.c\<close>, \<^verbatim>\<open>lib/str.c\<close>, \<^verbatim>\<open>lib/guid.c\<close>: memory, wide and narrow strings, the
    pattern matcher.  Copies are correct for overlapping blocks, matching is glob matching.
  \<^item> \<open>Boot_Services\<close>: the firmware's services as a record over an arbitrary firmware state.  \<open>Efi_Misc\<close>: \<^verbatim>\<open>lib/misc.c\<close>, pool memory, the
    buffer-growing protocol, variables, the check of a master boot record.  \<open>Efi_Dpath\<close>: \<^verbatim>\<open>lib/dpath.c\<close>, device paths as lists of nodes.
  \<^item> \<open>Efi_Print\<close>: \<^verbatim>\<open>lib/print.c\<close>, \<^verbatim>\<open>lib/error.c\<close>, \<^verbatim>\<open>lib/x86_64/math.c\<close> and the names of \<^verbatim>\<open>lib/guid.c\<close>: one formatter over an abstract output device, and its front ends to
    memory, to pool memory and to the console.  \<open>Efi_Fmt\<close>: formats as lists of directives with an encoding as text and a meaning, a list of characters and attribute changes.
    \<open>Efi_Render\<close>: the formatter produces the meaning on every device that keeps its texts readable (locales \<open>printer\<close> and \<open>formatter\<close>); \<open>Efi_Sprint\<close>: the theorems for \<^verbatim>\<open>UnicodeSPrint\<close> and
    \<^verbatim>\<open>Print\<close>.  \<open>Efi_Number\<close>: printed numbers are read back.  \<open>Efi_Reloc\<close>: \<^verbatim>\<open>gnuefi/reloc_x86_64.c\<close>, the self-relocation of both boot programs.
  \<^item> \<open>Efi_Pool\<close>: what the firmware's pool promises, and that text printed to pool memory arrives in a block of its own however often it grows.  \<open>Efi_Dpstr\<close>: the second half of
    \<^verbatim>\<open>lib/dpath.c\<close>, the printers of device path nodes and \<^verbatim>\<open>DevicePathToStr\<close>.  \<open>Efi_Dptext\<close>, \<open>Efi_Dpnode\<close>: calls of the formatter that append a text, and unpacked nodes in memory.
    \<open>Efi_Dpprint\<close>, \<open>Efi_Dpnet\<close>: the text of each kind of node as a function of its data, which its printer appends.
    \<open>Efi_Dppath\<close>: the copy that \<^verbatim>\<open>UnpackDevicePath\<close> makes, the walk along it, and the string that \<^verbatim>\<open>DevicePathToStr\<close> returns.
  \<^item> \<open>Crc32\<close>: \<^verbatim>\<open>nyxboot/src/crc32.c\<close> and \<^verbatim>\<open>lib/crc.c\<close>; both equal the bit-by-bit definition, and the checksum detects every corruption of one byte.
  \<^item> \<open>Boot_X64\<close>: \<^verbatim>\<open>bootx64.c\<close>.  \<open>Boot_Fs\<close>: \<^verbatim>\<open>nyxboot/src/fs.c\<close>.  \<open>Boot_Cfg\<close>: \<^verbatim>\<open>cfgparse.c\<close>, with a reference encoding of configuration files, read back
    by the parser and rejected after corruption.  \<open>Boot_Elf\<close>: \<^verbatim>\<open>elf.c\<close>; \<open>Elf_Load\<close>: what the loader leaves in memory for a well-formed file.
  \<^item> \<open>Page_Tables\<close>: \<^verbatim>\<open>nyxboot/src/memory.c\<close>, against the processor's four-level walk as the abstract specification; the locale \<open>table_store\<close> is the
    interface between tables and memory.  \<open>Boot_Info\<close>: \<^verbatim>\<open>types.c\<close> and \<^verbatim>\<open>bootinfo.c\<close>.  \<open>Boot_Main\<close>: \<^verbatim>\<open>main.c\<close>, whose outcomes are a return to the firmware or the
    jump to the kernel.  \<open>Boot_Map\<close>: what \<^verbatim>\<open>map_memory\<close> leaves in the page tables, as a list of requests.
  \<^item> \<open>Dbg_Io\<close>: \<^verbatim>\<open>debug/dbgio.c\<close>, with the text a format denotes as specification.  \<open>Dbg_Serial\<close>: \<^verbatim>\<open>dbg_serial.c\<close> on a 16550.  \<open>Disasm_Tables\<close>, \<open>Disasm\<close>:
    \<^verbatim>\<open>disasm.h\<close>.  \<open>Dbg_Cmd\<close>, \<open>Debugger\<close>, \<open>Dbg_Session\<close>: \<^verbatim>\<open>arch/x86_64/debug/debug.c\<close>, from the line editor to whole sessions.
  \<^item> \<open>Idt\<close>: \<^verbatim>\<open>kernel/idt.c\<close>.  \<open>Kernel_Main\<close>: \<^verbatim>\<open>init/main.c\<close>, \<^verbatim>\<open>kernel/panic.c\<close> and the static data of \<^verbatim>\<open>mm/memblock.c\<close>.

  \<^bold>\<open>Not modelled.\<close>  The firmware, the processor beyond the page walk and the debug registers, and assembly entry code.  Of gnu-efi: \<^verbatim>\<open>FloatToString\<close> (floating point), which is an
  argument of the formatter, as is the conversion of \<^verbatim>\<open>%D\<close>; \<^verbatim>\<open>DumpHex\<close> and console input; the handle database, simple readers and events (\<^verbatim>\<open>hand.c\<close>,
  \<^verbatim>\<open>sread.c\<close>, \<^verbatim>\<open>event.c\<close>), which the boot programs do not call; the start-up code that copies pointers of the firmware tables; its code for other processors, its
  sample programs and the headers that only declare firmware interfaces.  Messages printed by the boot programs on errors; the makefile generator under \<^verbatim>\<open>scripts\<close>,
  whose parser is generated.
\<close>

end
